(* ===== verification/Prelude.thy ===== *)
theory Prelude
  imports Main "HOL-Library.Word"
begin

text \<open>
  Shared vocabulary of the development: bytes and characters, exceptions as values, the
  C library character classes, decimal numbers, and the position-based string searches of
  \<open>std::string\<close>.  Nothing in this theory models a particular source file; the components
  import it and translate their own functions on top of it.
\<close>

unbundle bit_operations_syntax

named_theorems codec_simps \<open>equations the codec proofs unfold\<close>
named_theorems reader_simps \<open>what each packet reader step does on a buffer with enough bytes\<close>
named_theorems inv_intros \<open>introduction rules for component invariants\<close>

subsection \<open>Types and exceptions\<close>

type_synonym byte = "8 word"
type_synonym u16 = "16 word"
type_synonym u32 = "32 word"
type_synonym u64 = "64 word"

text \<open>
  The exceptions the sources throw, by C++ class.  \<open>UndefinedBehaviour\<close> is no exception:
  it marks a read or write outside an object, which the sources do not check for.
\<close>

datatype exn =
    OutOfRange
  | LengthError
  | MOADNSException string
  | RuntimeError string
  | RangeError string
  | RecordTextException string
  | AhuException string
  | NetmaskException string
  | BadLexicalCast
  | UndefinedBehaviour

type_synonym 'a result = "exn + 'a"

definition bindE :: "'e + 'a \<Rightarrow> ('a \<Rightarrow> 'e + 'b) \<Rightarrow> 'e + 'b" where
  "bindE m f = (case m of Inl e \<Rightarrow> Inl e | Inr a \<Rightarrow> f a)"

lemma bindE_simps [simp]:
  "bindE (Inl e) f = Inl e"
  "bindE (Inr a) f = f a"
  by (simp_all add: bindE_def)

lemma bindE_eq_Inr [simp]: "bindE m f = Inr b \<longleftrightarrow> (\<exists>a. m = Inr a \<and> f a = Inr b)"
  by (cases m) auto

lemma bindE_eq_Inl: "bindE m f = Inl e \<longleftrightarrow> m = Inl e \<or> (\<exists>a. m = Inr a \<and> f a = Inl e)"
  by (cases m) auto

lemma bindE_cong [fundef_cong]:
  "m = m' \<Longrightarrow> (\<And>a. m' = Inr a \<Longrightarrow> f a = f' a) \<Longrightarrow> bindE m f = bindE m' f'"
  by (cases m') auto

subsection \<open>Bytes and characters\<close>

text \<open>
  A \<open>char\<close> and an \<open>unsigned char\<close> are the same eight bits; a \<open>std::string\<close> and a
  \<open>vector<uint8_t>\<close> hold the same data.  \<open>scode\<close> is the value of a (signed) \<open>char\<close> in
  arithmetic and comparisons, \<open>ucode\<close> that of an \<open>unsigned char\<close>.
\<close>

definition c2b :: "char \<Rightarrow> byte" where
  "c2b c = word_of_nat (of_char c)"

definition b2c :: "byte \<Rightarrow> char" where
  "b2c b = char_of (unat b)"

definition ucode :: "char \<Rightarrow> nat" where
  "ucode c = of_char c"

definition scode :: "char \<Rightarrow> int" where
  "scode c = sint (c2b c)"

lemma b2c_c2b [simp]: "b2c (c2b c) = c"
proof -
  have "unat (c2b c) = of_char c"
    by (simp add: c2b_def unat_of_nat take_bit_nat_def)
  then show ?thesis by (simp add: b2c_def)
qed

lemma c2b_b2c [simp]: "c2b (b2c b) = b"
proof -
  have "unat b < 256" using unsigned_less [of b] by simp
  then show ?thesis
    by (simp add: c2b_def b2c_def of_char_of)
qed

lemma c2b_inject [simp]: "c2b c = c2b d \<longleftrightarrow> c = d"
  by (metis b2c_c2b)

lemma b2c_inject [simp]: "b2c a = b2c b \<longleftrightarrow> a = b"
  by (metis c2b_b2c)

lemma ucode_less [simp]: "ucode c < 256"
  by (simp add: ucode_def)

lemma unat_c2b [simp]: "unat (c2b c) = ucode c"
  by (simp add: c2b_def ucode_def unat_of_nat take_bit_nat_def)

lemma ucode_b2c [simp]: "ucode (b2c b) = unat b"
  by (metis c2b_b2c unat_c2b)

lemma b2c_eq_iff: "b2c b = c \<longleftrightarrow> b = c2b c"
  by (metis b2c_c2b c2b_b2c)

lemma map_b2c_c2b [simp]: "map b2c (map c2b s) = s"
  by (simp add: map_idI)

lemma map_c2b_b2c [simp]: "map c2b (map b2c s) = s"
  by (simp add: map_idI)

subsection \<open>The bits of a byte\<close>

lemma bit_index8: "(n::nat) < LENGTH(8) \<Longrightarrow> n = 0 \<or> n = 1 \<or> n = 2 \<or> n = 3 \<or> n = 4 \<or> n = 5 \<or> n = 6 \<or> n = 7" by (simp, arith)

lemma byte_bit_high: "8 \<le> n \<Longrightarrow> \<not> bit (b :: byte) n"
  by (auto dest: bit_imp_le_length)

subsection \<open>Character classes of the C locale\<close>

definition isdigit :: "char \<Rightarrow> bool" where
  "isdigit c \<longleftrightarrow> 48 \<le> ucode c \<and> ucode c \<le> 57"

definition isupper :: "char \<Rightarrow> bool" where
  "isupper c \<longleftrightarrow> 65 \<le> ucode c \<and> ucode c \<le> 90"

definition islower :: "char \<Rightarrow> bool" where
  "islower c \<longleftrightarrow> 97 \<le> ucode c \<and> ucode c \<le> 122"

definition isalnum :: "char \<Rightarrow> bool" where
  "isalnum c \<longleftrightarrow> isdigit c \<or> isupper c \<or> islower c"

definition isspace :: "char \<Rightarrow> bool" where
  "isspace c \<longleftrightarrow> ucode c = 32 \<or> (9 \<le> ucode c \<and> ucode c \<le> 13)"

definition digit_val :: "char \<Rightarrow> nat" where
  "digit_val c = ucode c - 48"

subsection \<open>Decimal numbers\<close>

text \<open>
  \<open>show_nat\<close> is what \<open>ostream << n\<close>, \<open>lexical_cast<string>\<close> and \<open>printf("%u")\<close> print;
  \<open>digits_val\<close> is the value \<open>strtoul\<close> gives to a run of digits.
\<close>

definition digit_char :: "nat \<Rightarrow> char" where
  "digit_char d = char_of (48 + d)"

fun show_nat :: "nat \<Rightarrow> string" where
  "show_nat n = (if n < 10 then [digit_char n] else show_nat (n div 10) @ [digit_char (n mod 10)])"

declare show_nat.simps [simp del]

definition digits_val :: "string \<Rightarrow> nat" where
  "digits_val s = foldl (\<lambda>a c. 10 * a + digit_val c) 0 s"

lemma ucode_digit_char [simp]: "d < 10 \<Longrightarrow> ucode (digit_char d) = 48 + d"
  by (simp add: ucode_def digit_char_def)

lemma isdigit_digit_char [simp]: "d < 10 \<Longrightarrow> isdigit (digit_char d)"
  by (simp add: isdigit_def)

lemma digit_val_digit_char [simp]: "d < 10 \<Longrightarrow> digit_val (digit_char d) = d"
  by (simp add: digit_val_def)

lemma show_nat_digits: "\<forall>c \<in> set (show_nat n). isdigit c"
proof (induction n rule: show_nat.induct)
  case (1 n)
  then show ?case by (subst show_nat.simps) auto
qed

lemma show_nat_nonempty [simp]: "show_nat n \<noteq> []"
  by (subst show_nat.simps) simp

lemma digits_val_append: "digits_val (s @ [c]) = 10 * digits_val s + digit_val c"
  by (simp add: digits_val_def)

lemma digits_val_show_nat [simp]: "digits_val (show_nat n) = n"
proof (induction n rule: show_nat.induct)
  case (1 n)
  show ?case
  proof (cases "n < 10")
    case True
    then show ?thesis by (subst show_nat.simps) (simp add: digits_val_def)
  next
    case False
    then have "digits_val (show_nat n) = 10 * (n div 10) + n mod 10"
      using 1 by (subst show_nat.simps) (simp add: digits_val_append)
    then show ?thesis by simp
  qed
qed

text \<open>
  \<open>atoi\<close>: white space, one sign, then digits up to the first other character.  The C
  function is undefined once the value leaves \<open>int\<close>; callers here truncate the
  result to 16 or 8 bits.
\<close>

fun digit_prefix :: "string \<Rightarrow> string" where
  "digit_prefix [] = []"
| "digit_prefix (c # s) = (if isdigit c then c # digit_prefix s else [])"

definition atoi :: "string \<Rightarrow> int" where
  "atoi s = (case dropWhile isspace s of
      [] \<Rightarrow> 0
    | c # r \<Rightarrow> (if c = CHR ''-'' then - int (digits_val (digit_prefix r))
               else if c = CHR ''+'' then int (digits_val (digit_prefix r))
               else int (digits_val (digit_prefix (c # r)))))"

lemma digit_prefix_append:
  "\<forall>c \<in> set s. isdigit c \<Longrightarrow> t = [] \<or> \<not> isdigit (hd t) \<Longrightarrow> digit_prefix (s @ t) = s"
proof (induction s)
  case Nil
  then show ?case by (cases t) auto
qed simp

lemma isdigit_not_special:
  "isdigit c \<Longrightarrow> \<not> isspace c \<and> c \<noteq> CHR ''-'' \<and> c \<noteq> CHR ''+''"
  by (auto simp: isdigit_def isspace_def ucode_def)

lemma atoi_show_nat [simp]: "atoi (show_nat n) = int n"
proof -
  obtain c r where cr: "show_nat n = c # r" using show_nat_nonempty by (meson neq_Nil_conv)
  then have c: "isdigit c" using show_nat_digits [of n] by simp
  have "digit_prefix (show_nat n) = show_nat n"
    using digit_prefix_append [of "show_nat n" "[]"] show_nat_digits by simp
  then show ?thesis
    using c isdigit_not_special [OF c] digits_val_show_nat [of n] by (simp add: atoi_def cr)
qed

subsection \<open>Network byte order\<close>

text \<open>The two bytes \<open>htons\<close> makes of a number, of which the low 16 bits count.\<close>

definition be16 :: "nat \<Rightarrow> byte list" where
  "be16 n = [word_of_nat (n div 256), word_of_nat n]"

lemma length_be16 [simp]: "length (be16 n) = 2"
  by (simp add: be16_def)

text \<open>
  A number read from bytes: \<open>le16\<close> is what a 16-bit field of a struct holds after
  \<open>memcpy\<close> (on a little-endian host), \<open>ntohs\<close> swaps it; \<open>be_val\<close> is the value of bytes in
  network order, \<open>be_bytes\<close> the bytes of a value.
\<close>

definition le16 :: "byte \<Rightarrow> byte \<Rightarrow> u16" where
  "le16 a b = push_bit 8 (ucast b) OR ucast a"

definition ntohs :: "u16 \<Rightarrow> u16" where
  "ntohs w = push_bit 8 w OR drop_bit 8 w"

definition be_val16 :: "byte \<Rightarrow> byte \<Rightarrow> u16" where
  "be_val16 a b = push_bit 8 (ucast a) OR ucast b"

definition be_val32 :: "byte \<Rightarrow> byte \<Rightarrow> byte \<Rightarrow> byte \<Rightarrow> u32" where
  "be_val32 a b c d = push_bit 24 (ucast a) OR push_bit 16 (ucast b) OR push_bit 8 (ucast c) OR ucast d"

definition be_bytes16 :: "u16 \<Rightarrow> byte list" where
  "be_bytes16 w = [ucast (drop_bit 8 w), ucast w]"

definition be_bytes32 :: "u32 \<Rightarrow> byte list" where
  "be_bytes32 w = [ucast (drop_bit 24 w), ucast (drop_bit 16 w), ucast (drop_bit 8 w), ucast w]"

lemma length_be_bytes [simp]: "length (be_bytes16 w) = 2" "length (be_bytes32 v) = 4"
  by (simp_all add: be_bytes16_def be_bytes32_def)

lemma be_val_bytes [codec_simps]:
  "be_val16 (ucast (drop_bit 8 w)) (ucast w) = w"
  "be_val32 (ucast (drop_bit 24 v)) (ucast (drop_bit 16 v)) (ucast (drop_bit 8 v)) (ucast v) = v"
proof -
  show "be_val16 (ucast (drop_bit 8 w)) (ucast w) = w"
    by (rule bit_word_eqI) (auto simp: be_val16_def bit_simps)
  have "bit (be_val32 (ucast (drop_bit 24 v)) (ucast (drop_bit 16 v)) (ucast (drop_bit 8 v)) (ucast v)) n = bit v n"
    if "n < LENGTH(32)" for n
  proof -
    consider "n < 8" | "8 \<le> n" "n < 16" | "16 \<le> n" "n < 24" | "24 \<le> n" by linarith
    then show ?thesis using that by cases (auto simp: be_val32_def bit_simps)
  qed
  then show "be_val32 (ucast (drop_bit 24 v)) (ucast (drop_bit 16 v)) (ucast (drop_bit 8 v)) (ucast v) = v"
    by (rule bit_word_eqI)
qed

lemma be_bytes_val [codec_simps]:
  "be_bytes16 (be_val16 a b) = [a, b]"
  "be_bytes32 (be_val32 a b c d) = [a, b, c, d]"
  unfolding be_val16_def be_val32_def be_bytes16_def be_bytes32_def list.inject
  by (intro conjI refl; rule bit_word_eqI, drule bit_index8, elim disjE; simp add: bit_simps byte_bit_high)+

lemma ntohs_ntohs [simp]: "ntohs (ntohs w) = w"
  by (rule bit_word_eqI) (auto simp: ntohs_def bit_simps)

lemma ntohs_le16 [simp]: "ntohs (le16 a b) = be_val16 a b"
  by (rule bit_word_eqI) (auto simp: ntohs_def le16_def be_val16_def bit_simps byte_bit_high)

subsection \<open>Searching strings\<close>

fun find_idx :: "('a \<Rightarrow> bool) \<Rightarrow> 'a list \<Rightarrow> nat option" where
  "find_idx P [] = None"
| "find_idx P (x # xs) = (if P x then Some 0 else map_option Suc (find_idx P xs))"

definition find_from :: "('a \<Rightarrow> bool) \<Rightarrow> 'a list \<Rightarrow> nat \<Rightarrow> nat option" where
  "find_from P xs i = map_option (\<lambda>j. i + j) (find_idx P (drop i xs))"

lemma find_idx_None: "find_idx P xs = None \<longleftrightarrow> (\<forall>x \<in> set xs. \<not> P x)"
  by (induction xs) auto

lemma find_idx_Some:
  "find_idx P xs = Some i \<longleftrightarrow> i < length xs \<and> P (xs ! i) \<and> (\<forall>j < i. \<not> P (xs ! j))"
proof (induction xs arbitrary: i)
  case Nil
  then show ?case by simp
next
  case (Cons x xs)
  show ?case
  proof (cases i)
    case 0
    then show ?thesis by (auto simp: Cons)
  next
    case (Suc k)
    then show ?thesis by (auto simp: Cons less_Suc_eq_0_disj all_conj_distrib)
  qed
qed

lemma find_idx_take_drop:
  assumes "find_idx P xs = Some i"
  shows "xs = take i xs @ xs ! i # drop (Suc i) xs" "P (xs ! i)" "\<forall>x \<in> set (take i xs). \<not> P x"
  using assms by (auto simp: find_idx_Some id_take_nth_drop in_set_conv_nth)

lemma find_idx_append:
  "\<forall>x \<in> set xs. \<not> P x \<Longrightarrow> P y \<Longrightarrow> find_idx P (xs @ y # ys) = Some (length xs)"
  by (induction xs) auto

lemma find_from_Some:
  "find_from P xs i = Some k \<Longrightarrow> i \<le> k \<and> k < length xs \<and> P (xs ! k)"
  by (auto simp: find_from_def find_idx_Some)

definition substr :: "'a list \<Rightarrow> nat \<Rightarrow> nat \<Rightarrow> 'a list" where
  "substr xs pos n = take n (drop pos xs)"

text \<open>\<open>boost::replace_all\<close>: from the left, without looking at what was put in.\<close>

function replace_all :: "string \<Rightarrow> string \<Rightarrow> string \<Rightarrow> string" where
  "replace_all pat rep [] = []"
| "replace_all pat rep (c # s) =
     (if pat \<noteq> [] \<and> take (length pat) (c # s) = pat
      then rep @ replace_all pat rep (drop (length pat) (c # s))
      else c # replace_all pat rep s)"
  by pat_completeness auto
termination
  by (relation "measure (\<lambda>(pat, rep, s). length s)") auto

text \<open>\<open>vector::at\<close> and \<open>string::at\<close>.\<close>

definition at :: "'a list \<Rightarrow> nat \<Rightarrow> 'a result" where
  "at xs i = (if i < length xs then Inr (xs ! i) else Inl OutOfRange)"

lemma at_eq_Inr [simp]: "at xs i = Inr x \<longleftrightarrow> i < length xs \<and> xs ! i = x"
  by (auto simp: at_def)

lemma at_append: "i < length xs \<Longrightarrow> at (xs @ ys) i = Inr (xs ! i)"
  by (simp add: at_def nth_append)

text \<open>
  \<open>strtoul\<close> in base 10: the value, saturated at \<open>ULONG_MAX\<close>, and the number of characters
  read; nothing is read when there is no digit.
\<close>

definition strtoul :: "string \<Rightarrow> u64 \<times> nat" where
  "strtoul s =
     (let sp = length (takeWhile isspace s); r = drop sp s;
          neg = (r \<noteq> [] \<and> hd r = CHR ''-''); sgn = (r \<noteq> [] \<and> (hd r = CHR ''-'' \<or> hd r = CHR ''+''));
          ds = digit_prefix (if sgn then tl r else r);
          v = word_of_nat (min (digits_val ds) (2 ^ 64 - 1))
      in if ds = [] then (0, 0)
         else ((if neg \<and> digits_val ds < 2 ^ 64 then - v else v), sp + (if sgn then 1 else 0) + length ds))"

lemma digit_prefix_id: "\<forall>c \<in> set s. isdigit c \<Longrightarrow> digit_prefix s = s"
  using digit_prefix_append [of s "[]"] by simp

lemma strtoul_show_nat:
  assumes "n < 2 ^ 64" "t = [] \<or> \<not> isdigit (hd t)"
  shows "strtoul (show_nat n @ t) = (word_of_nat n, length (show_nat n))"
proof -
  obtain c r where cr: "show_nat n = c # r" using show_nat_nonempty by (meson neq_Nil_conv)
  then have c: "isdigit c" using show_nat_digits [of n] by simp
  have d: "digit_prefix (show_nat n @ t) = show_nat n"
    using digit_prefix_append [OF show_nat_digits assms(2)] .
  from isdigit_not_special [OF c] show ?thesis
    using assms(1) d digits_val_show_nat [of n] by (simp add: strtoul_def cr Let_def)
qed

subsection \<open>Codecs\<close>

text \<open>
  The contract of an encoder and its decoder: what is encoded from the domain \<open>ok\<close> decodes
  to itself.  The base32 and base64 codecs, the address printers and the record formats
  provide it.
\<close>

locale codec =
  fixes enc :: "'a \<Rightarrow> 'b" and dec :: "'b \<Rightarrow> 'a result" and ok :: "'a \<Rightarrow> bool"
  assumes dec_enc: "ok x \<Longrightarrow> dec (enc x) = Inr x"
begin

lemma enc_inject: "ok x \<Longrightarrow> ok y \<Longrightarrow> enc x = enc y \<longleftrightarrow> x = y"
  using dec_enc by (metis sum.inject(2))

lemma dec_not_error: "ok x \<Longrightarrow> dec (enc x) \<noteq> Inl e"
  by (simp add: dec_enc)

lemma dec_enc_idem: "ok x \<Longrightarrow> bindE (dec (enc x)) (\<lambda>y. dec (enc y)) = dec (enc x)"
  by (simp add: dec_enc)

end

end
