(* ===== verification/Misc.thy ===== *)
theory Misc
  imports Prelude "HOL-Library.List_Lexorder"
begin

text \<open>
  The string and domain-name utilities of \<open>misc.cc\<close> and \<open>misc.hh\<close>: case folding, suffix
  tests, label chopping, tokenising, service descriptions, time arithmetic and the
  retrying writes.  A function that changes a string in place returns the new string,
  paired with its \<open>bool\<close> result where it has one.
\<close>

subsection \<open>Characters and case folding\<close>

definition dns_isspace :: "char \<Rightarrow> bool" where
  "dns_isspace c \<longleftrightarrow> c = CHR '' '' \<or> c = CHR 0x09 \<or> c = CHR 0x0D \<or> c = CHR 0x0A"

text \<open>Bytes of 128 and more are negative as \<open>char\<close>, so they fail \<open>c >= 'A'\<close>.\<close>

definition dns_tolower :: "char \<Rightarrow> char" where
  "dns_tolower c = (if 65 \<le> ucode c \<and> ucode c \<le> 90 then char_of (ucode c + 32) else c)"

definition toLower :: "string \<Rightarrow> string" where
  "toLower upper = map dns_tolower upper"

definition toLowerCanonic :: "string \<Rightarrow> string" where
  "toLowerCanonic upper =
     (let reply = map dns_tolower upper
      in if upper \<noteq> [] \<and> last upper = CHR ''.'' then butlast reply else reply)"

definition toUpper :: "string \<Rightarrow> string" where
  "toUpper s = map (\<lambda>c. if islower c then char_of (ucode c - 32) else c) s"

fun ciEqual_loop :: "string \<Rightarrow> string \<Rightarrow> bool" where
  "ciEqual_loop (a # as) (b # bs) = (if dns_tolower a \<noteq> dns_tolower b then False else ciEqual_loop as bs)"
| "ciEqual_loop _ _ = True"

definition ciEqual :: "string \<Rightarrow> string \<Rightarrow> bool" where
  "ciEqual a b = (if length a \<noteq> length b then False else ciEqual_loop a b)"

fun pdns_iequals :: "string \<Rightarrow> string \<Rightarrow> bool" where
  "pdns_iequals (a # as) (b # bs) =
     (if dns_tolower a \<noteq> dns_tolower b then False else pdns_iequals as bs)"
| "pdns_iequals a b = (length a = length b)"

text \<open>The difference of two \<open>char\<close>s is taken on their signed values.\<close>

fun pdns_ilexicographical_compare :: "string \<Rightarrow> string \<Rightarrow> bool" where
  "pdns_ilexicographical_compare (a # as) (b # bs) =
     (let result = scode (dns_tolower a) - scode (dns_tolower b)
      in if result \<noteq> 0 then result < 0 else pdns_ilexicographical_compare as bs)"
| "pdns_ilexicographical_compare [] [] = False"
| "pdns_ilexicographical_compare [] (b # bs) = True"
| "pdns_ilexicographical_compare (a # as) [] = False"

subsection \<open>Names and suffixes\<close>

definition endsOn :: "string \<Rightarrow> string \<Rightarrow> bool" where
  "endsOn domain suffix =
     (if suffix = [] \<or> ciEqual domain suffix then True
      else if length domain \<le> length suffix then False
      else let dpos = length domain - length suffix - 1
           in if domain ! dpos \<noteq> CHR ''.'' then False
              else list_all2 (\<lambda>x y. dns_tolower x = dns_tolower y) (drop (dpos + 1) domain) suffix)"

definition dottedEndsOn :: "string \<Rightarrow> string \<Rightarrow> bool" where
  "dottedEndsOn domain suffix =
     (if suffix = ''.'' \<or> ciEqual domain suffix then True
      else if length domain \<le> length suffix then False
      else let dpos = length domain - length suffix - 1
           in if domain ! dpos \<noteq> CHR ''.'' then False
              else list_all2 (\<lambda>x y. dns_tolower x = dns_tolower y) (drop (dpos + 1) domain) suffix)"

definition stripDomainSuffix :: "string \<Rightarrow> string \<Rightarrow> bool \<times> string" where
  "stripDomainSuffix qname domain =
     (if \<not> endsOn qname domain then (False, qname)
      else if toLower qname = toLower domain then (True, ''@'')
      else if qname ! (length qname - length domain - 1) \<noteq> CHR ''.'' then (False, qname)
      else (True, take (length qname - length domain - 1) qname))"

definition chopOff :: "string \<Rightarrow> bool \<times> string" where
  "chopOff domain =
     (if domain = [] then (False, domain)
      else case find_idx (\<lambda>c. c = CHR ''.'') domain of
             None \<Rightarrow> (True, [])
           | Some fdot \<Rightarrow> (True, drop (fdot + 1) domain))"

definition chopOffDotted :: "string \<Rightarrow> bool \<times> string" where
  "chopOffDotted domain =
     (if domain = [] \<or> (length domain = 1 \<and> domain ! 0 = CHR ''.'') then (False, domain)
      else case find_idx (\<lambda>c. c = CHR ''.'') domain of
             None \<Rightarrow> (False, domain)
           | Some fdot \<Rightarrow>
               (if fdot = length domain - 1 then (True, ''.'')
                else (True, drop (fdot + 1) domain)))"

definition isCanonical :: "string \<Rightarrow> bool" where
  "isCanonical dm = (if dm = [] then False else last dm = CHR ''.'')"

definition toCanonic :: "string \<Rightarrow> string \<Rightarrow> string" where
  "toCanonic zone domain =
     (if length domain = 1 \<and> domain ! 0 = CHR ''@'' then zone
      else if isCanonical domain then domain
      else let ret = domain @ ''.''
           in if zone \<noteq> [] \<and> zone ! 0 \<noteq> CHR ''.'' then ret @ zone else ret)"

definition stripDot :: "string \<Rightarrow> string" where
  "stripDot dm =
     (if dm = [] then dm
      else if last dm \<noteq> CHR ''.'' then dm
      else take (length dm - 1) dm)"

text \<open>
  \<open>fqdn.size() - zone.length() - 1\<close> is a \<open>size_t\<close>: below zero it wraps to a huge count, and
  \<open>substr\<close> then returns the whole name.
\<close>

definition makeRelative :: "string \<Rightarrow> string \<Rightarrow> string" where
  "makeRelative fqdn zone =
     (if zone = [] then fqdn
      else if fqdn \<noteq> zone then
        (if length fqdn < length zone + 1 then fqdn
         else take (length fqdn - length zone - 1) fqdn)
      else [])"

definition dotConcat :: "string \<Rightarrow> string \<Rightarrow> string" where
  "dotConcat a b = (if a = [] \<or> b = [] then a @ b else a @ ''.'' @ b)"

subsection \<open>Tokenising\<close>

text \<open>
  \<open>stringtok\<close> and \<open>vstringtok\<close> share one loop over the position \<open>i\<close>; the first stores
  substrings, the second begin and end offsets.  \<open>delim\<close> tells the delimiter characters.
\<close>

function vstringtok_loop :: "(char \<Rightarrow> bool) \<Rightarrow> string \<Rightarrow> nat \<Rightarrow> (nat \<times> nat) list" where
  "vstringtok_loop delim s i =
     (if i < length s then
        (case find_from (\<lambda>c. \<not> delim c) s i of
           None \<Rightarrow> []
         | Some i' \<Rightarrow>
             (case find_from delim s i' of
                None \<Rightarrow> [(i', length s)]
              | Some j \<Rightarrow> (i', j) # vstringtok_loop delim s (j + 1)))
      else [])"
  by pat_completeness auto
termination
  by (relation "measure (\<lambda>(delim, s, i). length s - i)") (auto dest!: find_from_Some)

definition vstringtok :: "string \<Rightarrow> (char \<Rightarrow> bool) \<Rightarrow> (nat \<times> nat) list" where
  "vstringtok s delim = vstringtok_loop delim s 0"

function stringtok_loop :: "(char \<Rightarrow> bool) \<Rightarrow> string \<Rightarrow> nat \<Rightarrow> string list" where
  "stringtok_loop delim s i =
     (if i < length s then
        (case find_from (\<lambda>c. \<not> delim c) s i of
           None \<Rightarrow> []
         | Some i' \<Rightarrow>
             (case find_from delim s i' of
                None \<Rightarrow> [drop i' s]
              | Some j \<Rightarrow> substr s i' (j - i') # stringtok_loop delim s (j + 1)))
      else [])"
  by pat_completeness auto
termination
  by (relation "measure (\<lambda>(delim, s, i). length s - i)") (auto dest!: find_from_Some)

definition stringtok :: "string \<Rightarrow> (char \<Rightarrow> bool) \<Rightarrow> string list" where
  "stringtok s delim = stringtok_loop delim s 0"

declare vstringtok_loop.simps [simp del] stringtok_loop.simps [simp del]

definition default_delims :: "char \<Rightarrow> bool" where
  "default_delims c \<longleftrightarrow> c = CHR '' '' \<or> c = CHR 0x09 \<or> c = CHR 0x0A"

definition labelReverse :: "string \<Rightarrow> string" where
  "labelReverse qname =
     (if qname = [] then qname
      else let dotName = (find_idx (\<lambda>c. c = CHR ''.'') qname \<noteq> None);
               labels = stringtok qname (\<lambda>c. c = CHR ''.'' \<or> c = CHR '' '')
           in if length labels = 1 then qname
              else (case rev labels of
                      [] \<Rightarrow> []
                    | l # ls \<Rightarrow> foldl (\<lambda>ret x. ret @ [if dotName then CHR '' '' else CHR ''.''] @ x) l ls))"

definition splitField :: "string \<Rightarrow> char \<Rightarrow> string \<times> string" where
  "splitField inp sepa =
     (case find_idx (\<lambda>c. c = sepa) inp of
        None \<Rightarrow> (inp, [])
      | Some cpos \<Rightarrow> (take cpos inp, drop (cpos + 1) inp))"

subsection \<open>Quotes, lines and slashes\<close>

definition unquotify :: "string \<Rightarrow> string" where
  "unquotify item =
     (if length item < 2 then item
      else let bpos = (if item ! 0 = CHR 0x22 then 1 else 0);
               epos = (if item ! (length item - 1) = CHR 0x22 then length item - 1 else length item)
           in substr item bpos (epos - bpos))"

definition stripLine :: "string \<Rightarrow> string" where
  "stripLine line =
     (case find_idx (\<lambda>c. c = CHR 0x0D \<or> c = CHR 0x0A) line of
        Some pos \<Rightarrow> take pos line
      | None \<Rightarrow> line)"

fun urlEncode :: "string \<Rightarrow> string" where
  "urlEncode [] = []"
| "urlEncode (c # t) = (if c = CHR '' '' then ''%20'' @ urlEncode t else c # urlEncode t)"

text \<open>\<open>prev\<close> is the character before the current one, \<open>None\<close> at the beginning.\<close>

fun cleanSlashes_loop :: "char option \<Rightarrow> string \<Rightarrow> string" where
  "cleanSlashes_loop prev [] = []"
| "cleanSlashes_loop prev (c # s) =
     (if c = CHR ''/'' \<and> prev = Some (CHR ''/'') then cleanSlashes_loop (Some c) s
      else c # cleanSlashes_loop (Some c) s)"

definition cleanSlashes :: "string \<Rightarrow> string" where
  "cleanSlashes str = cleanSlashes_loop None str"

subsection \<open>Services\<close>

record ServiceTuple =
  st_host :: string
  st_port :: u16

definition parseService4 :: "string \<Rightarrow> ServiceTuple \<Rightarrow> ServiceTuple result" where
  "parseService4 descr st =
     (case stringtok descr (\<lambda>c. c = CHR '':'') of
        [] \<Rightarrow> Inl (AhuException (''Unable to parse '' @ descr @ '' as a service''))
      | [h] \<Rightarrow> Inr (st\<lparr>st_host := h\<rparr>)
      | h # p # _ \<Rightarrow> Inr (st\<lparr>st_host := h, st_port := word_of_int (atoi p)\<rparr>))"

definition parseService6 :: "string \<Rightarrow> ServiceTuple \<Rightarrow> ServiceTuple result" where
  "parseService6 descr st =
     (case find_idx (\<lambda>c. c = CHR '']'') descr of
        None \<Rightarrow> Inl (AhuException (''Unable to parse '' @ descr @ '' as an IPv6 service''))
      | Some pos \<Rightarrow>
          let st' = st\<lparr>st_host := substr descr 1 (pos - 1)\<rparr>
          in Inr (if pos + 2 < length descr
                  then st'\<lparr>st_port := word_of_int (atoi (drop (pos + 2) descr))\<rparr> else st'))"

fun contains_double_colon :: "string \<Rightarrow> bool" where
  "contains_double_colon (a # b # r) =
     (a = CHR '':'' \<and> b = CHR '':'' \<or> contains_double_colon (b # r))"
| "contains_double_colon _ = False"

definition parseService :: "string \<Rightarrow> ServiceTuple \<Rightarrow> ServiceTuple result" where
  "parseService descr st =
     (if descr = [] then Inl (AhuException (''Unable to parse '' @ descr @ '' as a service''))
      else let parts = stringtok descr (\<lambda>c. c = CHR '':'')
           in if descr ! 0 = CHR ''['' then parseService6 descr st
              else if descr ! 0 = CHR '':'' \<or> length parts > 2 \<or> contains_double_colon descr
              then Inr (st\<lparr>st_host := descr\<rparr>)
              else parseService4 descr st)"

subsection \<open>Big-endian reads, addresses and hex dumps\<close>

text \<open>The argument is the memory from the pointer on.\<close>

definition getShort :: "(nat \<Rightarrow> byte) \<Rightarrow> u16" where
  "getShort p = word_of_nat (unat (p 0) * 256 + unat (p 1))"

definition getLong :: "(nat \<Rightarrow> byte) \<Rightarrow> u32" where
  "getLong p = push_bit 24 (ucast (p 0)) + push_bit 16 (ucast (p 1))
             + push_bit 8 (ucast (p 2)) + ucast (p 3)"

definition U32ToIP :: "u32 \<Rightarrow> string" where
  "U32ToIP val =
     show_nat (unat (drop_bit 24 val AND 0xff)) @ ''.'' @
     show_nat (unat (drop_bit 16 val AND 0xff)) @ ''.'' @
     show_nat (unat (drop_bit 8 val AND 0xff)) @ ''.'' @
     show_nat (unat (val AND 0xff))"

definition hex_digit :: "nat \<Rightarrow> char" where
  "hex_digit d = (if d < 10 then char_of (48 + d) else char_of (87 + d))"

text \<open>\<open>printf("%02x")\<close> of one byte.\<close>

definition hex2 :: "char \<Rightarrow> string" where
  "hex2 c = [hex_digit (ucode c div 16), hex_digit (ucode c mod 16)]"

definition makeHexDump :: "string \<Rightarrow> string" where
  "makeHexDump str = concat (map (\<lambda>c. hex2 c @ '' '') str)"

subsection \<open>Time values\<close>

record timeval =
  tv_sec :: int
  tv_usec :: int

definition normalizeTV :: "timeval \<Rightarrow> timeval" where
  "normalizeTV tv =
     (if tv_usec tv > 1000000 then \<lparr>tv_sec = tv_sec tv + 1, tv_usec = tv_usec tv - 1000000\<rparr>
      else if tv_usec tv < 0 then \<lparr>tv_sec = tv_sec tv - 1, tv_usec = tv_usec tv + 1000000\<rparr>
      else tv)"

definition tv_plus :: "timeval \<Rightarrow> timeval \<Rightarrow> timeval" where
  "tv_plus lhs rhs = normalizeTV \<lparr>tv_sec = tv_sec lhs + tv_sec rhs, tv_usec = tv_usec lhs + tv_usec rhs\<rparr>"

definition tv_minus :: "timeval \<Rightarrow> timeval \<Rightarrow> timeval" where
  "tv_minus lhs rhs = normalizeTV \<lparr>tv_sec = tv_sec lhs - tv_sec rhs, tv_usec = tv_usec lhs - tv_usec rhs\<rparr>"

definition tv_less :: "timeval \<Rightarrow> timeval \<Rightarrow> bool" where
  "tv_less lhs rhs \<longleftrightarrow>
     tv_sec lhs < tv_sec rhs \<or> (tv_sec lhs = tv_sec rhs \<and> tv_usec lhs < tv_usec rhs)"

subsection \<open>Writing a whole buffer\<close>

text \<open>
  The operating system's answers to successive \<open>write\<close> calls are an input: each call takes
  the next answer.  \<open>Wrote n\<close> is the return value \<open>n\<close>, \<open>WErr eagain\<close> the return value -1 with
  \<open>errno\<close> equal to \<open>EAGAIN\<close> or not.  The first component of the result is what the function
  returns or throws, \<open>None\<close> while it still waits for an answer; the second is the data the
  system has accepted.  An answer above the count asked for moves the pointer past the end.
\<close>

datatype write_answer = Wrote nat | WErr bool

fun writen2 :: "write_answer list \<Rightarrow> byte list \<Rightarrow> unit result option \<times> byte list" where
  "writen2 [] ptr = (if ptr = [] then Some (Inr ()) else None, [])"
| "writen2 (a # as) ptr =
     (if ptr = [] then (Some (Inr ()), [])
      else case a of
             WErr eagain \<Rightarrow>
               (Some (Inl (RuntimeError (if eagain
                  then ''used writen2 on non-blocking socket, got EAGAIN''
                  else ''failed in writen2''))), [])
           | Wrote n \<Rightarrow>
               (if n = 0 then
                  (Some (Inl (RuntimeError ''could not write all bytes, got eof in writen2'')), [])
                else if length ptr < n then (Some (Inl UndefinedBehaviour), ptr)
                else (let (r, sent) = writen2 as (drop n ptr) in (r, take n ptr @ sent))))"

text \<open>
  \<open>sendData\<close> sends a two byte length and the buffer with one \<open>writev\<close>, then \<open>write\<close>s what
  was left over.  \<open>EAGAIN\<close> waits until the socket is writable and tries again.  A \<open>writev\<close>
  that took one byte makes \<open>buffer += ret - 2\<close> point before the buffer.
\<close>

fun sendData_loop :: "write_answer list \<Rightarrow> byte list \<Rightarrow> int result option \<times> byte list" where
  "sendData_loop [] buffer = (if buffer = [] then Some (Inr 0) else None, [])"
| "sendData_loop (a # as) buffer =
     (if buffer = [] then (Some (Inr 0), [])
      else case a of
             WErr eagain \<Rightarrow> (if eagain then sendData_loop as buffer else (Some (Inr (-1)), []))
           | Wrote n \<Rightarrow>
               (if n = 0 then (Some (Inr (-1)), [])
                else if length buffer < n then (Some (Inl UndefinedBehaviour), buffer)
                else (let (r, sent) = sendData_loop as (drop n buffer)
                      in (r, take n buffer @ sent))))"

definition sendData :: "write_answer list \<Rightarrow> byte list \<Rightarrow> int result option \<times> byte list" where
  "sendData answers buffer =
     (let replen = length buffer;
          nlen = be16 replen
      in case answers of
           [] \<Rightarrow> (None, [])
         | WErr eagain # as \<Rightarrow> (Some (Inr (-1)), [])
         | Wrote ret # as \<Rightarrow>
             (if ret = 0 then (Some (Inr (-1)), [])
              else if ret \<noteq> replen + 2 then
                (if ret < 2 \<or> replen + 2 < ret
                 then (Some (Inl UndefinedBehaviour), take ret (nlen @ buffer))
                 else let (r, sent) = sendData_loop as (drop (ret - 2) buffer)
                      in (r, nlen @ take (ret - 2) buffer @ sent))
              else (Some (Inr 0), nlen @ buffer)))"

subsection \<open>Case-insensitive comparison\<close>

lemma toLower_append [simp]: "toLower (a @ b) = toLower a @ toLower b"
  by (simp add: toLower_def)

lemma toLower_Nil [simp]: "toLower [] = []" "toLower (c # s) = dns_tolower c # toLower s"
  by (simp_all add: toLower_def)

lemma toLower_eq_Nil [simp]: "toLower s = [] \<longleftrightarrow> s = []" "[] = toLower s \<longleftrightarrow> s = []"
  by (auto simp: toLower_def)

lemma length_toLower [simp]: "length (toLower s) = length s"
  by (simp add: toLower_def)

lemma dns_tolower_idem [simp]: "dns_tolower (dns_tolower c) = dns_tolower c"
  by (auto simp: dns_tolower_def ucode_def)

lemma toLower_idem [simp]: "toLower (toLower s) = toLower s"
  by (simp add: toLower_def)

lemma dns_tolower_dot [simp]: "dns_tolower c = CHR ''.'' \<longleftrightarrow> c = CHR ''.''"
proof
  assume "dns_tolower c = CHR ''.''"
  then show "c = CHR ''.''"
  proof (cases "65 \<le> ucode c \<and> ucode c \<le> 90")
    case True
    then have "ucode (dns_tolower c) = ucode c + 32"
      by (auto simp: dns_tolower_def ucode_def)
    with True \<open>dns_tolower c = CHR ''.''\<close> show ?thesis by (simp add: ucode_def)
  qed (auto simp: dns_tolower_def split: if_splits)
qed (simp add: dns_tolower_def ucode_def)

lemma ciEqual_loop_iff: "length a = length b \<Longrightarrow> ciEqual_loop a b \<longleftrightarrow> toLower a = toLower b"
  by (induction a b rule: list_induct2) auto

lemma ciEqual_iff: "ciEqual a b \<longleftrightarrow> toLower a = toLower b"
  using ciEqual_loop_iff [of a b] length_toLower by (metis ciEqual_def)

lemma pdns_iequals_iff: "pdns_iequals a b \<longleftrightarrow> toLower a = toLower b"
  by (induction a b rule: pdns_iequals.induct) auto

lemma list_all2_toLower:
  "list_all2 (\<lambda>x y. dns_tolower x = dns_tolower y) a b \<longleftrightarrow> toLower a = toLower b"
  unfolding toLower_def list.rel_eq [symmetric] list_all2_map1 list_all2_map2 ..

definition ci_key :: "string \<Rightarrow> int list" where
  "ci_key s = map scode (toLower s)"

lemma scode_inject [simp]: "scode c = scode d \<longleftrightarrow> c = d"
  by (auto simp: scode_def dest: signed_word_eqI)

lemma ci_key_eq [simp]: "ci_key a = ci_key b \<longleftrightarrow> toLower a = toLower b"
  unfolding ci_key_def by (rule inj_map_eq_map) (simp add: inj_on_def)

lemma ilex_key: "pdns_ilexicographical_compare a b \<longleftrightarrow> ci_key a < ci_key b"
  by (induction a b rule: pdns_ilexicographical_compare.induct)
     (auto simp: ci_key_def Let_def)

subsection \<open>Suffix tests\<close>

lemma suffix_test:
  assumes "length suffix < length domain"
  shows "domain ! (length domain - length suffix - 1) = CHR ''.'' \<and>
         toLower (drop (length domain - length suffix) domain) = toLower suffix \<longleftrightarrow>
         (\<exists>p. toLower domain = p @ ''.'' @ toLower suffix)" (is "?l \<longleftrightarrow> ?r")
proof
  let ?n = "length domain - length suffix - 1"
  have split: "domain = take ?n domain @ domain ! ?n # drop (length domain - length suffix) domain"
    using assms id_take_nth_drop [of ?n domain] by (simp add: Suc_diff_Suc)
  assume ?l
  then have "toLower domain = toLower (take ?n domain) @ ''.'' @ toLower suffix"
    using arg_cong [OF split, of toLower] by (simp add: dns_tolower_def ucode_def)
  then show ?r by blast
next
  let ?n = "length domain - length suffix - 1"
  assume ?r
  then obtain p where p: "toLower domain = p @ ''.'' @ toLower suffix" by blast
  from arg_cong [OF p, of length] have lp: "length p = ?n" by simp
  have "dns_tolower (domain ! ?n) = CHR ''.''"
    using arg_cong [OF p, of "\<lambda>l. l ! ?n"] assms lp by (simp add: toLower_def nth_append)
  moreover have "toLower (drop (length domain - length suffix) domain) = toLower suffix"
    using arg_cong [OF p, of "drop (length domain - length suffix)"] lp assms
    by (simp add: toLower_def drop_map)
  ultimately show ?l by simp
qed

lemma endsOn_core:
  "endsOn domain suffix \<longleftrightarrow>
     suffix = [] \<or> toLower domain = toLower suffix \<or>
     (\<exists>p. toLower domain = p @ ''.'' @ toLower suffix)"
proof (cases "length domain \<le> length suffix")
  case True
  then have "\<not> (\<exists>p. toLower domain = p @ ''.'' @ toLower suffix)"
    by (auto dest!: arg_cong [of _ _ length])
  with True show ?thesis by (simp add: endsOn_def ciEqual_iff)
next
  case False
  then show ?thesis
    using suffix_test [of suffix domain]
    by (auto simp: endsOn_def ciEqual_iff Let_def list_all2_toLower Suc_diff_Suc)
qed

subsection \<open>Tokens\<close>

text \<open>The reference description of tokenising, on the string itself instead of positions.\<close>

lemma length_dropWhile_less: "r \<noteq> [] \<Longrightarrow> P (hd r) \<Longrightarrow> length (dropWhile P r) < length r"
  by (cases r) (auto simp: length_dropWhile_le less_Suc_eq_le)

function tokens :: "(char \<Rightarrow> bool) \<Rightarrow> string \<Rightarrow> string list" where
  "tokens delim s =
     (let r = dropWhile delim s
      in if r = [] then []
         else takeWhile (\<lambda>c. \<not> delim c) r # tokens delim (dropWhile (\<lambda>c. \<not> delim c) r))"
  by pat_completeness auto
termination
proof (relation "measure (\<lambda>(delim, s). length s)", goal_cases)
  case (2 delim s r)
  have "length (dropWhile (\<lambda>c. \<not> delim c) r) < length r"
    using 2 hd_dropWhile [of delim s] by (intro length_dropWhile_less) auto
  moreover have "length r \<le> length s" using 2 by (simp add: length_dropWhile_le)
  ultimately show ?case by simp
qed simp

declare tokens.simps [simp del]

lemma tokens_Nil: "dropWhile delim s = [] \<Longrightarrow> tokens delim s = []"
  by (subst tokens.simps) (simp add: Let_def del: dropWhile_eq_Nil_conv)

lemma tokens_unfold:
  assumes "dropWhile delim s = r" "r \<noteq> []"
  shows "tokens delim s = takeWhile (\<lambda>c. \<not> delim c) r # tokens delim (dropWhile (\<lambda>c. \<not> delim c) r)"
  using assms by (subst tokens.simps) (simp only: Let_def if_False)

lemma find_idx_while:
  "find_idx P xs = Some i \<Longrightarrow> dropWhile (\<lambda>x. \<not> P x) xs = drop i xs \<and> takeWhile (\<lambda>x. \<not> P x) xs = take i xs"
  by (induction xs arbitrary: i) (auto split: if_splits)

lemma find_idx_while_None:
  "find_idx P xs = None \<Longrightarrow> dropWhile (\<lambda>x. \<not> P x) xs = [] \<and> takeWhile (\<lambda>x. \<not> P x) xs = xs"
  by (auto simp: find_idx_None)

lemma tokens_skip: "delim c \<Longrightarrow> tokens delim (c # s) = tokens delim s"
  by (simp add: tokens.simps [of delim "c # s"] tokens.simps [of delim s])

lemma stringtok_loop_tokens: "stringtok_loop delim s i = tokens delim (drop i s)"
proof (induction delim s i rule: stringtok_loop.induct)
  case (1 delim s i)
  show ?case
  proof (cases "i < length s")
    case False
    then show ?thesis by (simp add: stringtok_loop.simps [of delim s i] tokens_Nil)
  next
    case i: True
    show ?thesis
    proof (cases "find_from (\<lambda>c. \<not> delim c) s i")
      case None
      then have "dropWhile delim (drop i s) = []"
        using find_idx_while_None [of "\<lambda>c. \<not> delim c"] by (simp add: find_from_def)
      then have "tokens delim (drop i s) = []" by (rule tokens_Nil)
      with i None show ?thesis by (simp add: stringtok_loop.simps [of delim s i])
    next
      case (Some i')
      then have r: "dropWhile delim (drop i s) = drop i' s" and i': "i' < length s"
        using find_idx_while [of "\<lambda>c. \<not> delim c" "drop i s"] find_from_Some [OF Some]
        by (auto simp: find_from_def add.commute)
      have tok: "tokens delim (drop i s) = takeWhile (\<lambda>c. \<not> delim c) (drop i' s)
          # tokens delim (dropWhile (\<lambda>c. \<not> delim c) (drop i' s))"
        using i' by (intro tokens_unfold [OF r]) simp
      show ?thesis
      proof (cases "find_from delim s i'")
        case None
        then have "takeWhile (\<lambda>c. \<not> delim c) (drop i' s) = drop i' s"
            "tokens delim (dropWhile (\<lambda>c. \<not> delim c) (drop i' s)) = []"
          using find_idx_while_None [of delim "drop i' s"]
          by (auto simp: find_from_def tokens_Nil simp del: dropWhile_eq_Nil_conv)
        with i Some None tok show ?thesis
          by (simp add: stringtok_loop.simps [of delim s i])
      next
        case j: (Some j)
        then have w: "dropWhile (\<lambda>c. \<not> delim c) (drop i' s) = drop j s"
            "takeWhile (\<lambda>c. \<not> delim c) (drop i' s) = substr s i' (j - i')"
          using find_idx_while [of delim "drop i' s"]
          by (auto simp: find_from_def substr_def add.commute)
        have "drop j s = s ! j # drop (j + 1) s" and "delim (s ! j)"
          using find_from_Some [OF j] by (auto simp: Cons_nth_drop_Suc)
        then have "tokens delim (drop j s) = tokens delim (drop (j + 1) s)"
          by (simp add: tokens_skip)
        with i Some j tok w 1 show ?thesis
          by (simp add: stringtok_loop.simps [of delim s i])
      qed
    qed
  qed
qed

lemma stringtok_tokens: "stringtok s delim = tokens delim s"
  by (simp add: stringtok_def stringtok_loop_tokens)

lemma stringtok_vstringtok_loop:
  "stringtok_loop delim s i = map (\<lambda>(b, e). substr s b (e - b)) (vstringtok_loop delim s i)"
proof (induction delim s i rule: stringtok_loop.induct)
  case (1 delim s i)
  then show ?case
    by (auto simp: stringtok_loop.simps [of delim s i] vstringtok_loop.simps [of delim s i] substr_def
        split: option.splits)
qed

lemma tokens_clean: "t \<in> set (tokens delim s) \<Longrightarrow> t \<noteq> [] \<and> (\<forall>c \<in> set t. \<not> delim c)"
proof (induction delim s rule: tokens.induct)
  case (1 delim s)
  let ?r = "dropWhile delim s"
  show ?case
  proof (cases "?r = []")
    case True
    with 1 show ?thesis by (simp add: tokens_Nil del: dropWhile_eq_Nil_conv)
  next
    case False
    then have hd: "\<not> delim (hd ?r)" by (rule hd_dropWhile)
    from "1.prems" consider "t = takeWhile (\<lambda>c. \<not> delim c) ?r"
      | "t \<in> set (tokens delim (dropWhile (\<lambda>c. \<not> delim c) ?r))"
      unfolding tokens_unfold [OF refl False] by auto
    then show ?thesis
    proof cases
      case 1
      then show ?thesis using hd False by (cases ?r) (auto dest: set_takeWhileD)
    next
      case 2
      then show ?thesis by (rule "1.IH" [OF refl False])
    qed
  qed
qed

lemma filter_dropWhile: "filter (\<lambda>c. \<not> delim c) (dropWhile delim s) = filter (\<lambda>c. \<not> delim c) s"
  by (induction s) auto

lemma concat_tokens: "concat (tokens delim s) = filter (\<lambda>c. \<not> delim c) s"
proof (induction delim s rule: tokens.induct)
  case (1 delim s)
  let ?r = "dropWhile delim s"
  show ?case
  proof (cases "?r = []")
    case True
    then show ?thesis using filter_dropWhile [of delim s]
      by (simp add: tokens_Nil del: dropWhile_eq_Nil_conv)
  next
    case False
    have "filter (\<lambda>c. \<not> delim c) ?r =
        takeWhile (\<lambda>c. \<not> delim c) ?r @ filter (\<lambda>c. \<not> delim c) (dropWhile (\<lambda>c. \<not> delim c) ?r)"
      by (subst takeWhile_dropWhile_id [symmetric, of _ "\<lambda>c. \<not> delim c"], subst filter_append)
         (auto dest: set_takeWhileD intro: filter_True)
    moreover have "tokens delim s =
        takeWhile (\<lambda>c. \<not> delim c) ?r # tokens delim (dropWhile (\<lambda>c. \<not> delim c) ?r)"
      by (rule tokens_unfold [OF refl False])
    ultimately show ?thesis
      using "1.IH" [OF refl False] filter_dropWhile [of delim s] by simp
  qed
qed

text \<open>Words joined by one separator.\<close>

fun join :: "char \<Rightarrow> string list \<Rightarrow> string" where
  "join c [] = []"
| "join c [l] = l"
| "join c (l # m # ls) = l @ c # join c (m # ls)"

definition clean_words :: "(char \<Rightarrow> bool) \<Rightarrow> string list \<Rightarrow> bool" where
  "clean_words delim ls \<longleftrightarrow> (\<forall>l \<in> set ls. l \<noteq> [] \<and> (\<forall>c \<in> set l. \<not> delim c))"

lemma clean_words_Cons [simp]:
  "clean_words delim (l # ls) \<longleftrightarrow> l \<noteq> [] \<and> (\<forall>c \<in> set l. \<not> delim c) \<and> clean_words delim ls"
  "clean_words delim []"
  by (auto simp: clean_words_def)

lemma takeWhile_word: "\<forall>x \<in> set l. P x \<Longrightarrow> \<not> P c \<Longrightarrow> takeWhile P (l @ c # s) = l"
  by (induction l) auto

lemma dropWhile_word: "\<forall>x \<in> set l. P x \<Longrightarrow> \<not> P c \<Longrightarrow> dropWhile P (l @ c # s) = c # s"
  by (induction l) auto

lemma dropWhile_clean: "l \<noteq> [] \<Longrightarrow> \<forall>c \<in> set l. \<not> delim c \<Longrightarrow> dropWhile delim (l @ s) = l @ s"
  by (cases l) auto

lemma tokens_join: "delim c \<Longrightarrow> clean_words delim ls \<Longrightarrow> tokens delim (join c ls) = ls"
proof (induction c ls rule: join.induct)
  case (1 c)
  then show ?case by (simp add: tokens_Nil)
next
  case (2 c l)
  then have l: "dropWhile delim l = l" "l \<noteq> []" "takeWhile (\<lambda>c. \<not> delim c) l = l"
      "dropWhile (\<lambda>c. \<not> delim c) l = []"
    using dropWhile_clean [of l delim "[]"] by (simp_all add: takeWhile_eq_all_conv)
  show ?case
    using tokens_unfold [OF l(1,2)] l(3,4) by (simp add: tokens_Nil del: dropWhile_eq_Nil_conv)
next
  case (3 c l m ls)
  let ?s = "l @ c # join c (m # ls)"
  have "dropWhile delim ?s = ?s" using 3 by (intro dropWhile_clean) auto
  from tokens_unfold [OF this] 3 show ?case
    by (simp add: takeWhile_word dropWhile_word tokens_skip)
qed

lemma foldl_join: "foldl (\<lambda>ret x. ret @ [c] @ x) l ls = join c (l # ls)"
proof (induction ls arbitrary: l)
  case (Cons m ls)
  have "join c ((l @ c # m) # ls) = l @ c # join c (m # ls)"
    by (cases ls) simp_all
  with Cons show ?case by simp
qed simp

lemma find_idx_join:
  "clean_words (\<lambda>c. c = d) ls \<Longrightarrow> length ls \<ge> 2 \<Longrightarrow>
   (find_idx (\<lambda>c. c = d) (join c ls) \<noteq> None) = (c = d)"
proof -
  assume "clean_words (\<lambda>c. c = d) ls" "length ls \<ge> 2"
  then have "d \<in> set (join c ls) \<longleftrightarrow> c = d"
    by (induction c ls rule: join.induct) (case_tac ls, auto)+
  then show ?thesis by (auto simp: find_idx_None)
qed

lemma join_not_Nil: "clean_words delim ls \<Longrightarrow> ls \<noteq> [] \<Longrightarrow> join c ls \<noteq> []"
  by (induction c ls rule: join.induct) auto

lemma dotConcat_toLower: "toLower (dotConcat a b) = dotConcat (toLower a) (toLower b)"
  by (simp add: dotConcat_def dns_tolower_def ucode_def)

lemma makeRelative_dotConcat: "zone \<noteq> [] \<Longrightarrow> makeRelative (dotConcat a zone) zone = a"
  by (auto simp: makeRelative_def dotConcat_def)

lemma labelReverse_join:
  assumes "clean_words (\<lambda>c. c = CHR ''.'' \<or> c = CHR '' '') ls" "2 \<le> length ls"
    and "c = CHR ''.'' \<or> c = CHR '' ''"
  shows "labelReverse (join c ls) = join (if c = CHR ''.'' then CHR '' '' else CHR ''.'') (rev ls)"
proof -
  have "clean_words (\<lambda>c. c = CHR ''.'') ls" using assms(1) by (auto simp: clean_words_def)
  then have dot: "(find_idx (\<lambda>c. c = CHR ''.'') (join c ls) \<noteq> None) = (c = CHR ''.'')"
    using assms(2) by (rule find_idx_join)
  have toks: "stringtok (join c ls) (\<lambda>c. c = CHR ''.'' \<or> c = CHR '' '') = ls"
    unfolding stringtok_tokens using assms(1,3) by (intro tokens_join) auto
  obtain l k where r: "rev ls = l # k" using assms(2) by (cases "rev ls") auto
  have glue: "(case rev ls of [] \<Rightarrow> [] | l # ls \<Rightarrow> foldl (\<lambda>ret x. ret @ [d] @ x) l ls) = join d (rev ls)" for d
    unfolding r list.case foldl_join ..
  have "join c ls \<noteq> []" using assms by (intro join_not_Nil) auto
  moreover have "length ls \<noteq> 1" using assms(2) by auto
  ultimately show ?thesis
    unfolding labelReverse_def Let_def toks dot glue by simp
qed

lemma clean_words_rev [simp]: "clean_words delim (rev ls) = clean_words delim ls"
  by (simp add: clean_words_def)

subsection \<open>Writes\<close>

lemma writen2_sent:
  "writen2 as ptr = (Some (Inr ()), sent) \<Longrightarrow> sent = ptr"
proof (induction as ptr arbitrary: sent rule: writen2.induct)
  case (2 a as ptr)
  then show ?case
    by (cases a) (auto split: if_splits prod.splits, metis append_take_drop_id)
qed (auto split: if_splits)

lemma sendData_loop_sent:
  "sendData_loop as ptr = (Some (Inr 0), sent) \<Longrightarrow> sent = ptr"
proof (induction as ptr arbitrary: sent rule: sendData_loop.induct)
  case (2 a as ptr)
  then show ?case
    by (cases a) (auto split: if_splits prod.splits, metis append_take_drop_id)
qed (auto split: if_splits)

lemma sendData_loop_total:
  "length ptr \<le> length as \<Longrightarrow> WErr True \<notin> set as \<Longrightarrow> fst (sendData_loop as ptr) \<noteq> None"
  by (induction as ptr rule: sendData_loop.induct)
     (auto split: write_answer.splits prod.splits)

subsection \<open>Services\<close>

lemma service_tokens:
  assumes "h \<noteq> []" "CHR '':'' \<notin> set h"
  shows "stringtok (h @ '':'' @ show_nat p) (\<lambda>c. c = CHR '':'') = [h, show_nat p]"
proof -
  have "clean_words (\<lambda>c. c = CHR '':'') [h, show_nat p]"
    using assms show_nat_digits [of p] by (auto simp: isdigit_def ucode_def)
  from tokens_join [OF refl this] show ?thesis by (simp add: stringtok_tokens)
qed

lemma no_double_colon_Cons: "CHR '':'' \<notin> set t \<Longrightarrow> \<not> contains_double_colon (c # t)"
  by (induction t arbitrary: c) auto

lemma no_double_colon: "CHR '':'' \<notin> set h \<Longrightarrow> CHR '':'' \<notin> set t \<Longrightarrow>
  \<not> contains_double_colon (h @ CHR '':'' # t)"
proof (induction h)
  case (Cons x xs)
  then show ?case by (cases xs) (auto dest: no_double_colon_Cons)
qed (simp add: no_double_colon_Cons)

lemma parseService_host_port_aux:
  assumes "h \<noteq> []" "CHR '':'' \<notin> set h" "h ! 0 \<noteq> CHR ''[''"
  shows "parseService (h @ '':'' @ show_nat p) st = Inr (st\<lparr>st_host := h, st_port := word_of_nat p\<rparr>)"
proof -
  have "CHR '':'' \<notin> set (show_nat p)"
    using show_nat_digits [of p] by (auto simp: isdigit_def ucode_def)
  then have "\<not> contains_double_colon (h @ '':'' @ show_nat p)"
    using no_double_colon [of h "show_nat p"] assms(2) by simp
  moreover have "(h @ '':'' @ show_nat p) ! 0 = h ! 0" and "h ! 0 \<noteq> CHR '':''"
    using assms by (cases h; auto)+
  ultimately show ?thesis
    using assms service_tokens [OF assms(1,2)]
    by (simp add: parseService_def parseService4_def Let_def del: append.simps)
qed

subsection \<open>Properties\<close>

text \<open>
  \<open>endsOn\<close> is label-wise suffix matching up to case: a name ends on a suffix
  exactly if the suffix is empty, the names are equal, or the name is some prefix, a dot
  and the suffix; \<open>wwwds9a.nl\<close> does not end on \<open>ds9a.nl\<close>.
\<close>

theorem endsOn_iff:
  "endsOn domain suffix =
     (suffix = [] \<or> toLower domain = toLower suffix \<or>
      (\<exists>p. toLower domain = p @ ''.'' @ toLower suffix))"
  by (rule endsOn_core)

text \<open>
  Reversing a name label by label twice gives the name back: for two or more
  labels without dots and spaces, \<open>www.ds9a.nl\<close> becomes \<open>nl ds9a www\<close> and that becomes
  \<open>www.ds9a.nl\<close> again.
\<close>

theorem labelReverse_involution:
  assumes "clean_words (\<lambda>c. c = CHR ''.'' \<or> c = CHR '' '') ls" and "2 \<le> length ls"
  shows "labelReverse (join (CHR ''.'') ls) = join (CHR '' '') (rev ls) \<and>
         labelReverse (labelReverse (join (CHR ''.'') ls)) = join (CHR ''.'') ls"
  using assms by (simp add: labelReverse_join)

theorem labelReverse_involution_witness:
  "labelReverse (join (CHR ''.'') [''www'', ''ds9a'', ''nl'']) = ''nl ds9a www'' \<and>
   labelReverse (labelReverse (join (CHR ''.'') [''www'', ''ds9a'', ''nl''])) = ''www.ds9a.nl''"
proof -
  have "clean_words (\<lambda>c. c = CHR ''.'' \<or> c = CHR '' '') [''www'', ''ds9a'', ''nl'']" by simp
  from labelReverse_involution [OF this] show ?thesis by auto
qed

text \<open>
  Property C27.  A \<open>sendData\<close> that returns 0 has put exactly the two length bytes and the
  whole buffer on the socket, in order and nothing twice, however the system split the
  writes and however often it answered \<open>EAGAIN\<close>.
\<close>

theorem sendData_complete:
  assumes "sendData answers buffer = (Some (Inr 0), sent)"
  shows "sent = be16 (length buffer) @ buffer"
proof (cases answers)
  case Nil
  with assms show ?thesis by (simp add: sendData_def)
next
  case (Cons a as)
  show ?thesis
  proof (cases a)
    case (WErr e)
    with Cons assms show ?thesis by (simp add: sendData_def)
  next
    case (Wrote n)
    obtain r s where rs: "sendData_loop as (drop (n - 2) buffer) = (r, s)" by fastforce
    have "take (n - 2) buffer @ s = buffer" if "r = Some (Inr 0)"
      using sendData_loop_sent [OF rs [unfolded that]] by simp
    moreover have "sendData (Wrote n # as) buffer = (Some (Inr 0), sent)"
      using assms Cons Wrote by simp
    ultimately show ?thesis
      unfolding sendData_def Let_def list.case write_answer.case rs prod.case
      by (cases "n = 0"; cases "n = length buffer + 2"; cases "n < 2 \<or> length buffer + 2 < n")
         (simp_all only: if_True if_False prod.inject option.inject sum.inject, auto)
  qed
qed

theorem sendData_complete_witness:
  "sendData [Wrote 3, WErr True, Wrote 2] [1, 2, 3] = (Some (Inr 0), [0, 3, 1, 2, 3]) \<and>
   [0, 3, 1, 2, 3] = be16 (length [1, 2, 3 :: byte]) @ [1, 2, 3]"
proof -
  have run: "sendData [Wrote 3, WErr True, Wrote 2] [1, 2, 3] = (Some (Inr 0), [0, 3, 1, 2, 3])"
    by (simp add: sendData_def be16_def)
  from run sendData_complete [OF run] show ?thesis ..
qed

text \<open>
  \<open>normalizeTV\<close> after an addition keeps the total time but not the normal
  form: two normalised values give microseconds between 0 and 1000000, and 1000000 itself
  is left in place, because the test is \<open>> 1000000\<close>.  The result of 0.5s + 0.5s then compares
  as less than 1s.
\<close>

theorem tv_plus_normal:
  assumes "0 \<le> tv_usec a \<and> tv_usec a < 1000000" and "0 \<le> tv_usec b \<and> tv_usec b < 1000000"
  shows "1000000 * tv_sec (tv_plus a b) + tv_usec (tv_plus a b) =
           (1000000 * tv_sec a + tv_usec a) + (1000000 * tv_sec b + tv_usec b) \<and>
         0 \<le> tv_usec (tv_plus a b) \<and> tv_usec (tv_plus a b) \<le> 1000000 \<and>
         (tv_usec (tv_plus a b) = 1000000 \<longleftrightarrow> tv_usec a + tv_usec b = 1000000)"
  using assms by (auto simp: tv_plus_def normalizeTV_def)

theorem tv_plus_normal_witness:
  "let h = \<lparr>tv_sec = 0, tv_usec = 500000\<rparr>
   in tv_usec (tv_plus h h) = 1000000 \<and> tv_less (tv_plus h h) \<lparr>tv_sec = 1, tv_usec = 0\<rparr>"
  using tv_plus_normal [of "\<lparr>tv_sec = 0, tv_usec = 500000\<rparr>" "\<lparr>tv_sec = 0, tv_usec = 500000\<rparr>"]
  by (simp add: tv_less_def tv_plus_def normalizeTV_def)

end
