(* ===== verification/Base32.thy ===== *)
theory Base32
  imports Prelude
begin

text \<open>
  The base32hex codec of \<open>base32.cc\<close>: bit ranges read from and or-ed into a character
  array, encoding in groups of five bytes, decoding in groups of eight characters.
\<close>

subsection \<open>Bit ranges of an array\<close>

text \<open>\<open>s\<close> is the memory from the pointer on; three bytes are read wherever the range lies.\<close>

definition extract_bits :: "(nat \<Rightarrow> byte) \<Rightarrow> nat \<Rightarrow> nat \<Rightarrow> u32" where
  "extract_bits s start length' =
     (let cl = ucast (s (start div 8)); cc = ucast (s (start div 8 + 1)); cr = ucast (s (start div 8 + 2));
          x = push_bit 8 (push_bit 8 cl OR cc) OR cr;
          x = drop_bit (24 - (length' + start mod 8)) x
      in x AND drop_bit (16 - length') 0xffff)"

definition or_at :: "byte list \<Rightarrow> nat \<Rightarrow> byte \<Rightarrow> byte list" where
  "or_at s i b = s[i := s ! i OR b]"

definition set_bits32 :: "byte list \<Rightarrow> int \<Rightarrow> nat \<Rightarrow> nat \<Rightarrow> byte list" where
  "set_bits32 s x start length' =
     (let shift = (8 - (start + length') mod 8) mod 8;
          y = push_bit shift (word_of_int x :: u32);
          cl = ucast (drop_bit 16 y AND 0xff);
          cc = ucast (drop_bit 8 y AND 0xff);
          cr = ucast (y AND 0xff);
          i = start div 8
      in if shift + length' > 16 then or_at (or_at (or_at s i cl) (i + 1) cc) (i + 2) cr
         else if shift + length' > 8 then or_at (or_at s i cc) (i + 1) cr
         else or_at s i cr)"

subsection \<open>Characters\<close>

definition unbase32hex :: "char \<Rightarrow> int" where
  "unbase32hex c =
     (if 48 \<le> ucode c \<and> ucode c \<le> 57 then int (ucode c) - 48
      else if 97 \<le> ucode c \<and> ucode c \<le> 122 then 10 + (int (ucode c) - 97)
      else if 65 \<le> ucode c \<and> ucode c \<le> 90 then 10 + (int (ucode c) - 65)
      else if c = CHR ''='' then 61
      else - 1)"

definition base32hex :: string where
  "base32hex = ''0123456789ABCDEFGHIJKLMNOPQRSTUV=''"

subsection \<open>Encoding\<close>

text \<open>
  \<open>input.c_str()\<close> is the string, a NUL, and then memory the string does not own: \<open>beyond\<close>.
\<close>

definition c_str :: "(nat \<Rightarrow> byte) \<Rightarrow> string \<Rightarrow> nat \<Rightarrow> byte" where
  "c_str beyond s i =
     (if i < length s then c2b (s ! i) else if i = length s then 0 else beyond i)"

definition stuffing :: "nat \<Rightarrow> nat" where
  "stuffing todo =
     (if todo = 1 then 6 else if todo = 2 then 4 else if todo = 3 then 3 else if todo = 4 then 1 else 0)"

function toBase32Hex_loop :: "(nat \<Rightarrow> byte) \<Rightarrow> string \<Rightarrow> nat \<Rightarrow> string" where
  "toBase32Hex_loop beyond input offset =
     (if offset < length input then
        (let todo = length input - offset; stuff = stuffing todo
         in map (\<lambda>n. base32hex ! unat (extract_bits (\<lambda>i. c_str beyond input (offset + i)) (n * 5) 5))
              [0..<8 - stuff]
            @ replicate stuff (CHR ''='')
            @ toBase32Hex_loop beyond input (offset + 5))
      else [])"
  by pat_completeness auto
termination
  by (relation "measure (\<lambda>(beyond, input, offset). length input - offset)") auto

declare toBase32Hex_loop.simps [simp del]

definition toBase32Hex :: "(nat \<Rightarrow> byte) \<Rightarrow> string \<Rightarrow> string" where
  "toBase32Hex beyond input = toBase32Hex_loop beyond input 0"

subsection \<open>Decoding\<close>

fun fromBase32Hex_loop :: "string \<Rightarrow> nat \<Rightarrow> byte list \<Rightarrow> nat \<Rightarrow> string \<Rightarrow> string" where
  "fromBase32Hex_loop [] n block toWrite ret = ret @ map b2c (take ((toWrite * 5) div 8) block)"
| "fromBase32Hex_loop (ch # input) n block toWrite ret =
     (let c = unbase32hex ch
      in if c = 61 \<or> c < 0 then ret @ map b2c (take ((toWrite * 5) div 8) block)
         else let block' = set_bits32 block c ((n mod 8) * 5) 5
              in if toWrite + 1 = 8
                 then fromBase32Hex_loop input (n + 1) [0, 0, 0, 0, 0] 0 (ret @ map b2c block')
                 else fromBase32Hex_loop input (n + 1) block' (toWrite + 1) ret)"

definition fromBase32Hex :: "string \<Rightarrow> string" where
  "fromBase32Hex input = fromBase32Hex_loop input 0 [0, 0, 0, 0, 0] 0 []"

subsection \<open>Pieces of five bytes\<close>

text \<open>
  What each of the eight calls reads and writes.  Reading at bit \<open>5 n\<close> never depends on
  the third byte, and often not on the second: this is why the reads past the end of the
  string do not show in the result.
\<close>

lemma masks32: "(31::u32) = mask 5" "(255::u32) = mask 8" by (simp_all add: mask_eq_exp_minus_1)
lemma extract5:
  "extract_bits s 0 5 = ucast (drop_bit 3 (s 0))"
  "extract_bits s 5 5 = (push_bit 2 (ucast (s 0)) OR ucast (drop_bit 6 (s 1))) AND mask 5"
  "extract_bits s 10 5 = ucast (drop_bit 1 (s 1)) AND mask 5"
  "extract_bits s 15 5 = (push_bit 4 (ucast (s 1)) OR ucast (drop_bit 4 (s 2))) AND mask 5"
  "extract_bits s 20 5 = (push_bit 1 (ucast (s 2)) OR ucast (drop_bit 7 (s 3))) AND mask 5"
  "extract_bits s 25 5 = ucast (drop_bit 2 (s 3)) AND mask 5"
  "extract_bits s 30 5 = (push_bit 3 (ucast (s 3)) OR ucast (drop_bit 5 (s 4))) AND mask 5"
  "extract_bits s 35 5 = ucast (s 4) AND mask 5"
  by (rule bit_word_eqI; auto simp: extract_bits_def Let_def masks32 bit_simps numeral_2_eq_2 [symmetric] mult.commute [of "ucast (s 2)" 2] bit_double_iff dest: bit_imp_le_length)+

lemma set5:
  fixes a b c d e :: byte and v :: u32
  shows
  "set_bits32 [a,b,c,d,e] (uint v) 0 5 = [a OR ucast (push_bit 3 v), b, c, d, e]"
  "set_bits32 [a,b,c,d,e] (uint v) 5 5 = [a OR ucast (drop_bit 2 v), b OR ucast (push_bit 6 v), c, d, e]"
  "set_bits32 [a,b,c,d,e] (uint v) 10 5 = [a, b OR ucast (push_bit 1 v), c, d, e]"
  "set_bits32 [a,b,c,d,e] (uint v) 15 5 = [a, b OR ucast (drop_bit 4 v), c OR ucast (push_bit 4 v), d, e]"
  "set_bits32 [a,b,c,d,e] (uint v) 20 5 = [a, b, c OR ucast (drop_bit 1 v), d OR ucast (push_bit 7 v), e]"
  "set_bits32 [a,b,c,d,e] (uint v) 25 5 = [a, b, c, d OR ucast (push_bit 2 v), e]"
  "set_bits32 [a,b,c,d,e] (uint v) 30 5 = [a, b, c, d OR ucast (drop_bit 3 v), e OR ucast (push_bit 5 v)]"
  "set_bits32 [a,b,c,d,e] (uint v) 35 5 = [a, b, c, d, e OR ucast v]"
  by (simp add: set_bits32_def or_at_def Let_def masks32; (intro conjI)?; rule bit_word_eqI; auto simp: bit_simps mult.commute [of v 2] bit_double_iff dest: bit_imp_le_length)+

lemma group_bytes:
  fixes s :: "nat \<Rightarrow> byte"
  shows "ucast (push_bit 3 (extract_bits s 0 5)) OR ucast (drop_bit 2 (extract_bits s 5 5)) = s 0"
  "(ucast (push_bit 6 (extract_bits s 5 5)) OR ucast (push_bit 1 (extract_bits s 10 5))) OR ucast (drop_bit 4 (extract_bits s 15 5)) = s 1"
  "ucast (push_bit 4 (extract_bits s 15 5)) OR ucast (drop_bit 1 (extract_bits s 20 5)) = s 2"
  "(ucast (push_bit 7 (extract_bits s 20 5)) OR ucast (push_bit 2 (extract_bits s 25 5))) OR ucast (drop_bit 3 (extract_bits s 30 5)) = s 3"
  "ucast (push_bit 5 (extract_bits s 30 5)) OR ucast (extract_bits s 35 5) = s 4"
  by (simp only: extract5; rule bit_word_eqI; drule bit_index8; elim disjE; simp add: bit_simps byte_bit_high numeral_2_eq_2 [symmetric] bit_double_iff mult.commute [of _ "2::u32"])+

lemma base32hex_table: "list_all (\<lambda>v. unbase32hex (base32hex ! v) = int v) [0..<32]"
  by (simp add: base32hex_def unbase32hex_def ucode_def upt_rec)

lemma unbase32hex_base32hex: "v < 32 \<Longrightarrow> unbase32hex (base32hex ! v) = int v"
  using base32hex_table by (simp add: list_all_iff)

lemma extract_bits_less: "unat (extract_bits s start 5) < 32"
proof -
  have "extract_bits s start 5 AND mask 5 = extract_bits s start 5"
    by (simp add: extract_bits_def Let_def masks32 and.assoc)
  then have "unat (extract_bits s start 5) = take_bit 5 (unat (extract_bits s start 5))"
    by (metis take_bit_eq_mask unsigned_take_bit_eq)
  also have "\<dots> < 2 ^ 5" by (rule take_bit_nat_less_exp)
  finally show ?thesis by simp
qed

subsection \<open>Round trip\<close>

definition code5 :: "(nat \<Rightarrow> byte) \<Rightarrow> nat \<Rightarrow> char" where
  "code5 s n = base32hex ! unat (extract_bits s (n * 5) 5)"

lemma unbase32hex_code5:
  "unbase32hex (code5 s m) = uint (extract_bits s (m * 5) 5)"
  "0 \<le> uint (extract_bits s (m * 5) 5) \<and> uint (extract_bits s (m * 5) 5) < 32"
proof -
  let ?v = "extract_bits s (m * 5) 5"
  show "unbase32hex (code5 s m) = uint ?v"
    using unbase32hex_base32hex [OF extract_bits_less [of s "m * 5"]] by (simp add: code5_def)
  have "int (unat ?v) < 32" using extract_bits_less [of s "m * 5"] by linarith
  then show "0 \<le> uint ?v \<and> uint ?v < 32" by simp
qed

lemma fromBase32Hex_step:
  assumes "m < 8"
  shows "fromBase32Hex_loop (code5 s m # input) (m + 8 * k) block toWrite ret =
     (let block' = set_bits32 block (uint (extract_bits s (m * 5) 5)) (m * 5) 5
      in if toWrite = 7
         then fromBase32Hex_loop input (Suc m + 8 * k) [0, 0, 0, 0, 0] 0 (ret @ map b2c block')
         else fromBase32Hex_loop input (Suc m + 8 * k) block' (Suc toWrite) ret)"
proof -
  let ?c = "uint (extract_bits s (m * 5) 5)"
  have c: "?c \<noteq> 61" "\<not> ?c < 0" using unbase32hex_code5(2) [of s m] by auto
  have m: "(m + 8 * k) mod 8 = m" using assms by simp
  show ?thesis
    by (simp only: fromBase32Hex_loop.simps unbase32hex_code5(1) Let_def c m simp_thms if_False) simp
qed

declare fromBase32Hex_loop.simps(2) [simp del]

lemmas decode_steps =
  fromBase32Hex_step [of 0, simplified] fromBase32Hex_step [of "Suc 0", simplified]
  fromBase32Hex_step [of 2, simplified] fromBase32Hex_step [of 3, simplified]
  fromBase32Hex_step [of 4, simplified] fromBase32Hex_step [of 5, simplified]
  fromBase32Hex_step [of 6, simplified] fromBase32Hex_step [of 7, simplified]

lemma upt_groups:
  "[0..<8] = [0, 1, 2, 3, 4, 5, 6, 7]" "[0..<7] = [0, 1, 2, 3, 4, 5, 6]"
  "[0..<5] = [0, 1, 2, 3, 4]" "[0..<4] = [0, 1, 2, 3]" "[0..<2] = [0, 1]"
  by (simp_all add: upt_rec)

lemma fromBase32Hex_group:
  "fromBase32Hex_loop (map (code5 s) [0..<8] @ input) (8 * k) [0, 0, 0, 0, 0] 0 ret =
   fromBase32Hex_loop input (8 * Suc k) [0, 0, 0, 0, 0] 0 (ret @ map b2c [s 0, s 1, s 2, s 3, s 4])"
  using group_bytes [of s]
  by (simp add: upt_groups decode_steps set5 Let_def)

text \<open>A last group of one to four bytes: the padding stops the loop, and only whole bytes are kept.\<close>

lemma fromBase32Hex_stuffing [simp]:
  "fromBase32Hex_loop (CHR ''='' # input) n block toWrite ret =
   ret @ map b2c (take ((toWrite * 5) div 8) block)"
  by (simp add: fromBase32Hex_loop.simps(2) unbase32hex_def ucode_def)

lemma fromBase32Hex_partial:
  assumes "k = 2 \<or> k = 4 \<or> k = 5 \<or> k = 7"
  shows "fromBase32Hex_loop (map (code5 s) [0..<k] @ CHR ''='' # input) (8 * j) [0, 0, 0, 0, 0] 0 ret =
         ret @ map b2c (take (5 * k div 8) [s 0, s 1, s 2, s 3])"
  using assms group_bytes [of s]
  by (elim disjE) (simp_all add: upt_groups decode_steps set5 Let_def)

definition stuffed_count :: "nat \<Rightarrow> nat" where
  "stuffed_count todo = (if 5 \<le> todo then 5 else todo)"

lemma stuffing_cases:
  assumes "0 < todo"
  obtains (full) "5 \<le> todo" "stuffing todo = 0"
    | (partial) "todo < 5" "0 < stuffing todo"
        "8 - stuffing todo = 2 \<or> 8 - stuffing todo = 4 \<or> 8 - stuffing todo = 5 \<or> 8 - stuffing todo = 7"
        "5 * (8 - stuffing todo) div 8 = todo"
proof (cases "5 \<le> todo")
  case True
  then show thesis by (intro full) (simp_all add: stuffing_def)
next
  case False
  then have "todo = 1 \<or> todo = 2 \<or> todo = 3 \<or> todo = 4" using assms by arith
  then show thesis by (elim disjE) (rule partial; simp add: stuffing_def)+
qed

lemma toBase32Hex_loop_code5:
  "toBase32Hex_loop beyond input offset =
     (if offset < length input then
        map (code5 (\<lambda>i. c_str beyond input (offset + i))) [0..<8 - stuffing (length input - offset)]
          @ replicate (stuffing (length input - offset)) (CHR ''='')
          @ toBase32Hex_loop beyond input (offset + 5)
      else [])"
  by (subst toBase32Hex_loop.simps) (simp add: Let_def code5_def)

lemma b2c_c_str: "i < length s \<Longrightarrow> b2c (c_str beyond s i) = s ! i"
  by (simp add: c_str_def)

lemma take4_c_str:
  assumes "offset + n = length input" "n < 5"
  shows "map b2c (take n [c_str beyond input (offset + 0), c_str beyond input (offset + 1),
     c_str beyond input (offset + 2), c_str beyond input (offset + 3)]) = drop offset input"
proof -
  have "n = 0 \<or> n = 1 \<or> n = 2 \<or> n = 3 \<or> n = 4" using assms(2) by arith
  then show ?thesis
    using assms(1)
    by (elim disjE) (auto intro!: nth_equalityI simp: b2c_c_str nth_Cons' less_Suc_eq numeral_eq_Suc)
qed

lemma fromBase32Hex_toBase32Hex_loop:
  "fromBase32Hex_loop (toBase32Hex_loop beyond input (5 * k)) (8 * k) [0, 0, 0, 0, 0] 0 ret =
   ret @ drop (5 * k) input"
proof (induction "length input - 5 * k" arbitrary: k ret rule: less_induct)
  case less
  let ?todo = "length input - 5 * k" and ?s = "\<lambda>i. c_str beyond input (5 * k + i)"
  show ?case
  proof (cases "5 * k < length input")
    case False
    then show ?thesis by (simp add: toBase32Hex_loop_code5)
  next
    case True
    then have "0 < ?todo" by simp
    then show ?thesis
    proof (cases rule: stuffing_cases)
      case full
      have IH: "fromBase32Hex_loop (toBase32Hex_loop beyond input (5 * Suc k)) (8 * Suc k)
          [0, 0, 0, 0, 0] 0 r = r @ drop (5 * Suc k) input" for r
        using less.hyps [of "Suc k" r] full(1) by simp
      have "drop (5 * k) input = [input ! (5 * k), input ! (5 * k + 1), input ! (5 * k + 2),
          input ! (5 * k + 3), input ! (5 * k + 4)] @ drop (5 * Suc k) input"
        using full(1) by (simp add: Cons_nth_drop_Suc numeral_eq_Suc)
      moreover have "map b2c [?s 0, ?s 1, ?s 2, ?s 3, ?s 4] = [input ! (5 * k), input ! (5 * k + 1),
          input ! (5 * k + 2), input ! (5 * k + 3), input ! (5 * k + 4)]"
        using full(1) by (simp add: b2c_c_str)
      moreover have "toBase32Hex_loop beyond input (5 * k) =
          map (code5 ?s) [0..<8] @ toBase32Hex_loop beyond input (5 * Suc k)"
        using True full(2) by (subst toBase32Hex_loop_code5) (simp add: algebra_simps)
      ultimately show ?thesis
        by (simp only: fromBase32Hex_group IH append_assoc)
    next
      case partial
      obtain m where m: "stuffing ?todo = Suc m" using partial(2) gr0_implies_Suc by blast
      have "fromBase32Hex_loop (toBase32Hex_loop beyond input (5 * k)) (8 * k) [0, 0, 0, 0, 0] 0 ret =
          ret @ map b2c (take ?todo [?s 0, ?s 1, ?s 2, ?s 3])"
        using True fromBase32Hex_partial [OF partial(3), of ?s "replicate m (CHR ''='') @
          toBase32Hex_loop beyond input (5 * k + 5)" k ret] partial(4)
        by (subst toBase32Hex_loop_code5) (simp add: m)
      also have "map b2c (take ?todo [?s 0, ?s 1, ?s 2, ?s 3]) = drop (5 * k) input"
        using True partial(1) by (intro take4_c_str) auto
      finally show ?thesis .
    qed
  qed
qed

text \<open>The characters of a group depend on the group's bytes and at most the byte after them.\<close>

lemma code5_cong:
  assumes "n < 8 - stuffing todo" "0 < todo" "\<And>i. i \<le> todo \<Longrightarrow> i < 5 \<or> todo < 5 \<Longrightarrow> s i = t i"
  shows "code5 s n = code5 t n"
proof -
  from assms(2) have "extract_bits s (n * 5) 5 = extract_bits t (n * 5) 5"
  proof (cases rule: stuffing_cases)
    case full
    with assms have "n \<in> {0, 1, 2, 3, 4, 5, 6, 7}" and "\<forall>i < 5. s i = t i" by auto
    then show ?thesis by (elim insertE emptyE) (simp_all add: extract5)
  next
    case partial
    then have "todo = 1 \<or> todo = 2 \<or> todo = 3 \<or> todo = 4" using assms(2) by arith
    moreover have "n \<in> {0, 1, 2, 3, 4, 5, 6}" using assms(1) partial(2) by auto
    ultimately show ?thesis
      using assms(1,3) partial(1)
      by (elim disjE insertE emptyE) (simp_all add: extract5 stuffing_def)
  qed
  then show ?thesis by (simp add: code5_def)
qed

lemma toBase32Hex_loop_beyond:
  "toBase32Hex_loop beyond input offset = toBase32Hex_loop beyond' input offset"
proof (induction beyond input offset rule: toBase32Hex_loop.induct)
  case (1 beyond input offset)
  let ?todo = "length input - offset"
  show ?case
  proof (cases "offset < length input")
    case True
    have "code5 (\<lambda>i. c_str beyond input (offset + i)) n = code5 (\<lambda>i. c_str beyond' input (offset + i)) n"
      if "n < 8 - stuffing ?todo" for n
      using True by (intro code5_cong [OF that]) (auto simp: c_str_def)
    then show ?thesis
      using True 1 by (simp add: toBase32Hex_loop_code5 [of _ input offset] Let_def)
  qed (simp add: toBase32Hex_loop_code5 [of _ input offset])
qed

interpretation base32: codec "toBase32Hex beyond" "\<lambda>s. Inr (fromBase32Hex s)" "\<lambda>_. True"
  for beyond
  by unfold_locales
    (simp add: fromBase32Hex_def toBase32Hex_def
      fromBase32Hex_toBase32Hex_loop [where k = 0, simplified])

subsection \<open>Properties\<close>

text \<open>
  Decoding an encoded string gives the string back, for every string of bytes,
  two strings with one encoding are equal, and the encoding does not depend on the memory
  after the string's terminating NUL, which \<open>extract_bits\<close> reads at the end of the input.
\<close>

theorem base32hex_roundtrip:
  "fromBase32Hex (toBase32Hex beyond input) = input \<and>
   (toBase32Hex beyond input = toBase32Hex beyond input' \<longleftrightarrow> input = input') \<and>
   toBase32Hex beyond input = toBase32Hex beyond' input"
  using base32.dec_enc [of beyond input] base32.enc_inject [of beyond input input']
    toBase32Hex_loop_beyond [of beyond input 0 beyond']
  by (simp add: toBase32Hex_def)

end
