(* ===== verification/Base64.thy ===== *)
theory Base64
  imports Prelude
begin

text \<open>
  The base64 codec of \<open>base64.cc\<close>.  Decoding collects four groups of six bits in a
  \<open>long\<close> and copies its three low bytes out; it accepts white space between characters.
\<close>

subsection \<open>Characters\<close>

text \<open>
  The value of a character, in \<open>unsigned char\<close> arithmetic: digits, capitals and small
  letters are told apart by how far they lie below \<open>9\<close>, \<open>Z\<close> and \<open>z\<close>.
\<close>

definition B64Decode1 :: "char \<Rightarrow> byte" where
  "B64Decode1 cInChar =
     (if cInChar = CHR ''+'' then 62
      else if cInChar = CHR ''/'' then 63
      else if cInChar = CHR ''='' then 0
      else let iIndex = c2b (CHR ''9'') - c2b cInChar
           in if iIndex > 0x3F then
                (let iIndex = c2b (CHR ''Z'') - c2b cInChar
                 in if iIndex > 0x3F then
                      (let iIndex = c2b (CHR ''z'') - c2b cInChar
                       in if iIndex > 0x3F then 0x80
                          else ((c2b (CHR ''z'') - iIndex) - c2b (CHR ''a'')) + 26)
                    else (c2b (CHR ''Z'') - iIndex) - c2b (CHR ''A''))
              else ((c2b (CHR ''9'') - iIndex) - c2b (CHR ''0'')) + 52)"

definition B64Encode1 :: "byte \<Rightarrow> char" where
  "B64Encode1 uc =
     (if uc < 26 then b2c (c2b (CHR ''A'') + uc)
      else if uc < 52 then b2c (c2b (CHR ''a'') + (uc - 26))
      else if uc < 62 then b2c (c2b (CHR ''0'') + (uc - 52))
      else if uc = 62 then CHR ''+''
      else CHR ''/'')"

subsection \<open>Decoding\<close>

text \<open>
  One round of the inner loop for bit group \<open>g\<close>: the input still to read, the buffer and the
  count of padding characters.  \<open>Inr None\<close> is the early \<open>return -1\<close>; reading past the end
  with \<open>at\<close> throws.
\<close>

definition B64Decode_group ::
    "nat \<Rightarrow> string \<Rightarrow> u64 \<Rightarrow> nat \<Rightarrow> (string \<times> u64 \<times> nat) option result" where
  "B64Decode_group g inp cBuf pad =
     (let fetched =
        (case inp of
           [] \<Rightarrow> Inr ([], 0 :: byte, pad)
         | c # _ \<Rightarrow>
             (let pad' = (if c = CHR ''='' then pad + 1 else pad)
              in case dropWhile isspace inp of
                   [] \<Rightarrow> Inl OutOfRange
                 | d # rest \<Rightarrow> Inr (rest, B64Decode1 d, pad')))
      in bindE fetched (\<lambda>(rest, cChar, pad').
           if cChar > 0x7F then Inr None
           else if g = 0 then Inr (Some (rest, cBuf OR ucast cChar, pad'))
           else Inr (Some (rest, push_bit 6 cBuf OR ucast cChar, pad'))))"

fun B64Decode_groups ::
    "nat list \<Rightarrow> string \<Rightarrow> u64 \<Rightarrow> nat \<Rightarrow> (string \<times> u64 \<times> nat) option result" where
  "B64Decode_groups [] inp cBuf pad = Inr (Some (inp, cBuf, pad))"
| "B64Decode_groups (g # gs) inp cBuf pad =
     bindE (B64Decode_group g inp cBuf pad) (\<lambda>r.
       case r of None \<Rightarrow> Inr None
       | Some (inp', cBuf', pad') \<Rightarrow> B64Decode_groups gs inp' cBuf' pad')"

lemma length_dropWhile_Cons: "dropWhile P xs = y # ys \<Longrightarrow> length ys < length xs"
  using length_dropWhile_le [of P xs] by simp

lemma B64Decode_group_shrinks:
  assumes "B64Decode_group g inp cBuf pad = Inr (Some (rest, b, p))"
  shows "length rest \<le> length inp" "inp \<noteq> [] \<Longrightarrow> length rest < length inp"
  using assms
  by (auto simp: B64Decode_group_def Let_def split: list.splits if_splits dest: length_dropWhile_Cons)

lemma B64Decode_groups_Cons_Some:
  "B64Decode_groups (g # gs) inp cBuf pad = Inr (Some x) \<longleftrightarrow>
   (\<exists>r b p. B64Decode_group g inp cBuf pad = Inr (Some (r, b, p)) \<and> B64Decode_groups gs r b p = Inr (Some x))"
  by (auto split: option.splits)

lemma B64Decode_groups_shrinks:
  "B64Decode_groups gs inp cBuf pad = Inr (Some (rest, b, p)) \<Longrightarrow> length rest \<le> length inp"
proof (induction gs arbitrary: inp cBuf pad)
  case (Cons g gs)
  then show ?case
    unfolding B64Decode_groups_Cons_Some by (meson B64Decode_group_shrinks(1) le_trans)
qed simp

text \<open>The bytes \<open>pBuf[2]\<close>, \<open>pBuf[1]\<close>, \<open>pBuf[0]\<close> of the little-endian buffer.\<close>

definition buf_bytes :: "u64 \<Rightarrow> string" where
  "buf_bytes cBuf = [b2c (ucast (drop_bit 16 cBuf)), b2c (ucast (drop_bit 8 cBuf)), b2c (ucast cBuf)]"

function B64Decode_loop :: "string \<Rightarrow> nat \<Rightarrow> string \<Rightarrow> (nat option \<times> string) result" where
  "B64Decode_loop inp pad strOutput =
     (if inp = [] then Inr (Some pad, strOutput)
      else case B64Decode_groups [0, 1, 2, 3] inp 0 0 of
             Inl e \<Rightarrow> Inl e
           | Inr None \<Rightarrow> Inr (None, strOutput)
           | Inr (Some (rest, cBuf, pad')) \<Rightarrow> B64Decode_loop rest pad' (strOutput @ buf_bytes cBuf))"
  by pat_completeness auto
termination
proof (relation "measure (\<lambda>(inp, pad, out). length inp)", goal_cases)
  case (2 inp pad strOutput x2 x2a x y xa ya)
  then obtain r1 c1 p1 where g: "B64Decode_group 0 inp 0 0 = Inr (Some (r1, c1, p1))"
      "B64Decode_groups [1, 2, 3] r1 c1 p1 = Inr (Some (x, xa, ya))"
    by (auto split: option.splits)
  have "length r1 < length inp" using B64Decode_group_shrinks(2) [OF g(1)] 2 by simp
  moreover have "length x \<le> length r1" using g(2) by (rule B64Decode_groups_shrinks)
  ultimately show ?case by simp
qed simp

declare B64Decode_loop.simps [simp del]

text \<open>
  The result is the return value and the new value of \<open>strOutput\<close>.  Removing the padding
  with \<open>resize(length - pad)\<close> underflows when there are fewer characters than padding.
\<close>

definition B64Decode :: "string \<Rightarrow> string \<Rightarrow> (int \<times> string) result" where
  "B64Decode strInput strOutput =
     bindE (B64Decode_loop strInput 0 strOutput) (\<lambda>(r, out).
       case r of
         None \<Rightarrow> Inr (-1, out)
       | Some pad \<Rightarrow>
           (if pad \<noteq> 0 then
              (if length out < pad then Inl LengthError else Inr (1, take (length out - pad) out))
            else Inr (1, out)))"

subsection \<open>Encoding\<close>

definition Base64Encode_block :: "byte \<Rightarrow> byte \<Rightarrow> byte \<Rightarrow> byte list" where
  "Base64Encode_block by1 by2 by3 =
     [drop_bit 2 by1,
      push_bit 4 (by1 AND 0x3) OR drop_bit 4 by2,
      push_bit 2 (by2 AND 0xf) OR drop_bit 6 by3,
      by3 AND 0x3f]"

fun Base64Encode :: "string \<Rightarrow> string" where
  "Base64Encode [] = []"
| "Base64Encode [a] =
     map B64Encode1 (take 2 (Base64Encode_block (c2b a) 0 0)) @ ''==''"
| "Base64Encode [a, b] =
     map B64Encode1 (take 3 (Base64Encode_block (c2b a) (c2b b) 0)) @ ''=''"
| "Base64Encode (a # b # c # vby) =
     map B64Encode1 (Base64Encode_block (c2b a) (c2b b) (c2b c)) @ Base64Encode vby"

subsection \<open>Round trip\<close>

lemma c2b_letters:
  "c2b (CHR ''A'') = 65" "c2b (CHR ''Z'') = 90" "c2b (CHR ''a'') = 97" "c2b (CHR ''z'') = 122"
  "c2b (CHR ''0'') = 48" "c2b (CHR ''9'') = 57" "c2b (CHR ''+'') = 43" "c2b (CHR ''/'') = 47"
  by (simp_all add: c2b_def)

lemma B64Decode1_b2c:
  "B64Decode1 (b2c b) =
    (if b = 43 then 62 else if b = 47 then 63 else if b = 61 then 0
     else if 57 - b \<le> 63 then 57 - (57 - b) - 48 + 52
     else if 90 - b \<le> 63 then 90 - (90 - b) - 65
     else if 122 - b \<le> 63 then 122 - (122 - b) - 97 + 26 else 0x80)"
  by (simp add: B64Decode1_def b2c_eq_iff c2b_letters Let_def not_less [symmetric]) (simp add: c2b_def)

lemma masks6: "(3::byte) = mask 2" "(15::byte) = mask 4" "(63::byte) = mask 6"
  by (simp_all add: mask_eq_exp_minus_1)

lemma B64_table:
  "list_all (\<lambda>v. B64Decode1 (B64Encode1 (word_of_nat v)) = word_of_nat v
      \<and> B64Encode1 (word_of_nat v) \<noteq> CHR ''='' \<and> \<not> isspace (B64Encode1 (word_of_nat v))) [0..<64]"
  by (simp add: upt_rec B64Decode1_b2c B64Encode1_def c2b_letters isspace_def b2c_eq_iff) (simp add: c2b_def isspace_def ucode_def B64Decode1_def)

lemma B64Encode1_ok:
  assumes "v < 64"
  shows "B64Decode1 (B64Encode1 v) = v" "B64Encode1 v \<noteq> CHR ''=''" "\<not> isspace (B64Encode1 v)"
proof -
  have "unat v < 64" using assms by (simp add: word_less_nat_alt)
  then show "B64Decode1 (B64Encode1 v) = v" "B64Encode1 v \<noteq> CHR ''=''" "\<not> isspace (B64Encode1 v)"
    using B64_table by (auto simp: list_all_iff dest!: bspec [where x = "unat v"])
qed

lemma B64Decode_group_step:
  assumes "v < 64"
  shows "B64Decode_group g (B64Encode1 v # inp) cBuf pad =
    Inr (Some (inp, (if g = 0 then cBuf OR ucast v else push_bit 6 cBuf OR ucast v), pad))"
proof -
  have "\<not> v > 0x7F" using assms by (simp add: word_less_nat_alt)
  then show ?thesis using B64Encode1_ok [OF assms] by (simp add: B64Decode_group_def)
qed

lemma B64Decode_group_pad:
  "B64Decode_group g (CHR ''='' # inp) cBuf pad =
    Inr (Some (inp, (if g = 0 then cBuf else push_bit 6 cBuf), pad + 1))"
  by (simp add: B64Decode_group_def isspace_def ucode_def B64Decode1_def)

lemma Base64Encode_block_less:
  "drop_bit 2 a < (64 :: byte)" "(push_bit 4 (a AND 0x3) OR drop_bit 4 b) < (64 :: byte)"
  "(push_bit 2 (b AND 0xf) OR drop_bit 6 c) < (64 :: byte)" "c AND 0x3f < (64 :: byte)"
proof -
  have less: "v < 64" if "v AND 63 = v" for v :: byte
  proof -
    have "v AND 63 \<le> 63" by (rule word_and_le1)
    then have "v AND 63 < 64" by (rule le_less_trans) simp
    then show ?thesis by (simp only: that)
  qed
  show "drop_bit 2 a < (64 :: byte)" "(push_bit 4 (a AND 0x3) OR drop_bit 4 b) < (64 :: byte)"
    "(push_bit 2 (b AND 0xf) OR drop_bit 6 c) < (64 :: byte)" "c AND 0x3f < (64 :: byte)"
    by (rule less, rule bit_word_eqI, drule bit_index8, elim disjE; simp add: masks6 bit_simps byte_bit_high)+
qed

definition join4 :: "byte \<Rightarrow> byte \<Rightarrow> byte \<Rightarrow> byte \<Rightarrow> u64" where
  "join4 p q r s = push_bit 6 (push_bit 6 (push_bit 6 (ucast p) OR ucast q) OR ucast r) OR ucast s"

lemma buf_bytes_join4:
  "buf_bytes (join4 (drop_bit 2 a) (push_bit 4 (a AND 0x3) OR drop_bit 4 b)
      (push_bit 2 (b AND 0xf) OR drop_bit 6 c) (c AND 0x3f)) = [b2c a, b2c b, b2c c]"
proof -
  let ?j = "join4 (drop_bit 2 a) (push_bit 4 (a AND 0x3) OR drop_bit 4 b)
      (push_bit 2 (b AND 0xf) OR drop_bit 6 c) (c AND 0x3f)"
  have "ucast (drop_bit 16 ?j) = a" "ucast (drop_bit 8 ?j) = b" "ucast ?j = c"
    unfolding join4_def
    by (rule bit_word_eqI, drule bit_index8, elim disjE; simp add: masks6 bit_simps byte_bit_high)+
  then show ?thesis by (simp only: buf_bytes_def)
qed

lemma B64Decode_groups4:
  assumes "p < 64" "q < 64" "r < 64" "s < 64"
  shows "B64Decode_groups [0, 1, 2, 3] (map B64Encode1 [p, q, r, s] @ inp) 0 0 = Inr (Some (inp, join4 p q r s, 0))"
    "B64Decode_groups [0, 1, 2, 3] (map B64Encode1 [p, q, r] @ CHR ''='' # inp) 0 0 = Inr (Some (inp, join4 p q r 0, 1))"
    "B64Decode_groups [0, 1, 2, 3] (map B64Encode1 [p, q] @ CHR ''='' # CHR ''='' # inp) 0 0 = Inr (Some (inp, join4 p q 0 0, 2))"
  using assms by (simp_all add: B64Decode_group_step B64Decode_group_pad join4_def)

lemma B64Decode_loop_Nil [simp]: "B64Decode_loop [] pad out = Inr (Some pad, out)"
  by (simp add: B64Decode_loop.simps)

lemma B64Decode_loop_step:
  assumes "B64Decode_groups [0, 1, 2, 3] inp 0 0 = Inr (Some (rest, cBuf, pad'))" "inp \<noteq> []"
  shows "B64Decode_loop inp pad out = B64Decode_loop rest pad' (out @ buf_bytes cBuf)"
  using assms(2) by (subst B64Decode_loop.simps) (simp only: assms(1) sum.case option.case prod.case if_False)

lemma B64Decode_loop_Base64Encode:
  "\<exists>pad junk. B64Decode_loop (Base64Encode s) 0 out = Inr (Some pad, out @ s @ junk) \<and> length junk = pad"
proof (induction s arbitrary: out rule: Base64Encode.induct)
  case 1
  then show ?case by simp
next
  case (2 a)
  have e: "Base64Encode [a] = map B64Encode1 [drop_bit 2 (c2b a), push_bit 4 (c2b a AND 0x3) OR drop_bit 4 0]
      @ CHR ''='' # CHR ''='' # []"
    by (simp add: Base64Encode_block_def)
  have "B64Decode_loop (Base64Encode [a]) 0 out = Inr (Some 2, out @ [a, b2c 0, b2c 0])"
    using buf_bytes_join4 [of "c2b a" 0 0]
    unfolding e by (subst B64Decode_loop_step [OF B64Decode_groups4(3) [where r = 0 and s = 0, OF Base64Encode_block_less(1,2)]]) simp_all
  then show ?case by auto
next
  case (3 a b)
  have e: "Base64Encode [a, b] = map B64Encode1 [drop_bit 2 (c2b a), push_bit 4 (c2b a AND 0x3) OR drop_bit 4 (c2b b),
      push_bit 2 (c2b b AND 0xf) OR drop_bit 6 0] @ CHR ''='' # []"
    by (simp add: Base64Encode_block_def)
  have "B64Decode_loop (Base64Encode [a, b]) 0 out = Inr (Some 1, out @ [a, b, b2c 0])"
    using buf_bytes_join4 [of "c2b a" "c2b b" 0]
    unfolding e by (subst B64Decode_loop_step [OF B64Decode_groups4(2) [where s = 0, OF Base64Encode_block_less(1,2,3)]]) simp_all
  then show ?case by auto
next
  case (4 a b c vby)
  let ?a = "c2b a" and ?b = "c2b b" and ?c = "c2b c"
  have "B64Decode_loop (Base64Encode (a # b # c # vby)) 0 out =
      B64Decode_loop (Base64Encode vby) 0 (out @ [a, b, c])"
    unfolding Base64Encode.simps Base64Encode_block_def
    by (subst B64Decode_loop_step [OF B64Decode_groups4(1) [OF Base64Encode_block_less]])
      (simp_all only: buf_bytes_join4 b2c_c2b, simp)
  then show ?case using "4.IH" [of "out @ [a, b, c]"] by simp
qed

lemma B64Decode_Base64Encode: "B64Decode (Base64Encode s) [] = Inr (1, s)"
proof -
  obtain pad junk where "B64Decode_loop (Base64Encode s) 0 [] = Inr (Some pad, s @ junk)" "length junk = pad"
    using B64Decode_loop_Base64Encode [of s "[]"] by auto
  then show ?thesis by (cases "pad = 0") (simp_all add: B64Decode_def)
qed

interpretation base64: codec Base64Encode "\<lambda>s. bindE (B64Decode s []) (\<lambda>(r, out). Inr out)" "\<lambda>_. True"
  by unfold_locales (simp add: B64Decode_Base64Encode)

subsection \<open>Properties\<close>

text \<open>
  Property C29.  Decoding an encoded string into an empty output returns success and the
  string itself, for every string of bytes and all three lengths of the last group; and
  two strings with one encoding are equal.
\<close>

theorem base64_roundtrip:
  "B64Decode (Base64Encode s) [] = Inr (1, s) \<and> (Base64Encode s = Base64Encode t \<longleftrightarrow> s = t)"
  by (simp add: B64Decode_Base64Encode base64.enc_inject)

end
