(* ===== verification/Dns.thy ===== *)
theory Dns
  imports Misc "HOL-Library.Product_Lexorder"
begin

text \<open>
  The data every other part shares: query types (\<open>qtype.cc\<close>), the packet and record headers,
  resource records and SOA data (\<open>dns.hh\<close>), and the helpers of \<open>dns.cc\<close>: packet
  comparison, expanding the question, and SOA content.
\<close>

subsection \<open>Query types\<close>

text \<open>A \<open>QType\<close> is its code; the table of names is filled by the first constructor.\<close>

type_synonym QType = u16

definition QType_names :: "(string \<times> u16) list" where
  "QType_names =
    [(''A'', 1), (''NS'', 2), (''CNAME'', 5), (''SOA'', 6), (''MR'', 9), (''PTR'', 12), (''HINFO'', 13),
     (''MX'', 15), (''TXT'', 16), (''RP'', 17), (''AFSDB'', 18), (''SIG'', 24), (''KEY'', 25),
     (''AAAA'', 28), (''LOC'', 29), (''SRV'', 33), (''CERT'', 37), (''A6'', 38), (''NAPTR'', 35),
     (''DS'', 43), (''SSHFP'', 44), (''RRSIG'', 46), (''NSEC'', 47), (''DNSKEY'', 48), (''NSEC3'', 50),
     (''NSEC3PARAM'', 51), (''TLSA'', 52), (''SPF'', 99), (''IXFR'', 251), (''AXFR'', 252),
     (''ANY'', 255), (''URL'', 256), (''MBOXFW'', 257), (''CURL'', 258), (''ADDR'', 259), (''DLV'', 32769)]"

definition QType_getName :: "QType \<Rightarrow> string" where
  "QType_getName code =
     (case find (\<lambda>(s, n). n = code) QType_names of
        Some (s, n) \<Rightarrow> s
      | None \<Rightarrow> ''#'' @ show_nat (unat code))"

definition chartocode :: "string \<Rightarrow> int" where
  "chartocode p =
     (case find (\<lambda>(s, n). s = p) QType_names of
        Some (s, n) \<Rightarrow> uint n
      | None \<Rightarrow>
          (if p \<noteq> [] \<and> hd p = CHR ''#'' then atoi (tl p)
           else if take 4 p = ''TYPE'' then atoi (drop 4 p)
           else 0))"

definition QType_assign :: "string \<Rightarrow> QType" where
  "QType_assign p = word_of_int (chartocode p)"

definition qt_OPT :: QType where "qt_OPT = 41"
definition qt_TSIG :: QType where "qt_TSIG = 250"

subsection \<open>The packet header\<close>

text \<open>
  The bit fields of \<open>struct dnsheader\<close> as the little-endian layout has them.  The 16-bit
  counts hold what is in memory: the code reads and writes them through \<open>ntohs\<close>.
\<close>

record dnsheader =
  hdr_id :: u16
  hdr_rd :: bool
  hdr_tc :: bool
  hdr_aa :: bool
  hdr_opcode :: "4 word"
  hdr_qr :: bool
  hdr_rcode :: "4 word"
  hdr_cd :: bool
  hdr_ad :: bool
  hdr_unused :: bool
  hdr_ra :: bool
  hdr_qdcount :: u16
  hdr_ancount :: u16
  hdr_nscount :: u16
  hdr_arcount :: u16

definition dnsheader_of :: "byte list \<Rightarrow> dnsheader" where
  "dnsheader_of m =
     \<lparr> hdr_id = le16 (m ! 0) (m ! 1),
       hdr_rd = bit (m ! 2) 0, hdr_tc = bit (m ! 2) 1, hdr_aa = bit (m ! 2) 2,
       hdr_opcode = ucast (drop_bit 3 (m ! 2)), hdr_qr = bit (m ! 2) 7,
       hdr_rcode = ucast (m ! 3), hdr_cd = bit (m ! 3) 4, hdr_ad = bit (m ! 3) 5,
       hdr_unused = bit (m ! 3) 6, hdr_ra = bit (m ! 3) 7,
       hdr_qdcount = le16 (m ! 4) (m ! 5), hdr_ancount = le16 (m ! 6) (m ! 7),
       hdr_nscount = le16 (m ! 8) (m ! 9), hdr_arcount = le16 (m ! 10) (m ! 11) \<rparr>"

definition le_bytes16 :: "u16 \<Rightarrow> byte list" where
  "le_bytes16 w = [ucast w, ucast (drop_bit 8 w)]"

definition flag :: "bool \<Rightarrow> nat \<Rightarrow> byte" where
  "flag b n = (if b then push_bit n 1 else 0)"

definition bytes_of_dnsheader :: "dnsheader \<Rightarrow> byte list" where
  "bytes_of_dnsheader h =
     le_bytes16 (hdr_id h)
     @ [flag (hdr_rd h) 0 OR flag (hdr_tc h) 1 OR flag (hdr_aa h) 2
          OR push_bit 3 (ucast (hdr_opcode h)) OR flag (hdr_qr h) 7,
        ucast (hdr_rcode h) OR flag (hdr_cd h) 4 OR flag (hdr_ad h) 5
          OR flag (hdr_unused h) 6 OR flag (hdr_ra h) 7]
     @ le_bytes16 (hdr_qdcount h) @ le_bytes16 (hdr_ancount h)
     @ le_bytes16 (hdr_nscount h) @ le_bytes16 (hdr_arcount h)"

text \<open>\<open>struct dnsrecordheader\<close>, its fields in host order, and \<open>struct EDNS0Record\<close>.\<close>

record dnsrecordheader =
  rh_type :: u16
  rh_class :: u16
  rh_ttl :: u32
  rh_clen :: u16

definition dnsrecordheader_of :: "byte list \<Rightarrow> dnsrecordheader" where
  "dnsrecordheader_of m =
     \<lparr> rh_type = be_val16 (m ! 0) (m ! 1), rh_class = be_val16 (m ! 2) (m ! 3),
       rh_ttl = be_val32 (m ! 4) (m ! 5) (m ! 6) (m ! 7), rh_clen = be_val16 (m ! 8) (m ! 9) \<rparr>"

definition bytes_of_dnsrecordheader :: "dnsrecordheader \<Rightarrow> byte list" where
  "bytes_of_dnsrecordheader h =
     be_bytes16 (rh_type h) @ be_bytes16 (rh_class h) @ be_bytes32 (rh_ttl h) @ be_bytes16 (rh_clen h)"

record EDNS0Record =
  ex_extRCode :: byte
  ex_version :: byte
  ex_Z :: u16

subsection \<open>Resource records and SOA data\<close>

datatype Place = QUESTION | ANSWER | AUTHORITY | ADDITIONAL

record DNSResourceRecord =
  rr_qtype :: QType
  rr_qclass :: u16
  rr_qname :: string
  rr_wildcardname :: string
  rr_content :: string
  rr_priority :: u16
  rr_ttl :: u32
  rr_domain_id :: int
  rr_last_modified :: int
  rr_place :: Place
  rr_auth :: bool
  rr_scopeMask :: byte

text \<open>The constructor's values; \<open>qtype\<close>, \<open>ttl\<close> and \<open>domain_id\<close> are left as they are.\<close>

definition DNSResourceRecord_init :: "QType \<Rightarrow> u32 \<Rightarrow> int \<Rightarrow> DNSResourceRecord" where
  "DNSResourceRecord_init qtype ttl domain_id =
     \<lparr> rr_qtype = qtype, rr_qclass = 1, rr_qname = [], rr_wildcardname = [], rr_content = [],
       rr_priority = 0, rr_ttl = ttl, rr_domain_id = domain_id, rr_last_modified = 0,
       rr_place = ANSWER, rr_auth = True, rr_scopeMask = 0 \<rparr>"

text \<open>\<open>std::string\<close>'s operators compare characters as \<open>unsigned char\<close>.\<close>

fun string_less :: "string \<Rightarrow> string \<Rightarrow> bool" where
  "string_less _ [] = False"
| "string_less [] (_ # _) = True"
| "string_less (a # as) (b # bs) = (ucode a < ucode b \<or> (a = b \<and> string_less as bs))"

definition DNSResourceRecord_less :: "DNSResourceRecord \<Rightarrow> DNSResourceRecord \<Rightarrow> bool" where
  "DNSResourceRecord_less a b =
     (if string_less (rr_qname a) (rr_qname b) then True
      else if rr_qname a = rr_qname b then string_less (rr_content a) (rr_content b)
      else False)"

record SOAData =
  soa_qname :: string
  soa_nameserver :: string
  soa_hostmaster :: string
  soa_ttl :: u32
  soa_serial :: u32
  soa_refresh :: u32
  soa_retry :: u32
  soa_expire :: u32
  soa_default_ttl :: u32
  soa_domain_id :: int
  soa_db :: "nat option"
  soa_scopeMask :: byte

fun attodot_loop :: "string \<Rightarrow> string" where
  "attodot_loop [] = []"
| "attodot_loop (c # s) =
     (if c = CHR ''@'' then CHR ''.'' # s
      else if c = CHR ''.'' then CHR 0x5C # CHR ''.'' # attodot_loop s
      else c # attodot_loop s)"

definition attodot :: "string \<Rightarrow> string" where
  "attodot str = (if CHR ''@'' \<notin> set str then str else attodot_loop str)"

text \<open>\<open>asNum\<close> stands for \<open>::arg().asNum\<close>.\<close>

definition fillSOAData :: "(string \<Rightarrow> int) \<Rightarrow> string \<Rightarrow> SOAData \<Rightarrow> SOAData" where
  "fillSOAData asNum content data =
     (let data = data\<lparr> soa_serial := 0,
            soa_refresh := word_of_int (asNum ''soa-refresh-default''),
            soa_retry := word_of_int (asNum ''soa-retry-default''),
            soa_expire := word_of_int (asNum ''soa-expire-default''),
            soa_default_ttl := word_of_int (asNum ''soa-minimum-ttl'') \<rparr>;
          parts = stringtok content default_delims;
          pleft = length parts;
          data = (if pleft > 0 then data\<lparr> soa_nameserver := parts ! 0 \<rparr> else data);
          data = (if pleft > 1 then data\<lparr> soa_hostmaster := attodot (parts ! 1) \<rparr> else data);
          data = (if pleft > 2 then data\<lparr> soa_serial := ucast (fst (strtoul (parts ! 2))) \<rparr> else data);
          data = (if pleft > 3 then data\<lparr> soa_refresh := word_of_int (atoi (parts ! 3)) \<rparr> else data);
          data = (if pleft > 4 then data\<lparr> soa_retry := word_of_int (atoi (parts ! 4)) \<rparr> else data);
          data = (if pleft > 5 then data\<lparr> soa_expire := word_of_int (atoi (parts ! 5)) \<rparr> else data)
      in if pleft > 6 then data\<lparr> soa_default_ttl := word_of_int (atoi (parts ! 6)) \<rparr> else data)"

definition serializeSOAData :: "SOAData \<Rightarrow> string" where
  "serializeSOAData d =
     soa_nameserver d @ '' '' @ soa_hostmaster d @ '' '' @ show_nat (unat (soa_serial d)) @ '' ''
     @ show_nat (unat (soa_refresh d)) @ '' '' @ show_nat (unat (soa_retry d)) @ '' ''
     @ show_nat (unat (soa_expire d)) @ '' '' @ show_nat (unat (soa_default_ttl d))"

definition strrcode :: "byte \<Rightarrow> string" where
  "strrcode rcode =
     (let rcodes = [''No Error'', ''FormErr'', ''SERVFAIL'', ''NXDOMAIN'', ''NotImp'', ''Refused'',
                    '''', '''', '''', ''Not Auth'']
      in if unat rcode < length rcodes \<and> rcodes ! unat rcode \<noteq> [] then rcodes ! unat rcode
         else ''Err#'' @ show_nat (unat rcode))"

subsection \<open>The question of a packet\<close>

definition appendEscapedLabel :: "string \<Rightarrow> string \<Rightarrow> string" where
  "appendEscapedLabel ret label =
     (if \<forall>c \<in> set label. \<not> (c = CHR ''.'' \<or> c = CHR 0x5C \<or> c = CHR '' '') then ret @ label
      else let label = replace_all [CHR 0x5C] [CHR 0x5C, CHR 0x5C] label;
               label = replace_all ''.'' [CHR 0x5C, CHR ''.''] label;
               label = replace_all '' '' [CHR 0x5C, CHR ''0'', CHR ''3'', CHR ''2''] label
           in ret @ label)"

text \<open>
  \<open>packet\<close> is the memory from the pointer on: the loop reads the byte at \<open>end\<close>, one past
  the packet.  The result is the name and the type.
\<close>

function questionExpand_loop :: "(nat \<Rightarrow> byte) \<Rightarrow> nat \<Rightarrow> nat \<Rightarrow> string \<Rightarrow> (nat \<times> nat \<times> string) result" where
  "questionExpand_loop packet len pos ret =
     (let labellen = unat (packet pos); pos = pos + 1
      in if labellen \<noteq> 0 \<and> pos < len then
           (if pos + labellen > len
            then Inl (RuntimeError ''Error parsing question in incoming packet: label extends beyond packet'')
            else questionExpand_loop packet len (pos + labellen)
                   (appendEscapedLabel ret (map (\<lambda>n. b2c (packet (pos + n))) [0..<labellen]) @ ''.''))
         else Inr (pos, labellen, ret))"
  by pat_completeness auto
termination
  by (relation "measure (\<lambda>(packet, len, pos, ret). len - pos)") auto

declare questionExpand_loop.simps [simp del]

definition questionExpand :: "(nat \<Rightarrow> byte) \<Rightarrow> nat \<Rightarrow> (string \<times> u16) result" where
  "questionExpand packet len =
     (if len < 12 then Inl (RuntimeError ''Error parsing question in incoming packet: packet too short'')
      else bindE (questionExpand_loop packet len 12 (if packet 12 = 0 then ''.'' else []))
             (\<lambda>(pos, labellen, ret).
                Inr (ret, if pos + labellen + 2 \<le> len
                          then word_of_nat (unat (packet pos) * 256 + unat (packet (pos + 1))) else 0)))"

text \<open>The bounds-checked comparison; \<open>char\<close> is signed in the arithmetic.\<close>

definition safe_at :: "string \<Rightarrow> nat \<Rightarrow> char result" where
  "safe_at s offset =
     (if offset < length s then Inr (s ! offset)
      else Inl (RuntimeError (''out of bounds: '' @ show_nat offset @ '' >= '' @ show_nat (length s))))"

text \<open>Compares labels of lengths \<open>al\<close> and \<open>bl\<close> at the positions, from \<open>n\<close> on: \<open>Inr (result, n)\<close>.\<close>

function label_cmp :: "string \<Rightarrow> string \<Rightarrow> nat \<Rightarrow> nat \<Rightarrow> nat \<Rightarrow> nat \<Rightarrow> nat \<Rightarrow> (int \<times> nat) result" where
  "label_cmp a b aPos bPos al bl n =
     (if n < al \<and> n < bl then
        bindE (safe_at a (aPos + n)) (\<lambda>x. bindE (safe_at b (bPos + n)) (\<lambda>y.
          if scode x - scode y \<noteq> 0 then Inr (scode x - scode y, n)
          else label_cmp a b aPos bPos al bl (n + 1)))
      else Inr (0, n))"
  by pat_completeness auto
termination
  by (relation "measure (\<lambda>(a, b, aPos, bPos, al, bl, n). al - n)") auto

declare label_cmp.simps [simp del]

definition sQ :: "char \<Rightarrow> char \<Rightarrow> u16" where
  "sQ hi lo = word_of_int (scode hi * 256 + scode lo)"

function dnspacketLessThan_loop :: "string \<Rightarrow> string \<Rightarrow> nat \<Rightarrow> nat \<Rightarrow> bool result" where
  "dnspacketLessThan_loop a b aPos bPos =
     bindE (safe_at a aPos) (\<lambda>ac. bindE (safe_at b bPos) (\<lambda>bc.
       let al = ucode ac; bl = ucode bc
       in bindE (label_cmp a b (aPos + 1) (bPos + 1) al bl 0) (\<lambda>(result, n).
            if result < 0 then Inr True
            else if result > 0 then Inr False
            else if n = al \<and> n \<noteq> bl then Inr True
            else if n \<noteq> al \<and> n = bl then Inr False
            else if al \<noteq> 0 \<and> bl \<noteq> 0 then dnspacketLessThan_loop a b (aPos + 1 + al) (bPos + 1 + bl)
            else if al \<noteq> 0 \<or> bl \<noteq> 0
              then Inl (RuntimeError ''Error in label comparison routing, should not happen'')
            else let aPos = aPos + 1 + al; bPos = bPos + 1 + bl in
              bindE (safe_at a aPos) (\<lambda>a0. bindE (safe_at a (aPos + 1)) (\<lambda>a1.
              bindE (safe_at b bPos) (\<lambda>b0. bindE (safe_at b (bPos + 1)) (\<lambda>b1.
              bindE (safe_at a (aPos + 2)) (\<lambda>a2. bindE (safe_at a (aPos + 3)) (\<lambda>a3.
              bindE (safe_at b (bPos + 2)) (\<lambda>b2. bindE (safe_at b (bPos + 3)) (\<lambda>b3.
                Inr (sQ a0 a1 < sQ b0 b1 \<or> (sQ a0 a1 = sQ b0 b1 \<and> sQ a2 a3 < sQ b2 b3)))))))))))))"
  by pat_completeness auto
termination
  by (relation "measure (\<lambda>(a, b, aPos, bPos). length a - aPos)") (auto simp: safe_at_def split: if_splits)

declare dnspacketLessThan_loop.simps [simp del]

definition dnspacketLessThan :: "string \<Rightarrow> string \<Rightarrow> bool result" where
  "dnspacketLessThan a b =
     (if length a \<le> 12 \<or> length b \<le> 12 then Inr (length a < length b)
      else dnspacketLessThan_loop a b 12 12)"

subsection \<open>Headers\<close>

lemma bit_nibble: "(n::nat) < LENGTH(4) \<Longrightarrow> n = 0 \<or> n = 1 \<or> n = 2 \<or> n = 3"
  by (simp, arith)

lemma le_bytes_le16 [codec_simps]: "le_bytes16 (le16 a b) = [a, b]"
  unfolding le_bytes16_def le16_def list.inject
  by (intro conjI refl; rule bit_word_eqI, drule bit_index8, elim disjE; simp add: bit_simps byte_bit_high)

lemma le16_le_bytes [codec_simps]: "le16 (ucast w) (ucast (drop_bit 8 w)) = w"
  by (rule bit_word_eqI) (auto simp: le16_def bit_simps)

lemma header_byte2:
  "flag (bit b 0) 0 OR flag (bit b 1) 1 OR flag (bit b 2) 2
     OR push_bit 3 (ucast (ucast (drop_bit 3 b) :: 4 word)) OR flag (bit b 7) 7 = (b :: byte)"
  by (rule bit_word_eqI, drule bit_index8, elim disjE) (simp_all add: flag_def bit_simps byte_bit_high)

lemma header_byte3:
  "ucast (ucast b :: 4 word) OR flag (bit b 4) 4 OR flag (bit b 5) 5
     OR flag (bit b 6) 6 OR flag (bit b 7) 7 = (b :: byte)"
  by (rule bit_word_eqI, drule bit_index8, elim disjE) (simp_all add: flag_def bit_simps byte_bit_high)

lemma header_fields2:
  fixes opc :: "4 word" and rd tc aa qr :: bool
  defines "b \<equiv> \<lambda>rd tc aa (opc :: 4 word) qr. flag rd 0 OR flag tc 1 OR flag aa 2 OR push_bit 3 (ucast opc) OR flag qr 7"
  shows "bit (b rd tc aa opc qr) 0 = rd" "bit (b rd tc aa opc qr) 1 = tc" "bit (b rd tc aa opc qr) 2 = aa"
    "ucast (drop_bit 3 (b rd tc aa opc qr)) = opc" "bit (b rd tc aa opc qr) 7 = qr"
proof -
  have high: "\<not> bit opc 4" by (auto dest: bit_imp_le_length)
  show "bit (b rd tc aa opc qr) 0 = rd" "bit (b rd tc aa opc qr) 1 = tc" "bit (b rd tc aa opc qr) 2 = aa"
     "bit (b rd tc aa opc qr) 7 = qr"
    using high by (simp_all add: b_def flag_def bit_simps)
  show "ucast (drop_bit 3 (b rd tc aa opc qr)) = opc"
    unfolding b_def
    by (rule bit_word_eqI, drule bit_nibble, elim disjE; simp add: flag_def bit_simps)
qed

lemma header_fields3:
  fixes rc :: "4 word" and cd ad un ra :: bool
  defines "b \<equiv> \<lambda>(rc :: 4 word) cd ad un ra. ucast rc OR flag cd 4 OR flag ad 5 OR flag un 6 OR flag ra 7"
  shows "ucast (b rc cd ad un ra) = rc" "bit (b rc cd ad un ra) 4 = cd" "bit (b rc cd ad un ra) 5 = ad"
    "bit (b rc cd ad un ra) 6 = un" "bit (b rc cd ad un ra) 7 = ra"
proof -
  have high: "\<not> bit rc (n + 4)" for n by (auto dest: bit_imp_le_length)
  show "bit (b rc cd ad un ra) 4 = cd" "bit (b rc cd ad un ra) 5 = ad"
    "bit (b rc cd ad un ra) 6 = un" "bit (b rc cd ad un ra) 7 = ra"
    using high [of 0] high [of 1] high [of 2] high [of 3] by (simp_all add: b_def flag_def bit_simps)
  show "ucast (b rc cd ad un ra) = rc"
    unfolding b_def by (rule bit_word_eqI, drule bit_nibble, elim disjE; simp add: flag_def bit_simps)
qed

lemma dnsheader_of_bytes: "dnsheader_of (bytes_of_dnsheader h) = h"
  using header_fields2 [of "hdr_rd h" "hdr_tc h" "hdr_aa h" "hdr_opcode h" "hdr_qr h"]
    header_fields3 [of "hdr_rcode h" "hdr_cd h" "hdr_ad h" "hdr_unused h" "hdr_ra h"]
  by (simp add: dnsheader_of_def bytes_of_dnsheader_def le_bytes16_def le16_le_bytes)

lemma length_12: "length bs = 12 \<Longrightarrow>
   bs = [bs ! 0, bs ! 1, bs ! 2, bs ! 3, bs ! 4, bs ! 5, bs ! 6, bs ! 7, bs ! 8, bs ! 9, bs ! 10, bs ! 11]"
  by (rule nth_equalityI) (auto simp: nth_Cons' less_Suc_eq numeral_eq_Suc)

lemma bytes_of_dnsheader_of: "length bs = 12 \<Longrightarrow> bytes_of_dnsheader (dnsheader_of bs) = bs"
  by (subst length_12) (simp_all add: dnsheader_of_def bytes_of_dnsheader_def le_bytes_le16
      header_byte2 [simplified] header_byte3 [simplified])

lemma length_bytes_of_dnsheader [simp]: "length (bytes_of_dnsheader h) = 12"
  by (simp add: bytes_of_dnsheader_def le_bytes16_def)

lemma dnsrecordheader_of_bytes [simp]: "dnsrecordheader_of (bytes_of_dnsrecordheader h) = h"
  by (simp add: dnsrecordheader_of_def bytes_of_dnsrecordheader_def be_bytes16_def be_bytes32_def be_val_bytes)

lemma length_bytes_of_dnsrecordheader [simp]: "length (bytes_of_dnsrecordheader h) = 10"
  by (simp add: bytes_of_dnsrecordheader_def)

interpretation header: codec bytes_of_dnsheader
    "\<lambda>bs. if length bs < 12 then Inl (MOADNSException ''Packet shorter than minimal header'')
          else Inr (dnsheader_of bs)" "\<lambda>_. True"
  by unfold_locales (simp add: dnsheader_of_bytes)

subsection \<open>Type names\<close>

lemma find_unique_key:
  assumes "distinct (map fst xs)" "find (\<lambda>(s, n). n = c) xs = Some (s, n)"
  shows "find (\<lambda>(t, n). t = s) xs = Some (s, n) \<and> n = c"
  using assms
proof (induction xs)
  case (Cons x xs)
  obtain t m where x: "x = (t, m)" by (cases x)
  show ?case
  proof (cases "m = c")
    case True
    then show ?thesis using Cons.prems(2) by (simp add: x)
  next
    case False
    then have f: "find (\<lambda>(s, n). n = c) xs = Some (s, n)" using Cons.prems(2) by (simp add: x)
    then have "(s, n) \<in> set xs" by (auto simp: find_Some_iff intro: nth_mem) (metis nth_mem)
    then have "s \<in> set (map fst xs)" by force
    then have "t \<noteq> s" using Cons.prems(1) by (auto simp: x)
    with Cons.IH [OF _ f] Cons.prems(1) show ?thesis by (simp add: x)
  qed
qed simp

lemma QType_names_distinct: "distinct (map fst QType_names)"
  by (simp add: QType_names_def)

lemma QType_names_no_hash: "find (\<lambda>(s, n). s = CHR ''#'' # t) QType_names = None"
  by (simp add: QType_names_def)

lemma chartocode_getName: "chartocode (QType_getName c) = uint c"
proof (cases "find (\<lambda>(s, n). n = c) QType_names")
  case None
  then show ?thesis
    using QType_names_no_hash [of "show_nat (unat c)"] by (simp add: chartocode_def QType_getName_def)
next
  case (Some a)
  then obtain s n where a: "find (\<lambda>(s, n). n = c) QType_names = Some (s, n)" by (cases a) auto
  from find_unique_key [OF QType_names_distinct a] a show ?thesis
    by (simp add: chartocode_def QType_getName_def)
qed

lemma QType_assign_getName: "QType_assign (QType_getName c) = c"
  by (simp add: QType_assign_def chartocode_getName)

interpretation qtype: codec QType_getName "\<lambda>s. Inr (QType_assign s)" "\<lambda>_. True"
  by unfold_locales (simp add: QType_assign_getName)

subsection \<open>SOA content\<close>

definition soa_clean :: "SOAData \<Rightarrow> bool" where
  "soa_clean d \<longleftrightarrow> clean_words default_delims [soa_nameserver d, soa_hostmaster d] \<and> CHR ''@'' \<notin> set (soa_hostmaster d)"

lemma show_nat_clean [simp]: "clean_words default_delims [show_nat n]"
proof -
  have "\<not> default_delims c" if "isdigit c" for c
    using that by (auto simp: default_delims_def isdigit_def ucode_def)
  then show ?thesis using show_nat_digits [of n] by (auto simp: clean_words_def)
qed

lemma serializeSOAData_join:
  "serializeSOAData d = join (CHR '' '') [soa_nameserver d, soa_hostmaster d, show_nat (unat (soa_serial d)),
     show_nat (unat (soa_refresh d)), show_nat (unat (soa_retry d)), show_nat (unat (soa_expire d)),
     show_nat (unat (soa_default_ttl d))]"
  by (simp add: serializeSOAData_def)

lemma stringtok_serializeSOAData:
  assumes "soa_clean d"
  shows "stringtok (serializeSOAData d) default_delims =
    [soa_nameserver d, soa_hostmaster d, show_nat (unat (soa_serial d)), show_nat (unat (soa_refresh d)),
     show_nat (unat (soa_retry d)), show_nat (unat (soa_expire d)), show_nat (unat (soa_default_ttl d))]"
  unfolding stringtok_tokens serializeSOAData_join
proof (rule tokens_join)
  show "default_delims (CHR '' '')" by (simp add: default_delims_def)
  show "clean_words default_delims [soa_nameserver d, soa_hostmaster d, show_nat (unat (soa_serial d)),
     show_nat (unat (soa_refresh d)), show_nat (unat (soa_retry d)), show_nat (unat (soa_expire d)),
     show_nat (unat (soa_default_ttl d))]"
    using assms show_nat_clean [unfolded clean_words_Cons]
    unfolding soa_clean_def clean_words_Cons by blast
qed

lemma unat_u32_less: "unat (w :: u32) < 2 ^ 64"
proof -
  have "unat w < 2 ^ 32" using unsigned_less [of w, where 'a = nat] by simp
  then show ?thesis by (rule less_trans) simp
qed

lemma strtoul_u32 [simp]: "ucast (fst (strtoul (show_nat (unat (w :: u32))))) = w"
  using strtoul_show_nat [of "unat w" "[]"] unat_u32_less [of w] by (simp add: unsigned_ucast_eq take_bit_word_eq_self)

lemma fillSOAData_serialize:
  assumes "soa_clean d"
  shows "fillSOAData asNum (serializeSOAData d) data =
    data\<lparr> soa_nameserver := soa_nameserver d, soa_hostmaster := soa_hostmaster d, soa_serial := soa_serial d,
      soa_refresh := soa_refresh d, soa_retry := soa_retry d, soa_expire := soa_expire d,
      soa_default_ttl := soa_default_ttl d \<rparr>"
  using assms
  by (simp add: fillSOAData_def stringtok_serializeSOAData Let_def attodot_def soa_clean_def)

subsection \<open>Packet order\<close>

text \<open>
  The sort key the comparison is about: the labels of the question, the empty one at the
  end included, as lists of signed characters, and type and class as the code computes them; \<open>None\<close> when the question does
  not lie within the packet.
\<close>

function question_key_from :: "string \<Rightarrow> nat \<Rightarrow> (int list list \<times> u16 \<times> u16) option" where
  "question_key_from p pos =
     (if pos < length p then
        let n = ucode (p ! pos) in
        if n = 0 then
          (if pos + 4 < length p
           then Some ([[]], sQ (p ! (pos + 1)) (p ! (pos + 2)), sQ (p ! (pos + 3)) (p ! (pos + 4))) else None)
        else if pos + n < length p then
          map_option (\<lambda>(ls, q). (map scode (substr p (pos + 1) n) # ls, q)) (question_key_from p (pos + 1 + n))
        else None
      else None)"
  by pat_completeness auto
termination
  by (relation "measure (\<lambda>(p, pos). length p - pos)") auto

declare question_key_from.simps [simp del]

definition question_key :: "string \<Rightarrow> (int list list \<times> u16 \<times> u16) option" where
  "question_key p = (if length p \<le> 12 then None else question_key_from p 12)"

lemma substr_Suc: "pos < length xs \<Longrightarrow> substr xs pos (Suc n) = xs ! pos # substr xs (Suc pos) n"
  by (simp add: substr_def Cons_nth_drop_Suc [symmetric])

lemma substr_0 [simp]: "substr xs pos 0 = []"
  by (simp add: substr_def)

definition cmp_ok :: "nat \<Rightarrow> nat \<Rightarrow> int list \<Rightarrow> int list \<Rightarrow> (int \<times> nat) result \<Rightarrow> bool" where
  "cmp_ok al bl x y res \<longleftrightarrow>
     (\<exists>r m. res = Inr (r, m) \<and> (r < 0 \<longrightarrow> x < y) \<and> (0 < r \<longrightarrow> y < x) \<and>
        (r = 0 \<longrightarrow> m = min al bl \<and> (al < bl \<longrightarrow> x < y) \<and> (bl < al \<longrightarrow> y < x) \<and> (al = bl \<longrightarrow> x = y)))"

lemma cmp_ok_Cons: "cmp_ok al bl x y res \<Longrightarrow> cmp_ok al bl (c # x) (c # y) res"
  by (auto simp: cmp_ok_def)

lemma label_cmp_order:
  assumes "aPos + al \<le> length a" "bPos + bl \<le> length b" "n \<le> al" "n \<le> bl"
  shows "cmp_ok al bl (map scode (substr a (aPos + n) (al - n))) (map scode (substr b (bPos + n) (bl - n)))
     (label_cmp a b aPos bPos al bl n)"
  using assms(3,4)
proof (induction "al - n" arbitrary: n)
  case 0
  then have n: "n = al" by simp
  show ?case
  proof (cases "bl = al")
    case False
    then have "bPos + al < length b" using 0 n assms(2) by simp
    then have "map scode (substr b (bPos + al) (bl - al)) = scode (b ! (bPos + al)) # map scode (substr b (bPos + Suc al) (bl - Suc al))"
      using False 0 n by (simp add: Suc_diff_Suc [symmetric] substr_Suc del: diff_Suc_Suc)
    then show ?thesis using 0 n False
      by (subst label_cmp.simps) (simp add: cmp_ok_def)
  qed (subst label_cmp.simps, simp add: n cmp_ok_def)
next
  case (Suc k)
  show ?case
  proof (cases "n < bl")
    case False
    then have n: "n = bl" using Suc.prems by simp
    have "aPos + bl < length a" using assms(1) Suc.hyps(2) n by simp
    then have "map scode (substr a (aPos + bl) (al - bl)) = scode (a ! (aPos + bl)) # map scode (substr a (aPos + Suc bl) (al - Suc bl))"
      using Suc.hyps(2) n by (simp add: Suc_diff_Suc [symmetric] substr_Suc del: diff_Suc_Suc)
    then show ?thesis using Suc.prems Suc.hyps(2) n
      by (subst label_cmp.simps) (simp add: cmp_ok_def)
  next
    case True
    let ?c = "scode (a ! (aPos + n))" and ?d = "scode (b ! (bPos + n))"
    let ?x = "map scode (substr a (aPos + Suc n) (al - Suc n))" and ?y = "map scode (substr b (bPos + Suc n) (bl - Suc n))"
    have lt: "aPos + n < length a" "bPos + n < length b" "n < al"
      using assms(1,2) True Suc.hyps(2) by simp_all
    have x: "map scode (substr a (aPos + n) (al - n)) = ?c # ?x"
      using lt by (simp add: Suc_diff_Suc [symmetric] substr_Suc del: diff_Suc_Suc)
    have y: "map scode (substr b (bPos + n) (bl - n)) = ?d # ?y"
      using lt True by (simp add: Suc_diff_Suc [symmetric] substr_Suc del: diff_Suc_Suc)
    have step: "label_cmp a b aPos bPos al bl n =
        (if ?c - ?d \<noteq> 0 then Inr (?c - ?d, n) else label_cmp a b aPos bPos al bl (Suc n))"
      using True lt by (subst label_cmp.simps) (simp add: safe_at_def)
    show ?thesis
    proof (cases "?c = ?d")
      case False
      then show ?thesis unfolding step x y by (auto simp: cmp_ok_def)
    next
      case True
      have "cmp_ok al bl ?x ?y (label_cmp a b aPos bPos al bl (Suc n))"
        using Suc.hyps(2) \<open>n < bl\<close> by (intro Suc.hyps(1)) auto
      then show ?thesis unfolding step x y using True by (simp add: cmp_ok_Cons)
    qed
  qed
qed

lemma question_key_from_Some:
  assumes "question_key_from p pos = Some k"
  obtains ls q where "pos < length p" "pos + 1 + ucode (p ! pos) \<le> length p"
    "k = (map scode (substr p (pos + 1) (ucode (p ! pos))) # ls, q)"
    "0 < ucode (p ! pos) \<longrightarrow> question_key_from p (pos + 1 + ucode (p ! pos)) = Some (ls, q)"
    "ucode (p ! pos) = 0 \<longrightarrow> pos + 4 < length p \<and> ls = [] \<and>
       q = (sQ (p ! (pos + 1)) (p ! (pos + 2)), sQ (p ! (pos + 3)) (p ! (pos + 4)))"
  using assms
  by (subst (asm) question_key_from.simps) (auto simp: Let_def split: if_splits)

lemma key_less_Cons:
  fixes x y :: "'a :: linorder" and p q :: "'b :: linorder"
  shows "(x # xs, q) < (y # ys, p) \<longleftrightarrow> x < y \<or> (x = y \<and> (xs, q) < (ys, p))"
  by (auto simp: less_prod_simp less_eq_list_code le_less)

lemma key_less_head:
  fixes x y :: "'a :: linorder" and p q :: "'b :: linorder"
  shows "x < y \<Longrightarrow> (x # xs, q) < (y # ys, p)" "y < x \<Longrightarrow> \<not> (x # xs, q) < (y # ys, p)"
  unfolding key_less_Cons by auto

lemma dnspacketLessThan_loop_key:
  assumes "question_key_from a aPos = Some ka" "question_key_from b bPos = Some kb"
  shows "dnspacketLessThan_loop a b aPos bPos = Inr (ka < kb)"
  using assms
proof (induction "length a - aPos" arbitrary: aPos bPos ka kb rule: less_induct)
  case less
  let ?al = "ucode (a ! aPos)" and ?bl = "ucode (b ! bPos)"
  let ?x = "map scode (substr a (aPos + 1) ?al)" and ?y = "map scode (substr b (bPos + 1) ?bl)"
  obtain las qa where A: "aPos < length a" "aPos + 1 + ?al \<le> length a" "ka = (?x # las, qa)"
      "0 < ?al \<longrightarrow> question_key_from a (aPos + 1 + ?al) = Some (las, qa)"
      "?al = 0 \<longrightarrow> aPos + 4 < length a \<and> las = [] \<and>
         qa = (sQ (a ! (aPos + 1)) (a ! (aPos + 2)), sQ (a ! (aPos + 3)) (a ! (aPos + 4)))"
    using less.prems(1) by (rule question_key_from_Some)
  obtain lbs qb where B: "bPos < length b" "bPos + 1 + ?bl \<le> length b" "kb = (?y # lbs, qb)"
      "0 < ?bl \<longrightarrow> question_key_from b (bPos + 1 + ?bl) = Some (lbs, qb)"
      "?bl = 0 \<longrightarrow> bPos + 4 < length b \<and> lbs = [] \<and>
         qb = (sQ (b ! (bPos + 1)) (b ! (bPos + 2)), sQ (b ! (bPos + 3)) (b ! (bPos + 4)))"
    using less.prems(2) by (rule question_key_from_Some)
  have "cmp_ok ?al ?bl ?x ?y (label_cmp a b (aPos + 1) (bPos + 1) ?al ?bl 0)"
    using label_cmp_order [OF A(2) B(2), of 0] by (simp only: add_0_right diff_zero le0 simp_thms)
  then obtain r m where
    cmp: "label_cmp a b (aPos + 1) (bPos + 1) ?al ?bl 0 = Inr (r, m)" and
    r: "r < 0 \<longrightarrow> ?x < ?y" "0 < r \<longrightarrow> ?y < ?x"
       "r = 0 \<longrightarrow> m = min ?al ?bl \<and> (?al < ?bl \<longrightarrow> ?x < ?y) \<and> (?bl < ?al \<longrightarrow> ?y < ?x) \<and> (?al = ?bl \<longrightarrow> ?x = ?y)"
    unfolding cmp_ok_def by (elim exE conjE) (rule that)
  have lt: "?x < ?y \<Longrightarrow> ka < kb" "?y < ?x \<Longrightarrow> \<not> ka < kb"
    unfolding A(3) B(3) by (rule key_less_head, assumption)+
  have at: "safe_at a aPos = Inr (a ! aPos)" "safe_at b bPos = Inr (b ! bPos)"
    using A(1) B(1) by (simp_all add: safe_at_def)
  note step = dnspacketLessThan_loop.simps [of a b aPos bPos, unfolded at bindE_simps Let_def, unfolded cmp bindE_simps prod.case]
  consider "r < 0" | "0 < r" | "r = 0" "?al < ?bl" | "r = 0" "?bl < ?al" | "r = 0" "?al = ?bl" by linarith
  then show ?case
  proof cases
    case 1 then show ?thesis using lt(1) r(1) by (subst step) simp
  next
    case 2 then show ?thesis using lt(2) r(2) by (subst step) simp
  next
    case 3 then show ?thesis using lt(1) r(3) by (subst step) simp
  next
    case 4 then show ?thesis using lt(2) r(3) by (subst step) simp
  next
    case 5
    have xy: "?x = ?y" and m: "m = ?bl" using r(3) 5 by auto
    show ?thesis
    proof (cases "?bl = 0")
      case True
      have q: "(ka < kb) = (qa < qb)" unfolding A(3) B(3) xy key_less_Cons using A(5) B(5) 5 True by (simp add: less_prod_simp)
      show ?thesis
        unfolding q using A(5) B(5) 5 True
        by (subst step) (auto simp: m safe_at_def less_prod_simp le_less eval_nat_numeral)
    next
      case False
      have k: "(ka < kb) = ((las, qa) < (lbs, qb))" unfolding A(3) B(3) xy key_less_Cons by simp
      have "dnspacketLessThan_loop a b (aPos + 1 + ?al) (bPos + 1 + ?bl) = Inr ((las, qa) < (lbs, qb))"
        using A B 5 False by (intro less.hyps) auto
      then show ?thesis unfolding k using 5 False
        by (subst step) (simp add: m)
    qed
  qed
qed

subsection \<open>Properties\<close>

text \<open>
  The bit fields of the packet header are laid out without loss or overlap:
  twelve bytes read as a header and written back are the same bytes, and a header written
  and read back is the same header.
\<close>

theorem dnsheader_roundtrip:
  "dnsheader_of (bytes_of_dnsheader h) = h \<and>
   bytes_of_dnsheader (dnsheader_of [b0, b1, b2, b3, b4, b5, b6, b7, b8, b9, b10, b11]) =
     [b0, b1, b2, b3, b4, b5, b6, b7, b8, b9, b10, b11] \<and>
   (bytes_of_dnsheader h = bytes_of_dnsheader h' \<longleftrightarrow> h = h')"
  using header.enc_inject [of h h']
  by (simp add: dnsheader_of_bytes bytes_of_dnsheader_of)

text \<open>
  Every one of the 65536 type codes is recovered from the name printed for
  it, the unnamed ones by their number; so no two codes share a name.
\<close>

theorem QType_roundtrip:
  "QType_assign (QType_getName c) = c \<and> (QType_getName c = QType_getName d \<longleftrightarrow> c = d)"
  using qtype.enc_inject [of c d] by (simp add: QType_assign_getName)

text \<open>
  Parsing serialized SOA data restores all seven fields, whatever the
  configured defaults and the previous contents, for names without blanks and a
  hostmaster in dotted form.
\<close>

theorem SOAData_roundtrip:
  "soa_clean d \<Longrightarrow>
   fillSOAData asNum (serializeSOAData d) data =
     data\<lparr> soa_nameserver := soa_nameserver d, soa_hostmaster := soa_hostmaster d, soa_serial := soa_serial d,
       soa_refresh := soa_refresh d, soa_retry := soa_retry d, soa_expire := soa_expire d,
       soa_default_ttl := soa_default_ttl d \<rparr>"
  by (rule fillSOAData_serialize)

definition soa_example :: SOAData where
  "soa_example =
     \<lparr> soa_qname = ''ds9a.nl'', soa_nameserver = ''ns1.ds9a.nl'', soa_hostmaster = ''ahu.ds9a.nl'', soa_ttl = 3600,
       soa_serial = 4294967295, soa_refresh = 7200, soa_retry = 1800, soa_expire = 604800,
       soa_default_ttl = 3600, soa_domain_id = 1, soa_db = None, soa_scopeMask = 0 \<rparr>"

theorem SOAData_roundtrip_witness:
  "soa_clean soa_example \<and>
   soa_serial (fillSOAData (\<lambda>_. 10800) (serializeSOAData soa_example) soa_example) = 4294967295"
proof -
  have "soa_clean soa_example"
    by (simp add: soa_clean_def soa_example_def default_delims_def)
  with SOAData_roundtrip [OF this, of "\<lambda>_. 10800" soa_example] show ?thesis
    by (simp add: soa_example_def)
qed

text \<open>
  Property C28.  On two packets whose question lies within them, the bounds-checked
  comparison throws nothing and decides the lexicographic order of the keys (labels, type,
  class): so it is a strict linear order of the keys, as the packet cache's index needs.
\<close>

theorem dnspacketLessThan_key:
  "question_key a = Some ka \<Longrightarrow> question_key b = Some kb \<Longrightarrow> dnspacketLessThan a b = Inr (ka < kb)"
  by (auto simp: question_key_def dnspacketLessThan_def dnspacketLessThan_loop_key split: if_splits)

definition question_packet :: "byte list \<Rightarrow> string" where
  "question_packet q = replicate 12 (b2c 0) @ map b2c q"

theorem dnspacketLessThan_key_witness:
  "dnspacketLessThan (question_packet [1, 97, 0, 0, 1, 0, 1]) (question_packet [1, 98, 0, 0, 1, 0, 1]) = Inr True"
proof -
  have "question_key (question_packet [1, 97, 0, 0, 1, 0, 1]) = Some ([[97], []], 1, 1)"
    "question_key (question_packet [1, 98, 0, 0, 1, 0, 1]) = Some ([[98], []], 1, 1)"
    by (simp_all add: question_key_def question_packet_def question_key_from.simps Let_def sQ_def
        scode_def substr_def numeral_eq_Suc)
  from dnspacketLessThan_key [OF this] show ?thesis by (simp add: less_prod_simp)
qed

end
