(* ===== verification/PacketReader.thy ===== *)
theory PacketReader
  imports Dns
begin

text \<open>
  Reading packets: \<open>class PacketReader\<close> of \<open>dnsparser.cc\<close>, name expansion with compression
  pointers, and the in-place ageing of TTLs.  Positions are numbers: a packet's content has
  fewer than 65536 bytes, because \<open>MOADNSParser::init\<close> counts it in a \<open>uint16_t\<close>, so an
  increment after a successful \<open>at\<close> cannot wrap; where a position is computed from a length
  found in the packet, the wrap-around is written out.
\<close>

subsection \<open>State\<close>

record PacketReader =
  pr_pos :: nat
  pr_startrecordpos :: nat
  pr_recordlen :: nat
  pr_content :: "byte list"

type_synonym 'a reader = "PacketReader \<Rightarrow> ('a \<times> PacketReader) result"

definition PacketReader_init :: "byte list \<Rightarrow> PacketReader" where
  "PacketReader_init content =
     \<lparr> pr_pos = 0, pr_startrecordpos = 0, pr_recordlen = length content mod 65536, pr_content = content \<rparr>"

definition rbind :: "'a reader \<Rightarrow> ('a \<Rightarrow> 'b reader) \<Rightarrow> 'b reader" where
  "rbind m f r = bindE (m r) (\<lambda>(a, r'). f a r')"

definition rreturn :: "'a \<Rightarrow> 'a reader" where
  "rreturn a r = Inr (a, r)"

definition rlift :: "'a result \<Rightarrow> 'a reader" where
  "rlift x r = bindE x (\<lambda>a. Inr (a, r))"

subsection \<open>Integers\<close>

definition get8BitInt :: "byte reader" where
  "get8BitInt r = bindE (at (pr_content r) (pr_pos r)) (\<lambda>b. Inr (b, r\<lparr> pr_pos := pr_pos r + 1 \<rparr>))"

definition get16BitInt :: "u16 reader" where
  "get16BitInt =
     rbind get8BitInt (\<lambda>a. rbind get8BitInt (\<lambda>b. rreturn (push_bit 8 (ucast a) + ucast b)))"

definition get32BitInt :: "u32 reader" where
  "get32BitInt =
     rbind get8BitInt (\<lambda>a. rbind get8BitInt (\<lambda>b. rbind get8BitInt (\<lambda>c. rbind get8BitInt (\<lambda>d.
       rreturn (push_bit 8 (push_bit 8 (push_bit 8 (ucast a) + ucast b) + ucast c) + ucast d)))))"

definition xfr48BitInt :: "u64 reader" where
  "xfr48BitInt =
     rbind get8BitInt (\<lambda>a. rbind get8BitInt (\<lambda>b. rbind get8BitInt (\<lambda>c.
     rbind get8BitInt (\<lambda>d. rbind get8BitInt (\<lambda>e. rbind get8BitInt (\<lambda>f.
       rreturn (push_bit 8 (push_bit 8 (push_bit 8 (push_bit 8 (push_bit 8 (ucast a) + ucast b)
         + ucast c) + ucast d) + ucast e) + ucast f)))))))"

text \<open>\<open>htonl\<close> on a little-endian host reverses the bytes.\<close>

definition htonl :: "u32 \<Rightarrow> u32" where
  "htonl v = push_bit 24 v OR push_bit 8 (v AND 0xff00) OR (drop_bit 8 v AND 0xff00) OR drop_bit 24 v"

definition xfrIP :: "u32 reader" where
  "xfrIP = rbind get32BitInt (\<lambda>v. rreturn (htonl v))"

subsection \<open>Names\<close>

text \<open>One character of a label in the text form: dots and backslashes escaped, a space as \<open>\032\<close>.\<close>

definition label_char :: "byte \<Rightarrow> string" where
  "label_char b =
     (if b2c b = CHR ''.'' \<or> b2c b = CHR 0x5C then [CHR 0x5C, b2c b]
      else if b2c b = CHR '' '' then [CHR 0x5C, CHR ''0'', CHR ''3'', CHR ''2'']
      else [b2c b])"

fun read_label :: "byte list \<Rightarrow> nat \<Rightarrow> nat \<Rightarrow> string \<Rightarrow> (nat \<times> string) result" where
  "read_label content frompos 0 ret = Inr (frompos, ret)"
| "read_label content frompos (Suc n) ret =
     bindE (at content frompos) (\<lambda>b. read_label content (frompos + 1) n (ret @ label_char b))"

lemma read_label_pos: "read_label content frompos n ret = Inr (p, s) \<Longrightarrow> p = frompos + n"
  by (induction content frompos n ret rule: read_label.induct) auto

text \<open>
  The result is the position after the name in its first place, and the text.  The loop of
  the source is the second recursive call, with the same depth.
\<close>

function getLabelFromContent :: "byte list \<Rightarrow> nat \<Rightarrow> string \<Rightarrow> nat \<Rightarrow> (nat \<times> string) result" where
  "getLabelFromContent content frompos ret recurs =
     (if recurs > 10 then Inl (MOADNSException ''Loop'')
      else bindE (at content frompos) (\<lambda>labellen.
        if labellen = 0 then Inr (frompos + 1, if ret = [] then ''.'' else ret)
        else if labellen AND 0xc0 = 0xc0 then
          bindE (at content (frompos + 1)) (\<lambda>lo.
            let offset = (256 * unat (labellen AND 0x3f) + unat lo + 65536 - 12) mod 65536
            in bindE (getLabelFromContent content offset ret (recurs + 1)) (\<lambda>(p, ret').
                 Inr (frompos + 2, ret')))
        else
          bindE (read_label content (frompos + 1) (unat labellen) ret) (\<lambda>(p, ret').
            getLabelFromContent content p (ret' @ ''.'') recurs)))"
  by pat_completeness auto
termination
  by (relation "measures [\<lambda>(content, frompos, ret, recurs). 11 - recurs,
                          \<lambda>(content, frompos, ret, recurs). length content - frompos]")
     (auto dest!: read_label_pos)

declare getLabelFromContent.simps [simp del]

definition getLabel :: "string reader" where
  "getLabel r =
     bindE (getLabelFromContent (pr_content r) (pr_pos r) [] 0) (\<lambda>(p, ret). Inr (ret, r\<lparr> pr_pos := p \<rparr>))"

subsection \<open>Texts and blobs\<close>

fun txtEscape :: "string \<Rightarrow> string" where
  "txtEscape [] = []"
| "txtEscape (c # name) =
     (if c = CHR 0x0A then [CHR 0x5C, CHR ''0'', CHR ''1'', CHR ''0'']
      else if c = CHR 0x22 \<or> c = CHR 0x5C then [CHR 0x5C, c] else [c]) @ txtEscape name"

text \<open>The bytes between two positions that were both checked with \<open>at\<close>.\<close>

definition bytes_between :: "byte list \<Rightarrow> nat \<Rightarrow> nat \<Rightarrow> string result" where
  "bytes_between content i j =
     bindE (at content i) (\<lambda>_. bindE (at content j) (\<lambda>_.
       if j + 1 < i then Inl UndefinedBehaviour
       else Inr (map b2c (substr content i (j + 1 - i)))))"

function getText_loop :: "bool \<Rightarrow> string \<Rightarrow> PacketReader \<Rightarrow> (string \<times> PacketReader) result" where
  "getText_loop multi ret r =
     (if pr_pos r < pr_startrecordpos r + pr_recordlen r then
        let ret = (if ret \<noteq> [] then ret @ '' '' else ret)
        in bindE (at (pr_content r) (pr_pos r)) (\<lambda>labellen.
             let n = unat labellen; pos = pr_pos r + 1
             in bindE (if n \<noteq> 0
                       then bindE (bytes_between (pr_content r) pos (pos + n - 1)) (\<lambda>v. Inr (txtEscape v))
                       else Inr []) (\<lambda>v.
                  let ret = ret @ [CHR 0x22] @ v @ [CHR 0x22]; r' = r\<lparr> pr_pos := pos + n \<rparr>
                  in if multi then getText_loop multi ret r' else Inr (ret, r')))
      else Inr (ret, r))"
  by pat_completeness auto
termination
  by (relation "measure (\<lambda>(multi, ret, r). pr_startrecordpos r + pr_recordlen r - pr_pos r)") auto

declare getText_loop.simps [simp del]

definition getText :: "bool \<Rightarrow> string reader" where
  "getText multi r = getText_loop multi [] r"

definition xfrBlob :: "string reader" where
  "xfrBlob r =
     (let e = pr_startrecordpos r + pr_recordlen r
      in bindE (if pr_recordlen r \<noteq> 0 \<and> pr_pos r \<noteq> e
                then bytes_between (pr_content r) (pr_pos r) (e - 1) else Inr [])
           (\<lambda>blob. Inr (blob, r\<lparr> pr_pos := e mod 65536 \<rparr>)))"

definition xfrBlob_len :: "nat \<Rightarrow> string reader" where
  "xfrBlob_len len r =
     (if len \<noteq> 0 then
        bindE (bytes_between (pr_content r) (pr_pos r) (pr_pos r + len - 1))
          (\<lambda>blob. Inr (blob, r\<lparr> pr_pos := pr_pos r + len \<rparr>))
      else Inr ([], r))"

definition xfrHexBlob :: "bool \<Rightarrow> string reader" where
  "xfrHexBlob keepReading = xfrBlob"

subsection \<open>Record headers and whole records\<close>

fun read_bytes :: "nat \<Rightarrow> byte list reader" where
  "read_bytes 0 = rreturn []"
| "read_bytes (Suc n) = rbind get8BitInt (\<lambda>b. rbind (read_bytes n) (\<lambda>bs. rreturn (b # bs)))"

definition getDnsrecordheader :: "dnsrecordheader reader" where
  "getDnsrecordheader =
     rbind (read_bytes 10) (\<lambda>p r.
       let ah = dnsrecordheader_of p
       in Inr (ah, r\<lparr> pr_startrecordpos := pr_pos r, pr_recordlen := unat (rh_clen ah) \<rparr>))"

definition copyRecord :: "nat \<Rightarrow> byte list reader" where
  "copyRecord len = read_bytes len"

definition copyRecord_ptr :: "nat \<Rightarrow> byte list reader" where
  "copyRecord_ptr len r =
     (if pr_pos r + len > length (pr_content r) then Inl OutOfRange
      else bindE (at (pr_content r) (pr_pos r)) (\<lambda>_.
        Inr (substr (pr_content r) (pr_pos r) len, r\<lparr> pr_pos := (pr_pos r + len) mod 65536 \<rparr>)))"

subsection \<open>The simple codec for names in packets\<close>

text \<open>
  \<open>strncasecmp\<close> of two C strings over \<open>n\<close> characters, as equality; both end at their NUL.
\<close>

definition c_string :: "string \<Rightarrow> string" where
  "c_string s = takeWhile (\<lambda>c. c \<noteq> CHR 0x00) s"

definition strncaseeq :: "string \<Rightarrow> string \<Rightarrow> nat \<Rightarrow> bool" where
  "strncaseeq a b n \<longleftrightarrow>
     toLower (take n (c_string a @ [CHR 0x00])) = toLower (take n (c_string b @ [CHR 0x00]))"

fun simpleCompress_loop :: "string \<Rightarrow> string \<Rightarrow> (nat \<times> nat) list \<Rightarrow> string \<Rightarrow> string" where
  "simpleCompress_loop label root [] ret = ret @ [CHR 0x00]"
| "simpleCompress_loop label root ((b, e) # parts) ret =
     (if root \<noteq> [] \<and> strncaseeq root (drop b label) (1 + length label - b)
      then ret @ [CHR 0xC0, CHR 0x11]
      else simpleCompress_loop label root parts (ret @ [b2c (word_of_nat (e - b))] @ substr label b (e - b)))"

definition simpleCompress :: "string \<Rightarrow> string \<Rightarrow> string" where
  "simpleCompress label root = simpleCompress_loop label root (vstringtok label (\<lambda>c. c = CHR ''.'')) []"

text \<open>
  \<open>labellen\<close> is an \<open>unsigned int\<close> that receives a signed \<open>char\<close>: a length byte from 128 on
  becomes huge, and \<open>append\<close> is asked to read past the string.
\<close>

function simpleExpandTo :: "string \<Rightarrow> nat \<Rightarrow> string \<Rightarrow> string result" where
  "simpleExpandTo label frompos ret =
     bindE (at label frompos) (\<lambda>c.
       if c = CHR 0x00 then Inr ret
       else if scode c < 0 \<or> frompos + 1 + ucode c > length label then Inl UndefinedBehaviour
       else simpleExpandTo label (frompos + 1 + ucode c) (ret @ substr label (frompos + 1) (ucode c) @ ''.''))"
  by pat_completeness auto
termination
  by (relation "measure (\<lambda>(label, frompos, ret). length label - frompos)") auto

declare simpleExpandTo.simps [simp del]

subsection \<open>Ageing a packet in place\<close>

text \<open>
  \<open>class DNSPacketMangler\<close>: the packet and the offset, a \<open>uint32_t\<close> that starts at 12.  A
  failed move throws after the offset has moved; the exception ends \<open>ageDNSPacket\<close>, which
  keeps what was changed so far.
\<close>

record DNSPacketMangler =
  dpm_packet :: "byte list"
  dpm_offset :: nat

type_synonym 'a mangler = "DNSPacketMangler \<Rightarrow> ('a \<times> DNSPacketMangler) option"

definition moveOffset :: "nat \<Rightarrow> unit mangler" where
  "moveOffset by m =
     (let o' = dpm_offset m + by mod 65536
      in if o' > length (dpm_packet m) then None else Some ((), m\<lparr> dpm_offset := o' \<rparr>))"

definition dpm_get8BitInt :: "byte mangler" where
  "dpm_get8BitInt m =
     (case moveOffset 1 m of None \<Rightarrow> None
      | Some (_, m') \<Rightarrow> Some (dpm_packet m ! dpm_offset m, m'))"

definition dpm_get16BitInt :: "u16 mangler" where
  "dpm_get16BitInt m =
     (case moveOffset 2 m of None \<Rightarrow> None
      | Some (_, m') \<Rightarrow>
          Some (be_val16 (dpm_packet m ! dpm_offset m) (dpm_packet m ! (dpm_offset m + 1)), m'))"

definition skipBytes :: "nat \<Rightarrow> unit mangler" where
  "skipBytes bytes = moveOffset bytes"

function skipLabel :: "unit mangler" where
  "skipLabel m =
     (case dpm_get8BitInt m of
        None \<Rightarrow> None
      | Some (len, m1) \<Rightarrow>
          (if len = 0 then Some ((), m1)
           else if len \<ge> 0xc0 then map_option (\<lambda>(_, m2). ((), m2)) (dpm_get8BitInt m1)
           else case skipBytes (unat len) m1 of
                  None \<Rightarrow> None
                | Some (_, m2) \<Rightarrow> skipLabel m2))"
  by pat_completeness auto
termination
  by (relation "measure (\<lambda>m. length (dpm_packet m) - dpm_offset m)")
     (auto simp: dpm_get8BitInt_def moveOffset_def skipBytes_def Let_def split: if_splits option.splits)

declare skipLabel.simps [simp del]

definition skipRData :: "unit mangler" where
  "skipRData m =
     (case dpm_get16BitInt m of None \<Rightarrow> None | Some (toskip, m') \<Rightarrow> moveOffset (unat toskip) m')"

definition put_bytes :: "byte list \<Rightarrow> nat \<Rightarrow> byte list \<Rightarrow> byte list" where
  "put_bytes xs i ys = take i xs @ ys @ drop (i + length ys) xs"

definition decreaseAndSkip32BitInt :: "u32 \<Rightarrow> unit mangler" where
  "decreaseAndSkip32BitInt decrease m =
     (case moveOffset 4 m of None \<Rightarrow> None
      | Some (_, m') \<Rightarrow>
          let p = dpm_packet m; i = dpm_offset m;
              tmp = be_val32 (p ! i) (p ! (i + 1)) (p ! (i + 2)) (p ! (i + 3)) - decrease
          in Some ((), m'\<lparr> dpm_packet := put_bytes p i (be_bytes32 tmp) \<rparr>))"

fun skip_questions :: "nat \<Rightarrow> unit mangler" where
  "skip_questions 0 m = Some ((), m)"
| "skip_questions (Suc n) m =
     (case skipLabel m of None \<Rightarrow> None
      | Some (_, m1) \<Rightarrow>
          (case skipBytes 4 m1 of None \<Rightarrow> None | Some (_, m2) \<Rightarrow> skip_questions n m2))"

text \<open>The records: the packet as it is when the loop ends, by an exception or not.\<close>

fun age_records :: "u32 \<Rightarrow> nat \<Rightarrow> DNSPacketMangler \<Rightarrow> byte list" where
  "age_records seconds 0 m = dpm_packet m"
| "age_records seconds (Suc n) m =
     (case skipLabel m of None \<Rightarrow> dpm_packet m
      | Some (_, m1) \<Rightarrow>
     (case dpm_get16BitInt m1 of None \<Rightarrow> dpm_packet m1
      | Some (dnstype, m2) \<Rightarrow>
     (case dpm_get16BitInt m2 of None \<Rightarrow> dpm_packet m2
      | Some (_, m3) \<Rightarrow>
          (if dnstype = qt_OPT then dpm_packet m3
           else case decreaseAndSkip32BitInt seconds m3 of None \<Rightarrow> dpm_packet m3
                | Some (_, m4) \<Rightarrow>
                    (case skipRData m4 of None \<Rightarrow> dpm_packet m4
                     | Some (_, m5) \<Rightarrow> age_records seconds n m5)))))"

definition ageDNSPacket :: "byte list \<Rightarrow> u32 \<Rightarrow> byte list" where
  "ageDNSPacket packet seconds =
     (if length packet < 12 then packet
      else let dh = dnsheader_of packet;
               numrecords = unat (ntohs (hdr_ancount dh)) + unat (ntohs (hdr_nscount dh)) + unat (ntohs (hdr_arcount dh))
           in case skip_questions (unat (ntohs (hdr_qdcount dh))) \<lparr> dpm_packet = packet, dpm_offset = 12 \<rparr> of
                None \<Rightarrow> packet
              | Some (_, m) \<Rightarrow> age_records seconds numrecords m)"

subsection \<open>Ageing as a function of the remaining bytes\<close>

text \<open>
  The same walk without offsets: the length of a name, and the records of a tail.  No step
  reads what lies before the offset, so the two agree.
\<close>

function name_len :: "byte list \<Rightarrow> nat option" where
  "name_len [] = None"
| "name_len (b # xs) =
     (if b = 0 then Some 1
      else if b \<ge> 0xc0 then (if xs = [] then None else Some 2)
      else if unat b > length xs then None
      else map_option (\<lambda>k. 1 + unat b + k) (name_len (drop (unat b) xs)))"
  by pat_completeness auto
termination
  by (relation "measure length") auto

declare name_len.simps(2) [simp del]

fun age_tail :: "u32 \<Rightarrow> nat \<Rightarrow> byte list \<Rightarrow> byte list" where
  "age_tail s 0 xs = xs"
| "age_tail s (Suc n) xs =
     (case name_len xs of
        None \<Rightarrow> xs
      | Some k \<Rightarrow>
          (let ys = drop k xs; zs = drop 4 ys; ws = drop 4 zs
           in if length ys < 8 \<or> be_val16 (ys ! 0) (ys ! 1) = qt_OPT then xs
              else let e = 2 + unat (be_val16 (ws ! 0) (ws ! 1))
                   in take k xs @ take 4 ys @ be_bytes32 (be_val32 (zs ! 0) (zs ! 1) (zs ! 2) (zs ! 3) - s) @
                      (if length ws < 2 \<or> length ws < e then ws
                       else take e ws @ age_tail s n (drop e ws))))"

lemma name_len_le: "name_len xs = Some k \<Longrightarrow> k \<le> length xs"
proof (induction xs arbitrary: k rule: name_len.induct)
  case (2 b xs)
  then show ?case
    by (auto simp: name_len.simps(2) neq_Nil_conv split: if_splits)
qed simp

lemma name_len_append:
  "name_len xs = Some k \<Longrightarrow> name_len (take k xs @ zs) = Some k"
proof (induction xs arbitrary: k rule: name_len.induct)
  case (2 b xs)
  show ?case
  proof (cases "b = 0 \<or> b \<ge> 0xc0")
    case True
    then show ?thesis using 2(2)
      by (cases xs) (auto simp: name_len.simps(2) split: if_splits)
  next
    case False
    then obtain j where j: "\<not> unat b > length xs" "name_len (drop (unat b) xs) = Some j" "k = 1 + unat b + j"
      using 2(2) by (auto simp: name_len.simps(2) split: if_splits)
    have "name_len (take j (drop (unat b) xs) @ zs) = Some j"
      using False j by (intro 2(1)) auto
    then show ?thesis using False j by (simp add: name_len.simps(2) take_add)
  qed
qed simp

text \<open>A mangler between what it has passed and what is left.\<close>

definition dpm_at :: "byte list \<Rightarrow> byte list \<Rightarrow> DNSPacketMangler" where
  "dpm_at pre xs = \<lparr> dpm_packet = pre @ xs, dpm_offset = length pre \<rparr>"

lemma moveOffset_at:
  "k < 65536 \<Longrightarrow> moveOffset k (dpm_at pre xs) =
     (if k \<le> length xs then Some ((), dpm_at (pre @ take k xs) (drop k xs)) else None)"
  by (simp add: moveOffset_def dpm_at_def)

lemma dpm_get8_at:
  "dpm_get8BitInt (dpm_at pre xs) = (case xs of [] \<Rightarrow> None | b # xs' \<Rightarrow> Some (b, dpm_at (pre @ [b]) xs'))"
  by (simp add: dpm_get8BitInt_def moveOffset_at split: list.split) (simp add: dpm_at_def)

lemma dpm_get16_at:
  "dpm_get16BitInt (dpm_at pre xs) =
     (if 2 \<le> length xs then Some (be_val16 (xs ! 0) (xs ! 1), dpm_at (pre @ take 2 xs) (drop 2 xs)) else None)"
  by (simp add: dpm_get16BitInt_def moveOffset_at) (simp add: dpm_at_def nth_append)

lemma unat_u16_less: "unat (w :: u16) < 65536"
  using unsigned_less [of w, where 'a = nat] by simp

lemma unat_byte_less: "unat (b :: byte) < 256"
  using unsigned_less [of b, where 'a = nat] by simp

lemma drop_add: "drop (i + j) xs = drop j (drop i xs)"
  by (simp add: add.commute)

lemma decrease_at:
  "decreaseAndSkip32BitInt s (dpm_at pre xs) =
     (if 4 \<le> length xs then Some ((), dpm_at (pre @ be_bytes32 (be_val32 (xs ! 0) (xs ! 1) (xs ! 2) (xs ! 3) - s)) (drop 4 xs))
      else None)"
  by (simp add: decreaseAndSkip32BitInt_def moveOffset_at Let_def) (simp add: dpm_at_def nth_append put_bytes_def)

lemma skipRData_at:
  "skipRData (dpm_at pre xs) =
     (if 2 \<le> length xs then
        (let e = 2 + unat (be_val16 (xs ! 0) (xs ! 1))
         in if e \<le> length xs then Some ((), dpm_at (pre @ take e xs) (drop e xs)) else None)
      else None)"
  by (auto simp: skipRData_def dpm_get16_at moveOffset_at unat_u16_less Let_def take_add
      drop_add simp del: add_2_eq_Suc add_2_eq_Suc' drop_drop)

lemma skipLabel_at:
  "skipLabel (dpm_at pre xs) =
     (case name_len xs of None \<Rightarrow> None | Some k \<Rightarrow> Some ((), dpm_at (pre @ take k xs) (drop k xs)))"
proof (induction xs arbitrary: pre rule: name_len.induct)
  case 1
  show ?case by (subst skipLabel.simps) (simp add: dpm_get8_at)
next
  case (2 b xs)
  have "unat b < 65536" using unat_byte_less [of b] by simp
  with 2 show ?case
    by (subst skipLabel.simps)
      (auto simp: dpm_get8_at skipBytes_def moveOffset_at name_len.simps(2) take_add drop_add split: list.split option.split simp del: drop_drop)
qed

lemma drop_2_2: "drop 2 (drop 2 xs) = drop 4 xs" and drop_4_4: "drop 4 (drop 4 xs) = drop 8 xs"
  by (simp_all only: drop_drop) (simp_all only: numeral_plus_numeral semiring_norm)

lemma age_records_at: "age_records s n (dpm_at pre xs) = pre @ age_tail s n xs"
proof (induction n arbitrary: pre xs)
  case 0
  then show ?case by (simp add: dpm_at_def)
next
  case (Suc n)
  show ?case
  proof (cases "name_len xs")
    case None
    then show ?thesis by (simp add: skipLabel_at) (simp add: dpm_at_def)
  next
    case (Some k)
    let ?ys = "drop k xs"
    have pk: "dpm_packet (dpm_at p q) = p @ q" for p q by (simp add: dpm_at_def)
    have tk: "pre @ take k xs @ take 2 ?ys @ take 2 (drop 2 ?ys) @ q = pre @ take k xs @ take 4 ?ys @ q" for q
      using take_add [of 2 2 ?ys] by simp
    show ?thesis
    proof (cases "length ?ys < 8 \<or> be_val16 (?ys ! 0) (?ys ! 1) = qt_OPT")
      case True
      have d4: "drop 2 (drop 2 ?ys) = drop 4 ?ys" by (rule drop_2_2)
      have "take 2 ?ys @ take 2 (drop 2 ?ys) @ drop 4 ?ys = ?ys"
        unfolding d4 [symmetric] append_take_drop_id ..
      then show ?thesis using True Some
        by (auto simp: skipLabel_at dpm_get16_at decrease_at pk Let_def simp del: drop_drop)
    next
      case False
      let ?zs = "drop 4 ?ys" and ?ws = "drop 8 ?ys"
      have d: "drop 2 (drop 2 ?ys) = ?zs" "drop 4 ?zs = ?ws" by (rule drop_2_2 drop_4_4)+
      have l: "2 \<le> length ?ys" "2 \<le> length (drop 2 ?ys)" "4 \<le> length ?zs" using False by auto
      let ?pre = "pre @ take k xs @ take 2 ?ys @ take 2 (drop 2 ?ys) @
          be_bytes32 (be_val32 (?zs ! 0) (?zs ! 1) (?zs ! 2) (?zs ! 3) - s)"
      have "age_records s (Suc n) (dpm_at pre xs) =
          (case skipRData (dpm_at ?pre ?ws) of None \<Rightarrow> ?pre @ ?ws | Some (_, m5) \<Rightarrow> age_records s n m5)"
        using Some False l
        by (simp add: skipLabel_at dpm_get16_at decrease_at pk d del: drop_drop split: option.split)
      also have "\<dots> = ?pre @ (if length ?ws < 2 \<or> length ?ws < 2 + unat (be_val16 (?ws ! 0) (?ws ! 1)) then ?ws
          else take (2 + unat (be_val16 (?ws ! 0) (?ws ! 1))) ?ws @ age_tail s n (drop (2 + unat (be_val16 (?ws ! 0) (?ws ! 1))) ?ws))"
        by (auto simp: skipRData_at Let_def Suc.IH not_less simp del: drop_drop)
      also have "\<dots> = pre @ age_tail s (Suc n) xs"
        using Some False d(2) tk by (simp add: Let_def del: drop_drop)
      finally show ?thesis .
    qed
  qed
qed

lemma length_age_tail [simp]: "length (age_tail s n xs) = length xs"
proof (induction n arbitrary: xs)
  case (Suc n)
  then show ?case by (auto simp: Let_def dest!: name_len_le split: option.split)
qed simp

lemma age_tail_0 [simp]: "age_tail 0 n xs = xs"
proof (induction n arbitrary: xs)
  case (Suc n)
  have four: "be_bytes32 (be_val32 (zs ! 0) (zs ! 1) (zs ! 2) (zs ! 3)) @ drop 4 zs = zs" if "4 \<le> length zs" for zs
  proof -
    have "take 4 zs = [zs ! 0, zs ! 1, zs ! 2, zs ! 3]"
      using that by (intro nth_equalityI) (auto simp: nth_Cons' less_Suc_eq numeral_eq_Suc)
    then show ?thesis using append_take_drop_id [of 4 zs] by (simp add: be_bytes_val)
  qed
  have "take k xs @ take 4 (drop k xs) @ be_bytes32 (be_val32 (drop 4 (drop k xs) ! 0) (drop 4 (drop k xs) ! 1)
     (drop 4 (drop k xs) ! 2) (drop 4 (drop k xs) ! 3)) @ drop 4 (drop 4 (drop k xs)) = xs" if "8 \<le> length (drop k xs)" for k
    using that by (subst four) (simp_all only: append_take_drop_id, simp)
  then show ?case using Suc
    by (auto simp: Let_def simp del: drop_drop split: option.split)
qed simp

lemma age_tail_age_tail: "age_tail t n (age_tail s n xs) = age_tail (s + t) n xs"
proof (induction n arbitrary: xs)
  case (Suc n)
  show ?case
  proof (cases "name_len xs")
    case (Some k)
    let ?ys = "drop k xs" and ?zs = "drop 4 (drop k xs)" and ?ws = "drop 4 (drop 4 (drop k xs))"
    show ?thesis
    proof (cases "length ?ys < 8 \<or> be_val16 (?ys ! 0) (?ys ! 1) = qt_OPT")
      case False
      define ttl where "ttl = be_val32 (?zs ! 0) (?zs ! 1) (?zs ! 2) (?zs ! 3)"
      let ?e = "2 + unat (be_val16 (?ws ! 0) (?ws ! 1))"
      define rest where "rest u = (if length ?ws < 2 \<or> length ?ws < ?e then ?ws else take ?e ?ws @ age_tail u n (drop ?e ?ws))" for u
      have aged: "age_tail u (Suc n) xs = take k xs @ take 4 ?ys @ be_bytes32 (ttl - u) @ rest u" for u
        using Some False by (simp add: Let_def ttl_def rest_def del: drop_drop)
      let ?A = "take k xs @ take 4 ?ys @ be_bytes32 (ttl - s) @ rest s"
      have k: "k \<le> length xs" using Some by (rule name_len_le)
      let ?Y = "take 4 ?ys @ be_bytes32 (ttl - s) @ rest s"
      have nl: "name_len ?A = Some k" using name_len_append [OF Some] by simp
      have A: "drop k ?A = ?Y" "take k ?A = take k xs" using k by simp_all
      have l4: "length (take 4 ?ys) = 4" using False by simp
      have Z: "drop 4 ?Y = be_bytes32 (ttl - s) @ rest s" "drop 4 (be_bytes32 (ttl - s) @ rest s) = rest s"
        "take 4 ?Y = take 4 ?ys" using l4 by simp_all
      have lr: "length (rest u) = length ?ws" for u by (auto simp: rest_def simp del: drop_drop nth_drop)
      have Y: "\<not> (length ?Y < 8 \<or> be_val16 (?Y ! 0) (?Y ! 1) = qt_OPT)"
        using False l4 by (simp add: nth_append)
      have v: "be_val32 ((be_bytes32 w @ q) ! 0) ((be_bytes32 w @ q) ! 1) ((be_bytes32 w @ q) ! 2) ((be_bytes32 w @ q) ! 3) = w" for w q
        by (simp add: be_bytes32_def be_val_bytes)
      have "age_tail t (Suc n) ?A = take k xs @ take 4 ?ys @ be_bytes32 (ttl - s - t) @
          (if length (rest s) < 2 \<or> length (rest s) < 2 + unat (be_val16 (rest s ! 0) (rest s ! 1)) then rest s
           else take (2 + unat (be_val16 (rest s ! 0) (rest s ! 1))) (rest s) @
             age_tail t n (drop (2 + unat (be_val16 (rest s ! 0) (rest s ! 1))) (rest s)))"
        unfolding age_tail.simps nl option.case A Let_def Z if_not_P [OF Y] v ..
      also have "(if length (rest s) < 2 \<or> length (rest s) < 2 + unat (be_val16 (rest s ! 0) (rest s ! 1)) then rest s
           else take (2 + unat (be_val16 (rest s ! 0) (rest s ! 1))) (rest s) @
             age_tail t n (drop (2 + unat (be_val16 (rest s ! 0) (rest s ! 1))) (rest s))) = rest (s + t)"
      proof (cases "length ?ws < 2 \<or> length ?ws < ?e")
        case True
        then show ?thesis unfolding rest_def by simp
      next
        case F: False
        then have r: "rest u = take ?e ?ws @ age_tail u n (drop ?e ?ws)" for u by (simp add: rest_def del: drop_drop)
        have n2: "rest s ! 0 = ?ws ! 0" "rest s ! 1 = ?ws ! 1" unfolding r using F by (simp_all add: nth_append)
        have L: "length (take ?e ?ws) = ?e" using F by simp
        have "take ?e ?ws = take (length (take ?e ?ws)) (rest s) \<and>
            age_tail s n (drop ?e ?ws) = drop (length (take ?e ?ws)) (rest s)"
          by (rule append_eq_conv_conj [THEN iffD1], rule r [symmetric])
        then have "take ?e (rest s) = take ?e ?ws" "drop ?e (rest s) = age_tail s n (drop ?e ?ws)"
          unfolding L by simp_all
        then show ?thesis unfolding lr n2 if_not_P [OF F] using r [of "s + t"] Suc.IH [of "drop ?e ?ws"] by simp
      qed
      finally show ?thesis unfolding aged by (simp add: diff_diff_eq)
    qed (use Some in \<open>simp add: Let_def del: drop_drop\<close>)
  qed simp
qed simp

text \<open>The questions, in the same way.\<close>

fun questions_len :: "nat \<Rightarrow> byte list \<Rightarrow> nat option" where
  "questions_len 0 xs = Some 0"
| "questions_len (Suc n) xs =
     (case name_len xs of None \<Rightarrow> None
      | Some k \<Rightarrow> (if k + 4 \<le> length xs then map_option ((+) (k + 4)) (questions_len n (drop (k + 4) xs)) else None))"

lemma skip_questions_at:
  "skip_questions n (dpm_at pre xs) =
     (case questions_len n xs of None \<Rightarrow> None | Some k \<Rightarrow> Some ((), dpm_at (pre @ take k xs) (drop k xs)))"
proof (induction n arbitrary: pre xs)
  case (Suc n)
  show ?case
  proof (cases "name_len xs")
    case (Some k)
    from name_len_le [OF Some] have k: "k \<le> length xs" .
    then show ?thesis using Some
      by (auto simp: skipLabel_at skipBytes_def moveOffset_at Suc.IH take_add drop_add simp del: drop_drop split: option.split)
  qed (simp add: skipLabel_at)
qed simp

lemma questions_len_append:
  "questions_len n xs = Some k \<Longrightarrow> k \<le> length xs \<and> questions_len n (take k xs @ zs) = Some k"
proof (induction n arbitrary: xs k)
  case (Suc n)
  then obtain j i where j: "name_len xs = Some j" "j + 4 \<le> length xs" "questions_len n (drop (j + 4) xs) = Some i" "k = j + 4 + i"
    by (auto split: option.splits if_splits)
  have i: "i \<le> length (drop (j + 4) xs)" "questions_len n (take i (drop (j + 4) xs) @ zs) = Some i"
    using Suc.IH [OF j(3)] by blast+
  have t: "take k xs = take j xs @ take (4 + i) (drop j xs)" unfolding j(4) add.assoc by (rule take_add)
  have "name_len (take k xs @ zs) = Some j" unfolding t using name_len_append [OF j(1)] by simp
  moreover have "take k xs = take (j + 4) xs @ take i (drop (j + 4) xs)" unfolding j(4) by (rule take_add)
  then have "drop (j + 4) (take k xs @ zs) = take i (drop (j + 4) xs) @ zs" using j(2) by simp
  ultimately show ?case using i j by auto
qed simp

lemma ageDNSPacket_tail:
  assumes "12 \<le> length p"
  shows "ageDNSPacket p s =
    (let dh = dnsheader_of p; n = unat (ntohs (hdr_ancount dh)) + unat (ntohs (hdr_nscount dh)) + unat (ntohs (hdr_arcount dh))
     in case questions_len (unat (ntohs (hdr_qdcount dh))) (drop 12 p) of
          None \<Rightarrow> p
        | Some k \<Rightarrow> take (12 + k) p @ age_tail s n (drop (12 + k) p))"
proof -
  have "\<lparr> dpm_packet = p, dpm_offset = 12 \<rparr> = dpm_at (take 12 p) (drop 12 p)"
    using assms by (simp add: dpm_at_def)
  then show ?thesis using assms
    by (simp add: ageDNSPacket_def skip_questions_at age_records_at Let_def take_add drop_add del: drop_drop split: option.split)
qed

lemma dnsheader_of_take: "12 \<le> k \<Longrightarrow> 12 \<le> length p \<Longrightarrow> dnsheader_of (take k p @ q) = dnsheader_of p"
proof -
  have "(take k p @ q) ! i = p ! i" if "12 \<le> k" "12 \<le> length p" "i < 12" for i
    using that by (simp add: nth_append)
  then show "12 \<le> k \<Longrightarrow> 12 \<le> length p \<Longrightarrow> dnsheader_of (take k p @ q) = dnsheader_of p"
    by (simp add: dnsheader_of_def)
qed

lemma ageDNSPacket_ageDNSPacket: "ageDNSPacket (ageDNSPacket p s) t = ageDNSPacket p (s + t)"
proof (cases "12 \<le> length p")
  case True
  let ?q = "questions_len (unat (ntohs (hdr_qdcount (dnsheader_of p)))) (drop 12 p)"
  show ?thesis
  proof (cases ?q)
    case None
    then show ?thesis using True by (simp add: ageDNSPacket_tail Let_def)
  next
    case (Some k)
    from questions_len_append [OF Some] have k: "k \<le> length p - 12" by simp
    let ?n = "let dh = dnsheader_of p in unat (ntohs (hdr_ancount dh)) + unat (ntohs (hdr_nscount dh)) + unat (ntohs (hdr_arcount dh))"
    have aged: "ageDNSPacket p u = take (12 + k) p @ age_tail u ?n (drop (12 + k) p)" for u
      using True Some by (simp add: ageDNSPacket_tail Let_def)
    let ?p = "take (12 + k) p @ age_tail s ?n (drop (12 + k) p)"
    have "dnsheader_of ?p = dnsheader_of p" using True by (intro dnsheader_of_take) auto
    moreover have "drop 12 ?p = take k (drop 12 p) @ age_tail s ?n (drop (12 + k) p)"
      using True by (simp add: take_add)
    moreover have "questions_len (unat (ntohs (hdr_qdcount (dnsheader_of p)))) (drop 12 ?p) = Some k"
      unfolding calculation(2) using questions_len_append [OF Some] by blast
    moreover have "take (12 + k) ?p = take (12 + k) p" "drop (12 + k) ?p = age_tail s ?n (drop (12 + k) p)"
      using True k by simp_all
    moreover have "12 \<le> length ?p" using True by simp
    ultimately have "ageDNSPacket ?p t = take (12 + k) p @ age_tail t ?n (age_tail s ?n (drop (12 + k) p))"
      by (simp only: ageDNSPacket_tail Let_def option.case)
    then show ?thesis unfolding aged age_tail_age_tail .
  qed
qed (simp add: ageDNSPacket_def)

subsection \<open>Properties\<close>

text \<open>A cached packet may be aged in any number of steps, also one that is malformed and left partly aged.\<close>

lemma ageDNSPacket_additive:
  "length (ageDNSPacket p s) = length p \<and> ageDNSPacket p 0 = p \<and>
   ageDNSPacket (ageDNSPacket p s) t = ageDNSPacket p (s + t)"
proof -
  have "length (ageDNSPacket p s) = length p \<and> ageDNSPacket p 0 = p"
  proof (cases "12 \<le> length p")
    case True
    show ?thesis
    proof (cases "questions_len (unat (ntohs (hdr_qdcount (dnsheader_of p)))) (drop 12 p)")
      case None
      then show ?thesis using True by (simp add: ageDNSPacket_tail Let_def)
    next
      case (Some k)
      from questions_len_append [OF Some] have "k \<le> length p - 12" by simp
      then show ?thesis using Some True by (simp add: ageDNSPacket_tail Let_def)
    qed
  qed (simp add: ageDNSPacket_def)
  then show ?thesis by (simp add: ageDNSPacket_ageDNSPacket)
qed

text \<open>Names, questions and records as they stand in a packet; a name ends with the root or with a pointer.\<close>

definition name_bytes :: "byte list list \<Rightarrow> byte list \<Rightarrow> byte list" where
  "name_bytes ls end = concat (map (\<lambda>l. word_of_nat (length l) # l) ls) @ end"

definition name_fits :: "byte list list \<Rightarrow> byte list \<Rightarrow> bool" where
  "name_fits ls end \<longleftrightarrow> (\<forall>l \<in> set ls. 0 < length l \<and> length l < 0xc0) \<and> (end = [0] \<or> length end = 2 \<and> 0xc0 \<le> hd end)"

record wire_record =
  wr_labels :: "byte list list"
  wr_end :: "byte list"
  wr_type :: u16
  wr_class :: u16
  wr_ttl :: u32
  wr_data :: "byte list"

definition wire_bytes :: "wire_record \<Rightarrow> byte list" where
  "wire_bytes w = name_bytes (wr_labels w) (wr_end w) @ be_bytes16 (wr_type w) @ be_bytes16 (wr_class w) @ be_bytes32 (wr_ttl w) @
     be_bytes16 (word_of_nat (length (wr_data w))) @ wr_data w"

definition record_fits :: "wire_record \<Rightarrow> bool" where
  "record_fits w \<longleftrightarrow> name_fits (wr_labels w) (wr_end w) \<and> length (wr_data w) < 65536"

lemma name_len_bytes: "name_fits ls end \<Longrightarrow> name_len (name_bytes ls end @ xs) = Some (length (name_bytes ls end))"
proof (induction ls)
  case Nil
  show ?case
  proof (cases "end = [0]")
    case False
    then obtain b c where e: "end = [b, c]" and b: "0xc0 \<le> b" using Nil by (auto simp: name_fits_def length_Suc_conv numeral_2_eq_2)
    from b have "b \<noteq> 0" by auto
    with e b show ?thesis by (simp add: name_bytes_def name_len.simps(2))
  qed (simp add: name_bytes_def name_len.simps(2))
next
  case (Cons l ls)
  let ?b = "word_of_nat (length l) :: byte"
  have l: "0 < length l" "length l < 0xc0" using Cons.prems by (simp_all add: name_fits_def)
  then have b: "unat ?b = length l" by (simp add: unat_of_nat)
  then have "?b \<noteq> 0" "\<not> 0xc0 \<le> ?b" using l by (auto simp: word_le_nat_alt)
  moreover have "name_fits ls end" using Cons.prems by (simp add: name_fits_def)
  ultimately show ?case using Cons.IH b by (simp add: name_bytes_def name_len.simps(2))
qed

lemma questions_len_bytes:
  assumes "\<forall>(ls, end, tc) \<in> set qs. name_fits ls end \<and> length tc = 4"
  shows "questions_len (length qs) (concat (map (\<lambda>(ls, end, tc). name_bytes ls end @ tc) qs) @ xs) =
    Some (length (concat (map (\<lambda>(ls, end, tc). name_bytes ls end @ tc) qs)))"
  using assms
proof (induction qs)
  case (Cons q qs)
  obtain ls e tc where q: "q = (ls, e, tc)" by (cases q)
  then have "name_fits ls e" "length tc = 4" using Cons.prems by auto
  then show ?case using Cons q by (simp add: name_len_bytes)
qed simp

lemma be_bytes_lengths: "length (be_bytes16 w) = 2" "length (be_bytes32 v) = 4"
  by (simp_all add: be_bytes16_def be_bytes32_def)

lemma be_read: "be_val16 (be_bytes16 w ! 0) (be_bytes16 w ! 1) = w"
  "be_val32 (be_bytes32 v ! 0) (be_bytes32 v ! 1) (be_bytes32 v ! 2) (be_bytes32 v ! 3) = v"
  by (simp_all add: be_bytes16_def be_bytes32_def be_val_bytes)

lemma age_record:
  assumes "record_fits w"
  shows "age_tail s (Suc n) (wire_bytes w @ xs) =
    (if wr_type w = qt_OPT then wire_bytes w @ xs else wire_bytes (w\<lparr> wr_ttl := wr_ttl w - s \<rparr>) @ age_tail s n xs)"
proof -
  let ?n = "name_bytes (wr_labels w) (wr_end w)"
  have n: "name_len (wire_bytes w @ xs) = Some (length ?n)"
    unfolding wire_bytes_def append_assoc by (rule name_len_bytes) (use assms in \<open>simp add: record_fits_def\<close>)
  have l: "unat (word_of_nat (length (wr_data w)) :: u16) = length (wr_data w)"
    using assms by (simp add: record_fits_def unat_of_nat)
  show ?thesis
    using n l be_read(1) [of "wr_type w"] be_read(1) [of "word_of_nat (length (wr_data w))"] be_read(2) [of "wr_ttl w"]
    by (simp add: wire_bytes_def be_bytes_lengths Let_def nth_append)
qed

definition question_bytes :: "(byte list list \<times> byte list \<times> byte list) list \<Rightarrow> byte list" where
  "question_bytes qs = concat (map (\<lambda>(ls, end, tc). name_bytes ls end @ tc) qs)"

definition aged_records :: "u32 \<Rightarrow> wire_record list \<Rightarrow> wire_record list" where
  "aged_records s ws = map (\<lambda>w. w\<lparr> wr_ttl := wr_ttl w - s \<rparr>) (takeWhile (\<lambda>w. wr_type w \<noteq> qt_OPT) ws) @ dropWhile (\<lambda>w. wr_type w \<noteq> qt_OPT) ws"

lemma age_tail_records:
  "list_all record_fits ws \<Longrightarrow> age_tail s (length ws) (concat (map wire_bytes ws) @ rest) = concat (map wire_bytes (aged_records s ws)) @ rest"
  by (induction ws) (simp_all add: age_record aged_records_def del: age_tail.simps(2))

text \<open>
  Property C26.  Ageing a packet lowers the time to live of every record by the seconds, modulo \<open>2 ^ 32\<close>, and
  changes no other byte: not the header, the questions, names with or without pointers, the data, nor what comes
  after the records. It ends at the first OPT record, whose field is no time; records behind it keep theirs.
\<close>

theorem packet_aged:
  assumes "length h = 12" "dh = dnsheader_of h" "length qs = unat (ntohs (hdr_qdcount dh))"
    and "\<forall>(ls, end, tc) \<in> set qs. name_fits ls end \<and> length tc = 4"
    and "length ws = unat (ntohs (hdr_ancount dh)) + unat (ntohs (hdr_nscount dh)) + unat (ntohs (hdr_arcount dh))"
    and "list_all record_fits ws"
  shows "ageDNSPacket (h @ question_bytes qs @ concat (map wire_bytes ws) @ rest) s =
    h @ question_bytes qs @ concat (map wire_bytes (aged_records s ws)) @ rest"
proof -
  let ?p = "h @ question_bytes qs @ concat (map wire_bytes ws) @ rest"
  have "dnsheader_of ?p = dh" using dnsheader_of_take [of 12 h "drop 12 ?p"] assms(1,2) by simp
  moreover have "questions_len (length qs) (drop 12 ?p) = Some (length (question_bytes qs))"
    using questions_len_bytes [OF assms(4)] assms(1) by (simp add: question_bytes_def)
  moreover have "take (12 + length (question_bytes qs)) ?p = h @ question_bytes qs"
    "drop (12 + length (question_bytes qs)) ?p = concat (map wire_bytes ws) @ rest"
    using assms(1) by simp_all
  ultimately show ?thesis
    using assms(1) ageDNSPacket_tail [of ?p s] age_tail_records [OF assms(6)] by (simp add: Let_def assms(3,5) [symmetric])
qed

lemma packet_aged_witness:
  "ageDNSPacket ([0, 7, 0x81, 0, 0, 1, 0, 1, 0, 0, 0, 2] @ [1, 97, 0, 0, 1, 0, 1] @
       [0xc0, 12, 0, 1, 0, 1, 0, 0, 0, 0x3c, 0, 4, 10, 0, 0, 1] @ [0, 0, 41, 16, 0, 0, 0, 0x80, 0, 0, 0] @ [0, 0, 250, 0, 255, 0, 0, 0, 9, 0, 0]) 20 =
     [0, 7, 0x81, 0, 0, 1, 0, 1, 0, 0, 0, 2] @ [1, 97, 0, 0, 1, 0, 1] @
       [0xc0, 12, 0, 1, 0, 1, 0, 0, 0, 0x28, 0, 4, 10, 0, 0, 1] @ [0, 0, 41, 16, 0, 0, 0, 0x80, 0, 0, 0] @ [0, 0, 250, 0, 255, 0, 0, 0, 9, 0, 0]"
proof -
  let ?h = "[0, 7, 0x81, 0, 0, 1, 0, 1, 0, 0, 0, 2] :: byte list" and ?qs = "[([[97]], [0], [0, 1, 0, 1])]"
  let ?ws = "[\<lparr> wr_labels = [], wr_end = [0xc0, 12], wr_type = 1, wr_class = 1, wr_ttl = 60, wr_data = [10, 0, 0, 1] \<rparr>,
    \<lparr> wr_labels = [], wr_end = [0], wr_type = 41, wr_class = 4096, wr_ttl = 0x8000, wr_data = [] \<rparr>,
    \<lparr> wr_labels = [], wr_end = [0], wr_type = 250, wr_class = 255, wr_ttl = 9, wr_data = [] \<rparr>]"
  have "ageDNSPacket (?h @ question_bytes ?qs @ concat (map wire_bytes ?ws) @ []) 20 =
      ?h @ question_bytes ?qs @ concat (map wire_bytes (aged_records 20 ?ws)) @ []"
  proof (rule packet_aged [OF _ refl])
    show "length ?qs = unat (ntohs (hdr_qdcount (dnsheader_of ?h)))"
      "length ?ws = unat (ntohs (hdr_ancount (dnsheader_of ?h))) + unat (ntohs (hdr_nscount (dnsheader_of ?h))) + unat (ntohs (hdr_arcount (dnsheader_of ?h)))"
      by code_simp+
  qed (simp_all add: record_fits_def name_fits_def)
  moreover have "question_bytes ?qs = [1, 97, 0, 0, 1, 0, 1]" by code_simp
  moreover have "concat (map wire_bytes ?ws) @ [] = [0xc0, 12, 0, 1, 0, 1, 0, 0, 0, 0x3c, 0, 4, 10, 0, 0, 1] @ [0, 0, 41, 16, 0, 0, 0, 0x80, 0, 0, 0] @ [0, 0, 250, 0, 255, 0, 0, 0, 9, 0, 0]"
    by code_simp
  moreover have "concat (map wire_bytes (aged_records 20 ?ws)) @ [] = [0xc0, 12, 0, 1, 0, 1, 0, 0, 0, 0x28, 0, 4, 10, 0, 0, 1] @ [0, 0, 41, 16, 0, 0, 0, 0x80, 0, 0, 0] @ [0, 0, 250, 0, 255, 0, 0, 0, 9, 0, 0]"
    by code_simp
  ultimately show ?thesis by (simp only:)
qed

end
