(* ===== verification/PacketWriter.thy ===== *)
theory PacketWriter
  imports PacketReader
begin

text \<open>
  Writing packets: \<open>class DNSPacketWriter\<close> of \<open>dnswriter.cc\<close> with its label compression and
  rollback, the tokenising of escaped names, the text segments of \<open>dnslabeltext.rl\<close>, and the
  two smaller name encoders of \<open>dnsparser.cc\<close>.
\<close>

subsection \<open>State\<close>

record DNSPacketWriter =
  pw_content :: "byte list"
  pw_record :: "byte list"
  pw_qname :: string
  pw_qtype :: u16
  pw_qclass :: u16
  pw_recordqname :: string
  pw_recordqtype :: u16
  pw_recordqclass :: u16
  pw_recordttl :: u32
  pw_labelmap :: "(string \<times> u16) list"
  pw_stuff :: nat
  pw_sor :: nat
  pw_rollbackmarker :: nat
  pw_recordplace :: Place
  pw_canonic :: bool
  pw_lowerCase :: bool

subsection \<open>Names\<close>

text \<open>
  The parts of a name as pairs of offsets.  A backslash skips the next character; one at the
  very end takes the loop to \<open>epos + 1\<close>, so that the last part reaches one past the string,
  over its NUL.
\<close>

function labeltokUnescape_loop :: "string \<Rightarrow> nat \<Rightarrow> nat \<Rightarrow> (nat \<times> nat) list \<times> bool" where
  "labeltokUnescape_loop label pos lpos =
     (if pos < length label then
        (if label ! pos = CHR 0x5C then (fst (labeltokUnescape_loop label (pos + 2) lpos), True)
         else if label ! pos = CHR ''.'' then
           (let (parts, un) = labeltokUnescape_loop label (pos + 1) (pos + 1) in ((lpos, pos) # parts, un))
         else labeltokUnescape_loop label (pos + 1) lpos)
      else ((if lpos < pos then [(lpos, pos)] else []), False))"
  by pat_completeness auto
termination
  by (relation "measure (\<lambda>(label, pos, lpos). length label - pos)") auto

declare labeltokUnescape_loop.simps [simp del]

definition labeltokUnescape :: "string \<Rightarrow> (nat \<times> nat) list \<times> bool" where
  "labeltokUnescape label = labeltokUnescape_loop label 0 0"

text \<open>The characters \<open>[b, e)\<close> of \<open>label.c_str()\<close>.\<close>

definition c_part :: "string \<Rightarrow> nat \<Rightarrow> nat \<Rightarrow> string" where
  "c_part label b e = substr (label @ [CHR 0x00]) b (e - b)"

definition writer_unescape :: "string \<Rightarrow> string" where
  "writer_unescape part =
     replace_all [CHR 0x5C, CHR 0x5C] [CHR 0x5C]
       (replace_all [CHR 0x5C, CHR ''0'', CHR ''3'', CHR ''2''] '' ''
         (replace_all [CHR 0x5C, CHR ''.''] ''.'' part))"

text \<open>The first entry of the label map for a name, up to case.\<close>

fun labelmap_find :: "(string \<times> u16) list \<Rightarrow> string \<Rightarrow> u16 option" where
  "labelmap_find [] label = None"
| "labelmap_find ((l, p) # lmap) label = (if pdns_iequals l label then Some p else labelmap_find lmap label)"

text \<open>
  The loop over the parts: record, label map and position.  The flag of the result tells
  whether it left by the \<open>goto\<close>, after a compression pointer.
\<close>

definition chopped_name :: "string \<Rightarrow> nat \<Rightarrow> string" where
  "chopped_name label b =
     (if label \<noteq> [] \<and> last label = CHR ''.''
      then substr label b (length label - b - 1)
      else c_string (drop b label))"

definition pointer_bytes :: "u16 \<Rightarrow> byte list" where
  "pointer_bytes p = (let offset = p OR 0xc000 in [ucast (drop_bit 8 offset), ucast (offset AND 0xff)])"

fun xfrLabel_parts :: "string \<Rightarrow> bool \<Rightarrow> bool \<Rightarrow> (nat \<times> nat) list \<Rightarrow> byte list \<Rightarrow> (string \<times> u16) list \<Rightarrow> nat
    \<Rightarrow> (byte list \<times> (string \<times> u16) list \<times> bool) result" where
  "xfrLabel_parts label compress unescaped [] rec lmap pos = Inr (rec, lmap, False)"
| "xfrLabel_parts label compress unescaped ((b, e) # parts) rec lmap pos =
     (let chopped = chopped_name label b;
          li = (if compress then labelmap_find lmap chopped else None)
      in case li of
           Some p \<Rightarrow> Inr (rec @ pointer_bytes p, lmap, True)
         | None \<Rightarrow>
             (let lmap' = (if pos < 16384 then lmap @ [(chopped, word_of_nat pos)] else lmap);
                  part = (if unescaped then writer_unescape (c_part label b e) else c_part label b e)
              in if unescaped \<and> length part > 255
                 then Inl (MOADNSException ''DNSPacketWriter::xfrLabel() tried to write an overly large label'')
                 else xfrLabel_parts label compress unescaped parts
                        (rec @ [word_of_nat (length part)] @ map c2b part) lmap' (pos + length part + 1)))"

definition pw_xfrLabel :: "string \<Rightarrow> bool \<Rightarrow> DNSPacketWriter \<Rightarrow> DNSPacketWriter result" where
  "pw_xfrLabel Label compress pw =
     (let label = (if pw_lowerCase pw then toLower Label else Label);
          compress = (if pw_canonic pw then False else compress)
      in if label = ''.'' then Inr (pw\<lparr> pw_record := pw_record pw @ [0] \<rparr>)
         else let (parts, unescaped) = labeltokUnescape label;
                  pos = length (pw_content pw) + length (pw_record pw) + pw_stuff pw
              in bindE (xfrLabel_parts label compress unescaped parts (pw_record pw) (pw_labelmap pw) pos)
                   (\<lambda>(rec, lmap, jumped).
                     Inr (pw\<lparr> pw_record := (if jumped then rec else rec @ [0]), pw_labelmap := lmap \<rparr>)))"

subsection \<open>Integers and blobs\<close>

definition pw_append :: "byte list \<Rightarrow> DNSPacketWriter \<Rightarrow> DNSPacketWriter" where
  "pw_append bs pw = pw\<lparr> pw_record := pw_record pw @ bs \<rparr>"

definition pw_xfr48BitInt :: "u64 \<Rightarrow> DNSPacketWriter \<Rightarrow> DNSPacketWriter" where
  "pw_xfr48BitInt val =
     pw_append (be_bytes16 (ucast (drop_bit 32 val AND 0xffff)) @ be_bytes32 (ucast (val AND 0xffffffff)))"

definition pw_xfr32BitInt :: "u32 \<Rightarrow> DNSPacketWriter \<Rightarrow> DNSPacketWriter" where
  "pw_xfr32BitInt val = pw_append (be_bytes32 val)"

definition pw_xfr16BitInt :: "u16 \<Rightarrow> DNSPacketWriter \<Rightarrow> DNSPacketWriter" where
  "pw_xfr16BitInt val = pw_append (be_bytes16 val)"

definition pw_xfr8BitInt :: "byte \<Rightarrow> DNSPacketWriter \<Rightarrow> DNSPacketWriter" where
  "pw_xfr8BitInt val = pw_append [val]"

definition pw_xfrIP :: "u32 \<Rightarrow> DNSPacketWriter \<Rightarrow> DNSPacketWriter" where
  "pw_xfrIP val = pw_xfr32BitInt (htonl val)"

definition pw_xfrBlob :: "string \<Rightarrow> DNSPacketWriter \<Rightarrow> DNSPacketWriter" where
  "pw_xfrBlob blob = pw_append (map c2b blob)"

subsection \<open>Texts\<close>

text \<open>
  The state machine of \<open>segmentDNSText\<close>: a sequence of quoted elements, each followed by at
  most one white space character.  \<open>TNum3\<close> has read a three-digit escape whose value is
  added when the next character is seen.
\<close>

datatype txt_state = TStart | TIn | TEsc | TNum1 byte | TNum2 byte | TNum3 byte | TEnd | TSpace

definition appendSplit :: "string list \<Rightarrow> string \<Rightarrow> char \<Rightarrow> string list \<times> string" where
  "appendSplit ret segment c =
     (if length segment > 254 then (ret @ [segment], [c]) else (ret, segment @ [c]))"

definition txt_plain :: "char \<Rightarrow> bool" where
  "txt_plain c \<longleftrightarrow> (32 \<le> ucode c \<and> ucode c \<le> 126 \<and> c \<noteq> CHR 0x5C \<and> c \<noteq> CHR 0x22)
     \<or> c = CHR 0x0A \<or> c = CHR 0x09"

definition txt_digit :: "byte \<Rightarrow> char \<Rightarrow> byte" where
  "txt_digit val c = val * 10 + (c2b c - c2b (CHR ''0''))"

text \<open>A character read inside the quotes.\<close>

definition txt_in :: "string list \<Rightarrow> string \<Rightarrow> char \<Rightarrow> (txt_state \<times> string list \<times> string) option" where
  "txt_in ret segment c =
     (if c = CHR 0x22 then Some (TEnd, ret, segment)
      else if c = CHR 0x5C then Some (TEsc, ret, segment)
      else if txt_plain c then Some (TIn, appendSplit ret segment c)
      else None)"

fun txt_step :: "txt_state \<Rightarrow> string list \<Rightarrow> string \<Rightarrow> char \<Rightarrow> (txt_state \<times> string list \<times> string) option" where
  "txt_step TStart ret segment c = (if c = CHR 0x22 then Some (TIn, ret, []) else None)"
| "txt_step TIn ret segment c = txt_in ret segment c"
| "txt_step TEsc ret segment c =
     (if c = CHR 0x22 \<or> c = CHR 0x5C then Some (TIn, appendSplit ret segment c)
      else if isdigit c then Some (TNum1 (txt_digit 0 c), ret, segment) else None)"
| "txt_step (TNum1 val) ret segment c = (if isdigit c then Some (TNum2 (txt_digit val c), ret, segment) else None)"
| "txt_step (TNum2 val) ret segment c = (if isdigit c then Some (TNum3 (txt_digit val c), ret, segment) else None)"
| "txt_step (TNum3 val) ret segment c =
     (let (ret, segment) = appendSplit ret segment (b2c val) in txt_in ret segment c)"
| "txt_step TEnd ret segment c =
     (if isspace c then Some (TSpace, ret, segment)
      else if c = CHR 0x22 then Some (TIn, ret @ [segment], []) else None)"
| "txt_step TSpace ret segment c = (if c = CHR 0x22 then Some (TIn, ret @ [segment], []) else None)"

fun txt_run :: "txt_state \<Rightarrow> string list \<Rightarrow> string \<Rightarrow> string \<Rightarrow> string list option" where
  "txt_run st ret segment [] = (if st = TEnd \<or> st = TSpace then Some (ret @ [segment]) else None)"
| "txt_run st ret segment (c # p) =
     (case txt_step st ret segment c of
        None \<Rightarrow> None
      | Some (st', ret', segment') \<Rightarrow> txt_run st' ret' segment' p)"

definition segmentDNSText :: "string \<Rightarrow> string list result" where
  "segmentDNSText input =
     (case txt_run TStart [] [] input of
        Some ret \<Rightarrow> Inr ret
      | None \<Rightarrow> Inl (RuntimeError (''Unable to parse DNS TXT '' @ [CHR 0x27] @ input @ [CHR 0x27])))"

definition pw_xfrText :: "string \<Rightarrow> DNSPacketWriter \<Rightarrow> DNSPacketWriter result" where
  "pw_xfrText text pw =
     (if text = [] then Inr (pw_append [0] pw)
      else bindE (segmentDNSText text) (\<lambda>segments.
        Inr (pw_append (concat (map (\<lambda>str. word_of_nat (length str) # map c2b str) segments)) pw)))"

subsection \<open>Packets and records\<close>

text \<open>
  The constructor.  \<open>mem\<close> holds what the members it does not set have in memory.
\<close>

definition DNSPacketWriter_init :: "DNSPacketWriter \<Rightarrow> string \<Rightarrow> u16 \<Rightarrow> u16 \<Rightarrow> byte \<Rightarrow> DNSPacketWriter result" where
  "DNSPacketWriter_init mem qname qtype qclass opcode =
     (let dnsheader = (dnsheader_of (replicate 12 0))\<lparr> hdr_id := 0, hdr_qdcount := ntohs 1, hdr_opcode := ucast opcode \<rparr>;
          pw = mem\<lparr> pw_content := bytes_of_dnsheader dnsheader, pw_record := [], pw_qname := qname,
                    pw_qtype := qtype, pw_qclass := qclass, pw_labelmap := [], pw_stuff := 0,
                    pw_canonic := False, pw_lowerCase := False \<rparr>
      in bindE (pw_xfrLabel qname False pw) (\<lambda>pw.
           Inr (pw\<lparr> pw_content := pw_content pw @ pw_record pw @ be_bytes16 qtype @ be_bytes16 qclass,
                    pw_record := [], pw_stuff := 0xffff \<rparr>)))"

definition pw_size :: "DNSPacketWriter \<Rightarrow> nat" where
  "pw_size pw = length (pw_content pw) + pw_stuff pw + length (pw_record pw)"

definition count_field :: "Place \<Rightarrow> dnsheader \<Rightarrow> dnsheader" where
  "count_field place dh =
     (case place of
        ANSWER \<Rightarrow> dh\<lparr> hdr_ancount := ntohs (ntohs (hdr_ancount dh) + 1) \<rparr>
      | AUTHORITY \<Rightarrow> dh\<lparr> hdr_nscount := ntohs (ntohs (hdr_nscount dh) + 1) \<rparr>
      | ADDITIONAL \<Rightarrow> dh\<lparr> hdr_arcount := ntohs (ntohs (hdr_arcount dh) + 1) \<rparr>
      | QUESTION \<Rightarrow> dh)"

definition update_header :: "(dnsheader \<Rightarrow> dnsheader) \<Rightarrow> byte list \<Rightarrow> byte list" where
  "update_header f content = bytes_of_dnsheader (f (dnsheader_of content)) @ drop 12 content"

definition pw_commit :: "DNSPacketWriter \<Rightarrow> DNSPacketWriter result" where
  "pw_commit pw =
     (if pw_stuff pw = 0xffff \<and> (length (pw_content pw) \<noteq> pw_sor pw \<or> pw_record pw \<noteq> [])
      then Inl (MOADNSException
        ''DNSPacketWriter::commit() called without startRecord ever having been called, but a record was added'')
      else let drh = \<lparr> rh_type = pw_recordqtype pw, rh_class = pw_recordqclass pw, rh_ttl = pw_recordttl pw,
                       rh_clen = word_of_nat (length (pw_record pw)) \<rparr>;
               content = pw_content pw @ bytes_of_dnsrecordheader drh @ pw_record pw
           in Inr (pw\<lparr> pw_content := update_header (count_field (pw_recordplace pw)) content,
                       pw_stuff := 0, pw_record := [] \<rparr>))"

definition pw_startRecord :: "string \<Rightarrow> u16 \<Rightarrow> u32 \<Rightarrow> u16 \<Rightarrow> Place \<Rightarrow> DNSPacketWriter \<Rightarrow> DNSPacketWriter result" where
  "pw_startRecord name qtype ttl qclass place pw =
     bindE (if pw_record pw \<noteq> [] then pw_commit pw else Inr pw) (\<lambda>pw.
       let pw = pw\<lparr> pw_recordqname := name, pw_recordqtype := qtype, pw_recordqclass := qclass,
                    pw_recordttl := ttl, pw_recordplace := place, pw_stuff := 0,
                    pw_rollbackmarker := length (pw_content pw) mod 65536 \<rparr>
       in bindE (if pdns_iequals (pw_qname pw) name
                 then Inr (pw\<lparr> pw_content := pw_content pw @ [0xc0, 0x0c] \<rparr>)
                 else bindE (pw_xfrLabel name True pw) (\<lambda>pw.
                        Inr (pw\<lparr> pw_content := pw_content pw @ pw_record pw, pw_record := [] \<rparr>))) (\<lambda>pw.
            Inr (pw\<lparr> pw_stuff := 10, pw_sor := (length (pw_content pw) + 10) mod 65536 \<rparr>)))"

text \<open>
  \<open>addOpt\<close>: the EDNS0 record is laid over the TTL, which \<open>ntohl\<close> turns so that writing it
  gives the record's bytes.
\<close>

fun addOpt_options :: "(u16 \<times> string) list \<Rightarrow> DNSPacketWriter \<Rightarrow> DNSPacketWriter" where
  "addOpt_options [] pw = pw"
| "addOpt_options ((code, value) # options) pw =
     addOpt_options options (pw_xfrBlob value (pw_xfr16BitInt (word_of_nat (length value)) (pw_xfr16BitInt code pw)))"

definition pw_addOpt :: "int \<Rightarrow> int \<Rightarrow> int \<Rightarrow> (u16 \<times> string) list \<Rightarrow> DNSPacketWriter \<Rightarrow> DNSPacketWriter result" where
  "pw_addOpt udpsize extRCode Z options pw =
     (let stuff = \<lparr> ex_extRCode = word_of_int extRCode, ex_version = 0, ex_Z = ntohs (word_of_int Z) \<rparr>;
          ttl = (case le_bytes16 (ex_Z stuff) of [z0, z1] \<Rightarrow> be_val32 (ex_extRCode stuff) (ex_version stuff) z0 z1)
      in bindE (pw_startRecord [] qt_OPT ttl (word_of_int udpsize) ADDITIONAL pw) (\<lambda>pw.
           Inr (addOpt_options options pw)))"

definition pw_rollback :: "DNSPacketWriter \<Rightarrow> DNSPacketWriter" where
  "pw_rollback pw = pw\<lparr> pw_content := take (pw_rollbackmarker pw) (pw_content pw)
              @ replicate (pw_rollbackmarker pw - length (pw_content pw)) 0, pw_record := [], pw_stuff := 0 \<rparr>"

definition pw_getRecords :: "DNSPacketWriter \<Rightarrow> string" where
  "pw_getRecords pw = map b2c (drop (pw_sor pw) (pw_content pw))"

subsection \<open>The name encoder for stored records\<close>

definition EncodeDNSLabel :: "string \<Rightarrow> string" where
  "EncodeDNSLabel input =
     (if input = ''.'' then [CHR 0x00]
      else let (parts, unescapedSomething) = labeltokUnescape input;
               enc = (\<lambda>part. b2c (word_of_nat (length part)) # part)
           in concat (map (\<lambda>(b, e). enc (let part = c_part input b e in
                if unescapedSomething
                then replace_all [CHR 0x5C, CHR ''.''] ''.'' (replace_all [CHR 0x5C, CHR 0x5C] [CHR 0x5C] part)
                else part)) parts) @ [CHR 0x00])"

end
