(* ===== verification/Names.thy ===== *)
theory Names
  imports PacketWriter
begin

text \<open>
  What the two name codecs have in common: a name is a list of labels, a label a list of
  bytes.  The text form is what the reader produces and the writer tokenises; the wire form
  is what the writer produces and the reader expands.
\<close>

subsection \<open>Text and wire forms\<close>

definition label_text :: "byte list \<Rightarrow> string" where
  "label_text l = concat (map label_char l)"

definition name_text :: "byte list list \<Rightarrow> string" where
  "name_text ls = concat (map (\<lambda>l. label_text l @ ''.'') ls)"

definition wire_label :: "byte list \<Rightarrow> byte list" where
  "wire_label l = word_of_nat (length l) # l"

definition wire_labels :: "byte list list \<Rightarrow> byte list" where
  "wire_labels ls = concat (map wire_label ls)"

text \<open>
  A label that fits its length byte and in which no backslash is followed by \<open>032\<close>: the
  writer takes those four characters for an escaped space even after an escaped backslash.
\<close>

fun has_032 :: "byte list \<Rightarrow> bool" where
  "has_032 [] = False"
| "has_032 (b # l) = (take 4 (b # l) = [0x5C, 0x30, 0x33, 0x32] \<or> has_032 l)"

definition valid_label :: "byte list \<Rightarrow> bool" where
  "valid_label l \<longleftrightarrow> l \<noteq> [] \<and> length l \<le> 63 \<and> \<not> has_032 l"

lemma label_text_simps [simp]:
  "label_text [] = []" "label_text (b # l) = label_char b @ label_text l"
  "label_text (l @ m) = label_text l @ label_text m"
  by (simp_all add: label_text_def)

lemma name_text_simps [simp]:
  "name_text [] = []" "name_text (l # ls) = label_text l @ CHR ''.'' # name_text ls"
  by (simp_all add: name_text_def)

lemma wire_labels_simps [simp]:
  "wire_labels [] = []" "wire_labels (l # ls) = wire_label l @ wire_labels ls"
  by (simp_all add: wire_labels_def)

lemma length_wire_label [simp]: "length (wire_label l) = Suc (length l)"
  by (simp add: wire_label_def)

subsection \<open>Reading the wire form\<close>

lemma read_label_bytes:
  "read_label (pre @ l @ rest) (length pre) (length l) ret = Inr (length pre + length l, ret @ label_text l)"
proof (induction l arbitrary: pre ret)
  case (Cons b l)
  have "read_label (pre @ (b # l) @ rest) (length pre) (length (b # l)) ret =
      read_label ((pre @ [b]) @ l @ rest) (length (pre @ [b])) (length l) (ret @ label_char b)"
    by (simp add: at_def)
  with Cons.IH [of "pre @ [b]" "ret @ label_char b"] show ?case by simp
qed simp

lemma label_len_word:
  assumes "length l \<le> 63"
  shows "unat (word_of_nat (length l) :: byte) = length l"
    "(word_of_nat (length l) :: byte) AND 0xc0 \<noteq> 0xc0"
    "(word_of_nat (length l) :: byte) = 0 \<longleftrightarrow> l = []"
proof -
  show u: "unat (word_of_nat (length l) :: byte) = length l"
    using assms by (simp add: unat_of_nat take_bit_nat_def)
  have "(word_of_nat (length l) :: byte) \<le> 63" using assms by (simp add: word_le_nat_alt u)
  moreover have "\<not> (w :: byte) AND 0xc0 = 0xc0" if "w \<le> 63" for w
  proof
    assume "w AND 0xc0 = 0xc0"
    moreover have "w AND 0xc0 \<le> w" by (rule word_and_le2)
    ultimately have "(0xc0 :: byte) \<le> 63" using that by (metis order_trans)
    then show False by simp
  qed
  ultimately show "(word_of_nat (length l) :: byte) AND 0xc0 \<noteq> 0xc0" by blast
  show "(word_of_nat (length l) :: byte) = 0 \<longleftrightarrow> l = []"
    by (simp flip: unat_eq_0 add: u)
qed

lemma getLabelFromContent_label:
  assumes "valid_label l" "recurs \<le> 10"
  shows "getLabelFromContent (pre @ wire_label l @ rest) (length pre) ret recurs =
    getLabelFromContent (pre @ wire_label l @ rest) (length pre + Suc (length l)) (ret @ label_text l @ ''.'') recurs"
proof -
  have l: "length l \<le> 63" "l \<noteq> []" using assms(1) by (simp_all add: valid_label_def)
  have "read_label (pre @ wire_label l @ rest) (length pre + 1) (length l) ret =
      Inr (length pre + 1 + length l, ret @ label_text l)"
    using read_label_bytes [of "pre @ [word_of_nat (length l)]" l rest ret] by (simp add: wire_label_def)
  then show ?thesis
    using assms(2) l label_len_word [OF l(1)]
    by (subst getLabelFromContent.simps) (simp add: at_def nth_append wire_label_def)
qed

lemma getLabelFromContent_labels:
  assumes "list_all valid_label ls" "recurs \<le> 10"
  shows "getLabelFromContent (pre @ wire_labels ls @ rest) (length pre) ret recurs =
    getLabelFromContent (pre @ wire_labels ls @ rest) (length pre + length (wire_labels ls)) (ret @ name_text ls) recurs"
  using assms(1)
proof (induction ls arbitrary: pre ret)
  case (Cons l ls)
  have "getLabelFromContent (pre @ wire_labels (l # ls) @ rest) (length pre) ret recurs =
      getLabelFromContent ((pre @ wire_label l) @ wire_labels ls @ rest) (length (pre @ wire_label l)) (ret @ label_text l @ ''.'') recurs"
    using getLabelFromContent_label [of l recurs pre "wire_labels ls @ rest" ret] Cons.prems assms(2) by simp
  also have "\<dots> = getLabelFromContent ((pre @ wire_label l) @ wire_labels ls @ rest)
      (length (pre @ wire_label l) + length (wire_labels ls)) (ret @ name_text (l # ls)) recurs"
    using Cons.IH [of "pre @ wire_label l" "ret @ label_text l @ ''.''"] Cons.prems by simp
  finally show ?case by (simp add: ac_simps)
qed simp

text \<open>The root is printed as a single dot.\<close>

definition shown_name :: "byte list list \<Rightarrow> string" where
  "shown_name ls = (if ls = [] then ''.'' else name_text ls)"

lemma name_text_eq_Nil [simp]: "name_text ls = [] \<longleftrightarrow> ls = []"
  by (cases ls) auto

lemma getLabelFromContent_wire:
  assumes "list_all valid_label ls"
  shows "getLabelFromContent (pre @ wire_labels ls @ 0 # rest) (length pre) [] 0 =
    Inr (length pre + length (wire_labels ls) + 1, shown_name ls)"
proof -
  have "getLabelFromContent (pre @ wire_labels ls @ 0 # rest) (length pre + length (wire_labels ls)) (name_text ls) 0 =
      Inr (length pre + length (wire_labels ls) + 1, shown_name ls)"
    by (subst getLabelFromContent.simps) (simp add: at_def nth_append shown_name_def)
  with getLabelFromContent_labels [OF assms, of 0 pre "0 # rest" "[]"] show ?thesis by simp
qed

subsection \<open>Tokenising the text form\<close>

text \<open>Where the parts of a text form begin and end.\<close>

fun parts_of :: "nat \<Rightarrow> byte list list \<Rightarrow> (nat \<times> nat) list" where
  "parts_of o' [] = []"
| "parts_of o' (l # ls) =
     (o', o' + length (label_text l)) # parts_of (o' + Suc (length (label_text l))) ls"

definition needs_escape :: "byte list \<Rightarrow> bool" where
  "needs_escape l \<longleftrightarrow> (\<exists>b \<in> set l. b2c b = CHR ''.'' \<or> b2c b = CHR 0x5C \<or> b2c b = CHR '' '')"

lemma needs_escape_simps [simp]:
  "\<not> needs_escape []"
  "needs_escape (b # l) \<longleftrightarrow> b2c b = CHR ''.'' \<or> b2c b = CHR 0x5C \<or> b2c b = CHR '' '' \<or> needs_escape l"
  by (auto simp: needs_escape_def)

lemma labeltok_step:
  "labeltokUnescape_loop (pre @ c # t) (length pre) lpos =
     (if c = CHR 0x5C then (fst (labeltokUnescape_loop (pre @ c # t) (length pre + 2) lpos), True)
      else if c = CHR ''.'' then
        (let (parts, un) = labeltokUnescape_loop (pre @ c # t) (length pre + 1) (length pre + 1) in ((lpos, length pre) # parts, un))
      else labeltokUnescape_loop (pre @ c # t) (length pre + 1) lpos)"
  by (subst labeltokUnescape_loop.simps) simp

lemma labeltok_label:
  "labeltokUnescape_loop (pre @ label_text l @ t) (length pre) lpos =
     (let (p, u) = labeltokUnescape_loop (pre @ label_text l @ t) (length pre + length (label_text l)) lpos
      in (p, u \<or> needs_escape l))"
proof (induction l arbitrary: pre)
  case (Cons b l)
  let ?t = "label_text l @ t"
  have step: "labeltokUnescape_loop (pre @ label_char b @ ?t) (length pre) lpos =
      (let (p, u) = labeltokUnescape_loop (pre @ label_char b @ ?t) (length (pre @ label_char b)) lpos
       in (p, u \<or> b2c b = CHR ''.'' \<or> b2c b = CHR 0x5C \<or> b2c b = CHR '' ''))"
  proof -
    consider "b2c b = CHR ''.'' \<or> b2c b = CHR 0x5C" | "b2c b = CHR '' ''" | "b2c b \<notin> {CHR ''.'', CHR 0x5C, CHR '' ''}" by auto
    then show ?thesis
    proof cases
      case 1
      then have "label_char b = [CHR 0x5C, b2c b]" by (simp add: label_char_def)
      then show ?thesis using 1 labeltok_step [of pre "CHR 0x5C" "b2c b # ?t" lpos]
        by (auto simp: split_beta)
    next
      case 2
      then have lc: "label_char b = [CHR 0x5C, CHR ''0'', CHR ''3'', CHR ''2'']" by (simp add: label_char_def)
      have "labeltokUnescape_loop (pre @ label_char b @ ?t) (length pre + 2) lpos =
          labeltokUnescape_loop (pre @ label_char b @ ?t) (length pre + 4) lpos"
        using labeltok_step [of "pre @ [CHR 0x5C, CHR ''0'']" "CHR ''3''" "CHR ''2'' # ?t" lpos]
          labeltok_step [of "pre @ [CHR 0x5C, CHR ''0'', CHR ''3'']" "CHR ''2''" "?t" lpos]
        by (simp add: lc numeral_eq_Suc)
      then show ?thesis using 2 labeltok_step [of pre "CHR 0x5C" "CHR ''0'' # CHR ''3'' # CHR ''2'' # ?t" lpos]
        by (simp add: lc split_beta numeral_eq_Suc)
    next
      case 3
      then have "label_char b = [b2c b]" by (simp add: label_char_def)
      then show ?thesis using 3 labeltok_step [of pre "b2c b" ?t lpos] by simp
    qed
  qed
  have IH: "labeltokUnescape_loop (pre @ label_char b @ ?t) (length (pre @ label_char b)) lpos =
      (let (p, u) = labeltokUnescape_loop (pre @ label_char b @ ?t) (length pre + length (label_text (b # l))) lpos
       in (p, u \<or> needs_escape l))"
    using Cons.IH [of "pre @ label_char b"] by (simp only: append_assoc length_append label_text_simps add.assoc)
  have "labeltokUnescape_loop (pre @ label_text (b # l) @ t) (length pre) lpos =
      labeltokUnescape_loop (pre @ label_char b @ ?t) (length pre) lpos" by simp
  then show ?case unfolding step IH
    by (simp only: split_beta Let_def fst_conv snd_conv needs_escape_simps label_text_simps append_assoc disj_ac)
qed simp

lemma labeltok_name:
  "labeltokUnescape_loop (pre @ name_text ls) (length pre) (length pre) =
     (parts_of (length pre) ls, \<exists>l \<in> set ls. needs_escape l)"
proof (induction ls arbitrary: pre)
  case Nil
  then show ?case by (subst labeltokUnescape_loop.simps) simp
next
  case (Cons l ls)
  have "labeltokUnescape_loop (pre @ name_text (l # ls)) (length pre + length (label_text l)) (length pre) =
      (let (parts, un) = labeltokUnescape_loop (pre @ name_text (l # ls)) (length pre + Suc (length (label_text l)))
         (length pre + Suc (length (label_text l))) in ((length pre, length pre + length (label_text l)) # parts, un))"
    using labeltok_step [of "pre @ label_text l" "CHR ''.''" "name_text ls" "length pre"] by (simp add: ac_simps)
  also have "labeltokUnescape_loop (pre @ name_text (l # ls)) (length pre + Suc (length (label_text l)))
         (length pre + Suc (length (label_text l))) =
      (parts_of (length pre + Suc (length (label_text l))) ls, \<exists>l \<in> set ls. needs_escape l)"
    using Cons.IH [of "pre @ label_text l @ ''.''"] by simp
  finally show ?case
    using labeltok_label [of pre l "CHR ''.'' # name_text ls" "length pre"] by auto
qed

lemma labeltokUnescape_name:
  "labeltokUnescape (name_text ls) = (parts_of 0 ls, \<exists>l \<in> set ls. needs_escape l)"
  using labeltok_name [of "[]" ls] by (simp add: labeltokUnescape_def)

lemma c_part_mid: "c_part (pre @ s @ t) (length pre) (length pre + length s) = s"
  by (simp add: c_part_def substr_def)

subsection \<open>Undoing the escapes\<close>

lemma replace_all_skip: "c \<noteq> hd pat \<Longrightarrow> pat \<noteq> [] \<Longrightarrow> replace_all pat rep (c # s) = c # replace_all pat rep s"
  by (cases pat) auto

text \<open>The intermediate forms: first the dots are plain, then the spaces too.\<close>

definition mid1 :: "byte \<Rightarrow> string" where
  "mid1 b = (if b2c b = CHR 0x5C then [CHR 0x5C, CHR 0x5C]
     else if b2c b = CHR '' '' then [CHR 0x5C, CHR ''0'', CHR ''3'', CHR ''2''] else [b2c b])"

definition mid2 :: "byte \<Rightarrow> string" where
  "mid2 b = (if b2c b = CHR 0x5C then [CHR 0x5C, CHR 0x5C] else [b2c b])"

lemma label_text_head: "label_text l = CHR ''.'' # s \<Longrightarrow> False"
  by (cases l) (auto simp: label_char_def split: if_splits)

lemma replace_dots: "replace_all [CHR 0x5C, CHR ''.''] ''.'' (label_text l) = concat (map mid1 l)"
proof (induction l)
  case (Cons b l)
  have bs: "replace_all [CHR 0x5C, CHR ''.''] ''.'' (CHR 0x5C # label_text l) = CHR 0x5C # replace_all [CHR 0x5C, CHR ''.''] ''.'' (label_text l)"
    using label_text_head [of l] by (cases "label_text l") auto
  show ?case using Cons bs by (auto simp: label_char_def mid1_def)
qed simp

lemma mid1_take:
  assumes "c \<noteq> CHR 0x5C" "c \<noteq> CHR '' ''"
  shows "take (Suc n) (concat (map mid1 l)) = c # p \<longleftrightarrow>
     (\<exists>b l'. l = b # l' \<and> b2c b = c \<and> take n (concat (map mid1 l')) = p)"
  using assms by (cases l) (auto simp: mid1_def)

lemma mid1_032:
  "take 3 (concat (map mid1 l)) = ''032'' \<longleftrightarrow> take 3 l = [0x30, 0x33, 0x32]"
proof -
  have c: "b2c b = CHR ''0'' \<longleftrightarrow> b = 0x30" "b2c b = CHR ''3'' \<longleftrightarrow> b = 0x33" "b2c b = CHR ''2'' \<longleftrightarrow> b = 0x32" for b
    by (simp_all add: b2c_eq_iff c2b_def)
  have "take 3 (concat (map mid1 l)) = ''032'' \<longleftrightarrow> (\<exists>m. l = 0x30 # 0x33 # 0x32 # m)"
    by (simp add: numeral_3_eq_3 mid1_take c) blast
  also have "\<dots> \<longleftrightarrow> take 3 l = [0x30, 0x33, 0x32]"
    by (auto simp: numeral_3_eq_3 take_Suc_Cons) (metis append_Cons append_Nil append_take_drop_id)
  finally show ?thesis .
qed

lemma replace_spaces:
  "\<not> has_032 l \<Longrightarrow> replace_all [CHR 0x5C, CHR ''0'', CHR ''3'', CHR ''2''] '' '' (concat (map mid1 l)) = concat (map mid2 l)"
proof (induction l)
  case (Cons b l)
  show ?case
  proof (cases "b2c b = CHR 0x5C")
    case True
    then have b: "b = 0x5C" by (simp add: b2c_eq_iff c2b_def)
    have "take 3 l \<noteq> [0x30, 0x33, 0x32]" using Cons.prems by (simp add: b numeral_eq_Suc)
    then have "take 3 (concat (map mid1 l)) \<noteq> ''032''" by (simp add: mid1_032)
    then have "replace_all [CHR 0x5C, CHR ''0'', CHR ''3'', CHR ''2''] '' '' (CHR 0x5C # concat (map mid1 l)) =
        CHR 0x5C # concat (map mid2 l)"
      using Cons by (simp add: numeral_eq_Suc)
    moreover have "replace_all [CHR 0x5C, CHR ''0'', CHR ''3'', CHR ''2''] '' '' (CHR 0x5C # CHR 0x5C # s) =
        CHR 0x5C # replace_all [CHR 0x5C, CHR ''0'', CHR ''3'', CHR ''2''] '' '' (CHR 0x5C # s)" for s
      by simp
    moreover have "mid1 b = [CHR 0x5C, CHR 0x5C]" "mid2 b = [CHR 0x5C, CHR 0x5C]"
      using True by (simp_all add: mid1_def mid2_def)
    ultimately show ?thesis by (simp only: list.map concat.simps append.simps)
  next
    case False
    then show ?thesis using Cons by (auto simp: mid1_def mid2_def)
  qed
qed simp

lemma replace_backslashes: "replace_all [CHR 0x5C, CHR 0x5C] [CHR 0x5C] (concat (map mid2 l)) = map b2c l"
  by (induction l) (auto simp: mid2_def)

lemma writer_unescape_label_text: "\<not> has_032 l \<Longrightarrow> writer_unescape (label_text l) = map b2c l"
  by (simp add: writer_unescape_def replace_dots replace_spaces replace_backslashes)

lemma label_text_plain: "\<not> needs_escape l \<Longrightarrow> label_text l = map b2c l"
  by (induction l) (auto simp: label_char_def)

subsection \<open>Names up to case\<close>

definition lower_byte :: "byte \<Rightarrow> byte" where
  "lower_byte b = c2b (dns_tolower (b2c b))"

definition lower_name :: "byte list list \<Rightarrow> byte list list" where
  "lower_name ls = map (map lower_byte) ls"

lemma lower_name_simps [simp]:
  "lower_name [] = []" "lower_name (l # ls) = map lower_byte l # lower_name ls"
  by (simp_all add: lower_name_def)

lemma dns_tolower_other:
  assumes "\<not> isupper d" "\<not> islower d"
  shows "dns_tolower c = d \<longleftrightarrow> c = d"
proof
  assume d: "dns_tolower c = d"
  show "c = d"
  proof (cases "65 \<le> ucode c \<and> ucode c \<le> 90")
    case True
    then have "ucode (dns_tolower c) = ucode c + 32"
      by (auto simp: dns_tolower_def ucode_def)
    with True d assms(2) show ?thesis by (simp add: islower_def)
  qed (use d in \<open>auto simp: dns_tolower_def split: if_splits\<close>)
next
  assume "c = d"
  then show "dns_tolower c = d" using assms(1) by (auto simp: dns_tolower_def isupper_def)
qed

lemma dns_tolower_special [simp]:
  "dns_tolower c = CHR 0x5C \<longleftrightarrow> c = CHR 0x5C" "dns_tolower c = CHR '' '' \<longleftrightarrow> c = CHR '' ''"
  "dns_tolower (CHR 0x5C) = CHR 0x5C" "dns_tolower (CHR ''0'') = CHR ''0''" "dns_tolower (CHR ''3'') = CHR ''3''"
  "dns_tolower (CHR ''2'') = CHR ''2''" "dns_tolower (CHR ''.'') = CHR ''.''"
  by (subst dns_tolower_other; simp add: isupper_def islower_def ucode_def)+

lemma toLower_label_char: "toLower (label_char b) = label_char (lower_byte b)"
  by (simp add: label_char_def lower_byte_def)

lemma toLower_label_text: "toLower (label_text l) = label_text (map lower_byte l)"
  by (induction l) (simp_all add: toLower_label_char)

lemma toLower_name_text: "toLower (name_text ls) = name_text (lower_name ls)"
  by (induction ls) (simp_all add: toLower_label_text)

lemma label_text_inject: "label_text l @ CHR ''.'' # s = label_text m @ CHR ''.'' # t \<longleftrightarrow> l = m \<and> s = t"
proof (induction l arbitrary: m)
  case Nil
  then show ?case by (cases m) (auto simp: label_char_def)
next
  case (Cons b l)
  show ?case
  proof (cases m)
    case Nil
    then show ?thesis by (auto simp: label_char_def)
  next
    case m: (Cons c m')
    show ?thesis unfolding m using Cons.IH [of m']
      by (auto simp: label_char_def split: if_splits) (simp_all add: b2c_eq_iff)
  qed
qed

lemma name_text_inject: "name_text a = name_text b \<longleftrightarrow> a = b"
proof (induction a arbitrary: b)
  case (Cons l a)
  then show ?case by (cases b) (auto simp: label_text_inject)
qed (metis name_text_eq_Nil)

text \<open>The label map's key of a name.\<close>

definition name_key :: "byte list list \<Rightarrow> string" where
  "name_key ls = butlast (name_text ls)"

lemma name_text_dot: "ls \<noteq> [] \<Longrightarrow> name_text ls = name_key ls @ ''.''"
proof -
  have "name_text ls \<noteq> [] \<Longrightarrow> last (name_text ls) = CHR ''.''"
    by (induction ls) (auto split: if_splits)
  then show "ls \<noteq> [] \<Longrightarrow> name_text ls = name_key ls @ ''.''"
    using append_butlast_last_id [of "name_text ls"] by (simp add: name_key_def)
qed

lemma name_key_iequals:
  assumes "a \<noteq> []" "b \<noteq> []"
  shows "pdns_iequals (name_key a) (name_key b) \<longleftrightarrow> lower_name a = lower_name b"
proof -
  have "toLower (name_key a) = toLower (name_key b) \<longleftrightarrow> toLower (name_text a) = toLower (name_text b)"
    using assms by (simp add: name_text_dot)
  then show ?thesis by (simp add: pdns_iequals_iff toLower_name_text name_text_inject)
qed

subsection \<open>Names in a packet\<close>

text \<open>
  \<open>name_at c i d ls\<close>: at position \<open>i\<close> of the content \<open>c\<close> (the packet without its header) the
  labels \<open>ls\<close> can be read, through \<open>d\<close> compression pointers.
\<close>

inductive name_at :: "byte list \<Rightarrow> nat \<Rightarrow> nat \<Rightarrow> byte list list \<Rightarrow> bool" where
  root: "i < length c \<Longrightarrow> c ! i = 0 \<Longrightarrow> name_at c i 0 []"
| label: "c = pre @ wire_label l @ post \<Longrightarrow> i = length pre \<Longrightarrow> valid_label l \<Longrightarrow>
    name_at c (i + Suc (length l)) d ls \<Longrightarrow> name_at c i d (l # ls)"
| pointer: "c = pre @ pointer_bytes p @ post \<Longrightarrow> i = length pre \<Longrightarrow> 12 \<le> unat p \<Longrightarrow> unat p < 16384 \<Longrightarrow>
    name_at c (unat p - 12) d ls \<Longrightarrow> name_at c i (Suc d) ls"

lemma name_at_append: "name_at c i d ls \<Longrightarrow> name_at (c @ x) i d ls"
proof (induction rule: name_at.induct)
  case (root i c)
  then show ?case by (intro name_at.root) (auto simp: nth_append)
next
  case (label c pre l post i d ls)
  then show ?case by (intro name_at.label [where pre = pre and post = "post @ x"]) auto
next
  case (pointer c pre p post i d ls)
  then show ?case by (intro name_at.pointer [where pre = pre and post = "post @ x" and p = p]) auto
qed

lemma unat_be_val16: "unat (be_val16 a b) = 256 * unat a + unat b"
proof -
  have "be_val16 a b = push_bit 8 (ucast a) + ucast b"
    unfolding be_val16_def by (rule disjunctive_add [symmetric]) (auto simp: bit_simps dest: bit_imp_le_length)
  also have "\<dots> = 256 * ucast a + ucast b"
    by (simp add: push_bit_eq_mult mult.commute)
  finally have v: "be_val16 a b = 256 * ucast a + ucast b" .
  have "unat (ucast a :: u16) = unat a" "unat (ucast b :: u16) = unat b"
    using unat_byte_less [of a] unat_byte_less [of b] by (simp_all add: unsigned_ucast_eq take_bit_nat_def)
  then show ?thesis
    unfolding v using unat_byte_less [of a] unat_byte_less [of b]
    by (simp add: unat_word_ariths)
qed

lemma bit_less_16384: "unat (p :: u16) < 16384 \<Longrightarrow> bit p n \<Longrightarrow> n < 14"
proof (rule ccontr)
  assume p: "unat p < 16384" "bit p n" "\<not> n < 14"
  then have "(2::nat) ^ 14 \<le> 2 ^ n" by (intro power_increasing) auto
  with p(1) have "unat p div 2 ^ n = 0" by simp
  moreover have "bit (unat p) n" using p(2) by (simp add: bit_unsigned_iff)
  ultimately show False by (simp add: bit_iff_odd)
qed

lemma pointer_bytes_value:
  assumes "unat p < 16384" "pointer_bytes p = [hi, lo]"
  shows "hi AND 0xc0 = 0xc0" "256 * unat (hi AND 0x3f) + unat lo = unat p"
proof -
  have m: "(0x3f :: byte) = mask 6" "(0xc0 :: byte) = push_bit 6 (mask 2)" "(0xc000 :: u16) = push_bit 14 (mask 2)"
    "(0xff :: u16) = mask 8"
    by (simp_all add: mask_eq_exp_minus_1 push_bit_eq_mult)
  have b: "hi = ucast (drop_bit 8 (p OR 0xc000))" "lo = ucast ((p OR 0xc000) AND 0xff)"
    using assms(2) by (simp_all add: pointer_bytes_def Let_def)
  show "hi AND 0xc0 = 0xc0"
    unfolding b m by (rule bit_word_eqI, drule bit_index8, elim disjE) (simp_all add: bit_simps)
  have "be_val16 (hi AND 0x3f) lo = p"
    unfolding b m be_val16_def
    by (rule bit_word_eqI) (auto simp: bit_simps dest: bit_less_16384 [OF assms(1)])
  then show "256 * unat (hi AND 0x3f) + unat lo = unat p" by (metis unat_be_val16)
qed

lemma getLabelFromContent_name_at:
  assumes "name_at c i d ls" "recurs + d \<le> 10"
  shows "\<exists>e. getLabelFromContent c i ret recurs =
    Inr (e, if ret @ name_text ls = [] then ''.'' else ret @ name_text ls)"
  using assms
proof (induction arbitrary: ret recurs rule: name_at.induct)
  case (root i c)
  then show ?case by (subst getLabelFromContent.simps) (simp add: at_def)
next
  case (label c pre l post i d ls)
  have "getLabelFromContent c i ret recurs =
      getLabelFromContent c (i + Suc (length l)) (ret @ label_text l @ ''.'') recurs"
    unfolding label.hyps(1,2) using label.prems label.hyps(3) by (intro getLabelFromContent_label) auto
  with label.IH [OF label.prems, of "ret @ label_text l @ ''.''"] show ?case by simp
next
  case (pointer c pre p post i d ls)
  obtain hi lo where b: "pointer_bytes p = [hi, lo]" by (simp add: pointer_bytes_def Let_def)
  have v: "hi AND 0xc0 = 0xc0" "256 * unat (hi AND 0x3f) + unat lo = unat p"
    using pointer_bytes_value [OF pointer.hyps(4) b] by auto
  then have "hi \<noteq> 0" by auto
  obtain e where e: "getLabelFromContent c (unat p - 12) ret (recurs + 1) =
      Inr (e, if ret @ name_text ls = [] then ''.'' else ret @ name_text ls)"
    using pointer.IH [of "recurs + 1" ret] pointer.prems by auto
  have "(256 * unat (hi AND 0x3f) + unat lo + 65536 - 12) mod 65536 = unat p - 12"
    unfolding v(2) using pointer.hyps(3,4) by (simp add: mod_if)
  then show ?case
    using v(1) \<open>hi \<noteq> 0\<close> e pointer.prems pointer.hyps(1,2)
    by (subst getLabelFromContent.simps) (simp add: at_def nth_append b)
qed

subsection \<open>Writing with compression\<close>

text \<open>An entry of the label map that leads to a name equal to its key, through at most \<open>D\<close> pointers.\<close>

definition entry_ok :: "nat \<Rightarrow> byte list \<Rightarrow> string \<times> u16 \<Rightarrow> bool" where
  "entry_ok D c e \<longleftrightarrow>
     (\<exists>ls d. 12 \<le> unat (snd e) \<and> unat (snd e) < 16384 \<and> ls \<noteq> [] \<and> d \<le> D \<and>
        name_at c (unat (snd e) - 12) d ls \<and> toLower (fst e) = toLower (name_key ls))"

lemma entry_ok_mono: "entry_ok D c e \<Longrightarrow> D \<le> D' \<Longrightarrow> entry_ok D' (c @ x) e"
  unfolding entry_ok_def by (meson name_at_append le_trans)

lemma labelmap_find_Some: "labelmap_find lmap s = Some p \<Longrightarrow> \<exists>n. (n, p) \<in> set lmap \<and> toLower n = toLower s"
  by (induction lmap s rule: labelmap_find.induct) (auto simp: pdns_iequals_iff split: if_splits)

text \<open>A label string whose parts, from offset \<open>o\<close> on, are those of the names \<open>ls\<close>.\<close>

fun spells :: "string \<Rightarrow> nat \<Rightarrow> byte list list \<Rightarrow> bool" where
  "spells s i [] = True"
| "spells s i (l # ls) =
     (chopped_name s i = name_key (l # ls) \<and> c_part s i (i + length (label_text l)) = label_text l \<and>
      spells s (i + Suc (length (label_text l))) ls)"

lemma label_text_eq_Nil [simp]: "label_text l = [] \<longleftrightarrow> l = []"
  by (cases l) (auto simp: label_char_def)

lemma name_key_shorter: "valid_label l \<Longrightarrow> length (name_key ls) < length (name_key (l # ls))"
  by (cases ls) (simp_all add: name_key_def butlast_append valid_label_def)

lemma lower_name_key: "a \<noteq> [] \<Longrightarrow> b \<noteq> [] \<Longrightarrow> toLower (name_key a) = toLower (name_key b) \<longleftrightarrow> lower_name a = lower_name b"
  using name_key_iequals by (simp add: pdns_iequals_iff)

lemma written_part:
  assumes "valid_label l" "un \<or> \<not> needs_escape l"
  shows "(if un then writer_unescape (label_text l) else label_text l) = map b2c l"
  using assms by (auto simp: valid_label_def writer_unescape_label_text label_text_plain)

lemma xfrLabel_parts_names:
  assumes "list_all valid_label ls" "spells s i ls" "un \<or> (\<forall>l \<in> set ls. \<not> needs_escape l)"
    "\<forall>e \<in> set lmap. entry_ok D pre e \<or> length (name_key ls) < length (fst e)"
    "pos = length pre + 12"
  shows "\<exists>w new j ls' d. xfrLabel_parts s compress un (parts_of i ls) rec lmap pos = Inr (rec @ w, lmap @ new, j) \<and>
     d \<le> Suc D \<and> lower_name ls' = lower_name ls \<and>
     name_at (pre @ w @ (if j then [] else [0])) (length pre) d ls' \<and>
     (\<forall>e \<in> set new. entry_ok (Suc D) (pre @ w @ (if j then [] else [0])) e)"
  using assms
proof (induction ls arbitrary: i lmap pre rec pos)
  case Nil
  have "name_at (pre @ [0]) (length pre) 0 []" by (intro name_at.root) auto
  then show ?case by fastforce
next
  case (Cons l ls)
  let ?chopped = "name_key (l # ls)"
  have ch: "chopped_name s i = ?chopped" and part: "c_part s i (i + length (label_text l)) = label_text l"
    and sp: "spells s (i + Suc (length (label_text l))) ls" using Cons.prems(2) by simp_all
  have vl: "valid_label l" "list_all valid_label ls" using Cons.prems(1) by simp_all
  show ?case
  proof (cases "if compress then labelmap_find lmap ?chopped else None")
    case (Some p)
    then obtain n where n: "(n, p) \<in> set lmap" "toLower n = toLower ?chopped"
      by (auto split: if_splits dest: labelmap_find_Some)
    have "length n = length ?chopped" using n(2) length_toLower by metis
    then have "entry_ok D pre (n, p)" using Cons.prems(4) n(1) by force
    then obtain ks d where ks: "12 \<le> unat p" "unat p < 16384" "ks \<noteq> []" "d \<le> D" "name_at pre (unat p - 12) d ks"
        "toLower n = toLower (name_key ks)" by (auto simp: entry_ok_def)
    have "lower_name ks = lower_name (l # ls)" using ks(3,6) n(2) lower_name_key by simp
    moreover have "name_at (pre @ pointer_bytes p) (length pre) (Suc d) ks"
      by (rule name_at.pointer [where post = "[]"]) (use ks name_at_append in auto)
    moreover have "xfrLabel_parts s compress un (parts_of i (l # ls)) rec lmap pos = Inr (rec @ pointer_bytes p, lmap, True)"
      using Some by (simp add: ch)
    ultimately show ?thesis using ks(4)
      by (intro exI [of _ "pointer_bytes p"] exI [of _ "[]"] exI [of _ True] exI [of _ ks] exI [of _ "Suc d"])
        (simp del: xfrLabel_parts.simps parts_of.simps)
  next
    case None
    define lmap' where "lmap' = (if pos < 16384 then lmap @ [(?chopped, word_of_nat pos)] else lmap)"
    let ?pre = "pre @ wire_label l"
    have wp: "(if un then writer_unescape (label_text l) else label_text l) = map b2c l"
      using vl(1) Cons.prems(3) by (intro written_part) auto
    have step: "xfrLabel_parts s compress un (parts_of i (l # ls)) rec lmap pos =
        xfrLabel_parts s compress un (parts_of (i + Suc (length (label_text l))) ls) (rec @ wire_label l) lmap' (pos + length l + 1)"
      using vl(1) unfolding parts_of.simps xfrLabel_parts.simps Let_def ch part wp None option.case
      by (simp add: lmap'_def wire_label_def valid_label_def comp_def)
    have "\<forall>e \<in> set lmap'. entry_ok D ?pre e \<or> length (name_key ls) < length (fst e)"
      using Cons.prems(4) name_key_shorter [OF vl(1), of ls] entry_ok_mono [of D pre _ D "wire_label l"]
      by (fastforce simp: lmap'_def split: if_splits)
    from Cons.IH [OF vl(2) sp _ this, of "pos + length l + 1" "rec @ wire_label l"] Cons.prems(3,5)
    obtain w new j ls' d where IH:
      "xfrLabel_parts s compress un (parts_of (i + Suc (length (label_text l))) ls) (rec @ wire_label l) lmap' (pos + length l + 1)
         = Inr ((rec @ wire_label l) @ w, lmap' @ new, j)" "d \<le> Suc D" "lower_name ls' = lower_name ls"
      "name_at (?pre @ w @ (if j then [] else [0])) (length ?pre) d ls'"
      "\<forall>e \<in> set new. entry_ok (Suc D) (?pre @ w @ (if j then [] else [0])) e" by auto
    let ?c = "pre @ (wire_label l @ w) @ (if j then [] else [0])"
    have at: "name_at ?c (length pre) d (l # ls')"
      by (rule name_at.label [where pre = pre and post = "w @ (if j then [] else [0])"]) (use vl(1) IH(4) in auto)
    define new' where "new' = (if pos < 16384 then (?chopped, word_of_nat pos) # new else new)"
    have low: "lower_name (l # ls') = lower_name (l # ls)" using IH(3) by simp
    have "entry_ok (Suc D) ?c (?chopped, word_of_nat pos)" if "pos < 16384"
    proof -
      have "unat (word_of_nat pos :: u16) = pos" using that by (simp add: unat_of_nat take_bit_nat_def)
      then show ?thesis
        using that Cons.prems(5) at IH(2) low lower_name_key [of "l # ls'" "l # ls"]
        unfolding entry_ok_def by (intro exI [of _ "l # ls'"] exI [of _ d]) auto
    qed
    then have "\<forall>e \<in> set new'. entry_ok (Suc D) ?c e" using IH(5) by (simp add: new'_def)
    moreover have "xfrLabel_parts s compress un (parts_of i (l # ls)) rec lmap pos =
        Inr (rec @ (wire_label l @ w), lmap @ new', j)"
      unfolding step IH(1) by (simp add: lmap'_def new'_def)
    ultimately show ?thesis using at low IH(2) by blast
  qed
qed

subsection \<open>The spelling of a name\<close>

text \<open>
  The two ways the callers write a name: with the final dot, and without it when no
  character is NUL and the last label does not itself end in a dot.
\<close>

definition spelling :: "byte list list \<Rightarrow> string \<Rightarrow> bool" where
  "spelling ls s \<longleftrightarrow> s = name_text ls \<or>
     (ls \<noteq> [] \<and> s = name_key ls \<and> CHR 0x00 \<notin> set s \<and> last s \<noteq> CHR ''.'')"

lemma spells_dotted:
  "spells (pre @ name_text ls) (length pre) ls"
proof (induction ls arbitrary: pre)
  case (Cons l ls)
  have "last (name_text (l # ls)) = CHR ''.''" using name_text_dot [of "l # ls"] by simp
  then have "last (pre @ name_text (l # ls)) = CHR ''.''" by (simp del: name_text_simps)
  moreover have "substr (pre @ name_text (l # ls)) (length pre) (length (pre @ name_text (l # ls)) - length pre - 1) = name_key (l # ls)"
    by (simp add: substr_def name_key_def butlast_conv_take del: name_text_simps)
  ultimately have "chopped_name (pre @ name_text (l # ls)) (length pre) = name_key (l # ls)"
    by (simp add: chopped_name_def del: name_text_simps)
  moreover have "c_part (pre @ name_text (l # ls)) (length pre) (length pre + length (label_text l)) = label_text l"
    using c_part_mid [of pre "label_text l"] by simp
  moreover have "spells (pre @ name_text (l # ls)) (length pre + Suc (length (label_text l))) ls"
    using Cons.IH [of "pre @ label_text l @ ''.''"] by simp
  ultimately show ?case by (simp del: name_text_simps)
qed simp

lemma name_key_Cons: "name_key (l # ls) = (if ls = [] then label_text l else label_text l @ CHR ''.'' # name_key ls)"
  by (simp add: name_key_def butlast_append)

lemma spells_undotted:
  assumes "CHR 0x00 \<notin> set (name_key ls)" "ls \<noteq> [] \<Longrightarrow> last (pre @ name_key ls) \<noteq> CHR ''.''" "list_all valid_label ls"
  shows "spells (pre @ name_key ls) (length pre) ls"
  using assms
proof (induction ls arbitrary: pre)
  case (Cons l ls)
  have "c_string (name_key (l # ls)) = name_key (l # ls)"
    using Cons.prems(1) by (auto simp: c_string_def takeWhile_eq_all_conv)
  then have "chopped_name (pre @ name_key (l # ls)) (length pre) = name_key (l # ls)"
    using Cons.prems(2) by (auto simp: chopped_name_def)
  moreover have "c_part (pre @ name_key (l # ls)) (length pre) (length pre + length (label_text l)) = label_text l"
    using c_part_mid [of pre "label_text l"] c_part_mid [of pre "label_text l" "[]"] by (simp add: name_key_Cons)
  moreover have "spells (pre @ name_key (l # ls)) (length pre + Suc (length (label_text l))) ls"
  proof (cases "ls = []")
    case False
    then show ?thesis
      using Cons.IH [of "pre @ label_text l @ ''.''"] Cons.prems by (simp add: name_key_Cons)
  qed simp
  ultimately show ?case by simp
qed simp

lemma labeltok_key:
  assumes "ls \<noteq> []" "list_all valid_label ls"
  shows "labeltokUnescape_loop (pre @ name_key ls) (length pre) (length pre) =
     (parts_of (length pre) ls, \<exists>l \<in> set ls. needs_escape l)"
  using assms
proof (induction ls arbitrary: pre)
  case (Cons l ls)
  show ?case
  proof (cases "ls = []")
    case True
    have "labeltokUnescape_loop (pre @ label_text l) (length pre + length (label_text l)) (length pre) =
        ([(length pre, length pre + length (label_text l))], False)"
      using Cons.prems(2) by (subst labeltokUnescape_loop.simps) (simp add: valid_label_def)
    with labeltok_label [of pre l "[]" "length pre"] True show ?thesis by (simp add: name_key_Cons)
  next
    case False
    have "labeltokUnescape_loop (pre @ name_key (l # ls)) (length pre + length (label_text l)) (length pre) =
        (let (parts, un) = labeltokUnescape_loop (pre @ name_key (l # ls)) (length pre + Suc (length (label_text l)))
           (length pre + Suc (length (label_text l))) in ((length pre, length pre + length (label_text l)) # parts, un))"
      using labeltok_step [of "pre @ label_text l" "CHR ''.''" "name_key ls" "length pre"] False by (simp add: ac_simps name_key_Cons)
    also have "labeltokUnescape_loop (pre @ name_key (l # ls)) (length pre + Suc (length (label_text l)))
           (length pre + Suc (length (label_text l))) =
        (parts_of (length pre + Suc (length (label_text l))) ls, \<exists>l \<in> set ls. needs_escape l)"
      using Cons.IH [of "pre @ label_text l @ ''.''"] Cons.prems False by (simp add: name_key_Cons)
    finally show ?thesis
      using labeltok_label [of pre l "CHR ''.'' # name_key ls" "length pre"] False by (auto simp: name_key_Cons)
  qed
qed simp

lemma spelling_parts:
  assumes "spelling ls s" "list_all valid_label ls"
  shows "labeltokUnescape s = (parts_of 0 ls, \<exists>l \<in> set ls. needs_escape l)" "spells s 0 ls" "s \<noteq> ''.''"
proof -
  show "labeltokUnescape s = (parts_of 0 ls, \<exists>l \<in> set ls. needs_escape l)"
    using assms labeltok_name [of "[]" ls] labeltok_key [of ls "[]"]
    by (auto simp: spelling_def labeltokUnescape_def)
  show "spells s 0 ls"
    using assms spells_dotted [of "[]" ls] spells_undotted [of ls "[]"] by (auto simp: spelling_def)
  show "s \<noteq> ''.''"
  proof
    assume s: "s = ''.''"
    then have "ls \<noteq> []" using assms(1) by (auto simp: spelling_def)
    then obtain l ls' where ls: "ls = l # ls'" by (cases ls) auto
    have "length (name_text ls) \<ge> 2"
      using assms(2) unfolding ls by (cases l) (auto simp: valid_label_def label_char_def)
    then have "name_text ls \<noteq> ''.''" by auto
    then show False using assms(1) s by (auto simp: spelling_def)
  qed
qed

subsection \<open>The writer's invariant\<close>

text \<open>
  Every entry of the label map leads to its name, in what is already in the packet or, while
  a record is being written, in what the packet will be once the ten bytes of the record
  header are in.
\<close>

definition pending_content :: "DNSPacketWriter \<Rightarrow> byte list \<Rightarrow> byte list" where
  "pending_content pw H = drop 12 (pw_content pw @ H @ pw_record pw)"

definition writer_ok :: "nat \<Rightarrow> DNSPacketWriter \<Rightarrow> bool" where
  "writer_ok D pw \<longleftrightarrow>
     12 \<le> length (pw_content pw) \<and> \<not> pw_lowerCase pw \<and>
     (if pw_record pw = []
      then \<forall>e \<in> set (pw_labelmap pw). entry_ok D (drop 12 (pw_content pw)) e
      else \<forall>H. length H = pw_stuff pw \<longrightarrow> (\<forall>e \<in> set (pw_labelmap pw). entry_ok D (pending_content pw H) e))"

lemma writer_ok_pending:
  assumes "writer_ok D pw" "length H = pw_stuff pw"
  shows "\<forall>e \<in> set (pw_labelmap pw). entry_ok D (pending_content pw H) e"
  using assms entry_ok_mono [of D "drop 12 (pw_content pw)" _ D H]
  by (auto simp: writer_ok_def pending_content_def split: if_splits)

text \<open>
  Writing a name: it is written without an error, the reader finds it where it was written,
  equal up to case, and the invariant survives with one more pointer allowed.
\<close>

lemma pw_xfrLabel_readable:
  assumes ok: "writer_ok D pw" and ls: "list_all valid_label ls" "spelling ls s"
  obtains pw' where "pw_xfrLabel s compress pw = Inr pw'" "writer_ok (Suc D) pw'"
    "pw_content pw' = pw_content pw" "pw_stuff pw' = pw_stuff pw" "pw_record pw' \<noteq> []"
    "\<And>H. length H = pw_stuff pw \<Longrightarrow> \<exists>ls' d. d \<le> Suc D \<and> lower_name ls' = lower_name ls \<and>
        name_at (pending_content pw' H) (length (pending_content pw H)) d ls'"
proof -
  note sp = spelling_parts [OF ls(2,1)]
  let ?un = "\<exists>l \<in> set ls. needs_escape l" and ?c = "if pw_canonic pw then False else compress"
  let ?pos = "length (pw_content pw) + length (pw_record pw) + pw_stuff pw"
  let ?run = "xfrLabel_parts s ?c ?un (parts_of 0 ls) (pw_record pw) (pw_labelmap pw) ?pos"
  have twelve: "12 \<le> length (pw_content pw)" and nolow: "\<not> pw_lowerCase pw" using ok by (simp_all add: writer_ok_def)
  have run: "\<exists>w new j ls' d. ?run = Inr (pw_record pw @ w, pw_labelmap pw @ new, j) \<and>
     d \<le> Suc D \<and> lower_name ls' = lower_name ls \<and>
     name_at (pending_content pw H @ w @ (if j then [] else [0])) (length (pending_content pw H)) d ls' \<and>
     (\<forall>e \<in> set new. entry_ok (Suc D) (pending_content pw H @ w @ (if j then [] else [0])) e)" if "length H = pw_stuff pw" for H
  proof (rule xfrLabel_parts_names [OF ls(1) sp(2)])
    show "\<forall>e\<in>set (pw_labelmap pw). entry_ok D (pending_content pw H) e \<or> length (name_key ls) < length (fst e)"
      using writer_ok_pending [OF ok that] by blast
    show "?pos = length (pending_content pw H) + 12"
      using that twelve by (simp add: pending_content_def)
  qed blast
  from run [of "replicate (pw_stuff pw) 0"] obtain w new j where
    w: "?run = Inr (pw_record pw @ w, pw_labelmap pw @ new, j)" by auto
  define w' where "w' = w @ (if j then [] else [0 :: byte])"
  define pw' where "pw' = pw\<lparr> pw_record := pw_record pw @ w', pw_labelmap := pw_labelmap pw @ new \<rparr>"
  have res: "pw_xfrLabel s compress pw = Inr pw'"
    using w nolow sp(1,3) by (simp add: pw_xfrLabel_def Let_def pw'_def w'_def)
  have pc: "pending_content pw' H = pending_content pw H @ w'" for H
    using twelve by (simp add: pending_content_def pw'_def)
  have found: "\<exists>ls' d. d \<le> Suc D \<and> lower_name ls' = lower_name ls \<and>
      name_at (pending_content pw' H) (length (pending_content pw H)) d ls' \<and>
      (\<forall>e \<in> set new. entry_ok (Suc D) (pending_content pw' H) e)" if "length H = pw_stuff pw" for H
    using run [OF that] unfolding w pc w'_def by auto
  have rec: "pw_record pw' \<noteq> []"
  proof
    assume "pw_record pw' = []"
    then have "pw_record pw = []" "w' = []" by (simp_all add: pw'_def)
    with found [of "replicate (pw_stuff pw) 0"] show False
      unfolding pc by (auto elim: name_at.cases simp: wire_label_def pointer_bytes_def Let_def)
  qed
  have ok': "writer_ok (Suc D) pw'"
  proof -
    have "\<forall>e \<in> set (pw_labelmap pw'). entry_ok (Suc D) (pending_content pw' H) e" if H: "length H = pw_stuff pw" for H
    proof -
      have "entry_ok (Suc D) (pending_content pw' H) e" if "e \<in> set (pw_labelmap pw)" for e
        unfolding pc using writer_ok_pending [OF ok H] that by (auto intro: entry_ok_mono)
      then show ?thesis using found [OF H] by (auto simp: pw'_def)
    qed
    then show ?thesis using twelve nolow unfolding writer_ok_def if_not_P [OF rec] by (simp add: pw'_def)
  qed
  show thesis
  proof (rule that [OF res ok' _ _ rec])
    show "\<exists>ls' d. d \<le> Suc D \<and> lower_name ls' = lower_name ls \<and>
        name_at (pending_content pw' H) (length (pending_content pw H)) d ls'" if "length H = pw_stuff pw" for H
      using found [OF that] by blast
  qed (simp_all add: pw'_def)
qed

text \<open>
  The writer's calls in the order its header asks for: a record is started, its data written,
  then committed (or committed by the next start).  The number counts the names written, and
  bounds the pointers.
\<close>

inductive writer_step :: "nat \<times> DNSPacketWriter \<Rightarrow> nat \<times> DNSPacketWriter \<Rightarrow> bool" where
  start: "list_all valid_label ls \<Longrightarrow> spelling ls s \<Longrightarrow> pw_record pw = [] \<or> pw_stuff pw = 10 \<Longrightarrow>
    pw_startRecord s qtype ttl qclass place pw = Inr pw' \<Longrightarrow> writer_step (D, pw) (Suc D, pw')"
| name: "list_all valid_label ls \<Longrightarrow> spelling ls s \<Longrightarrow> pw_stuff pw = 10 \<Longrightarrow>
    pw_xfrLabel s compress pw = Inr pw' \<Longrightarrow> writer_step (D, pw) (Suc D, pw')"
| data: "pw_stuff pw = 10 \<Longrightarrow> writer_step (D, pw) (D, pw_append bs pw)"
| commit: "pw_stuff pw = 10 \<Longrightarrow> pw_commit pw = Inr pw' \<Longrightarrow> writer_step (D, pw) (D, pw')"

inductive_cases writer_stepE: "writer_step a b"

lemma writer_ok_commit:
  assumes "writer_ok D pw" "pw_commit pw = Inr pw'" "pw_record pw = [] \<or> pw_stuff pw = 10"
  shows "writer_ok D pw'" "pw_record pw' = []"
proof -
  let ?H = "bytes_of_dnsrecordheader \<lparr> rh_type = pw_recordqtype pw, rh_class = pw_recordqclass pw, rh_ttl = pw_recordttl pw,
      rh_clen = word_of_nat (length (pw_record pw)) \<rparr>"
  have "pw' = pw\<lparr> pw_content := update_header (count_field (pw_recordplace pw)) (pw_content pw @ ?H @ pw_record pw),
      pw_stuff := 0, pw_record := [] \<rparr>"
    using assms(2) unfolding pw_commit_def Let_def by (simp split: if_split_asm)
  then obtain H where H: "length H = 10"
    "pw_content pw' = update_header (count_field (pw_recordplace pw)) (pw_content pw @ H @ pw_record pw)"
    "pw_record pw' = []" "pw_labelmap pw' = pw_labelmap pw" "pw_lowerCase pw' = pw_lowerCase pw"
    by (intro that [of ?H]) simp_all
  then have c: "drop 12 (pw_content pw') = pending_content pw H"
    by (simp add: update_header_def pending_content_def)
  have "\<forall>e \<in> set (pw_labelmap pw). entry_ok D (pending_content pw H) e"
  proof (cases "pw_record pw = []")
    case True
    then show ?thesis using assms(1) entry_ok_mono [of D "drop 12 (pw_content pw)" _ D H]
      by (auto simp: writer_ok_def pending_content_def)
  next
    case False
    then show ?thesis using writer_ok_pending [OF assms(1)] assms(3) H(1) by simp
  qed
  moreover have "12 \<le> length (pw_content pw')" unfolding H(2) by (simp add: update_header_def)
  ultimately show "writer_ok D pw'" using assms(1) H(3-5) by (simp add: writer_ok_def c)
  show "pw_record pw' = []" by (rule H(3))
qed

lemma writer_ok_append: "writer_ok D pw \<Longrightarrow> writer_ok D (pw_append bs pw)"
proof -
  assume ok: "writer_ok D pw"
  have "entry_ok D (pending_content (pw_append bs pw) H) e" if "e \<in> set (pw_labelmap pw)" "length H = pw_stuff pw" for H e
  proof -
    have "pending_content (pw_append bs pw) H = pending_content pw H @ bs"
      using ok by (simp add: pending_content_def pw_append_def writer_ok_def)
    then show ?thesis using writer_ok_pending [OF ok that(2)] that(1) by (auto intro: entry_ok_mono)
  qed
  then show ?thesis using ok by (auto simp: writer_ok_def pw_append_def split: if_splits)
qed

lemma writer_ok_mono: "writer_ok D pw \<Longrightarrow> D \<le> D' \<Longrightarrow> writer_ok D' pw"
  using entry_ok_mono [of D _ _ D' "[]"] by (auto simp: writer_ok_def split: if_splits)

lemma writer_ok_start:
  assumes "writer_ok D pw" "pw_record pw = [] \<or> pw_stuff pw = 10" "list_all valid_label ls" "spelling ls s"
    "pw_startRecord s qtype ttl qclass place pw = Inr pw'"
  shows "writer_ok (Suc D) pw'"
proof -
  obtain pw0 where pw0: "(if pw_record pw \<noteq> [] then pw_commit pw else Inr pw) = Inr pw0"
    using assms(5) by (auto simp: pw_startRecord_def simp del: if_splits)
  have ok0: "writer_ok D pw0" "pw_record pw0 = []"
    using pw0 assms(1,2) writer_ok_commit [of D pw pw0] by (auto split: if_splits)
  define pw1 where "pw1 = pw0\<lparr> pw_recordqname := s, pw_recordqtype := qtype, pw_recordqclass := qclass,
      pw_recordttl := ttl, pw_recordplace := place, pw_stuff := 0,
      pw_rollbackmarker := length (pw_content pw0) mod 65536 \<rparr>"
  have ok1: "writer_ok D pw1" "pw_record pw1 = []" "pw_stuff pw1 = 0"
    using ok0 by (simp_all add: writer_ok_def pw1_def)
  have res: "bindE (if pdns_iequals (pw_qname pw1) s then Inr (pw1\<lparr> pw_content := pw_content pw1 @ [0xc0, 0x0c] \<rparr>)
       else bindE (pw_xfrLabel s True pw1) (\<lambda>pw. Inr (pw\<lparr> pw_content := pw_content pw @ pw_record pw, pw_record := [] \<rparr>)))
     (\<lambda>pw. Inr (pw\<lparr> pw_stuff := 10, pw_sor := (length (pw_content pw) + 10) mod 65536 \<rparr>)) = Inr pw'"
    using assms(5) unfolding pw_startRecord_def pw0 bindE_simps Let_def pw1_def [symmetric]
    by (simp add: pw1_def)
  show ?thesis
  proof (cases "pdns_iequals (pw_qname pw1) s")
    case True
    then have "pw' = pw1\<lparr> pw_content := pw_content pw1 @ [0xc0, 0x0c], pw_stuff := 10,
        pw_sor := (length (pw_content pw1 @ [0xc0, 0x0c]) + 10) mod 65536 \<rparr>"
      using res by simp
    then show ?thesis using ok1 entry_ok_mono [of D "drop 12 (pw_content pw1)" _ "Suc D"]
      by (auto simp: writer_ok_def)
  next
    case False
    obtain pw2 where pw2: "pw_xfrLabel s True pw1 = Inr pw2" "writer_ok (Suc D) pw2"
        "pw_content pw2 = pw_content pw1" "pw_stuff pw2 = pw_stuff pw1" "pw_record pw2 \<noteq> []"
      using pw_xfrLabel_readable [OF ok1(1) assms(3,4), of True] by blast
    have "\<forall>e \<in> set (pw_labelmap pw2). entry_ok (Suc D) (drop 12 (pw_content pw2 @ pw_record pw2)) e"
      using writer_ok_pending [OF pw2(2), of "[]"] pw2(4) ok1(3) by (simp add: pending_content_def)
    moreover have "pw' = pw2\<lparr> pw_content := pw_content pw2 @ pw_record pw2, pw_record := [], pw_stuff := 10,
        pw_sor := (length (pw_content pw2 @ pw_record pw2) + 10) mod 65536 \<rparr>"
      using res False pw2(1) by simp
    ultimately show ?thesis using pw2(2) by (auto simp: writer_ok_def)
  qed
qed

lemma writer_step_ok:
  assumes "writer_step (D, pw) (D', pw')" "writer_ok D pw"
  shows "writer_ok D' pw'"
  using assms(1)
proof (cases rule: writer_step.cases)
  case start
  then show ?thesis using writer_ok_start assms(2) by blast
next
  case (name ls s compress)
  then show ?thesis using pw_xfrLabel_readable [OF assms(2) name(2,3), of compress] by fastforce
next
  case data
  then show ?thesis using writer_ok_append assms(2) by blast
next
  case commit
  then show ?thesis using writer_ok_commit assms(2) by blast
qed

lemma writer_steps_ok:
  assumes "writer_step\<^sup>*\<^sup>* (D, pw) (D', pw')" "writer_ok D pw"
  shows "writer_ok D' pw'"
  using assms
proof (induction "(D', pw')" arbitrary: D' pw' rule: rtranclp_induct)
  case (step y)
  then show ?case by (cases y) (auto intro: writer_step_ok)
qed simp

lemma writer_init_ok:
  assumes "list_all valid_label qs" "spelling qs q" "DNSPacketWriter_init mem q qtype qclass opcode = Inr pw"
  shows "writer_ok 1 pw"
proof -
  let ?hd = "(dnsheader_of (replicate 12 0))\<lparr> hdr_id := 0, hdr_qdcount := ntohs 1, hdr_opcode := ucast opcode \<rparr>"
  define pw0 where "pw0 = mem\<lparr> pw_content := bytes_of_dnsheader ?hd, pw_record := [], pw_qname := q,
      pw_qtype := qtype, pw_qclass := qclass, pw_labelmap := [], pw_stuff := 0, pw_canonic := False, pw_lowerCase := False \<rparr>"
  have "writer_ok 0 pw0" by (simp add: writer_ok_def pw0_def)
  then obtain pw1 where pw1: "pw_xfrLabel q False pw0 = Inr pw1" "writer_ok 1 pw1" "pw_stuff pw1 = 0"
    using pw_xfrLabel_readable [OF _ assms(1,2), of 0 pw0 False] by (auto simp: pw0_def)
  have "pw = pw1\<lparr> pw_content := pw_content pw1 @ pw_record pw1 @ be_bytes16 qtype @ be_bytes16 qclass,
      pw_record := [], pw_stuff := 0xffff \<rparr>"
    using assms(3) pw1(1) unfolding DNSPacketWriter_init_def Let_def pw0_def [symmetric] by simp
  moreover have "\<forall>e \<in> set (pw_labelmap pw1). entry_ok 1 (drop 12 (pw_content pw1 @ pw_record pw1)) e"
    using writer_ok_pending [OF pw1(2), of "[]"] pw1(3) by (simp add: pending_content_def)
  moreover have "12 \<le> length (pw_content pw1)" using pw1(2) by (simp add: writer_ok_def)
  ultimately show ?thesis
    using pw1(2) entry_ok_mono [of 1 "drop 12 (pw_content pw1 @ pw_record pw1)" _ 1 "be_bytes16 qtype @ be_bytes16 qclass"]
    by (auto simp: writer_ok_def)
qed

subsection \<open>Writing without compression\<close>

lemma xfrLabel_parts_plain:
  assumes "list_all valid_label ls" "spells s i ls" "un \<or> (\<forall>l \<in> set ls. \<not> needs_escape l)"
  shows "\<exists>lmap'. xfrLabel_parts s False un (parts_of i ls) rec lmap pos = Inr (rec @ wire_labels ls, lmap', False)"
  using assms
proof (induction ls arbitrary: i rec lmap pos)
  case (Cons l ls)
  have wp: "(if un then writer_unescape (label_text l) else label_text l) = map b2c l"
    using Cons.prems(1,3) by (intro written_part) auto
  have ch: "chopped_name s i = name_key (l # ls)" and part: "c_part s i (i + length (label_text l)) = label_text l"
    and sp: "spells s (i + Suc (length (label_text l))) ls" using Cons.prems(2) by simp_all
  have "\<exists>lmap'. xfrLabel_parts s False un (parts_of (i + Suc (length (label_text l))) ls) (rec @ wire_label l) lmap0 pos0 =
      Inr ((rec @ wire_label l) @ wire_labels ls, lmap', False)" for lmap0 pos0
    using Cons.prems sp by (intro Cons.IH) auto
  then show ?case
    using Cons.prems(1) unfolding parts_of.simps xfrLabel_parts.simps Let_def ch part wp option.case if_False
    by (simp add: wire_label_def valid_label_def comp_def)
qed simp

lemma pw_xfrLabel_plain:
  assumes "list_all valid_label ls" "spelling ls s" "\<not> pw_lowerCase pw"
  shows "\<exists>lmap'. pw_xfrLabel s False pw =
    Inr (pw\<lparr> pw_record := pw_record pw @ wire_labels ls @ [0], pw_labelmap := lmap' \<rparr>)"
proof -
  note sp = spelling_parts [OF assms(2,1)]
  obtain lmap' where "xfrLabel_parts s False (\<exists>l \<in> set ls. needs_escape l) (parts_of 0 ls) (pw_record pw) (pw_labelmap pw)
      (length (pw_content pw) + length (pw_record pw) + pw_stuff pw) = Inr (pw_record pw @ wire_labels ls, lmap', False)"
    using xfrLabel_parts_plain [OF assms(1) sp(2), of "\<exists>l \<in> set ls. needs_escape l" "pw_record pw" "pw_labelmap pw"
        "length (pw_content pw) + length (pw_record pw) + pw_stuff pw"] by auto
  then show ?thesis using assms(3) sp(1,3) unfolding pw_xfrLabel_def Let_def
    by (intro exI [of _ lmap']) simp
qed

subsection \<open>The two escapers\<close>

lemma replace_all_single: "replace_all [c] rep s = concat (map (\<lambda>x. if x = c then rep else [x]) s)"
  by (induction s) auto

lemma appendEscapedLabel_text: "appendEscapedLabel ret (map b2c l) = ret @ label_text l"
proof (cases "needs_escape l")
  case False
  then show ?thesis by (auto simp: appendEscapedLabel_def label_text_plain needs_escape_def)
next
  case True
  have "replace_all '' '' [CHR 0x5C, CHR ''0'', CHR ''3'', CHR ''2'']
      (replace_all ''.'' [CHR 0x5C, CHR ''.''] (replace_all [CHR 0x5C] [CHR 0x5C, CHR 0x5C] (map b2c l))) = label_text l"
    unfolding replace_all_single by (induction l) (auto simp: label_char_def)
  then show ?thesis using True by (auto simp: appendEscapedLabel_def needs_escape_def Let_def)
qed

text \<open>Memory that holds a packet.\<close>

definition memory_of :: "byte list \<Rightarrow> (nat \<Rightarrow> byte) \<Rightarrow> nat \<Rightarrow> byte" where
  "memory_of p beyond i = (if i < length p then p ! i else beyond i)"

lemma questionExpand_loop_wire:
  assumes "list_all valid_label ls" "p = pre @ wire_labels ls @ 0 # rest" "len = length p"
  shows "questionExpand_loop (memory_of p beyond) len (length pre) ret =
    Inr (length pre + length (wire_labels ls) + 1, 0, ret @ name_text ls)"
  using assms(1,2)
proof (induction ls arbitrary: pre ret)
  case Nil
  then show ?case by (subst questionExpand_loop.simps) (simp add: memory_of_def)
next
  case (Cons l ls)
  have l: "length l \<le> 63" "l \<noteq> []" using Cons.prems(1) by (simp_all add: valid_label_def)
  have u: "unat (memory_of p beyond (length pre)) = length l"
    using Cons.prems(2) label_len_word(1) [OF l(1)] by (simp add: memory_of_def wire_label_def nth_append)
  have m: "map (\<lambda>n. b2c (memory_of p beyond (length pre + 1 + n))) [0..<length l] = map b2c l"
    using Cons.prems(2) by (intro nth_equalityI) (auto simp: memory_of_def wire_label_def nth_append)
  have "questionExpand_loop (memory_of p beyond) len (length (pre @ wire_label l)) (ret @ label_text l @ ''.'') =
      Inr (length (pre @ wire_label l) + length (wire_labels ls) + 1, 0, (ret @ label_text l @ ''.'') @ name_text ls)"
    using Cons.prems by (intro Cons.IH) auto
  then show ?case
    using l u m Cons.prems(2) assms(3)
    by (subst questionExpand_loop.simps) (simp add: Let_def appendEscapedLabel_text)
qed

lemma name_at_loop:
  assumes "name_at c i d ls" "recurs \<le> 10" "10 < recurs + d"
  shows "getLabelFromContent c i ret recurs = Inl (MOADNSException ''Loop'')"
  using assms
proof (induction arbitrary: ret recurs rule: name_at.induct)
  case (root i c)
  then show ?case by simp
next
  case (label c pre l post i d ls)
  have "getLabelFromContent c i ret recurs =
      getLabelFromContent c (i + Suc (length l)) (ret @ label_text l @ ''.'') recurs"
    unfolding label.hyps(1,2) using label.prems label.hyps(3) by (intro getLabelFromContent_label) auto
  with label.IH [OF label.prems] show ?case by simp
next
  case (pointer c pre p post i d ls)
  obtain hi lo where b: "pointer_bytes p = [hi, lo]" by (simp add: pointer_bytes_def Let_def)
  have v: "hi AND 0xc0 = 0xc0" "256 * unat (hi AND 0x3f) + unat lo = unat p"
    using pointer_bytes_value [OF pointer.hyps(4) b] by auto
  then have "hi \<noteq> 0" by auto
  have "getLabelFromContent c (unat p - 12) ret (recurs + 1) = Inl (MOADNSException ''Loop'')"
  proof (cases "recurs + 1 \<le> 10")
    case True
    then show ?thesis using pointer.prems by (intro pointer.IH) auto
  next
    case False
    then show ?thesis by (subst getLabelFromContent.simps) simp
  qed
  moreover have "(256 * unat (hi AND 0x3f) + unat lo + 65536 - 12) mod 65536 = unat p - 12"
    unfolding v(2) using pointer.hyps(3,4) by (simp add: mod_if)
  ultimately show ?case
    using v(1) \<open>hi \<noteq> 0\<close> pointer.prems pointer.hyps(1,2)
    by (subst getLabelFromContent.simps) (simp add: at_def nth_append b)
qed

lemma name_at_shown:
  "name_at c i d ls \<Longrightarrow> d \<le> 10 \<Longrightarrow> \<exists>e. getLabelFromContent c i [] 0 = Inr (e, shown_name ls)"
  using getLabelFromContent_name_at [of c i d ls 0 "[]"] by (simp add: shown_name_def split: if_splits)

subsection \<open>Properties\<close>

text \<open>
  Property C24.  Whatever records were written before, a name written with or without
  compression is read back by the packet reader, at the place where it was written, with the
  same labels up to case: every compression pointer the writer stores leads to the right
  name.  The header bytes \<open>H\<close> that come between the packet and the record are arbitrary, and
  fewer than ten names were written before, so that the reader's limit on pointers holds.
\<close>

theorem written_name_readable:
  assumes "list_all valid_label qs" "spelling qs q" "DNSPacketWriter_init mem q qtype qclass opcode = Inr pw0"
    and "writer_step\<^sup>*\<^sup>* (1, pw0) (D, pw)" "D < 10" and "list_all valid_label ls" "spelling ls s"
  shows "\<exists>pw'. pw_xfrLabel s compress pw = Inr pw' \<and>
    (\<forall>H. length H = pw_stuff pw \<longrightarrow>
      (\<exists>ls' e. lower_name ls' = lower_name ls \<and>
        getLabelFromContent (pending_content pw' H) (length (pending_content pw H)) [] 0 = Inr (e, shown_name ls')))"
proof -
  have "writer_ok D pw" using writer_steps_ok [OF assms(4) writer_init_ok [OF assms(1-3)]] .
  from pw_xfrLabel_readable [OF this assms(6,7), of compress] obtain pw' where pw': "pw_xfrLabel s compress pw = Inr pw'"
    "\<And>H. length H = pw_stuff pw \<Longrightarrow> \<exists>ls' d. d \<le> Suc D \<and> lower_name ls' = lower_name ls \<and>
        name_at (pending_content pw' H) (length (pending_content pw H)) d ls'" by blast
  have "\<exists>ls' e. lower_name ls' = lower_name ls \<and>
      getLabelFromContent (pending_content pw' H) (length (pending_content pw H)) [] 0 = Inr (e, shown_name ls')"
    if "length H = pw_stuff pw" for H
    using pw'(2) [OF that] assms(5) name_at_shown by (metis le_trans Suc_leI)
  then show ?thesis using pw'(1) by blast
qed

definition example_writer :: DNSPacketWriter where
  "example_writer =
     \<lparr> pw_content = [], pw_record = [], pw_qname = [], pw_qtype = 0, pw_qclass = 0, pw_recordqname = [],
       pw_recordqtype = 0, pw_recordqclass = 0, pw_recordttl = 0, pw_labelmap = [], pw_stuff = 0, pw_sor = 0,
       pw_rollbackmarker = 0, pw_recordplace = ANSWER, pw_canonic = False, pw_lowerCase = False \<rparr>"

theorem written_name_readable_witness:
  "\<exists>pw0 pw'. DNSPacketWriter_init example_writer ''a.'' 1 1 0 = Inr pw0 \<and> pw_xfrLabel ''A'' True pw0 = Inr pw' \<and>
    (\<exists>ls' e. lower_name ls' = [[97]] \<and>
      getLabelFromContent (pending_content pw' (replicate 0xffff 0)) (length (pending_content pw0 (replicate 0xffff 0))) [] 0
        = Inr (e, shown_name ls'))"
proof -
  have b: "b2c 97 = CHR ''a''" "b2c 65 = CHR ''A''" by (simp_all add: b2c_eq_iff c2b_def)
  have v: "list_all valid_label [[97]]" "list_all valid_label [[65]]" by (simp_all add: valid_label_def)
  have q: "spelling [[97]] ''a.''" "spelling [[65]] ''A''"
    by (simp_all add: spelling_def name_key_def label_char_def b)
  obtain pw0 where pw0: "DNSPacketWriter_init example_writer ''a.'' 1 1 0 = Inr pw0" "pw_stuff pw0 = 0xffff"
  proof -
    define m where "m = example_writer\<lparr> pw_content := bytes_of_dnsheader ((dnsheader_of (replicate 12 0))\<lparr> hdr_id := 0,
        hdr_qdcount := ntohs 1, hdr_opcode := ucast (0 :: byte) \<rparr>), pw_record := [], pw_qname := ''a.'', pw_qtype := 1,
        pw_qclass := 1, pw_labelmap := [], pw_stuff := 0, pw_canonic := False, pw_lowerCase := False \<rparr>"
    have "\<not> pw_lowerCase m" by (simp add: m_def)
    from pw_xfrLabel_plain [OF v(1) q(1) this] obtain lmap where
      "pw_xfrLabel ''a.'' False m = Inr (m\<lparr> pw_record := pw_record m @ wire_labels [[97]] @ [0], pw_labelmap := lmap \<rparr>)" by blast
    then have "\<exists>pw0. DNSPacketWriter_init example_writer ''a.'' 1 1 0 = Inr pw0 \<and> pw_stuff pw0 = 0xffff"
      unfolding DNSPacketWriter_init_def Let_def m_def [symmetric] by simp
    then show thesis using that by blast
  qed
  from written_name_readable [OF v(1) q(1) pw0(1) rtranclp.rtrancl_refl _ v(2) q(2), of True]
  have "\<exists>pw'. pw_xfrLabel ''A'' True pw0 = Inr pw' \<and>
    (\<forall>H. length H = pw_stuff pw0 \<longrightarrow>
      (\<exists>ls' e. lower_name ls' = lower_name [[65]] \<and>
        getLabelFromContent (pending_content pw' H) (length (pending_content pw0 H)) [] 0 = Inr (e, shown_name ls')))"
    by simp
  moreover have "lower_name [[65]] = [[97]]" by (simp add: lower_byte_def b dns_tolower_def c2b_def ucode_def)
  ultimately show ?thesis using pw0 by (metis length_replicate)
qed

text \<open>
  The reader follows ten compression pointers and no more: a name that can be
  read through \<open>d\<close> pointers is returned when \<open>d\<close> is at most 10, and refused as a loop otherwise,
  although it is finite.
\<close>

theorem pointer_limit:
  assumes "name_at c i d ls"
  shows "if d \<le> 10 then \<exists>e. getLabelFromContent c i [] 0 = Inr (e, shown_name ls)
         else getLabelFromContent c i [] 0 = Inl (MOADNSException ''Loop'')"
  using name_at_shown [OF assms] name_at_loop [OF assms, of 0 "[]"] by simp

theorem pointer_limit_witness:
  "\<exists>e. getLabelFromContent [1, 97, 0, 0xc0, 0x0c] 3 [] 0 = Inr (e, ''a.'')"
proof -
  have l: "name_at [1, 97, 0, 0xc0, 0x0c] 0 0 [[97]]"
    by (rule name_at.label [where pre = "[]" and post = "[0, 0xc0, 0x0c]"])
      (auto simp: wire_label_def valid_label_def intro: name_at.root)
  have "name_at [1, 97, 0, 0xc0, 0x0c] 3 1 [[97]]"
    using name_at.pointer [where pre = "[1, 97, 0]" and post = "[]" and p = 12, of "[1, 97, 0, 0xc0, 0x0c]" 3 0 "[[97]]"] l
    by (simp add: pointer_bytes_def Let_def)
  moreover have "b2c 97 = CHR ''a''" by (simp add: b2c_eq_iff c2b_def)
  then have "shown_name [[97]] = ''a.''" by (simp add: shown_name_def label_char_def)
  ultimately show ?thesis using pointer_limit by fastforce
qed

text \<open>
  Property C25. After fewer than ten names were written, in the question or in any records, a name written with
  or without compression is read back by the packet reader, at the place where it was written, with the
  same labels up to case: every compression pointer the writer stores leads to the right name. The header
  bytes \<open>H\<close> that come between the packet and the record are arbitrary. The bound keeps the chain of pointers
  within the limit of the reader; the writer has no such limit, and from the eleventh name on a chain can be
  too long to be read (\<open>pointer_limit\<close>).
\<close>

theorem name_roundtrip:
  assumes "list_all valid_label ls" "spelling ls s" "\<not> pw_lowerCase pw"
  shows "\<exists>pw'. pw_xfrLabel s False pw = Inr pw' \<and> pw_record pw' = pw_record pw @ wire_labels ls @ [0] \<and>
    getLabelFromContent (pre @ wire_labels ls @ 0 # rest) (length pre) [] 0 =
      Inr (length pre + length (wire_labels ls) + 1, shown_name ls) \<and>
    (length pre = 12 \<longrightarrow>
      questionExpand (memory_of (pre @ wire_labels ls @ 0 # hi # lo # rest) beyond) (length (pre @ wire_labels ls @ 0 # hi # lo # rest))
        = Inr (shown_name ls, word_of_nat (unat hi * 256 + unat lo)))"
proof -
  let ?p = "pre @ wire_labels ls @ 0 # hi # lo # rest"
  have "questionExpand (memory_of ?p beyond) (length ?p) = Inr (shown_name ls, word_of_nat (unat hi * 256 + unat lo))"
    if "length pre = 12"
  proof -
    have first: "memory_of ?p beyond 12 = 0 \<longleftrightarrow> ls = []"
    proof (cases ls)
      case (Cons l ls')
      then have "length l \<le> 63" "l \<noteq> []" using assms(1) by (simp_all add: valid_label_def)
      then show ?thesis using Cons that label_len_word(3) [of l] by (simp add: memory_of_def wire_label_def nth_append)
    qed (use that in \<open>simp add: memory_of_def nth_append\<close>)
    have "questionExpand_loop (memory_of ?p beyond) (length ?p) 12 ret =
        Inr (12 + length (wire_labels ls) + 1, 0, ret @ name_text ls)" for ret
      using questionExpand_loop_wire [OF assms(1) refl refl, of pre "hi # lo # rest" beyond ret] that by simp
    moreover have "memory_of ?p beyond (12 + length (wire_labels ls) + 1) = hi"
      "memory_of ?p beyond (12 + length (wire_labels ls) + 2) = lo"
      using that by (simp_all add: memory_of_def nth_append)
    ultimately show ?thesis
      using that first by (simp add: questionExpand_def shown_name_def)
  qed
  then show ?thesis
    using pw_xfrLabel_plain [OF assms] getLabelFromContent_wire [OF assms(1), of pre rest] by auto
qed

theorem name_roundtrip_witness:
  "\<exists>pw'. pw_xfrLabel (name_text [[0x2E, 0x20]]) False example_writer = Inr pw' \<and> pw_record pw' = [2, 0x2E, 0x20, 0]"
proof -
  have v: "list_all valid_label [[0x2E, 0x20]]" by (simp add: valid_label_def)
  have s: "spelling [[0x2E, 0x20]] (name_text [[0x2E, 0x20]])" by (simp add: spelling_def)
  have "\<not> pw_lowerCase example_writer" by (simp add: example_writer_def)
  from name_roundtrip [OF v s this] obtain pw' where
    "pw_xfrLabel (name_text [[0x2E, 0x20]]) False example_writer = Inr pw'"
    "pw_record pw' = pw_record example_writer @ wire_labels [[0x2E, 0x20]] @ [0]" by blast
  moreover have "pw_record example_writer @ wire_labels [[0x2E, 0x20]] @ [0] = [2, 0x2E, 0x20, 0]"
    by (simp add: example_writer_def wire_label_def)
  ultimately show ?thesis by auto
qed

text \<open>
  The text form is ambiguous for the writer: the label of the four bytes
  \<open>\032\<close>, which the reader prints as an escaped backslash and \<open>032\<close>, is written back as the two
  bytes backslash and space, because the escape for a space is undone before the escaped
  backslash is.
\<close>

theorem backslash_032_rewritten:
  "shown_name [[0x5C, 0x30, 0x33, 0x32]] = CHR 0x5C # CHR 0x5C # ''032.'' \<and>
   (\<exists>pw'. pw_xfrLabel (shown_name [[0x5C, 0x30, 0x33, 0x32]]) False pw = Inr pw' \<and>
      pw_record pw' = pw_record pw @ [2, 0x5C, 0x20, 0])"
proof -
  have s: "shown_name [[0x5C, 0x30, 0x33, 0x32]] = CHR 0x5C # CHR 0x5C # ''032.''"
  proof -
    have "b2c 0x5C = CHR 0x5C" "b2c 0x30 = CHR ''0''" "b2c 0x33 = CHR ''3''" "b2c 0x32 = CHR ''2''"
      by (simp_all add: b2c_eq_iff c2b_def)
    then show ?thesis by (simp add: shown_name_def label_char_def)
  qed
  have low: "toLower (CHR 0x5C # CHR 0x5C # ''032.'') = CHR 0x5C # CHR 0x5C # ''032.''" by simp
  have parts: "labeltokUnescape (CHR 0x5C # CHR 0x5C # ''032.'') = ([(0, 5)], True)"
    by (simp add: labeltokUnescape_def labeltokUnescape_loop.simps)
  have un: "writer_unescape (c_part (CHR 0x5C # CHR 0x5C # ''032.'') 0 5) = [CHR 0x5C, CHR '' '']"
    by (simp add: writer_unescape_def c_part_def substr_def)
  show ?thesis
    unfolding s by (simp add: pw_xfrLabel_def Let_def low parts un c2b_def del: toLower_Nil)
qed

end
