(* ===== verification/Timegm.thy ===== *)
theory Timegm
  imports Prelude
begin

text \<open>
  The calendar of \<open>unix_utility.cc\<close>: \<open>isleap\<close> and \<open>Utility::timegm\<close>, which RRSIG times are read
  with.  A date outside the table of months reads outside the array.
\<close>

record tm =
  tm_year :: int
  tm_mon :: int
  tm_mday :: int
  tm_hour :: int
  tm_min :: int
  tm_sec :: int

definition isleap :: "int \<Rightarrow> bool" where
  "isleap year \<longleftrightarrow> year mod 4 = 0 \<and> (year mod 100 \<noteq> 0 \<or> year mod 400 = 0)"

definition spm :: "int list" where
  "spm = [0, 31, 59, 90, 120, 151, 181, 212, 243, 273, 304, 334, 365]"

definition spm_at :: "int \<Rightarrow> int result" where
  "spm_at i = (if 0 \<le> i \<and> i < 13 then Inr (spm ! nat i) else Inl UndefinedBehaviour)"

text \<open>The division of C rounds to zero, which matters for years before 1970; what else is divided is positive.\<close>

definition quotient :: "int \<Rightarrow> int \<Rightarrow> int" where
  "quotient a b = (if a < 0 then - (- a div b) else a div b)"

definition timegm_carry :: "tm \<Rightarrow> tm" where
  "timegm_carry t =
     (let t = (if tm_sec t > 60 then t\<lparr> tm_min := tm_min t + tm_sec t div 60, tm_sec := tm_sec t mod 60 \<rparr> else t);
          t = (if tm_min t > 60 then t\<lparr> tm_hour := tm_hour t + tm_min t div 60, tm_min := tm_min t mod 60 \<rparr> else t);
          t = (if tm_hour t > 60 then t\<lparr> tm_mday := tm_mday t + tm_hour t div 60, tm_hour := tm_hour t mod 60 \<rparr> else t)
      in if tm_mon t > 12 then t\<lparr> tm_year := tm_year t + tm_mon t div 12, tm_mon := tm_mon t mod 12 \<rparr> else t)"

lemma spm_at_mono: "spm_at i = Inr v \<Longrightarrow> 0 \<le> i \<and> 0 \<le> v \<and> (0 < i \<longrightarrow> 31 \<le> v)"
proof -
  have "list_all (\<lambda>k. 0 \<le> spm ! k \<and> (0 < k \<longrightarrow> 31 \<le> spm ! k)) [0..<13]" by (simp add: spm_def upt_rec)
  then show "spm_at i = Inr v \<Longrightarrow> 0 \<le> i \<and> 0 \<le> v \<and> (0 < i \<longrightarrow> 31 \<le> v)"
    by (auto simp: spm_at_def list_all_iff split: if_splits dest!: bspec [where x = "nat i"])
qed

text \<open>The loop over the months; \<open>tm_mon == 31 + 29\<close> never holds, so it never breaks.\<close>

function timegm_months :: "int \<Rightarrow> int \<Rightarrow> int \<Rightarrow> (int \<times> int \<times> int) result" where
  "timegm_months year mon mday =
     bindE (spm_at (1 + mon)) (\<lambda>limit.
       if mday > limit then
         bindE (spm_at mon) (\<lambda>days.
           let mday' = (if mon = 1 \<and> isleap (year + 1900) then mday - 1 else mday) - days
           in if mon + 1 > 11 then timegm_months (year + 1) 0 mday' else timegm_months year (mon + 1) mday')
       else Inr (year, mon, mday))"
  by pat_completeness auto
termination
  by (relation "measure (\<lambda>(year, mon, mday). nat (2 * mday) + (if mon = 0 then 1 else 0))")
     (auto dest!: spm_at_mono split: if_splits)

declare timegm_months.simps [simp del]

definition timegm :: "tm \<Rightarrow> int result" where
  "timegm t0 =
     (let t = timegm_carry t0; years = tm_year t0 - 70
      in bindE (timegm_months (tm_year t) (tm_mon t) (tm_mday t)) (\<lambda>(year, mon, mday).
           if year < 70 then Inr (-1)
           else let day = years * 365 + quotient (years + 1) 4;
                    day = (if years - 131 \<ge> 0
                           then let c = (years - 131) div 100;
                                    day = day - ((c div 4) * 3 + 1);
                                    r = c mod 4
                                in day - (if r = 3 then r - 1 else r)
                           else day)
                in bindE (spm_at mon) (\<lambda>before.
                     let day = day + before + mday - 1 + (if isleap (year + 1900) \<and> mon > 1 then 1 else 0)
                     in Inr (((day * 24 + tm_hour t) * 60 + tm_min t) * 60 + tm_sec t))))"

subsection \<open>The calendar as it should be\<close>

definition days_in_year :: "int \<Rightarrow> int" where
  "days_in_year y = (if isleap y then 366 else 365)"

fun days_before_year :: "nat \<Rightarrow> int" where
  "days_before_year 0 = 0"
| "days_before_year (Suc n) = days_before_year n + days_in_year (1970 + int n)"

definition month_days :: "int \<Rightarrow> nat \<Rightarrow> int" where
  "month_days y m = (if m = 1 then (if isleap y then 29 else 28) else if m \<in> {3, 5, 8, 10} then 30 else 31)"

fun days_before_month :: "int \<Rightarrow> nat \<Rightarrow> int" where
  "days_before_month y 0 = 0"
| "days_before_month y (Suc m) = days_before_month y m + month_days y m"

text \<open>The seconds from the start of 1970 to a date: year \<open>1970 + n\<close>, month from 0, day from 1.\<close>

definition epoch_seconds :: "nat \<Rightarrow> nat \<Rightarrow> int \<Rightarrow> int \<Rightarrow> int \<Rightarrow> int \<Rightarrow> int" where
  "epoch_seconds n m d h mi s =
     (((days_before_year n + days_before_month (1970 + int n) m + d - 1) * 24 + h) * 60 + mi) * 60 + s"

definition date_ok :: "nat \<Rightarrow> nat \<Rightarrow> int \<Rightarrow> int \<Rightarrow> int \<Rightarrow> int \<Rightarrow> bool" where
  "date_ok n m d h mi s \<longleftrightarrow>
     m < 12 \<and> 1 \<le> d \<and> d \<le> month_days (1970 + int n) m \<and> 0 \<le> h \<and> h < 24 \<and> 0 \<le> mi \<and> mi < 60 \<and> 0 \<le> s \<and> s < 60"

lemma days_before_month_spm:
  "m < 12 \<Longrightarrow> days_before_month y m = spm ! m + (if isleap y \<and> 1 < m then 1 else 0)"
proof -
  have "list_all (\<lambda>m. days_before_month y m = spm ! m + (if isleap y \<and> 1 < m then 1 else 0)) [0..<12]"
    by (simp add: upt_rec spm_def month_days_def numeral_eq_Suc)
  then show "m < 12 \<Longrightarrow> days_before_month y m = spm ! m + (if isleap y \<and> 1 < m then 1 else 0)"
    by (simp add: list_all_iff)
qed

text \<open>Up to the year 2100 every fourth year is a leap year; 2100 is not, and the code corrects from 2101 on.\<close>

lemma mod_century:
  assumes "(a :: int) mod 100 = 0" "a \<le> y" "y < a + 100"
  shows "y mod 100 = y - a"
proof -
  have "y mod 100 = (a + (y - a)) mod 100" by simp
  also have "\<dots> = (y - a) mod 100" using assms(1) by (metis add.left_neutral mod_add_left_eq)
  also have "\<dots> = y - a" using assms by (intro mod_pos_pos_trivial) auto
  finally show ?thesis .
qed

lemma isleap_fourth:
  assumes "1970 \<le> y" "y < 2200" "y \<noteq> 2100"
  shows "isleap y \<longleftrightarrow> y mod 4 = 0"
proof -
  consider "y = 2000" | "y < 2000" | "2000 < y" "y < 2100" | "2100 < y" using assms by linarith
  then show ?thesis
  proof cases
    case 1
    then show ?thesis by (simp add: isleap_def)
  next
    case 2
    then show ?thesis using mod_century [of 1900 y] assms by (simp add: isleap_def)
  next
    case 3
    then show ?thesis using mod_century [of 2000 y] by (simp add: isleap_def)
  next
    case 4
    then show ?thesis using mod_century [of 2100 y] assms by (simp add: isleap_def)
  qed
qed

lemma div4_step: "((n :: int) + 2) div 4 = (n + 1) div 4 + (if (1970 + n) mod 4 = 0 then 1 else 0)"
  by presburger

lemma days_before_year_2100:
  "n \<le> 130 \<Longrightarrow> days_before_year n = int n * 365 + (int n + 1) div 4"
proof (induction n)
  case (Suc n)
  then show ?case
    using isleap_fourth [of "1970 + int n"] div4_step [of "int n"] by (simp add: days_in_year_def algebra_simps)
qed simp

lemma days_before_year_2200:
  assumes "131 \<le> n" "n \<le> 230"
  shows "days_before_year n = int n * 365 + (int n + 1) div 4 - 1"
  using assms
proof (induction n rule: dec_induct)
  case base
  have "isleap 2100 = False" by (simp add: isleap_def)
  have e: "(131 :: nat) = Suc 130" by simp
  show ?case
    unfolding e days_before_year.simps using days_before_year_2100 [of 130] \<open>isleap 2100 = False\<close>
    by (simp add: days_in_year_def)
next
  case (step n)
  then show ?case
    using isleap_fourth [of "1970 + int n"] div4_step [of "int n"] by (simp add: days_in_year_def algebra_simps)
qed

lemma timegm_carry_ok: "date_ok n m d h mi s \<Longrightarrow>
   timegm_carry \<lparr> tm_year = 70 + int n, tm_mon = int m, tm_mday = d, tm_hour = h, tm_min = mi, tm_sec = s \<rparr> =
     \<lparr> tm_year = 70 + int n, tm_mon = int m, tm_mday = d, tm_hour = h, tm_min = mi, tm_sec = s \<rparr>"
  by (simp add: timegm_carry_def date_ok_def)

lemma timegm_months_ok:
  assumes "m < 12" "d \<le> 31"
  shows "timegm_months y (int m) d = Inr (y, int m, d)"
proof -
  have "spm_at (1 + int m) = Inr (spm ! Suc m)" using assms(1) by (simp add: spm_at_def nat_add_distrib)
  moreover have "31 \<le> spm ! Suc m"
    using spm_at_mono [OF calculation] by simp
  ultimately show ?thesis using assms(2) by (subst timegm_months.simps) simp
qed

lemma timegm_epoch:
  assumes "date_ok n m d h mi s" "n \<le> 230"
  shows "timegm \<lparr> tm_year = 70 + int n, tm_mon = int m, tm_mday = d, tm_hour = h, tm_min = mi, tm_sec = s \<rparr> =
    Inr (epoch_seconds n m d h mi s)"
proof -
  have m: "m < 12" "d \<le> 31" using assms(1) by (auto simp: date_ok_def month_days_def split: if_splits)
  have y: "int n * 365 + (int n + 1) div 4 - (if int n - 131 \<ge> 0 then ((int n - 131) div 100) div 4 * 3 + 1 +
      (if ((int n - 131) div 100) mod 4 = 3 then ((int n - 131) div 100) mod 4 - 1 else ((int n - 131) div 100) mod 4) else 0)
      = days_before_year n"
  proof (cases "n \<le> 130")
    case True
    then show ?thesis by (simp add: days_before_year_2100)
  next
    case False
    then have "(int n - 131) div 100 = 0" using assms(2) by simp
    then show ?thesis using False assms(2) by (simp add: days_before_year_2200)
  qed
  have "spm_at (int m) = Inr (spm ! m)" using m(1) by (simp add: spm_at_def)
  then show ?thesis
    using y m(1)
    by (simp add: timegm_def Let_def timegm_carry_ok [OF assms(1)] timegm_months_ok [OF m] epoch_seconds_def quotient_def
        days_before_month_spm) (simp add: algebra_simps)
qed

subsection \<open>Properties\<close>

text \<open>
  Property C30.  For every date from 1970 to 2200, \<open>timegm\<close> counts the seconds of the Gregorian
  calendar, through the leap days and the exception of the year 2100: so every 32-bit time
  stamp of a signature is represented.
\<close>

theorem timegm_calendar:
  "date_ok n m d h mi s \<Longrightarrow> n \<le> 230 \<Longrightarrow>
   timegm \<lparr> tm_year = 70 + int n, tm_mon = int m, tm_mday = d, tm_hour = h, tm_min = mi, tm_sec = s \<rparr> =
     Inr (epoch_seconds n m d h mi s)"
  by (rule timegm_epoch)

theorem timegm_calendar_witness:
  "timegm \<lparr> tm_year = 72, tm_mon = 2, tm_mday = 1, tm_hour = 0, tm_min = 0, tm_sec = 1 \<rparr> = Inr 68256001"
proof -
  have "date_ok 2 2 1 0 0 1" by (simp add: date_ok_def month_days_def)
  from timegm_calendar [OF this] show ?thesis
    by (simp add: epoch_seconds_def days_in_year_def isleap_def month_days_def numeral_eq_Suc)
qed

end
