(* ===== verification/RecordText.thy ===== *)
theory RecordText
  imports Timegm Base32 Base64 PacketReader
begin

text \<open>
  Record contents as text: \<open>RecordTextReader\<close> and \<open>RecordTextWriter\<close> of \<open>rcpgenerator.cc\<close>.
  The type names come from a table that the record types register themselves in; the two
  look-ups, and \<open>gmtime_r\<close> of the C library, are parameters.
\<close>

subsection \<open>Reader\<close>

record RecordTextReader =
  rt_string :: string
  rt_zone :: string
  rt_pos :: nat

type_synonym 'a text_reader = "RecordTextReader \<Rightarrow> ('a \<times> RecordTextReader) result"

definition RecordTextReader_init :: "string \<Rightarrow> string \<Rightarrow> RecordTextReader" where
  "RecordTextReader_init str zone = \<lparr> rt_string = str, rt_zone = zone, rt_pos = 0 \<rparr>"

definition rt_eof :: "RecordTextReader \<Rightarrow> bool" where
  "rt_eof r \<longleftrightarrow> rt_pos r = length (rt_string r)"

text \<open>A text between single quotes, as the messages have it.\<close>

definition quoted :: "string \<Rightarrow> string" where
  "quoted s = [CHR 0x27] @ s @ [CHR 0x27]"

text \<open>The position after the characters that satisfy \<open>P\<close>.\<close>

definition skip_while :: "(char \<Rightarrow> bool) \<Rightarrow> string \<Rightarrow> nat \<Rightarrow> nat" where
  "skip_while P s pos = pos + length (takeWhile P (drop pos s))"

definition skipSpaces :: "RecordTextReader \<Rightarrow> RecordTextReader result" where
  "skipSpaces r =
     (let pos = skip_while dns_isspace (rt_string r) (rt_pos r)
      in if pos = length (rt_string r)
         then Inl (RecordTextException (''missing field at the end of record content '' @ quoted (rt_string r)))
         else Inr (r\<lparr> rt_pos := pos \<rparr>))"

definition digits_expected :: "RecordTextReader \<Rightarrow> exn" where
  "digits_expected r =
     RecordTextException (''expected digits at position '' @ show_nat (rt_pos r) @ '' in '' @ quoted (rt_string r))"

definition rt_xfr64BitInt :: "u64 text_reader" where
  "rt_xfr64BitInt r =
     bindE (skipSpaces r) (\<lambda>r. bindE (at (rt_string r) (rt_pos r)) (\<lambda>c.
       if \<not> isdigit c then Inl (digits_expected r)
       else let (v, n) = strtoul (drop (rt_pos r) (rt_string r)) in Inr (v, r\<lparr> rt_pos := rt_pos r + n \<rparr>)))"

definition rt_xfr48BitInt :: "u64 text_reader" where
  "rt_xfr48BitInt = rt_xfr64BitInt"

definition rt_xfr32BitInt :: "u32 text_reader" where
  "rt_xfr32BitInt r =
     bindE (skipSpaces r) (\<lambda>r. bindE (at (rt_string r) (rt_pos r)) (\<lambda>c.
       if \<not> isdigit c then Inl (digits_expected r)
       else let (v, n) = strtoul (drop (rt_pos r) (rt_string r)) in Inr (ucast v, r\<lparr> rt_pos := rt_pos r + n \<rparr>)))"

definition rt_xfr16BitInt :: "u16 text_reader" where
  "rt_xfr16BitInt r =
     bindE (rt_xfr32BitInt r) (\<lambda>(tmp, r).
       if ucast (ucast tmp :: u16) \<noteq> tmp
       then Inl (RecordTextException ''Overflow reading 16 bit integer from record content'')
       else Inr (ucast tmp, r))"

definition rt_xfr8BitInt :: "byte text_reader" where
  "rt_xfr8BitInt r =
     bindE (rt_xfr32BitInt r) (\<lambda>(tmp, r).
       if ucast (ucast tmp :: byte) \<noteq> tmp
       then Inl (RecordTextException ''Overflow reading 8 bit integer from record content'')
       else Inr (ucast tmp, r))"

text \<open>The dotted quad: \<open>val\<close>, the current octet and the dots seen.\<close>

function rt_xfrIP_loop :: "string \<Rightarrow> nat \<Rightarrow> u32 \<Rightarrow> u32 \<Rightarrow> nat \<Rightarrow> (nat \<times> u32 \<times> u32 \<times> nat) result" where
  "rt_xfrIP_loop s pos val octet count =
     bindE (at s pos) (\<lambda>c.
       if c = CHR ''.'' then
         (let val = push_bit 8 val + octet; count = count + 1
          in if count > 3 then Inr (pos, val, 0, count)
             else if pos + 1 = length s then Inr (pos + 1, val, 0, count)
             else rt_xfrIP_loop s (pos + 1) val 0 count)
       else if isdigit c then
         (let octet = octet * 10 + word_of_nat (digit_val c)
          in if octet > 255 then Inl (RecordTextException ''unable to parse IP address'')
             else if pos + 1 = length s then Inr (pos + 1, val, octet, count)
             else rt_xfrIP_loop s (pos + 1) val octet count)
       else if dns_isspace c then Inr (pos, val, octet, count)
       else Inl (RecordTextException (''unable to parse IP address, strange character: '' @ [c])))"
  by pat_completeness auto
termination
  by (relation "measure (\<lambda>(s, pos, val, octet, count). length s - pos)") auto

declare rt_xfrIP_loop.simps [simp del]

definition rt_xfrIP :: "u32 text_reader" where
  "rt_xfrIP r =
     bindE (skipSpaces r) (\<lambda>r. bindE (at (rt_string r) (rt_pos r)) (\<lambda>c.
       if \<not> isdigit c
       then Inl (RecordTextException (''while parsing IP address, expected digits at position ''
                  @ show_nat (rt_pos r) @ '' in '' @ quoted (rt_string r)))
       else bindE (rt_xfrIP_loop (rt_string r) (rt_pos r) 0 0 0) (\<lambda>(pos, val, octet, count).
              let val = (if count \<le> 3 then push_bit 8 val + octet else val)
              in Inr (htonl val, r\<lparr> rt_pos := pos \<rparr>))))"

text \<open>
  A name is copied with its escapes; \<open>'\r'\<close> does not end it.  With a zone, a final dot is
  dropped and another name is made absolute, unless it ends in a digit.
\<close>

definition rt_xfrLabel :: "string text_reader" where
  "rt_xfrLabel r =
     bindE (skipSpaces r) (\<lambda>r.
       let e = skip_while (\<lambda>c. c = CHR 0x0D \<or> \<not> dns_isspace c) (rt_string r) (rt_pos r);
           val = substr (rt_string r) (rt_pos r) (e - rt_pos r);
           val = (if val = [] then rt_zone r
                  else if rt_zone r \<noteq> [] then
                    (if last val = CHR ''.'' then butlast val
                     else if \<not> isdigit (last val) then val @ ''.'' @ rt_zone r else val)
                  else val)
       in Inr (val, r\<lparr> rt_pos := e \<rparr>))"

text \<open>
  One \<open>%0Nd\<close> of \<open>sscanf\<close>: white space, a sign, at most \<open>N\<close> characters; \<open>None\<close> stops the scan
  and leaves the remaining fields as they are.
\<close>

definition scan_int :: "nat \<Rightarrow> string \<Rightarrow> (int \<times> string) option" where
  "scan_int width s0 =
     (let s = dropWhile isspace s0;
          neg = (s \<noteq> [] \<and> hd s = CHR ''-''); sgn = (s \<noteq> [] \<and> (neg \<or> hd s = CHR ''+''));
          ds = digit_prefix (take (if sgn then width - 1 else width) (if sgn then tl s else s))
      in if ds = [] then None
         else Some ((if neg then - int (digits_val ds) else int (digits_val ds)),
                    drop (length ds) (if sgn then tl s else s)))"

fun scan_ints :: "nat list \<Rightarrow> string \<Rightarrow> int list" where
  "scan_ints [] s = []"
| "scan_ints (w # ws) s = (case scan_int w s of None \<Rightarrow> [] | Some (v, s') \<Rightarrow> v # scan_ints ws s')"

definition rt_xfrTime :: "u32 text_reader" where
  "rt_xfrTime r =
     bindE (rt_xfrLabel r) (\<lambda>(tmp, r).
       let vs = scan_ints [4, 2, 2, 2, 2, 2] tmp; f = (\<lambda>i. if i < length vs then vs ! i else 0)
       in bindE (timegm \<lparr> tm_year = f 0 - 1900, tm_mon = f 1 - 1, tm_mday = f 2, tm_hour = f 3, tm_min = f 4, tm_sec = f 5 \<rparr>)
            (\<lambda>t. Inr (word_of_int t, r)))"

definition isbase64 :: "char \<Rightarrow> bool" where
  "isbase64 c \<longleftrightarrow> dns_isspace c \<or> (48 \<le> ucode c \<and> ucode c \<le> 57) \<or> (97 \<le> ucode c \<and> ucode c \<le> 122)
     \<or> (65 \<le> ucode c \<and> ucode c \<le> 90) \<or> c = CHR ''+'' \<or> c = CHR ''/'' \<or> c = CHR ''=''"

definition rt_xfrBlob :: "string text_reader" where
  "rt_xfrBlob r =
     bindE (skipSpaces r) (\<lambda>r.
       let e = skip_while isbase64 (rt_string r) (rt_pos r);
           tmp = filter (\<lambda>c. c \<noteq> CHR '' '') (substr (rt_string r) (rt_pos r) (e - rt_pos r))
       in bindE (B64Decode tmp []) (\<lambda>(ret, val). Inr (val, r\<lparr> rt_pos := e \<rparr>)))"

definition hextodec :: "char \<Rightarrow> byte result" where
  "hextodec c =
     (if 48 \<le> ucode c \<and> ucode c \<le> 57 then Inr (word_of_nat (ucode c - 48))
      else if 65 \<le> ucode c \<and> ucode c \<le> 70 then Inr (10 + word_of_nat (ucode c - 65))
      else if 97 \<le> ucode c \<and> ucode c \<le> 102 then Inr (10 + word_of_nat (ucode c - 97))
      else Inl (RecordTextException (''Unknown hexadecimal character '' @ quoted [c])))"

text \<open>The pending high half is \<open>Some\<close> in mode 1.\<close>

fun HEXDecode_loop :: "string \<Rightarrow> byte option \<Rightarrow> string \<Rightarrow> string result" where
  "HEXDecode_loop [] half out = Inr (case half of None \<Rightarrow> out | Some val \<Rightarrow> out @ [b2c val])"
| "HEXDecode_loop (c # s) half out =
     (if \<not> isalnum c then HEXDecode_loop s half out
      else bindE (hextodec c) (\<lambda>v.
        case half of
          None \<Rightarrow> HEXDecode_loop s (Some (16 * v)) out
        | Some val \<Rightarrow> HEXDecode_loop s None (out @ [b2c (val + v)])))"

definition HEXDecode :: "string \<Rightarrow> string result" where
  "HEXDecode s = (if s = ''-'' then Inr [] else HEXDecode_loop s None [])"

definition rt_xfrHexBlob :: "bool \<Rightarrow> string text_reader" where
  "rt_xfrHexBlob keepReading r =
     bindE (skipSpaces r) (\<lambda>r.
       let e = (if keepReading then length (rt_string r)
                else skip_while (\<lambda>c. \<not> dns_isspace c) (rt_string r) (rt_pos r))
       in bindE (HEXDecode (substr (rt_string r) (rt_pos r) (e - rt_pos r))) (\<lambda>val.
            Inr (val, r\<lparr> rt_pos := e \<rparr>)))"

definition rt_xfrBase32HexBlob :: "string text_reader" where
  "rt_xfrBase32HexBlob r =
     bindE (skipSpaces r) (\<lambda>r.
       let e = skip_while (\<lambda>c. \<not> dns_isspace c) (rt_string r) (rt_pos r)
       in Inr (fromBase32Hex (substr (rt_string r) (rt_pos r) (e - rt_pos r)), r\<lparr> rt_pos := e \<rparr>))"

text \<open>
  The characters of a quoted text from \<open>pos\<close>, the first after the quote, up to the closing
  quote: \<open>(pos of the quote, text)\<close>, and the end of the string if there is none.
\<close>

function quoted_text :: "string \<Rightarrow> nat \<Rightarrow> string \<Rightarrow> nat \<times> string" where
  "quoted_text s pos val =
     (if pos < length s \<and> s ! pos \<noteq> CHR 0x22 then
        (if s ! pos = CHR 0x5C \<and> pos + 1 \<noteq> length s
         then quoted_text s (pos + 2) (val @ [s ! pos, s ! (pos + 1)])
         else quoted_text s (pos + 1) (val @ [s ! pos]))
      else (pos, val))"
  by pat_completeness auto
termination
  by (relation "measure (\<lambda>(s, pos, val). length s - pos)") auto

declare quoted_text.simps [simp del]

lemma quoted_text_ge: "quoted_text s pos val = (p, v) \<Longrightarrow> pos \<le> p"
proof (induction s pos val arbitrary: p v rule: quoted_text.induct)
  case (1 s pos val)
  then show ?case by (subst (asm) (3) quoted_text.simps) (fastforce split: if_splits)
qed

lemma skip_while_ge: "pos \<le> skip_while P s pos"
  by (simp add: skip_while_def)

lemma skip_while_less: "Suc (skip_while P s pos) \<le> x \<Longrightarrow> pos < x"
  using skip_while_ge [of pos P s] by simp

function rt_xfrText_loop :: "bool \<Rightarrow> string \<Rightarrow> RecordTextReader \<Rightarrow> (string \<times> RecordTextReader) result" where
  "rt_xfrText_loop multi val r =
     (if rt_pos r < length (rt_string r) then
        let val = (if val \<noteq> [] then val @ '' '' else val)
        in bindE (skipSpaces r) (\<lambda>r1.
          if rt_string r ! rt_pos r1 \<noteq> CHR 0x22 then
            (if list_all isalnum (drop (rt_pos r1) (rt_string r))
             then Inr (val @ [CHR 0x22] @ drop (rt_pos r1) (rt_string r) @ [CHR 0x22], r\<lparr> rt_pos := length (rt_string r) \<rparr>)
             else Inl (RecordTextException (''Data field in DNS should start with quote ('' @ [CHR 0x22] @ '') at position ''
                    @ show_nat (rt_pos r1) @ '' of '' @ quoted (rt_string r))))
          else
            let (pos, val) = quoted_text (rt_string r) (rt_pos r1 + 1) (val @ [CHR 0x22]);
                val = val @ [CHR 0x22]
            in if pos = length (rt_string r)
               then Inl (RecordTextException (''Data field in DNS should end on a quote ('' @ [CHR 0x22] @ '') in '' @ quoted (rt_string r)))
               else if multi then rt_xfrText_loop multi val (r\<lparr> rt_pos := pos + 1 \<rparr>)
               else Inr (val, r\<lparr> rt_pos := pos + 1 \<rparr>))
      else Inr (val, r))"
  by pat_completeness auto
termination
  by (relation "measure (\<lambda>(multi, val, r). length (rt_string r) - rt_pos r)")
     (auto simp: skipSpaces_def Let_def split: if_splits dest!: quoted_text_ge [OF sym] skip_while_less)

declare rt_xfrText_loop.simps [simp del]

definition rt_xfrText :: "bool \<Rightarrow> string text_reader" where
  "rt_xfrText multi = rt_xfrText_loop multi []"

definition rt_xfrType :: "(string \<Rightarrow> u16 result) \<Rightarrow> u16 text_reader" where
  "rt_xfrType TypeToNumber r =
     bindE (skipSpaces r) (\<lambda>r.
       let e = skip_while (\<lambda>c. \<not> dns_isspace c) (rt_string r) (rt_pos r)
       in bindE (TypeToNumber (substr (rt_string r) (rt_pos r) (e - rt_pos r))) (\<lambda>v.
            Inr (v, r\<lparr> rt_pos := e \<rparr>)))"

subsection \<open>Writer\<close>

text \<open>A \<open>RecordTextWriter\<close> is the string it writes to; each field is set off by one space.\<close>

definition sep :: "string \<Rightarrow> string" where
  "sep d_string = (if d_string \<noteq> [] then d_string @ '' '' else d_string)"

definition tw_xfr48BitInt :: "u64 \<Rightarrow> string \<Rightarrow> string" where
  "tw_xfr48BitInt val d_string = sep d_string @ show_nat (unat val)"

definition tw_xfr32BitInt :: "u32 \<Rightarrow> string \<Rightarrow> string" where
  "tw_xfr32BitInt val d_string = sep d_string @ show_nat (unat val)"

definition tw_xfr16BitInt :: "u16 \<Rightarrow> string \<Rightarrow> string" where
  "tw_xfr16BitInt val = tw_xfr32BitInt (ucast val)"

definition tw_xfr8BitInt :: "byte \<Rightarrow> string \<Rightarrow> string" where
  "tw_xfr8BitInt val = tw_xfr32BitInt (ucast val)"

definition tw_xfrType :: "(u16 \<Rightarrow> string) \<Rightarrow> u16 \<Rightarrow> string \<Rightarrow> string" where
  "tw_xfrType NumberToType val d_string = sep d_string @ NumberToType val"

text \<open>One byte of an address in decimal, digit by digit.\<close>

definition octet_text :: "byte \<Rightarrow> string" where
  "octet_text v =
     (if v < 10 then [b2c (v + c2b (CHR ''0''))]
      else if v < 100 then [b2c (v div 10 + c2b (CHR ''0'')), b2c (v mod 10 + c2b (CHR ''0''))]
      else [b2c (v div 100 + c2b (CHR ''0'')), b2c ((v mod 100) div 10 + c2b (CHR ''0'')),
            b2c ((v mod 100) mod 10 + c2b (CHR ''0''))])"

text \<open>\<open>memcpy\<close> of the address: its bytes in memory order, the lowest first.\<close>

definition ip_text :: "u32 \<Rightarrow> string" where
  "ip_text val =
     octet_text (ucast val) @ ''.'' @ octet_text (ucast (drop_bit 8 val)) @ ''.''
       @ octet_text (ucast (drop_bit 16 val)) @ ''.'' @ octet_text (ucast (drop_bit 24 val))"

definition tw_xfrIP :: "u32 \<Rightarrow> string \<Rightarrow> string" where
  "tw_xfrIP val d_string = sep d_string @ ip_text val"

text \<open>\<open>%0Nd\<close> of \<open>printf\<close> for numbers that are not negative.\<close>

definition pad_int :: "nat \<Rightarrow> int \<Rightarrow> string" where
  "pad_int width v = (let s = show_nat (nat v) in replicate (width - length s) (CHR ''0'') @ s)"

definition time_text :: "tm \<Rightarrow> string" where
  "time_text tm = take 14 (pad_int 4 (tm_year tm + 1900) @ pad_int 2 (tm_mon tm + 1) @ pad_int 2 (tm_mday tm)
     @ pad_int 2 (tm_hour tm) @ pad_int 2 (tm_min tm) @ pad_int 2 (tm_sec tm))"

definition tw_xfrTime :: "(u32 \<Rightarrow> tm) \<Rightarrow> u32 \<Rightarrow> string \<Rightarrow> string" where
  "tw_xfrTime gmtime val d_string = sep d_string @ time_text (gmtime val)"

definition tw_xfrLabel :: "string \<Rightarrow> string \<Rightarrow> string" where
  "tw_xfrLabel val d_string = sep d_string @ val"

definition tw_xfrBlob :: "string \<Rightarrow> string \<Rightarrow> string" where
  "tw_xfrBlob val d_string = sep d_string @ Base64Encode val"

definition tw_xfrHexBlob :: "string \<Rightarrow> string \<Rightarrow> string" where
  "tw_xfrHexBlob val d_string =
     sep d_string @ (if val = [] then ''-'' else concat (map hex2 val))"

definition tw_xfrBase32HexBlob :: "(nat \<Rightarrow> byte) \<Rightarrow> string \<Rightarrow> string \<Rightarrow> string" where
  "tw_xfrBase32HexBlob beyond val d_string = sep d_string @ toBase32Hex beyond val"

definition tw_xfrText :: "string \<Rightarrow> string \<Rightarrow> string" where
  "tw_xfrText val d_string = sep d_string @ val"

subsection \<open>The contract of a field\<close>

text \<open>
  A field type is a text for each value and a reader.  Read after at most one space and
  before a space or the end, the text gives the value and the reader stops behind it.
\<close>

definition rt_at :: "string \<Rightarrow> nat \<Rightarrow> RecordTextReader" where
  "rt_at s pos = \<lparr> rt_string = s, rt_zone = [], rt_pos = pos \<rparr>"

definition gap :: "string \<Rightarrow> bool" where
  "gap sp \<longleftrightarrow> sp = [] \<or> sp = '' ''"

definition ends_field :: "string \<Rightarrow> bool" where
  "ends_field t \<longleftrightarrow> t = [] \<or> hd t = CHR '' ''"

locale text_field =
  fixes rd :: "'a text_reader" and shw :: "'a \<Rightarrow> string" and ok :: "'a \<Rightarrow> bool"
  assumes shw_start: "ok v \<Longrightarrow> shw v \<noteq> []"
    and rd_shw: "ok v \<Longrightarrow> gap sp \<Longrightarrow> ends_field t \<Longrightarrow>
      rd (rt_at (p @ sp @ shw v @ t) (length p)) = Inr (v, rt_at (p @ sp @ shw v @ t) (length (p @ sp @ shw v)))"
begin

text \<open>The whole content: a reader started on the text alone ends at its end.\<close>

lemma rd_whole: "ok v \<Longrightarrow> rd (RecordTextReader_init (shw v) []) = Inr (v, rt_at (shw v) (length (shw v)))"
  using rd_shw [of v "[]" "[]" "[]"] by (simp add: gap_def ends_field_def RecordTextReader_init_def rt_at_def)

text \<open>What the writer appends to \<open>d\<close> is read from the position \<open>length d\<close> on.\<close>

lemma rd_written:
  assumes "ok v" "ends_field t"
  shows "rd (rt_at (sep d @ shw v @ t) (length d)) = Inr (v, rt_at (sep d @ shw v @ t) (length (sep d @ shw v)))"
proof (cases "d = []")
  case True
  then show ?thesis using rd_shw [OF assms(1) _ assms(2), of "[]" "[]"] by (simp add: sep_def gap_def)
next
  case False
  then show ?thesis using rd_shw [OF assms(1) _ assms(2), of "'' ''" d] by (simp add: sep_def gap_def)
qed

lemma shw_inject: "ok v \<Longrightarrow> ok w \<Longrightarrow> shw v = shw w \<longleftrightarrow> v = w"
  by (metis rd_whole sum.inject(2) prod.inject)

end

text \<open>The common start of the readers.\<close>

lemma rt_at_simps [simp]:
  "rt_string (rt_at s pos) = s" "rt_zone (rt_at s pos) = []" "rt_pos (rt_at s pos) = pos"
  "(rt_at s pos)\<lparr> rt_pos := pos' \<rparr> = rt_at s pos'"
  by (simp_all add: rt_at_def)

lemma takeWhile_gap: "gap sp \<Longrightarrow> x \<noteq> [] \<Longrightarrow> \<not> dns_isspace (hd x) \<Longrightarrow> takeWhile dns_isspace (sp @ x) = sp"
  by (cases x) (auto simp: gap_def dns_isspace_def)

lemma skipSpaces_at:
  assumes "gap sp" "x \<noteq> []" "\<not> dns_isspace (hd x)"
  shows "skipSpaces (rt_at (p @ sp @ x @ t) (length p)) = Inr (rt_at (p @ sp @ x @ t) (length p + length sp))"
proof -
  have "takeWhile dns_isspace (sp @ x @ t) = sp"
    using takeWhile_gap [OF assms(1), of "x @ t"] assms(2,3) by (simp add: hd_append)
  then show ?thesis using assms(2) by (simp add: skipSpaces_def skip_while_def)
qed

lemma skip_while_word:
  assumes "\<forall>c \<in> set x. P c" "t = [] \<or> \<not> P (hd t)"
  shows "skip_while P (p @ sp @ x @ t) (length p + length sp) = length p + length sp + length x"
proof -
  have "takeWhile P (x @ t) = x"
    using assms by (cases t) (auto simp: takeWhile_append)
  then show ?thesis by (simp add: skip_while_def)
qed

lemma substr_mid: "substr (p @ sp @ x @ t) (length p + length sp) (length x) = x"
  by (simp add: substr_def)

lemma at_mid: "x \<noteq> [] \<Longrightarrow> at (p @ sp @ x @ t) (length p + length sp) = Inr (hd x)"
  by (cases x) (simp_all add: nth_append)

lemma ends_field_not_digit: "ends_field t \<Longrightarrow> t = [] \<or> \<not> isdigit (hd t)"
  by (auto simp: ends_field_def isdigit_def ucode_def)

lemma ends_field_space: "ends_field t \<Longrightarrow> t = [] \<or> dns_isspace (hd t)"
  by (auto simp: ends_field_def dns_isspace_def)

subsection \<open>Numbers\<close>

lemma isdigit_not_dns_space: "isdigit c \<Longrightarrow> \<not> dns_isspace c"
  by (auto simp: isdigit_def dns_isspace_def ucode_def)

lemma hd_show_nat: "isdigit (hd (show_nat n))"
  using show_nat_digits [of n] by (metis hd_in_set show_nat_nonempty)

lemma strtoul_mid:
  assumes "n < 2 ^ 64" "ends_field t"
  shows "strtoul (drop (length p + length sp) (p @ sp @ show_nat n @ t)) = (word_of_nat n, length (show_nat n))"
  using strtoul_show_nat [OF assms(1) ends_field_not_digit [OF assms(2)]] by simp

lemma rt_xfr32BitInt_text:
  assumes "gap sp" "ends_field t"
  shows "rt_xfr32BitInt (rt_at (p @ sp @ show_nat (unat (v :: u32)) @ t) (length p)) =
    Inr (v, rt_at (p @ sp @ show_nat (unat v) @ t) (length (p @ sp @ show_nat (unat v))))"
proof -
  have v: "unat v < 2 ^ 64"
  proof -
    have "unat v < 2 ^ 32" using unsigned_less [of v, where 'a = nat] by simp
    then show ?thesis by (rule less_trans) simp
  qed
  have u: "(ucast (word_of_nat (unat v) :: u64) :: u32) = v"
    by (simp add: unsigned_ucast_eq take_bit_word_eq_self)
  show ?thesis
    unfolding rt_xfr32BitInt_def
    using skipSpaces_at [OF assms(1), of "show_nat (unat v)" p t] hd_show_nat [of "unat v"] isdigit_not_dns_space
      at_mid [of "show_nat (unat v)" p sp t] strtoul_mid [OF v assms(2), of p sp] u
    by (simp del: at_eq_Inr)
qed

lemma rt_xfr64BitInt_text:
  assumes "gap sp" "ends_field t"
  shows "rt_xfr64BitInt (rt_at (p @ sp @ show_nat (unat (v :: u64)) @ t) (length p)) =
    Inr (v, rt_at (p @ sp @ show_nat (unat v) @ t) (length (p @ sp @ show_nat (unat v))))"
proof -
  have v: "unat v < 2 ^ 64" using unsigned_less [of v, where 'a = nat] by simp
  show ?thesis
    unfolding rt_xfr64BitInt_def
    using skipSpaces_at [OF assms(1), of "show_nat (unat v)" p t] hd_show_nat [of "unat v"] isdigit_not_dns_space
      at_mid [of "show_nat (unat v)" p sp t] strtoul_mid [OF v assms(2), of p sp]
    by (simp del: at_eq_Inr)
qed

interpretation int32: text_field rt_xfr32BitInt "\<lambda>v. show_nat (unat v)" "\<lambda>_. True"
  by unfold_locales (simp_all add: rt_xfr32BitInt_text)

interpretation int48: text_field rt_xfr48BitInt "\<lambda>v. show_nat (unat v)" "\<lambda>_. True"
  by unfold_locales (simp_all add: rt_xfr48BitInt_def rt_xfr64BitInt_text)

lemma ucast_u16_u32 [simp]: "(ucast (ucast (v :: u16) :: u32) :: u16) = v"
  by (simp add: unsigned_ucast_eq take_bit_word_eq_self)

lemma ucast_byte_u32 [simp]: "(ucast (ucast (v :: byte) :: u32) :: byte) = v"
  by (simp add: unsigned_ucast_eq take_bit_word_eq_self)

interpretation int16: text_field rt_xfr16BitInt "\<lambda>v. show_nat (unat (ucast v :: u32))" "\<lambda>_. True"
  by unfold_locales (simp_all add: rt_xfr16BitInt_def rt_xfr32BitInt_text)

interpretation int8: text_field rt_xfr8BitInt "\<lambda>v. show_nat (unat (ucast v :: u32))" "\<lambda>_. True"
  by unfold_locales (simp_all add: rt_xfr8BitInt_def rt_xfr32BitInt_text)

subsection \<open>Addresses\<close>

lemma digit_b2c: "unat w < 10 \<Longrightarrow> b2c (w + c2b (CHR ''0'')) = digit_char (unat w)"
proof -
  assume "unat w < 10"
  moreover have "c2b (CHR ''0'') = 48" by (simp add: c2b_def)
  moreover have "unat (48 :: byte) = 48" by simp
  ultimately show ?thesis by (simp add: b2c_def digit_char_def unat_word_ariths add.commute del: unsigned_numeral)
qed

lemma octet_text_show_nat: "octet_text v = show_nat (unat v)"
proof -
  have n: "unat v < 256" by (rule unat_byte_less)
  have d: "unat (v div 10) = unat v div 10" "unat (v mod 10) = unat v mod 10" "unat (v div 100) = unat v div 100"
    "unat (v mod 100 div 10) = unat v div 10 mod 10" "unat (v mod 100 mod 10) = unat v mod 10"
    using mod_mult2_eq [of "unat v" 10 10] mod_mod_cancel [of 10 100 "unat v"] n by (simp_all add: unat_div unat_mod)
  consider "unat v < 10" | "10 \<le> unat v" "unat v < 100" | "100 \<le> unat v" by linarith
  then show ?thesis
  proof cases
    case 1
    then show ?thesis using digit_b2c [of v]
      by (subst show_nat.simps) (simp add: octet_text_def word_less_nat_alt)
  next
    case 2
    then have "show_nat (unat v) = [digit_char (unat v div 10), digit_char (unat v mod 10)]"
      by (subst show_nat.simps, subst show_nat.simps) simp
    then show ?thesis using 2 digit_b2c [of "v div 10"] digit_b2c [of "v mod 10"] d
      by (simp add: octet_text_def word_less_nat_alt)
  next
    case 3
    then have "show_nat (unat v) = [digit_char (unat v div 100), digit_char (unat v div 10 mod 10), digit_char (unat v mod 10)]"
    proof -
      have "unat v div 100 < 10" "\<not> unat v div 10 < 10" using 3 n by auto
      with 3 show ?thesis
        by (subst show_nat.simps, subst show_nat.simps, subst show_nat.simps) (simp add: div_mult2_eq [symmetric])
    qed
    then show ?thesis using 3 n digit_b2c [of "v div 100"] digit_b2c [of "v mod 100 div 10"] digit_b2c [of "v mod 100 mod 10"] d
      by (simp add: octet_text_def word_less_nat_alt)
  qed
qed

text \<open>A run of digits whose value stays below 256.\<close>

lemma digits_val_snoc_le: "digits_val xs \<le> digits_val (xs @ ys)"
proof (induction ys rule: rev_induct)
  case (snoc y ys)
  have "digits_val (xs @ ys) \<le> digits_val ((xs @ ys) @ [y])" unfolding digits_val_append by simp
  with snoc show ?case by simp
qed simp

lemma isdigit_not_dot: "isdigit c \<Longrightarrow> c \<noteq> CHR ''.''"
  by (auto simp: isdigit_def ucode_def)

lemma rt_xfrIP_loop_digits:
  assumes "\<forall>c \<in> set ds. isdigit c" "digits_val (seen @ ds) < 256" "t \<noteq> []"
  shows "rt_xfrIP_loop (p @ ds @ t) (length p) val (word_of_nat (digits_val seen)) count =
    rt_xfrIP_loop (p @ ds @ t) (length p + length ds) val (word_of_nat (digits_val (seen @ ds))) count"
  using assms(1,2)
proof (induction ds arbitrary: p seen)
  case (Cons c ds)
  have lt: "digits_val (seen @ [c]) < 256"
    using digits_val_snoc_le [of "seen @ [c]" ds] Cons.prems(2) by simp
  have "digit_val c + 10 * digits_val seen < 256" using lt by (simp add: digits_val_append)
  then have o': "(word_of_nat (digits_val seen) :: u32) * 10 + word_of_nat (digit_val c) = word_of_nat (digits_val (seen @ [c]))"
    by (simp add: digits_val_append algebra_simps)
  have "\<not> (255 :: u32) < word_of_nat (digits_val (seen @ [c]))"
    using lt by (simp add: word_less_nat_alt unat_of_nat take_bit_nat_def)
  then have "rt_xfrIP_loop (p @ (c # ds) @ t) (length p) val (word_of_nat (digits_val seen)) count =
      rt_xfrIP_loop ((p @ [c]) @ ds @ t) (length (p @ [c])) val (word_of_nat (digits_val (seen @ [c]))) count"
    using Cons.prems(1) isdigit_not_dot assms(3) o'
    by (subst rt_xfrIP_loop.simps) (auto simp: at_def nth_append Let_def)
  also have "\<dots> = rt_xfrIP_loop ((p @ [c]) @ ds @ t) (length (p @ [c]) + length ds) val (word_of_nat (digits_val ((seen @ [c]) @ ds))) count"
    using Cons.prems by (intro Cons.IH) auto
  finally show ?case by simp
qed simp


lemma rt_xfrIP_loop_dot:
  assumes "count < 3" "t \<noteq> []"
  shows "rt_xfrIP_loop (p @ ''.'' @ t) (length p) val octet count =
    rt_xfrIP_loop (p @ ''.'' @ t) (length p + 1) (push_bit 8 val + octet) 0 (Suc count)"
  using assms by (subst rt_xfrIP_loop.simps) (simp add: at_def nth_append Let_def)

lemma rt_xfrIP_loop_end:
  assumes "\<forall>c \<in> set ds. isdigit c" "digits_val ds < 256" "ds \<noteq> []" "ends_field t"
  shows "rt_xfrIP_loop (p @ ds @ t) (length p) val 0 count =
    Inr (length p + length ds, val, word_of_nat (digits_val ds), count)"
proof -
  obtain ds' c where ds: "ds = ds' @ [c]" using assms(3) by (metis append_butlast_last_id)
  have c: "isdigit c" "\<forall>c \<in> set ds'. isdigit c" using assms(1) ds by auto
  have le: "digits_val ds' < 256" using digits_val_snoc_le [of ds' "[c]"] assms(2) ds by simp
  have "rt_xfrIP_loop (p @ ds' @ (c # t)) (length p) val (word_of_nat (digits_val [])) count =
      rt_xfrIP_loop (p @ ds' @ (c # t)) (length p + length ds') val (word_of_nat (digits_val ([] @ ds'))) count"
    using c le by (intro rt_xfrIP_loop_digits) auto
  then have 1: "rt_xfrIP_loop (p @ ds @ t) (length p) val 0 count =
      rt_xfrIP_loop (p @ ds @ t) (length p + length ds') val (word_of_nat (digits_val ds')) count"
    by (simp add: ds digits_val_def)
  have o': "(word_of_nat (digits_val ds') :: u32) * 10 + word_of_nat (digit_val c) = word_of_nat (digits_val ds)"
    by (simp add: ds digits_val_append algebra_simps)
  have no: "\<not> (255 :: u32) < word_of_nat (digits_val ds)"
    using assms(2) by (simp add: word_less_nat_alt unat_of_nat take_bit_nat_def)
  show ?thesis
  proof (cases t)
    case Nil
    then show ?thesis unfolding 1
      using c isdigit_not_dot o' no ds by (subst rt_xfrIP_loop.simps) (auto simp: at_def nth_append Let_def)
  next
    case (Cons x t')
    have x: "x = CHR '' ''" using assms(4) Cons by (simp add: ends_field_def)
    have "rt_xfrIP_loop (p @ ds @ t) (length p + length ds') val (word_of_nat (digits_val ds')) count =
        rt_xfrIP_loop (p @ ds @ t) (length p + length ds) val (word_of_nat (digits_val ds)) count"
      using c isdigit_not_dot o' no ds Cons
      by (subst rt_xfrIP_loop.simps) (auto simp: at_def nth_append Let_def)
    also have "\<dots> = Inr (length p + length ds, val, word_of_nat (digits_val ds), count)"
      using x Cons by (subst rt_xfrIP_loop.simps) (simp add: at_def nth_append dns_isspace_def isdigit_def ucode_def)
    finally show ?thesis unfolding 1 .
  qed
qed

lemma octet_text_digits: "\<forall>c \<in> set (octet_text b). isdigit c" "octet_text b \<noteq> []"
  "digits_val (octet_text b) = unat b"
  using show_nat_digits by (simp_all add: octet_text_show_nat)

text \<open>One octet and its dot, then the last octet.\<close>

lemma rt_xfrIP_loop_octet:
  assumes "count < 3" "t \<noteq> []"
  shows "rt_xfrIP_loop (p @ octet_text b @ ''.'' @ t) (length p) val 0 count =
    rt_xfrIP_loop ((p @ octet_text b @ ''.'') @ t) (length (p @ octet_text b @ ''.'')) (push_bit 8 val + ucast b) 0 (Suc count)"
proof -
  have "rt_xfrIP_loop (p @ octet_text b @ ''.'' @ t) (length p) val (word_of_nat (digits_val [])) count =
      rt_xfrIP_loop (p @ octet_text b @ ''.'' @ t) (length p + length (octet_text b)) val (word_of_nat (digits_val ([] @ octet_text b))) count"
    using octet_text_digits unat_byte_less by (intro rt_xfrIP_loop_digits) auto
  also have "\<dots> = rt_xfrIP_loop ((p @ octet_text b) @ ''.'' @ t) (length (p @ octet_text b)) val (ucast b) count"
    by (simp add: octet_text_digits)
  also have "\<dots> = rt_xfrIP_loop ((p @ octet_text b) @ ''.'' @ t) (length (p @ octet_text b) + 1) (push_bit 8 val + ucast b) 0 (Suc count)"
    by (rule rt_xfrIP_loop_dot [OF assms])
  finally show ?thesis by (simp add: digits_val_def)
qed

lemma rt_xfrIP_loop_last:
  "ends_field t \<Longrightarrow> rt_xfrIP_loop (p @ octet_text b @ t) (length p) val 0 count =
    Inr (length p + length (octet_text b), val, ucast b, count)"
  using rt_xfrIP_loop_end [of "octet_text b" t p val count] octet_text_digits unat_byte_less by simp

lemma rt_xfrIP_loop_text:
  assumes "ends_field t"
  shows "rt_xfrIP_loop (p @ octet_text a @ ''.'' @ octet_text b @ ''.'' @ octet_text c @ ''.'' @ octet_text d @ t) (length p) 0 0 0 =
    Inr (length p + length (octet_text a @ ''.'' @ octet_text b @ ''.'' @ octet_text c @ ''.'' @ octet_text d),
      push_bit 8 (push_bit 8 (ucast a) + ucast b) + ucast c, ucast d, 3)"
proof -
  let ?p1 = "p @ octet_text a @ ''.''" let ?p2 = "?p1 @ octet_text b @ ''.''" let ?p3 = "?p2 @ octet_text c @ ''.''"
  let ?s = "p @ octet_text a @ ''.'' @ octet_text b @ ''.'' @ octet_text c @ ''.'' @ octet_text d @ t"
  have "rt_xfrIP_loop ?s (length p) 0 0 0 = rt_xfrIP_loop ?s (length ?p1) (ucast a) 0 (Suc 0)"
    using rt_xfrIP_loop_octet [of 0 "octet_text b @ ''.'' @ octet_text c @ ''.'' @ octet_text d @ t" p a 0]
    by (simp del: One_nat_def)
  also have "\<dots> = rt_xfrIP_loop ?s (length ?p2) (push_bit 8 (ucast a) + ucast b) 0 2"
    using rt_xfrIP_loop_octet [of "Suc 0" "octet_text c @ ''.'' @ octet_text d @ t" ?p1 b "ucast a"]
    by (simp add: numeral_2_eq_2)
  also have "\<dots> = rt_xfrIP_loop ?s (length ?p3) (push_bit 8 (push_bit 8 (ucast a) + ucast b) + ucast c) 0 3"
    using rt_xfrIP_loop_octet [of 2 "octet_text d @ t" ?p2 c "push_bit 8 (ucast a) + ucast b"] octet_text_digits(2) [of d]
    by (simp add: eval_nat_numeral)
  also have "\<dots> = Inr (length ?p3 + length (octet_text d), push_bit 8 (push_bit 8 (ucast a) + ucast b) + ucast c, ucast d, 3)"
    using rt_xfrIP_loop_last [OF assms, of ?p3 d] by simp
  finally show ?thesis by (simp add: add.assoc)
qed

lemma push8_plus: "push_bit 8 (x :: u32) + ucast (b :: byte) = push_bit 8 x OR ucast b"
  by (rule disjunctive_add_eq_or, rule bit_word_eqI) (auto simp: bit_simps byte_bit_high)


lemma ip_text_bytes:
  "htonl (push_bit 8 (push_bit 8 (push_bit 8 (ucast (ucast v :: byte)) + ucast (ucast (drop_bit 8 v) :: byte))
      + ucast (ucast (drop_bit 16 v) :: byte)) + ucast (ucast (drop_bit 24 v) :: byte)) = v"
proof -
  have m: "(0xff00 :: u32) = push_bit 8 (mask 8)" by (simp add: mask_eq_exp_minus_1)
  have "bit (htonl (push_bit 8 (push_bit 8 (push_bit 8 (ucast (ucast v :: byte)) + ucast (ucast (drop_bit 8 v) :: byte))
      + ucast (ucast (drop_bit 16 v) :: byte)) + ucast (ucast (drop_bit 24 v) :: byte))) n = bit v n"
    if "n < LENGTH(32)" for n
  proof -
    consider "n < 8" | "8 \<le> n" "n < 16" | "16 \<le> n" "n < 24" | "24 \<le> n" by linarith
    then show ?thesis using that unfolding push8_plus htonl_def m by cases (auto simp: bit_simps)
  qed
  then show ?thesis by (rule bit_word_eqI)
qed

lemma hd_digit_append: "x \<noteq> [] \<Longrightarrow> \<forall>c \<in> set x. isdigit c \<Longrightarrow> isdigit (hd (x @ y))"
  by (cases x) auto

lemma hd_ip_text: "isdigit (hd (ip_text v))" "ip_text v \<noteq> []"
  unfolding ip_text_def using octet_text_digits by (blast intro: hd_digit_append, simp)

lemma rt_xfrIP_text:
  assumes "gap sp" "ends_field t"
  shows "rt_xfrIP (rt_at (p @ sp @ ip_text v @ t) (length p)) =
    Inr (v, rt_at (p @ sp @ ip_text v @ t) (length (p @ sp @ ip_text v)))"
proof -
  have l: "rt_xfrIP_loop (p @ sp @ ip_text v @ t) (length p + length sp) 0 0 0 =
    Inr (length p + length sp + length (ip_text v), push_bit 8 (push_bit 8 (ucast (ucast v :: byte)) + ucast (ucast (drop_bit 8 v) :: byte))
      + ucast (ucast (drop_bit 16 v) :: byte), ucast (ucast (drop_bit 24 v) :: byte), 3)"
    using rt_xfrIP_loop_text [OF assms(2), of "p @ sp"] by (simp add: ip_text_def)
  show ?thesis
    unfolding rt_xfrIP_def
    using skipSpaces_at [OF assms(1) hd_ip_text(2) isdigit_not_dns_space [OF hd_ip_text(1)], where p = p and t = t]
      at_mid [OF hd_ip_text(2), where p = p and sp = sp and t = t and v1 = v] hd_ip_text [of v] l ip_text_bytes [of v]
    by (simp del: at_eq_Inr add: Let_def)
qed

interpretation ip: text_field rt_xfrIP ip_text "\<lambda>_. True"
  by unfold_locales (simp_all add: rt_xfrIP_text hd_ip_text)

subsection \<open>Words: hexadecimal blobs, names and type names\<close>

definition word_text :: "string \<Rightarrow> bool" where
  "word_text v \<longleftrightarrow> v \<noteq> [] \<and> (\<forall>c \<in> set v. \<not> dns_isspace c)"

text \<open>The readers that take the characters up to the next space.\<close>

lemma read_word:
  assumes "word_text v" "gap sp" "ends_field t"
  shows "skipSpaces (rt_at (p @ sp @ v @ t) (length p)) = Inr (rt_at (p @ sp @ v @ t) (length p + length sp))"
    and "skip_while (\<lambda>c. \<not> dns_isspace c) (p @ sp @ v @ t) (length p + length sp) = length p + length sp + length v"
    and "skip_while (\<lambda>c. c = CHR 0x0D \<or> \<not> dns_isspace c) (p @ sp @ v @ t) (length p + length sp) = length p + length sp + length v"
proof -
  have e: "t = [] \<or> dns_isspace (hd t) \<and> hd t \<noteq> CHR 0x0D"
    using assms(3) by (auto simp: ends_field_def dns_isspace_def)
  show "skipSpaces (rt_at (p @ sp @ v @ t) (length p)) = Inr (rt_at (p @ sp @ v @ t) (length p + length sp))"
    using assms(1) by (intro skipSpaces_at [OF assms(2)]) (auto simp: word_text_def)
  show "skip_while (\<lambda>c. \<not> dns_isspace c) (p @ sp @ v @ t) (length p + length sp) = length p + length sp + length v"
    "skip_while (\<lambda>c. c = CHR 0x0D \<or> \<not> dns_isspace c) (p @ sp @ v @ t) (length p + length sp) = length p + length sp + length v"
    using assms(1) e by (intro skip_while_word; auto simp: word_text_def)+
qed

lemma hextodec_hex_digit: "n < 16 \<Longrightarrow> hextodec (hex_digit n) = Inr (word_of_nat n) \<and> isalnum (hex_digit n)"
proof -
  assume n: "n < 16"
  show ?thesis
  proof (cases "n < 10")
    case True
    then have "ucode (hex_digit n) = 48 + n" by (simp add: hex_digit_def ucode_def)
    with True show ?thesis by (simp add: hextodec_def isalnum_def isdigit_def)
  next
    case False
    then have u: "ucode (hex_digit n) = 87 + n" using n by (simp add: hex_digit_def ucode_def)
    have "(10 + word_of_nat (n - 10) :: byte) = word_of_nat (10 + (n - 10))" by (simp only: of_nat_add of_nat_numeral)
    also have "10 + (n - 10) = n" using False by simp
    finally show ?thesis using u n False by (simp add: hextodec_def isalnum_def islower_def)
  qed
qed

lemma ucode_div16 [simp]: "ucode c div 16 < 16"
  by (rule less_mult_imp_div_less) simp

lemma HEXDecode_loop_hex: "HEXDecode_loop (concat (map hex2 v) @ s) None out = HEXDecode_loop s None (out @ v)"
proof (induction v arbitrary: out)
  case (Cons c v)
  have "(16 * word_of_nat (ucode c div 16) + word_of_nat (ucode c mod 16) :: byte) = word_of_nat (16 * (ucode c div 16) + ucode c mod 16)"
    by (simp only: of_nat_add of_nat_mult of_nat_numeral)
  also have "\<dots> = c2b c" by (simp add: c2b_def ucode_def)
  finally have b: "(16 * word_of_nat (ucode c div 16) + word_of_nat (ucode c mod 16) :: byte) = c2b c" .
  show ?case
    using hextodec_hex_digit [of "ucode c div 16"] hextodec_hex_digit [of "ucode c mod 16"] b Cons.IH
    by (simp add: hex2_def)
qed simp

definition hex_text :: "string \<Rightarrow> string" where
  "hex_text v = (if v = [] then ''-'' else concat (map hex2 v))"

lemma isalnum_word: "isalnum c \<Longrightarrow> \<not> dns_isspace c"
  by (auto simp: isalnum_def isdigit_def isupper_def islower_def dns_isspace_def ucode_def)

lemma hex2_alnum: "\<forall>x \<in> set (hex2 c). isalnum x"
  using hextodec_hex_digit by (simp add: hex2_def)

lemma word_text_hex: "word_text (hex_text v)"
proof (cases "v = []")
  case False
  then show ?thesis
    using hex2_alnum isalnum_word by (cases v) (fastforce simp: word_text_def hex_text_def hex2_def)+
qed (simp add: word_text_def hex_text_def dns_isspace_def)

lemma HEXDecode_hex_text: "HEXDecode (hex_text v) = Inr v"
proof (cases "v = []")
  case False
  then have "hex_text v \<noteq> ''-''" by (cases v) (auto simp: hex_text_def hex2_def)
  then show ?thesis using False HEXDecode_loop_hex [of v "[]" "[]"] by (simp add: HEXDecode_def hex_text_def)
qed (simp add: HEXDecode_def hex_text_def)

interpretation hex: codec hex_text HEXDecode "\<lambda>_. True"
  by unfold_locales (rule HEXDecode_hex_text)

interpretation hexblob: text_field "rt_xfrHexBlob False" hex_text "\<lambda>_. True"
proof
  show "hex_text v \<noteq> []" for v using word_text_hex by (simp add: word_text_def)
  show "rt_xfrHexBlob False (rt_at (p @ sp @ hex_text v @ t) (length p)) =
      Inr (v, rt_at (p @ sp @ hex_text v @ t) (length (p @ sp @ hex_text v)))" if "gap sp" "ends_field t" for v sp t p
    unfolding rt_xfrHexBlob_def
    using read_word [OF word_text_hex that, of p v] HEXDecode_hex_text [of v] substr_mid [of p sp "hex_text v" t]
    by (simp add: Let_def)
qed

interpretation lbl: text_field rt_xfrLabel "\<lambda>v. v" word_text
proof
  show "word_text v \<Longrightarrow> v \<noteq> []" for v by (simp add: word_text_def)
  show "rt_xfrLabel (rt_at (p @ sp @ v @ t) (length p)) = Inr (v, rt_at (p @ sp @ v @ t) (length (p @ sp @ v)))"
    if "word_text v" "gap sp" "ends_field t" for v sp t p
    unfolding rt_xfrLabel_def
    using read_word [OF that, of p] substr_mid [of p sp v t] that(1)
    by (simp add: Let_def word_text_def)
qed


subsection \<open>Quoted texts\<close>

fun text_body :: "string \<Rightarrow> bool" where
  "text_body [] = True"
| "text_body [c] = (c \<noteq> CHR 0x22 \<and> c \<noteq> CHR 0x5C)"
| "text_body (c # d # s) =
     (if c = CHR 0x5C then text_body s else c \<noteq> CHR 0x22 \<and> text_body (d # s))"

definition quote :: "string \<Rightarrow> string" where
  "quote s = CHR 0x22 # s @ [CHR 0x22]"

lemma quoted_text_body:
  assumes "text_body b"
  shows "quoted_text (p @ b @ CHR 0x22 # t) (length p) val = (length p + length b, val @ b)"
  using assms
proof (induction b arbitrary: p val rule: text_body.induct)
  case 1
  then show ?case by (subst quoted_text.simps) (simp add: nth_append)
next
  case (2 c)
  then have "quoted_text (p @ [c] @ CHR 0x22 # t) (length p) val =
      quoted_text (p @ [c] @ CHR 0x22 # t) (length p + 1) (val @ [c])"
    by (subst quoted_text.simps) (simp add: nth_append)
  with 2 show ?case by (simp, subst quoted_text.simps) (simp add: nth_append)
next
  case (3 c d s)
  show ?case
  proof (cases "c = CHR 0x5C")
    case True
    then have "quoted_text (p @ (c # d # s) @ CHR 0x22 # t) (length p) val =
        quoted_text ((p @ [c, d]) @ s @ CHR 0x22 # t) (length (p @ [c, d])) (val @ [c, d])"
      by (subst quoted_text.simps) (simp add: nth_append)
    also have "\<dots> = (length (p @ [c, d]) + length s, (val @ [c, d]) @ s)"
      using 3 True by (intro "3.IH") simp_all
    finally show ?thesis by simp
  next
    case False
    with "3.prems" have "quoted_text (p @ (c # d # s) @ CHR 0x22 # t) (length p) val =
        quoted_text ((p @ [c]) @ (d # s) @ CHR 0x22 # t) (length (p @ [c])) (val @ [c])"
      by (subst quoted_text.simps) (simp add: nth_append)
    also have "\<dots> = (length (p @ [c]) + length (d # s), (val @ [c]) @ (d # s))"
      using 3 False by (intro "3.IH") simp_all
    finally show ?thesis by simp
  qed
qed

lemma rt_xfrText_text:
  assumes "text_body b" "gap sp"
  shows "rt_xfrText False (rt_at (p @ sp @ quote b @ t) (length p)) =
    Inr (quote b, rt_at (p @ sp @ quote b @ t) (length (p @ sp @ quote b)))"
proof -
  let ?s = "p @ sp @ quote b @ t"
  have sk: "skipSpaces (rt_at ?s (length p)) = Inr (rt_at ?s (length p + length sp))"
    by (intro skipSpaces_at [OF assms(2)]) (simp_all add: quote_def dns_isspace_def)
  have q: "?s ! (length p + length sp) = CHR 0x22" by (simp add: quote_def nth_append)
  have e: "?s = (p @ sp @ [CHR 0x22]) @ b @ CHR 0x22 # t" by (simp add: quote_def)
  have t: "quoted_text ?s (length p + length sp + 1) [CHR 0x22] =
      (length p + length sp + 1 + length b, [CHR 0x22] @ b)"
    using quoted_text_body [OF assms(1), of "p @ sp @ [CHR 0x22]" t "[CHR 0x22]"] unfolding e by simp
  have l: "length p < length ?s" "length p + length sp + 1 + length b < length ?s"
    by (simp_all add: quote_def)
  show ?thesis
    unfolding rt_xfrText_def
    apply (subst rt_xfrText_loop.simps)
    using sk q t l by (simp add: quote_def)
qed

interpretation txtf: text_field "rt_xfrText False" "\<lambda>v. v" "\<lambda>v. \<exists>b. v = quote b \<and> text_body b"
proof
  show "\<exists>b. v = quote b \<and> text_body b \<Longrightarrow> v \<noteq> []" for v by (auto simp: quote_def)
  show "\<exists>b. v = quote b \<and> text_body b \<Longrightarrow> gap sp \<Longrightarrow> ends_field t \<Longrightarrow>
    rt_xfrText False (rt_at (p @ sp @ v @ t) (length p)) = Inr (v, rt_at (p @ sp @ v @ t) (length (p @ sp @ v)))" for v sp t p
    using rt_xfrText_text by blast
qed

subsection \<open>Type names and base64 blobs\<close>

lemma rt_xfrType_text:
  assumes "word_text w" "gap sp" "ends_field t" "T w = Inr v"
  shows "rt_xfrType T (rt_at (p @ sp @ w @ t) (length p)) = Inr (v, rt_at (p @ sp @ w @ t) (length (p @ sp @ w)))"
  unfolding rt_xfrType_def
  using read_word [OF assms(1-3), of p] substr_mid [of p sp w t] assms(4) by (simp add: Let_def)

lemma unat_shift:
  assumes "unat (b :: byte) < n + 26" "n \<le> unat b" "k + 26 \<le> 256"
  shows "unat (word_of_nat k + (b - word_of_nat n)) = k + (unat b - n)"
proof -
  have "word_of_nat k + (b - word_of_nat n) = word_of_nat (k + (unat b - n))"
    using assms(2) by (simp add: of_nat_diff del: word_of_nat_eq_iff)
  also have "unat (word_of_nat (k + (unat b - n)) :: byte) = k + (unat b - n)"
  proof -
    have "k + (unat b - n) < 256" using assms by simp
    then show ?thesis by (simp only: unat_of_nat take_bit_nat_def) simp
  qed
  finally show ?thesis .
qed

lemma isbase64_ucode:
  "(65 \<le> ucode c \<and> ucode c \<le> 90) \<or> (97 \<le> ucode c \<and> ucode c \<le> 122) \<or> (48 \<le> ucode c \<and> ucode c \<le> 57)
    \<or> c = CHR ''+'' \<or> c = CHR ''/'' \<or> c = CHR ''='' \<Longrightarrow> isbase64 c \<and> \<not> isspace c"
  by (auto simp: isbase64_def isspace_def ucode_def)

lemma isbase64_alphabet: "isbase64 (B64Encode1 b) \<and> \<not> isspace (B64Encode1 b)"
proof -
  consider "unat b < 26" | "26 \<le> unat b" "unat b < 52" | "52 \<le> unat b" "unat b < 62" | "62 \<le> unat b" by linarith
  then show ?thesis
  proof cases
    case 1
    then have "unat (65 + b) = 65 + unat b" using unat_shift [of b 0 65] by simp
    then have "ucode (B64Encode1 b) = 65 + unat b" using 1 by (simp add: B64Encode1_def c2b_letters word_less_nat_alt)
    then show ?thesis using 1 by (intro isbase64_ucode) simp
  next
    case 2
    then have "unat (97 + (b - 26)) = 97 + (unat b - 26)" using unat_shift [of b 26 97] by simp
    then have "ucode (B64Encode1 b) = 97 + (unat b - 26)" using 2 by (simp add: B64Encode1_def c2b_letters word_less_nat_alt)
    then show ?thesis using 2 by (intro isbase64_ucode) simp
  next
    case 3
    then have "unat (48 + (b - 52)) = 48 + (unat b - 52)" using unat_shift [of b 52 48] by simp
    then have "ucode (B64Encode1 b) = 48 + (unat b - 52)" using 3 by (simp add: B64Encode1_def c2b_letters word_less_nat_alt)
    then show ?thesis using 3 by (intro isbase64_ucode) linarith
  next
    case 4
    then have "B64Encode1 b = CHR ''+'' \<or> B64Encode1 b = CHR ''/''" by (simp add: B64Encode1_def word_less_nat_alt)
    then show ?thesis by (intro isbase64_ucode) blast
  qed
qed

lemma Base64Encode_alphabet: "\<forall>c \<in> set (Base64Encode v). isbase64 c \<and> \<not> isspace c"
proof (induction v rule: Base64Encode.induct)
  case (4 a b c vby)
  then show ?case by (auto simp: isbase64_alphabet)
qed (auto simp: isbase64_alphabet isbase64_ucode)

text \<open>
  A base64 blob may contain spaces, so its reader takes the next fields along: the round trip
  holds for a blob at the end of the content, where the record types have it.
\<close>

lemma rt_xfrBlob_text:
  assumes "gap sp" "v \<noteq> []"
  shows "rt_xfrBlob (rt_at (p @ sp @ Base64Encode v) (length p)) =
    Inr (v, rt_at (p @ sp @ Base64Encode v) (length (p @ sp @ Base64Encode v)))"
proof -
  let ?b = "Base64Encode v"
  have ne: "?b \<noteq> []" using assms(2) by (cases v rule: Base64Encode.cases) (simp_all add: Base64Encode_block_def)
  have al: "isbase64 c \<and> \<not> isspace c" if "c \<in> set ?b" for c using that Base64Encode_alphabet by blast
  then have sp: "c \<noteq> CHR '' ''" if "c \<in> set ?b" for c using that by (force simp: isspace_def ucode_def)
  have "\<not> dns_isspace (hd ?b)"
    using al [of "hd ?b"] ne by (auto simp: dns_isspace_def isspace_def ucode_def)
  then have sk: "skipSpaces (rt_at (p @ sp @ ?b @ []) (length p)) = Inr (rt_at (p @ sp @ ?b @ []) (length p + length sp))"
    by (intro skipSpaces_at [OF assms(1) ne])
  have w: "skip_while isbase64 (p @ sp @ ?b @ []) (length p + length sp) = length p + length sp + length ?b"
    using al by (intro skip_while_word) auto
  have f: "filter (\<lambda>c. c \<noteq> CHR '' '') ?b = ?b" using sp by (auto simp: filter_id_conv)
  show ?thesis
    unfolding rt_xfrBlob_def
    using sk w f substr_mid [of p sp ?b "[]"] B64Decode_Base64Encode [of v] by (simp add: Let_def)
qed

lemma tw_xfrHexBlob_hex_text: "tw_xfrHexBlob v d = sep d @ hex_text v"
  by (simp add: tw_xfrHexBlob_def hex_text_def)

subsection \<open>Properties\<close>

text \<open>
  An address printed by the writer, at any place of a record content, is read
  back as the same address, and the reader stops right behind it.
\<close>

theorem ip_text_roundtrip:
  "ends_field t \<Longrightarrow> rt_xfrIP (rt_at (tw_xfrIP v d @ t) (length d)) = Inr (v, rt_at (tw_xfrIP v d @ t) (length (tw_xfrIP v d)))"
  using ip.rd_written [where v = v and t = t and d = d] by (simp add: tw_xfrIP_def)

theorem ip_text_roundtrip_witness:
  "rt_xfrIP (rt_at (tw_xfrIP 0x0100007F ''10'' @ '' x'') 2) =
    Inr (0x0100007F, rt_at (tw_xfrIP 0x0100007F ''10'' @ '' x'') (length (tw_xfrIP 0x0100007F ''10'')))"
  using ip_text_roundtrip [of "'' x''" "0x0100007F" "''10''"] by (simp add: ends_field_def numeral_2_eq_2)

text \<open>
  A hexadecimal blob of any bytes, the empty one included, is printed and read
  back unchanged at any place of a record content.
\<close>

theorem hexblob_text_roundtrip:
  "ends_field t \<Longrightarrow> rt_xfrHexBlob False (rt_at (tw_xfrHexBlob v d @ t) (length d)) =
    Inr (v, rt_at (tw_xfrHexBlob v d @ t) (length (tw_xfrHexBlob v d)))"
  unfolding tw_xfrHexBlob_hex_text using hexblob.rd_written [where v = v and t = t and d = d] by simp

theorem hexblob_text_roundtrip_witness:
  "rt_xfrHexBlob False (rt_at (tw_xfrHexBlob [] [] @ '' ab'') 0) = Inr ([], rt_at (tw_xfrHexBlob [] [] @ '' ab'') 1)"
  using hexblob_text_roundtrip [of "'' ab''" "[]" "[]"] by (simp add: ends_field_def tw_xfrHexBlob_def sep_def)

lemma rt_xfr32BitInt_number:
  assumes "n < 2 ^ 64" "gap sp" "ends_field t"
  shows "rt_xfr32BitInt (rt_at (p @ sp @ show_nat n @ t) (length p)) =
    Inr (word_of_nat n, rt_at (p @ sp @ show_nat n @ t) (length (p @ sp @ show_nat n)))"
proof -
  have u: "(ucast (word_of_nat n :: u64) :: u32) = word_of_nat n"
    by (rule word_unat_eq_iff [THEN iffD2]) (simp add: unat_of_nat unsigned_ucast_eq take_bit_nat_def mod_mod_cancel)
  show ?thesis
    unfolding rt_xfr32BitInt_def
    using skipSpaces_at [OF assms(2), of "show_nat n" p t] hd_show_nat [of n] isdigit_not_dns_space
      at_mid [of "show_nat n" p sp t] strtoul_mid [OF assms(1,3), of p sp] u
    by (simp del: at_eq_Inr)
qed

text \<open>
  Reading a 16-bit field: any number of up to 64 bits is first cut to 32
  bits; what is left must be below 65536, or the reader throws its overflow exception.  So
  \<open>65536\<close> is refused, but \<open>4294967297\<close> is accepted as 1.
\<close>

theorem int16_overflow:
  "n < 2 ^ 64 \<Longrightarrow> ends_field t \<Longrightarrow>
   rt_xfr16BitInt (rt_at (show_nat n @ t) 0) =
     (if n mod 2 ^ 32 < 2 ^ 16 then Inr (word_of_nat n, rt_at (show_nat n @ t) (length (show_nat n)))
      else Inl (RecordTextException ''Overflow reading 16 bit integer from record content''))"
proof -
  assume n: "n < 2 ^ 64" and t: "ends_field t"
  have "rt_xfr32BitInt (rt_at (show_nat n @ t) 0) = Inr (word_of_nat n, rt_at (show_nat n @ t) (length (show_nat n)))"
    using rt_xfr32BitInt_number [OF n _ t, of "[]" "[]"] by (simp add: gap_def)
  moreover have "(ucast (ucast (word_of_nat n :: u32) :: u16) = (word_of_nat n :: u32)) = (n mod 2 ^ 32 < 2 ^ 16)"
  proof -
    have "n mod 2 ^ 32 mod 2 ^ 16 = n mod 2 ^ 32 \<longleftrightarrow> n mod 2 ^ 32 < 2 ^ 16"
      using mod_less [of "n mod 2 ^ 32" "2 ^ 16"] mod_less_divisor [of "2 ^ 16" "n mod 2 ^ 32"] by (metis zero_less_numeral zero_less_power)
    then show ?thesis
      by (simp add: word_unat_eq_iff unat_of_nat unsigned_ucast_eq unsigned_take_bit_eq take_bit_nat_def mod_mod_cancel)
  qed
  moreover have "(ucast (word_of_nat n :: u32) :: u16) = word_of_nat n"
    by (rule word_unat_eq_iff [THEN iffD2]) (simp add: unat_of_nat unsigned_ucast_eq take_bit_nat_def mod_mod_cancel)
  ultimately show ?thesis by (simp add: rt_xfr16BitInt_def)
qed

theorem int16_overflow_witness:
  "rt_xfr16BitInt (rt_at (show_nat 65536 @ []) 0) = Inl (RecordTextException ''Overflow reading 16 bit integer from record content'')
   \<and> rt_xfr16BitInt (rt_at (show_nat 4294967297 @ []) 0) = Inr (1, rt_at (show_nat 4294967297 @ []) (length (show_nat 4294967297)))"
  using int16_overflow [of 65536 "[]"] int16_overflow [of 4294967297 "[]"] by (simp add: ends_field_def)

end
