(* ===== verification/RecordFields.thy ===== *)
theory RecordFields
  imports Names RecordText
begin

text \<open>
  The field types of record contents and their four convertors.  A record type of
  \<open>dnsrecords.cc\<close> is a sequence of \<open>xfr\<close> calls that is compiled for each convertor class;
  here it is a list of field types, and a record content the list of its fields.
\<close>

subsection \<open>Fields\<close>

text \<open>
  One constructor per \<open>xfr\<close> function; the \<open>bool\<close> of a name, text or hexadecimal blob is the
  last argument of the call.  A \<open>TSizedBlob\<close> is the pair of calls
  \<open>xfr16BitInt(size); xfrBlob(blob, size)\<close> of TSIG.
\<close>

datatype ftype = T8 | T16 | T32 | T48 | TIP | TTime | TType | TLabel bool | TText bool | TBlob | THexBlob bool | TSizedBlob

datatype field =
    F8 byte | F16 u16 | F32 u32 | F48 u64 | FIP u32 | FTime u32 | FType u16
  | FLabel bool string | FText bool string | FBlob string | FHexBlob bool string | FSizedBlob string

fun ftype_of :: "field \<Rightarrow> ftype" where
  "ftype_of (F8 _) = T8"
| "ftype_of (F16 _) = T16"
| "ftype_of (F32 _) = T32"
| "ftype_of (F48 _) = T48"
| "ftype_of (FIP _) = TIP"
| "ftype_of (FTime _) = TTime"
| "ftype_of (FType _) = TType"
| "ftype_of (FLabel c _) = TLabel c"
| "ftype_of (FText m _) = TText m"
| "ftype_of (FBlob _) = TBlob"
| "ftype_of (FHexBlob k _) = THexBlob k"
| "ftype_of (FSizedBlob _) = TSizedBlob"

definition rmap :: "('a \<Rightarrow> 'b) \<Rightarrow> 'a reader \<Rightarrow> 'b reader" where
  "rmap f m = rbind m (\<lambda>v. rreturn (f v))"

fun packet_read :: "ftype \<Rightarrow> field reader" where
  "packet_read T8 = rmap F8 get8BitInt"
| "packet_read T16 = rmap F16 get16BitInt"
| "packet_read T32 = rmap F32 get32BitInt"
| "packet_read T48 = rmap F48 xfr48BitInt"
| "packet_read TIP = rmap FIP xfrIP"
| "packet_read TTime = rmap FTime get32BitInt"
| "packet_read TType = rmap FType get16BitInt"
| "packet_read (TLabel c) = rmap (FLabel c) getLabel"
| "packet_read (TText m) = rmap (FText m) (getText m)"
| "packet_read TBlob = rmap FBlob xfrBlob"
| "packet_read (THexBlob k) = rmap (FHexBlob k) (xfrHexBlob k)"
| "packet_read TSizedBlob = rbind get16BitInt (\<lambda>size. rmap FSizedBlob (xfrBlob_len (unat size)))"

text \<open>The packet writer's \<open>xfrBlob\<close> takes no notice of the size it is given.\<close>

fun packet_write :: "field \<Rightarrow> DNSPacketWriter \<Rightarrow> DNSPacketWriter result" where
  "packet_write (F8 v) pw = Inr (pw_xfr8BitInt v pw)"
| "packet_write (F16 v) pw = Inr (pw_xfr16BitInt v pw)"
| "packet_write (F32 v) pw = Inr (pw_xfr32BitInt v pw)"
| "packet_write (F48 v) pw = Inr (pw_xfr48BitInt v pw)"
| "packet_write (FIP v) pw = Inr (pw_xfrIP v pw)"
| "packet_write (FTime v) pw = Inr (pw_xfr32BitInt v pw)"
| "packet_write (FType v) pw = Inr (pw_xfr16BitInt v pw)"
| "packet_write (FLabel c s) pw = pw_xfrLabel s c pw"
| "packet_write (FText m s) pw = pw_xfrText s pw"
| "packet_write (FBlob s) pw = Inr (pw_xfrBlob s pw)"
| "packet_write (FHexBlob k s) pw = Inr (pw_xfrBlob s pw)"
| "packet_write (FSizedBlob s) pw =
     Inr (pw_xfrBlob s (pw_xfr16BitInt (word_of_nat (length s)) pw))"

definition tmap :: "('a \<Rightarrow> 'b) \<Rightarrow> 'a text_reader \<Rightarrow> 'b text_reader" where
  "tmap f m r = bindE (m r) (\<lambda>(v, r'). Inr (f v, r'))"

text \<open>The text convertors; \<open>T\<close> and \<open>N\<close> look a type up by name and by number.\<close>

fun text_read :: "(string \<Rightarrow> u16 result) \<Rightarrow> ftype \<Rightarrow> field text_reader" where
  "text_read T T8 = tmap F8 rt_xfr8BitInt"
| "text_read T T16 = tmap F16 rt_xfr16BitInt"
| "text_read T T32 = tmap F32 rt_xfr32BitInt"
| "text_read T T48 = tmap F48 rt_xfr48BitInt"
| "text_read T TIP = tmap FIP rt_xfrIP"
| "text_read T TTime = tmap FTime rt_xfrTime"
| "text_read T TType = tmap FType (rt_xfrType T)"
| "text_read T (TLabel c) = tmap (FLabel c) rt_xfrLabel"
| "text_read T (TText m) = tmap (FText m) (rt_xfrText m)"
| "text_read T TBlob = tmap FBlob rt_xfrBlob"
| "text_read T (THexBlob k) = tmap (FHexBlob k) (rt_xfrHexBlob k)"
| "text_read T TSizedBlob = (\<lambda>r. bindE (rt_xfr16BitInt r) (\<lambda>(size, r). tmap FSizedBlob rt_xfrBlob r))"

fun text_write :: "(u16 \<Rightarrow> string) \<Rightarrow> (u32 \<Rightarrow> tm) \<Rightarrow> field \<Rightarrow> string \<Rightarrow> string" where
  "text_write N gmtime (F8 v) = tw_xfr8BitInt v"
| "text_write N gmtime (F16 v) = tw_xfr16BitInt v"
| "text_write N gmtime (F32 v) = tw_xfr32BitInt v"
| "text_write N gmtime (F48 v) = tw_xfr48BitInt v"
| "text_write N gmtime (FIP v) = tw_xfrIP v"
| "text_write N gmtime (FTime v) = tw_xfrTime gmtime v"
| "text_write N gmtime (FType v) = tw_xfrType N v"
| "text_write N gmtime (FLabel c s) = tw_xfrLabel s"
| "text_write N gmtime (FText m s) = tw_xfrText s"
| "text_write N gmtime (FBlob s) = tw_xfrBlob s"
| "text_write N gmtime (FHexBlob k s) = tw_xfrHexBlob s"
| "text_write N gmtime (FSizedBlob s) = (\<lambda>d. tw_xfrBlob s (tw_xfr16BitInt (word_of_nat (length s)) d))"

subsection \<open>Sequences of fields\<close>

fun packet_read_fields :: "ftype list \<Rightarrow> field list reader" where
  "packet_read_fields [] = rreturn []"
| "packet_read_fields (t # ts) = rbind (packet_read t) (\<lambda>f. rmap (Cons f) (packet_read_fields ts))"

fun packet_write_fields :: "field list \<Rightarrow> DNSPacketWriter \<Rightarrow> DNSPacketWriter result" where
  "packet_write_fields [] pw = Inr pw"
| "packet_write_fields (f # fs) pw = bindE (packet_write f pw) (packet_write_fields fs)"

fun text_read_fields :: "(string \<Rightarrow> u16 result) \<Rightarrow> ftype list \<Rightarrow> field list text_reader" where
  "text_read_fields T [] r = Inr ([], r)"
| "text_read_fields T (t # ts) r = bindE (text_read T t r) (\<lambda>(f, r). tmap (Cons f) (text_read_fields T ts) r)"

fun text_write_fields :: "(u16 \<Rightarrow> string) \<Rightarrow> (u32 \<Rightarrow> tm) \<Rightarrow> field list \<Rightarrow> string \<Rightarrow> string" where
  "text_write_fields N gmtime [] d = d"
| "text_write_fields N gmtime (f # fs) d = text_write_fields N gmtime fs (text_write N gmtime f d)"

text \<open>What is read has the types that were asked for.\<close>

lemma rmap_eq_Inr [simp]: "rmap f m r = Inr (w, r') \<longleftrightarrow> (\<exists>v. m r = Inr (v, r') \<and> w = f v)"
  by (auto simp: rmap_def rbind_def rreturn_def)

lemma tmap_eq_Inr [simp]: "tmap f m r = Inr (w, r') \<longleftrightarrow> (\<exists>v. m r = Inr (v, r') \<and> w = f v)"
  by (auto simp: tmap_def)

lemma packet_read_type: "packet_read t r = Inr (f, r') \<Longrightarrow> ftype_of f = t"
  by (cases t) (auto simp: rbind_def)

lemma packet_read_fields_type: "packet_read_fields ts r = Inr (fs, r') \<Longrightarrow> map ftype_of fs = ts"
proof (induction ts arbitrary: fs r)
  case (Cons t ts)
  then show ?case using packet_read_type by (fastforce simp: rbind_def)
qed (simp add: rreturn_def)

lemma text_read_type: "text_read T t r = Inr (f, r') \<Longrightarrow> ftype_of f = t"
  by (cases t) auto

lemma text_read_fields_type: "text_read_fields T ts r = Inr (fs, r') \<Longrightarrow> map ftype_of fs = ts"
proof (induction ts arbitrary: fs r)
  case (Cons t ts)
  then show ?case using text_read_type by fastforce
qed simp

subsection \<open>The contract of a field on the wire\<close>

definition on_wire :: "nat \<Rightarrow> nat \<Rightarrow> byte list \<Rightarrow> nat \<Rightarrow> PacketReader" where
  "on_wire start len content pos =
     \<lparr> pr_pos = pos, pr_startrecordpos = start, pr_recordlen = len, pr_content = content \<rparr>"

lemma on_wire_simps [simp]:
  "pr_pos (on_wire start len content pos) = pos" "pr_startrecordpos (on_wire start len content pos) = start"
  "pr_recordlen (on_wire start len content pos) = len" "pr_content (on_wire start len content pos) = content"
  "(on_wire start len content pos)\<lparr> pr_pos := pos' \<rparr> = on_wire start len content pos'"
  by (simp_all add: on_wire_def)

text \<open>
  Bytes \<open>bs\<close> inside a record of a packet are read as \<open>v\<close>; where \<open>tail\<close> holds they have to end the
  record.
\<close>

definition in_record :: "nat \<Rightarrow> nat \<Rightarrow> byte list \<Rightarrow> byte list \<Rightarrow> byte list \<Rightarrow> bool \<Rightarrow> bool" where
  "in_record start len pre bs post tail \<longleftrightarrow>
     length (pre @ bs @ post) < 65536 \<and> start \<le> length pre \<and> length pre + length bs \<le> start + len \<and>
     start + len \<le> length (pre @ bs @ post) \<and> (tail \<longrightarrow> length pre + length bs = start + len)"

definition reads :: "'a reader \<Rightarrow> bool \<Rightarrow> 'a \<Rightarrow> byte list \<Rightarrow> bool" where
  "reads rd tail v bs \<longleftrightarrow> (\<forall>start len pre post. in_record start len pre bs post tail \<longrightarrow>
     rd (on_wire start len (pre @ bs @ post) (length pre)) =
       Inr (v, on_wire start len (pre @ bs @ post) (length pre + length bs)))"

text \<open>A writer that neither compresses names nor changes their case.\<close>

definition plain :: "DNSPacketWriter \<Rightarrow> bool" where
  "plain pw \<longleftrightarrow> pw_canonic pw \<and> \<not> pw_lowerCase pw"

definition writes :: "(DNSPacketWriter \<Rightarrow> DNSPacketWriter result) \<Rightarrow> DNSPacketWriter \<Rightarrow> byte list \<Rightarrow> bool" where
  "writes wr pw bs \<longleftrightarrow> (\<exists>lmap. wr pw = Inr (pw\<lparr> pw_record := pw_record pw @ bs, pw_labelmap := lmap \<rparr>))"

lemma reads_rmap: "reads m tail v bs \<Longrightarrow> reads (rmap f m) tail (f v) bs"
  by (simp add: reads_def rmap_def rbind_def rreturn_def)

locale wire_field =
  fixes rd :: "'a reader" and wr :: "'a \<Rightarrow> DNSPacketWriter \<Rightarrow> DNSPacketWriter result"
    and ok :: "'a \<Rightarrow> bool" and tail :: bool
  assumes wr_rd: "ok v \<Longrightarrow> plain pw \<Longrightarrow> \<exists>bs. writes (wr v) pw bs \<and> reads rd tail v bs"
begin

lemma wr_rd_map: "ok v \<Longrightarrow> plain pw \<Longrightarrow> \<exists>bs. writes (wr v) pw bs \<and> reads (rmap f rd) tail (f v) bs"
proof -
  assume "ok v" "plain pw"
  then obtain bs where w: "writes (wr v) pw bs" and r: "reads rd tail v bs" using wr_rd by metis
  show ?thesis by (intro exI conjI, rule w, rule reads_rmap [OF r])
qed

text \<open>What was written is read back, and the writer is as plain as before.\<close>

lemma written_read:
  assumes "ok v" "plain pw"
  obtains bs pw' where "wr v pw = Inr pw'" "plain pw'" "pw_record pw' = pw_record pw @ bs" "reads rd tail v bs"
proof -
  obtain bs lmap where w: "wr v pw = Inr (pw\<lparr> pw_record := pw_record pw @ bs, pw_labelmap := lmap \<rparr>)" and r: "reads rd tail v bs"
    using wr_rd [OF assms] by (auto simp: writes_def)
  show ?thesis by (rule that [OF w _ _ r]) (use assms(2) in \<open>simp_all add: plain_def\<close>)
qed

end

lemma in_record_append:
  "in_record start len pre (bs @ cs) post tail \<Longrightarrow> in_record start len pre bs (cs @ post) False"
  "in_record start len pre (bs @ cs) post tail \<Longrightarrow> in_record start len (pre @ bs) cs post tail"
  by (auto simp: in_record_def)

lemma reads_rbind:
  assumes "reads m False v bs" "reads (f v) tail w cs"
  shows "reads (rbind m f) tail w (bs @ cs)"
  unfolding reads_def
proof (intro allI impI)
  fix start len pre post assume i: "in_record start len pre (bs @ cs) post tail"
  have "m (on_wire start len (pre @ bs @ cs @ post) (length pre)) =
      Inr (v, on_wire start len (pre @ bs @ cs @ post) (length pre + length bs))"
    using assms(1) in_record_append(1) [OF i] unfolding reads_def by blast
  moreover have "f v (on_wire start len ((pre @ bs) @ cs @ post) (length (pre @ bs))) =
      Inr (w, on_wire start len ((pre @ bs) @ cs @ post) (length (pre @ bs) + length cs))"
    using assms(2) in_record_append(2) [OF i] unfolding reads_def by blast
  ultimately show "rbind m f (on_wire start len (pre @ (bs @ cs) @ post) (length pre)) =
      Inr (w, on_wire start len (pre @ (bs @ cs) @ post) (length pre + length (bs @ cs)))"
    by (simp add: rbind_def add.assoc)
qed

lemma reads_rreturn: "reads (rreturn v) tail v []"
  by (simp add: reads_def rreturn_def)

lemma reads_weaken: "reads m False v bs \<Longrightarrow> reads m tail v bs"
  by (auto simp: reads_def in_record_def)

subsubsection \<open>Integers\<close>

lemma reads_get8: "reads get8BitInt False b [b]"
  by (simp add: reads_def get8BitInt_def)

lemma reads_get16: "reads get16BitInt False (be_val16 a b) [a, b]"
proof -
  have "push_bit 8 (ucast a :: u16) + ucast b = be_val16 a b"
    unfolding be_val16_def by (rule disjunctive_add_eq_or, rule bit_word_eqI) (auto simp: bit_simps byte_bit_high)
  moreover have "reads get16BitInt False (push_bit 8 (ucast a) + ucast b) ([a] @ [b] @ [])"
    unfolding get16BitInt_def by (rule reads_rbind [OF reads_get8])+ (rule reads_rreturn)
  ultimately show ?thesis by simp
qed

lemma reads_get32: "reads get32BitInt False (be_val32 a b c d) [a, b, c, d]"
proof -
  have "push_bit 8 (push_bit 8 (push_bit 8 (ucast a :: u32) + ucast b) + ucast c) + ucast d = be_val32 a b c d"
    unfolding be_val32_def push8_plus by (rule bit_word_eqI) (auto simp: bit_simps byte_bit_high)
  moreover have "reads get32BitInt False (push_bit 8 (push_bit 8 (push_bit 8 (ucast a) + ucast b) + ucast c) + ucast d)
      ([a] @ [b] @ [c] @ [d] @ [])"
    unfolding get32BitInt_def by (rule reads_rbind [OF reads_get8])+ (rule reads_rreturn)
  ultimately show ?thesis by simp
qed

lemma reads_u16: "reads get16BitInt False v (be_bytes16 v)"
  using reads_get16 [of "ucast (drop_bit 8 v)" "ucast v"] by (simp add: be_bytes16_def codec_simps)

lemma reads_u32: "reads get32BitInt False v (be_bytes32 v)"
  using reads_get32 [of "ucast (drop_bit 24 v)" "ucast (drop_bit 16 v)" "ucast (drop_bit 8 v)" "ucast v"]
  by (simp add: be_bytes32_def codec_simps)

lemma push8_plus64: "push_bit 8 (x :: u64) + ucast (b :: byte) = push_bit 8 x OR ucast b"
  by (rule disjunctive_add_eq_or, rule bit_word_eqI) (auto simp: bit_simps byte_bit_high)

definition be_bytes48 :: "u64 \<Rightarrow> byte list" where
  "be_bytes48 v = be_bytes16 (ucast (drop_bit 32 v AND 0xffff)) @ be_bytes32 (ucast (v AND 0xffffffff))"

lemma reads_u48:
  assumes "v < 2 ^ 48"
  shows "reads xfr48BitInt False v (be_bytes48 v)"
proof -
  have high: "\<not> bit v n" if "48 \<le> n" for n
  proof
    assume "bit v n"
    have "unat v < 2 ^ 48" using assms by (simp add: word_less_nat_alt)
    moreover have "(2 :: nat) ^ 48 \<le> 2 ^ n" using that by (intro power_increasing) auto
    ultimately have "unat v div 2 ^ n = 0" by simp
    moreover have "bit (unat v) n" using \<open>bit v n\<close> by (simp add: bit_unsigned_iff)
    ultimately show False by (simp add: bit_iff_odd)
  qed
  let ?b = "\<lambda>k. ucast (drop_bit k v) :: byte"
  have "push_bit 8 (push_bit 8 (push_bit 8 (push_bit 8 (push_bit 8 (ucast (?b 40)) + ucast (?b 32))
         + ucast (?b 24)) + ucast (?b 16)) + ucast (?b 8)) + ucast (?b 0) = v" (is "?v = v")
  proof (rule bit_word_eqI)
    fix n assume "n < LENGTH(64)"
    consider "n < 8" | "8 \<le> n" "n < 16" | "16 \<le> n" "n < 24" | "24 \<le> n" "n < 32" | "32 \<le> n" "n < 40" | "40 \<le> n" "n < 48" | "48 \<le> n" by linarith
    then show "bit ?v n = bit v n"
      using high \<open>n < LENGTH(64)\<close> by cases (simp_all only: push8_plus64, auto simp: bit_simps)
  qed
  moreover have "reads xfr48BitInt False ?v
      ([?b 40] @ [?b 32] @ [?b 24] @ [?b 16] @ [?b 8] @ [?b 0] @ [])"
    unfolding xfr48BitInt_def by (rule reads_rbind [OF reads_get8])+ (rule reads_rreturn)
  moreover have "be_bytes48 v = [?b 40, ?b 32, ?b 24, ?b 16, ?b 8, ?b 0]"
  proof -
    have m: "(0xffff :: u64) = mask 16" "(0xffffffff :: u64) = mask 32" by (simp_all add: mask_eq_exp_minus_1)
    show ?thesis
      unfolding be_bytes48_def be_bytes16_def be_bytes32_def append.simps list.inject m
      by (intro conjI refl; rule bit_word_eqI, drule bit_index8, elim disjE; simp add: bit_simps)+
  qed
  ultimately show ?thesis by simp
qed


lemma htonl_htonl [simp]: "htonl (htonl v) = v"
proof -
  have m: "(0xff00 :: u32) = push_bit 8 (mask 8)" by (simp add: mask_eq_exp_minus_1)
  have "bit (htonl (htonl v)) n = bit v n" if "n < LENGTH(32)" for n
  proof -
    consider "n < 8" | "8 \<le> n" "n < 16" | "16 \<le> n" "n < 24" | "24 \<le> n" by linarith
    then show ?thesis using that unfolding htonl_def m by cases (auto simp: bit_simps dest: bit_imp_le_length)
  qed
  then show ?thesis by (rule bit_word_eqI)
qed

lemma writes_append: "writes (\<lambda>pw. Inr (pw_append bs pw)) pw bs"
  unfolding writes_def pw_append_def by (intro exI [of _ "pw_labelmap pw"]) simp

interpretation i8: wire_field get8BitInt "\<lambda>v pw. Inr (pw_xfr8BitInt v pw)" "\<lambda>_. True" False
proof
  show "\<exists>bs. writes (\<lambda>pw. Inr (pw_xfr8BitInt v pw)) pw bs \<and> reads get8BitInt False v bs" for v pw
    using writes_append [of "[v]" pw] reads_get8 [of v] by (auto simp: pw_xfr8BitInt_def)
qed

interpretation i16: wire_field get16BitInt "\<lambda>v pw. Inr (pw_xfr16BitInt v pw)" "\<lambda>_. True" False
proof
  show "\<exists>bs. writes (\<lambda>pw. Inr (pw_xfr16BitInt v pw)) pw bs \<and> reads get16BitInt False v bs" for v pw
    using writes_append [of "be_bytes16 v" pw] reads_u16 [of v] by (auto simp: pw_xfr16BitInt_def)
qed

interpretation i32: wire_field get32BitInt "\<lambda>v pw. Inr (pw_xfr32BitInt v pw)" "\<lambda>_. True" False
proof
  show "\<exists>bs. writes (\<lambda>pw. Inr (pw_xfr32BitInt v pw)) pw bs \<and> reads get32BitInt False v bs" for v pw
    using writes_append [of "be_bytes32 v" pw] reads_u32 [of v] by (auto simp: pw_xfr32BitInt_def)
qed

interpretation i48: wire_field xfr48BitInt "\<lambda>v pw. Inr (pw_xfr48BitInt v pw)" "\<lambda>v. v < 2 ^ 48" False
proof
  show "v < 2 ^ 48 \<Longrightarrow> \<exists>bs. writes (\<lambda>pw. Inr (pw_xfr48BitInt v pw)) pw bs \<and> reads xfr48BitInt False v bs" for v pw
    using writes_append [of "be_bytes48 v" pw] reads_u48 [of v] by (auto simp: pw_xfr48BitInt_def be_bytes48_def)
qed

lemma reads_xfrIP: "reads xfrIP False v (be_bytes32 (htonl v))"
  using reads_rbind [OF reads_u32 [of "htonl v"] reads_rreturn, of "\<lambda>v. htonl v" False] by (simp add: xfrIP_def)

interpretation ipw: wire_field xfrIP "\<lambda>v pw. Inr (pw_xfrIP v pw)" "\<lambda>_. True" False
proof
  show "\<exists>bs. writes (\<lambda>pw. Inr (pw_xfrIP v pw)) pw bs \<and> reads xfrIP False v bs" for v pw
    using writes_append [of "be_bytes32 (htonl v)" pw] reads_xfrIP [of v] by (auto simp: pw_xfrIP_def pw_xfr32BitInt_def)
qed

subsubsection \<open>Blobs\<close>

lemma bytes_between_mid:
  assumes "bs \<noteq> []" "e = length pre + length bs - 1"
  shows "bytes_between (pre @ bs @ post) (length pre) e = Inr (map b2c bs)"
proof -
  have "0 < length bs" using assms(1) by simp
  then have "e < length (pre @ bs @ post)" "e + 1 - length pre = length bs" "\<not> e + 1 < length pre"
    "length pre < length (pre @ bs @ post)"
    using assms(2) by (simp_all, linarith+)
  then show ?thesis by (simp add: bytes_between_def at_def substr_def)
qed

lemma reads_blob: "reads xfrBlob True (map b2c bs) bs"
  unfolding reads_def
proof (intro allI impI)
  fix start len pre post assume i: "in_record start len pre bs post True"
  then have e: "start + len = length pre + length bs" "length pre + length bs < 65536" by (auto simp: in_record_def)
  show "xfrBlob (on_wire start len (pre @ bs @ post) (length pre)) =
      Inr (map b2c bs, on_wire start len (pre @ bs @ post) (length pre + length bs))"
  proof (cases "bs = []")
    case True
    then show ?thesis using e by (simp add: xfrBlob_def)
  next
    case False
    have "start \<le> length pre" using i by (simp add: in_record_def)
    moreover have "0 < length bs" using False by simp
    ultimately have "len \<noteq> 0" using e(1) by linarith
    then show ?thesis using e False bytes_between_mid [OF False, of "length pre + length bs - 1" pre post]
      by (simp add: xfrBlob_def)
  qed
qed

lemma reads_sized: "reads (xfrBlob_len (length bs)) False (map b2c bs) bs"
  unfolding reads_def
proof (intro allI impI)
  fix start len pre post assume "in_record start len pre bs post False"
  show "xfrBlob_len (length bs) (on_wire start len (pre @ bs @ post) (length pre)) =
      Inr (map b2c bs, on_wire start len (pre @ bs @ post) (length pre + length bs))"
    using bytes_between_mid [of bs "length pre + length bs - 1" pre post] by (cases "bs = []") (simp_all add: xfrBlob_len_def)
qed

interpretation blob: wire_field xfrBlob "\<lambda>v pw. Inr (pw_xfrBlob v pw)" "\<lambda>_. True" True
proof
  show "\<exists>bs. writes (\<lambda>pw. Inr (pw_xfrBlob v pw)) pw bs \<and> reads xfrBlob True v bs" for v pw
    using writes_append [of "map c2b v" pw] reads_blob [of "map c2b v"] by (auto simp: pw_xfrBlob_def simp del: map_map)
qed

lemma writes_seq:
  assumes "writes w1 pw bs" "\<And>lmap. writes w2 (pw\<lparr> pw_record := pw_record pw @ bs, pw_labelmap := lmap \<rparr>) cs"
  shows "writes (\<lambda>pw. bindE (w1 pw) w2) pw (bs @ cs)"
  using assms by (fastforce simp: writes_def)

definition sized_read :: "string reader" where
  "sized_read = rbind get16BitInt (\<lambda>size. xfrBlob_len (unat size))"

interpretation sized: wire_field sized_read
  "\<lambda>v pw. Inr (pw_xfrBlob v (pw_xfr16BitInt (word_of_nat (length v)) pw))" "\<lambda>v. length v < 65536" False
proof
  fix v :: string and pw assume v: "length v < 65536"
  then have u: "unat (word_of_nat (length v) :: u16) = length (map c2b v)" by (simp add: unat_of_nat take_bit_nat_def)
  let ?l = "be_bytes16 (word_of_nat (length v))"
  have "reads sized_read False v (?l @ map c2b v)"
  proof -
    have "reads (xfrBlob_len (unat (word_of_nat (length v) :: u16))) False v (map c2b v)"
      using reads_sized [of "map c2b v"] u by (simp del: map_map)
    then show ?thesis unfolding sized_read_def by (rule reads_rbind [OF reads_u16])
  qed
  moreover have "writes (\<lambda>pw. Inr (pw_xfrBlob v (pw_xfr16BitInt (word_of_nat (length v)) pw))) pw (?l @ map c2b v)"
    using writes_append [of "?l @ map c2b v" pw] by (simp add: pw_xfrBlob_def pw_xfr16BitInt_def pw_append_def)
  ultimately show "\<exists>bs. writes (\<lambda>pw. Inr (pw_xfrBlob v (pw_xfr16BitInt (word_of_nat (length v)) pw))) pw bs \<and>
      reads sized_read False v bs" by blast
qed

subsubsection \<open>Names\<close>

definition shown_ok :: "string \<Rightarrow> bool" where
  "shown_ok s \<longleftrightarrow> (\<exists>ls. list_all valid_label ls \<and> s = shown_name ls)"

lemma reads_label: "list_all valid_label ls \<Longrightarrow> reads getLabel False (shown_name ls) (wire_labels ls @ [0])"
  using getLabelFromContent_wire [of ls] by (simp add: reads_def getLabel_def)

lemma writes_label:
  assumes "list_all valid_label ls" "plain pw"
  shows "writes (pw_xfrLabel (shown_name ls) c) pw (wire_labels ls @ [0])"
proof (cases "ls = []")
  case True
  have "toLower ''.'' = ''.''" by (simp add: dns_tolower_dot)
  then show ?thesis using True assms(2)
    by (auto simp: writes_def shown_name_def pw_xfrLabel_def plain_def intro!: exI [of _ "pw_labelmap pw"])
next
  case False
  have "spelling ls (shown_name ls)" using False by (simp add: spelling_def shown_name_def)
  moreover have "pw_xfrLabel (shown_name ls) c pw = pw_xfrLabel (shown_name ls) False pw"
    using assms(2) by (simp add: pw_xfrLabel_def plain_def)
  ultimately show ?thesis
    using pw_xfrLabel_plain [OF assms(1), of "shown_name ls" pw] assms(2) by (simp add: writes_def plain_def)
qed

interpretation name: wire_field getLabel "\<lambda>v. pw_xfrLabel v c" shown_ok False
proof
  show "shown_ok v \<Longrightarrow> plain pw \<Longrightarrow> \<exists>bs. writes (pw_xfrLabel v c) pw bs \<and> reads getLabel False v bs" for v pw
    unfolding shown_ok_def using reads_label writes_label by blast
qed


subsubsection \<open>Texts\<close>

text \<open>
  The text form of character strings: quoted, escaped and separated by spaces.  A segment
  has at most 255 characters, all of which the text machine accepts, escaped or not.
\<close>

definition segment_ok :: "string \<Rightarrow> bool" where
  "segment_ok s \<longleftrightarrow> length s \<le> 255 \<and> (\<forall>c \<in> set s. txt_plain c \<or> c = CHR 0x22 \<or> c = CHR 0x5C)"

definition add_text :: "string \<Rightarrow> string \<Rightarrow> string" where
  "add_text ret s = sep ret @ quote (txtEscape s)"

definition texts :: "string list \<Rightarrow> string" where
  "texts segs = foldl add_text [] segs"

definition segment_bytes :: "string \<Rightarrow> byte list" where
  "segment_bytes s = word_of_nat (length s) # map c2b s"

lemma appendSplit_short: "length seg < 255 \<Longrightarrow> appendSplit ret seg c = (ret, seg @ [c])"
  by (simp add: appendSplit_def)

lemma txt_run_num3: "length seg < 255 \<Longrightarrow>
    txt_run (TNum3 v) ret seg (c # p) = txt_run TIn ret (seg @ [b2c v]) (c # p)"
  by (simp add: appendSplit_short)

lemma txt_plain_not: "txt_plain c \<Longrightarrow> c \<noteq> CHR 0x22 \<and> c \<noteq> CHR 0x5C"
  by (auto simp: txt_plain_def)

lemma txt_run_escape:
  assumes "length seg + length s \<le> 255" "\<forall>c \<in> set s. txt_plain c \<or> c = CHR 0x22 \<or> c = CHR 0x5C"
  shows "txt_run TIn ret seg (txtEscape s @ CHR 0x22 # p) = txt_run TEnd ret (seg @ s) p"
  using assms
proof (induction s arbitrary: seg)
  case Nil
  then show ?case by (simp add: txt_in_def)
next
  case (Cons c s)
  have IH: "txt_run TIn ret (seg @ [c]) (txtEscape s @ CHR 0x22 # p) = txt_run TEnd ret (seg @ c # s) p"
    using Cons.IH [of "seg @ [c]"] Cons.prems by simp
  have seg: "length seg < 255" using Cons.prems(1) by simp
  obtain x q where xq: "txtEscape s @ CHR 0x22 # p = x # q" by (cases "txtEscape s @ CHR 0x22 # p") auto
  consider "c = CHR 0x0A" | "c = CHR 0x22 \<or> c = CHR 0x5C" | "txt_plain c" "c \<noteq> CHR 0x0A"
    using Cons.prems(2) by auto
  then show ?case
  proof cases
    case 1
    have d: "isdigit (CHR ''0'')" "isdigit (CHR ''1'')" by (simp_all add: isdigit_def ucode_def)
    have v: "b2c (txt_digit (txt_digit (txt_digit 0 (CHR ''0'')) (CHR ''1'')) (CHR ''0'')) = CHR 0x0A"
      by (simp add: txt_digit_def b2c_eq_iff) (simp add: c2b_def)
    have "txt_run TIn ret seg (txtEscape (c # s) @ CHR 0x22 # p) =
        txt_run (TNum3 (txt_digit (txt_digit (txt_digit 0 (CHR ''0'')) (CHR ''1'')) (CHR ''0''))) ret seg (x # q)"
      using 1 d xq by (simp add: txt_in_def)
    also have "\<dots> = txt_run TIn ret (seg @ [c]) (x # q)"
      unfolding txt_run_num3 [OF seg] v 1 by (rule refl)
    finally show ?thesis using IH xq by simp
  next
    case 2
    then have "txt_run TIn ret seg (txtEscape (c # s) @ CHR 0x22 # p) = txt_run TIn ret (seg @ [c]) (txtEscape s @ CHR 0x22 # p)"
      by (auto simp: txt_in_def appendSplit_short [OF seg])
    then show ?thesis using IH by simp
  next
    case 3
    then have "txt_run TIn ret seg (txtEscape (c # s) @ CHR 0x22 # p) = txt_run TIn ret (seg @ [c]) (txtEscape s @ CHR 0x22 # p)"
      using txt_plain_not [OF 3(1)] by (simp add: txt_in_def appendSplit_short [OF seg])
    then show ?thesis using IH by simp
  qed
qed

text \<open>The text after its first quote.\<close>

fun texts_rest :: "string list \<Rightarrow> string" where
  "texts_rest [] = []"
| "texts_rest [s] = txtEscape s @ [CHR 0x22]"
| "texts_rest (s # t # segs) = txtEscape s @ CHR 0x22 # CHR '' '' # CHR 0x22 # texts_rest (t # segs)"

lemma add_text_eq: "ret \<noteq> [] \<Longrightarrow> add_text ret s = ret @ CHR '' '' # CHR 0x22 # txtEscape s @ [CHR 0x22]"
  by (simp add: add_text_def sep_def quote_def)

lemma foldl_texts: "ret \<noteq> [] \<Longrightarrow> segs \<noteq> [] \<Longrightarrow> foldl add_text ret segs = ret @ CHR '' '' # CHR 0x22 # texts_rest segs"
proof (induction segs arbitrary: ret rule: texts_rest.induct)
  case (3 s t segs)
  have "foldl add_text ret (s # t # segs) = foldl add_text (add_text ret s) (t # segs)" by simp
  also have "\<dots> = add_text ret s @ CHR '' '' # CHR 0x22 # texts_rest (t # segs)"
    using 3 by (intro "3.IH") (simp_all add: add_text_eq)
  finally show ?case using 3 by (simp add: add_text_eq)
qed (simp_all add: add_text_eq)

lemma texts_eq: "segs \<noteq> [] \<Longrightarrow> texts segs = CHR 0x22 # texts_rest segs"
proof (cases segs rule: texts_rest.cases)
  case (3 s t r)
  have "add_text [] s = quote (txtEscape s)" by (simp add: add_text_def sep_def)
  moreover have "foldl add_text (quote (txtEscape s)) (t # r) = quote (txtEscape s) @ CHR '' '' # CHR 0x22 # texts_rest (t # r)"
    by (rule foldl_texts) (simp_all add: quote_def)
  ultimately show ?thesis using 3 by (simp add: texts_def quote_def)
qed (auto simp: texts_def add_text_def sep_def quote_def)

lemma txt_run_texts:
  "segs \<noteq> [] \<Longrightarrow> list_all segment_ok segs \<Longrightarrow> txt_run TIn ret [] (texts_rest segs) = Some (ret @ segs)"
proof (induction segs arbitrary: ret rule: texts_rest.induct)
  case (2 s)
  then have "txt_run TIn ret [] (txtEscape s @ CHR 0x22 # []) = txt_run TEnd ret ([] @ s) []"
    by (intro txt_run_escape) (auto simp: segment_ok_def)
  then show ?case by simp
next
  case (3 s t segs)
  let ?p = "CHR '' '' # CHR 0x22 # texts_rest (t # segs)"
  have "txt_run TIn ret [] (txtEscape s @ CHR 0x22 # ?p) = txt_run TEnd ret ([] @ s) ?p"
    using 3 by (intro txt_run_escape) (auto simp: segment_ok_def)
  moreover have "isspace (CHR '' '')" by (simp add: isspace_def ucode_def)
  ultimately show ?case using 3 by simp
qed simp

lemma segmentDNSText_texts: "segs \<noteq> [] \<Longrightarrow> list_all segment_ok segs \<Longrightarrow> segmentDNSText (texts segs) = Inr segs"
  using txt_run_texts [of segs "[]"] by (simp add: segmentDNSText_def texts_eq)

lemma writes_texts:
  assumes "segs \<noteq> []" "list_all segment_ok segs"
  shows "writes (pw_xfrText (texts segs)) pw (concat (map segment_bytes segs))"
proof -
  have "texts segs \<noteq> []" using assms(1) by (simp add: texts_eq)
  moreover have "(\<lambda>str. word_of_nat (length str) # map c2b str) = segment_bytes" by (auto simp: segment_bytes_def)
  ultimately show ?thesis
    using segmentDNSText_texts [OF assms] writes_append [of "concat (map segment_bytes segs)" pw]
    by (simp add: pw_xfrText_def writes_def)
qed

lemma getText_step:
  assumes "segment_ok s" "length pre < start + len"
  shows "getText_loop multi ret (on_wire start len (pre @ segment_bytes s @ post) (length pre)) =
    (if multi then getText_loop multi (add_text ret s) (on_wire start len (pre @ segment_bytes s @ post) (length pre + length (segment_bytes s)))
     else Inr (add_text ret s, on_wire start len (pre @ segment_bytes s @ post) (length pre + length (segment_bytes s))))"
proof -
  have u: "unat (word_of_nat (length s) :: byte) = length s"
    using assms(1) by (simp add: segment_ok_def unat_of_nat take_bit_nat_def)
  have b: "bytes_between (pre @ segment_bytes s @ post) (length pre + 1) (length pre + 1 + length s - 1) = Inr s" if "s \<noteq> []"
    using bytes_between_mid [of "map c2b s" "length pre + 1 + length s - 1" "pre @ [word_of_nat (length s)]" post] that
    by (simp add: segment_bytes_def del: map_map)
  show ?thesis
    using assms(2) u b
    by (subst getText_loop.simps)
      (simp add: Let_def segment_bytes_def at_def nth_append add_text_def quote_def sep_def del: getText_loop.simps)
qed

lemma reads_text1: "segment_ok s \<Longrightarrow> reads (getText False) False (texts [s]) (segment_bytes s)"
  unfolding reads_def
proof (intro allI impI)
  fix start len pre post assume "segment_ok s" "in_record start len pre (segment_bytes s) post False"
  moreover from this have "length pre < start + len" by (auto simp: in_record_def segment_bytes_def)
  ultimately show "getText False (on_wire start len (pre @ segment_bytes s @ post) (length pre)) =
      Inr (texts [s], on_wire start len (pre @ segment_bytes s @ post) (length pre + length (segment_bytes s)))"
    by (simp add: getText_def getText_step texts_def)
qed

lemma getText_all:
  "list_all segment_ok segs \<Longrightarrow> length pre + length (concat (map segment_bytes segs)) = start + len \<Longrightarrow>
   getText_loop True ret (on_wire start len (pre @ concat (map segment_bytes segs) @ post) (length pre)) =
     Inr (foldl add_text ret segs, on_wire start len (pre @ concat (map segment_bytes segs) @ post)
       (length pre + length (concat (map segment_bytes segs))))"
proof (induction segs arbitrary: pre ret)
  case Nil
  then show ?case by (subst getText_loop.simps) simp
next
  case (Cons s segs)
  have "length pre < start + len" using Cons.prems(2) by (simp add: segment_bytes_def)
  then have "getText_loop True ret (on_wire start len (pre @ segment_bytes s @ (concat (map segment_bytes segs) @ post)) (length pre)) =
      getText_loop True (add_text ret s) (on_wire start len ((pre @ segment_bytes s) @ concat (map segment_bytes segs) @ post) (length (pre @ segment_bytes s)))"
    using getText_step [of s pre start len True ret] Cons.prems(1) by simp
  also have "\<dots> = Inr (foldl add_text (add_text ret s) segs, on_wire start len ((pre @ segment_bytes s) @ concat (map segment_bytes segs) @ post)
       (length (pre @ segment_bytes s) + length (concat (map segment_bytes segs))))"
    using Cons.prems by (intro Cons.IH) simp_all
  finally show ?case by (simp add: add.assoc)
qed

lemma reads_texts: "list_all segment_ok segs \<Longrightarrow> reads (getText True) True (texts segs) (concat (map segment_bytes segs))"
  using getText_all by (simp add: reads_def in_record_def getText_def texts_def)

interpretation text1: wire_field "getText False" pw_xfrText "\<lambda>v. \<exists>s. segment_ok s \<and> v = texts [s]" False
proof
  show "\<exists>s. segment_ok s \<and> v = texts [s] \<Longrightarrow> plain pw \<Longrightarrow> \<exists>bs. writes (pw_xfrText v) pw bs \<and> reads (getText False) False v bs" for v pw
    using writes_texts [of "[_]"] reads_text1 by fastforce
qed

interpretation textn: wire_field "getText True" pw_xfrText "\<lambda>v. \<exists>segs. segs \<noteq> [] \<and> list_all segment_ok segs \<and> v = texts segs" True
proof
  show "\<exists>segs. segs \<noteq> [] \<and> list_all segment_ok segs \<and> v = texts segs \<Longrightarrow> plain pw \<Longrightarrow>
      \<exists>bs. writes (pw_xfrText v) pw bs \<and> reads (getText True) True v bs" for v pw
    using writes_texts reads_texts by blast
qed


subsection \<open>Record contents on the wire\<close>

text \<open>
  What a field must satisfy to survive the wire, and which fields have to be the last of
  their record because their length is the rest of the record.
\<close>

fun wire_ok :: "field \<Rightarrow> bool" where
  "wire_ok (F48 v) = (v < 2 ^ 48)"
| "wire_ok (FLabel c s) = shown_ok s"
| "wire_ok (FText m s) = (\<exists>segs. segs \<noteq> [] \<and> list_all segment_ok segs \<and> (\<not> m \<longrightarrow> length segs = 1) \<and> s = texts segs)"
| "wire_ok (FSizedBlob s) = (length s < 65536)"
| "wire_ok _ = True"

fun to_the_end :: "ftype \<Rightarrow> bool" where
  "to_the_end (TText m) = m"
| "to_the_end TBlob = True"
| "to_the_end (THexBlob k) = True"
| "to_the_end _ = False"

lemma packet_write_eta:
  "packet_write (F8 a) = (\<lambda>pw. Inr (pw_xfr8BitInt a pw))" "packet_write (F16 b) = (\<lambda>pw. Inr (pw_xfr16BitInt b pw))"
  "packet_write (F32 c) = (\<lambda>pw. Inr (pw_xfr32BitInt c pw))" "packet_write (F48 d) = (\<lambda>pw. Inr (pw_xfr48BitInt d pw))"
  "packet_write (FIP c) = (\<lambda>pw. Inr (pw_xfrIP c pw))" "packet_write (FTime c) = (\<lambda>pw. Inr (pw_xfr32BitInt c pw))"
  "packet_write (FType b) = (\<lambda>pw. Inr (pw_xfr16BitInt b pw))" "packet_write (FLabel m s) = pw_xfrLabel s m"
  "packet_write (FText m s) = pw_xfrText s" "packet_write (FBlob s) = (\<lambda>pw. Inr (pw_xfrBlob s pw))"
  "packet_write (FHexBlob m s) = (\<lambda>pw. Inr (pw_xfrBlob s pw))"
  "packet_write (FSizedBlob s) = (\<lambda>pw. Inr (pw_xfrBlob s (pw_xfr16BitInt (word_of_nat (length s)) pw)))"
  by (rule ext, simp)+

lemma packet_read_sized: "packet_read TSizedBlob = rmap FSizedBlob sized_read"
  by (rule ext) (auto simp: sized_read_def rmap_def rbind_def bindE_def split: sum.split)

lemma field_written:
  assumes "wire_ok f" "plain pw"
  shows "\<exists>bs. writes (packet_write f) pw bs \<and> reads (packet_read (ftype_of f)) (to_the_end (ftype_of f)) f bs"
proof (cases f)
  case (FText m s)
  then obtain segs where segs: "segs \<noteq> []" "list_all segment_ok segs" "\<not> m \<longrightarrow> length segs = 1" "s = texts segs"
    using assms(1) by auto
  show ?thesis
  proof (cases m)
    case True
    have "\<exists>bs. writes (pw_xfrText s) pw bs \<and> reads (rmap (FText True) (getText True)) True (FText True s) bs"
      by (rule textn.wr_rd_map) (use segs assms(2) in auto)
    then show ?thesis using FText True by (simp add: packet_write_eta del: packet_write.simps)
  next
    case False
    then obtain t where "segs = [t]" using segs(3) by (auto simp: length_Suc_conv)
    then have "\<exists>bs. writes (pw_xfrText s) pw bs \<and> reads (rmap (FText False) (getText False)) False (FText False s) bs"
      by (intro text1.wr_rd_map) (use segs assms(2) in auto)
    then show ?thesis using FText False by (simp add: packet_write_eta del: packet_write.simps)
  qed
qed (use assms in \<open>simp_all del: packet_write.simps packet_read.simps(12) add: packet_write_eta packet_read_sized xfrHexBlob_def
    i8.wr_rd_map [where f = F8] i16.wr_rd_map [where f = F16] i32.wr_rd_map [where f = F32] i48.wr_rd_map [where f = F48]
    ipw.wr_rd_map [where f = FIP] i32.wr_rd_map [where f = FTime] i16.wr_rd_map [where f = FType] name.wr_rd_map [where f = "FLabel _"]
    blob.wr_rd_map [where f = FBlob] blob.wr_rd_map [where f = "FHexBlob _"] sized.wr_rd_map [where f = FSizedBlob]\<close>)


fun tail_last :: "ftype list \<Rightarrow> bool" where
  "tail_last [] = True"
| "tail_last [t] = True"
| "tail_last (t # u # ts) = (\<not> to_the_end t \<and> tail_last (u # ts))"

lemma reads_single: "reads (packet_read t) tail f bs \<Longrightarrow> reads (packet_read_fields [t]) tail [f] bs"
  by (simp add: reads_def rmap_def rbind_def rreturn_def)

text \<open>Fields with at most the last one open-ended are read back as they were written.\<close>

lemma fields_written:
  "list_all wire_ok fs \<Longrightarrow> tail_last (map ftype_of fs) \<Longrightarrow> plain pw \<Longrightarrow>
   \<exists>bs. writes (packet_write_fields fs) pw bs \<and> reads (packet_read_fields (map ftype_of fs)) True fs bs"
proof (induction fs arbitrary: pw)
  case Nil
  have "writes Inr pw []"
    unfolding writes_def by (intro exI [of _ "pw_labelmap pw"]) simp
  then show ?case using reads_rreturn [of "[] :: field list" True] by (intro exI [of _ "[]"]) simp
next
  case (Cons f fs)
  obtain bs where w: "writes (packet_write f) pw bs"
    and r: "reads (packet_read (ftype_of f)) (to_the_end (ftype_of f)) f bs"
    using field_written [of f pw] Cons.prems by auto
  obtain lmap where lmap: "packet_write f pw = Inr (pw\<lparr> pw_record := pw_record pw @ bs, pw_labelmap := lmap \<rparr>)" (is "_ = Inr ?pw1")
    using w by (auto simp: writes_def)
  have "plain ?pw1" using Cons.prems(3) by (simp add: plain_def)
  moreover have "tail_last (map ftype_of fs)" using Cons.prems(2) by (cases fs) simp_all
  ultimately obtain cs where w': "writes (packet_write_fields fs) ?pw1 cs"
    and r': "reads (packet_read_fields (map ftype_of fs)) True fs cs"
    using Cons.IH [of ?pw1] Cons.prems(1) by auto
  have "writes (packet_write_fields (f # fs)) pw (bs @ cs)"
    using lmap w' by (auto simp: writes_def)
  moreover have "reads (packet_read_fields (map ftype_of (f # fs))) True (f # fs) (bs @ cs)"
  proof (cases fs)
    case Nil
    then have "cs = []" using w' by (auto simp: writes_def dest: arg_cong [where f = pw_record])
    moreover have "reads (packet_read (ftype_of f)) True f bs"
      using r reads_weaken by (cases "to_the_end (ftype_of f)") auto
    ultimately show ?thesis using Nil reads_single by simp
  next
    case (Cons g gs)
    then have "\<not> to_the_end (ftype_of f)" using Cons.prems(2) by simp
    then have r1: "reads (packet_read (ftype_of f)) False f bs" using r by simp
    have "reads (rbind (packet_read (ftype_of f)) (\<lambda>f. rmap (Cons f) (packet_read_fields (map ftype_of fs)))) True (f # fs) (bs @ cs)"
      by (rule reads_rbind [OF r1]) (rule reads_rmap [OF r'])
    then show ?thesis by simp
  qed
  ultimately show ?case by blast
qed

subsection \<open>Record contents as text\<close>

definition text_reads :: "'a text_reader \<Rightarrow> bool \<Rightarrow> 'a \<Rightarrow> string \<Rightarrow> bool" where
  "text_reads rd tail v x \<longleftrightarrow> (\<forall>p sp t. gap sp \<longrightarrow> ends_field t \<longrightarrow> (tail \<longrightarrow> t = []) \<longrightarrow>
     rd (rt_at (p @ sp @ x @ t) (length p)) = Inr (v, rt_at (p @ sp @ x @ t) (length (p @ sp @ x))))"

lemma text_reads_tmap: "text_reads m tail v x \<Longrightarrow> text_reads (tmap f m) tail (f v) x"
  by (simp add: text_reads_def tmap_def)

context text_field begin

lemma text_reads_shw: "ok v \<Longrightarrow> text_reads (tmap f rd) tail (f v) (shw v)"
  using rd_shw by (simp add: text_reads_def tmap_def)

end

lemma text_body_plain: "c \<noteq> CHR 0x22 \<Longrightarrow> c \<noteq> CHR 0x5C \<Longrightarrow> text_body (c # s) = text_body s"
  by (cases s) simp_all

lemma text_body_escape: "text_body (txtEscape s)"
  by (induction s) (simp_all add: text_body_plain)

text \<open>A multiple text at the end of the content: one quoted element after the other.\<close>

lemma rt_xfrText_element:
  assumes "text_body b" "gap sp" "val \<noteq> [] \<longrightarrow> sp = '' ''"
  shows "rt_xfrText_loop True val (rt_at (p @ sp @ quote b @ t) (length p)) =
    rt_xfrText_loop True (sep val @ quote b) (rt_at (p @ sp @ quote b @ t) (length (p @ sp @ quote b)))"
proof -
  let ?s = "p @ sp @ quote b @ t"
  have sk: "skipSpaces (rt_at ?s (length p)) = Inr (rt_at ?s (length p + length sp))"
    by (intro skipSpaces_at [OF assms(2)]) (simp_all add: quote_def dns_isspace_def)
  have q: "?s ! (length p + length sp) = CHR 0x22" by (simp add: quote_def nth_append)
  have e: "?s = (p @ sp @ [CHR 0x22]) @ b @ CHR 0x22 # t" by (simp add: quote_def)
  have t: "quoted_text ?s (length p + length sp + 1) (sep val @ [CHR 0x22]) =
      (length p + length sp + 1 + length b, (sep val @ [CHR 0x22]) @ b)"
    using quoted_text_body [OF assms(1), of "p @ sp @ [CHR 0x22]" t "sep val @ [CHR 0x22]"] unfolding e by simp
  have l: "length p < length ?s" "length p + length sp + 1 + length b < length ?s"
    by (simp_all add: quote_def)
  show ?thesis
    apply (subst rt_xfrText_loop.simps)
    using sk q t l by (simp add: quote_def Let_def sep_def [symmetric] add.assoc)
qed

lemma rt_xfrText_texts:
  "segs \<noteq> [] \<Longrightarrow> val \<noteq> [] \<Longrightarrow>
   rt_xfrText_loop True val (rt_at (p @ CHR '' '' # CHR 0x22 # texts_rest segs) (length p)) =
     Inr (val @ CHR '' '' # CHR 0x22 # texts_rest segs,
       rt_at (p @ CHR '' '' # CHR 0x22 # texts_rest segs) (length (p @ CHR '' '' # CHR 0x22 # texts_rest segs)))"
proof (induction segs arbitrary: p val rule: texts_rest.induct)
  case (2 s)
  have "rt_xfrText_loop True (sep val @ quote (txtEscape s)) (rt_at (p @ '' '' @ quote (txtEscape s) @ []) (length (p @ '' '' @ quote (txtEscape s)))) =
      Inr (sep val @ quote (txtEscape s), rt_at (p @ '' '' @ quote (txtEscape s) @ []) (length (p @ '' '' @ quote (txtEscape s))))"
    by (subst rt_xfrText_loop.simps) simp
  then show ?case
    using rt_xfrText_element [OF text_body_escape, of "'' ''" val p s "[]"] 2 by (simp add: gap_def quote_def sep_def)
next
  case (3 s t segs)
  let ?t = "CHR '' '' # CHR 0x22 # texts_rest (t # segs)"
  have "rt_xfrText_loop True val (rt_at (p @ '' '' @ quote (txtEscape s) @ ?t) (length p)) =
      rt_xfrText_loop True (sep val @ quote (txtEscape s)) (rt_at ((p @ '' '' @ quote (txtEscape s)) @ ?t) (length (p @ '' '' @ quote (txtEscape s))))"
    using rt_xfrText_element [OF text_body_escape, of "'' ''" val p s ?t] by (simp add: gap_def)
  also have "\<dots> = Inr ((sep val @ quote (txtEscape s)) @ ?t,
      rt_at ((p @ '' '' @ quote (txtEscape s)) @ ?t) (length ((p @ '' '' @ quote (txtEscape s)) @ ?t)))"
    using 3 by (intro "3.IH") (simp_all add: quote_def)
  finally show ?case using 3 by (simp add: quote_def sep_def)
qed simp

lemma text_reads_texts:
  assumes "segs \<noteq> []"
  shows "text_reads (rt_xfrText True) True (texts segs) (texts segs)"
  unfolding text_reads_def
proof (intro allI impI)
  fix p sp t :: string assume gap: "gap sp" and "True \<longrightarrow> t = []"
  then have t: "t = []" by simp
  have "rt_xfrText_loop True [] (rt_at (p @ sp @ texts segs) (length p)) =
      Inr (texts segs, rt_at (p @ sp @ texts segs) (length (p @ sp @ texts segs)))"
  proof (cases segs rule: texts_rest.cases)
    case (2 s)
    then have x: "texts segs = quote (txtEscape s)" by (simp add: texts_eq quote_def)
    have "rt_xfrText_loop True (quote (txtEscape s)) (rt_at (p @ sp @ quote (txtEscape s)) (length (p @ sp @ quote (txtEscape s)))) =
        Inr (quote (txtEscape s), rt_at (p @ sp @ quote (txtEscape s)) (length (p @ sp @ quote (txtEscape s))))"
      by (subst rt_xfrText_loop.simps) simp
    then show ?thesis using rt_xfrText_element [OF text_body_escape gap, of "[]" p s "[]"] x by (simp add: sep_def)
  next
    case (3 s u r)
    let ?t = "CHR '' '' # CHR 0x22 # texts_rest (u # r)" let ?q = "quote (txtEscape s)"
    have x: "texts segs = ?q @ ?t" using 3 by (simp add: texts_eq quote_def)
    have "rt_xfrText_loop True [] (rt_at (p @ sp @ ?q @ ?t) (length p)) =
        rt_xfrText_loop True ?q (rt_at ((p @ sp @ ?q) @ ?t) (length (p @ sp @ ?q)))"
      using rt_xfrText_element [OF text_body_escape gap, of "[]" p s ?t] by (simp add: sep_def)
    also have "\<dots> = Inr (?q @ ?t, rt_at ((p @ sp @ ?q) @ ?t) (length ((p @ sp @ ?q) @ ?t)))"
      by (rule rt_xfrText_texts) (simp_all add: quote_def)
    finally show ?thesis using x by simp
  qed (use assms in simp)
  then show "rt_xfrText True (rt_at (p @ sp @ texts segs @ t) (length p)) =
      Inr (texts segs, rt_at (p @ sp @ texts segs @ t) (length (p @ sp @ texts segs)))"
    using t by (simp add: rt_xfrText_def)
qed


subsubsection \<open>Time stamps\<close>

lemma length_show_nat: "0 < w \<Longrightarrow> k < 10 ^ w \<Longrightarrow> length (show_nat k) \<le> w"
proof (induction w arbitrary: k)
  case (Suc w)
  show ?case
  proof (cases "k < 10")
    case True
    then show ?thesis by (subst show_nat.simps) simp
  next
    case False
    then have "0 < w" using Suc.prems(2) by (cases w) auto
    moreover have "k div 10 < 10 ^ w" using Suc.prems(2) by (intro less_mult_imp_div_less) simp
    ultimately have "length (show_nat (k div 10)) \<le> w" by (rule Suc.IH)
    then show ?thesis using False by (subst show_nat.simps) simp
  qed
qed simp

lemma digits_val_zeros: "digits_val (replicate m (CHR ''0'') @ s) = digits_val s"
proof -
  have "foldl (\<lambda>a c. 10 * a + digit_val c) 0 (replicate m (CHR ''0'')) = 0"
    by (induction m) (simp_all add: digit_val_def ucode_def)
  then show ?thesis by (simp add: digits_val_def)
qed

lemma pad_int_number:
  assumes "0 < w" "k < 10 ^ w"
  shows "length (pad_int w (int k)) = w" "\<forall>c \<in> set (pad_int w (int k)). isdigit c" "digits_val (pad_int w (int k)) = k"
proof -
  have "isdigit (CHR ''0'')" by (simp add: isdigit_def ucode_def)
  then show "\<forall>c \<in> set (pad_int w (int k)). isdigit c" using show_nat_digits by (auto simp: pad_int_def Let_def)
  show "length (pad_int w (int k)) = w" using length_show_nat [OF assms] by (simp add: pad_int_def Let_def)
  show "digits_val (pad_int w (int k)) = k" by (simp add: pad_int_def digits_val_zeros Let_def)
qed

lemma scan_int_pad:
  assumes "0 < w" "k < 10 ^ w"
  shows "scan_int w (pad_int w (int k) @ rest) = Some (int k, rest)"
proof -
  note p = pad_int_number [OF assms]
  have "pad_int w (int k) \<noteq> []" using p(1) assms(1) by auto
  then obtain c r where cr: "pad_int w (int k) = c # r" by (cases "pad_int w (int k)") auto
  have c: "\<not> isspace c" "c \<noteq> CHR ''-''" "c \<noteq> CHR ''+''"
    using p(2) cr isdigit_not_special [of c] by auto
  have "digit_prefix (take w (pad_int w (int k) @ rest)) = pad_int w (int k)"
    using p(1,2) by (simp add: digit_prefix_id)
  moreover have "drop w (pad_int w (int k) @ rest) = rest" using p(1) by simp
  ultimately show ?thesis using c p(3) unfolding cr by (simp add: scan_int_def Let_def p(1) [unfolded cr])
qed

text \<open>\<open>gmtime_r\<close> gives the calendar date of the time stamp \<open>v\<close>.\<close>

definition time_ok :: "(u32 \<Rightarrow> tm) \<Rightarrow> u32 \<Rightarrow> bool" where
  "time_ok gmtime v \<longleftrightarrow> (\<exists>n m d h mi s. date_ok n m d h mi s \<and> n \<le> 230 \<and> epoch_seconds n m d h mi s = int (unat v) \<and>
     gmtime v = \<lparr> tm_year = 70 + int n, tm_mon = int m, tm_mday = d, tm_hour = h, tm_min = mi, tm_sec = s \<rparr>)"

lemma text_reads_time:
  assumes "time_ok gmtime v"
  shows "text_reads rt_xfrTime tail v (time_text (gmtime v))"
proof -
  obtain n m d h mi s where dt: "date_ok n m d h mi s" "n \<le> 230" "epoch_seconds n m d h mi s = int (unat v)"
    and g: "gmtime v = \<lparr> tm_year = 70 + int n, tm_mon = int m, tm_mday = d, tm_hour = h, tm_min = mi, tm_sec = s \<rparr>"
    using assms by (auto simp: time_ok_def)
  have b: "m + 1 < 10 ^ 2" "nat d < 10 ^ 2" "nat h < 10 ^ 2" "nat mi < 10 ^ 2" "nat s < 10 ^ 2" "n + 1970 < 10 ^ 4"
    "0 \<le> d" "0 \<le> h" "0 \<le> mi" "0 \<le> s"
    using dt(1,2) by (auto simp: date_ok_def month_days_def split: if_splits)
  let ?x = "pad_int 4 (int (n + 1970)) @ pad_int 2 (int (m + 1)) @ pad_int 2 (int (nat d))
     @ pad_int 2 (int (nat h)) @ pad_int 2 (int (nat mi)) @ pad_int 2 (int (nat s))"
  have "length (pad_int 4 (int (n + 1970))) = 4" "length (pad_int 2 (int (m + 1))) = 2" "length (pad_int 2 (int (nat d))) = 2"
    "length (pad_int 2 (int (nat h))) = 2" "length (pad_int 2 (int (nat mi))) = 2" "length (pad_int 2 (int (nat s))) = 2"
    using b by (intro pad_int_number(1); simp)+
  then have len: "length ?x = 14" by (simp only: length_append)
  have x: "time_text (gmtime v) = ?x"
  proof -
    have e: "70 + int n + 1900 = int (n + 1970)" "int m + 1 = int (m + 1)" "d = int (nat d)" "h = int (nat h)"
      "mi = int (nat mi)" "s = int (nat s)" using b by simp_all
    have "time_text (gmtime v) = take 14 ?x" unfolding time_text_def g tm.simps e [symmetric] using e by simp
    then show ?thesis using len by simp
  qed
  have digits: "\<forall>c \<in> set ?x. isdigit c"
    unfolding set_append ball_Un using b by (intro conjI pad_int_number(2); simp)
  have w: "word_text (time_text (gmtime v))"
    using x len digits isdigit_not_dns_space unfolding word_text_def by (metis length_0_conv zero_neq_numeral)
  have sc: "scan_ints [4, 2, 2, 2, 2, 2] (?x @ []) = [int n + 1970, int m + 1, d, h, mi, s]"
  proof -
    have s2: "scan_int 2 (pad_int 2 x @ r) = Some (x, r)" if "0 \<le> x" "x < 100" for x r
      using scan_int_pad [of 2 "nat x" r] that by simp
    have s4: "scan_int 4 (pad_int 4 x @ r) = Some (x, r)" if "0 \<le> x" "x < 10000" for x r
      using scan_int_pad [of 4 "nat x" r] that by simp
    have "d < 100" "h < 100" "mi < 100" "s < 100" "int m + 1 < 100" "int n + 1970 < 10000" using b by simp_all
    then show ?thesis using b by (simp add: s4 s2 s2 [where r = "[]", simplified] add.commute)
  qed
  have tm: "timegm \<lparr> tm_year = 70 + int n, tm_mon = int m, tm_mday = d, tm_hour = h, tm_min = mi, tm_sec = s \<rparr> = Inr (int (unat v))"
    using timegm_epoch [OF dt(1,2)] dt(3) by simp
  show ?thesis
    unfolding text_reads_def
  proof (intro allI impI)
    fix p sp t :: string assume "gap sp" "ends_field t"
    then have l: "rt_xfrLabel (rt_at (p @ sp @ time_text (gmtime v) @ t) (length p)) =
        Inr (time_text (gmtime v), rt_at (p @ sp @ time_text (gmtime v) @ t) (length (p @ sp @ time_text (gmtime v))))"
      using lbl.rd_shw [OF w] by blast
    show "rt_xfrTime (rt_at (p @ sp @ time_text (gmtime v) @ t) (length p)) =
        Inr (v, rt_at (p @ sp @ time_text (gmtime v) @ t) (length (p @ sp @ time_text (gmtime v))))"
      unfolding rt_xfrTime_def l using sc x tm by (simp add: Let_def numeral_eq_Suc)
  qed
qed


subsubsection \<open>All field types\<close>

fun shown :: "(u16 \<Rightarrow> string) \<Rightarrow> (u32 \<Rightarrow> tm) \<Rightarrow> field \<Rightarrow> string" where
  "shown N gmtime (F8 v) = show_nat (unat (ucast v :: u32))"
| "shown N gmtime (F16 v) = show_nat (unat (ucast v :: u32))"
| "shown N gmtime (F32 v) = show_nat (unat v)"
| "shown N gmtime (F48 v) = show_nat (unat v)"
| "shown N gmtime (FIP v) = ip_text v"
| "shown N gmtime (FTime v) = time_text (gmtime v)"
| "shown N gmtime (FType v) = N v"
| "shown N gmtime (FLabel c s) = s"
| "shown N gmtime (FText m s) = s"
| "shown N gmtime (FBlob s) = Base64Encode s"
| "shown N gmtime (FHexBlob k s) = hex_text s"
| "shown N gmtime (FSizedBlob s) = []"

text \<open>
  What a field must satisfy to survive as text.  A sized blob never does: the reader of its
  base64 text goes on over the numbers that follow it.
\<close>

fun text_ok :: "(u16 \<Rightarrow> string) \<Rightarrow> (string \<Rightarrow> u16 result) \<Rightarrow> (u32 \<Rightarrow> tm) \<Rightarrow> field \<Rightarrow> bool" where
  "text_ok N T gmtime (FTime v) = time_ok gmtime v"
| "text_ok N T gmtime (FType v) = (word_text (N v) \<and> T (N v) = Inr v)"
| "text_ok N T gmtime (FLabel c s) = word_text s"
| "text_ok N T gmtime (FText m s) = (if m then \<exists>segs. segs \<noteq> [] \<and> s = texts segs else \<exists>b. s = quote b \<and> text_body b)"
| "text_ok N T gmtime (FBlob s) = (s \<noteq> [])"
| "text_ok N T gmtime (FSizedBlob s) = False"
| "text_ok N T gmtime _ = True"

lemma text_write_shown: "text_ok N T gmtime f \<Longrightarrow> text_write N gmtime f d = sep d @ shown N gmtime f"
  by (cases f) (simp_all add: tw_xfr8BitInt_def tw_xfr16BitInt_def tw_xfr32BitInt_def tw_xfr48BitInt_def tw_xfrIP_def
      tw_xfrTime_def tw_xfrType_def tw_xfrLabel_def tw_xfrText_def tw_xfrBlob_def tw_xfrHexBlob_hex_text Let_def)

lemma text_reads_type: "word_text w \<Longrightarrow> T w = Inr v \<Longrightarrow> text_reads (tmap f (rt_xfrType T)) tail (f v) w"
  by (simp add: text_reads_def tmap_def rt_xfrType_text)

lemma text_reads_blob: "v \<noteq> [] \<Longrightarrow> text_reads (tmap f rt_xfrBlob) True (f v) (Base64Encode v)"
  using rt_xfrBlob_text by (simp add: text_reads_def tmap_def)

lemma text_reads_hex_end: "text_reads (rt_xfrHexBlob True) True v (hex_text v)"
  unfolding text_reads_def
proof (intro allI impI)
  fix p sp t :: string assume "gap sp" "ends_field t" "True \<longrightarrow> t = []"
  then show "rt_xfrHexBlob True (rt_at (p @ sp @ hex_text v @ t) (length p)) =
      Inr (v, rt_at (p @ sp @ hex_text v @ t) (length (p @ sp @ hex_text v)))"
    using read_word [OF word_text_hex, of sp t p v] HEXDecode_hex_text [of v] substr_mid [of p sp "hex_text v" "[]"]
    by (simp add: rt_xfrHexBlob_def Let_def)
qed

lemma shown_not_Nil: "text_ok N T gmtime f \<Longrightarrow> shown N gmtime f \<noteq> []"
proof (cases f)
  case (FTime v)
  assume "text_ok N T gmtime f"
  have "time_text tm \<noteq> []" for tm
    using length_0_conv [of "time_text tm"] by (auto simp: time_text_def pad_int_def Let_def)
  then show ?thesis using FTime by simp
next
  case (FText m s)
  assume "text_ok N T gmtime f"
  then show ?thesis using FText by (auto simp: texts_eq quote_def split: if_splits)
next
  case (FBlob s)
  assume "text_ok N T gmtime f"
  then show ?thesis using FBlob by (cases s rule: Base64Encode.cases) (auto simp: Base64Encode_block_def)
next
  case (FHexBlob k s)
  then show ?thesis using word_text_hex by (simp add: word_text_def)
qed (auto simp: word_text_def hd_ip_text)

lemma field_text_reads:
  assumes "text_ok N T gmtime f"
  shows "text_reads (text_read T (ftype_of f)) (to_the_end (ftype_of f)) f (shown N gmtime f)"
proof (cases f)
  case (FTime v)
  then show ?thesis using assms text_reads_tmap [OF text_reads_time] by simp
next
  case (FText m s)
  then show ?thesis
    using assms text_reads_tmap [OF text_reads_texts] txtf.text_reads_shw [where f = "FText False"]
    by (cases m) auto
next
  case (FHexBlob k s)
  then show ?thesis
    using text_reads_tmap [OF text_reads_hex_end] hexblob.text_reads_shw [where f = "FHexBlob False"] by (cases k) auto
qed (use assms in \<open>simp_all add: int8.text_reads_shw int16.text_reads_shw int32.text_reads_shw int48.text_reads_shw
    ip.text_reads_shw lbl.text_reads_shw text_reads_type text_reads_blob\<close>)

lemma sep_gap: "\<exists>sp. gap sp \<and> sep d = d @ sp"
  by (cases "d = []") (auto simp: sep_def gap_def)

lemma text_write_fields_extends:
  "d \<noteq> [] \<Longrightarrow> list_all (text_ok N T gmtime) fs \<Longrightarrow>
   \<exists>t. text_write_fields N gmtime fs d = d @ t \<and> ends_field t \<and> (fs = [] \<longrightarrow> t = [])"
proof (induction fs arbitrary: d)
  case (Cons f fs)
  have "sep d @ shown N gmtime f \<noteq> []" using Cons.prems(1) by (simp add: sep_def)
  from Cons.IH [OF this] Cons.prems(2) obtain t where
    "text_write_fields N gmtime fs (sep d @ shown N gmtime f) = (sep d @ shown N gmtime f) @ t" by auto
  moreover have "text_write N gmtime f d = sep d @ shown N gmtime f"
    by (rule text_write_shown [where T = T]) (use Cons.prems(2) in simp)
  ultimately show ?case using Cons.prems(1) by (simp add: sep_def ends_field_def)
qed (simp add: ends_field_def)

lemma fields_text_read:
  "list_all (text_ok N T gmtime) fs \<Longrightarrow> tail_last (map ftype_of fs) \<Longrightarrow>
   text_read_fields T (map ftype_of fs) (rt_at (text_write_fields N gmtime fs d) (length d)) =
     Inr (fs, rt_at (text_write_fields N gmtime fs d) (length (text_write_fields N gmtime fs d)))"
proof (induction fs arbitrary: d)
  case (Cons f fs)
  let ?x = "shown N gmtime f" let ?w = "text_write_fields N gmtime fs (sep d @ ?x)"
  obtain sp where sp: "gap sp" "sep d = d @ sp" using sep_gap by blast
  obtain t where t: "?w = (sep d @ ?x) @ t" "ends_field t" "fs = [] \<longrightarrow> t = []"
    using text_write_fields_extends [of "sep d @ ?x" N T gmtime fs] shown_not_Nil [of N T gmtime f] Cons.prems(1) by auto
  have "to_the_end (ftype_of f) \<longrightarrow> fs = []" using Cons.prems(2) by (cases fs) auto
  then have "text_read T (ftype_of f) (rt_at (d @ sp @ ?x @ t) (length d)) = Inr (f, rt_at (d @ sp @ ?x @ t) (length (d @ sp @ ?x)))"
    using field_text_reads [of N T gmtime f] Cons.prems(1) sp(1) t(2,3) by (simp add: text_reads_def)
  moreover have "tail_last (map ftype_of fs)" using Cons.prems(2) by (cases fs) simp_all
  then have "text_read_fields T (map ftype_of fs) (rt_at ?w (length (sep d @ ?x))) = Inr (fs, rt_at ?w (length ?w))"
    using Cons.prems(1) by (intro Cons.IH) simp_all
  ultimately show ?case
    using t(1) sp(2) text_write_shown [of N T gmtime f d] Cons.prems(1) by (simp add: tmap_def)
qed simp

end
