(* ===== verification/NsecRecords.thy ===== *)
theory NsecRecords
  imports RecordFields
begin

text \<open>
  The denial of existence records of \<open>nsecrecords.cc\<close>: NSEC, NSEC3 and NSEC3PARAM.  The
  \<open>set<uint16_t>\<close> of types is its list in ascending order, as the code iterates over it, and
  \<open>insort_insert\<close> is its \<open>insert\<close>.  \<open>T\<close> and \<open>N\<close> are the look-ups in the table of type names.
\<close>

subsection \<open>Type lists in text\<close>

lemma rt_xfrType_progress:
  assumes "rt_xfrType T r = Inr (t, r')" "rt_pos r < length (rt_string r)"
  shows "rt_string r' = rt_string r \<and> rt_pos r < rt_pos r'"
proof -
  let ?s = "rt_string r" let ?p = "skip_while dns_isspace ?s (rt_pos r)"
  have "length (takeWhile dns_isspace (drop (rt_pos r) ?s)) \<le> length ?s - rt_pos r"
    using length_takeWhile_le [of dns_isspace "drop (rt_pos r) ?s"] by simp
  then have p: "rt_pos r \<le> ?p" "?p \<le> length ?s" using assms(2) by (simp_all add: skip_while_def)
  have ne: "?p \<noteq> length ?s" using assms(1) by (auto simp: rt_xfrType_def skipSpaces_def Let_def split: if_splits)
  have d: "drop ?p ?s = dropWhile dns_isspace (drop (rt_pos r) ?s)"
    unfolding skip_while_def add.commute [of "rt_pos r"] drop_drop [symmetric] by (rule dropWhile_eq_drop [symmetric])
  moreover have "drop ?p ?s \<noteq> []" using p(2) ne by simp
  ultimately have "\<not> dns_isspace (hd (drop ?p ?s))" using hd_dropWhile by metis
  then have "0 < length (takeWhile (\<lambda>c. \<not> dns_isspace c) (drop ?p ?s))"
    using \<open>drop ?p ?s \<noteq> []\<close> by (cases "drop ?p ?s") auto
  then have "?p < skip_while (\<lambda>c. \<not> dns_isspace c) ?s ?p" by (simp add: skip_while_def)
  then show ?thesis
    using assms(1) p(1) ne by (auto simp: rt_xfrType_def skipSpaces_def Let_def split: if_splits)
qed

text \<open>A reader never stands behind its end, so not being at the end is standing before it.\<close>

function read_types :: "(string \<Rightarrow> u16 result) \<Rightarrow> RecordTextReader \<Rightarrow> u16 list \<Rightarrow> u16 list result" where
  "read_types T r s =
     (if rt_pos r < length (rt_string r)
      then bindE (rt_xfrType T r) (\<lambda>(t, r'). read_types T r' (insort_insert t s))
      else Inr s)"
  by pat_completeness auto
termination
  by (relation "measure (\<lambda>(T, r, s). length (rt_string r) - rt_pos r)")
     (auto dest!: rt_xfrType_progress)

declare read_types.simps [simp del]

fun write_types :: "(u16 \<Rightarrow> string) \<Rightarrow> u16 list \<Rightarrow> string \<Rightarrow> string" where
  "write_types N [] ret = ret"
| "write_types N (t # ts) ret = write_types N ts (ret @ '' '' @ N t)"

subsection \<open>Type bitmaps\<close>

text \<open>
  Encoding walks the types in ascending order and collects the bits of one window of 256
  types in \<open>res\<close>, whose first two bytes are the window number and the length.  \<open>res\<close> holds no
  defined bytes before the first type; none of them is read.
\<close>

definition window_blob :: "byte list \<Rightarrow> int \<Rightarrow> nat \<Rightarrow> string" where
  "window_blob res window len = map b2c (take (len + 2) (res[0 := word_of_int window, 1 := word_of_nat len]))"

definition set_type_bit :: "nat \<Rightarrow> byte list \<Rightarrow> byte list" where
  "set_type_bit b res = res[2 + b div 8 := res ! (2 + b div 8) OR push_bit (7 - b mod 8) 1]"

fun windows_loop :: "u16 list \<Rightarrow> byte list \<Rightarrow> int \<Rightarrow> int \<Rightarrow> nat \<Rightarrow> string list \<Rightarrow> string list" where
  "windows_loop [] res oldWindow window len blobs = blobs @ [window_blob res window len]"
| "windows_loop (t # ts) res oldWindow window len blobs =
     (let bit = unat t mod 256; window = int (unat t div 256);
          (res, blobs) = (if window \<noteq> oldWindow
             then (replicate 34 0, if oldWindow > -1 then blobs @ [window_blob res oldWindow len] else blobs)
             else (res, blobs));
          oldWindow = window
      in windows_loop ts (set_type_bit bit res) oldWindow window (1 + bit div 8) blobs)"

definition bitmap_blobs :: "u16 list \<Rightarrow> string list" where
  "bitmap_blobs d_set = windows_loop d_set (replicate 34 0) (-1) 0 0 []"

fun xfrBlobs :: "string list \<Rightarrow> DNSPacketWriter \<Rightarrow> DNSPacketWriter" where
  "xfrBlobs [] pw = pw"
| "xfrBlobs (b # bs) pw = xfrBlobs bs (pw_xfrBlob b pw)"

text \<open>Decoding: bit 7 of byte \<open>k\<close> stands for type \<open>8 k\<close> of the window; types wrap at 16 bits.\<close>

definition byte_types :: "nat \<Rightarrow> nat \<Rightarrow> byte \<Rightarrow> u16 list \<Rightarrow> u16 list" where
  "byte_types window k val s =
     foldl (\<lambda>s bit. if drop_bit bit val AND 1 \<noteq> 0
                    then insort_insert (word_of_nat ((7 - bit) + 8 * k + 256 * window)) s else s) s [0..<8]"

fun window_types :: "nat \<Rightarrow> nat \<Rightarrow> string \<Rightarrow> u16 list \<Rightarrow> u16 list" where
  "window_types window k [] s = s"
| "window_types window k (c # cs) s = window_types window (k + 1) cs (byte_types window k (c2b c) s)"

fun bitmap_types :: "string \<Rightarrow> u16 list \<Rightarrow> u16 list result" where
  "bitmap_types (a # b # rest) s =
     (let window = ucode a; len = ucode b
      in if window = 0 \<and> len = 0 then Inr s
         else if len > length rest then Inl (MOADNSException ''NSEC record with bitmap length > packet length'')
         else bitmap_types (drop len rest) (window_types window 0 (take len rest) s))"
| "bitmap_types [a] s = Inr s"
| "bitmap_types [] s = Inr s"

definition read_bitmap :: "string \<Rightarrow> string \<Rightarrow> u16 list result" where
  "read_bitmap rname bitmap =
     (if bitmap = [] then Inr []
      else if length bitmap < 2 then Inl (MOADNSException (rname @ '' record with impossibly small bitmap''))
      else bitmap_types bitmap [])"

subsection \<open>NSEC\<close>

record NSECRecordContent =
  nsec_next :: string
  nsec_set :: "u16 list"

definition NSEC_of_text :: "(string \<Rightarrow> u16 result) \<Rightarrow> string \<Rightarrow> string \<Rightarrow> NSECRecordContent result" where
  "NSEC_of_text T content zone =
     bindE (rt_xfrLabel (RecordTextReader_init content zone)) (\<lambda>(next, rtr).
     bindE (read_types T rtr []) (\<lambda>s. Inr \<lparr> nsec_next = next, nsec_set = s \<rparr>))"

definition NSEC_toPacket :: "NSECRecordContent \<Rightarrow> DNSPacketWriter \<Rightarrow> DNSPacketWriter result" where
  "NSEC_toPacket rc pw =
     bindE (pw_xfrLabel (nsec_next rc) False pw) (\<lambda>pw. Inr (xfrBlobs (bitmap_blobs (nsec_set rc)) pw))"

definition NSEC_make :: "NSECRecordContent reader" where
  "NSEC_make =
     rbind getLabel (\<lambda>next. rbind xfrBlob (\<lambda>bitmap.
     rbind (rlift (read_bitmap ''NSEC'' bitmap)) (\<lambda>s. rreturn \<lparr> nsec_next = next, nsec_set = s \<rparr>)))"

definition NSEC_getZoneRepresentation :: "(u16 \<Rightarrow> string) \<Rightarrow> NSECRecordContent \<Rightarrow> string" where
  "NSEC_getZoneRepresentation N rc = write_types N (nsec_set rc) (tw_xfrLabel (nsec_next rc) [])"

subsection \<open>NSEC3\<close>

record NSEC3RecordContent =
  nsec3_algorithm :: byte
  nsec3_flags :: byte
  nsec3_iterations :: u16
  nsec3_salt :: string
  nsec3_nexthash :: string
  nsec3_set :: "u16 list"

definition NSEC3_of_text :: "(string \<Rightarrow> u16 result) \<Rightarrow> string \<Rightarrow> string \<Rightarrow> NSEC3RecordContent result" where
  "NSEC3_of_text T content zone =
     bindE (rt_xfr8BitInt (RecordTextReader_init content zone)) (\<lambda>(alg, rtr).
     bindE (rt_xfr8BitInt rtr) (\<lambda>(flags, rtr).
     bindE (rt_xfr16BitInt rtr) (\<lambda>(iter, rtr).
     bindE (rt_xfrHexBlob False rtr) (\<lambda>(salt, rtr).
     bindE (rt_xfrBase32HexBlob rtr) (\<lambda>(nexthash, rtr).
     bindE (read_types T rtr []) (\<lambda>s.
       Inr \<lparr> nsec3_algorithm = alg, nsec3_flags = flags, nsec3_iterations = iter, nsec3_salt = salt,
             nsec3_nexthash = nexthash, nsec3_set = s \<rparr>))))))"

text \<open>The lengths of salt and hash are written as one byte.\<close>

definition NSEC3_toPacket :: "NSEC3RecordContent \<Rightarrow> DNSPacketWriter \<Rightarrow> DNSPacketWriter result" where
  "NSEC3_toPacket rc pw =
     (let pw = pw_xfr8BitInt (nsec3_algorithm rc) pw;
          pw = pw_xfr8BitInt (nsec3_flags rc) pw;
          pw = pw_xfr16BitInt (nsec3_iterations rc) pw;
          pw = pw_xfr8BitInt (word_of_nat (length (nsec3_salt rc))) pw;
          pw = pw_xfrBlob (nsec3_salt rc) pw;
          pw = pw_xfr8BitInt (word_of_nat (length (nsec3_nexthash rc))) pw;
          pw = pw_xfrBlob (nsec3_nexthash rc) pw
      in Inr (xfrBlobs (bitmap_blobs (nsec3_set rc)) pw))"

definition NSEC3_make :: "NSEC3RecordContent reader" where
  "NSEC3_make =
     rbind get8BitInt (\<lambda>alg. rbind get8BitInt (\<lambda>flags. rbind get16BitInt (\<lambda>iter.
     rbind get8BitInt (\<lambda>len. rbind (xfrBlob_len (unat len)) (\<lambda>salt.
     rbind get8BitInt (\<lambda>len. rbind (xfrBlob_len (unat len)) (\<lambda>nexthash.
     rbind xfrBlob (\<lambda>bitmap. rbind (rlift (read_bitmap ''NSEC3'' bitmap)) (\<lambda>s.
       rreturn \<lparr> nsec3_algorithm = alg, nsec3_flags = flags, nsec3_iterations = iter, nsec3_salt = salt,
             nsec3_nexthash = nexthash, nsec3_set = s \<rparr>)))))))))"

definition NSEC3_getZoneRepresentation :: "(nat \<Rightarrow> byte) \<Rightarrow> (u16 \<Rightarrow> string) \<Rightarrow> NSEC3RecordContent \<Rightarrow> string" where
  "NSEC3_getZoneRepresentation beyond N rc =
     (let ret = tw_xfr8BitInt (nsec3_algorithm rc) [];
          ret = tw_xfr8BitInt (nsec3_flags rc) ret;
          ret = tw_xfr16BitInt (nsec3_iterations rc) ret;
          ret = tw_xfrHexBlob (nsec3_salt rc) ret;
          ret = tw_xfrBase32HexBlob beyond (nsec3_nexthash rc) ret
      in write_types N (nsec3_set rc) ret)"

subsection \<open>NSEC3PARAM\<close>

record NSEC3PARAMRecordContent =
  param_algorithm :: byte
  param_flags :: byte
  param_iterations :: u16
  param_saltlength :: byte
  param_salt :: string

text \<open>The constructor from text does not set the salt length: it stays what the memory holds.\<close>

definition NSEC3PARAM_of_text :: "byte \<Rightarrow> string \<Rightarrow> string \<Rightarrow> NSEC3PARAMRecordContent result" where
  "NSEC3PARAM_of_text mem content zone =
     bindE (rt_xfr8BitInt (RecordTextReader_init content zone)) (\<lambda>(alg, rtr).
     bindE (rt_xfr8BitInt rtr) (\<lambda>(flags, rtr).
     bindE (rt_xfr16BitInt rtr) (\<lambda>(iter, rtr).
     bindE (rt_xfrHexBlob False rtr) (\<lambda>(salt, rtr).
       Inr \<lparr> param_algorithm = alg, param_flags = flags, param_iterations = iter, param_saltlength = mem, param_salt = salt \<rparr>))))"

definition NSEC3PARAM_toPacket :: "NSEC3PARAMRecordContent \<Rightarrow> DNSPacketWriter \<Rightarrow> DNSPacketWriter result" where
  "NSEC3PARAM_toPacket rc pw =
     (let pw = pw_xfr8BitInt (param_algorithm rc) pw;
          pw = pw_xfr8BitInt (param_flags rc) pw;
          pw = pw_xfr16BitInt (param_iterations rc) pw;
          pw = pw_xfr8BitInt (word_of_nat (length (param_salt rc))) pw
      in Inr (pw_xfrBlob (param_salt rc) pw))"

definition NSEC3PARAM_make :: "NSEC3PARAMRecordContent reader" where
  "NSEC3PARAM_make =
     rbind get8BitInt (\<lambda>alg. rbind get8BitInt (\<lambda>flags. rbind get16BitInt (\<lambda>iter.
     rbind get8BitInt (\<lambda>len. rbind (xfrHexBlob False) (\<lambda>salt.
       rreturn \<lparr> param_algorithm = alg, param_flags = flags, param_iterations = iter, param_saltlength = len, param_salt = salt \<rparr>)))))"

definition NSEC3PARAM_getZoneRepresentation :: "NSEC3PARAMRecordContent \<Rightarrow> string" where
  "NSEC3PARAM_getZoneRepresentation rc =
     tw_xfrHexBlob (param_salt rc) (tw_xfr16BitInt (param_iterations rc)
       (tw_xfr8BitInt (param_flags rc) (tw_xfr8BitInt (param_algorithm rc) [])))"


subsection \<open>What a bitmap decodes to\<close>

definition ascending :: "u16 list \<Rightarrow> bool" where
  "ascending s \<longleftrightarrow> sorted s \<and> distinct s"

lemma ascending_insert: "ascending s \<Longrightarrow> ascending (insort_insert t s)"
  by (simp add: ascending_def sorted_insort_insert distinct_insort_insert)

lemma ascending_unique: "ascending a \<Longrightarrow> ascending b \<Longrightarrow> set a = set b \<Longrightarrow> a = b"
  by (simp add: ascending_def sorted_distinct_set_unique)

lemma foldl_insert:
  "set (foldl (\<lambda>s b. if P b then insort_insert (f b) s else s) s xs) = set s \<union> f ` {b \<in> set xs. P b}"
  by (induction xs arbitrary: s) (auto simp: set_insort_insert)

lemma foldl_insert_ascending:
  "ascending s \<Longrightarrow> ascending (foldl (\<lambda>s b. if P b then insort_insert (f b) s else s) s xs)"
  by (induction xs arbitrary: s) (auto intro: ascending_insert)

lemma byte_types_ascending: "ascending s \<Longrightarrow> ascending (byte_types w k v s)"
  unfolding byte_types_def by (rule foldl_insert_ascending)

lemma window_types_ascending: "ascending s \<Longrightarrow> ascending (window_types w k cs s)"
  by (induction w k cs s rule: window_types.induct) (auto intro: byte_types_ascending)

lemma bitmap_types_ascending: "ascending s \<Longrightarrow> bitmap_types bm s = Inr s' \<Longrightarrow> ascending s'"
proof (induction bm s rule: bitmap_types.induct)
  case (1 a b rest s)
  show ?case
  proof (cases "ucode a = 0 \<and> ucode b = 0 \<or> length rest < ucode b")
    case False
    then have "bitmap_types (drop (ucode b) rest) (window_types (ucode a) 0 (take (ucode b) rest) s) = Inr s'"
      using "1.prems"(2) by (simp add: Let_def split: if_splits)
    with 1 False window_types_ascending show ?thesis by blast
  qed (use 1 in \<open>auto simp: Let_def split: if_splits\<close>)
qed simp_all

text \<open>The type that bit \<open>i\<close> of a window stands for, and the bits that are set in its bytes.\<close>

definition window_type :: "nat \<Rightarrow> nat \<Rightarrow> u16" where
  "window_type w i = word_of_nat (256 * w + i)"

definition bits_set :: "byte list \<Rightarrow> nat set" where
  "bits_set bs = {i. i div 8 < length bs \<and> bit (bs ! (i div 8)) (7 - i mod 8)}"

lemma bits_set_Nil [simp]: "bits_set [] = {}"
  by (simp add: bits_set_def)

lemma bits_set_Cons:
  "bits_set (b # bs) = (\<lambda>j. 7 - j) ` {j. j < 8 \<and> bit b j} \<union> (\<lambda>i. 8 + i) ` bits_set bs" (is "_ = ?l \<union> ?r")
proof (intro set_eqI iffI)
  fix i assume i: "i \<in> bits_set (b # bs)"
  show "i \<in> ?l \<union> ?r"
  proof (cases "i < 8")
    case True
    then have "i = 7 - (7 - i mod 8)" "7 - i mod 8 < 8" by simp_all
    moreover have "bit b (7 - i mod 8)" using i True by (simp add: bits_set_def)
    ultimately show ?thesis by blast
  next
    case False
    then obtain j where j: "i = 8 + j" by (metis le_add_diff_inverse not_less)
    have "(8 + j) div 8 = Suc (j div 8)" by simp
    then have "j \<in> bits_set bs" using i j by (simp add: bits_set_def)
    then show ?thesis using j by blast
  qed
next
  fix i assume "i \<in> ?l \<union> ?r"
  then show "i \<in> bits_set (b # bs)"
  proof
    assume "i \<in> ?l"
    then obtain j where "j < 8" "bit b j" "i = 7 - j" by auto
    then show ?thesis by (simp add: bits_set_def)
  next
    assume "i \<in> ?r"
    then obtain j where j: "j \<in> bits_set bs" "i = 8 + j" by auto
    have "(8 + j) div 8 = Suc (j div 8)" by simp
    then show ?thesis using j by (simp add: bits_set_def)
  qed
qed

lemma set_byte_types:
  "set (byte_types w k v s) = set s \<union> (\<lambda>i. window_type w (8 * k + i)) ` (\<lambda>j. 7 - j) ` {j. j < 8 \<and> bit v j}"
proof -
  have "drop_bit j v AND 1 \<noteq> 0 \<longleftrightarrow> bit v j" for j
    by (simp add: bit_iff_odd_drop_bit and_one_eq odd_iff_mod_2_eq_one)
  then have "set (byte_types w k v s) = set s \<union> (\<lambda>j. word_of_nat (7 - j + 8 * k + 256 * w)) ` {j \<in> set [0..<8]. bit v j}"
    unfolding byte_types_def foldl_insert by simp
  moreover have "(\<lambda>j. word_of_nat (7 - j + 8 * k + 256 * w) :: u16) = (\<lambda>j. window_type w (8 * k + (7 - j)))"
    by (rule ext) (simp only: window_type_def add.commute add.left_commute)
  moreover have "{j \<in> set [0..<8]. bit v j} = {j. j < 8 \<and> bit v j}" by auto
  ultimately show ?thesis by (simp only: image_image)
qed

lemma set_window_types:
  "set (window_types w k cs s) = set s \<union> (\<lambda>i. window_type w (8 * k + i)) ` bits_set (map c2b cs)"
proof (induction w k cs s rule: window_types.induct)
  case (2 w k c cs s)
  have "(\<lambda>i. window_type w (8 * (k + 1) + i)) ` bits_set (map c2b cs) =
      (\<lambda>i. window_type w (8 * k + i)) ` (\<lambda>i. 8 + i) ` bits_set (map c2b cs)"
    unfolding image_image by (rule image_cong) (simp_all add: algebra_simps)
  then show ?case
    unfolding window_types.simps 2 set_byte_types list.map bits_set_Cons image_Un by (simp only: Un_assoc)
qed simp


text \<open>One window of the encoding decodes to the types of its bits.\<close>

lemma length_window_blob: "length res = 34 \<Longrightarrow> len \<le> 32 \<Longrightarrow> length (window_blob res w len) = len + 2"
  by (simp add: window_blob_def)

lemma window_blob_eq:
  assumes "length res = 34" "len \<le> 32"
  shows "window_blob res (int w) len = b2c (word_of_nat w) # b2c (word_of_nat len) # map b2c (take len (drop 2 res))"
proof -
  obtain a b r where "res = a # b # r" using assms(1) by (cases res; cases "tl res") auto
  then show ?thesis by (simp add: window_blob_def numeral_2_eq_2)
qed

lemma bitmap_types_window:
  assumes "length res = 34" "len \<le> 32" "w < 256" "0 < len"
  shows "bitmap_types (window_blob res (int w) len @ rest) s =
    bitmap_types rest (window_types w 0 (map b2c (take len (drop 2 res))) s)"
proof -
  have "ucode (b2c (word_of_nat w)) = w" "ucode (b2c (word_of_nat len)) = len"
    using assms(2,3) by (simp_all add: unat_of_nat take_bit_nat_def)
  moreover have "length (map b2c (take len (drop 2 res))) = len" using assms(1,2) by simp
  ultimately show ?thesis using assms(4) by (simp add: window_blob_eq [OF assms(1,2)] Let_def)
qed

text \<open>
  The state of the loop: \<open>res\<close> holds the bits of the current window, and all of them lie in
  the first \<open>len\<close> bytes.
\<close>

definition window_ok :: "byte list \<Rightarrow> nat \<Rightarrow> nat \<Rightarrow> bool" where
  "window_ok res w len \<longleftrightarrow> length res = 34 \<and> w < 256 \<and> 0 < len \<and> len \<le> 32 \<and>
     (\<forall>i \<in> bits_set (drop 2 res). i div 8 < len)"

definition held_types :: "byte list \<Rightarrow> nat \<Rightarrow> u16 set" where
  "held_types res w = window_type w ` bits_set (drop 2 res)"

lemma bits_set_take: "\<forall>i \<in> bits_set bs. i div 8 < len \<Longrightarrow> bits_set (take len bs) = bits_set bs"
  by (auto simp: bits_set_def)

lemma set_window_blob_types:
  assumes "window_ok res w len"
  shows "set (window_types w 0 (map b2c (take len (drop 2 res))) s) = set s \<union> held_types res w"
  using assms bits_set_take [of "drop 2 res" len]
  by (simp add: set_window_types window_ok_def held_types_def del: map_map)

text \<open>Setting one bit.\<close>

lemma bits_set_update:
  assumes "b < 8 * length bs"
  shows "bits_set (bs[b div 8 := bs ! (b div 8) OR push_bit (7 - b mod 8) 1]) = insert b (bits_set bs)"
proof (intro set_eqI iffI)
  fix i assume i: "i \<in> bits_set (bs[b div 8 := bs ! (b div 8) OR push_bit (7 - b mod 8) 1])"
  show "i \<in> insert b (bits_set bs)"
  proof (cases "i div 8 = b div 8")
    case True
    have "i = b" if "7 - i mod 8 = 7 - b mod 8"
    proof -
      have "i mod 8 < 8" "b mod 8 < 8" by simp_all
      then have "i mod 8 = b mod 8" using that by linarith
      then show ?thesis using True by (metis div_mult_mod_eq)
    qed
    then show ?thesis using i True assms by (auto simp: bits_set_def bit_or_iff bit_exp_iff)
  next
    case False
    then show ?thesis using i by (simp add: bits_set_def)
  qed
next
  fix i assume "i \<in> insert b (bits_set bs)"
  moreover have "b div 8 < length bs" using assms by (simp add: less_mult_imp_div_less mult.commute)
  ultimately show "i \<in> bits_set (bs[b div 8 := bs ! (b div 8) OR push_bit (7 - b mod 8) 1])"
    by (auto simp: bits_set_def nth_list_update bit_or_iff bit_exp_iff)
qed

lemma drop2_update: "drop 2 (res[2 + i := x]) = (drop 2 res)[i := x]"
  by (cases res; simp; cases "tl res"; simp)

lemma set_bit_in_window:
  assumes "length res = 34" "b < 256"
  shows "bits_set (drop 2 (set_type_bit b res)) = insert b (bits_set (drop 2 res))"
  unfolding set_type_bit_def drop2_update using bits_set_update [of b "drop 2 res"] assms by simp


text \<open>
  The loop adds to the blobs and never looks at them; what it adds decodes to the types of
  the current window and all the types still to come.
\<close>

lemma windows_loop_append:
  "windows_loop ts res old w len blobs = blobs @ windows_loop ts res old w len []"
proof (induction ts arbitrary: res old w len blobs)
  case (Cons t ts)
  let ?w = "int (unat t div 256)"
  show ?case
    unfolding windows_loop.simps Let_def split_beta
    by (cases "?w \<noteq> old"; cases "old > -1"; simp; subst (1 2) Cons; simp)
qed simp

lemma length_set_type_bit [simp]: "length (set_type_bit b res) = length res"
  by (simp add: set_type_bit_def)

lemma held_types_update:
  assumes "length res = 34" "unat t div 256 = w"
  shows "held_types (set_type_bit (unat t mod 256) res) w = insert t (held_types res w)"
proof -
  have "256 * w + unat t mod 256 = unat t" using assms(2) mult_div_mod_eq [of 256 "unat t"] by simp
  then have "window_type w (unat t mod 256) = t" by (simp only: window_type_def) simp
  then show ?thesis
    unfolding held_types_def by (subst set_bit_in_window) (use assms(1) in simp_all)
qed

lemma window_ok_update:
  assumes "length res = 34" "w < 256" "b < 256" "\<forall>i \<in> bits_set (drop 2 res). i div 8 \<le> b div 8"
  shows "window_ok (set_type_bit b res) w (1 + b div 8)"
proof -
  have "b div 8 < 32" using assms(3) by (simp add: less_mult_imp_div_less)
  then show ?thesis
    unfolding window_ok_def set_bit_in_window [OF assms(1,3)] using assms by auto
qed

lemma bits_set_zero: "bits_set (drop 2 (replicate 34 0)) = {}"
  by (auto simp: bits_set_def)

lemma windows_loop_step:
  "int (unat t div 256) = old \<Longrightarrow>
     windows_loop (t # ts) res old w len blobs = windows_loop ts (set_type_bit (unat t mod 256) res) old old (1 + unat t mod 256 div 8) blobs"
  "int (unat t div 256) \<noteq> old \<Longrightarrow> old > -1 \<Longrightarrow>
     windows_loop (t # ts) res old w len [] = window_blob res old len # windows_loop ts (set_type_bit (unat t mod 256) (replicate 34 0))
       (int (unat t div 256)) (int (unat t div 256)) (1 + unat t mod 256 div 8) []"
  "windows_loop (t # ts) res (-1) w len blobs = windows_loop ts (set_type_bit (unat t mod 256) (replicate 34 0))
       (int (unat t div 256)) (int (unat t div 256)) (1 + unat t mod 256 div 8) blobs"
  by (auto simp: Let_def) (subst windows_loop_append, simp)

text \<open>All types of the window so far come before a later type of the same window.\<close>

definition window_below :: "byte list \<Rightarrow> nat \<Rightarrow> u16 list \<Rightarrow> bool" where
  "window_below res w ts \<longleftrightarrow> (\<forall>t \<in> set ts. w \<le> unat t div 256 \<and>
     (unat t div 256 = w \<longrightarrow> (\<forall>i \<in> bits_set (drop 2 res). i div 8 \<le> unat t mod 256 div 8)))"

lemma window_below_next:
  assumes "ascending (t # ts)" "length res = 34" "\<forall>i \<in> bits_set (drop 2 res). i div 8 \<le> unat t mod 256 div 8"
  shows "window_below (set_type_bit (unat t mod 256) res) (unat t div 256) ts"
  unfolding window_below_def
proof (intro ballI conjI impI)
  fix u assume u: "u \<in> set ts"
  have "t < u" using assms(1) u by (auto simp: ascending_def order_less_le)
  then have less: "unat t < unat u" by (simp add: word_less_nat_alt)
  from less show "unat t div 256 \<le> unat u div 256" by (simp add: div_le_mono)
  fix i assume same: "unat u div 256 = unat t div 256" and "i \<in> bits_set (drop 2 (set_type_bit (unat t mod 256) res))"
  then have "i div 8 \<le> unat t mod 256 div 8"
    using assms(3) set_bit_in_window [OF assms(2), of "unat t mod 256"] by auto
  also have "unat t mod 256 \<le> unat u mod 256"
    using less same mult_div_mod_eq [of 256 "unat t"] mult_div_mod_eq [of 256 "unat u"] by linarith
  then have "unat t mod 256 div 8 \<le> unat u mod 256 div 8" by (rule div_le_mono)
  finally show "i div 8 \<le> unat u mod 256 div 8" .
qed

lemma windows_loop_types:
  "ascending ts \<Longrightarrow> window_ok res w len \<Longrightarrow> window_below res w ts \<Longrightarrow>
   \<exists>s'. bitmap_types (concat (windows_loop ts res (int w) (int w) len [])) s = Inr s' \<and>
     set s' = set s \<union> held_types res w \<union> set ts"
proof (induction ts arbitrary: res w len s)
  case Nil
  then have "bitmap_types (window_blob res (int w) len @ []) s = Inr (window_types w 0 (map b2c (take len (drop 2 res))) s)"
    by (subst bitmap_types_window) (simp_all add: window_ok_def)
  then show ?case using set_window_blob_types [OF Nil(2)] by auto
next
  case (Cons t ts)
  let ?b = "unat t mod 256" let ?w = "unat t div 256"
  have asc: "ascending ts" using Cons.prems(1) by (simp add: ascending_def)
  have l: "length res = 34" "w < 256" using Cons.prems(2) by (simp_all add: window_ok_def)
  have w': "?w < 256" using unat_u16_less [of t] by (simp add: less_mult_imp_div_less)
  show ?case
  proof (cases "?w = w")
    case True
    then have le: "\<forall>i \<in> bits_set (drop 2 res). i div 8 \<le> ?b div 8" using Cons.prems(3) by (simp add: window_below_def)
    have "window_ok (set_type_bit ?b res) w (1 + ?b div 8)" using window_ok_update [OF l _ le] by simp
    moreover have "window_below (set_type_bit ?b res) w ts" using window_below_next [OF Cons.prems(1) l(1) le] True by simp
    ultimately obtain s' where
      "bitmap_types (concat (windows_loop ts (set_type_bit ?b res) (int w) (int w) (1 + ?b div 8) [])) s = Inr s'"
      "set s' = set s \<union> held_types (set_type_bit ?b res) w \<union> set ts" using Cons.IH [OF asc] by blast
    then show ?thesis using True l(1) windows_loop_step(1) [of t "int w"] held_types_update [OF l(1) True] by auto
  next
    case False
    let ?r = "set_type_bit ?b (replicate 34 0)" let ?s = "window_types w 0 (map b2c (take len (drop 2 res))) s"
    have z: "\<forall>i \<in> bits_set (drop 2 (replicate 34 0)). i div 8 \<le> ?b div 8" by (simp only: bits_set_zero) simp
    have "window_ok ?r ?w (1 + ?b div 8)" using window_ok_update [OF _ w' _ z] by simp
    moreover have "window_below ?r ?w ts" using window_below_next [OF Cons.prems(1) _ z] by simp
    ultimately obtain s' where
      "bitmap_types (concat (windows_loop ts ?r (int ?w) (int ?w) (1 + ?b div 8) [])) ?s = Inr s'"
      "set s' = set ?s \<union> held_types ?r ?w \<union> set ts" using Cons.IH [OF asc] by blast
    moreover have "held_types ?r ?w = {t}"
      using held_types_update [of "replicate 34 0" t ?w] by (simp add: held_types_def bits_set_zero del: drop_replicate)
    moreover have "set ?s = set s \<union> held_types res w" by (rule set_window_blob_types [OF Cons.prems(2)])
    moreover have "bitmap_types (window_blob res (int w) len @ rest) s = bitmap_types rest ?s" for rest
      using Cons.prems(2) by (intro bitmap_types_window) (simp_all add: window_ok_def)
    moreover have "windows_loop (t # ts) res (int w) (int w) len [] = window_blob res (int w) len # windows_loop ts ?r (int ?w) (int ?w) (1 + ?b div 8) []"
      by (rule windows_loop_step(2)) (use False in simp_all)
    ultimately show ?thesis by auto
  qed
qed


lemma bitmap_types_blobs:
  assumes "ascending ts"
  shows "bitmap_types (concat (bitmap_blobs ts)) [] = Inr ts"
proof (cases ts)
  case Nil
  have "window_blob (replicate 34 0) (int 0) 0 = [b2c 0, b2c 0]"
    by (subst window_blob_eq) simp_all
  then have "concat (bitmap_blobs ts) = [b2c 0, b2c 0]" using Nil by (simp add: bitmap_blobs_def)
  then show ?thesis using Nil by simp
next
  case (Cons t ts')
  let ?b = "unat t mod 256" let ?w = "unat t div 256" let ?r = "set_type_bit ?b (replicate 34 0)"
  have z: "\<forall>i \<in> bits_set (drop 2 (replicate 34 0)). i div 8 \<le> ?b div 8" by (simp only: bits_set_zero) simp
  have w': "?w < 256" using unat_u16_less [of t] by (simp add: less_mult_imp_div_less)
  have "ascending ts'" using assms Cons by (simp add: ascending_def)
  moreover have "window_ok ?r ?w (1 + ?b div 8)" using window_ok_update [OF _ w' _ z] by simp
  moreover have "window_below ?r ?w ts'" using window_below_next [of t ts', OF _ _ z] assms Cons by simp
  ultimately obtain s' where s': "bitmap_types (concat (windows_loop ts' ?r (int ?w) (int ?w) (1 + ?b div 8) [])) [] = Inr s'"
    "set s' = set [] \<union> held_types ?r ?w \<union> set ts'" using windows_loop_types by blast
  have "held_types ?r ?w = {t}"
    using held_types_update [of "replicate 34 0" t ?w] by (simp add: held_types_def bits_set_zero del: drop_replicate)
  then have "set s' = set ts" using s'(2) Cons by auto
  moreover have "ascending s'" by (rule bitmap_types_ascending [OF _ s'(1)]) (simp add: ascending_def)
  ultimately have "s' = ts" using ascending_unique assms by blast
  then show ?thesis using s'(1) Cons windows_loop_step(3) [of t ts' "replicate 34 0"] by (simp add: bitmap_blobs_def)
qed

lemma length_windows_loop:
  "length res = 34 \<Longrightarrow> len \<le> 32 \<Longrightarrow> 2 \<le> length (concat (windows_loop ts res w' w len blobs))"
proof (induction ts arbitrary: res w' w len blobs)
  case (Cons t ts)
  have "unat t mod 256 div 8 < 32" by (simp add: less_mult_imp_div_less)
  then show ?case
    unfolding windows_loop.simps Let_def split_beta
    using Cons.prems by (intro Cons.IH) (auto split: if_splits)
qed (simp add: length_window_blob)

lemma read_bitmap_blobs: "ascending ts \<Longrightarrow> read_bitmap rname (concat (bitmap_blobs ts)) = Inr ts"
proof -
  have l: "2 \<le> length (concat (bitmap_blobs ts))"
    using length_windows_loop [of "replicate 34 0" 0 ts "-1" 0 "[]"] by (simp add: bitmap_blobs_def)
  then have "concat (bitmap_blobs ts) \<noteq> []" by (metis list.size(3) not_numeral_le_zero)
  then show "ascending ts \<Longrightarrow> ?thesis"
    unfolding read_bitmap_def using l bitmap_types_blobs by (simp only: if_False not_less [symmetric])
qed

subsection \<open>The records on the wire\<close>

lemma xfrBlobs_append: "xfrBlobs bs pw = pw_append (map c2b (concat bs)) pw"
  by (induction bs arbitrary: pw) (simp_all add: pw_xfrBlob_def pw_append_def)

lemma reads_rlift: "x = Inr v \<Longrightarrow> reads (rlift x) tail v []"
  by (simp add: reads_def rlift_def)

lemma reads_blob_text: "reads xfrBlob True s (map c2b s)"
  using reads_blob [of "map c2b s"] by (simp del: map_map)

lemma reads_tail_bitmap:
  "ascending ts \<Longrightarrow> reads (rbind xfrBlob (\<lambda>bitmap. rbind (rlift (read_bitmap rname bitmap)) (\<lambda>s. rreturn (f s)))) True (f ts)
     (map c2b (concat (bitmap_blobs ts)))"
proof -
  assume a: "ascending ts"
  have "rbind xfrBlob (\<lambda>bitmap. rbind (rlift (read_bitmap rname bitmap)) (\<lambda>s. rreturn (f s))) (on_wire start len (pre @ bs @ post) (length pre)) =
      Inr (f ts, on_wire start len (pre @ bs @ post) (length pre + length bs))"
    if "in_record start len pre bs post True" "bs = map c2b (concat (bitmap_blobs ts))" for start len pre bs post
  proof -
    have "xfrBlob (on_wire start len (pre @ bs @ post) (length pre)) =
        Inr (concat (bitmap_blobs ts), on_wire start len (pre @ bs @ post) (length pre + length bs))"
      using reads_blob_text [of "concat (bitmap_blobs ts)"] that unfolding reads_def by blast
    then show ?thesis using read_bitmap_blobs [OF a] by (simp add: rbind_def rlift_def rreturn_def)
  qed
  then show ?thesis by (simp add: reads_def)
qed

interpretation nsec: wire_field NSEC_make NSEC_toPacket "\<lambda>rc. shown_ok (nsec_next rc) \<and> ascending (nsec_set rc)" True
proof
  fix rc :: NSECRecordContent and pw assume ok: "shown_ok (nsec_next rc) \<and> ascending (nsec_set rc)" and pw: "plain pw"
  obtain ls where ls: "list_all valid_label ls" "nsec_next rc = shown_name ls" using ok by (auto simp: shown_ok_def)
  let ?n = "wire_labels ls @ [0]" let ?b = "map c2b (concat (bitmap_blobs (nsec_set rc)))"
  obtain lmap where "pw_xfrLabel (nsec_next rc) False pw = Inr (pw\<lparr> pw_record := pw_record pw @ ?n, pw_labelmap := lmap \<rparr>)"
    using writes_label [OF ls(1) pw, of False] ls(2) by (auto simp: writes_def)
  then have "writes (NSEC_toPacket rc) pw (?n @ ?b)"
    unfolding writes_def by (intro exI [of _ lmap]) (simp add: NSEC_toPacket_def xfrBlobs_append pw_append_def)
  moreover have "reads NSEC_make True rc (?n @ ?b)"
    unfolding NSEC_make_def
  proof (rule reads_rbind [OF reads_label [OF ls(1)]])
    show "reads (rbind xfrBlob (\<lambda>bitmap. rbind (rlift (read_bitmap ''NSEC'' bitmap))
        (\<lambda>s. rreturn \<lparr> nsec_next = shown_name ls, nsec_set = s \<rparr>))) True rc ?b"
      using reads_tail_bitmap [of "nsec_set rc" "''NSEC''" "\<lambda>s. \<lparr> nsec_next = shown_name ls, nsec_set = s \<rparr>"] ok ls(2) by (cases rc) simp
  qed
  ultimately show "\<exists>bs. writes (NSEC_toPacket rc) pw bs \<and> reads NSEC_make True rc bs" by blast
qed


lemma reads_salt:
  "length s < 256 \<Longrightarrow> reads (f s) tail v bs \<Longrightarrow>
   reads (rbind get8BitInt (\<lambda>len. rbind (xfrBlob_len (unat len)) f)) tail v (([word_of_nat (length s)] @ map c2b s) @ bs)"
proof -
  assume s: "length s < 256" and r: "reads (f s) tail v bs"
  have u: "unat (word_of_nat (length s) :: byte) = length (map c2b s)" using s by (simp add: unat_of_nat take_bit_nat_def)
  have "reads (xfrBlob_len (unat (word_of_nat (length s) :: byte))) False s (map c2b s)"
    using reads_sized [of "map c2b s"] unfolding u by (simp del: map_map)
  then have "reads (rbind (xfrBlob_len (unat (word_of_nat (length s) :: byte))) f) tail v (map c2b s @ bs)"
    using r by (rule reads_rbind)
  then have "reads (rbind get8BitInt (\<lambda>len. rbind (xfrBlob_len (unat len)) f)) tail v ([word_of_nat (length s)] @ map c2b s @ bs)"
    by (rule reads_rbind [OF reads_get8])
  then show ?thesis by simp
qed

definition nsec3_ok :: "NSEC3RecordContent \<Rightarrow> bool" where
  "nsec3_ok rc \<longleftrightarrow> length (nsec3_salt rc) < 256 \<and> length (nsec3_nexthash rc) < 256 \<and> ascending (nsec3_set rc)"

interpretation nsec3: wire_field NSEC3_make NSEC3_toPacket nsec3_ok True
proof
  fix rc :: NSEC3RecordContent and pw assume ok: "nsec3_ok rc" and pw: "plain pw"
  let ?s = "[word_of_nat (length (nsec3_salt rc))] @ map c2b (nsec3_salt rc)"
  let ?h = "[word_of_nat (length (nsec3_nexthash rc))] @ map c2b (nsec3_nexthash rc)"
  let ?b = "map c2b (concat (bitmap_blobs (nsec3_set rc)))"
  let ?bs = "[nsec3_algorithm rc] @ [nsec3_flags rc] @ be_bytes16 (nsec3_iterations rc) @ ?s @ ?h @ ?b"
  have "NSEC3_toPacket rc pw = Inr (pw_append ?bs pw)"
    by (simp add: NSEC3_toPacket_def Let_def xfrBlobs_append pw_append_def pw_xfr8BitInt_def pw_xfr16BitInt_def pw_xfrBlob_def)
  then have "writes (NSEC3_toPacket rc) pw ?bs" using writes_append [of ?bs pw] by (simp add: writes_def)
  moreover have "reads NSEC3_make True rc ?bs"
    unfolding NSEC3_make_def
    apply (rule reads_rbind [OF reads_get8])
    apply (rule reads_rbind [OF reads_get8])
    apply (rule reads_rbind [OF reads_u16])
    apply (rule reads_salt, use ok in \<open>simp add: nsec3_ok_def\<close>)
    apply (rule reads_salt, use ok in \<open>simp add: nsec3_ok_def\<close>)
    using reads_tail_bitmap [of "nsec3_set rc" "''NSEC3''" "\<lambda>s. \<lparr> nsec3_algorithm = nsec3_algorithm rc, nsec3_flags = nsec3_flags rc,
        nsec3_iterations = nsec3_iterations rc, nsec3_salt = nsec3_salt rc, nsec3_nexthash = nsec3_nexthash rc, nsec3_set = s \<rparr>"] ok
    by (cases rc) (simp add: nsec3_ok_def)
  ultimately show "\<exists>bs. writes (NSEC3_toPacket rc) pw bs \<and> reads NSEC3_make True rc bs" by blast
qed

definition nsec3param_ok :: "NSEC3PARAMRecordContent \<Rightarrow> bool" where
  "nsec3param_ok rc \<longleftrightarrow> param_saltlength rc = word_of_nat (length (param_salt rc))"

interpretation nsec3param: wire_field NSEC3PARAM_make NSEC3PARAM_toPacket nsec3param_ok True
proof
  fix rc :: NSEC3PARAMRecordContent and pw assume ok: "nsec3param_ok rc" and pw: "plain pw"
  let ?bs = "[param_algorithm rc] @ [param_flags rc] @ be_bytes16 (param_iterations rc) @ [param_saltlength rc] @ map c2b (param_salt rc) @ []"
  have "NSEC3PARAM_toPacket rc pw = Inr (pw_append ?bs pw)"
    using ok by (simp add: NSEC3PARAM_toPacket_def Let_def nsec3param_ok_def pw_append_def pw_xfr8BitInt_def pw_xfr16BitInt_def pw_xfrBlob_def)
  then have "writes (NSEC3PARAM_toPacket rc) pw ?bs" using writes_append [of ?bs pw] by (simp add: writes_def)
  moreover have "reads NSEC3PARAM_make True rc ?bs"
    unfolding NSEC3PARAM_make_def
    apply (rule reads_rbind [OF reads_get8])
    apply (rule reads_rbind [OF reads_get8])
    apply (rule reads_rbind [OF reads_u16])
    apply (rule reads_rbind [OF reads_get8])
    using reads_rmap [OF reads_blob_text [of "param_salt rc"], of "\<lambda>salt. \<lparr> param_algorithm = param_algorithm rc, param_flags = param_flags rc,
        param_iterations = param_iterations rc, param_saltlength = param_saltlength rc, param_salt = salt \<rparr>"]
    by (cases rc) (simp add: rmap_def xfrHexBlob_def)
  ultimately show "\<exists>bs. writes (NSEC3PARAM_toPacket rc) pw bs \<and> reads NSEC3PARAM_make True rc bs" by blast
qed


subsection \<open>Properties\<close>

text \<open>
  Property C22.  The type bitmap of NSEC and NSEC3 records decodes to exactly the set of types
  it was made from, whatever the windows and including the empty set; and whatever bitmap is
  decoded, the set that results is in ascending order without duplicates.
\<close>

theorem nsec_bitmap_roundtrip:
  "(ascending ts \<longrightarrow> read_bitmap rname (concat (bitmap_blobs ts)) = Inr ts) \<and>
   (read_bitmap rname bm = Inr s \<longrightarrow> ascending s)"
proof (intro conjI impI)
  show "ascending ts \<Longrightarrow> read_bitmap rname (concat (bitmap_blobs ts)) = Inr ts" by (rule read_bitmap_blobs)
  have n: "ascending []" by (simp add: ascending_def)
  then show "read_bitmap rname bm = Inr s \<Longrightarrow> ascending s"
    using bitmap_types_ascending [OF n, of bm s] by (auto simp: read_bitmap_def split: if_splits)
qed

theorem nsec_bitmap_roundtrip_witness:
  "read_bitmap ''NSEC'' (concat (bitmap_blobs [1, 46, 257])) = Inr [1, 46, 257] \<and> ascending [1, 46, 257]"
proof -
  have a: "ascending [1, 46, 257]" by (simp add: ascending_def)
  from a nsec_bitmap_roundtrip have "read_bitmap ''NSEC'' (concat (bitmap_blobs [1, 46, 257])) = Inr [1, 46, 257]" by blast
  with nsec_bitmap_roundtrip show ?thesis by blast
qed

text \<open>
  An NSEC3 record with salt and hash of at most 255 bytes, written into a record
  and read back by \<open>make\<close>, is the same record, and the reader has used up its content.
\<close>

theorem NSEC3_wire_roundtrip:
  assumes "nsec3_ok rc" "plain pw"
  shows "\<exists>bs pw'. NSEC3_toPacket rc pw = Inr pw' \<and> pw_record pw' = pw_record pw @ bs \<and>
    (\<forall>pre post. length (pre @ bs @ post) < 65536 \<longrightarrow>
       NSEC3_make (on_wire (length pre) (length bs) (pre @ bs @ post) (length pre)) =
         Inr (rc, on_wire (length pre) (length bs) (pre @ bs @ post) (length pre + length bs)))"
proof -
  obtain bs pw' where "NSEC3_toPacket rc pw = Inr pw'" "pw_record pw' = pw_record pw @ bs" "reads NSEC3_make True rc bs"
    using nsec3.written_read [OF assms] by blast
  then show ?thesis by (intro exI [of _ bs] exI [of _ pw']) (simp add: reads_def in_record_def)
qed

definition example_nsec3 :: NSEC3RecordContent where
  "example_nsec3 = \<lparr> nsec3_algorithm = 1, nsec3_flags = 0, nsec3_iterations = 10, nsec3_salt = ''s'',
     nsec3_nexthash = ''h'', nsec3_set = [1, 46] \<rparr>"

theorem NSEC3_wire_roundtrip_witness:
  "NSEC3_make (on_wire 0 16 [1, 0, 0, 10, 1, 0x73, 1, 0x68, 0, 6, 0x40, 0, 0, 0, 0, 2] 0) =
    Inr (example_nsec3, on_wire 0 16 [1, 0, 0, 10, 1, 0x73, 1, 0x68, 0, 6, 0x40, 0, 0, 0, 0, 2] 16)"
proof -
  let ?bs = "[1, 0, 0, 10, 1, 0x73, 1, 0x68, 0, 6, 0x40, 0, 0, 0, 0, 2] :: byte list"
  let ?pw = "example_writer\<lparr> pw_canonic := True \<rparr>"
  have ok: "nsec3_ok example_nsec3" by (simp add: nsec3_ok_def example_nsec3_def ascending_def)
  have plain: "plain ?pw" by (simp add: plain_def example_writer_def)
  have "bitmap_blobs [1, 46] = [map b2c [0, 6, 0x40, 0, 0, 0, 0, 2]]" by code_simp
  then have c: "NSEC3_toPacket example_nsec3 ?pw = Inr (?pw\<lparr> pw_record := ?bs \<rparr>)"
    by (simp add: NSEC3_toPacket_def example_nsec3_def xfrBlobs_append
        pw_xfr8BitInt_def pw_xfr16BitInt_def pw_xfrBlob_def pw_append_def be_bytes16_def example_writer_def)
      (simp add: c2b_def)
  obtain bs pw' where w: "NSEC3_toPacket example_nsec3 ?pw = Inr pw'" "pw_record pw' = pw_record ?pw @ bs"
    and r: "\<forall>pre post. length (pre @ bs @ post) < 65536 \<longrightarrow>
       NSEC3_make (on_wire (length pre) (length bs) (pre @ bs @ post) (length pre)) =
         Inr (example_nsec3, on_wire (length pre) (length bs) (pre @ bs @ post) (length pre + length bs))"
    using NSEC3_wire_roundtrip [OF ok plain] by (elim exE conjE)
  from c w(1) have "pw' = ?pw\<lparr> pw_record := ?bs \<rparr>" by (simp only: sum.inject)
  then have "bs = ?bs" using w(2) by (simp add: example_writer_def)
  moreover from this have l: "length bs = 16" by simp
  have "length ([] @ bs @ []) < 65536" using l by simp
  from r [rule_format, OF this] have "NSEC3_make (on_wire 0 16 bs 0) = Inr (example_nsec3, on_wire 0 16 bs 16)"
    by (simp only: l list.size append_Nil append_Nil2 add_0)
  ultimately show ?thesis by (simp only:)
qed

end
