(* ===== verification/LocRecord.thy ===== *)
theory LocRecord
  imports RecordFields
begin

text \<open>
  The location record of \<open>sillyrecords.cc\<close>: its binary form and the parser of its text.  The
  parser walks the C string of the content; a read behind the terminating NUL is undefined.
  The numbers are the 32-bit integers of the source, which the result keeps modulo \<open>2 ^ 32\<close>.
  Printing uses floating point numbers and is not modelled.
\<close>

subsection \<open>Walking a C string\<close>

definition cat :: "string \<Rightarrow> nat \<Rightarrow> char result" where
  "cat s p = (if p < length s then Inr (s ! p) else if p = length s then Inr (CHR 0x00) else Inl UndefinedBehaviour)"

lemma cat_Inr: "cat s p = Inr c \<Longrightarrow> p \<le> length s"
  by (auto simp: cat_def split: if_splits)

function read_digits :: "string \<Rightarrow> nat \<Rightarrow> u32 \<Rightarrow> (u32 \<times> nat) result" where
  "read_digits s cp val =
     bindE (cat s cp) (\<lambda>c.
       if isdigit c then read_digits s (cp + 1) (val * 10 + word_of_nat (digit_val c)) else Inr (val, cp))"
  by pat_completeness auto
termination
  by (relation "measure (\<lambda>(s, cp, val). Suc (length s) - cp)") (auto dest: cat_Inr)

declare read_digits.simps [simp del]

text \<open>\<open>while (P(*cp)) cp++\<close>, without a look at the end of the string.\<close>

function skip_chars :: "(char \<Rightarrow> bool) \<Rightarrow> string \<Rightarrow> nat \<Rightarrow> nat result" where
  "skip_chars P s cp = bindE (cat s cp) (\<lambda>c. if P c then skip_chars P s (cp + 1) else Inr cp)"
  by pat_completeness auto
termination
  by (relation "measure (\<lambda>(P, s, cp). Suc (length s) - cp)") (auto dest: cat_Inr)

declare skip_chars.simps [simp del]

text \<open>One digit of a fraction, if there is one.\<close>

definition frac_digit :: "string \<Rightarrow> nat \<Rightarrow> (u32 \<times> nat) option result" where
  "frac_digit s cp =
     bindE (cat s cp) (\<lambda>c. Inr (if isdigit c then Some (word_of_nat (digit_val c), cp + 1) else None))"

text \<open>A fraction of at most \<open>n\<close> digits after a dot; the first digit counts \<open>unit\<close>.\<close>

fun frac_digits :: "nat \<Rightarrow> string \<Rightarrow> nat \<Rightarrow> u32 \<Rightarrow> u32 \<Rightarrow> (u32 \<times> nat) result" where
  "frac_digits 0 s cp unit val = Inr (val, cp)"
| "frac_digits (Suc n) s cp unit val =
     bindE (frac_digit s cp) (\<lambda>r. case r of
       None \<Rightarrow> Inr (val, cp)
     | Some (d, cp) \<Rightarrow> frac_digits n s cp (unit div 10) (val + d * unit))"

definition fraction :: "nat \<Rightarrow> u32 \<Rightarrow> string \<Rightarrow> nat \<Rightarrow> (u32 \<times> nat) result" where
  "fraction n unit s cp =
     bindE (cat s cp) (\<lambda>c. if c = CHR ''.'' then frac_digits n s (cp + 1) unit 0 else Inr (0, cp))"

subsection \<open>Sizes\<close>

definition poweroften :: "u32 list" where
  "poweroften = [1, 10, 100, 1000, 10000, 100000, 1000000, 10000000, 100000000, 1000000000]"

text \<open>The first exponent below 9 whose next power exceeds the size, or 9.\<close>

fun precsize_exponent :: "u32 \<Rightarrow> nat list \<Rightarrow> nat" where
  "precsize_exponent cmval [] = 9"
| "precsize_exponent cmval (e # es) = (if cmval < poweroften ! (e + 1) then e else precsize_exponent cmval es)"

definition precsize_value :: "u32 \<Rightarrow> byte" where
  "precsize_value cmval =
     (let exponent = precsize_exponent cmval [0..<9];
          mantissa = cmval div poweroften ! exponent;
          mantissa = (if mantissa > 9 then 9 else mantissa)
      in ucast (push_bit 4 mantissa OR word_of_nat exponent))"

definition precsize_aton :: "string \<Rightarrow> nat \<Rightarrow> (byte \<times> nat) result" where
  "precsize_aton s cp =
     bindE (read_digits s cp 0) (\<lambda>(mval, cp).
     bindE (fraction 2 10 s cp) (\<lambda>(cmval, cp).
       Inr (precsize_value (mval * 100 + cmval), cp)))"

subsection \<open>Latitude and longitude\<close>

text \<open>The minutes and seconds; the early exits go on with the hemisphere.\<close>

definition latlon_number :: "string \<Rightarrow> nat \<Rightarrow> (u32 \<times> u32 \<times> nat) result" where
  "latlon_number s cp =
     bindE (read_digits s cp 0) (\<lambda>(deg, cp).
     bindE (skip_chars isspace s cp) (\<lambda>cp.
     bindE (cat s cp) (\<lambda>c.
       if \<not> isdigit c then Inr (deg * 60 * 60, 0, cp)
       else
         bindE (read_digits s cp 0) (\<lambda>(min, cp).
         bindE (skip_chars isspace s cp) (\<lambda>cp.
         bindE (cat s cp) (\<lambda>c.
           if \<not> isdigit c then Inr ((deg * 60 + min) * 60, 0, cp)
           else
             bindE (read_digits s cp 0) (\<lambda>(secs, cp).
             bindE (fraction 3 100 s cp) (\<lambda>(secsfrac, cp).
             bindE (skip_chars (\<lambda>c. \<not> isspace c) s cp) (\<lambda>cp.
             bindE (skip_chars isspace s cp) (\<lambda>cp.
               Inr ((deg * 60 + min) * 60 + secs, secsfrac, cp)))))))))))"

definition latlon2ul :: "string \<Rightarrow> nat \<Rightarrow> (u32 \<times> nat \<times> nat) result" where
  "latlon2ul s cp =
     bindE (latlon_number s cp) (\<lambda>(seconds, secsfrac, cp).
     bindE (cat s cp) (\<lambda>c.
       let retval = (if c \<in> set ''NnEe'' then 0x80000000 + seconds * 1000 + secsfrac
                     else if c \<in> set ''SsWw'' then 0x80000000 - seconds * 1000 - secsfrac
                     else 0);
           which = (if c \<in> set ''NnSs'' then 1 else if c \<in> set ''EeWw'' then 2 else 0)
       in bindE (skip_chars (\<lambda>c. \<not> isspace c) s (cp + 1)) (\<lambda>cp.
          bindE (skip_chars isspace s cp) (\<lambda>cp. Inr (retval, which, cp)))))"

subsection \<open>The record\<close>

record LOCRecordContent =
  loc_version :: byte
  loc_size :: byte
  loc_horizpre :: byte
  loc_vertpre :: byte
  loc_latitude :: u32
  loc_longitude :: u32
  loc_altitude :: u32

definition LOC_toPacket :: "LOCRecordContent \<Rightarrow> DNSPacketWriter \<Rightarrow> DNSPacketWriter result" where
  "LOC_toPacket rc pw =
     (let pw = pw_xfr8BitInt (loc_version rc) pw;
          pw = pw_xfr8BitInt (loc_size rc) pw;
          pw = pw_xfr8BitInt (loc_horizpre rc) pw;
          pw = pw_xfr8BitInt (loc_vertpre rc) pw;
          pw = pw_xfr32BitInt (loc_latitude rc) pw;
          pw = pw_xfr32BitInt (loc_longitude rc) pw
      in Inr (pw_xfr32BitInt (loc_altitude rc) pw))"

definition LOC_make :: "LOCRecordContent reader" where
  "LOC_make =
     rbind get8BitInt (\<lambda>version. rbind get8BitInt (\<lambda>size. rbind get8BitInt (\<lambda>horizpre. rbind get8BitInt (\<lambda>vertpre.
     rbind get32BitInt (\<lambda>latitude. rbind get32BitInt (\<lambda>longitude. rbind get32BitInt (\<lambda>altitude.
       rreturn \<lparr> loc_version = version, loc_size = size, loc_horizpre = horizpre, loc_vertpre = vertpre,
         loc_latitude = latitude, loc_longitude = longitude, loc_altitude = altitude \<rparr>)))))))"

text \<open>
  The constructor from text.  \<open>mem\<close> is what the memory of the object held: without one
  latitude and one longitude the constructor returns and leaves the coordinates as they are.
  \<open>next_field\<close> skips to the next size and tells whether there is one.
\<close>

definition next_field :: "string \<Rightarrow> nat \<Rightarrow> nat \<Rightarrow> nat option" where
  "next_field s maxcp cp =
     (let cp = cp + length (takeWhile (\<lambda>c. \<not> isspace c) (take (maxcp - cp) (drop cp s)));
          cp = cp + length (takeWhile isspace (take (maxcp - cp) (drop cp s)))
      in if cp \<ge> maxcp then None else Some cp)"

definition loc_altitude_text :: "string \<Rightarrow> nat \<Rightarrow> (u32 \<times> nat) result" where
  "loc_altitude_text s cp =
     bindE (cat s cp) (\<lambda>c.
       let (altsign, cp) = (if c = CHR ''-'' then (-1, cp + 1) else (1, cp))
       in bindE (cat s cp) (\<lambda>c.
            let cp = (if c = CHR ''+'' then cp + 1 else cp)
            in bindE (read_digits s cp 0) (\<lambda>(altmeters, cp).
               bindE (fraction 2 10 s cp) (\<lambda>(altfrac, cp).
                 Inr (10000000 + altsign * (altmeters * 100 + altfrac), cp)))))"

definition loc_sizes :: "string \<Rightarrow> nat \<Rightarrow> nat \<Rightarrow> LOCRecordContent \<Rightarrow> LOCRecordContent result" where
  "loc_sizes s maxcp cp rc =
     (case next_field s maxcp cp of None \<Rightarrow> Inr rc
      | Some cp \<Rightarrow> bindE (precsize_aton s cp) (\<lambda>(size, cp).
          let rc = rc\<lparr> loc_size := size \<rparr>
          in case next_field s maxcp cp of None \<Rightarrow> Inr rc
             | Some cp \<Rightarrow> bindE (precsize_aton s cp) (\<lambda>(horizpre, cp).
                 let rc = rc\<lparr> loc_horizpre := horizpre \<rparr>
                 in case next_field s maxcp cp of None \<Rightarrow> Inr rc
                    | Some cp \<Rightarrow> bindE (precsize_aton s cp) (\<lambda>(vertpre, cp). Inr (rc\<lparr> loc_vertpre := vertpre \<rparr>)))))"

definition LOC_of_text :: "LOCRecordContent \<Rightarrow> string \<Rightarrow> LOCRecordContent result" where
  "LOC_of_text mem content =
     (let rc = mem\<lparr> loc_version := 0, loc_horizpre := 0x16, loc_vertpre := 0x13, loc_size := 0x12 \<rparr>;
          maxcp = length (c_string content)
      in bindE (latlon2ul content 0) (\<lambda>(lltemp1, which1, cp).
         bindE (latlon2ul content cp) (\<lambda>(lltemp2, which2, cp).
           if (which1 = 1 \<and> which2 = 2) \<or> (which1 = 2 \<and> which2 = 1)
           then bindE (loc_altitude_text content cp) (\<lambda>(altitude, cp).
                  loc_sizes content maxcp cp
                    (rc\<lparr> loc_latitude := lltemp1, loc_longitude := lltemp2, loc_altitude := altitude \<rparr>))
           else Inr rc)))"


subsection \<open>The record on the wire\<close>

interpretation loc: wire_field LOC_make LOC_toPacket "\<lambda>_. True" False
proof
  fix rc :: LOCRecordContent and pw
  let ?bs = "[loc_version rc] @ [loc_size rc] @ [loc_horizpre rc] @ [loc_vertpre rc] @ be_bytes32 (loc_latitude rc)
    @ be_bytes32 (loc_longitude rc) @ be_bytes32 (loc_altitude rc) @ []"
  have "LOC_toPacket rc pw = Inr (pw_append ?bs pw)"
    by (simp add: LOC_toPacket_def Let_def pw_append_def pw_xfr8BitInt_def pw_xfr32BitInt_def)
  then have "writes (LOC_toPacket rc) pw ?bs" using writes_append [of ?bs pw] by (simp add: writes_def)
  moreover have "reads LOC_make False rc ?bs"
    unfolding LOC_make_def
    apply (rule reads_rbind [OF reads_get8])+
    apply (rule reads_rbind [OF reads_u32])+
    using reads_rreturn [of rc False] by (cases rc) simp
  ultimately show "\<exists>bs. writes (LOC_toPacket rc) pw bs \<and> reads LOC_make False rc bs" by blast
qed

subsection \<open>Sizes as mantissa and exponent\<close>

lemma unat_poweroften: "e \<le> 9 \<Longrightarrow> unat (poweroften ! e) = 10 ^ e"
proof -
  have "list_all (\<lambda>e. unat (poweroften ! e) = 10 ^ e) [0..<10]"
    by (simp add: upt_rec poweroften_def)
  then show "e \<le> 9 \<Longrightarrow> unat (poweroften ! e) = 10 ^ e" by (simp add: list_all_iff)
qed

lemma precsize_exponent_upt:
  assumes "k \<le> 9" "k = 0 \<or> 10 ^ k \<le> unat c"
  shows "\<exists>e. precsize_exponent c [k..<9] = e \<and> e \<le> 9 \<and> (e = 0 \<or> 10 ^ e \<le> unat c) \<and> (e < 9 \<longrightarrow> unat c < 10 ^ (e + 1))"
  using assms
proof (induction "9 - k" arbitrary: k)
  case 0
  then show ?case by (intro exI [of _ 9]) auto
next
  case (Suc n)
  then have k: "k < 9" "[k..<9] = k # [Suc k..<9]" by (simp_all add: upt_conv_Cons)
  show ?case
  proof (cases "c < poweroften ! (k + 1)")
    case True
    then have "unat c < 10 ^ (k + 1)" using unat_poweroften [of "k + 1"] k(1) by (simp add: word_less_nat_alt)
    then show ?thesis using True k Suc.prems by (intro exI [of _ k]) auto
  next
    case False
    then have "10 ^ Suc k \<le> unat c" using unat_poweroften [of "k + 1"] k(1) by (simp add: word_less_nat_alt not_less)
    then have "\<exists>e. precsize_exponent c [Suc k..<9] = e \<and> e \<le> 9 \<and> (e = 0 \<or> 10 ^ e \<le> unat c) \<and> (e < 9 \<longrightarrow> unat c < 10 ^ (e + 1))"
      using Suc.hyps k(1) by (intro Suc.hyps(1)) auto
    then show ?thesis using False k(2) by simp
  qed
qed

lemma nibbles:
  assumes "m < 16" "e < 16"
  shows "unat (ucast (push_bit 4 (word_of_nat m :: u32) OR word_of_nat e) :: byte) = 16 * m + e"
proof -
  have "push_bit 4 (word_of_nat m :: u32) OR word_of_nat e = push_bit 4 (word_of_nat m) + word_of_nat e"
  proof (rule disjunctive_add_eq_or [symmetric], rule bit_word_eqI)
    fix n
    have "\<not> bit e n" if "4 \<le> n"
    proof -
      have "(2 :: nat) ^ 4 \<le> 2 ^ n" using that by (intro power_increasing) auto
      then have "e div 2 ^ n = 0" using assms(2) by simp
      then show ?thesis by (simp add: bit_iff_odd)
    qed
    then show "bit (push_bit 4 (word_of_nat m :: u32) AND word_of_nat e) n = bit (0 :: u32) n"
      by (auto simp: bit_simps)
  qed
  also have "\<dots> = word_of_nat (16 * m + e)" by (simp add: push_bit_eq_mult)
  finally have w: "push_bit 4 (word_of_nat m :: u32) OR word_of_nat e = word_of_nat (16 * m + e)" .
  have "unat (ucast (word_of_nat k :: u32) :: byte) = k" if "k < 256" for k
    using that by (simp add: unsigned_ucast_eq unat_of_nat take_bit_nat_def)
  then show ?thesis unfolding w using assms by (simp del: of_nat_add of_nat_mult)
qed

text \<open>
  A size or precision of a LOC record is stored as a mantissa and a power of
  ten, each one digit: the mantissa is never clipped, the stored size is the given one rounded
  down to one significant digit, and only zero gets the mantissa zero.
\<close>

theorem precsize_value_digits:
  "unat (precsize_value c) div 16 \<le> 9 \<and> unat (precsize_value c) mod 16 \<le> 9 \<and>
   unat (precsize_value c) div 16 * 10 ^ (unat (precsize_value c) mod 16) \<le> unat c \<and>
   unat c < (unat (precsize_value c) div 16 + 1) * 10 ^ (unat (precsize_value c) mod 16) \<and>
   (unat (precsize_value c) div 16 = 0 \<longleftrightarrow> c = 0)"
proof -
  obtain e where e: "precsize_exponent c [0..<9] = e" "e \<le> 9" "e = 0 \<or> 10 ^ e \<le> unat c" "e < 9 \<longrightarrow> unat c < 10 ^ (e + 1)"
    using precsize_exponent_upt [of 0 c] by auto
  let ?m = "unat c div 10 ^ e"
  have div: "c div poweroften ! e = word_of_nat ?m"
    by (rule word_unat_eq_iff [THEN iffD2])
      (use unat_poweroften [OF e(2)] unsigned_less [of c, where 'a = nat] in
        \<open>simp add: unat_div unat_of_nat take_bit_nat_def le_less_trans [OF div_le_dividend]\<close>)
  have m: "?m \<le> 9"
  proof (cases "e < 9")
    case True
    then have "unat c < 10 * 10 ^ e" using e(4) by simp
    then have "?m < 10" by (rule less_mult_imp_div_less)
    then show ?thesis by simp
  next
    case False
    then have "e = 9" using e(2) by simp
    moreover have "unat c < 10 * 10 ^ 9" using unsigned_less [of c, where 'a = nat] by simp
    then have "unat c div 10 ^ 9 < 10" by (rule less_mult_imp_div_less)
    ultimately show ?thesis by simp
  qed
  then have "\<not> (9 :: u32) < word_of_nat ?m" by (simp add: word_less_nat_alt unat_of_nat take_bit_nat_def)
  then have "unat (precsize_value c) = 16 * ?m + e"
    using nibbles [of ?m e] m e(1,2) div by (simp add: precsize_value_def Let_def)
  then have p: "unat (precsize_value c) div 16 = ?m" "unat (precsize_value c) mod 16 = e" using e(2) by simp_all
  have "?m * 10 ^ e \<le> unat c" by simp
  moreover have "unat c < (?m + 1) * 10 ^ e"
    using dividend_less_div_times [of "10 ^ e" "unat c"] by (simp add: add.commute)
  moreover have "?m = 0 \<longleftrightarrow> c = 0"
    using e(3) by (auto simp: div_eq_0_iff word_unat_eq_iff)
  ultimately show ?thesis unfolding p using m e(2) by blast
qed

subsection \<open>Reading past the end\<close>

lemma skip_garbage_overrun:
  assumes "\<forall>c \<in> set s. \<not> isspace c"
  shows "skip_chars (\<lambda>c. \<not> isspace c) s cp = Inl UndefinedBehaviour"
proof (induction "Suc (length s) - cp" arbitrary: cp)
  case 0
  then show ?case by (subst skip_chars.simps) (simp add: cat_def)
next
  case (Suc n)
  then have "skip_chars (\<lambda>c. \<not> isspace c) s (cp + 1) = Inl UndefinedBehaviour" by simp
  moreover have "cat s cp = Inr c \<Longrightarrow> \<not> isspace c" for c
    using assms by (auto simp: cat_def isspace_def ucode_def split: if_splits)
  ultimately show ?case by (subst skip_chars.simps) (cases "cat s cp"; auto simp: cat_def split: if_splits)
qed

lemma read_digits_stop:
  "cp \<le> length s \<Longrightarrow> \<exists>v p c. read_digits s cp val = Inr (v, p) \<and> p \<le> length s \<and> cat s p = Inr c \<and> \<not> isdigit c"
proof (induction "Suc (length s) - cp" arbitrary: cp val)
  case (Suc n)
  obtain c where c: "cat s cp = Inr c" using Suc.prems by (cases "cp < length s") (auto simp: cat_def)
  show ?case
  proof (cases "isdigit c")
    case True
    then have "cp \<noteq> length s" using c by (auto simp: cat_def isdigit_def ucode_def)
    then have "cp + 1 \<le> length s" "n = Suc (length s) - (cp + 1)" using Suc by auto
    then have "\<exists>v p c'. read_digits s (cp + 1) (val * 10 + word_of_nat (digit_val c)) = Inr (v, p) \<and> p \<le> length s \<and> cat s p = Inr c' \<and> \<not> isdigit c'"
      using Suc.hyps(1) by blast
    then show ?thesis using c True by (subst read_digits.simps) simp
  next
    case False
    then show ?thesis using c Suc.prems by (subst read_digits.simps) auto
  qed
qed simp

text \<open>
  A LOC content without any white space, for instance an empty one, takes the
  parser past the end of the string: the two loops that skip garbage only stop at white
  space, not at the terminating NUL.
\<close>

theorem LOC_of_text_overrun:
  assumes "\<forall>c \<in> set content. \<not> isspace c"
  shows "LOC_of_text mem content = Inl UndefinedBehaviour"
proof -
  obtain v p c where r: "read_digits content 0 0 = Inr (v, p)" "p \<le> length content" "cat content p = Inr c" "\<not> isdigit c"
    using read_digits_stop [of 0 content 0] by auto
  have "\<not> isspace c" using r(3) assms by (auto simp: cat_def isspace_def ucode_def split: if_splits)
  then have "skip_chars isspace content p = Inr p" using r(3) by (subst skip_chars.simps) simp
  then have "latlon2ul content 0 = Inl UndefinedBehaviour"
    using r skip_garbage_overrun [OF assms, of "p + 1"] by (simp add: latlon2ul_def latlon_number_def Let_def)
  then show ?thesis by (simp add: LOC_of_text_def Let_def)
qed

theorem LOC_of_text_overrun_witness: "\<forall>mem. LOC_of_text mem ''51N'' = Inl UndefinedBehaviour"
proof
  fix mem
  show "LOC_of_text mem ''51N'' = Inl UndefinedBehaviour"
    by (rule LOC_of_text_overrun) (simp add: isspace_def ucode_def)
qed

end
