(* ===== verification/RecordTypes.thy ===== *)
theory RecordTypes
  imports NsecRecords LocRecord
begin

text \<open>
  The record types: \<open>dnsrecords.cc\<close> with its macros in \<open>dnsrecords.hh\<close>, the registry of
  \<open>class DNSRecordContent\<close> in \<open>dnsparser.hh\<close>, and the unknown record of \<open>dnsparser.cc\<close>.
\<close>

subsection \<open>Records given by a sequence of conversions\<close>

text \<open>
  \<open>boilerplate_conv(RNAME, RTYPE, CONV)\<close>: the name, the type code, and the calls of \<open>CONV\<close> with
  the members they convert.
\<close>

record conv =
  c_rname :: string
  c_rtype :: u16
  c_members :: "(string \<times> ftype) list"

definition A_conv :: conv where
  "A_conv = \<lparr> c_rname = ''A'', c_rtype = 1, c_members =
     [(''d_ip'', TIP)] \<rparr>"

definition NS_conv :: conv where
  "NS_conv = \<lparr> c_rname = ''NS'', c_rtype = 2, c_members =
     [(''d_content'', TLabel True)] \<rparr>"

definition PTR_conv :: conv where
  "PTR_conv = \<lparr> c_rname = ''PTR'', c_rtype = 12, c_members =
     [(''d_content'', TLabel True)] \<rparr>"

definition CNAME_conv :: conv where
  "CNAME_conv = \<lparr> c_rname = ''CNAME'', c_rtype = 5, c_members =
     [(''d_content'', TLabel True)] \<rparr>"

definition MR_conv :: conv where
  "MR_conv = \<lparr> c_rname = ''MR'', c_rtype = 9, c_members =
     [(''d_alias'', TLabel False)] \<rparr>"

definition TXT_conv :: conv where
  "TXT_conv = \<lparr> c_rname = ''TXT'', c_rtype = 16, c_members =
     [(''d_text'', TText True)] \<rparr>"

definition SPF_conv :: conv where
  "SPF_conv = \<lparr> c_rname = ''SPF'', c_rtype = 99, c_members =
     [(''d_text'', TText True)] \<rparr>"

definition HINFO_conv :: conv where
  "HINFO_conv = \<lparr> c_rname = ''HINFO'', c_rtype = 13, c_members =
     [(''d_cpu'', TText False), (''d_host'', TText False)] \<rparr>"

definition RP_conv :: conv where
  "RP_conv = \<lparr> c_rname = ''RP'', c_rtype = 17, c_members =
     [(''d_mbox'', TLabel False), (''d_info'', TLabel False)] \<rparr>"

definition OPT_conv :: conv where
  "OPT_conv = \<lparr> c_rname = ''OPT'', c_rtype = 41, c_members =
     [(''d_data'', TBlob)] \<rparr>"

definition TSIG_conv :: conv where
  "TSIG_conv = \<lparr> c_rname = ''TSIG'', c_rtype = 250, c_members =
     [(''d_algoName'', TLabel False), (''d_time'', T48), (''d_fudge'', T16), (''d_mac'', TSizedBlob), (''d_origID'', T16), (''d_eRcode'', T16), (''d_otherData'', TSizedBlob)] \<rparr>"

definition MX_conv :: conv where
  "MX_conv = \<lparr> c_rname = ''MX'', c_rtype = 15, c_members =
     [(''d_preference'', T16), (''d_mxname'', TLabel True)] \<rparr>"

definition KX_conv :: conv where
  "KX_conv = \<lparr> c_rname = ''KX'', c_rtype = 36, c_members =
     [(''d_preference'', T16), (''d_exchanger'', TLabel False)] \<rparr>"

definition IPSECKEY_conv :: conv where
  "IPSECKEY_conv = \<lparr> c_rname = ''IPSECKEY'', c_rtype = 45, c_members =
     [(''d_preference'', T8), (''d_gatewaytype'', T8), (''d_algorithm'', T8), (''d_gateway'', TLabel False), (''d_publickey'', TBlob)] \<rparr>"

definition DHCID_conv :: conv where
  "DHCID_conv = \<lparr> c_rname = ''DHCID'', c_rtype = 49, c_members =
     [(''d_content'', TBlob)] \<rparr>"

definition AFSDB_conv :: conv where
  "AFSDB_conv = \<lparr> c_rname = ''AFSDB'', c_rtype = 18, c_members =
     [(''d_subtype'', T16), (''d_hostname'', TLabel False)] \<rparr>"

definition NAPTR_conv :: conv where
  "NAPTR_conv = \<lparr> c_rname = ''NAPTR'', c_rtype = 35, c_members =
     [(''d_order'', T16), (''d_preference'', T16), (''d_flags'', TText False), (''d_services'', TText False), (''d_regexp'', TText False), (''d_replacement'', TLabel False)] \<rparr>"

definition SRV_conv :: conv where
  "SRV_conv = \<lparr> c_rname = ''SRV'', c_rtype = 33, c_members =
     [(''d_preference'', T16), (''d_weight'', T16), (''d_port'', T16), (''d_target'', TLabel False)] \<rparr>"

definition SOA_conv :: conv where
  "SOA_conv = \<lparr> c_rname = ''SOA'', c_rtype = 6, c_members =
     [(''d_mname'', TLabel True), (''d_rname'', TLabel True), (''serial'', T32), (''refresh'', T32), (''retry'', T32), (''expire'', T32), (''minimum'', T32)] \<rparr>"

definition KEY_conv :: conv where
  "KEY_conv = \<lparr> c_rname = ''KEY'', c_rtype = 25, c_members =
     [(''d_flags'', T16), (''d_protocol'', T8), (''d_algorithm'', T8), (''d_certificate'', TBlob)] \<rparr>"

definition CERT_conv :: conv where
  "CERT_conv = \<lparr> c_rname = ''CERT'', c_rtype = 37, c_members =
     [(''d_type'', T16), (''d_tag'', T16), (''d_algorithm'', T8), (''d_certificate'', TBlob)] \<rparr>"

definition TLSA_conv :: conv where
  "TLSA_conv = \<lparr> c_rname = ''TLSA'', c_rtype = 52, c_members =
     [(''d_certusage'', T8), (''d_selector'', T8), (''d_matchtype'', T8), (''d_cert'', THexBlob True)] \<rparr>"

definition DS_conv :: conv where
  "DS_conv = \<lparr> c_rname = ''DS'', c_rtype = 43, c_members =
     [(''d_tag'', T16), (''d_algorithm'', T8), (''d_digesttype'', T8), (''d_digest'', THexBlob True)] \<rparr>"

definition DLV_conv :: conv where
  "DLV_conv = \<lparr> c_rname = ''DLV'', c_rtype = 32769, c_members =
     [(''d_tag'', T16), (''d_algorithm'', T8), (''d_digesttype'', T8), (''d_digest'', THexBlob True)] \<rparr>"

definition SSHFP_conv :: conv where
  "SSHFP_conv = \<lparr> c_rname = ''SSHFP'', c_rtype = 44, c_members =
     [(''d_algorithm'', T8), (''d_fptype'', T8), (''d_fingerprint'', THexBlob False)] \<rparr>"

definition RRSIG_conv :: conv where
  "RRSIG_conv = \<lparr> c_rname = ''RRSIG'', c_rtype = 46, c_members =
     [(''d_type'', TType), (''d_algorithm'', T8), (''d_labels'', T8), (''d_originalttl'', T32), (''d_sigexpire'', TTime), (''d_siginception'', TTime), (''d_tag'', T16), (''d_signer'', TLabel False), (''d_signature'', TBlob)] \<rparr>"

definition DNSKEY_conv :: conv where
  "DNSKEY_conv = \<lparr> c_rname = ''DNSKEY'', c_rtype = 48, c_members =
     [(''d_flags'', T16), (''d_protocol'', T8), (''d_algorithm'', T8), (''d_key'', TBlob)] \<rparr>"

definition URL_conv :: conv where
  "URL_conv = \<lparr> c_rname = ''URL'', c_rtype = 256, c_members =
     [(''d_url'', TLabel False)] \<rparr>"

definition MBOXFW_conv :: conv where
  "MBOXFW_conv = \<lparr> c_rname = ''MBOXFW'', c_rtype = 257, c_members =
     [(''d_mboxfw'', TLabel False)] \<rparr>"

definition all_convs :: "conv list" where
  "all_convs = [A_conv, NS_conv, PTR_conv, CNAME_conv, MR_conv, TXT_conv, SPF_conv, HINFO_conv, RP_conv, OPT_conv, TSIG_conv,
     MX_conv, KX_conv, IPSECKEY_conv, DHCID_conv, AFSDB_conv, NAPTR_conv, SRV_conv, SOA_conv, KEY_conv, CERT_conv,
     TLSA_conv, DS_conv, DLV_conv, SSHFP_conv, RRSIG_conv, DNSKEY_conv, URL_conv, MBOXFW_conv]"

definition conv_types :: "conv \<Rightarrow> ftype list" where
  "conv_types c = map snd (c_members c)"

subsection \<open>Record contents\<close>

text \<open>
  What is outside the sources or not set by them: the address conversions and \<open>gmtime_r\<close> of the
  C library, the printing of locations (with floating point numbers), and the memory that
  two constructors leave unset.
\<close>

record env =
  env_pton6 :: "string \<Rightarrow> byte list option"
  env_ntop6 :: "byte list \<Rightarrow> string"
  env_gmtime :: "u32 \<Rightarrow> tm"
  env_loc_text :: "LOCRecordContent \<Rightarrow> string"
  env_loc_memory :: LOCRecordContent
  env_saltlength_memory :: byte
  env_beyond :: "nat \<Rightarrow> byte"

datatype content =
    RConv conv "field list"
  | RAAAA "byte list"
  | RNSEC NSECRecordContent
  | RNSEC3 NSEC3RecordContent
  | RNSEC3PARAM NSEC3PARAMRecordContent
  | RLOC LOCRecordContent
  | RUnknown u16 "byte list"

text \<open>The classes with a \<open>make\<close> function: the two makers of a class are registered together.\<close>

datatype maker = MConv conv | MAAAA | MNSEC | MNSEC3 | MNSEC3PARAM | MLOC

definition doRecordCheck :: "conv \<Rightarrow> u16 \<Rightarrow> unit result" where
  "doRecordCheck c clen =
     (if c_rname c = ''A'' \<and> clen \<noteq> 4
      then Inl (MOADNSException (''Wrong size for A record ('' @ show_nat (unat clen) @ '')''))
      else Inr ())"

definition AAAA_make :: "u16 \<Rightarrow> content reader" where
  "AAAA_make clen =
     (if clen \<noteq> 16 then rlift (Inl (MOADNSException ''Wrong size for AAAA record''))
      else rmap RAAAA (copyRecord_ptr 16))"

definition AAAA_of_text :: "env \<Rightarrow> string \<Rightarrow> content result" where
  "AAAA_of_text env zone =
     (case env_pton6 env zone of
        Some ip6 \<Rightarrow> Inr (RAAAA ip6)
      | None \<Rightarrow> Inl (MOADNSException (''Asked to encode '' @ [CHR 0x27] @ zone @ [CHR 0x27]
                       @ '' as an IPv6 address, but does not parse'')))"

fun make_packet :: "maker \<Rightarrow> u16 \<Rightarrow> content reader" where
  "make_packet (MConv c) clen = rbind (rlift (doRecordCheck c clen)) (\<lambda>_. rmap (RConv c) (packet_read_fields (conv_types c)))"
| "make_packet MAAAA clen = AAAA_make clen"
| "make_packet MNSEC clen = rmap RNSEC NSEC_make"
| "make_packet MNSEC3 clen = rmap RNSEC3 NSEC3_make"
| "make_packet MNSEC3PARAM clen = rmap RNSEC3PARAM NSEC3PARAM_make"
| "make_packet MLOC clen = rmap RLOC LOC_make"

text \<open>The constructor from text turns a text exception, and no other, into a parser exception.\<close>

definition conv_of_text :: "(string \<Rightarrow> u16 result) \<Rightarrow> conv \<Rightarrow> string \<Rightarrow> content result" where
  "conv_of_text T c zoneData =
     (case text_read_fields T (conv_types c) (RecordTextReader_init zoneData []) of
        Inr (fs, rtr) \<Rightarrow> Inr (RConv c fs)
      | Inl (RecordTextException what) \<Rightarrow> Inl (MOADNSException (''Parsing record content: '' @ what))
      | Inl e \<Rightarrow> Inl e)"

fun make_text :: "(string \<Rightarrow> u16 result) \<Rightarrow> env \<Rightarrow> maker \<Rightarrow> string \<Rightarrow> content result" where
  "make_text T env (MConv c) zone = conv_of_text T c zone"
| "make_text T env MAAAA zone = AAAA_of_text env zone"
| "make_text T env MNSEC zone = bindE (NSEC_of_text T zone []) (\<lambda>r. Inr (RNSEC r))"
| "make_text T env MNSEC3 zone = bindE (NSEC3_of_text T zone []) (\<lambda>r. Inr (RNSEC3 r))"
| "make_text T env MNSEC3PARAM zone = bindE (NSEC3PARAM_of_text (env_saltlength_memory env) zone []) (\<lambda>r. Inr (RNSEC3PARAM r))"
| "make_text T env MLOC zone = bindE (LOC_of_text (env_loc_memory env) zone) (\<lambda>r. Inr (RLOC r))"

subsection \<open>Unknown records\<close>

text \<open>
  Two hexadecimal characters as \<open>sscanf("%02x")\<close> reads them; without a digit it stores nothing
  and the source goes on with an uninitialised number.
\<close>

definition hex_value :: "char \<Rightarrow> nat option" where
  "hex_value c =
     (if isdigit c then Some (ucode c - 48)
      else if 97 \<le> ucode c \<and> ucode c \<le> 102 then Some (ucode c - 87)
      else if 65 \<le> ucode c \<and> ucode c \<le> 70 then Some (ucode c - 55) else None)"

definition scan_hex2 :: "char \<Rightarrow> char \<Rightarrow> byte result" where
  "scan_hex2 a b =
     (case hex_value a of
        Some x \<Rightarrow> (case hex_value b of
            Some y \<Rightarrow> Inr (word_of_nat (16 * x + y))
          | None \<Rightarrow> if x = 0 \<and> (b = CHR ''x'' \<or> b = CHR ''X'') then Inl UndefinedBehaviour else Inr (word_of_nat x))
      | None \<Rightarrow> (case hex_value b of
            Some y \<Rightarrow> if a = CHR ''-'' then Inr (- word_of_nat y) else if a = CHR ''+'' then Inr (word_of_nat y) else Inl UndefinedBehaviour
          | None \<Rightarrow> Inl UndefinedBehaviour))"

text \<open>\<open>total\<close> pairs of characters; there may be fewer, as the test of the length wraps around.\<close>

fun unknown_bytes :: "nat \<Rightarrow> string \<Rightarrow> byte list result" where
  "unknown_bytes 0 relevant = Inr []"
| "unknown_bytes (Suc n) (a # b # relevant) = bindE (scan_hex2 a b) (\<lambda>c. bindE (unknown_bytes n relevant) (\<lambda>out. Inr (c # out)))"
| "unknown_bytes (Suc n) relevant = Inl UndefinedBehaviour"

definition Unknown_toPacket :: "byte list \<Rightarrow> DNSPacketWriter \<Rightarrow> DNSPacketWriter result" where
  "Unknown_toPacket d_record pw =
     (let tmp = map b2c d_record; parts = stringtok tmp default_delims
      in if length parts \<noteq> 3 \<and> \<not> (length parts = 2 \<and> parts ! 1 = ''0'')
         then Inl (MOADNSException (''Unknown record was stored incorrectly, need 3 fields, got ''
                @ show_nat (length parts) @ '': '' @ tmp))
         else let relevant = (if length parts > 2 then parts ! 2 else []);
                  total = (word_of_int (atoi (parts ! 1)) :: u32)
              in if length relevant \<noteq> unat (2 * total) then Inl (RuntimeError ''invalid unknown record'')
                 else bindE (unknown_bytes (unat total) relevant) (\<lambda>out. Inr (pw_xfrBlob (map b2c out) pw)))"

definition Unknown_make :: "u16 \<Rightarrow> u16 \<Rightarrow> content reader" where
  "Unknown_make qtype clen = rmap (RUnknown qtype) (copyRecord (unat clen))"

definition Unknown_of_text :: "string \<Rightarrow> content" where
  "Unknown_of_text zone = RUnknown 0 (map c2b zone)"

definition Unknown_getZoneRepresentation :: "byte list \<Rightarrow> string" where
  "Unknown_getZoneRepresentation d_record =
     [CHR 0x5C, CHR ''#'', CHR '' ''] @ show_nat (length d_record) @ '' '' @ concat (map (\<lambda>b. hex2 (b2c b)) d_record)"

subsection \<open>Operations of all records\<close>

fun d_qtype :: "content \<Rightarrow> u16" where
  "d_qtype (RConv c fs) = c_rtype c"
| "d_qtype (RAAAA ip6) = 28"
| "d_qtype (RNSEC r) = 47"
| "d_qtype (RNSEC3 r) = 50"
| "d_qtype (RNSEC3PARAM r) = 51"
| "d_qtype (RLOC r) = 29"
| "d_qtype (RUnknown qtype d_record) = qtype"

fun toPacket :: "content \<Rightarrow> DNSPacketWriter \<Rightarrow> DNSPacketWriter result" where
  "toPacket (RConv c fs) pw = packet_write_fields fs pw"
| "toPacket (RAAAA ip6) pw = Inr (pw_xfrBlob (map b2c ip6) pw)"
| "toPacket (RNSEC r) pw = NSEC_toPacket r pw"
| "toPacket (RNSEC3 r) pw = NSEC3_toPacket r pw"
| "toPacket (RNSEC3PARAM r) pw = NSEC3PARAM_toPacket r pw"
| "toPacket (RLOC r) pw = LOC_toPacket r pw"
| "toPacket (RUnknown qtype d_record) pw = Unknown_toPacket d_record pw"

fun getZoneRepresentation :: "(u16 \<Rightarrow> string) \<Rightarrow> env \<Rightarrow> content \<Rightarrow> string" where
  "getZoneRepresentation N env (RConv c fs) = text_write_fields N (env_gmtime env) fs []"
| "getZoneRepresentation N env (RAAAA ip6) = env_ntop6 env ip6"
| "getZoneRepresentation N env (RNSEC r) = NSEC_getZoneRepresentation N r"
| "getZoneRepresentation N env (RNSEC3 r) = NSEC3_getZoneRepresentation (env_beyond env) N r"
| "getZoneRepresentation N env (RNSEC3PARAM r) = NSEC3PARAM_getZoneRepresentation r"
| "getZoneRepresentation N env (RLOC r) = env_loc_text env r"
| "getZoneRepresentation N env (RUnknown qtype d_record) = Unknown_getZoneRepresentation d_record"

subsection \<open>The registry\<close>

record registry =
  reg_typemap :: "(u16 \<times> u16) \<rightharpoonup> maker"
  reg_zmakermap :: "(u16 \<times> u16) \<rightharpoonup> maker"
  reg_t2namemap :: "(u16 \<times> u16) \<rightharpoonup> string"
  reg_n2typemap :: "string \<rightharpoonup> (u16 \<times> u16)"

definition empty_registry :: registry where
  "empty_registry = \<lparr> reg_typemap = Map.empty, reg_zmakermap = Map.empty, reg_t2namemap = Map.empty, reg_n2typemap = Map.empty \<rparr>"

text \<open>\<open>map::insert\<close> keeps an entry that is there.\<close>

definition map_insert :: "'k \<Rightarrow> 'v \<Rightarrow> ('k \<rightharpoonup> 'v) \<Rightarrow> ('k \<rightharpoonup> 'v)" where
  "map_insert k v m = (if m k = None then m(k \<mapsto> v) else m)"

definition regist :: "u16 \<Rightarrow> u16 \<Rightarrow> maker option \<Rightarrow> maker option \<Rightarrow> string \<Rightarrow> registry \<Rightarrow> registry" where
  "regist cl ty f z name reg =
     \<lparr> reg_typemap = (case f of Some m \<Rightarrow> (reg_typemap reg)((cl, ty) \<mapsto> m) | None \<Rightarrow> reg_typemap reg),
       reg_zmakermap = (case z of Some m \<Rightarrow> (reg_zmakermap reg)((cl, ty) \<mapsto> m) | None \<Rightarrow> reg_zmakermap reg),
       reg_t2namemap = map_insert (cl, ty) name (reg_t2namemap reg),
       reg_n2typemap = map_insert name (cl, ty) (reg_n2typemap reg) \<rparr>"

definition unregist :: "u16 \<Rightarrow> u16 \<Rightarrow> registry \<Rightarrow> registry" where
  "unregist cl ty reg =
     reg\<lparr> reg_typemap := (reg_typemap reg)((cl, ty) := None), reg_zmakermap := (reg_zmakermap reg)((cl, ty) := None) \<rparr>"

definition TypeToNumber :: "registry \<Rightarrow> string \<Rightarrow> u16 result" where
  "TypeToNumber reg name =
     (case reg_n2typemap reg (toUpper name) of
        Some (c, t) \<Rightarrow> Inr t
      | None \<Rightarrow>
          if take 4 name = ''TYPE'' then Inr (word_of_int (atoi (drop 4 name)))
          else Inl (RuntimeError (''Unknown DNS type '' @ [CHR 0x27] @ name @ [CHR 0x27])))"

definition NumberToType :: "registry \<Rightarrow> u16 \<Rightarrow> u16 \<Rightarrow> string" where
  "NumberToType reg num classnum =
     (case reg_t2namemap reg (classnum, num) of
        None \<Rightarrow> ''TYPE'' @ show_nat (unat num)
      | Some name \<Rightarrow> name)"

definition report :: "conv \<Rightarrow> registry \<Rightarrow> registry" where
  "report c = regist 1 (c_rtype c) (Some (MConv c)) (Some (MConv c)) (c_rname c)"

definition unreport :: "conv \<Rightarrow> registry \<Rightarrow> registry" where
  "unreport c = unregist 1 (c_rtype c)"

definition AAAA_report :: "registry \<Rightarrow> registry" where
  "AAAA_report = regist 1 28 (Some MAAAA) (Some MAAAA) ''AAAA''"

definition NSEC_report :: "registry \<Rightarrow> registry" where
  "NSEC_report = regist 1 47 (Some MNSEC) (Some MNSEC) ''NSEC''"

definition NSEC3_report :: "registry \<Rightarrow> registry" where
  "NSEC3_report = regist 1 50 (Some MNSEC3) (Some MNSEC3) ''NSEC3''"

definition NSEC3PARAM_report :: "registry \<Rightarrow> registry" where
  "NSEC3PARAM_report = regist 1 51 (Some MNSEC3PARAM) (Some MNSEC3PARAM) ''NSEC3PARAM''"

definition LOC_report :: "registry \<Rightarrow> registry" where
  "LOC_report = regist 1 29 (Some MLOC) (Some MLOC) ''LOC''"

definition run_reports :: "(registry \<Rightarrow> registry) list \<Rightarrow> registry \<Rightarrow> registry" where
  "run_reports rs reg = foldl (\<lambda>reg r. r reg) reg rs"

definition reportBasicTypes :: "registry \<Rightarrow> registry" where
  "reportBasicTypes = run_reports
     [report A_conv, AAAA_report, report NS_conv, report CNAME_conv, report MX_conv, report SOA_conv, report SRV_conv,
      report PTR_conv, regist 3 16 (Some (MConv TXT_conv)) (Some (MConv TXT_conv)) ''TXT'', report TXT_conv,
      regist 1 255 None None ''ANY'']"

definition reportOtherTypes :: "registry \<Rightarrow> registry" where
  "reportOtherTypes = run_reports
     [report AFSDB_conv, report SPF_conv, report NAPTR_conv, LOC_report, report HINFO_conv, report RP_conv, report KEY_conv,
      report DNSKEY_conv, report RRSIG_conv, report DS_conv, report SSHFP_conv, report CERT_conv, NSEC_report, NSEC3_report,
      NSEC3PARAM_report, report TLSA_conv, report DLV_conv,
      regist 0xff qt_TSIG (Some (MConv TSIG_conv)) (Some (MConv TSIG_conv)) ''TSIG'', report OPT_conv]"

definition reportFancyTypes :: "registry \<Rightarrow> registry" where
  "reportFancyTypes = run_reports [report URL_conv, report MBOXFW_conv]"

definition reportAllTypes :: "registry \<Rightarrow> registry" where
  "reportAllTypes reg = reportOtherTypes (reportBasicTypes reg)"

subsection \<open>Making records\<close>

definition mastermake :: "registry \<Rightarrow> u16 \<Rightarrow> u16 \<Rightarrow> u16 \<Rightarrow> content reader" where
  "mastermake reg qtype qclass clen =
     (let searchclass = (if qtype = qt_OPT then 1 else qclass)
      in case reg_typemap reg (searchclass, qtype) of
           None \<Rightarrow> Unknown_make qtype clen
         | Some m \<Rightarrow> make_packet m clen)"

definition mastermake_text :: "registry \<Rightarrow> env \<Rightarrow> u16 \<Rightarrow> u16 \<Rightarrow> string \<Rightarrow> content result" where
  "mastermake_text reg env qtype qclass content =
     (case reg_zmakermap reg (qclass, qtype) of
        None \<Rightarrow> Inr (Unknown_of_text content)
      | Some m \<Rightarrow> make_text (TypeToNumber reg) env m content)"

subsection \<open>Helpers of single types\<close>

text \<open>The options of an OPT record; a last option with too large a length is dropped.\<close>

function OPT_getData :: "string \<Rightarrow> nat \<Rightarrow> (u16 \<times> string) list \<Rightarrow> (u16 \<times> string) list" where
  "OPT_getData d_data pos options =
     (if length d_data \<ge> 4 + pos then
        let code = be_val16 (c2b (d_data ! pos)) (c2b (d_data ! (pos + 1)));
            len = unat (be_val16 (c2b (d_data ! (pos + 2))) (c2b (d_data ! (pos + 3))));
            pos = pos + 4
        in if pos + len > length d_data then options
           else OPT_getData d_data (pos + len) (options @ [(code, substr d_data pos len)])
      else options)"
  by pat_completeness auto
termination
  by (relation "measure (\<lambda>(d_data, pos, options). length d_data - pos)") auto

declare OPT_getData.simps [simp del]

text \<open>The key tag of serialized key data.\<close>

fun key_sum :: "nat \<Rightarrow> byte list \<Rightarrow> u64" where
  "key_sum i [] = 0"
| "key_sum i (b # key) = (if odd i then ucast b else push_bit 8 (ucast b)) + key_sum (i + 1) key"

definition key_tag :: "byte list \<Rightarrow> u16" where
  "key_tag key =
     (let ac = key_sum 0 key; ac = ac + (drop_bit 16 ac AND 0xFFFF) in ucast (ac AND 0xFFFF))"


subsection \<open>Names and numbers of types\<close>

text \<open>
  A registry is consistent when each name it prints for a type of class 1 is upper case, no
  \<open>TYPE\<close> number, and leads back to the type.
\<close>

definition name_ok :: "string \<Rightarrow> bool" where
  "name_ok name \<longleftrightarrow> toUpper name = name \<and> take 4 name \<noteq> ''TYPE'' \<and> word_text name"

lemma toUpper_type: "toUpper (''TYPE'' @ show_nat n) = ''TYPE'' @ show_nat n"
proof -
  have "map (\<lambda>c. if islower c then char_of (ucode c - 32) else c) (show_nat n) = show_nat n"
    using show_nat_digits [of n] by (intro map_idI) (auto simp: isdigit_def islower_def)
  moreover have "\<not> islower (CHR ''T'')" "\<not> islower (CHR ''Y'')" "\<not> islower (CHR ''P'')" "\<not> islower (CHR ''E'')"
    by (simp_all add: islower_def ucode_def)
  ultimately show ?thesis by (simp add: toUpper_def)
qed

text \<open>The names the reports register, with their types.\<close>

definition type_table :: "(string \<times> u16) list" where
  "type_table =
    [(''A'', 1), (''AAAA'', 28), (''NS'', 2), (''CNAME'', 5), (''MX'', 15), (''SOA'', 6), (''SRV'', 33), (''PTR'', 12),
     (''TXT'', 16), (''ANY'', 255), (''AFSDB'', 18), (''SPF'', 99), (''NAPTR'', 35), (''LOC'', 29), (''HINFO'', 13), (''RP'', 17),
     (''KEY'', 25), (''DNSKEY'', 48), (''RRSIG'', 46), (''DS'', 43), (''SSHFP'', 44), (''CERT'', 37), (''NSEC'', 47), (''NSEC3'', 50),
     (''NSEC3PARAM'', 51), (''TLSA'', 52), (''DLV'', 32769), (''TSIG'', 250), (''OPT'', 41), (''URL'', 256), (''MBOXFW'', 257)]"

lemma name_ok_alnum: "list_all (\<lambda>c. isdigit c \<or> isupper c) name \<Longrightarrow> take 4 name \<noteq> ''TYPE'' \<Longrightarrow> name \<noteq> [] \<Longrightarrow> name_ok name"
proof -
  assume a: "list_all (\<lambda>c. isdigit c \<or> isupper c) name" "take 4 name \<noteq> ''TYPE''" "name \<noteq> []"
  then have "toUpper name = name"
    unfolding toUpper_def by (intro map_idI) (auto simp: list_all_iff isdigit_def isupper_def islower_def)
  moreover have "word_text name"
    using a isalnum_word by (auto simp: word_text_def list_all_iff isalnum_def)
  ultimately show ?thesis using a(2) by (simp add: name_ok_def)
qed

lemma type_table_ok: "list_all (\<lambda>(name, t). name_ok name) type_table"
proof -
  have "list_all (\<lambda>(name, t). list_all (\<lambda>c. isdigit c \<or> isupper c) name \<and> take 4 name \<noteq> ''TYPE'' \<and> name \<noteq> []) type_table"
    unfolding type_table_def by (simp add: isdigit_def isupper_def ucode_def)
  then show ?thesis by (rule list.pred_mono_strong) (auto intro: name_ok_alnum)
qed

definition known :: "string \<Rightarrow> u16 \<Rightarrow> bool" where
  "known name t \<longleftrightarrow> map_of type_table name = Some t"

lemma known_name_ok: "known name t \<Longrightarrow> name_ok name"
  using type_table_ok map_of_SomeD [of type_table name t] by (auto simp: known_def list_all_iff)

definition registry_ok :: "registry \<Rightarrow> bool" where
  "registry_ok reg \<longleftrightarrow>
     (\<forall>t name. reg_t2namemap reg (1, t) = Some name \<longrightarrow> known name t \<and> reg_n2typemap reg name \<noteq> None) \<and>
     (\<forall>name c t. reg_n2typemap reg name = Some (c, t) \<longrightarrow> known name t)"

lemma registry_ok_empty: "registry_ok empty_registry"
  by (simp add: registry_ok_def empty_registry_def)

lemma registry_ok_regist: "registry_ok reg \<Longrightarrow> known name ty \<Longrightarrow> registry_ok (regist cl ty f z name reg)"
  unfolding registry_ok_def regist_def map_insert_def by (auto split: if_splits)

lemma run_reports_keeps: "P reg \<Longrightarrow> (\<And>r reg. r \<in> set rs \<Longrightarrow> P reg \<Longrightarrow> P (r reg)) \<Longrightarrow> P (run_reports rs reg)"
  by (induction rs arbitrary: reg) (simp_all add: run_reports_def)

lemmas conv_defs =
  A_conv_def NS_conv_def PTR_conv_def CNAME_conv_def MR_conv_def TXT_conv_def SPF_conv_def HINFO_conv_def
  RP_conv_def OPT_conv_def TSIG_conv_def MX_conv_def KX_conv_def IPSECKEY_conv_def DHCID_conv_def AFSDB_conv_def
  NAPTR_conv_def SRV_conv_def SOA_conv_def KEY_conv_def CERT_conv_def TLSA_conv_def DS_conv_def DLV_conv_def
  SSHFP_conv_def RRSIG_conv_def DNSKEY_conv_def URL_conv_def MBOXFW_conv_def

lemmas report_defs = report_def AAAA_report_def NSEC_report_def NSEC3_report_def NSEC3PARAM_report_def LOC_report_def

lemma registry_ok_reports:
  "registry_ok reg \<Longrightarrow> registry_ok (reportBasicTypes reg)"
  "registry_ok reg \<Longrightarrow> registry_ok (reportOtherTypes reg)"
  "registry_ok reg \<Longrightarrow> registry_ok (reportFancyTypes reg)"
  unfolding reportBasicTypes_def reportOtherTypes_def reportFancyTypes_def
  by (rule run_reports_keeps [where P = registry_ok]; assumption?;
      auto simp: report_defs conv_defs known_def type_table_def qt_TSIG_def intro!: registry_ok_regist)+

lemma type_name_known:
  assumes "registry_ok reg"
  shows "TypeToNumber reg (NumberToType reg num 1) = Inr num"
proof (cases "reg_t2namemap reg (1, num)")
  case (Some name)
  then obtain c t where ct: "reg_n2typemap reg name = Some (c, t)" and kn: "known name num"
    using assms unfolding registry_ok_def by fastforce
  then have "known name t" using assms unfolding registry_ok_def by blast
  then have "t = num" using kn by (simp add: known_def)
  then show ?thesis using Some ct known_name_ok [OF kn] by (simp add: NumberToType_def TypeToNumber_def name_ok_def)
next
  case None
  let ?name = "''TYPE'' @ show_nat (unat num)"
  have "reg_n2typemap reg ?name = None"
  proof (rule ccontr)
    assume "reg_n2typemap reg ?name \<noteq> None"
    then obtain c t where "reg_n2typemap reg ?name = Some (c, t)" by auto
    then have "known ?name t" using assms unfolding registry_ok_def by blast
    then show False using known_name_ok by (fastforce simp: name_ok_def)
  qed
  then show ?thesis using None by (simp add: NumberToType_def TypeToNumber_def toUpper_type [simplified] atoi_show_nat)
qed


text \<open>The makers of a registry are filed under the type of the records they make.\<close>

fun maker_type :: "maker \<Rightarrow> u16" where
  "maker_type (MConv c) = c_rtype c"
| "maker_type MAAAA = 28"
| "maker_type MNSEC = 47"
| "maker_type MNSEC3 = 50"
| "maker_type MNSEC3PARAM = 51"
| "maker_type MLOC = 29"

fun maker_known :: "maker \<Rightarrow> bool" where
  "maker_known (MConv c) = (c \<in> set all_convs)"
| "maker_known _ = True"

definition makers_ok :: "registry \<Rightarrow> bool" where
  "makers_ok reg \<longleftrightarrow> (\<forall>cl ty m. reg_typemap reg (cl, ty) = Some m \<or> reg_zmakermap reg (cl, ty) = Some m \<longrightarrow>
     maker_type m = ty \<and> maker_known m)"

lemma makers_ok_empty: "makers_ok empty_registry"
  by (simp add: makers_ok_def empty_registry_def)

lemma makers_ok_regist:
  "makers_ok reg \<Longrightarrow> (\<And>m. f = Some m \<or> z = Some m \<Longrightarrow> maker_type m = ty \<and> maker_known m) \<Longrightarrow> makers_ok (regist cl ty f z name reg)"
  unfolding makers_ok_def regist_def by (auto split: option.splits if_splits)

lemma makers_ok_unregist: "makers_ok reg \<Longrightarrow> makers_ok (unregist cl ty reg)"
  unfolding makers_ok_def unregist_def by auto

lemma makers_ok_report: "c \<in> set all_convs \<Longrightarrow> makers_ok reg \<Longrightarrow> makers_ok (report c reg)"
  unfolding report_def by (auto intro: makers_ok_regist)

lemma makers_ok_class_reports:
  "makers_ok reg \<Longrightarrow> makers_ok (AAAA_report reg)" "makers_ok reg \<Longrightarrow> makers_ok (NSEC_report reg)"
  "makers_ok reg \<Longrightarrow> makers_ok (NSEC3_report reg)" "makers_ok reg \<Longrightarrow> makers_ok (NSEC3PARAM_report reg)"
  "makers_ok reg \<Longrightarrow> makers_ok (LOC_report reg)"
  unfolding AAAA_report_def NSEC_report_def NSEC3_report_def NSEC3PARAM_report_def LOC_report_def
  by (auto intro!: makers_ok_regist)

lemma convs_rtypes [simp]: "c_rtype TXT_conv = 16" "c_rtype TSIG_conv = 250" "TXT_conv \<in> set all_convs" "TSIG_conv \<in> set all_convs"
  by (simp_all add: TXT_conv_def TSIG_conv_def) (simp_all add: all_convs_def TXT_conv_def TSIG_conv_def)

lemma makers_ok_reports:
  "makers_ok reg \<Longrightarrow> makers_ok (reportBasicTypes reg)"
  "makers_ok reg \<Longrightarrow> makers_ok (reportOtherTypes reg)"
  "makers_ok reg \<Longrightarrow> makers_ok (reportFancyTypes reg)"
  unfolding reportBasicTypes_def reportOtherTypes_def reportFancyTypes_def
  by (rule run_reports_keeps [where P = makers_ok]; assumption?;
      auto simp: qt_TSIG_def intro!: makers_ok_regist makers_ok_report makers_ok_class_reports; simp add: all_convs_def)+

end
