(* ===== verification/RecordRoundtrip.thy ===== *)
theory RecordRoundtrip
  imports RecordTypes
begin

text \<open>
  The theorems about the records of \<open>RecordTypes\<close>: the names of the types, and the round trips of records through packets and through zone files.
\<close>

subsection \<open>Names of types\<close>

abbreviation all_types :: registry where
  "all_types \<equiv> reportAllTypes empty_registry"

lemma all_types_ok: "registry_ok all_types" "makers_ok all_types"
  by (simp_all add: reportAllTypes_def registry_ok_reports registry_ok_empty makers_ok_reports makers_ok_empty)

text \<open>
  Property C31. Once the types are registered, with or without the fancy ones, the name printed for
  any type number is read back as this number: a registered name leads to its type, and the
  name \<open>TYPEn\<close> of any other number is not taken.
\<close>

theorem type_names_roundtrip:
  "TypeToNumber (reportAllTypes empty_registry) (NumberToType (reportAllTypes empty_registry) num 1) = Inr num \<and>
   TypeToNumber (reportFancyTypes (reportAllTypes empty_registry))
     (NumberToType (reportFancyTypes (reportAllTypes empty_registry)) num 1) = Inr num"
  by (intro conjI type_name_known all_types_ok registry_ok_reports)

lemma NumberToType_word: "registry_ok reg \<Longrightarrow> word_text (NumberToType reg num 1)"
proof (cases "reg_t2namemap reg (1, num)")
  case None
  have "word_text (''TYPE'' @ show_nat (unat num))"
    using show_nat_digits isdigit_not_dns_space by (auto simp: word_text_def dns_isspace_def)
  then show ?thesis using None by (simp add: NumberToType_def)
next
  case (Some name)
  assume "registry_ok reg"
  then have "known name num" using Some unfolding registry_ok_def by blast
  then show ?thesis using known_name_ok Some by (simp add: NumberToType_def name_ok_def)
qed

lemma rmap_Inr:
  assumes "rmap f m r = Inr (x, r')"
  obtains y where "m r = Inr (y, r')" "x = f y"
  using assms
  by (auto simp: rmap_def rbind_def rreturn_def bindE_def split: sum.splits)

subsection \<open>Records in zone files\<close>

lemma convs_tail_last: "c \<in> set all_convs \<Longrightarrow> tail_last (conv_types c)"
proof -
  have "list_all (\<lambda>c. tail_last (conv_types c)) all_convs"
    by (simp add: all_convs_def conv_types_def conv_defs)
  then show "c \<in> set all_convs \<Longrightarrow> tail_last (conv_types c)" by (simp add: list_all_iff)
qed

text \<open>
  Property C21. A record given by its conversions, each of whose fields can be printed, survives the zone file:
  the text printed for it, with the registered names of types, is made into the same record. A field can be
  printed (\<open>text_ok\<close>) if it is a number or an address, a blob that is not empty, a name or a text in the
  escaped form in which the readers deliver them, or a time that the calendar gives back. A sized blob cannot:
  the two of a TSIG record are not read again.
\<close>

theorem record_text_roundtrip:
  assumes "reg_zmakermap (reportAllTypes empty_registry) (cl, c_rtype c) = Some (MConv c)"
    and "map ftype_of fs = conv_types c"
    and "list_all (text_ok (\<lambda>n. NumberToType (reportAllTypes empty_registry) n 1)
           (TypeToNumber (reportAllTypes empty_registry)) (env_gmtime env)) fs"
  shows "mastermake_text (reportAllTypes empty_registry) env (c_rtype c) cl
      (getZoneRepresentation (\<lambda>n. NumberToType (reportAllTypes empty_registry) n 1) env (RConv c fs)) = Inr (RConv c fs)"
proof -
  have "c \<in> set all_convs" using assms(1) all_types_ok(2) unfolding makers_ok_def by fastforce
  then have "tail_last (map ftype_of fs)" using convs_tail_last assms(2) by simp
  from fields_text_read [OF assms(3) this, of "[]"] show ?thesis
    using assms(1,2) by (simp add: mastermake_text_def conv_of_text_def RecordTextReader_init_def rt_at_def)
qed


text \<open>An MX record: registered, and with fields that can be printed.\<close>

lemma MX_registered: "reg_typemap all_types (1, c_rtype MX_conv) = Some (MConv MX_conv)"
  "reg_zmakermap all_types (1, c_rtype MX_conv) = Some (MConv MX_conv)"
  by (simp_all add: reportAllTypes_def reportOtherTypes_def reportBasicTypes_def run_reports_def report_defs regist_def
      empty_registry_def conv_defs qt_TSIG_def)

theorem record_text_roundtrip_witness:
  "\<forall>env. mastermake_text (reportAllTypes empty_registry) env (c_rtype MX_conv) 1
      (getZoneRepresentation (\<lambda>n. NumberToType (reportAllTypes empty_registry) n 1) env
        (RConv MX_conv [F16 10, FLabel True ''mail.example.''])) = Inr (RConv MX_conv [F16 10, FLabel True ''mail.example.''])"
proof
  fix env
  show "mastermake_text (reportAllTypes empty_registry) env (c_rtype MX_conv) 1
      (getZoneRepresentation (\<lambda>n. NumberToType (reportAllTypes empty_registry) n 1) env
        (RConv MX_conv [F16 10, FLabel True ''mail.example.''])) = Inr (RConv MX_conv [F16 10, FLabel True ''mail.example.''])"
    by (rule record_text_roundtrip [OF MX_registered(2)])
      (simp_all add: MX_conv_def conv_types_def word_text_def dns_isspace_def)
qed

subsection \<open>Records in packets\<close>

fun maker_of :: "content \<Rightarrow> maker option" where
  "maker_of (RConv c fs) = Some (MConv c)"
| "maker_of (RAAAA ip6) = Some MAAAA"
| "maker_of (RNSEC r) = Some MNSEC"
| "maker_of (RNSEC3 r) = Some MNSEC3"
| "maker_of (RNSEC3PARAM r) = Some MNSEC3PARAM"
| "maker_of (RLOC r) = Some MLOC"
| "maker_of (RUnknown qtype d_record) = None"

text \<open>
  What can be written: fields that fit their encodings, of which only the last may extend to the
  end of the record, sixteen bytes of an IPv6 address, and the conditions of the NSEC family.
\<close>

fun content_ok :: "content \<Rightarrow> bool" where
  "content_ok (RConv c fs) = (map ftype_of fs = conv_types c \<and> list_all wire_ok fs)"
| "content_ok (RAAAA ip6) = (length ip6 = 16)"
| "content_ok (RNSEC r) = (shown_ok (nsec_next r) \<and> ascending (nsec_set r))"
| "content_ok (RNSEC3 r) = nsec3_ok r"
| "content_ok (RNSEC3PARAM r) = nsec3param_ok r"
| "content_ok (RLOC r) = True"
| "content_ok (RUnknown qtype d_record) = False"

text \<open>The address record is the only one whose length is tested.\<close>

lemma doRecordCheck_written:
  assumes "writes (packet_write_fields fs) pw bs" "map ftype_of fs = conv_types c" "c \<in> set all_convs"
  shows "doRecordCheck c (word_of_nat (length bs)) = Inr ()"
proof (cases "c_rname c = ''A''")
  case True
  then have "conv_types c = [TIP]" using assms(3) by (auto simp: all_convs_def conv_defs conv_types_def)
  then obtain v where "fs = [FIP v]" using assms(2) by (cases "hd fs") (auto simp: map_eq_Cons_conv split: field.splits)
  then have "bs = be_bytes32 (htonl v)"
    using assms(1) by (auto simp: writes_def pw_xfrIP_def pw_xfr32BitInt_def pw_append_def dest!: arg_cong [of _ _ pw_record])
  then show ?thesis by (simp add: doRecordCheck_def be_bytes32_def)
qed (simp add: doRecordCheck_def)

lemma reads_AAAA: "length ip6 = 16 \<Longrightarrow> reads (AAAA_make 16) True (RAAAA ip6) ip6"
  unfolding AAAA_make_def
  by (auto simp: reads_def in_record_def rmap_def rbind_def rreturn_def copyRecord_ptr_def at_def substr_def)

lemma content_written:
  assumes "maker_of x = Some m" "maker_known m" "content_ok x" "plain pw"
  shows "\<exists>bs. writes (toPacket x) pw bs \<and> reads (make_packet m (word_of_nat (length bs))) True x bs"
proof (cases x)
  case (RConv c fs)
  then have ok: "list_all wire_ok fs" "map ftype_of fs = conv_types c" "c \<in> set all_convs" using assms by auto
  then obtain bs where bs: "writes (packet_write_fields fs) pw bs" "reads (packet_read_fields (conv_types c)) True fs bs"
    using fields_written [OF ok(1) _ assms(4)] convs_tail_last by auto
  have "make_packet m (word_of_nat (length bs)) = rmap (RConv c) (packet_read_fields (conv_types c))"
    using assms(1) RConv doRecordCheck_written [OF bs(1) ok(2,3)] by (auto simp: rbind_def rlift_def)
  then show ?thesis using bs(1) reads_rmap [OF bs(2), of "RConv c"] RConv by (intro exI [of _ bs]) (simp add: writes_def)
next
  case (RAAAA ip6)
  then have "m = MAAAA" "length ip6 = 16" using assms by auto
  then show ?thesis using writes_append [of ip6 pw] reads_AAAA RAAAA
    by (intro exI [of _ ip6]) (simp add: writes_def pw_xfrBlob_def o_def)
next
  case (RNSEC r)
  then show ?thesis using nsec.wr_rd_map [of r pw RNSEC] assms by (auto simp: writes_def)
next
  case (RNSEC3 r)
  then show ?thesis using nsec3.wr_rd_map [of r pw RNSEC3] assms by (auto simp: writes_def)
next
  case (RNSEC3PARAM r)
  then show ?thesis using nsec3param.wr_rd_map [of r pw RNSEC3PARAM] assms by (auto simp: writes_def)
next
  case (RLOC r)
  then show ?thesis using loc.wr_rd_map [where v = r and pw = pw and f = RLOC] assms reads_weaken by (fastforce simp: writes_def)
qed (use assms in simp)

text \<open>
  Property C20. Every record of a registered type survives the packet: what \<open>toPacket\<close> appends to an
  uncompressed packet is read by \<open>mastermake\<close>, wherever these bytes are the data of a record of
  this type and class in a packet, as the same record, and the reader stands at their end.
\<close>

theorem record_wire_roundtrip:
  assumes "reg_typemap (reportAllTypes empty_registry) (if d_qtype x = qt_OPT then 1 else qclass, d_qtype x) = maker_of x"
    and "maker_of x \<noteq> None" "content_ok x" "plain pw"
  shows "\<exists>bs. writes (toPacket x) pw bs \<and>
    reads (mastermake (reportAllTypes empty_registry) (d_qtype x) qclass (word_of_nat (length bs))) True x bs"
proof -
  obtain m where m: "maker_of x = Some m" using assms(2) by auto
  then have "maker_known m" using assms(1) all_types_ok(2) unfolding makers_ok_def by metis
  moreover have "mastermake all_types (d_qtype x) qclass = make_packet m"
    using assms(1) m by (auto simp: mastermake_def Let_def split: if_splits)
  ultimately show ?thesis using content_written [OF m _ assms(3,4)] by simp
qed


text \<open>Applied to an IPv6 address.\<close>

lemma AAAA_registered: "reg_typemap all_types (1, 28) = Some MAAAA"
  by (simp add: reportAllTypes_def reportOtherTypes_def reportBasicTypes_def run_reports_def report_defs regist_def
      empty_registry_def conv_defs qt_TSIG_def)

theorem record_wire_roundtrip_witness:
  "\<exists>bs. writes (toPacket (RAAAA (replicate 16 7))) (example_writer\<lparr> pw_canonic := True \<rparr>) bs \<and>
    reads (mastermake (reportAllTypes empty_registry) (d_qtype (RAAAA (replicate 16 7))) 1 (word_of_nat (length bs))) True
      (RAAAA (replicate 16 7)) bs"
  using record_wire_roundtrip [of "RAAAA (replicate 16 7)" 1 "example_writer\<lparr> pw_canonic := True \<rparr>"] AAAA_registered
  by (simp add: plain_def example_writer_def qt_OPT_def del: d_qtype.simps(1))

subsection \<open>Unknown records\<close>

lemma hex_value_digit: "n < 16 \<Longrightarrow> hex_value (hex_digit n) = Some n"
  by (auto simp: hex_digit_def hex_value_def isdigit_def ucode_def)

lemma scan_hex2_byte: "scan_hex2 (hex_digit (unat b div 16)) (hex_digit (unat b mod 16)) = Inr (b :: byte)"
proof -
  have "unat b < 256" using unsigned_less [of b] by simp
  then have "hex_value (hex_digit (unat b div 16)) = Some (unat b div 16)" "hex_value (hex_digit (unat b mod 16)) = Some (unat b mod 16)"
    by (intro hex_value_digit; simp add: less_mult_imp_div_less)+
  then show ?thesis by (simp add: scan_hex2_def)
qed

definition unknown_hex :: "byte list \<Rightarrow> string" where
  "unknown_hex d = concat (map (\<lambda>b. hex2 (b2c b)) d)"

lemma unknown_bytes_hex: "unknown_bytes (length d) (unknown_hex d) = Inr d"
  by (induction d) (simp_all add: unknown_hex_def hex2_def scan_hex2_byte)


lemma tokens_word:
  assumes "l \<noteq> []" "\<forall>c \<in> set l. \<not> delim c" "delim c"
  shows "tokens delim (l @ c # s) = l # tokens delim s"
proof -
  have l: "dropWhile delim (l @ c # s) = l @ c # s" using assms by (cases l) auto
  have t: "takeWhile (\<lambda>c. \<not> delim c) (l @ c # s) = l" "dropWhile (\<lambda>c. \<not> delim c) (l @ c # s) = c # s"
    using assms(2,3) by (simp_all add: takeWhile_append2 dropWhile_append2)
  have "l @ c # s \<noteq> []" by simp
  from tokens_unfold [OF l this] t show ?thesis using assms(3) by (simp add: tokens_skip)
qed

lemma hex_digit_clean: "n < 16 \<Longrightarrow> \<not> default_delims (hex_digit n)"
  by (auto simp: hex_digit_def default_delims_def ucode_def dest!: arg_cong [of _ _ ucode])

lemma unknown_hex_clean: "\<forall>c \<in> set (unknown_hex d). \<not> default_delims c"
proof -
  have "unat (b :: byte) < 256" for b using unsigned_less [of b] by simp
  then show ?thesis by (auto simp: unknown_hex_def hex2_def hex_digit_clean less_mult_imp_div_less)
qed

lemma isdigit_clean: "isdigit c \<Longrightarrow> \<not> default_delims c"
  by (auto simp: isdigit_def default_delims_def ucode_def)

lemma tokens_last:
  assumes "l \<noteq> []" "\<forall>c \<in> set l. \<not> delim c"
  shows "tokens delim l = [l]"
proof -
  have "takeWhile (\<lambda>c. \<not> delim c) l = l" "dropWhile (\<lambda>c. \<not> delim c) l = []" "dropWhile delim l = l"
    using assms dropWhile_clean [of l delim "[]"] by (simp_all add: takeWhile_eq_all_conv)
  then show ?thesis using tokens_unfold [of delim l l] assms(1) tokens_Nil [of delim "[]"] by (simp del: dropWhile_eq_Nil_conv)
qed

lemma length_unknown_hex: "length (unknown_hex d) = 2 * length d"
  by (induction d) (simp_all add: unknown_hex_def hex2_def)

lemma unknown_tokens:
  "tokens default_delims (Unknown_getZoneRepresentation d) =
     [[CHR 0x5C, CHR ''#''], show_nat (length d)] @ (if d = [] then [] else [unknown_hex d])"
proof -
  have "tokens default_delims (Unknown_getZoneRepresentation d) =
      [CHR 0x5C, CHR ''#''] # show_nat (length d) # tokens default_delims (unknown_hex d)"
    using tokens_word [of "[CHR 0x5C, CHR ''#'']" default_delims "CHR '' ''" "show_nat (length d) @ '' '' @ unknown_hex d"]
      tokens_word [of "show_nat (length d)" default_delims "CHR '' ''" "unknown_hex d"] show_nat_digits isdigit_clean
    by (simp add: Unknown_getZoneRepresentation_def unknown_hex_def default_delims_def)
  moreover have "d \<noteq> [] \<Longrightarrow> unknown_hex d \<noteq> []" by (metis length_unknown_hex length_0_conv mult_eq_0_iff zero_neq_numeral)
  ultimately show ?thesis using tokens_last [OF _ unknown_hex_clean] by (auto simp: unknown_hex_def tokens_Nil)
qed

text \<open>
  The generic form of RFC 3597: the text printed for an unknown record of fewer than
  2^31 bytes makes a record that is written to a packet as exactly these bytes, the empty record
  included.
\<close>

theorem unknown_text_roundtrip:
  assumes "length d < 2 ^ 31"
  shows "toPacket (Unknown_of_text (Unknown_getZoneRepresentation d)) pw = Inr (pw_append d pw)"
proof -
  let ?t = "word_of_nat (length d) :: u32"
  have t: "unat ?t = length d" "unat (2 * ?t) = 2 * length d"
    using assms by (simp_all add: unat_of_nat take_bit_nat_def unat_word_ariths)
  let ?parts = "[[CHR 0x5C, CHR ''#''], show_nat (length d)] @ (if d = [] then [] else [unknown_hex d])"
  have p: "stringtok (map b2c (map c2b (Unknown_getZoneRepresentation d))) default_delims = ?parts"
    unfolding map_b2c_c2b stringtok_tokens by (rule unknown_tokens)
  have z: "show_nat 0 = ''0''" "atoi ''0'' = 0" by code_simp+
  show ?thesis
    using t unknown_bytes_hex [of d] length_unknown_hex [of d] p z
    by (cases "d = []") (simp_all add: Unknown_of_text_def Unknown_toPacket_def Let_def pw_xfrBlob_def o_def del: map_map)
qed

theorem unknown_text_roundtrip_witness:
  "\<forall>pw. toPacket (Unknown_of_text (Unknown_getZoneRepresentation [0xAB, 0, 7])) pw = Inr (pw_append [0xAB, 0, 7] pw)"
proof
  fix pw
  show "toPacket (Unknown_of_text (Unknown_getZoneRepresentation [0xAB, 0, 7])) pw = Inr (pw_append [0xAB, 0, 7] pw)"
    by (rule unknown_text_roundtrip) simp
qed

lemma read_bytes_set: "read_bytes n r = Inr (bs, r') \<Longrightarrow> set bs \<subseteq> set (pr_content r)"
proof (induction n arbitrary: r bs)
  case (Suc n)
  then obtain b s' bs' where b: "get8BitInt r = Inr (b, s')" "read_bytes n s' = Inr (bs', r')" "bs = b # bs'"
    by (auto simp: rbind_def rreturn_def bindE_def split: sum.splits)
  have "b \<in> set (pr_content r)" "pr_content s' = pr_content r"
    using b(1) by (auto simp: get8BitInt_def at_def bindE_def split: if_splits sum.splits)
  then show ?case using Suc.IH [OF b(2)] b(3) by auto
qed (simp add: rreturn_def)

text \<open>
  A record of a type that is not registered cannot be copied from a packet to a packet:
  its raw bytes are taken for the generic text form, and unless they happen to contain white
  space this raises a parser exception.
\<close>

theorem unknown_packet_error:
  assumes "reg_typemap reg (qclass, qtype) = None" "qtype \<noteq> qt_OPT"
    and "mastermake reg qtype qclass clen r = Inr (x, r')" "\<forall>b \<in> set (pr_content r). \<not> default_delims (b2c b)"
  shows "\<exists>what. toPacket x pw = Inl (MOADNSException what)"
proof -
  have "rmap (RUnknown qtype) (copyRecord (unat clen)) r = Inr (x, r')"
    using assms(1-3) by (simp add: mastermake_def Unknown_make_def)
  then obtain d where d: "read_bytes (unat clen) r = Inr (d, r')" "x = RUnknown qtype d"
    unfolding copyRecord_def by (rule rmap_Inr)
  then have "\<forall>c \<in> set (map b2c d). \<not> default_delims c" using read_bytes_set assms(4) by fastforce
  then have "tokens default_delims (map b2c d) = (if d = [] then [] else [map b2c d])"
    using tokens_last [of "map b2c d" default_delims] by (simp add: tokens_Nil)
  then have "length (stringtok (map b2c d) default_delims) < 2" by (simp add: stringtok_tokens)
  then show ?thesis using d(2) by (auto simp: Unknown_toPacket_def Let_def)
qed

theorem unknown_packet_error_witness:
  "\<exists>what. toPacket (RUnknown 65280 [1, 2]) example_writer = Inl (MOADNSException what)"
proof (rule unknown_packet_error)
  show "mastermake empty_registry 65280 1 2 (on_wire 0 2 [1, 2] 0) = Inr (RUnknown 65280 [1, 2], on_wire 0 2 [1, 2] 2)"
    by code_simp
  show "\<forall>b \<in> set (pr_content (on_wire 0 2 [1, 2] 0)). \<not> default_delims (b2c b)" by code_simp
qed (simp_all add: empty_registry_def qt_OPT_def)

end
