(* ===== verification/PacketParser.thy ===== *)
theory PacketParser
  imports RecordRoundtrip
begin

text \<open>
  Parsing packets: \<open>struct DNSRecord\<close>, \<open>class MOADNSParser\<close> of \<open>dnsparser.cc\<close>, the stored form of
  single records (\<open>serialize\<close>, \<open>unserialize\<close>), and the EDNS options of a packet (\<open>getEDNSOpts\<close> of
  \<open>dnsrecords.cc\<close>).
\<close>

subsection \<open>Records of a packet\<close>

datatype RecordPlace = Answer | Nameserver | Additional

record DNSRecord =
  dr_label :: string
  dr_type :: u16
  dr_class :: u16
  dr_ttl :: u32
  dr_clen :: u16
  dr_place :: RecordPlace
  dr_content :: "content option"

text \<open>
  Records are compared by lower-cased label, type, class and lower-cased text; \<open>Z\<close> prints the
  content, and a record without one counts as the empty text.
\<close>

definition lower_zone_text :: "(content \<Rightarrow> string) \<Rightarrow> DNSRecord \<Rightarrow> string" where
  "lower_zone_text Z dr = (case dr_content dr of None \<Rightarrow> [] | Some x \<Rightarrow> toLower (Z x))"

definition DNSRecord_less :: "(content \<Rightarrow> string) \<Rightarrow> DNSRecord \<Rightarrow> DNSRecord \<Rightarrow> bool" where
  "DNSRecord_less Z a b =
     (let lzrp = lower_zone_text Z a; rzrp = lower_zone_text Z b;
          llabel = toLower (dr_label a); rlabel = toLower (dr_label b)
      in string_less llabel rlabel \<or> (llabel = rlabel \<and>
           (dr_type a < dr_type b \<or> (dr_type a = dr_type b \<and>
             (dr_class a < dr_class b \<or> (dr_class a = dr_class b \<and> string_less lzrp rzrp))))))"

definition DNSRecord_eq :: "(content \<Rightarrow> string) \<Rightarrow> DNSRecord \<Rightarrow> DNSRecord \<Rightarrow> bool" where
  "DNSRecord_eq Z a b \<longleftrightarrow>
     toLower (dr_label a) = toLower (dr_label b) \<and> dr_type a = dr_type b \<and> dr_class a = dr_class b
     \<and> lower_zone_text Z a = lower_zone_text Z b"

subsection \<open>The parser\<close>

text \<open>The counts of the header are kept in host order. Each answer has the position after it.\<close>

record MOADNSParser =
  md_header :: dnsheader
  md_qname :: string
  md_qclass :: u16
  md_qtype :: u16
  md_answers :: "(DNSRecord \<times> nat) list"
  md_content :: "byte list"
  md_tsigPos :: nat

fun read_questions :: "nat \<Rightarrow> MOADNSParser \<Rightarrow> MOADNSParser reader" where
  "read_questions 0 mdp = rreturn mdp"
| "read_questions (Suc n) mdp =
     rbind getLabel (\<lambda>qname. rbind get16BitInt (\<lambda>qtype. rbind get16BitInt (\<lambda>qclass.
       read_questions n (mdp\<lparr> md_qname := qname, md_qtype := qtype, md_qclass := qclass \<rparr>))))"

definition record_place :: "dnsheader \<Rightarrow> nat \<Rightarrow> RecordPlace" where
  "record_place h n =
     (if n < unat (hdr_ancount h) then Answer
      else if n < unat (hdr_ancount h) + unat (hdr_nscount h) then Nameserver else Additional)"

text \<open>The body of the loop over the records.\<close>

definition read_record :: "registry \<Rightarrow> nat \<Rightarrow> MOADNSParser \<Rightarrow> MOADNSParser reader" where
  "read_record reg n mdp pr =
     (let recordStartPos = pr_pos pr
      in rbind getLabel (\<lambda>label. rbind getDnsrecordheader (\<lambda>ah.
           rbind (mastermake reg (rh_type ah) (rh_class ah) (rh_clen ah)) (\<lambda>x pr.
             let dr = \<lparr> dr_label = label, dr_type = rh_type ah, dr_class = rh_class ah, dr_ttl = rh_ttl ah,
                        dr_clen = rh_clen ah, dr_place = record_place (md_header mdp) n, dr_content = Some x \<rparr>;
                 mdp = mdp\<lparr> md_answers := md_answers mdp @ [(dr, pr_pos pr)] \<rparr>
             in Inr (if dr_type dr = qt_TSIG \<and> dr_class dr = 0xff
                     then mdp\<lparr> md_tsigPos := (recordStartPos + 12) mod 65536 \<rparr> else mdp, pr)))) pr)"

text \<open>
  The loop itself: \<open>k\<close> records are left after the first \<open>n\<close>. The result has the number of
  records read, and whether an \<open>out_of_range\<close> exception ended the loop; other exceptions pass.
\<close>

fun read_records :: "registry \<Rightarrow> nat \<Rightarrow> nat \<Rightarrow> MOADNSParser \<Rightarrow> PacketReader \<Rightarrow> (nat \<times> bool \<times> MOADNSParser) result" where
  "read_records reg 0 n mdp pr = Inr (n, False, mdp)"
| "read_records reg (Suc k) n mdp pr =
     (case read_record reg n mdp pr of
        Inr (mdp', pr') \<Rightarrow> read_records reg k (n + 1) mdp' pr'
      | Inl OutOfRange \<Rightarrow> Inr (n, True, mdp)
      | Inl e \<Rightarrow> Inl e)"

definition adjust_counts :: "nat \<Rightarrow> dnsheader \<Rightarrow> dnsheader" where
  "adjust_counts n h =
     (if n < unat (hdr_ancount h) then h\<lparr> hdr_ancount := word_of_nat n, hdr_nscount := 0, hdr_arcount := 0 \<rparr>
      else if n < unat (hdr_ancount h) + unat (hdr_nscount h)
      then h\<lparr> hdr_nscount := word_of_nat (n - unat (hdr_ancount h)), hdr_arcount := 0 \<rparr>
      else h\<lparr> hdr_arcount := word_of_nat (n - unat (hdr_ancount h) - unat (hdr_nscount h)) \<rparr>)"

text \<open>\<open>what\<close> is the text of the library's \<open>out_of_range\<close> exception.\<close>

definition out_of_bounds :: "string \<Rightarrow> byte list \<Rightarrow> dnsheader \<Rightarrow> exn" where
  "out_of_bounds what packet h =
     MOADNSException (''Error parsing packet of '' @ show_nat (length packet) @ '' bytes (rd=''
       @ show_nat (if hdr_rd h then 1 else 0) @ ''), out of bounds: '' @ what)"

definition host_counts :: "dnsheader \<Rightarrow> dnsheader" where
  "host_counts h = h\<lparr> hdr_qdcount := ntohs (hdr_qdcount h), hdr_ancount := ntohs (hdr_ancount h),
     hdr_nscount := ntohs (hdr_nscount h), hdr_arcount := ntohs (hdr_arcount h) \<rparr>"

text \<open>
  The constructor. The length of the content is kept in 16 bits, but the whole rest of the packet
  is copied to it.
\<close>

definition MOADNSParser_init :: "registry \<Rightarrow> string \<Rightarrow> byte list \<Rightarrow> MOADNSParser result" where
  "MOADNSParser_init reg what packet =
     (if length packet < 12 then Inl (MOADNSException ''Packet shorter than minimal header'')
      else
        let h = dnsheader_of packet
        in if hdr_opcode h \<noteq> 0 \<and> hdr_opcode h \<noteq> 4
           then Inl (MOADNSException (''Can'' @ [CHR 0x27] @ ''t parse non-query packet with opcode='' @ show_nat (unat (hdr_opcode h))))
           else
             let h = host_counts h; contentlen = (length packet - 12) mod 65536
             in if contentlen \<noteq> length packet - 12 then Inl UndefinedBehaviour
                else
                  let content = drop 12 packet;
                      mdp = \<lparr> md_header = h, md_qname = [], md_qclass = 0, md_qtype = 0, md_answers = [],
                              md_content = content, md_tsigPos = 0 \<rparr>
                  in case read_questions (unat (hdr_qdcount h)) mdp (PacketReader_init content) of
                       Inl OutOfRange \<Rightarrow> Inl (out_of_bounds what packet h)
                     | Inl e \<Rightarrow> Inl e
                     | Inr (mdp, pr) \<Rightarrow>
                         (case read_records reg (unat (hdr_ancount h) + unat (hdr_nscount h) + unat (hdr_arcount h)) 0 mdp pr of
                            Inl e \<Rightarrow> Inl e
                          | Inr (n, broken, mdp) \<Rightarrow>
                              if \<not> broken then Inr mdp
                              else if hdr_tc h then Inr (mdp\<lparr> md_header := adjust_counts n h \<rparr>)
                              else Inl (out_of_bounds what packet h)))"

definition getPacketReader :: "MOADNSParser \<Rightarrow> nat \<Rightarrow> PacketReader" where
  "getPacketReader mdp offset = (PacketReader_init (md_content mdp))\<lparr> pr_pos := offset \<rparr>"

subsection \<open>Stored records\<close>

text \<open>\<open>mem\<close> holds what a new packet writer has in the members its constructor does not set.\<close>

definition serialize :: "DNSPacketWriter \<Rightarrow> content \<Rightarrow> string \<Rightarrow> bool \<Rightarrow> bool \<Rightarrow> string result" where
  "serialize mem x qname canonic lowerCase =
     bindE (DNSPacketWriter_init mem [] 1 1 0) (\<lambda>pw.
     let pw = (if canonic then pw\<lparr> pw_canonic := True \<rparr> else pw);
         pw = (if lowerCase then pw\<lparr> pw_lowerCase := True \<rparr> else pw)
     in bindE (pw_startRecord qname (d_qtype x) 3600 1 ANSWER pw) (\<lambda>pw.
        bindE (toPacket x pw) (\<lambda>pw.
        bindE (pw_commit pw) (\<lambda>pw. Inr (pw_getRecords pw)))))"

text \<open>
  The packet around a stored record: one root question, and the record with the name encoded. The
  position is kept in 16 bits. The result is the content with its label and time to live.
\<close>

definition pseudo_packet :: "string \<Rightarrow> u16 \<Rightarrow> string \<Rightarrow> byte list" where
  "pseudo_packet qname qtype serialized =
     (let header = bytes_of_dnsheader ((dnsheader_of (replicate 12 0))\<lparr> hdr_qdcount := ntohs 1, hdr_ancount := ntohs 1 \<rparr>);
          encoded = map c2b (EncodeDNSLabel qname);
          packet = replicate (12 + 5 + length encoded + 10 + length serialized) 0;
          packet = put_bytes packet 0 header;
          packet = put_bytes packet 12 [0, 0, 1, 0, 1];
          packet = put_bytes packet 17 encoded;
          pos = (17 + length encoded) mod 65536;
          drh = \<lparr> rh_type = qtype, rh_class = 1, rh_ttl = 0, rh_clen = word_of_nat (length serialized) \<rparr>;
          packet = put_bytes packet pos (bytes_of_dnsrecordheader drh);
          pos = (pos + 10) mod 65536
      in put_bytes packet pos (map c2b serialized))"

definition unserialize :: "registry \<Rightarrow> string \<Rightarrow> string \<Rightarrow> u16 \<Rightarrow> string \<Rightarrow> (content option \<times> string \<times> u32) result" where
  "unserialize reg what qname qtype serialized =
     bindE (MOADNSParser_init reg what (pseudo_packet qname qtype serialized)) (\<lambda>mdp.
       case md_answers mdp of
         [] \<Rightarrow> Inl UndefinedBehaviour
       | (dr, pos) # answers \<Rightarrow> Inr (dr_content dr, dr_label dr, dr_ttl dr))"

subsection \<open>EDNS options\<close>

record EDNSOpts =
  eo_packetsize :: u16
  eo_extRCode :: byte
  eo_version :: byte
  eo_Z :: u16
  eo_options :: "(u16 \<times> string) list"

text \<open>
  The first OPT record of the additional section fills the options; \<open>None\<close> is the result false.
  Its time to live is read as an \<open>EDNS0Record\<close>, in network order.
\<close>

definition edns0_of_ttl :: "u32 \<Rightarrow> EDNS0Record" where
  "edns0_of_ttl ttl =
     (let m = be_bytes32 ttl in \<lparr> ex_extRCode = m ! 0, ex_version = m ! 1, ex_Z = le16 (m ! 2) (m ! 3) \<rparr>)"

definition getEDNSOpts :: "MOADNSParser \<Rightarrow> EDNSOpts option" where
  "getEDNSOpts mdp =
     (if hdr_arcount (md_header mdp) \<noteq> 0 \<and> md_answers mdp \<noteq> [] then
        case find (\<lambda>(dr, pos). dr_place dr = Additional \<and> dr_type dr = qt_OPT) (md_answers mdp) of
          None \<Rightarrow> None
        | Some (dr, pos) \<Rightarrow>
            let stuff = edns0_of_ttl (dr_ttl dr)
            in (case dr_content dr of
                  Some (RConv c [FBlob d_data]) \<Rightarrow>
                    if c = OPT_conv
                    then Some \<lparr> eo_packetsize = dr_class dr, eo_extRCode = ex_extRCode stuff, eo_version = ex_version stuff,
                                eo_Z = ntohs (ex_Z stuff), eo_options = OPT_getData d_data 0 [] \<rparr>
                    else None
                | _ \<Rightarrow> None)
      else None)"

end
