(* ===== verification/ParserProps.thy ===== *)
theory ParserProps
  imports PacketParser
begin

text \<open>
  The theorems about the packet parser: the sections of a parsed packet, packets of the writer, and
  records in the record store.
\<close>

subsection \<open>The sections of a parsed packet\<close>

definition places :: "MOADNSParser \<Rightarrow> RecordPlace list" where
  "places mdp = map (\<lambda>(dr, pos). dr_place dr) (md_answers mdp)"

lemma read_record_places:
  "read_record reg n mdp pr = Inr (mdp', pr') \<Longrightarrow>
   md_header mdp' = md_header mdp \<and> places mdp' = places mdp @ [record_place (md_header mdp) n]"
  by (auto simp: read_record_def rbind_def Let_def places_def split: if_splits)

lemma read_questions_places:
  "read_questions k mdp pr = Inr (mdp', pr') \<Longrightarrow> md_header mdp' = md_header mdp \<and> places mdp' = places mdp"
proof (induction k arbitrary: mdp pr)
  case (Suc k)
  then obtain q t c pr1 where "read_questions k (mdp\<lparr> md_qname := q, md_qtype := t, md_qclass := c \<rparr>) pr1 = Inr (mdp', pr')"
    by (auto simp: rbind_def)
  from Suc.IH [OF this] show ?case by (simp add: places_def)
qed (simp add: rreturn_def)

lemma read_records_places:
  "read_records reg k n mdp pr = Inr (n', broken, mdp') \<Longrightarrow> places mdp = map (record_place (md_header mdp)) [0..<n] \<Longrightarrow>
   md_header mdp' = md_header mdp \<and> places mdp' = map (record_place (md_header mdp)) [0..<n'] \<and>
   (if broken then n' < n + k else n' = n + k)"
proof (induction k arbitrary: n mdp pr)
  case (Suc k)
  show ?case
  proof (cases "read_record reg n mdp pr")
    case (Inl e)
    then show ?thesis using Suc.prems by (cases e) auto
  next
    case (Inr r)
    obtain mdp1 pr1 where r: "r = (mdp1, pr1)" by (cases r)
    from read_record_places [OF Inr [unfolded r]] have s: "md_header mdp1 = md_header mdp"
      "places mdp1 = map (record_place (md_header mdp1)) [0..<n + 1]" using Suc.prems(2) by simp_all
    have "read_records reg k (n + 1) mdp1 pr1 = Inr (n', broken, mdp')" using Suc.prems(1) Inr r by simp
    from Suc.IH [OF this s(2)] s(1) show ?thesis by (auto split: if_splits)
  qed
qed auto

definition sections :: "dnsheader \<Rightarrow> RecordPlace list" where
  "sections h = replicate (unat (hdr_ancount h)) Answer @ replicate (unat (hdr_nscount h)) Nameserver
     @ replicate (unat (hdr_arcount h)) Additional"

lemma map_constant: "(\<And>n. i \<le> n \<Longrightarrow> n < j \<Longrightarrow> f n = c) \<Longrightarrow> map f [i..<j] = replicate (j - i) c"
  by (rule nth_equalityI) auto

lemma upt_split: "i \<le> j \<Longrightarrow> j \<le> k \<Longrightarrow> [i..<k] = [i..<j] @ [j..<k]"
  using upt_add_eq_append [of i j "k - j"] by simp

lemma record_places:
  "map (record_place h) [0..<n] =
     replicate (min n (unat (hdr_ancount h))) Answer
     @ replicate (min n (unat (hdr_ancount h) + unat (hdr_nscount h)) - unat (hdr_ancount h)) Nameserver
     @ replicate (n - (unat (hdr_ancount h) + unat (hdr_nscount h))) Additional"
proof -
  let ?a = "unat (hdr_ancount h)" let ?b = "?a + unat (hdr_nscount h)"
  have "[0..<n] = [0..<min n ?a] @ [min n ?a..<min n ?b] @ [min n ?b..<n]"
    using upt_split [of 0 "min n ?a" n] upt_split [of "min n ?a" "min n ?b" n] by simp
  moreover have "map (record_place h) [0..<min n ?a] = replicate (min n ?a) Answer"
    using map_constant [of 0 "min n ?a" "record_place h"] by (simp add: record_place_def)
  moreover have "map (record_place h) [min n ?a..<min n ?b] = replicate (min n ?b - min n ?a) Nameserver"
    by (rule map_constant) (auto simp: record_place_def)
  moreover have "map (record_place h) [min n ?b..<n] = replicate (n - min n ?b) Additional"
    by (rule map_constant) (auto simp: record_place_def)
  moreover have "min n ?b - min n ?a = min n ?b - ?a" "n - min n ?b = n - ?b" by auto
  ultimately show ?thesis by simp
qed

lemma adjust_counts_sections:
  assumes "n < unat (hdr_ancount h) + unat (hdr_nscount h) + unat (hdr_arcount h)"
  shows "sections (adjust_counts n h) = map (record_place h) [0..<n]"
proof -
  have u: "k < 65536 \<Longrightarrow> unat (word_of_nat k :: u16) = k" for k by (simp add: unat_of_nat take_bit_nat_def)
  have b: "unat (w :: u16) < 65536" for w using unsigned_less [of w] by simp
  show ?thesis
    using assms b [of "hdr_ancount h"] b [of "hdr_nscount h"] b [of "hdr_arcount h"]
    by (auto simp: record_places sections_def adjust_counts_def u min_def simp del: of_nat_diff)
qed

text \<open>
  Property C32. The counts of a parsed packet describe its records: the answers come first, as many
  as the header says, then the authority records and the additional ones - for a truncated packet
  too, whose counts are adjusted to the records that were complete.
\<close>

theorem parsed_sections:
  assumes "MOADNSParser_init reg what packet = Inr mdp"
  shows "map (\<lambda>(dr, pos). dr_place dr) (md_answers mdp) =
    replicate (unat (hdr_ancount (md_header mdp))) Answer @ replicate (unat (hdr_nscount (md_header mdp))) Nameserver
    @ replicate (unat (hdr_arcount (md_header mdp))) Additional"
proof -
  let ?h = "host_counts (dnsheader_of packet)" let ?content = "drop 12 packet"
  let ?mdp = "\<lparr> md_header = ?h, md_qname = [], md_qclass = 0, md_qtype = 0, md_answers = [], md_content = ?content, md_tsigPos = 0 \<rparr>"
  let ?k = "unat (hdr_ancount ?h) + unat (hdr_nscount ?h) + unat (hdr_arcount ?h)"
  obtain mdp1 pr1 n broken mdp2 where
    q: "read_questions (unat (hdr_qdcount ?h)) ?mdp (PacketReader_init ?content) = Inr (mdp1, pr1)" and
    r: "read_records reg ?k 0 mdp1 pr1 = Inr (n, broken, mdp2)" and
    mdp: "mdp = (if broken then mdp2\<lparr> md_header := adjust_counts n ?h \<rparr> else mdp2)"
    using assms by (auto simp: MOADNSParser_init_def Let_def split: if_splits sum.splits exn.splits prod.splits)
  have h1: "md_header mdp1 = ?h" and p1: "places mdp1 = []" using read_questions_places [OF q] by (simp_all add: places_def)
  then have p1': "places mdp1 = map (record_place (md_header mdp1)) [0..<0]" by simp
  from read_records_places [OF r p1'] h1 have p2: "md_header mdp2 = ?h" "places mdp2 = map (record_place ?h) [0..<n]"
    and n: "if broken then n < ?k else n = ?k" by (simp_all split: if_splits)
  have "places mdp = sections (md_header mdp)"
  proof (cases broken)
    case True
    then show ?thesis using mdp p2 adjust_counts_sections n by (simp add: places_def)
  next
    case False
    then show ?thesis using mdp p2 n by (simp add: record_places sections_def)
  qed
  then show ?thesis by (simp add: places_def sections_def)
qed


subsection \<open>Packets that were written\<close>

text \<open>
  A record for the writer: its owner, by name and labels, and its data. \<open>write_record\<close> is
  \<open>startRecord\<close>, \<open>toPacket\<close>, \<open>commit\<close>, as the callers of the writer do it.
\<close>

record outgoing =
  og_name :: string
  og_labels :: "byte list list"
  og_ttl :: u32
  og_class :: u16
  og_place :: Place
  og_content :: content

definition write_record :: "outgoing \<Rightarrow> DNSPacketWriter \<Rightarrow> DNSPacketWriter result" where
  "write_record og pw =
     bindE (pw_startRecord (og_name og) (d_qtype (og_content og)) (og_ttl og) (og_class og) (og_place og) pw) (\<lambda>pw.
     bindE (toPacket (og_content og) pw) pw_commit)"

fun write_records :: "outgoing list \<Rightarrow> DNSPacketWriter \<Rightarrow> DNSPacketWriter result" where
  "write_records [] pw = Inr pw"
| "write_records (og # ogs) pw = bindE (write_record og pw) (write_records ogs)"

text \<open>Texts that the writer takes for a list of labels; the root may be empty or a dot.\<close>

definition names_labels :: "string \<Rightarrow> byte list list \<Rightarrow> bool" where
  "names_labels s ls \<longleftrightarrow> list_all valid_label ls \<and> (if ls = [] then s = [] \<or> s = ''.'' else spelling ls s)"

lemma names_labels_written:
  assumes "names_labels s ls" "\<not> pw_lowerCase pw" "\<not> c \<or> pw_canonic pw"
  shows "\<exists>lmap. pw_xfrLabel s c pw = Inr (pw\<lparr> pw_record := pw_record pw @ wire_labels ls @ [0], pw_labelmap := lmap \<rparr>)"
proof -
  have c: "pw_xfrLabel s c pw = pw_xfrLabel s False pw" using assms(3) by (cases c) (simp_all add: pw_xfrLabel_def)
  consider "s = ''.''" "ls = []" | "s = []" "ls = []" | "spelling ls s" "ls \<noteq> []"
    using assms(1) by (auto simp: names_labels_def split: if_splits)
  then show ?thesis
  proof cases
    case 1
    have "pw_xfrLabel s False pw = Inr (pw\<lparr> pw_record := pw_record pw @ wire_labels ls @ [0], pw_labelmap := pw_labelmap pw \<rparr>)"
      using 1 assms(2) by (simp add: pw_xfrLabel_def Let_def)
    then show ?thesis using c by metis
  next
    case 2
    have "pw_xfrLabel s False pw = Inr (pw\<lparr> pw_record := pw_record pw @ wire_labels ls @ [0], pw_labelmap := pw_labelmap pw \<rparr>)"
      using 2 assms(2) by (simp add: pw_xfrLabel_def Let_def labeltokUnescape_def labeltokUnescape_loop.simps)
    then show ?thesis using c by metis
  next
    case 3
    then show ?thesis using pw_xfrLabel_plain [of ls s pw] assms(1,2) c by (auto simp: names_labels_def)
  qed
qed

text \<open>The bytes of a record: a pointer to the question if it has the owner's name.\<close>

definition owner_bytes :: "string \<Rightarrow> outgoing \<Rightarrow> byte list" where
  "owner_bytes qname og = (if pdns_iequals qname (og_name og) then [0xc0, 0x0c] else wire_labels (og_labels og) @ [0])"

definition og_header :: "outgoing \<Rightarrow> byte list \<Rightarrow> dnsrecordheader" where
  "og_header og bs = \<lparr> rh_type = d_qtype (og_content og), rh_class = og_class og, rh_ttl = og_ttl og, rh_clen = word_of_nat (length bs) \<rparr>"

lemma og_header_simps [simp]:
  "rh_type (og_header og bs) = d_qtype (og_content og)" "rh_class (og_header og bs) = og_class og"
  "rh_ttl (og_header og bs) = og_ttl og" "rh_clen (og_header og bs) = word_of_nat (length bs)"
  by (simp_all add: og_header_def)

definition record_bytes :: "string \<Rightarrow> outgoing \<Rightarrow> byte list \<Rightarrow> byte list" where
  "record_bytes qname og bs = owner_bytes qname og @ bytes_of_dnsrecordheader (og_header og bs) @ bs"

text \<open>What makes a record writable and readable with the registry \<open>reg\<close>.\<close>

definition outgoing_ok :: "outgoing \<Rightarrow> bool" where
  "outgoing_ok og \<longleftrightarrow> names_labels (og_name og) (og_labels og) \<and> maker_of (og_content og) \<noteq> None \<and> content_ok (og_content og) \<and>
     reg_typemap all_types (if d_qtype (og_content og) = qt_OPT then 1 else og_class og, d_qtype (og_content og)) = maker_of (og_content og)"

text \<open>A writer between records, with the header \<open>h\<close> and the bytes \<open>body\<close> behind it.\<close>

definition between :: "DNSPacketWriter \<Rightarrow> string \<Rightarrow> dnsheader \<Rightarrow> byte list \<Rightarrow> bool" where
  "between pw qname h body \<longleftrightarrow> plain pw \<and> pw_record pw = [] \<and> pw_qname pw = qname \<and> pw_content pw = bytes_of_dnsheader h @ body"

lemma startRecord_between:
  assumes "between pw qname h body" "names_labels (og_name og) (og_labels og)"
  shows "\<exists>pw'. pw_startRecord (og_name og) qt ttl cl place pw = Inr pw' \<and> between pw' qname h (body @ owner_bytes qname og) \<and>
    pw_stuff pw' = 10 \<and> pw_sor pw' = (length (pw_content pw') + 10) mod 65536 \<and> pw_recordqtype pw' = qt \<and> pw_recordqclass pw' = cl \<and> pw_recordttl pw' = ttl \<and> pw_recordplace pw' = place"
proof -
  let ?pw = "pw\<lparr> pw_recordqname := og_name og, pw_recordqtype := qt, pw_recordqclass := cl, pw_recordttl := ttl,
      pw_recordplace := place, pw_stuff := 0, pw_rollbackmarker := length (pw_content pw) mod 65536 \<rparr>"
  have b: "plain pw" "pw_record pw = []" "pw_qname pw = qname" "pw_content pw = bytes_of_dnsheader h @ body"
    using assms(1) by (simp_all add: between_def)
  show ?thesis
  proof (cases "pdns_iequals qname (og_name og)")
    case True
    then show ?thesis using b by (simp add: pw_startRecord_def Let_def owner_bytes_def between_def plain_def)
  next
    case False
    obtain lmap where "pw_xfrLabel (og_name og) True ?pw =
        Inr (?pw\<lparr> pw_record := pw_record ?pw @ wire_labels (og_labels og) @ [0], pw_labelmap := lmap \<rparr>)"
      using names_labels_written [OF assms(2), of ?pw True] b(1) by (auto simp: plain_def)
    then show ?thesis using False b by (simp add: pw_startRecord_def Let_def owner_bytes_def between_def plain_def)
  qed
qed

lemma drop_header [simp]: "drop 12 (bytes_of_dnsheader h @ xs) = xs"
  by simp

lemma dnsheader_of_body [simp]: "dnsheader_of (bytes_of_dnsheader h @ body) = h"
  using dnsheader_of_take [of 12 "bytes_of_dnsheader h" body] by (simp add: dnsheader_of_bytes)

lemma commit_between:
  assumes "plain pw" "pw_qname pw = qname" "pw_content pw = bytes_of_dnsheader h @ body" "pw_stuff pw = 10"
  shows "\<exists>pw'. pw_commit pw = Inr pw' \<and> between pw' qname (count_field (pw_recordplace pw) h)
    (body @ bytes_of_dnsrecordheader \<lparr> rh_type = pw_recordqtype pw, rh_class = pw_recordqclass pw, rh_ttl = pw_recordttl pw,
       rh_clen = word_of_nat (length (pw_record pw)) \<rparr> @ pw_record pw)"
  using assms by (simp add: pw_commit_def Let_def between_def plain_def update_header_def)

lemma write_record_between:
  assumes "between pw qname h body" "outgoing_ok og"
  obtains bs pw' where "write_record og pw = Inr pw'" "between pw' qname (count_field (og_place og) h) (body @ record_bytes qname og bs)"
    "reads (mastermake all_types (d_qtype (og_content og)) (og_class og) (word_of_nat (length bs))) True (og_content og) bs"
    "\<exists>pw. writes (toPacket (og_content og)) pw bs"
proof -
  have ok: "names_labels (og_name og) (og_labels og)" "maker_of (og_content og) \<noteq> None" "content_ok (og_content og)"
    "reg_typemap all_types (if d_qtype (og_content og) = qt_OPT then 1 else og_class og, d_qtype (og_content og)) = maker_of (og_content og)"
    using assms(2) by (simp_all add: outgoing_ok_def)
  obtain pw1 where s: "pw_startRecord (og_name og) (d_qtype (og_content og)) (og_ttl og) (og_class og) (og_place og) pw = Inr pw1"
    and b1: "between pw1 qname h (body @ owner_bytes qname og)" "pw_stuff pw1 = 10" "pw_recordqtype pw1 = d_qtype (og_content og)"
      "pw_recordqclass pw1 = og_class og" "pw_recordttl pw1 = og_ttl og" "pw_recordplace pw1 = og_place og"
    using startRecord_between [OF assms(1) ok(1)] by blast
  have "plain pw1" using b1(1) by (simp add: between_def)
  obtain m where m: "maker_of (og_content og) = Some m" using ok(2) by auto
  then have "maker_known m" using ok(4) all_types_ok(2) unfolding makers_ok_def by metis
  moreover have "mastermake all_types (d_qtype (og_content og)) (og_class og) = make_packet m"
    using ok(4) m by (auto simp: mastermake_def Let_def split: if_splits)
  ultimately obtain bs where w: "writes (toPacket (og_content og)) pw1 bs"
    and r: "reads (mastermake all_types (d_qtype (og_content og)) (og_class og) (word_of_nat (length bs))) True (og_content og) bs"
    using content_written [OF m _ ok(3) \<open>plain pw1\<close>] by auto
  obtain lmap where t: "toPacket (og_content og) pw1 = Inr (pw1\<lparr> pw_record := pw_record pw1 @ bs, pw_labelmap := lmap \<rparr>)"
    using w by (auto simp: writes_def)
  let ?pw2 = "pw1\<lparr> pw_record := pw_record pw1 @ bs, pw_labelmap := lmap \<rparr>"
  have "plain ?pw2" "pw_qname ?pw2 = qname" "pw_content ?pw2 = bytes_of_dnsheader h @ body @ owner_bytes qname og" "pw_stuff ?pw2 = 10"
    using b1 by (simp_all add: between_def plain_def)
  from commit_between [OF this] obtain pw' where "pw_commit ?pw2 = Inr pw'"
    "between pw' qname (count_field (og_place og) h) (body @ record_bytes qname og bs)"
    using b1 by (auto simp: between_def record_bytes_def og_header_def)
  then show thesis using that [OF _ _ r] s t w by (auto simp: write_record_def)
qed


text \<open>Reading such bytes: the owner, the header, the data.\<close>

definition incoming :: "string \<Rightarrow> byte list list \<Rightarrow> RecordPlace \<Rightarrow> outgoing \<Rightarrow> nat \<Rightarrow> DNSRecord" where
  "incoming qname qls place og len =
     \<lparr> dr_label = shown_name (if pdns_iequals qname (og_name og) then qls else og_labels og), dr_type = d_qtype (og_content og),
       dr_class = og_class og, dr_ttl = og_ttl og, dr_clen = word_of_nat len, dr_place = place, dr_content = Some (og_content og) \<rparr>"

lemma getLabel_owner:
  assumes "names_labels (og_name og) (og_labels og)" "list_all valid_label qls" "\<exists>q. pre = wire_labels qls @ 0 # q"
  shows "getLabel (on_wire start len (pre @ owner_bytes qname og @ post) (length pre)) =
    Inr (shown_name (if pdns_iequals qname (og_name og) then qls else og_labels og),
      on_wire start len (pre @ owner_bytes qname og @ post) (length pre + length (owner_bytes qname og)))"
proof (cases "pdns_iequals qname (og_name og)")
  case True
  obtain q where q: "pre = wire_labels qls @ 0 # q" using assms(3) by blast
  let ?c = "pre @ [0xc0, 0x0c] @ post"
  have root: "getLabelFromContent ?c 0 ret 1 = Inr (length (wire_labels qls) + 1, if ret @ name_text qls = [] then ''.'' else ret @ name_text qls)"
    for ret
  proof -
    have "getLabelFromContent ?c (length (wire_labels qls)) (ret @ name_text qls) 1 =
        Inr (length (wire_labels qls) + 1, if ret @ name_text qls = [] then ''.'' else ret @ name_text qls)"
      by (subst getLabelFromContent.simps) (simp add: at_def q nth_append)
    then show ?thesis using getLabelFromContent_labels [OF assms(2), of 1 "[]" "0 # q @ [0xc0, 0x0c] @ post" ret] by (simp add: q)
  qed
  have "at ?c (length pre) = Inr 0xc0" "at ?c (length pre + 1) = Inr 0x0c" by (simp_all add: at_def nth_append)
  moreover have "(256 * unat ((0xc0 :: byte) AND 0x3f) + unat (0x0c :: byte) + 65536 - 12) mod 65536 = 0" by simp
  ultimately have "getLabelFromContent ?c (length pre) [] 0 = Inr (length pre + 2, shown_name qls)"
    using root [of "[]"] by (subst getLabelFromContent.simps) (simp add: Let_def shown_name_def)
  then show ?thesis using True by (simp add: getLabel_def owner_bytes_def)
next
  case False
  have "getLabelFromContent (pre @ wire_labels (og_labels og) @ 0 # post) (length pre) [] 0 =
      Inr (length pre + length (wire_labels (og_labels og)) + 1, shown_name (og_labels og))"
    using assms(1) by (intro getLabelFromContent_wire) (simp add: names_labels_def)
  then show ?thesis using False by (simp add: getLabel_def owner_bytes_def)
qed

lemma read_bytes_mid: "read_bytes (length bs) (on_wire start len (pre @ bs @ post) (length pre)) =
    Inr (bs, on_wire start len (pre @ bs @ post) (length pre + length bs))"
proof (induction bs arbitrary: pre)
  case (Cons b bs)
  then show ?case using Cons [of "pre @ [b]"] by (simp add: rbind_def rreturn_def get8BitInt_def at_def nth_append)
qed (simp add: rreturn_def)

lemma getDnsrecordheader_mid:
  "getDnsrecordheader (on_wire start len (pre @ bytes_of_dnsrecordheader h @ post) (length pre)) =
    Inr (h, on_wire (length pre + 10) (unat (rh_clen h)) (pre @ bytes_of_dnsrecordheader h @ post) (length pre + 10))"
  using read_bytes_mid [of "bytes_of_dnsrecordheader h" start len pre post]
  by (simp add: getDnsrecordheader_def rbind_def Let_def on_wire_def)

lemma read_record_written:
  assumes "outgoing_ok og" "list_all valid_label qls" "\<exists>q. pre = wire_labels qls @ 0 # q"
    and r: "reads (mastermake all_types (d_qtype (og_content og)) (og_class og) (word_of_nat (length bs))) True (og_content og) bs"
    and len: "length (pre @ record_bytes qname og bs @ post) < 65536"
  shows "\<exists>s l mdp'. read_record all_types n mdp (on_wire start len (pre @ record_bytes qname og bs @ post) (length pre)) =
      Inr (mdp', on_wire s l (pre @ record_bytes qname og bs @ post) (length pre + length (record_bytes qname og bs))) \<and>
    (\<exists>t. mdp' = mdp\<lparr> md_answers := md_answers mdp @ [(incoming qname qls (record_place (md_header mdp) n) og (length bs),
        length pre + length (record_bytes qname og bs))], md_tsigPos := t \<rparr>)"
proof -
  let ?o = "owner_bytes qname og" let ?h = "bytes_of_dnsrecordheader (og_header og bs)" let ?c = "pre @ record_bytes qname og bs @ post"
  have n: "names_labels (og_name og) (og_labels og)" using assms(1) by (simp add: outgoing_ok_def)
  have l: "length bs < 65536" using len by (simp add: record_bytes_def)
  have 1: "getLabel (on_wire start len ?c (length pre)) =
      Inr (shown_name (if pdns_iequals qname (og_name og) then qls else og_labels og), on_wire start len ?c (length pre + length ?o))"
    using getLabel_owner [OF n assms(2,3), of start len qname "?h @ bs @ post"] by (simp add: record_bytes_def)
  have 2: "getDnsrecordheader (on_wire start len ?c (length pre + length ?o)) =
      Inr (og_header og bs, on_wire (length pre + length ?o + 10) (length bs) ?c (length pre + length ?o + 10))"
    using getDnsrecordheader_mid [of start len "pre @ ?o" "og_header og bs" "bs @ post"] l
    by (simp add: record_bytes_def unat_of_nat take_bit_nat_def add.assoc)
  let ?p = "pre @ ?o @ ?h"
  have "in_record (length ?p) (length bs) ?p bs post True" using len by (simp add: in_record_def record_bytes_def)
  then have 3: "mastermake all_types (d_qtype (og_content og)) (og_class og) (word_of_nat (length bs))
        (on_wire (length pre + length ?o + 10) (length bs) ?c (length pre + length ?o + 10)) =
      Inr (og_content og, on_wire (length pre + length ?o + 10) (length bs) ?c (length pre + length (record_bytes qname og bs)))"
    using r unfolding reads_def by (fastforce simp: record_bytes_def add.assoc)
  let ?t = "if d_qtype (og_content og) = qt_TSIG \<and> og_class og = 255 then (length pre + 12) mod 65536 else md_tsigPos mdp"
  let ?mdp = "mdp\<lparr> md_answers := md_answers mdp @ [(incoming qname qls (record_place (md_header mdp) n) og (length bs),
      length pre + length (record_bytes qname og bs))], md_tsigPos := ?t \<rparr>"
  have "read_record all_types n mdp (on_wire start len ?c (length pre)) =
      Inr (?mdp, on_wire (length pre + length ?o + 10) (length bs) ?c (length pre + length (record_bytes qname og bs)))"
    by (simp add: read_record_def rbind_def 1 2 3 Let_def incoming_def)
  then show ?thesis by blast
qed

lemma reads_question:
  assumes "list_all valid_label qls"
  shows "reads (read_questions (Suc 0) mdp) False (mdp\<lparr> md_qname := shown_name qls, md_qtype := t, md_qclass := c \<rparr>)
    (wire_labels qls @ [0] @ be_bytes16 t @ be_bytes16 c)"
  using reads_rbind [OF reads_label [OF assms] reads_rbind [OF reads_u16 reads_rbind [OF reads_u16 reads_rreturn]],
      of "\<lambda>q t c. mdp\<lparr> md_qname := q, md_qtype := t, md_qclass := c \<rparr>"] by simp

text \<open>Several records, one after the other.\<close>

fun incomings :: "string \<Rightarrow> byte list list \<Rightarrow> dnsheader \<Rightarrow> nat \<Rightarrow> (outgoing \<times> byte list) list \<Rightarrow> DNSRecord list" where
  "incomings qname qls h n [] = []"
| "incomings qname qls h n ((og, bs) # ogs) = incoming qname qls (record_place h n) og (length bs) # incomings qname qls h (n + 1) ogs"

definition data_ok :: "outgoing \<times> byte list \<Rightarrow> bool" where
  "data_ok = (\<lambda>(og, bs). outgoing_ok og \<and>
     reads (mastermake all_types (d_qtype (og_content og)) (og_class og) (word_of_nat (length bs))) True (og_content og) bs)"

definition all_bytes :: "string \<Rightarrow> (outgoing \<times> byte list) list \<Rightarrow> byte list" where
  "all_bytes qname ogs = concat (map (\<lambda>(og, bs). record_bytes qname og bs) ogs)"

lemma read_records_written:
  "list_all data_ok ogs \<Longrightarrow> list_all valid_label qls \<Longrightarrow> \<exists>q. pre = wire_labels qls @ 0 # q \<Longrightarrow> length (pre @ all_bytes qname ogs) < 65536 \<Longrightarrow>
   \<exists>mdp'. read_records all_types (length ogs) n mdp (on_wire start len (pre @ all_bytes qname ogs) (length pre)) = Inr (n + length ogs, False, mdp') \<and>
     map fst (md_answers mdp') = map fst (md_answers mdp) @ incomings qname qls (md_header mdp) n ogs \<and>
     md_header mdp' = md_header mdp \<and> md_qname mdp' = md_qname mdp \<and> md_qtype mdp' = md_qtype mdp \<and> md_qclass mdp' = md_qclass mdp"
proof (induction ogs arbitrary: pre n mdp start len)
  case (Cons x ogs)
  obtain og bs where x: "x = (og, bs)" by (cases x)
  let ?r = "record_bytes qname og bs"
  have c: "all_bytes qname ((og, bs) # ogs) = ?r @ all_bytes qname ogs" by (simp add: all_bytes_def)
  have ok: "outgoing_ok og"
    "reads (mastermake all_types (d_qtype (og_content og)) (og_class og) (word_of_nat (length bs))) True (og_content og) bs"
    using Cons.prems(1) by (simp_all add: data_ok_def x)
  have l: "length (pre @ ?r @ all_bytes qname ogs) < 65536" using Cons.prems(4) c x by simp
  from read_record_written [OF ok(1) Cons.prems(2,3) ok(2) l, of n mdp start len] obtain s l' mdp1 t where
    1: "read_record all_types n mdp (on_wire start len (pre @ ?r @ all_bytes qname ogs) (length pre)) =
      Inr (mdp1, on_wire s l' (pre @ ?r @ all_bytes qname ogs) (length pre + length ?r))"
    and m: "mdp1 = mdp\<lparr> md_answers := md_answers mdp @ [(incoming qname qls (record_place (md_header mdp) n) og (length bs),
        length pre + length ?r)], md_tsigPos := t \<rparr>" by blast
  have p: "\<exists>q. pre @ ?r = wire_labels qls @ 0 # q" using Cons.prems(3) by auto
  have "list_all data_ok ogs" "length ((pre @ ?r) @ all_bytes qname ogs) < 65536" using Cons.prems(1) l by simp_all
  from Cons.IH [OF this(1) Cons.prems(2) p this(2), of "n + 1" mdp1 s l'] show ?case
    using 1 by (simp add: c m x add.assoc)
qed (simp add: all_bytes_def)

lemma write_records_between:
  "between pw qname h body \<Longrightarrow> list_all outgoing_ok ogs \<Longrightarrow>
   \<exists>pw' bss. write_records ogs pw = Inr pw' \<and> length bss = length ogs \<and> list_all data_ok (zip ogs bss) \<and>
     between pw' qname (fold (\<lambda>og. count_field (og_place og)) ogs h) (body @ all_bytes qname (zip ogs bss))"
proof (induction ogs arbitrary: pw h body)
  case (Cons og ogs)
  have ok: "outgoing_ok og" "list_all outgoing_ok ogs" using Cons.prems(2) by simp_all
  obtain bs pw1 where w: "write_record og pw = Inr pw1"
    "between pw1 qname (count_field (og_place og) h) (body @ record_bytes qname og bs)"
    "reads (mastermake all_types (d_qtype (og_content og)) (og_class og) (word_of_nat (length bs))) True (og_content og) bs"
    using write_record_between [OF Cons.prems(1) ok(1)] by blast
  from Cons.IH [OF w(2) ok(2)] obtain pw' bss where "write_records ogs pw1 = Inr pw'" "length bss = length ogs"
    "list_all data_ok (zip ogs bss)"
    "between pw' qname (fold (\<lambda>og. count_field (og_place og)) ogs (count_field (og_place og) h))
       ((body @ record_bytes qname og bs) @ all_bytes qname (zip ogs bss))" by blast
  then show ?case using w(1,3) ok(1)
    by (intro exI [of _ pw'] exI [of _ "bs # bss"]) (simp add: data_ok_def all_bytes_def)
qed (simp add: all_bytes_def)


text \<open>The header of the written packet counts the records by section.\<close>

fun place_of :: "Place \<Rightarrow> RecordPlace" where
  "place_of ANSWER = Answer"
| "place_of AUTHORITY = Nameserver"
| "place_of _ = Additional"

definition in_order :: "Place list \<Rightarrow> bool" where
  "in_order ps \<longleftrightarrow> (\<exists>a b c. ps = replicate a ANSWER @ replicate b AUTHORITY @ replicate c ADDITIONAL)"

lemma counted:
  "hdr_ancount (host_counts (fold (\<lambda>og. count_field (og_place og)) ogs h)) =
     hdr_ancount (host_counts h) + word_of_nat (length (filter (\<lambda>p. p = ANSWER) (map og_place ogs)))"
  "hdr_nscount (host_counts (fold (\<lambda>og. count_field (og_place og)) ogs h)) =
     hdr_nscount (host_counts h) + word_of_nat (length (filter (\<lambda>p. p = AUTHORITY) (map og_place ogs)))"
  "hdr_arcount (host_counts (fold (\<lambda>og. count_field (og_place og)) ogs h)) =
     hdr_arcount (host_counts h) + word_of_nat (length (filter (\<lambda>p. p = ADDITIONAL) (map og_place ogs)))"
  "hdr_qdcount (fold (\<lambda>og. count_field (og_place og)) ogs h) = hdr_qdcount h"
  "hdr_opcode (fold (\<lambda>og. count_field (og_place og)) ogs h) = hdr_opcode h"
  by (induction ogs arbitrary: h) (auto simp: count_field_def host_counts_def split: Place.splits)

lemma record_bytes_long: "10 \<le> length (record_bytes qname og bs)"
  by (simp add: record_bytes_def)

lemma all_bytes_long: "length ogs \<le> length (all_bytes qname ogs)"
proof (induction ogs)
  case (Cons x ogs)
  obtain og bs where "x = (og, bs)" by (cases x)
  then show ?case using Cons record_bytes_long [of qname og bs] by (simp add: all_bytes_def)
qed simp

lemma incomings_nth:
  "i < length ogs \<Longrightarrow> incomings qname qls h n ogs ! i =
     incoming qname qls (record_place h (n + i)) (fst (ogs ! i)) (length (snd (ogs ! i)))"
  by (induction qname qls h n ogs arbitrary: i rule: incomings.induct) (auto simp: nth_Cons split: nat.splits)

lemma length_incomings [simp]: "length (incomings qname qls h n ogs) = length ogs"
  by (induction qname qls h n ogs rule: incomings.induct) simp_all

lemma places_in_order:
  assumes "in_order (map og_place ogs)" "length ogs < 65536"
    and h: "hdr_ancount h0 = 0" "hdr_nscount h0 = 0" "hdr_arcount h0 = 0"
    and h': "h = host_counts (fold (\<lambda>og. count_field (og_place og)) ogs h0)"
  shows "map (record_place h) [0..<length ogs] = map (\<lambda>og. place_of (og_place og)) ogs"
    and "unat (hdr_ancount h) + unat (hdr_nscount h) + unat (hdr_arcount h) = length ogs"
proof -
  obtain a b c where p: "map og_place ogs = replicate a ANSWER @ replicate b AUTHORITY @ replicate c ADDITIONAL"
    using assms(1) by (auto simp: in_order_def)
  have l: "length ogs = a + b + c" using arg_cong [OF p, of length] by simp
  have z: "hdr_ancount (host_counts h0) = 0" "hdr_nscount (host_counts h0) = 0" "hdr_arcount (host_counts h0) = 0"
    using h by (simp_all add: host_counts_def ntohs_def)
  have u: "k < 65536 \<Longrightarrow> unat (word_of_nat k :: u16) = k" for k by (simp add: unat_of_nat take_bit_nat_def)
  have n: "unat (hdr_ancount h) = a" "unat (hdr_nscount h) = b" "unat (hdr_arcount h) = c"
    using l assms(2) unfolding h' counted p by (simp_all add: z u)
  then show "unat (hdr_ancount h) + unat (hdr_nscount h) + unat (hdr_arcount h) = length ogs" using l by simp
  have "map (\<lambda>og. place_of (og_place og)) ogs = map place_of (map og_place ogs)" by simp
  then show "map (record_place h) [0..<length ogs] = map (\<lambda>og. place_of (og_place og)) ogs"
    unfolding p record_places n l by (simp add: min_def)
qed

lemma init_between:
  assumes "names_labels qname qls"
  shows "\<exists>pw. DNSPacketWriter_init mem qname qtype qclass opcode = Inr pw \<and>
    between (pw\<lparr> pw_canonic := True \<rparr>) qname ((dnsheader_of (replicate 12 0))\<lparr> hdr_qdcount := ntohs 1, hdr_opcode := ucast opcode \<rparr>)
      (wire_labels qls @ [0] @ be_bytes16 qtype @ be_bytes16 qclass)"
proof -
  let ?h = "(dnsheader_of (replicate 12 0))\<lparr> hdr_id := 0, hdr_qdcount := ntohs 1, hdr_opcode := ucast opcode \<rparr>"
  let ?pw = "mem\<lparr> pw_content := bytes_of_dnsheader ?h, pw_record := [], pw_qname := qname, pw_qtype := qtype, pw_qclass := qclass,
      pw_labelmap := [], pw_stuff := 0, pw_canonic := False, pw_lowerCase := False \<rparr>"
  have "hdr_id (dnsheader_of (replicate 12 0)) = 0" by (simp add: dnsheader_of_def le16_def)
  then have h: "?h = (dnsheader_of (replicate 12 0))\<lparr> hdr_qdcount := ntohs 1, hdr_opcode := ucast opcode \<rparr>" by simp
  obtain lmap where "pw_xfrLabel qname False ?pw =
      Inr (?pw\<lparr> pw_record := pw_record ?pw @ wire_labels qls @ [0], pw_labelmap := lmap \<rparr>)"
    using names_labels_written [OF assms, of ?pw False] by auto
  then show ?thesis unfolding h [symmetric] by (simp add: DNSPacketWriter_init_def Let_def between_def plain_def)
qed

subsection \<open>Stored records\<close>

lemma encode_plain:
  assumes "names_labels qname ls" "\<forall>l \<in> set ls. \<not> needs_escape l"
  shows "EncodeDNSLabel qname = map b2c (wire_labels ls @ [0])"
proof -
  have z: "b2c 0 = CHR 0x00" by code_simp
  consider "qname = ''.''" "ls = []" | "qname = []" "ls = []" | "spelling ls qname" "ls \<noteq> []"
    using assms(1) by (auto simp: names_labels_def split: if_splits)
  then show ?thesis
  proof cases
    case 3
    have v: "list_all valid_label ls" using assms(1) by (simp add: names_labels_def)
    note sp = spelling_parts [OF 3(1) v]
    have "spells s i ls \<Longrightarrow> \<forall>l \<in> set ls. \<not> needs_escape l \<Longrightarrow>
        concat (map (\<lambda>(b, e). let part = c_part s b e in b2c (word_of_nat (length part)) # part) (parts_of i ls)) = map b2c (wire_labels ls)"
      for s i
    proof (induction ls arbitrary: i)
      case (Cons l ls)
      then show ?case by (simp add: label_text_plain wire_label_def)
    qed simp
    from this [OF sp(2) assms(2)] show ?thesis using sp(1,3) assms(2) z by (simp add: EncodeDNSLabel_def Let_def case_prod_beta)
  qed (simp_all add: EncodeDNSLabel_def labeltokUnescape_def labeltokUnescape_loop.simps z)
qed

text \<open>What \<open>serialize\<close> gives is the data of the record, without the packet around it.\<close>

lemma serialize_data:
  assumes "names_labels qname ls" "maker_of x \<noteq> None" "content_ok x" "reg_typemap all_types (1, d_qtype x) = maker_of x"
    and "length (wire_labels ls) < 65000"
  shows "\<exists>bs. serialize mem x qname True False = Inr (map b2c bs) \<and>
    reads (mastermake all_types (d_qtype x) 1 (word_of_nat (length bs))) True x bs \<and> (\<exists>pw. writes (toPacket x) pw bs)"
proof -
  let ?og = "\<lparr> og_name = qname, og_labels = ls, og_ttl = 3600, og_class = 1, og_place = ANSWER, og_content = x \<rparr>"
  have n: "names_labels (og_name ?og) (og_labels ?og)" using assms(1) by simp
  have root: "names_labels [] []" by (simp add: names_labels_def)
  obtain pw h where i: "DNSPacketWriter_init mem [] 1 1 0 = Inr pw"
    and b: "between (pw\<lparr> pw_canonic := True \<rparr>) [] h (wire_labels [] @ [0] @ be_bytes16 1 @ be_bytes16 1)"
    using init_between [OF root, of mem 1 1 0] by blast
  from startRecord_between [OF b n, of "d_qtype x" 3600 1 ANSWER] obtain pw1 where
    s: "pw_startRecord qname (d_qtype x) 3600 1 ANSWER (pw\<lparr> pw_canonic := True \<rparr>) = Inr pw1"
    and b1: "between pw1 [] h ((wire_labels [] @ [0] @ be_bytes16 1 @ be_bytes16 1) @ owner_bytes [] ?og)" "pw_stuff pw1 = 10"
      "pw_sor pw1 = (length (pw_content pw1) + 10) mod 65536" by auto
  have sor: "pw_sor pw1 = length (pw_content pw1) + 10"
    using b1(1,3) assms(5) by (simp add: between_def owner_bytes_def)
  have "plain pw1" using b1(1) by (simp add: between_def)
  obtain m where m: "maker_of x = Some m" using assms(2) by auto
  then have "maker_known m" using assms(4) all_types_ok(2) unfolding makers_ok_def by metis
  moreover have "mastermake all_types (d_qtype x) 1 = make_packet m" using assms(4) m by (auto simp: mastermake_def Let_def)
  ultimately obtain bs where w: "writes (toPacket x) pw1 bs"
    and r: "reads (mastermake all_types (d_qtype x) 1 (word_of_nat (length bs))) True x bs"
    using content_written [OF m _ assms(3) \<open>plain pw1\<close>] by auto
  obtain lmap where t: "toPacket x pw1 = Inr (pw1\<lparr> pw_record := pw_record pw1 @ bs, pw_labelmap := lmap \<rparr>)"
    using w by (auto simp: writes_def)
  let ?pw2 = "pw1\<lparr> pw_record := pw_record pw1 @ bs, pw_labelmap := lmap \<rparr>"
  obtain body where body: "between pw1 [] h body" using b1(1) by blast
  then have "pw_content pw1 = bytes_of_dnsheader h @ body" "pw_record pw1 = []" by (simp_all add: between_def)
  then have "\<exists>pw3. pw_commit ?pw2 = Inr pw3 \<and> pw_getRecords pw3 = map b2c bs"
    using b1(2) sor by (simp add: pw_commit_def Let_def update_header_def pw_getRecords_def)
  then obtain pw3 where c: "pw_commit ?pw2 = Inr pw3" "pw_getRecords pw3 = map b2c bs" by blast
  show ?thesis using i s t c r w by (intro exI [of _ bs]) (auto simp: serialize_def Let_def)
qed

lemma put_bytes_mid: "length ys = length zs \<Longrightarrow> put_bytes (xs @ ys @ r) (length xs) zs = xs @ zs @ r"
  by (simp add: put_bytes_def)

lemma pseudo_packet_plain:
  assumes "names_labels qname ls" "\<forall>l \<in> set ls. \<not> needs_escape l" "length (wire_labels ls) + length bs < 65500"
  shows "pseudo_packet qname qt (map b2c bs) =
    bytes_of_dnsheader ((dnsheader_of (replicate 12 0))\<lparr> hdr_qdcount := ntohs 1, hdr_ancount := ntohs 1 \<rparr>)
    @ (wire_labels [] @ [0] @ be_bytes16 1 @ be_bytes16 1) @ (wire_labels ls @ [0])
    @ bytes_of_dnsrecordheader \<lparr> rh_type = qt, rh_class = 1, rh_ttl = 0, rh_clen = word_of_nat (length bs) \<rparr> @ bs"
proof -
  let ?h = "bytes_of_dnsheader ((dnsheader_of (replicate 12 0))\<lparr> hdr_qdcount := ntohs 1, hdr_ancount := ntohs 1 \<rparr>)"
  let ?q = "[0, 0, 1, 0, 1] :: byte list" let ?e = "wire_labels ls @ [0]"
  let ?d = "bytes_of_dnsrecordheader \<lparr> rh_type = qt, rh_class = 1, rh_ttl = 0, rh_clen = word_of_nat (length bs) \<rparr>"
  let ?z = "\<lambda>n. replicate n (0 :: byte)"
  have e: "map c2b (EncodeDNSLabel qname) = ?e" using encode_plain [OF assms(1,2)] by (simp only: map_c2b_b2c)
  have q: "be_bytes16 1 = [0, 1]" by (simp add: be_bytes16_def)
  have all: "?z (12 + 5 + length ?e + 10 + length bs) = [] @ ?z 12 @ ?z 5 @ ?z (length ?e) @ ?z 10 @ ?z (length bs)"
    by (simp only: replicate_add append_assoc append_Nil)
  have 1: "put_bytes ([] @ ?z 12 @ ?z 5 @ ?z (length ?e) @ ?z 10 @ ?z (length bs)) 0 ?h =
      ?h @ ?z 5 @ ?z (length ?e) @ ?z 10 @ ?z (length bs)"
    using put_bytes_mid [of "?z 12" ?h "[]"] by simp
  have 2: "put_bytes (?h @ ?z 5 @ ?z (length ?e) @ ?z 10 @ ?z (length bs)) 12 ?q = ?h @ ?q @ ?z (length ?e) @ ?z 10 @ ?z (length bs)"
    using put_bytes_mid [of "?z 5" ?q ?h] by simp
  have 3: "put_bytes (?h @ ?q @ ?z (length ?e) @ ?z 10 @ ?z (length bs)) 17 ?e = ?h @ ?q @ ?e @ ?z 10 @ ?z (length bs)"
    using put_bytes_mid [of "?z (length ?e)" ?e "?h @ ?q"] by simp
  have 4: "put_bytes (?h @ ?q @ ?e @ ?z 10 @ ?z (length bs)) (17 + length ?e) ?d = ?h @ ?q @ ?e @ ?d @ ?z (length bs)"
    using put_bytes_mid [of "?z 10" ?d "?h @ ?q @ ?e"] by simp
  have 5: "put_bytes (?h @ ?q @ ?e @ ?d @ ?z (length bs)) (17 + length ?e + 10) bs = ?h @ ?q @ ?e @ ?d @ bs"
    using put_bytes_mid [of "?z (length bs)" bs "?h @ ?q @ ?e @ ?d" "[]"] by simp
  have pos: "(17 + length ?e) mod 65536 = 17 + length ?e" "(17 + length ?e + 10) mod 65536 = 17 + length ?e + 10"
    using assms(3) by simp_all
  show ?thesis
    unfolding pseudo_packet_def Let_def e map_c2b_b2c length_map all 1 2 3 pos 4 5 by (simp add: q)
qed

text \<open>
  Property C1. The packet writer and the packet parser agree: a packet with a question and records
  of registered types, written without compression and in the order of the sections, is parsed
  as this question and these records - owner, type, class, time to live, section and content
  each - as long as it has at most 65547 bytes. A record with the owner of the question gets the
  spelling of the question.
\<close>

theorem written_packet_parsed:
  assumes "DNSPacketWriter_init mem qname qtype qclass opcode = Inr pw" "write_records ogs (pw\<lparr> pw_canonic := True \<rparr>) = Inr pw'"
    and "names_labels qname qls" "ucast opcode = (0 :: 4 word) \<or> ucast opcode = (4 :: 4 word)"
    and "list_all outgoing_ok ogs" "in_order (map og_place ogs)" "length (pw_content pw') < 65548"
  shows "\<exists>mdp. MOADNSParser_init (reportAllTypes empty_registry) what (pw_content pw') = Inr mdp \<and>
    md_qname mdp = shown_name qls \<and> md_qtype mdp = qtype \<and> md_qclass mdp = qclass \<and>
    map (\<lambda>(dr, pos). (dr_label dr, dr_type dr, dr_class dr, dr_ttl dr, dr_place dr, dr_content dr)) (md_answers mdp) =
    map (\<lambda>og. (shown_name (if pdns_iequals qname (og_name og) then qls else og_labels og), d_qtype (og_content og), og_class og,
      og_ttl og, place_of (og_place og), Some (og_content og))) ogs"
proof -
  let ?new = "(dnsheader_of (replicate 12 0))\<lparr> hdr_qdcount := ntohs 1, hdr_opcode := ucast opcode \<rparr>"
  let ?q = "wire_labels qls @ [0] @ be_bytes16 qtype @ be_bytes16 qclass"
  have b: "between (pw\<lparr> pw_canonic := True \<rparr>) qname ?new ?q" using init_between [OF assms(3), of mem qtype qclass opcode] assms(1) by auto
  from write_records_between [OF b assms(5)] assms(2) obtain bss where l: "length bss = length ogs" and d: "list_all data_ok (zip ogs bss)"
    and b': "between pw' qname (fold (\<lambda>og. count_field (og_place og)) ogs ?new) (?q @ all_bytes qname (zip ogs bss))" by auto
  let ?H = "fold (\<lambda>og. count_field (og_place og)) ogs ?new" let ?h = "host_counts ?H" let ?c = "?q @ all_bytes qname (zip ogs bss)"
  have content: "pw_content pw' = bytes_of_dnsheader ?H @ ?c" using b' by (simp add: between_def)
  have small: "length ?c < 65536" using assms(7) content by simp
  have few: "length ogs < 65536" using small all_bytes_long [of "zip ogs bss" qname] l by simp
  have z: "hdr_ancount ?new = 0" "hdr_nscount ?new = 0" "hdr_arcount ?new = 0" by (simp_all add: dnsheader_of_def le16_def)
  note po = places_in_order [OF assms(6) few z refl]
  let ?mdp0 = "\<lparr> md_header = ?h, md_qname = [], md_qclass = 0, md_qtype = 0, md_answers = [], md_content = ?c, md_tsigPos = 0 \<rparr>"
  let ?mdp1 = "?mdp0\<lparr> md_qname := shown_name qls, md_qtype := qtype, md_qclass := qclass \<rparr>"
  have pr: "PacketReader_init ?c = on_wire 0 (length ?c) ?c 0" using small by (simp add: PacketReader_init_def on_wire_def)
  have v: "list_all valid_label qls" using assms(3) by (simp add: names_labels_def)
  have rq: "reads (read_questions (Suc 0) ?mdp0) False ?mdp1 ?q"
    by (rule reads_question [OF v])
  have "in_record 0 (length ?c) [] ?q (all_bytes qname (zip ogs bss)) False" using small by (simp add: in_record_def)
  then have q: "read_questions (Suc 0) ?mdp0 (PacketReader_init ?c) = Inr (?mdp1, on_wire 0 (length ?c) ?c (length ?q))"
    using rq unfolding reads_def pr by fastforce
  have "\<exists>q. ?q = wire_labels qls @ 0 # q" by simp
  from read_records_written [OF d v this small, of 0 ?mdp1 0 "length ?c"] l obtain mdp where
    r: "read_records all_types (length ogs) 0 ?mdp1 (on_wire 0 (length ?c) ?c (length ?q)) = Inr (length ogs, False, mdp)"
    and a: "map fst (md_answers mdp) = incomings qname qls ?h 0 (zip ogs bss)"
    and m: "md_qname mdp = shown_name qls" "md_qtype mdp = qtype" "md_qclass mdp = qclass" by auto
  have o: "unat (hdr_qdcount ?h) = Suc 0" "hdr_opcode ?H = 0 \<or> hdr_opcode ?H = 4"
    using assms(4) by (simp_all add: host_counts_def counted)
  have p1: "MOADNSParser_init all_types what (pw_content pw') = Inr mdp"
    using q r o small unfolding MOADNSParser_init_def content Let_def by (simp add: po(2))
  have p2: "map (\<lambda>(dr, pos). (dr_label dr, dr_type dr, dr_class dr, dr_ttl dr, dr_place dr, dr_content dr)) (md_answers mdp) =
      map (\<lambda>dr. (dr_label dr, dr_type dr, dr_class dr, dr_ttl dr, dr_place dr, dr_content dr)) (map fst (md_answers mdp))"
    by (simp add: case_prod_beta comp_def)
  have "record_place ?h i = place_of (og_place (ogs ! i))" if "i < length ogs" for i
    using arg_cong [OF po(1), of "\<lambda>l. l ! i"] that by simp
  then have p3: "map (\<lambda>dr. (dr_label dr, dr_type dr, dr_class dr, dr_ttl dr, dr_place dr, dr_content dr)) (map fst (md_answers mdp)) =
      map (\<lambda>og. (shown_name (if pdns_iequals qname (og_name og) then qls else og_labels og), d_qtype (og_content og), og_class og,
        og_ttl og, place_of (og_place og), Some (og_content og))) ogs"
    unfolding a using l by (intro nth_equalityI) (simp_all add: incomings_nth incoming_def)
  show ?thesis by (intro exI [of _ mdp] conjI p1 m trans [OF p2 p3])
qed



text \<open>
  A record of a registered type survives the record store: its canonical serialized form
  is unserialized, under the same owner and type, as the same record with the owner's name and
  the time to live zero. The labels of the owner need no escapes, and the record with its owner
  must fit a packet.
\<close>

theorem stored_record_roundtrip:
  assumes "names_labels qname ls" "\<forall>l \<in> set ls. \<not> needs_escape l"
    and "maker_of x \<noteq> None" "content_ok x" "reg_typemap (reportAllTypes empty_registry) (1, d_qtype x) = maker_of x"
    and "serialize mem x qname True False = Inr serialized" "length (wire_labels ls) + length serialized < 65000"
  shows "unserialize (reportAllTypes empty_registry) what qname (d_qtype x) serialized = Inr (Some x, shown_name ls, 0)"
proof -
  have "length (wire_labels ls) < 65000" using assms(7) by simp
  from serialize_data [OF assms(1,3-5) this, of mem] assms(6) obtain bs where ser: "serialized = map b2c bs"
    and r: "reads (mastermake all_types (d_qtype x) 1 (word_of_nat (length bs))) True x bs" by auto
  let ?h = "(dnsheader_of (replicate 12 0))\<lparr> hdr_qdcount := ntohs 1, hdr_ancount := ntohs 1 \<rparr>"
  let ?q = "wire_labels [] @ [0] @ be_bytes16 1 @ be_bytes16 1"
  let ?og = "\<lparr> og_name = qname, og_labels = ls, og_ttl = 0, og_class = 1, og_place = ANSWER, og_content = x \<rparr>"
  let ?other = "CHR ''x'' # qname"
  have other: "\<not> pdns_iequals ?other qname" by (auto simp: pdns_iequals_iff toLower_def dest: arg_cong [of _ _ length])
  let ?r = "record_bytes ?other ?og bs" let ?c = "?q @ ?r"
  have c: "?c = ?q @ (wire_labels ls @ [0]) @ bytes_of_dnsrecordheader \<lparr> rh_type = d_qtype x, rh_class = 1, rh_ttl = 0,
      rh_clen = word_of_nat (length bs) \<rparr> @ bs"
    using other by (simp add: record_bytes_def owner_bytes_def og_header_def)
  have packet: "pseudo_packet qname (d_qtype x) serialized = bytes_of_dnsheader ?h @ ?c"
    unfolding c ser using pseudo_packet_plain [OF assms(1,2), of bs "d_qtype x"] assms(7) ser by simp
  have small: "length ?c < 65536" using assms(7) ser unfolding c by simp
  have og: "outgoing_ok ?og" using assms(1,3-5) by (auto simp: outgoing_ok_def)
  let ?H = "host_counts ?h"
  let ?new = "\<lparr> md_header = ?H, md_qname = [], md_qclass = 0, md_qtype = 0, md_answers = [], md_content = ?c, md_tsigPos = 0 \<rparr>"
  let ?asked = "?new\<lparr> md_qname := shown_name [], md_qtype := 1, md_qclass := 1 \<rparr>"
  have pr: "PacketReader_init ?c = on_wire 0 (length ?c) ?c 0" using small by (simp add: PacketReader_init_def on_wire_def)
  have "reads (read_questions (Suc 0) ?new) False ?asked ?q"
    by (rule reads_question) simp
  moreover have "in_record 0 (length ?c) [] ?q ?r False" using small by (simp add: in_record_def)
  ultimately have q: "read_questions (Suc 0) ?new (PacketReader_init ?c) = Inr (?asked, on_wire 0 (length ?c) ?c (length ?q))"
    unfolding reads_def pr by fastforce
  have "\<exists>q. ?q = wire_labels [] @ 0 # q" by simp
  from read_record_written [OF og _ this, of bs ?other "[]" 0 ?asked 0 "length ?c"] r small obtain s l mdp t where
    m: "read_record all_types 0 ?asked (on_wire 0 (length ?c) ?c (length ?q)) = Inr (mdp, on_wire s l ?c (length ?q + length ?r))"
      "mdp = ?asked\<lparr> md_answers := [(incoming ?other [] (record_place ?H 0) ?og (length bs), length ?q + length ?r)], md_tsigPos := t \<rparr>"
    by auto
  have counts: "unat (hdr_qdcount ?H) = Suc 0" "unat (hdr_ancount ?H) + unat (hdr_nscount ?H) + unat (hdr_arcount ?H) = Suc 0"
    "hdr_opcode ?h = 0"
    by (simp_all add: host_counts_def dnsheader_of_def le16_def ntohs_def)
  have "MOADNSParser_init all_types what (bytes_of_dnsheader ?h @ ?c) = Inr mdp"
    using q m(1) counts small unfolding MOADNSParser_init_def Let_def by simp
  then show ?thesis using m(2) other by (simp add: unserialize_def packet incoming_def)
qed


text \<open>A packet with one AAAA record, and the record in the store.\<close>

definition example_outgoing :: outgoing where
  "example_outgoing = \<lparr> og_name = ''a.'', og_labels = [[97]], og_ttl = 60, og_class = 1, og_place = ANSWER,
     og_content = RAAAA (replicate 16 7) \<rparr>"

lemma example_names: "names_labels ''a.'' [[97]]"
proof -
  have "name_text [[97]] = ''a.''" by code_simp
  then show ?thesis by (simp add: names_labels_def spelling_def valid_label_def)
qed

lemma example_outgoing_ok: "outgoing_ok example_outgoing"
  using example_names AAAA_registered by (simp add: outgoing_ok_def example_outgoing_def qt_OPT_def)


lemma example_written:
  assumes "writes (toPacket (og_content example_outgoing)) pw bs"
  shows "bs = replicate 16 7"
  using assms by (auto simp: writes_def example_outgoing_def pw_xfrBlob_def pw_append_def dest!: arg_cong [of _ _ pw_record])

lemma example_reads: "reads (mastermake all_types (d_qtype (og_content example_outgoing)) (og_class example_outgoing)
    (word_of_nat (length (replicate 16 (7 :: byte))))) True (og_content example_outgoing) (replicate 16 7)"
proof -
  have "mastermake all_types 28 1 16 = AAAA_make 16"
    using AAAA_registered by (auto simp: mastermake_def qt_OPT_def)
  then show ?thesis using reads_AAAA [of "replicate 16 7"] by (simp add: example_outgoing_def)
qed

text \<open>A truncated answer: the header promises two answers, one is there.\<close>

definition cut_header :: dnsheader where
  "cut_header = (dnsheader_of (replicate 12 0))\<lparr> hdr_tc := True, hdr_qdcount := ntohs 1, hdr_ancount := ntohs 2 \<rparr>"

definition cut_packet :: "byte list" where
  "cut_packet = bytes_of_dnsheader cut_header @ [0, 0, 1, 0, 1] @ record_bytes ''b'' example_outgoing (replicate 16 7)"

theorem parsed_sections_witness:
  "\<exists>mdp. MOADNSParser_init (reportAllTypes empty_registry) [] cut_packet = Inr mdp \<and> hdr_ancount (md_header mdp) = 1 \<and>
     map (\<lambda>(dr, pos). dr_place dr) (md_answers mdp) = [Answer]"
proof -
  define pre :: "byte list" where "pre = [0, 0, 1, 0, 1]"
  have lp: "length pre = 5" "\<exists>q. pre = wire_labels [] @ 0 # q" "wire_labels [] @ [0] @ be_bytes16 1 @ be_bytes16 1 = pre"
    by (simp_all add: pre_def be_bytes16_def)
  let ?H = "host_counts cut_header" let ?r = "record_bytes ''b'' example_outgoing (replicate 16 7)" let ?c = "pre @ ?r"
  let ?new = "\<lparr> md_header = ?H, md_qname = [], md_qclass = 0, md_qtype = 0, md_answers = [], md_content = ?c, md_tsigPos = 0 \<rparr>"
  let ?asked = "?new\<lparr> md_qname := shown_name [], md_qtype := 1, md_qclass := 1 \<rparr>"
  have l: "length ?r = 29" by (simp add: record_bytes_def owner_bytes_def example_outgoing_def pdns_iequals_iff toLower_def dns_tolower_def wire_label_def)
  have pr: "PacketReader_init ?c = on_wire 0 34 ?c 0" using l lp(1) by (simp add: PacketReader_init_def on_wire_def)
  have "reads (read_questions (Suc 0) ?new) False ?asked pre"
    by (rule reads_question [of "[]" ?new 1 1, unfolded lp(3)]) simp
  moreover have "in_record 0 34 [] pre ?r False" using l lp(1) by (simp add: in_record_def)
  ultimately have q: "read_questions (Suc 0) ?new (PacketReader_init ?c) = Inr (?asked, on_wire 0 34 ?c 5)"
    unfolding reads_def pr using lp(1) by fastforce
  have "length (pre @ ?r @ []) < 65536" using l lp(1) by simp
  from read_record_written [OF example_outgoing_ok _ lp(2) example_reads this, of 0 ?asked 0 34] obtain s' l' mdp t where
    m: "read_record all_types 0 ?asked (on_wire 0 34 ?c 5) = Inr (mdp, on_wire s' l' ?c 34)"
      "mdp = ?asked\<lparr> md_answers := [(incoming ''b'' [] (record_place ?H 0) example_outgoing 16, 34)], md_tsigPos := t \<rparr>"
    using l lp(1) by auto
  have "read_record all_types 1 mdp (on_wire s' l' ?c 34) = Inl OutOfRange"
    using l lp(1) by (simp add: read_record_def rbind_def getLabel_def getLabelFromContent.simps [of ?c 34] at_def)
  then have "read_records all_types 2 0 ?asked (on_wire 0 34 ?c 5) = Inr (1, True, mdp)" using m(1) by (simp add: numeral_2_eq_2)
  moreover have counts: "hdr_ancount ?H = 2" "hdr_nscount ?H = 0" "hdr_arcount ?H = 0" "unat (hdr_qdcount ?H) = Suc 0" "hdr_tc ?H"
    "hdr_opcode cut_header = 0"
    by (simp_all add: cut_header_def host_counts_def dnsheader_of_def le16_def ntohs_def)
  ultimately have p: "MOADNSParser_init all_types [] cut_packet = Inr (mdp\<lparr> md_header := adjust_counts 1 ?H \<rparr>)"
    using q l lp(1) unfolding MOADNSParser_init_def cut_packet_def pre_def [symmetric] Let_def by simp
  then show ?thesis using parsed_sections [OF p] counts by (simp add: adjust_counts_def m(2))
qed


theorem written_packet_parsed_witness:
  "\<exists>pw pw' mdp. DNSPacketWriter_init example_writer ''b.'' 1 1 0 = Inr pw \<and>
    write_records [example_outgoing] (pw\<lparr> pw_canonic := True \<rparr>) = Inr pw' \<and>
    MOADNSParser_init (reportAllTypes empty_registry) [] (pw_content pw') = Inr mdp \<and> md_qname mdp = ''b.'' \<and>
    map (\<lambda>(dr, pos). (dr_label dr, dr_type dr, dr_class dr, dr_ttl dr, dr_place dr, dr_content dr)) (md_answers mdp) =
      [(''a.'', 28, 1, 60, Answer, Some (RAAAA (replicate 16 7)))]"
proof -
  have n: "shown_name [[98]] = ''b.''" "shown_name [[97]] = ''a.''" "name_text [[98]] = ''b.''" by code_simp+
  then have q: "names_labels ''b.'' [[98]]" by (simp add: names_labels_def spelling_def valid_label_def)
  from init_between [OF q, of example_writer 1 1 0] obtain pw h where pw: "DNSPacketWriter_init example_writer ''b.'' 1 1 0 = Inr pw"
    "between (pw\<lparr> pw_canonic := True \<rparr>) ''b.'' h (wire_labels [[98]] @ [0] @ be_bytes16 1 @ be_bytes16 1)" by blast
  from write_record_between [OF pw(2) example_outgoing_ok] obtain bs pw' pw1 where
    w: "write_record example_outgoing (pw\<lparr> pw_canonic := True \<rparr>) = Inr pw'"
      "between pw' ''b.'' (count_field (og_place example_outgoing) h)
        ((wire_labels [[98]] @ [0] @ be_bytes16 1 @ be_bytes16 1) @ record_bytes ''b.'' example_outgoing bs)"
      "writes (toPacket (og_content example_outgoing)) pw1 bs" by blast
  have len: "length (pw_content pw') < 65548"
    using w(2) example_written [OF w(3)]
    by (simp add: between_def record_bytes_def owner_bytes_def example_outgoing_def wire_label_def)
  have ws: "write_records [example_outgoing] (pw\<lparr> pw_canonic := True \<rparr>) = Inr pw'" using w(1) by simp
  have "in_order (map og_place [example_outgoing])"
    unfolding in_order_def by (intro exI [of _ 1] exI [of _ 0]) (simp add: example_outgoing_def)
  moreover have "list_all outgoing_ok [example_outgoing]" using example_outgoing_ok by simp
  moreover have "\<not> pdns_iequals ''b.'' ''a.''" by code_simp
  ultimately show ?thesis
    using written_packet_parsed [OF pw(1) ws q _ _ _ len, of "[]"] pw(1) ws n by (auto simp: example_outgoing_def)
qed

theorem stored_record_roundtrip_witness:
  "\<exists>serialized. serialize example_writer (RAAAA (replicate 16 7)) ''a.'' True False = Inr serialized \<and>
     unserialize (reportAllTypes empty_registry) [] ''a.'' 28 serialized = Inr (Some (RAAAA (replicate 16 7)), ''a.'', 0)"
proof -
  have s: "shown_name [[97]] = ''a.''" by code_simp
  have reg: "reg_typemap all_types (1, d_qtype (RAAAA (replicate 16 7))) = maker_of (RAAAA (replicate 16 7))"
    using AAAA_registered by simp
  have plain: "\<forall>l \<in> set [[97]]. \<not> needs_escape l" by code_simp
  from serialize_data [OF example_names _ _ reg, of example_writer] obtain bs where
    b: "serialize example_writer (RAAAA (replicate 16 7)) ''a.'' True False = Inr (map b2c bs)"
      "\<exists>pw. writes (toPacket (RAAAA (replicate 16 7))) pw bs" by auto
  from b(2) obtain pw where "writes (toPacket (og_content example_outgoing)) pw bs" by (auto simp: example_outgoing_def)
  then have "bs = replicate 16 7" by (rule example_written)
  then have "length bs = 16" by simp
  then show ?thesis
    using b(1) stored_record_roundtrip [OF example_names plain _ _ reg b(1), of "[]"] s by (simp add: wire_label_def)
qed


subsection \<open>EDNS options\<close>

definition option_bytes :: "u16 \<times> string \<Rightarrow> byte list" where
  "option_bytes = (\<lambda>(code, value). be_bytes16 code @ be_bytes16 (word_of_nat (length value)) @ map c2b value)"

lemma addOpt_options_bytes: "addOpt_options options pw = pw_append (concat (map option_bytes options)) pw"
  by (induction options pw rule: addOpt_options.induct)
    (simp_all add: pw_append_def pw_xfr16BitInt_def pw_xfrBlob_def option_bytes_def)

lemma OPT_getData_option:
  assumes "length val < 65536"
  shows "OPT_getData (p @ map b2c (option_bytes (code, val)) @ rest) (length p) options =
    OPT_getData (p @ map b2c (option_bytes (code, val)) @ rest) (length p + length (option_bytes (code, val))) (options @ [(code, val)])"
proof -
  let ?l = "word_of_nat (length val) :: u16"
  define a b c e where h: "a = b2c (ucast (drop_bit 8 code))" "b = b2c (ucast code)" "c = b2c (ucast (drop_bit 8 ?l))" "e = b2c (ucast ?l)"
  define d where "d = p @ [a, b, c, e] @ val @ rest"
  have d: "p @ map b2c (option_bytes (code, val)) @ rest = d" by (simp add: option_bytes_def o_def d_def h be_bytes16_def)
  have "unat ?l = length val" using assms by (simp add: unat_of_nat take_bit_nat_def)
  moreover have "d ! length p = a" "d ! (length p + 1) = b" "d ! (length p + 2) = c" "d ! (length p + 3) = e"
    by (simp_all add: d_def nth_append)
  ultimately have v: "be_val16 (c2b (d ! length p)) (c2b (d ! (length p + 1))) = code"
    "unat (be_val16 (c2b (d ! (length p + 2))) (c2b (d ! (length p + 3)))) = length val"
    by (simp_all add: h be_val_bytes)
  have s: "substr d (length p + 4) (length val) = val" "length d = length p + 4 + length val + length rest"
    by (simp_all add: d_def substr_def)
  have "OPT_getData d (length p) options = OPT_getData d (length p + 4 + length val) (options @ [(code, val)])"
    using s(2) by (subst OPT_getData.simps) (simp only: Let_def v s(1), simp)
  moreover have "length p + length (option_bytes (code, val)) = length p + 4 + length val" by (simp add: option_bytes_def)
  ultimately show ?thesis unfolding d by (simp add: add.assoc)
qed

lemma OPT_getData_options:
  "list_all (\<lambda>(code, value). length value < 65536) options \<Longrightarrow>
   OPT_getData (p @ map b2c (concat (map option_bytes options))) (length p) got = got @ options"
proof (induction options arbitrary: p got)
  case Nil
  then show ?case by (subst OPT_getData.simps) simp
next
  case (Cons o' options)
  obtain code val where o: "o' = (code, val)" by (cases o')
  let ?o = "map b2c (option_bytes (code, val))"
  have "OPT_getData ((p @ ?o) @ map b2c (concat (map option_bytes options))) (length (p @ ?o)) (got @ [(code, val)]) =
      (got @ [(code, val)]) @ options"
    using Cons.prems by (intro Cons.IH) simp
  then show ?case
    using OPT_getData_option [of val p code "map b2c (concat (map option_bytes options))" got] Cons.prems by (simp add: o)
qed

text \<open>
  EDNS0 survives the packet: \<open>addOpt\<close> starts an OPT record whose time to live is read back
  as the extended response code, version zero and the flags, and the options it writes are the
  options read from the record's data.
\<close>

theorem edns_roundtrip:
  assumes "list_all (\<lambda>(code, val). length val < 65536) options"
  shows "\<exists>ttl bs. pw_addOpt udpsize extRCode Z options pw =
      bindE (pw_startRecord [] qt_OPT ttl (word_of_int udpsize) ADDITIONAL pw) (\<lambda>pw. Inr (pw_append bs pw)) \<and>
    edns0_of_ttl ttl = \<lparr> ex_extRCode = word_of_int extRCode, ex_version = 0, ex_Z = ntohs (word_of_int Z) \<rparr> \<and>
    OPT_getData (map b2c bs) 0 [] = options"
proof -
  let ?z = "ntohs (word_of_int Z)" let ?bs = "concat (map option_bytes options)"
  let ?ttl = "be_val32 (word_of_int extRCode) 0 (ucast ?z) (ucast (drop_bit 8 ?z))"
  have "pw_addOpt udpsize extRCode Z options pw =
      bindE (pw_startRecord [] qt_OPT ?ttl (word_of_int udpsize) ADDITIONAL pw) (\<lambda>pw. Inr (pw_append ?bs pw))"
    by (simp add: pw_addOpt_def Let_def le_bytes16_def addOpt_options_bytes)
  moreover have "edns0_of_ttl ?ttl = \<lparr> ex_extRCode = word_of_int extRCode, ex_version = 0, ex_Z = ?z \<rparr>"
    by (simp add: edns0_of_ttl_def codec_simps le16_le_bytes)
  moreover have "OPT_getData (map b2c ?bs) 0 [] = options" using OPT_getData_options [OF assms, of "[]" "[]"] by simp
  ultimately show ?thesis by blast
qed

theorem edns_roundtrip_witness:
  "\<forall>pw. \<exists>ttl bs. pw_addOpt 4096 0 32768 [(3, ''nsid'')] pw =
      bindE (pw_startRecord [] qt_OPT ttl (word_of_int 4096) ADDITIONAL pw) (\<lambda>pw. Inr (pw_append bs pw)) \<and>
    edns0_of_ttl ttl = \<lparr> ex_extRCode = word_of_int 0, ex_version = 0, ex_Z = ntohs (word_of_int 32768) \<rparr> \<and>
    OPT_getData (map b2c bs) 0 [] = [(3, ''nsid'')]"
proof
  fix pw
  show "\<exists>ttl bs. pw_addOpt 4096 0 32768 [(3, ''nsid'')] pw =
      bindE (pw_startRecord [] qt_OPT ttl (word_of_int 4096) ADDITIONAL pw) (\<lambda>pw. Inr (pw_append bs pw)) \<and>
    edns0_of_ttl ttl = \<lparr> ex_extRCode = word_of_int 0, ex_version = 0, ex_Z = ntohs (word_of_int 32768) \<rparr> \<and>
    OPT_getData (map b2c bs) 0 [] = [(3, ''nsid'')]"
    by (rule edns_roundtrip) simp
qed

end
