(* ===== verification/IpUtils.thy ===== *)
theory IpUtils
  imports Misc
begin

text \<open>
  Addresses and netmasks: \<open>iputils.hh\<close>, the parsing of socket addresses in \<open>misc.cc\<close>, and the EDNS
  client subnet option of \<open>ednssubnet.cc\<close>. What the C library does with numeric addresses
  (\<open>inet_aton\<close>, \<open>inet_pton\<close>, \<open>getaddrinfo\<close>, \<open>getnameinfo\<close>) is a parameter.
\<close>

subsection \<open>Addresses\<close>

text \<open>
  \<open>union ComboAddress\<close>: the family and port that both structures start with, then the bytes of
  \<open>sin_addr\<close> (where the other structure has its flow information), of \<open>sin6_addr\<close>, and of
  \<open>sin6_scope_id\<close>. The port is kept as in memory.
\<close>

record ComboAddress =
  ca_family :: u16
  ca_port :: u16
  ca_addr4 :: "byte list"
  ca_addr6 :: "byte list"
  ca_scope :: "byte list"

definition AF_INET :: u16 where "AF_INET = 2"

definition AF_INET6 :: u16 where "AF_INET6 = 10"

record addr_lib =
  al_aton :: "string \<Rightarrow> byte list option"
  al_pton4 :: "string \<Rightarrow> byte list option"
  al_addrinfo6 :: "string \<Rightarrow> (byte list \<times> byte list) option"
  al_nameinfo :: "ComboAddress \<Rightarrow> string"

text \<open>\<open>s_addr\<close> as a number of the little-endian host, and in host order.\<close>

definition s_addr :: "byte list \<Rightarrow> u32" where
  "s_addr bs = be_val32 (bs ! 3) (bs ! 2) (bs ! 1) (bs ! 0)"

definition host_addr :: "byte list \<Rightarrow> u32" where
  "host_addr bs = be_val32 (bs ! 0) (bs ! 1) (bs ! 2) (bs ! 3)"

fun memcmp_less :: "byte list \<Rightarrow> byte list \<Rightarrow> bool" where
  "memcmp_less (a # as) (b # bs) = (a < b \<or> (a = b \<and> memcmp_less as bs))"
| "memcmp_less _ _ = False"

definition ComboAddress_eq :: "ComboAddress \<Rightarrow> ComboAddress \<Rightarrow> bool" where
  "ComboAddress_eq a b =
     (if (ca_family a, ca_port a) \<noteq> (ca_family b, ca_port b) then False
      else if ca_family a = AF_INET then s_addr (ca_addr4 a) = s_addr (ca_addr4 b)
      else ca_addr6 a = ca_addr6 b)"

definition family_port_less :: "ComboAddress \<Rightarrow> ComboAddress \<Rightarrow> bool" where
  "family_port_less a b \<longleftrightarrow> ca_family a < ca_family b \<or> (ca_family a = ca_family b \<and> ca_port a < ca_port b)"

definition ComboAddress_less :: "ComboAddress \<Rightarrow> ComboAddress \<Rightarrow> bool" where
  "ComboAddress_less a b =
     (if family_port_less a b then True
      else if family_port_less b a then False
      else if ca_family a = AF_INET then s_addr (ca_addr4 a) < s_addr (ca_addr4 b)
      else memcmp_less (ca_addr6 a) (ca_addr6 b))"

definition ComboAddress_greater :: "ComboAddress \<Rightarrow> ComboAddress \<Rightarrow> bool" where
  "ComboAddress_greater a b =
     (if family_port_less b a then True
      else if family_port_less a b then False
      else if ca_family a = AF_INET then s_addr (ca_addr4 a) > s_addr (ca_addr4 b)
      else memcmp_less (ca_addr6 b) (ca_addr6 a))"

definition addressOnlyLessThan :: "ComboAddress \<Rightarrow> ComboAddress \<Rightarrow> bool" where
  "addressOnlyLessThan a b =
     (if ca_family a < ca_family b then True
      else if ca_family a > ca_family b then False
      else if ca_family a = AF_INET then s_addr (ca_addr4 a) < s_addr (ca_addr4 b)
      else memcmp_less (ca_addr6 a) (ca_addr6 b))"

definition getSocklen :: "ComboAddress \<Rightarrow> nat" where
  "getSocklen a = (if ca_family a = AF_INET then 16 else 28)"

text \<open>The default constructor sets the IPv4 part; the rest stays as it is in memory.\<close>

definition ComboAddress_default :: "byte list \<Rightarrow> byte list \<Rightarrow> ComboAddress" where
  "ComboAddress_default mem6 scope =
     \<lparr> ca_family = AF_INET, ca_port = 0, ca_addr4 = [0, 0, 0, 0], ca_addr6 = mem6, ca_scope = scope \<rparr>"

definition ComboAddress_zero :: ComboAddress where
  "ComboAddress_zero = \<lparr> ca_family = 0, ca_port = 0, ca_addr4 = [0, 0, 0, 0], ca_addr6 = replicate 16 0, ca_scope = [0, 0, 0, 0] \<rparr>"

subsection \<open>Socket addresses from text\<close>

text \<open>
  \<open>strtol\<close> of a C string in base ten: the number, saturated at the limits of a \<open>long\<close>, and the
  number of characters it took.
\<close>

definition strtol :: "string \<Rightarrow> int \<times> nat" where
  "strtol s =
     (let sp = length (takeWhile isspace s); r = drop sp s;
          neg = (r \<noteq> [] \<and> hd r = CHR ''-''); sgn = (if r \<noteq> [] \<and> (hd r = CHR ''-'' \<or> hd r = CHR ''+'') then 1 else 0);
          ds = digit_prefix (drop sgn r); v = int (digits_val ds)
      in if ds = [] then (0, 0)
         else (if neg then max (- (2 ^ 63)) (- v) else min (2 ^ 63 - 1) v, sp + sgn + length ds))"

definition text_to_nul :: "string \<Rightarrow> string" where
  "text_to_nul s = takeWhile (\<lambda>c. c \<noteq> CHR 0x00) s"

text \<open>
  Both return \<open>None\<close> for -1. The IPv4 form leaves the port alone if the text has none, and sets it
  even when the address turns out to be none; that port is the first component.
\<close>

definition makeIPv4sockaddr :: "addr_lib \<Rightarrow> string \<Rightarrow> ComboAddress \<Rightarrow> ComboAddress \<times> bool" where
  "makeIPv4sockaddr lib str ret =
     (if str = [] then (ret, False)
      else case find_idx (\<lambda>c. c = CHR '':'') str of
        None \<Rightarrow> (case al_aton lib (text_to_nul str) of Some a \<Rightarrow> (ret\<lparr> ca_addr4 := a \<rparr>, True) | None \<Rightarrow> (ret, False))
      | Some pos \<Rightarrow>
          let rest = text_to_nul (drop (pos + 1) str)
          in if rest = [] then (ret, False)
             else let (port, used) = strtol rest
                  in if used < length rest then (ret, False)
                     else let ret = ret\<lparr> ca_port := ntohs (word_of_int port) \<rparr>
                          in (case al_aton lib (text_to_nul (take pos str)) of
                                Some a \<Rightarrow> (ret\<lparr> ca_addr4 := a \<rparr>, True) | None \<Rightarrow> (ret, False)))"

definition bracketed :: "string \<Rightarrow> (string \<times> int) option" where
  "bracketed addr =
     (if hd addr = CHR ''['' then
        case find_idx (\<lambda>c. c = CHR '']'') addr of
          None \<Rightarrow> None
        | Some pos \<Rightarrow> if pos + 2 > length addr \<or> addr ! (pos + 1) \<noteq> CHR '':'' then None
            else Some (take (pos - 1) (drop 1 addr), atoi (text_to_nul (drop (pos + 2) addr)))
      else Some (addr, -1))"

definition makeIPv6sockaddr :: "addr_lib \<Rightarrow> string \<Rightarrow> ComboAddress \<Rightarrow> ComboAddress option" where
  "makeIPv6sockaddr lib addr ret =
     (if addr = [] then None
      else case bracketed addr of
        None \<Rightarrow> None
      | Some (ourAddr, port) \<Rightarrow>
          (case al_addrinfo6 lib (text_to_nul ourAddr) of
             None \<Rightarrow> None
           | Some (a, scope) \<Rightarrow>
               Some \<lparr> ca_family = AF_INET6, ca_port = (if port \<ge> 0 then ntohs (word_of_int port) else 0), ca_addr4 = [0, 0, 0, 0],
                      ca_addr6 = a, ca_scope = scope \<rparr>))"

definition ComboAddress_of_string :: "addr_lib \<Rightarrow> string \<Rightarrow> u16 \<Rightarrow> ComboAddress result" where
  "ComboAddress_of_string lib str port =
     (let (a, ok) = makeIPv4sockaddr lib str (ComboAddress_zero\<lparr> ca_family := AF_INET, ca_port := 0 \<rparr>)
      in bindE (if ok then Inr a
                else case makeIPv6sockaddr lib str (a\<lparr> ca_family := AF_INET6 \<rparr>) of
                       Some a \<Rightarrow> Inr a
                     | None \<Rightarrow> Inl (AhuException (''Unable to convert presentation address '' @ [CHR 0x27] @ str @ [CHR 0x27])))
           (\<lambda>a. Inr (if ca_port a = 0 then a\<lparr> ca_port := ntohs port \<rparr> else a)))"

definition isMappedIPv4 :: "ComboAddress \<Rightarrow> bool" where
  "isMappedIPv4 a \<longleftrightarrow> ca_family a = AF_INET6 \<and> (\<forall>b \<in> set (take 10 (ca_addr6 a)). b = 0) \<and>
     (\<forall>b \<in> set (take 2 (drop 10 (ca_addr6 a))). b = 0xff)"

definition mapToIPv4 :: "ComboAddress \<Rightarrow> byte list \<Rightarrow> byte list \<Rightarrow> ComboAddress result" where
  "mapToIPv4 a mem6 scope =
     (if \<not> isMappedIPv4 a then Inl (AhuException (''ComboAddress can'' @ [CHR 0x27] @ ''t map non-mapped IPv6 address back to IPv4''))
      else Inr ((ComboAddress_default mem6 scope)\<lparr> ca_port := ca_port a, ca_addr4 := take 4 (drop 12 (ca_addr6 a)) \<rparr>))"

definition toStringWithPort :: "addr_lib \<Rightarrow> ComboAddress \<Rightarrow> string" where
  "toStringWithPort lib a =
     (if ca_family a = AF_INET then al_nameinfo lib a @ '':'' @ show_nat (unat (ntohs (ca_port a)))
      else ''['' @ al_nameinfo lib a @ '']:'' @ show_nat (unat (ntohs (ca_port a))))"

text \<open>\<open>a\<close> is the address on the stack, as its default constructor left it.\<close>

definition makeComboAddress :: "addr_lib \<Rightarrow> ComboAddress \<Rightarrow> string \<Rightarrow> ComboAddress result" where
  "makeComboAddress lib a str =
     (case al_pton4 lib (text_to_nul str) of
        Some v \<Rightarrow> Inr (a\<lparr> ca_family := AF_INET, ca_addr4 := v \<rparr>)
      | None \<Rightarrow>
          (case makeIPv6sockaddr lib str (a\<lparr> ca_family := AF_INET6 \<rparr>) of
             Some a \<Rightarrow> Inr a
           | None \<Rightarrow> Inl (NetmaskException (''Unable to convert '' @ [CHR 0x27] @ str @ [CHR 0x27] @ '' to a netmask''))))"

subsection \<open>Netmasks\<close>

record Netmask =
  nm_network :: ComboAddress
  nm_mask :: u32
  nm_bits :: byte

definition prefix_mask :: "byte \<Rightarrow> u32" where
  "prefix_mask bits = (if bits < 32 then NOT (drop_bit (unat bits) 0xFFFFFFFF) else 0xFFFFFFFF)"

text \<open>The default constructor makes a mask of no family, which matches nothing.\<close>

definition Netmask_default :: "Netmask \<Rightarrow> Netmask" where
  "Netmask_default mem = mem\<lparr> nm_network := (ComboAddress_default (ca_addr6 (nm_network mem)) (ca_scope (nm_network mem)))\<lparr> ca_family := 0 \<rparr> \<rparr>"

definition Netmask_of_address :: "ComboAddress \<Rightarrow> byte \<Rightarrow> Netmask" where
  "Netmask_of_address network bits =
     (let bits = (if bits = 0xff then if ca_family network = AF_INET then 32 else 128 else bits)
      in \<lparr> nm_network = network, nm_mask = prefix_mask bits, nm_bits = bits \<rparr>)"

definition Netmask_of_string :: "addr_lib \<Rightarrow> ComboAddress \<Rightarrow> string \<Rightarrow> Netmask result" where
  "Netmask_of_string lib a text =
     (let (addr, len) = splitField text (CHR ''/'')
      in bindE (makeComboAddress lib a addr) (\<lambda>network.
           Inr (if len \<noteq> [] then
                  let bits = word_of_int (atoi (text_to_nul len)) in \<lparr> nm_network = network, nm_mask = prefix_mask bits, nm_bits = bits \<rparr>
                else if ca_family network = AF_INET then \<lparr> nm_network = network, nm_mask = 0xFFFFFFFF, nm_bits = 32 \<rparr>
                else \<lparr> nm_network = network, nm_mask = 0, nm_bits = 128 \<rparr>)))"

definition match4 :: "Netmask \<Rightarrow> u32 \<Rightarrow> bool" where
  "match4 nm ip \<longleftrightarrow> ip AND nm_mask nm = host_addr (ca_addr4 (nm_network nm)) AND nm_mask nm"

text \<open>
  The IPv6 comparison: whole bytes, then the top bits of the next one. The prefix length is not
  bounded; beyond the scope id the reads leave the address.
\<close>

fun match_bytes :: "nat \<Rightarrow> nat \<Rightarrow> byte list \<Rightarrow> byte list \<Rightarrow> bool result" where
  "match_bytes 0 bits (u # us) (t # them) =
     (let mask = NOT (drop_bit bits 0xFF) in Inr (u AND mask = t AND mask))"
| "match_bytes (Suc n) bits (u # us) (t # them) = (if u \<noteq> t then Inr False else match_bytes n bits us them)"
| "match_bytes n bits _ _ = Inl UndefinedBehaviour"

definition Netmask_match :: "Netmask \<Rightarrow> ComboAddress \<Rightarrow> bool result" where
  "Netmask_match nm ip =
     (let net = nm_network nm
      in if ca_family net \<noteq> ca_family ip then Inr False
         else if ca_family net = AF_INET then Inr (match4 nm (host_addr (ca_addr4 ip)))
         else if ca_family net = AF_INET6
         then match_bytes (unat (nm_bits nm) div 8) (unat (nm_bits nm) mod 8) (ca_addr6 net @ ca_scope net) (ca_addr6 ip @ ca_scope ip)
         else Inr False)"

definition Netmask_match_string :: "addr_lib \<Rightarrow> ComboAddress \<Rightarrow> Netmask \<Rightarrow> string \<Rightarrow> bool result" where
  "Netmask_match_string lib a nm ip = bindE (makeComboAddress lib a ip) (Netmask_match nm)"

definition Netmask_toString :: "addr_lib \<Rightarrow> Netmask \<Rightarrow> string" where
  "Netmask_toString lib nm = al_nameinfo lib (nm_network nm) @ ''/'' @ show_nat (unat (nm_bits nm))"

text \<open>Groups of masks.\<close>

type_synonym NetmaskGroup = "Netmask list"

fun NetmaskGroup_match :: "byte list \<Rightarrow> byte list \<Rightarrow> NetmaskGroup \<Rightarrow> ComboAddress \<Rightarrow> bool result" where
  "NetmaskGroup_match mem6 scope [] ip = Inr False"
| "NetmaskGroup_match mem6 scope (nm # masks) ip =
     bindE (Netmask_match nm ip) (\<lambda>m.
     if m then Inr True
     else bindE (if isMappedIPv4 ip then bindE (mapToIPv4 ip mem6 scope) (Netmask_match nm) else Inr False) (\<lambda>m.
          if m then Inr True else NetmaskGroup_match mem6 scope masks ip))"

definition addMask :: "addr_lib \<Rightarrow> ComboAddress \<Rightarrow> string \<Rightarrow> NetmaskGroup \<Rightarrow> NetmaskGroup result" where
  "addMask lib a ip masks = bindE (Netmask_of_string lib a ip) (\<lambda>nm. Inr (masks @ [nm]))"

fun NetmaskGroup_toString :: "addr_lib \<Rightarrow> NetmaskGroup \<Rightarrow> string" where
  "NetmaskGroup_toString lib [] = []"
| "NetmaskGroup_toString lib [nm] = Netmask_toString lib nm"
| "NetmaskGroup_toString lib (nm # nm' # masks) = Netmask_toString lib nm @ '', '' @ NetmaskGroup_toString lib (nm' # masks)"

subsection \<open>The client subnet option\<close>

record EDNSSubnetOpts =
  es_source :: Netmask
  es_scope :: Netmask

definition mask_octets :: "byte \<Rightarrow> nat" where
  "mask_octets m = (if m = 0 then 0 else (unat m - 1) div 8 + 1)"

definition getEDNSSubnetOptsFromString :: "byte list \<Rightarrow> EDNSSubnetOpts option" where
  "getEDNSSubnetOptsFromString options =
     (if length options \<le> 4 then None
      else
        let family = be_val16 (options ! 0) (options ! 1); sourceMask = options ! 2; scopeMask = options ! 3;
            octetsin = mask_octets sourceMask; given = take octetsin (drop 4 options)
        in if family = 1 then
             (if length options \<noteq> 4 + octetsin \<or> octetsin > 4 then None
              else let address = ComboAddress_zero\<lparr> ca_family := AF_INET, ca_addr4 := given @ replicate (4 - octetsin) 0 \<rparr>
                   in Some \<lparr> es_source = Netmask_of_address address sourceMask, es_scope = Netmask_of_address address scopeMask \<rparr>)
           else if family = 2 then
             (if length options \<noteq> 4 + octetsin \<or> octetsin > 16 then None
              else let address = ComboAddress_zero\<lparr> ca_family := AF_INET6, ca_addr6 := given @ replicate (16 - octetsin) 0 \<rparr>
                   in Some \<lparr> es_source = Netmask_of_address address sourceMask, es_scope = Netmask_of_address address scopeMask \<rparr>)
           else None)"

definition makeEDNSSubnetOptsString :: "EDNSSubnetOpts \<Rightarrow> byte list result" where
  "makeEDNSSubnetOptsString eso =
     (let net = nm_network (es_source eso); sourceMask = nm_bits (es_source eso); scopeMask = nm_bits (es_scope eso);
          family = (if ca_family net = AF_INET then 1 else 2); octetsout = mask_octets sourceMask;
          memory = (if family = 1 then ca_addr4 net @ ca_addr6 net @ ca_scope net else ca_addr6 net @ ca_scope net)
      in if octetsout > length memory then Inl UndefinedBehaviour
         else Inr (be_bytes16 family @ [sourceMask, scopeMask] @ take octetsout memory))"

subsection \<open>Netmasks match common prefixes; the option is rebuilt as it was sent\<close>

definition address_bytes :: "ComboAddress \<Rightarrow> byte list" where
  "address_bytes a = (if ca_family a = AF_INET then ca_addr4 a else ca_addr6 a)"

definition bit_at :: "byte list \<Rightarrow> nat \<Rightarrow> bool" where
  "bit_at bs i = bit (bs ! (i div 8)) (7 - i mod 8)"

definition same_prefix :: "nat \<Rightarrow> byte list \<Rightarrow> byte list \<Rightarrow> bool" where
  "same_prefix p as bs \<longleftrightarrow> (\<forall>i<p. bit_at as i = bit_at bs i)"

definition wf_address :: "ComboAddress \<Rightarrow> bool" where
  "wf_address a \<longleftrightarrow> length (ca_addr4 a) = 4 \<and> length (ca_addr6 a) = 16 \<and> length (ca_scope a) = 4"

lemma bit_at_Cons [simp]: "bit_at (b # bs) (i + 8) = bit_at bs i"
proof -
  have "(i + 8) div 8 = Suc (i div 8)" by simp
  then show ?thesis by (simp add: bit_at_def del: div_add_self2)
qed

lemma bit_at_first: "i < 8 \<Longrightarrow> bit_at (b # bs) i = bit b (7 - i)"
  by (simp add: bit_at_def)

lemma masked_eq_iff:
  fixes u t :: "'a::len word"
  assumes "n \<le> LENGTH('a)"
  shows "(u AND NOT (mask (LENGTH('a) - n)) = t AND NOT (mask (LENGTH('a) - n))) \<longleftrightarrow>
    (\<forall>i<n. bit u (LENGTH('a) - Suc i) = bit t (LENGTH('a) - Suc i))"
proof -
  define M :: "'a word" where "M = NOT (mask (LENGTH('a) - n))"
  have m: "bit M j \<longleftrightarrow> j < LENGTH('a) \<and> LENGTH('a) \<le> n + j" for j
    unfolding M_def by (auto simp: bit_simps)
  have "(\<forall>i<n. bit u (LENGTH('a) - Suc i) = bit t (LENGTH('a) - Suc i)) \<longleftrightarrow> u AND M = t AND M"
  proof (rule iffI; (intro allI impI)?)
    fix i assume "u AND M = t AND M" "i < n"
    then have "bit (u AND M) (LENGTH('a) - Suc i) = bit (t AND M) (LENGTH('a) - Suc i)" by simp
    moreover have "bit M (LENGTH('a) - Suc i)" using assms \<open>i < n\<close> unfolding m by auto
    ultimately show "bit u (LENGTH('a) - Suc i) = bit t (LENGTH('a) - Suc i)" by (simp add: bit_and_iff)
  next
    assume bits: "\<forall>i<n. bit u (LENGTH('a) - Suc i) = bit t (LENGTH('a) - Suc i)"
    show "u AND M = t AND M"
    proof (rule bit_word_eqI)
      fix j assume j: "j < LENGTH('a)"
      show "bit (u AND M) j = bit (t AND M) j"
      proof (cases "LENGTH('a) \<le> n + j")
        case True
        have "bit u (LENGTH('a) - Suc (LENGTH('a) - Suc j)) = bit t (LENGTH('a) - Suc (LENGTH('a) - Suc j))"
          using j True by (intro bits [rule_format]) arith
        then show ?thesis using j by (simp add: bit_and_iff)
      next
        case False then show ?thesis by (simp add: bit_and_iff m)
      qed
    qed
  qed
  then show ?thesis by (simp add: M_def)
qed

lemma all_ones: "(0xFF :: byte) = - 1" "(0xFFFFFFFF :: u32) = - 1"
  by simp_all

lemma same_prefix_0 [simp]: "same_prefix 0 as bs"
  by (simp add: same_prefix_def)

lemma same_prefix_byte:
  assumes "n < 8"
  shows "same_prefix n (a # as) (b # bs) \<longleftrightarrow> (\<forall>i<n. bit a (7 - i) = bit b (7 - i))"
  using assms by (auto simp: same_prefix_def bit_at_first)

lemma same_prefix_step: "same_prefix (8 + p) (a # as) (b # bs) \<longleftrightarrow> a = b \<and> same_prefix p as bs"
proof -
  have split: "(\<forall>i<8 + p. P i) \<longleftrightarrow> (\<forall>i<8. P i) \<and> (\<forall>i<p. P (i + 8))" for P :: "nat \<Rightarrow> bool"
  proof (intro iffI conjI allI impI)
    fix i assume *: "(\<forall>i<8. P i) \<and> (\<forall>i<p. P (i + 8))" and i: "i < 8 + p"
    show "P i"
    proof (cases "i < 8")
      case False
      then have "i - 8 < p" using i by arith
      with * have "P ((i - 8) + 8)" by blast
      then show ?thesis using False by simp
    qed (use * in simp)
  qed simp_all
  have "(\<forall>i<8. bit a (7 - i) = bit b (7 - i)) \<longleftrightarrow> a = b"
  proof
    assume *: "\<forall>i<8. bit a (7 - i) = bit b (7 - i)"
    show "a = b"
    proof (rule bit_word_eqI)
      fix j assume "j < LENGTH(8)"
      then show "bit a j = bit b j" using *[rule_format, of "7 - j"] by simp
    qed
  qed simp
  then show ?thesis
    by (simp add: same_prefix_def split bit_at_first)
qed

lemma match_bytes_prefix:
  assumes "n < length us" "n < length them" "bits < 8"
  shows "match_bytes n bits us them = Inr (same_prefix (8 * n + bits) us them)"
  using assms
proof (induction n bits us them rule: match_bytes.induct)
  case (1 bits u us t them)
  then show ?case
    using masked_eq_iff [of bits u t] by (simp add: Let_def all_ones same_prefix_byte)
next
  case (2 n bits u us t them)
  have e: "8 * Suc n + bits = 8 + (8 * n + bits)" by simp
  show ?case using 2 unfolding e same_prefix_step by auto
qed auto

lemma match_address4:
  assumes "length as = 4" "length bs = 4" "unat p \<le> 32"
  shows "(host_addr as AND prefix_mask p = host_addr bs AND prefix_mask p) \<longleftrightarrow> same_prefix (unat p) as bs"
proof -
  have m: "prefix_mask p = NOT (drop_bit (unat p) (- 1))"
  proof (cases "unat p < 32")
    case True
    then have "p < 32" by (simp add: word_less_nat_alt)
    then show ?thesis by (simp add: prefix_mask_def all_ones)
  next
    case False
    with assms(3) have "unat p = 32" by simp
    moreover from this have "\<not> p < 32" by (simp add: word_less_nat_alt)
    moreover have "drop_bit 32 (- 1 :: u32) = 0" by (rule bit_word_eqI) (auto simp: bit_simps dest: bit_imp_le_length)
    ultimately show ?thesis by (simp add: prefix_mask_def)
  qed
  have b: "bit (host_addr cs) (31 - i) = bit_at cs i" if "length cs = 4" "i < 32" for cs i
  proof -
    from that(2) have "i div 8 < 4" by simp
    then have "i div 8 = 0 \<or> i div 8 = 1 \<or> i div 8 = 2 \<or> i div 8 = 3" by arith
    moreover have "i = 8 * (i div 8) + i mod 8" "i mod 8 < 8" by simp_all
    ultimately obtain q r where i: "i = 8 * q + r" "r < 8" and q: "q = 0 \<or> q = 1 \<or> q = 2 \<or> q = (3::nat)"
      by metis
    have "r = 0 \<or> r = 1 \<or> r = 2 \<or> r = 3 \<or> r = 4 \<or> r = 5 \<or> r = 6 \<or> r = 7" using i(2) by arith
    then show ?thesis
      unfolding i(1) host_addr_def be_val32_def bit_at_def
      using q by (elim disjE) (simp_all add: bit_simps byte_bit_high)
  qed
  show ?thesis
    using assms masked_eq_iff [of "unat p" "host_addr as" "host_addr bs"] by (simp add: m same_prefix_def b)
qed

text \<open>
  Property C33. A netmask matches an address exactly if both are of one family and agree on the
  leading bits the mask asks for: the word arithmetic of the IPv4 side and the byte loop of the
  IPv6 side compute the same notion of a common prefix.
\<close>

theorem netmask_match_prefix:
  assumes "nm = Netmask_of_address net bits" "wf_address net" "wf_address ip"
    and "ca_family net = AF_INET \<and> unat bits \<le> 32 \<or> ca_family net = AF_INET6 \<and> unat bits \<le> 128"
  shows "Netmask_match nm ip =
    Inr (ca_family net = ca_family ip \<and> same_prefix (unat bits) (address_bytes net) (address_bytes ip))"
proof -
  have nm: "nm_network nm = net" "nm_bits nm = bits" "nm_mask nm = prefix_mask bits"
    using assms(1,4) by (auto simp: Netmask_of_address_def Let_def)
  show ?thesis
  proof (cases "ca_family net = ca_family ip")
    case False then show ?thesis by (simp add: Netmask_match_def nm)
  next
    case same: True
    show ?thesis
    proof (cases "ca_family net = AF_INET")
      case True
      then have "unat bits \<le> 32" using assms(4) by (auto simp: AF_INET_def AF_INET6_def)
      then show ?thesis
        using assms(2,3) match_address4 [of "ca_addr4 ip" "ca_addr4 net" bits] True same
        by (auto simp: Netmask_match_def nm match4_def wf_address_def address_bytes_def same_prefix_def)
    next
      case False
      then have v6: "ca_family net = AF_INET6" "unat bits \<le> 128" using assms(4) by auto
      have b: "bit_at (x @ y) i = bit_at x i" if "i < 128" "length x = 16" for x y i
      proof -
        from that(1) have "i div 8 < 16" by simp
        then show ?thesis using that(2) by (simp add: bit_at_def nth_append)
      qed
      have "8 * (unat bits div 8) + unat bits mod 8 = unat bits" by simp
      then show ?thesis
        using v6 False same assms(2,3)
        by (auto simp: Netmask_match_def nm wf_address_def address_bytes_def match_bytes_prefix same_prefix_def b)
    qed
  qed
qed

lemma netmask_match_prefix_witness:
  "Netmask_match (Netmask_of_address (ComboAddress_zero\<lparr> ca_family := AF_INET, ca_addr4 := [192, 168, 1, 0] \<rparr>) 20)
     (ComboAddress_zero\<lparr> ca_family := AF_INET, ca_addr4 := [192, 168, 15, 3] \<rparr>) =
   Inr (same_prefix 20 [192, 168, 1, 0] [192, 168, 15, 3])"
  by (subst netmask_match_prefix [OF refl])
    (simp_all add: wf_address_def ComboAddress_zero_def address_bytes_def)

text \<open>
  Property C34. A client subnet option that is accepted is rebuilt byte for byte by the writer,
  so that a reply carries the subnet the client sent - all but a scope of 255, which the netmask
  constructor takes as none, so that the whole length of an address of the family stands there instead.
\<close>

theorem edns_subnet_roundtrip:
  assumes "getEDNSSubnetOptsFromString options = Some eso"
  shows "makeEDNSSubnetOptsString eso =
    Inr (if options ! 3 = 0xff then options[3 := if be_val16 (options ! 0) (options ! 1) = 1 then 32 else 128] else options)"
proof -
  obtain f1 f2 s c rest where o: "options = f1 # f2 # s # c # rest"
  proof -
    have "length options > 4" using assms(1) by (auto simp: getEDNSSubnetOptsFromString_def split: if_splits)
    then obtain a o1 where 1: "options = a # o1" "length o1 > 3" by (cases options) auto
    then obtain b o2 where 2: "o1 = b # o2" "length o2 > 2" by (cases o1) auto
    then obtain c o3 where 3: "o2 = c # o3" "length o3 > 1" by (cases o2) auto
    then obtain d o4 where "o3 = d # o4" by (cases o3) auto
    with that 1 2 3 show ?thesis by simp
  qed
  note d = getEDNSSubnetOptsFromString_def o Let_def
  have fam: "be_val16 f1 f2 = 1 \<or> be_val16 f1 f2 = 2"
    using assms(1) by (auto simp: d split: if_splits)
  have len: "length rest = mask_octets s" "mask_octets s \<le> 16"
    using assms(1) by (auto simp: d split: if_splits)
  then have s: "s \<noteq> 0xff" by (auto simp: mask_octets_def)
  have "be_bytes16 (be_val16 f1 f2) = [f1, f2]" by (rule be_bytes_val)
  then have b: "be_val16 f1 f2 = k \<Longrightarrow> be_bytes16 k = [f1, f2]" for k by simp
  from fam show ?thesis
  proof
    assume "be_val16 f1 f2 = 1"
    with assms(1) len s show ?thesis
      by (auto simp: d makeEDNSSubnetOptsString_def Netmask_of_address_def ComboAddress_zero_def b AF_INET_def AF_INET6_def split: if_splits)
  next
    assume "be_val16 f1 f2 = 2"
    with assms(1) len s show ?thesis
      by (auto simp: d makeEDNSSubnetOptsString_def Netmask_of_address_def ComboAddress_zero_def b AF_INET_def AF_INET6_def split: if_splits)
  qed
qed

lemma edns_subnet_roundtrip_witness:
  "makeEDNSSubnetOptsString (the (getEDNSSubnetOptsFromString [0, 1, 20, 0, 192, 168, 16])) = Inr [0, 1, 20, 0, 192, 168, 16] \<and>
   makeEDNSSubnetOptsString (the (getEDNSSubnetOptsFromString [0, 1, 20, 255, 192, 168, 16])) = Inr [0, 1, 20, 32, 192, 168, 16]"
proof -
  have "\<exists>eso. getEDNSSubnetOptsFromString [0, 1, 20, s, 192, 168, 16] = Some eso" for s
    by (simp add: getEDNSSubnetOptsFromString_def be_val16_def mask_octets_def Let_def)
  then have "makeEDNSSubnetOptsString (the (getEDNSSubnetOptsFromString [0, 1, 20, s, 192, 168, 16])) =
      Inr (if s = 0xff then [0, 1, 20, 32, 192, 168, 16] else [0, 1, 20, s, 192, 168, 16])" for s
    using edns_subnet_roundtrip [of "[0, 1, 20, s, 192, 168, 16]"] by (fastforce simp: be_val16_def)
  then show ?thesis by simp
qed

end
