(* ===== verification/Md5.thy ===== *)
theory Md5
  imports PacketReader
begin

text \<open>
  The MD5 digest of \<open>md5.cc\<close>, fed in pieces, and the keyed digest \<open>calculateMD5HMAC\<close> of
  \<open>dnssecinfra.cc\<close>. A context is shown to stand for the concatenation of what was fed to it, so that
  the digest only depends on that.
\<close>

subsection \<open>The context\<close>

type_synonym md5_state = "u32 \<times> u32 \<times> u32 \<times> u32"

record md5_context =
  md5_total0 :: u32
  md5_total1 :: u32
  md5_digest :: md5_state
  md5_buffer :: "byte list"

definition get_uint32 :: "byte list \<Rightarrow> nat \<Rightarrow> u32" where
  "get_uint32 b i = be_val32 (b ! (i + 3)) (b ! (i + 2)) (b ! (i + 1)) (b ! i)"

definition put_uint32 :: "u32 \<Rightarrow> byte list" where
  "put_uint32 n = [ucast n, ucast (drop_bit 8 n), ucast (drop_bit 16 n), ucast (drop_bit 24 n)]"

text \<open>\<open>mem\<close> is what the buffer has in memory.\<close>

definition md5_start_state :: md5_state where
  "md5_start_state = (0x67452301, 0xEFCDAB89, 0x98BADCFE, 0x10325476)"

definition md5_starts :: "byte list \<Rightarrow> md5_context" where
  "md5_starts mem = \<lparr> md5_total0 = 0, md5_total1 = 0, md5_digest = md5_start_state, md5_buffer = mem \<rparr>"

subsection \<open>One block\<close>

text \<open>The calls of the macro \<open>P\<close>: word, rotation and constant, for each of the four functions.\<close>

definition md5_round1 :: "(nat \<times> nat \<times> u32) list" where
  "md5_round1 =
    [(0, 7, 0xD76AA478), (1, 12, 0xE8C7B756), (2, 17, 0x242070DB), (3, 22, 0xC1BDCEEE),
     (4, 7, 0xF57C0FAF), (5, 12, 0x4787C62A), (6, 17, 0xA8304613), (7, 22, 0xFD469501),
     (8, 7, 0x698098D8), (9, 12, 0x8B44F7AF), (10, 17, 0xFFFF5BB1), (11, 22, 0x895CD7BE),
     (12, 7, 0x6B901122), (13, 12, 0xFD987193), (14, 17, 0xA679438E), (15, 22, 0x49B40821)]"

definition md5_round2 :: "(nat \<times> nat \<times> u32) list" where
  "md5_round2 =
    [(1, 5, 0xF61E2562), (6, 9, 0xC040B340), (11, 14, 0x265E5A51), (0, 20, 0xE9B6C7AA),
     (5, 5, 0xD62F105D), (10, 9, 0x02441453), (15, 14, 0xD8A1E681), (4, 20, 0xE7D3FBC8),
     (9, 5, 0x21E1CDE6), (14, 9, 0xC33707D6), (3, 14, 0xF4D50D87), (8, 20, 0x455A14ED),
     (13, 5, 0xA9E3E905), (2, 9, 0xFCEFA3F8), (7, 14, 0x676F02D9), (12, 20, 0x8D2A4C8A)]"

definition md5_round3 :: "(nat \<times> nat \<times> u32) list" where
  "md5_round3 =
    [(5, 4, 0xFFFA3942), (8, 11, 0x8771F681), (11, 16, 0x6D9D6122), (14, 23, 0xFDE5380C),
     (1, 4, 0xA4BEEA44), (4, 11, 0x4BDECFA9), (7, 16, 0xF6BB4B60), (10, 23, 0xBEBFBC70),
     (13, 4, 0x289B7EC6), (0, 11, 0xEAA127FA), (3, 16, 0xD4EF3085), (6, 23, 0x04881D05),
     (9, 4, 0xD9D4D039), (12, 11, 0xE6DB99E5), (15, 16, 0x1FA27CF8), (2, 23, 0xC4AC5665)]"

definition md5_round4 :: "(nat \<times> nat \<times> u32) list" where
  "md5_round4 =
    [(0, 6, 0xF4292244), (7, 10, 0x432AFF97), (14, 15, 0xAB9423A7), (5, 21, 0xFC93A039),
     (12, 6, 0x655B59C3), (3, 10, 0x8F0CCC92), (10, 15, 0xFFEFF47D), (1, 21, 0x85845DD1),
     (8, 6, 0x6FA87E4F), (15, 10, 0xFE2CE6E0), (6, 15, 0xA3014314), (13, 21, 0x4E0811A1),
     (4, 6, 0xF7537E82), (11, 10, 0xBD3AF235), (2, 15, 0x2AD7D2BB), (9, 21, 0xEB86D391)]"

definition md5_F1 :: "u32 \<Rightarrow> u32 \<Rightarrow> u32 \<Rightarrow> u32" where
  "md5_F1 x y z = z XOR (x AND (y XOR z))"

definition md5_F2 :: "u32 \<Rightarrow> u32 \<Rightarrow> u32 \<Rightarrow> u32" where
  "md5_F2 x y z = y XOR (z AND (x XOR y))"

definition md5_F3 :: "u32 \<Rightarrow> u32 \<Rightarrow> u32 \<Rightarrow> u32" where
  "md5_F3 x y z = x XOR y XOR z"

definition md5_F4 :: "u32 \<Rightarrow> u32 \<Rightarrow> u32 \<Rightarrow> u32" where
  "md5_F4 x y z = y XOR (x OR NOT z)"

definition md5_S :: "u32 \<Rightarrow> nat \<Rightarrow> u32" where
  "md5_S x n = push_bit n x OR drop_bit (32 - n) (x AND 0xFFFFFFFF)"

text \<open>Each call turns the roles of the four variables by one.\<close>

definition md5_P :: "(u32 \<Rightarrow> u32 \<Rightarrow> u32 \<Rightarrow> u32) \<Rightarrow> u32 list \<Rightarrow> md5_state \<Rightarrow> nat \<times> nat \<times> u32 \<Rightarrow> md5_state" where
  "md5_P F X st p =
     (case (st, p) of ((a, b, c, d), (k, s, t)) \<Rightarrow>
        let a = a + (F b c d + X ! k + t) in (d, md5_S a s + b, b, c))"

definition md5_process :: "md5_state \<Rightarrow> byte list \<Rightarrow> md5_state" where
  "md5_process st data =
     (let X = map (\<lambda>i. get_uint32 data (4 * i)) [0..<16];
          r = foldl (md5_P md5_F1 X) st md5_round1;
          r = foldl (md5_P md5_F2 X) r md5_round2;
          r = foldl (md5_P md5_F3 X) r md5_round3;
          r = foldl (md5_P md5_F4 X) r md5_round4
      in case (st, r) of ((s0, s1, s2, s3), (A, B, C, D)) \<Rightarrow> (s0 + A, s1 + B, s2 + C, s3 + D))"

subsection \<open>Feeding\<close>

text \<open>The loop over whole blocks, with what is left of the input.\<close>

function md5_blocks :: "md5_state \<Rightarrow> byte list \<Rightarrow> md5_state \<times> byte list" where
  "md5_blocks st input =
     (if 64 \<le> length input then md5_blocks (md5_process st (take 64 input)) (drop 64 input) else (st, input))"
  by pat_completeness auto
termination
  by (relation "measure (\<lambda>(st, input). length input)") auto

declare md5_blocks.simps [simp del]

text \<open>The length is a 32-bit number; longer input is cut.\<close>

definition md5_update :: "md5_context \<Rightarrow> byte list \<Rightarrow> md5_context" where
  "md5_update ctx bytes =
     (let length32 = (word_of_nat (length bytes) :: u32); input = take (unat length32) bytes
      in if length32 = 0 then ctx
         else
           let left = unat (md5_total0 ctx AND 0x3F); fill = 64 - left;
               total0 = (md5_total0 ctx + length32) AND 0xFFFFFFFF;
               total1 = (if total0 < length32 then md5_total1 ctx + 1 else md5_total1 ctx);
               first = left \<noteq> 0 \<and> fill \<le> length input;
               buffer = (if first then take left (md5_buffer ctx) @ take fill input else md5_buffer ctx);
               st = (if first then md5_process (md5_digest ctx) buffer else md5_digest ctx);
               input = (if first then drop fill input else input);
               left = (if first then 0 else left);
               (st, input) = md5_blocks st input
           in \<lparr> md5_total0 = total0, md5_total1 = total1, md5_digest = st, md5_buffer = put_bytes buffer left input \<rparr>)"

definition md5_padding :: "byte list" where
  "md5_padding = 0x80 # replicate 63 0"

definition md5_finish :: "md5_context \<Rightarrow> byte list" where
  "md5_finish ctx =
     (let high = drop_bit 29 (md5_total0 ctx) OR push_bit 3 (md5_total1 ctx);
          low = push_bit 3 (md5_total0 ctx);
          msglen = put_uint32 low @ put_uint32 high;
          last = unat (md5_total0 ctx AND 0x3F);
          padn = (if last < 56 then 56 - last else 120 - last);
          ctx = md5_update ctx (take padn md5_padding);
          ctx = md5_update ctx msglen
      in case md5_digest ctx of (s0, s1, s2, s3) \<Rightarrow> put_uint32 s0 @ put_uint32 s1 @ put_uint32 s2 @ put_uint32 s3)"

definition MD5Summer_feed :: "string \<Rightarrow> md5_context \<Rightarrow> md5_context" where
  "MD5Summer_feed str ctx = md5_update ctx (map c2b str)"

definition MD5Summer_get :: "md5_context \<Rightarrow> string" where
  "MD5Summer_get ctx = map b2c (md5_finish ctx)"

definition pdns_md5sum :: "byte list \<Rightarrow> string \<Rightarrow> string" where
  "pdns_md5sum mem input = MD5Summer_get (MD5Summer_feed input (md5_starts mem))"

text \<open>The keyed digest; \<open>mem1\<close> and \<open>mem2\<close> are the buffers of the two summers.\<close>

definition hmac_pad :: "byte \<Rightarrow> string \<Rightarrow> string" where
  "hmac_pad x key = map (\<lambda>n. if n < length key then b2c (c2b (key ! n) XOR x) else b2c x) [0..<64]"

definition calculateMD5HMAC :: "byte list \<Rightarrow> byte list \<Rightarrow> string \<Rightarrow> string \<Rightarrow> string" where
  "calculateMD5HMAC mem1 mem2 key text =
     (let md5_1 = MD5Summer_feed text (MD5Summer_feed (hmac_pad 0x36 key) (md5_starts mem1));
          md5_2 = MD5Summer_feed (MD5Summer_get md5_1) (MD5Summer_feed (hmac_pad 0x5c key) (md5_starts mem2))
      in MD5Summer_get md5_2)"

subsection \<open>The reference: digest of a whole message\<close>

definition md5_pad :: "byte list \<Rightarrow> byte list" where
  "md5_pad m =
     (let bits = (word_of_nat (8 * length m) :: u64)
      in m @ 0x80 # replicate ((119 - length m mod 64) mod 64) 0
           @ put_uint32 (ucast bits) @ put_uint32 (ucast (drop_bit 32 bits)))"

function blocks64 :: "byte list \<Rightarrow> byte list list" where
  "blocks64 m = (if m = [] then [] else take 64 m # blocks64 (drop 64 m))"
  by pat_completeness auto
termination
  by (relation "measure length") auto

declare blocks64.simps [simp del]

definition md5_spec :: "byte list \<Rightarrow> byte list" where
  "md5_spec m =
     (case foldl md5_process md5_start_state (blocks64 (md5_pad m)) of
        (s0, s1, s2, s3) \<Rightarrow> put_uint32 s0 @ put_uint32 s1 @ put_uint32 s2 @ put_uint32 s3)"

lemma md5_spec_short: "length (md5_spec m) < 2 ^ 32"
  by (simp add: md5_spec_def put_uint32_def split: prod.split)

subsection \<open>A context stands for what was fed\<close>

lemma md5_blocks_short [simp]: "length m < 64 \<Longrightarrow> md5_blocks st m = (st, m)"
  by (simp add: md5_blocks.simps)

lemma md5_blocks_step: "length b = 64 \<Longrightarrow> md5_blocks st (b @ m) = md5_blocks (md5_process st b) m"
  by (subst md5_blocks.simps) simp

lemma length_md5_rest [simp]: "length (snd (md5_blocks st m)) = length m mod 64"
proof (induction st m rule: md5_blocks.induct)
  case (1 st m)
  then show ?case
    by (cases "64 \<le> length m") (simp_all add: md5_blocks.simps [of st m] le_mod_geq)
qed

lemma md5_blocks_append:
  "md5_blocks st (m @ x) = md5_blocks (fst (md5_blocks st m)) (snd (md5_blocks st m) @ x)"
proof (induction st m rule: md5_blocks.induct)
  case (1 st m)
  show ?case
  proof (cases "64 \<le> length m")
    case True
    have "md5_blocks st (m @ x) = md5_blocks (md5_process st (take 64 m)) (drop 64 m @ x)"
      using md5_blocks_step [of "take 64 m" st "drop 64 m @ x"] True
      by (simp add: append_assoc [symmetric] del: append_assoc)
    then show ?thesis
      using 1 True by (simp add: md5_blocks.simps [of st m])
  qed simp
qed

lemma md5_blocks_fold:
  assumes "length m mod 64 = 0"
  shows "md5_blocks st m = (foldl md5_process st (blocks64 m), [])"
  using assms
proof (induction st m rule: md5_blocks.induct)
  case (1 st m)
  show ?case
  proof (cases "64 \<le> length m")
    case True
    then have "m \<noteq> []" by auto
    with 1 True show ?thesis
      by (simp add: md5_blocks.simps [of st m] blocks64.simps [of m] le_mod_geq)
  next
    case False
    with "1.prems" have "m = []" by simp
    then show ?thesis by (simp add: blocks64.simps)
  qed
qed

definition stands_for :: "md5_context \<Rightarrow> byte list \<Rightarrow> bool" where
  "stands_for ctx m \<longleftrightarrow>
     md5_total0 ctx = word_of_nat (length m) \<and> md5_total1 ctx = word_of_nat (length m div 2 ^ 32) \<and>
     length (md5_buffer ctx) = 64 \<and>
     md5_blocks md5_start_state m = (md5_digest ctx, take (length m mod 64) (md5_buffer ctx))"

lemma carry_div:
  fixes a b M :: nat
  assumes "b < M"
  shows "(a + b) div M = (if (a + b) mod M < b then a div M + 1 else a div M)"
proof -
  have r: "a mod M < M" using assms by simp
  show ?thesis
  proof (cases "a mod M + b < M")
    case True
    have "(a + b) div M = a div M + (a mod M + b) div M"
      using assms by (simp add: div_add1_eq [of a b M])
    moreover have "(a + b) mod M = a mod M + b" using True by (metis mod_add_left_eq mod_less)
    ultimately show ?thesis using True by simp
  next
    case False
    then have two: "M \<le> a mod M + b" "a mod M + b < 2 * M" using r assms by linarith+
    then have "(a mod M + b) div M = 1" by (intro div_nat_eqI) simp_all
    moreover have "(a mod M + b) mod M = a mod M + b - M" using two by (simp add: le_mod_geq)
    moreover have "(a + b) div M = a div M + (a mod M + b) div M"
      using assms by (simp add: div_add1_eq [of a b M])
    moreover have "(a + b) mod M = (a mod M + b) mod M" by (simp add: mod_add_left_eq)
    ultimately show ?thesis using r False by simp
  qed
qed

lemma low_six_bits: "unat (word_of_nat n AND 0x3F :: u32) = n mod 64"
proof -
  have "(0x3F :: u32) = mask 6" by (simp add: mask_eq_exp_minus_1)
  then show ?thesis
    by (simp only: take_bit_eq_mask [symmetric] unsigned_take_bit_eq)
      (simp add: take_bit_eq_mod unat_of_nat mod_mod_cancel)
qed

lemma md5_rest_stored:
  assumes "length b = 64" "md5_blocks s y = md5_blocks st x"
  shows "md5_blocks s y = (fst (md5_blocks st x), take (length y mod 64) (put_bytes b 0 (snd (md5_blocks st x))))
    \<and> length (put_bytes b 0 (snd (md5_blocks st x))) = 64"
proof -
  have "length (snd (md5_blocks st x)) = length y mod 64"
    unfolding assms(2) [symmetric] by (rule length_md5_rest)
  moreover from this have "length (snd (md5_blocks st x)) < 64" by simp
  ultimately show ?thesis using assms by (simp add: put_bytes_def)
qed

lemma stands_for_starts: "length mem = 64 \<Longrightarrow> stands_for (md5_starts mem) []"
  by (simp add: stands_for_def md5_starts_def)

lemma stands_for_update:
  assumes "stands_for ctx m" "length x < 2 ^ 32"
  shows "stands_for (md5_update ctx x) (m @ x)"
proof (cases "x = []")
  case True then show ?thesis using assms(1) by (simp add: md5_update_def)
next
  case False
  let ?left = "length m mod 64"
  let ?len = "word_of_nat (length x) :: u32"
  have ctx: "md5_total0 ctx = word_of_nat (length m)" "md5_total1 ctx = word_of_nat (length m div 2 ^ 32)"
    "length (md5_buffer ctx) = 64"
    "fst (md5_blocks md5_start_state m) = md5_digest ctx"
    "snd (md5_blocks md5_start_state m) = take ?left (md5_buffer ctx)"
    using assms(1) by (auto simp: stands_for_def)
  have ulen: "unat ?len = length x" using assms(2) by (simp add: unat_of_nat)
  have nz: "?len \<noteq> 0"
  proof
    assume "?len = 0"
    then have "unat ?len = 0" by (rule arg_cong [where f = unat, THEN trans]) simp
    with ulen False show False by simp
  qed
  have ones: "w AND 0xFFFFFFFF = w" for w :: u32
  proof -
    have "(0xFFFFFFFF :: u32) = - 1" by simp
    then show ?thesis by (metis and.right_neutral)
  qed
  have t0: "md5_total0 ctx + ?len = word_of_nat (length (m @ x))" by (simp add: ctx)
  have t1: "(if word_of_nat (length (m @ x)) < ?len then md5_total1 ctx + 1 else md5_total1 ctx) = word_of_nat (length (m @ x) div 2 ^ 32)"
  proof -
    have u: "unat (word_of_nat n :: u32) = n mod 2 ^ 32" for n by (simp add: unat_of_nat)
    show ?thesis
      unfolding word_less_nat_alt u ulen [unfolded u] ctx length_append carry_div [OF assms(2)]
      by (cases "(length m + length x) mod 2 ^ 32 < length x")
        (simp_all only: if_True if_False of_nat_add of_nat_1)
  qed
  have left: "unat (md5_total0 ctx AND 0x3F) = ?left" by (simp add: ctx low_six_bits)
  let ?first = "?left \<noteq> 0 \<and> 64 - ?left \<le> length x"
  let ?buffer = "if ?first then take ?left (md5_buffer ctx) @ take (64 - ?left) x else md5_buffer ctx"
  let ?st = "if ?first then md5_process (md5_digest ctx) ?buffer else md5_digest ctx"
  let ?in = "if ?first then drop (64 - ?left) x else x"
  let ?l = "if ?first then 0 else ?left"
  have lb: "length ?buffer = 64" using ctx(3) by auto
  have blocks: "md5_blocks md5_start_state (m @ x) =
      md5_blocks (md5_digest ctx) (take ?left (md5_buffer ctx) @ x)"
    by (simp add: md5_blocks_append [of _ m x] ctx)
  have upd: "md5_update ctx x = \<lparr> md5_total0 = word_of_nat (length (m @ x)), md5_total1 = word_of_nat (length (m @ x) div 2 ^ 32),
      md5_digest = fst (md5_blocks ?st ?in), md5_buffer = put_bytes ?buffer ?l (snd (md5_blocks ?st ?in)) \<rparr>"
    unfolding md5_update_def Let_def ulen
    by (simp only: nz ones t0 t1 left if_False take_all order_refl split: prod.split) simp
  have goal: "md5_blocks md5_start_state (m @ x) = (fst (md5_blocks ?st ?in), take (length (m @ x) mod 64) (put_bytes ?buffer ?l (snd (md5_blocks ?st ?in))))"
    and len: "length (put_bytes ?buffer ?l (snd (md5_blocks ?st ?in))) = 64"
  proof -
    consider (first) "?first" | (zero) "?left = 0" | (short) "length x < 64 - ?left" by linarith
    then have "md5_blocks md5_start_state (m @ x) = (fst (md5_blocks ?st ?in), take (length (m @ x) mod 64) (put_bytes ?buffer ?l (snd (md5_blocks ?st ?in))))
      \<and> length (put_bytes ?buffer ?l (snd (md5_blocks ?st ?in))) = 64"
    proof cases
      case first
      have "md5_blocks (md5_digest ctx) ((take ?left (md5_buffer ctx) @ take (64 - ?left) x) @ drop (64 - ?left) x) =
          md5_blocks (md5_process (md5_digest ctx) (take ?left (md5_buffer ctx) @ take (64 - ?left) x)) (drop (64 - ?left) x)"
        using first ctx(3) by (intro md5_blocks_step) auto
      then have eq: "md5_blocks md5_start_state (m @ x) = md5_blocks ?st ?in" using first blocks by simp
      have "?l = 0" using first by simp
      then show ?thesis using md5_rest_stored [OF lb eq] by (simp only:)
    next
      case zero
      have eq: "md5_blocks md5_start_state (m @ x) = md5_blocks ?st ?in" using zero blocks by simp
      have "?l = 0" using zero by simp
      then show ?thesis using md5_rest_stored [OF lb eq] by (simp only:)
    next
      case short
      then have sum: "?left + length x < 64" by simp
      then have x: "length x < 64" by simp
      have mod: "length (m @ x) mod 64 = ?left + length x"
        using sum by (metis length_append mod_add_left_eq mod_less)
      have "md5_blocks (md5_digest ctx) (take ?left (md5_buffer ctx) @ x) = (md5_digest ctx, take ?left (md5_buffer ctx) @ x)"
        using sum ctx(3) by (intro md5_blocks_short) simp
      then show ?thesis
        using short sum x ctx(3) blocks unfolding mod by (simp add: put_bytes_def)
    qed
    then show "md5_blocks md5_start_state (m @ x) = (fst (md5_blocks ?st ?in), take (length (m @ x) mod 64) (put_bytes ?buffer ?l (snd (md5_blocks ?st ?in))))"
      and "length (put_bytes ?buffer ?l (snd (md5_blocks ?st ?in))) = 64" by blast+
  qed
  have digest: "md5_digest (md5_update ctx x) = fst (md5_blocks ?st ?in)"
    and buffer: "md5_buffer (md5_update ctx x) = put_bytes ?buffer ?l (snd (md5_blocks ?st ?in))"
    and totals: "md5_total0 (md5_update ctx x) = word_of_nat (length (m @ x))"
      "md5_total1 (md5_update ctx x) = word_of_nat (length (m @ x) div 2 ^ 32)"
    unfolding upd by (rule md5_context.select_convs)+
  show ?thesis unfolding stands_for_def digest buffer totals by (intro conjI refl goal len)
qed

lemma length_words:
  "(8 :: nat) * n = push_bit 3 n" "n div 2 ^ 32 = drop_bit 32 n"
  by (simp_all add: push_bit_eq_mult drop_bit_eq_div mult.commute)

lemma pad_multiple: "(n + (if n mod 64 < 56 then 56 - n mod 64 else 120 - n mod 64) + 8) mod 64 = (0 :: nat)"
proof -
  obtain q r where n: "n = 64 * q + r" and r: "r < 64"
    by (metis mod_less_divisor mult_div_mod_eq zero_less_numeral)
  have m: "n mod 64 = r" using r by (simp add: n)
  show ?thesis
  proof (cases "r < 56")
    case True
    then have "n + (56 - r) + 8 = 64 * (q + 1)" by (simp add: n)
    then show ?thesis unfolding m using True by (simp only: if_True mod_mult_self1_is_0)
  next
    case False
    then have "n + (120 - r) + 8 = 64 * (q + 2)" using r by (simp add: n)
    then show ?thesis unfolding m using False by (simp only: if_False mod_mult_self1_is_0)
  qed
qed

lemma stands_for_finish:
  assumes "stands_for ctx m"
  shows "md5_finish ctx = md5_spec m"
proof -
  let ?pad = "take (if length m mod 64 < 56 then 56 - length m mod 64 else 120 - length m mod 64) md5_padding"
  let ?bits = "word_of_nat (8 * length m) :: u64"
  let ?msglen = "put_uint32 (ucast ?bits) @ put_uint32 (ucast (drop_bit 32 ?bits))"
  have ctx: "md5_total0 ctx = word_of_nat (length m)" "md5_total1 ctx = word_of_nat (length m div 2 ^ 32)"
    using assms by (auto simp: stands_for_def)
  have low: "push_bit 3 (md5_total0 ctx) = ucast ?bits"
    unfolding ctx length_words by (rule bit_word_eqI) (auto simp: bit_simps)
  have high: "drop_bit 29 (md5_total0 ctx) OR push_bit 3 (md5_total1 ctx) = ucast (drop_bit 32 ?bits)"
    unfolding ctx length_words by (rule bit_word_eqI) (auto simp: bit_simps)
  have pad: "?pad = 0x80 # replicate ((119 - length m mod 64) mod 64) 0"
  proof (cases "length m mod 64 < 56")
    case True
    then have "(119 - length m mod 64) mod 64 = 55 - length m mod 64" by (simp add: le_mod_geq)
    then show ?thesis using True by (simp add: md5_padding_def take_Cons' min_def)
  next
    case False
    moreover have "length m mod 64 < 64" by simp
    ultimately have "(119 - length m mod 64) mod 64 = 119 - length m mod 64" by simp
    moreover have "119 - length m mod 64 \<le> 63" using False by simp
    ultimately show ?thesis using False \<open>length m mod 64 < 64\<close> by (simp add: md5_padding_def take_Cons' min_def)
  qed
  have whole: "(m @ ?pad) @ ?msglen = md5_pad m"
    by (simp only: pad md5_pad_def Let_def append_assoc append_Cons)
  have "stands_for (md5_update (md5_update ctx ?pad) ?msglen) ((m @ ?pad) @ ?msglen)"
    by (intro stands_for_update assms) (simp_all add: md5_padding_def put_uint32_def)
  then have s: "md5_blocks md5_start_state (md5_pad m) = (md5_digest (md5_update (md5_update ctx ?pad) ?msglen), take (length (md5_pad m) mod 64) (md5_buffer (md5_update (md5_update ctx ?pad) ?msglen)))"
    unfolding whole by (simp add: stands_for_def)
  have "length (md5_pad m) mod 64 = 0"
  proof -
    have "length (md5_pad m) = length m + length ?pad + 8" by (simp add: whole [symmetric] put_uint32_def del: length_take)
    moreover have "length ?pad = (if length m mod 64 < 56 then 56 - length m mod 64 else 120 - length m mod 64)"
      by (simp add: md5_padding_def)
    ultimately show ?thesis using pad_multiple [of "length m"] by (simp only:)
  qed
  from md5_blocks_fold [OF this, of md5_start_state] s
  have "foldl md5_process md5_start_state (blocks64 (md5_pad m)) = md5_digest (md5_update (md5_update ctx ?pad) ?msglen)" by simp
  moreover have "unat (md5_total0 ctx AND 0x3F) = length m mod 64" by (simp add: ctx low_six_bits)
  ultimately show ?thesis
    by (simp only: md5_finish_def md5_spec_def Let_def low high)
qed

lemma stands_for_feeds:
  assumes "stands_for ctx m" "\<forall>c \<in> set chunks. length c < 2 ^ 32"
  shows "stands_for (foldl (\<lambda>ctx c. MD5Summer_feed c ctx) ctx chunks) (m @ map c2b (concat chunks))"
  using assms
proof (induction chunks arbitrary: ctx m)
  case (Cons c chunks)
  have "stands_for (MD5Summer_feed c ctx) (m @ map c2b c)"
    using Cons.prems by (auto simp: MD5Summer_feed_def intro: stands_for_update)
  from Cons.IH [OF this] Cons.prems show ?case by simp
qed simp

text \<open>
  Property C35. Feeding a message to the summer in any pieces, and then asking for the digest, gives
  the digest of the whole message: the message is padded to whole blocks with its length in bits,
  and the block function is folded over them. The buffer, the carry of the length counters and the
  padding of the last block refine that specification.
\<close>

theorem md5_feeds_refine:
  assumes "length mem = 64" "\<forall>c \<in> set chunks. length c < 2 ^ 32"
  shows "MD5Summer_get (foldl (\<lambda>ctx c. MD5Summer_feed c ctx) (md5_starts mem) chunks) =
    map b2c (md5_spec (map c2b (concat chunks)))"
  using stands_for_finish [OF stands_for_feeds [OF stands_for_starts [OF assms(1)] assms(2)]]
  by (simp add: MD5Summer_get_def)

lemma md5_feeds_refine_witness:
  "MD5Summer_get (foldl (\<lambda>ctx c. MD5Summer_feed c ctx) (md5_starts (replicate 64 7)) [''message '', [], ''digest'']) =
    map b2c (md5_spec (map c2b ''message digest''))"
  by (subst md5_feeds_refine) simp_all

lemma pdns_md5sum_spec:
  assumes "length mem = 64" "length input < 2 ^ 32"
  shows "pdns_md5sum mem input = map b2c (md5_spec (map c2b input))"
  using stands_for_feeds [OF stands_for_starts [OF assms(1)], of "[input]"] assms(2)
  by (simp add: pdns_md5sum_def MD5Summer_get_def stands_for_finish)

definition hmac_md5_spec :: "byte list \<Rightarrow> byte list \<Rightarrow> byte list" where
  "hmac_md5_spec key text =
     (let k = take 64 key @ replicate (64 - length key) 0
      in md5_spec (map (\<lambda>b. b XOR 0x5c) k @ md5_spec (map (\<lambda>b. b XOR 0x36) k @ text)))"

text \<open>
  The keyed digest is that of RFC 2104 for keys of at most a block: the digest of the
  outer pad and the digest of the inner pad and the text, whatever the buffers of the summers held.
  Longer keys are cut to a block, where the RFC has them hashed.
\<close>

theorem hmac_md5_correct:
  assumes "length mem1 = 64" "length mem2 = 64" "length text < 2 ^ 32"
  shows "calculateMD5HMAC mem1 mem2 key text = map b2c (hmac_md5_spec (map c2b key) (map c2b text))"
proof -
  have pad: "map c2b (hmac_pad x key) = map (\<lambda>b. b XOR x) (take 64 (map c2b key) @ replicate (64 - length key) 0)" for x
    by (rule nth_equalityI) (auto simp: hmac_pad_def nth_append)
  have len: "length (hmac_pad x key) < 2 ^ 32" for x by (simp add: hmac_pad_def)
  have feed: "MD5Summer_get (MD5Summer_feed b (MD5Summer_feed a (md5_starts mem))) = map b2c (md5_spec (map c2b a @ map c2b b))"
    if "length mem = 64" "length a < 2 ^ 32" "length b < 2 ^ 32" for mem a b
    using stands_for_finish [OF stands_for_feeds [OF stands_for_starts [OF that(1)], of "[a, b]"]] that(2,3)
    by (simp add: MD5Summer_get_def)
  show ?thesis
    unfolding calculateMD5HMAC_def Let_def feed [OF assms(1) len assms(3)]
    by (subst feed [OF assms(2) len]) (simp_all add: md5_spec_short [simplified] pad hmac_md5_spec_def Let_def o_def)
qed

lemma hmac_md5_correct_witness:
  "calculateMD5HMAC (replicate 64 1) (replicate 64 2) ''key'' ''text'' =
    map b2c (hmac_md5_spec (map c2b ''key'') (map c2b ''text''))"
  by (rule hmac_md5_correct) simp_all

end
