(* ===== verification/WriterFrame.thy ===== *)
theory WriterFrame
  imports ParserProps
begin

text \<open>
  What writing leaves alone: data is only ever appended to the record being written, and only
  \<open>startRecord\<close> and \<open>commit\<close> move anything into the packet.
\<close>

definition appended :: "DNSPacketWriter \<Rightarrow> DNSPacketWriter \<Rightarrow> bool" where
  "appended pw pw' \<longleftrightarrow> (\<exists>bs lmap. pw' = pw\<lparr> pw_record := pw_record pw @ bs, pw_labelmap := lmap \<rparr>)"

named_theorems frame_intros \<open>steps that only append to the record\<close>

lemma appended_refl [frame_intros]: "appended pw pw"
  unfolding appended_def by (intro exI [of _ "[]"] exI [of _ "pw_labelmap pw"]) simp

lemma appended_trans: "appended pw pw' \<Longrightarrow> appended pw' pw'' \<Longrightarrow> appended pw pw''"
  unfolding appended_def by force

lemma appended_pw_append [frame_intros]:
  assumes "appended pw pw'"
  shows "appended pw (pw_append bs pw')"
proof -
  obtain as lmap where "pw' = pw\<lparr> pw_record := pw_record pw @ as, pw_labelmap := lmap \<rparr>"
    using assms by (auto simp: appended_def)
  then show ?thesis unfolding appended_def pw_append_def by (intro exI [of _ "as @ bs"] exI [of _ lmap]) simp
qed

lemma appended_ints [frame_intros]:
  assumes "appended pw pw'"
  shows "appended pw (pw_xfr8BitInt a pw')" "appended pw (pw_xfr16BitInt b pw')" "appended pw (pw_xfr32BitInt c pw')"
    "appended pw (pw_xfr48BitInt d pw')" "appended pw (pw_xfrIP c pw')" "appended pw (pw_xfrBlob s pw')"
  using assms
  by (simp_all add: pw_xfr8BitInt_def pw_xfr16BitInt_def pw_xfr32BitInt_def pw_xfr48BitInt_def pw_xfrIP_def pw_xfrBlob_def appended_pw_append)

lemma xfrLabel_parts_appends:
  "xfrLabel_parts label compress un parts rec lmap pos = Inr (rec', lmap', j) \<Longrightarrow> \<exists>bs. rec' = rec @ bs"
proof (induction label compress un parts rec lmap pos rule: xfrLabel_parts.induct)
  case (2 label compress un b e parts rec lmap pos)
  then show ?case by (fastforce simp: Let_def split: option.splits if_splits)
qed simp

lemma appended_xfrLabel: "pw_xfrLabel s c pw = Inr pw' \<Longrightarrow> appended pw pw'"
proof -
  assume a: "pw_xfrLabel s c pw = Inr pw'"
  show ?thesis
  proof (cases "(if pw_lowerCase pw then toLower s else s) = ''.''")
    case True
    then have "pw' = pw\<lparr> pw_record := pw_record pw @ [0] \<rparr>" using a by (auto simp: pw_xfrLabel_def Let_def split: if_splits)
    then show ?thesis unfolding appended_def by (intro exI [of _ "[0]"] exI [of _ "pw_labelmap pw"]) simp
  next
    case False
    then obtain l c' un parts pos rec lmap j where
      "xfrLabel_parts l c' un parts (pw_record pw) (pw_labelmap pw) pos = Inr (rec, lmap, j)"
      "pw' = pw\<lparr> pw_record := (if j then rec else rec @ [0]), pw_labelmap := lmap \<rparr>"
      using a by (auto simp: pw_xfrLabel_def Let_def split: prod.splits)
    moreover obtain bs where "rec = pw_record pw @ bs" using xfrLabel_parts_appends calculation(1) by blast
    ultimately show ?thesis unfolding appended_def
      by (intro exI [of _ "if j then bs else bs @ [0]"] exI [of _ lmap]) simp
  qed
qed

lemma appended_xfrText: "pw_xfrText s pw = Inr pw' \<Longrightarrow> appended pw pw'"
  by (auto simp: pw_xfrText_def split: if_splits intro!: frame_intros)

lemma appended_packet_write: "packet_write f pw = Inr pw' \<Longrightarrow> appended pw pw'"
  by (cases f) (auto intro!: frame_intros dest: appended_xfrLabel appended_xfrText)

lemma appended_fields: "packet_write_fields fs pw = Inr pw' \<Longrightarrow> appended pw pw'"
proof (induction fs arbitrary: pw)
  case (Cons f fs)
  then show ?case using appended_packet_write appended_trans by fastforce
qed (simp add: appended_refl)

lemma appended_xfrBlobs [frame_intros]: "appended pw pw' \<Longrightarrow> appended pw (xfrBlobs bs pw')"
  by (simp add: xfrBlobs_append appended_pw_append)

lemma appended_toPacket: "toPacket x pw = Inr pw' \<Longrightarrow> appended pw pw'"
proof (cases x)
  case (RConv c fs)
  then show "toPacket x pw = Inr pw' \<Longrightarrow> ?thesis" by (simp add: appended_fields)
next
  case (RNSEC r)
  then show "toPacket x pw = Inr pw' \<Longrightarrow> ?thesis"
    by (auto simp: NSEC_toPacket_def dest!: appended_xfrLabel intro!: frame_intros)
qed (auto simp: NSEC3_toPacket_def NSEC3PARAM_toPacket_def LOC_toPacket_def Unknown_toPacket_def Let_def split: if_splits intro!: frame_intros)

lemma appendedD:
  assumes "appended pw pw'"
  shows "pw_content pw' = pw_content pw" "pw_stuff pw' = pw_stuff pw" "pw_rollbackmarker pw' = pw_rollbackmarker pw"
    "pw_recordplace pw' = pw_recordplace pw" "pw_recordqtype pw' = pw_recordqtype pw" "pw_qname pw' = pw_qname pw"
    "pw_sor pw' = pw_sor pw" "pw_recordqclass pw' = pw_recordqclass pw" "pw_recordttl pw' = pw_recordttl pw"
  using assms by (auto simp: appended_def)

text \<open>\<open>startRecord\<close>, after the commit of the record before it, adds an owner to the packet.\<close>

definition committed :: "DNSPacketWriter \<Rightarrow> DNSPacketWriter result" where
  "committed pw = (if pw_record pw \<noteq> [] then pw_commit pw else Inr pw)"

lemma startRecord_frame:
  assumes "pw_startRecord name qt ttl cl place pw = Inr pw'"
  obtains pw0 owner where "committed pw = Inr pw0" "pw_content pw' = pw_content pw0 @ owner" "pw_record pw' = []"
    "pw_stuff pw' = 10" "pw_rollbackmarker pw' = length (pw_content pw0) mod 65536" "pw_recordplace pw' = place"
    "pw_qname pw' = pw_qname pw0" "pw_recordqtype pw' = qt" "name = [] \<Longrightarrow> length owner \<le> 2"
proof -
  obtain pw0 where pw0: "committed pw = Inr pw0" using assms by (auto simp: pw_startRecord_def committed_def)
  have r0: "pw_record pw0 = []" using pw0 by (auto simp: committed_def pw_commit_def Let_def split: if_splits)
  let ?pw = "pw0\<lparr> pw_recordqname := name, pw_recordqtype := qt, pw_recordqclass := cl, pw_recordttl := ttl, pw_recordplace := place,
      pw_stuff := 0, pw_rollbackmarker := length (pw_content pw0) mod 65536 \<rparr>"
  show thesis
  proof (cases "pdns_iequals (pw_qname pw0) name")
    case True
    then show thesis using that [OF pw0, of "[0xc0, 0x0c]"] assms pw0 r0
      by (auto simp: pw_startRecord_def committed_def Let_def)
  next
    case False
    then obtain pw1 where x: "pw_xfrLabel name True ?pw = Inr pw1"
      and pw': "pw' = pw1\<lparr> pw_content := pw_content pw1 @ pw_record pw1, pw_record := [], pw_stuff := 10,
          pw_sor := (length (pw_content pw1 @ pw_record pw1) + 10) mod 65536 \<rparr>"
      using assms pw0 by (auto simp: pw_startRecord_def committed_def Let_def)
    have "name = [] \<Longrightarrow> length (pw_record pw1) \<le> 2"
      using x r0 by (auto simp: pw_xfrLabel_def Let_def toLower_def labeltokUnescape_def labeltokUnescape_loop.simps split: if_splits)
    then show thesis using that [OF pw0, of "pw_record pw1"] appendedD [OF appended_xfrLabel [OF x]] pw' by simp
  qed
qed

lemma commit_content:
  assumes "pw_commit pw = Inr pw'" "12 \<le> length (pw_content pw)"
  obtains h where "pw_content pw' = update_header (count_field (pw_recordplace pw)) (pw_content pw) @ h @ pw_record pw"
    "length h = 10" "pw_record pw' = []" "pw_stuff pw' = 0"
proof -
  let ?drh = "\<lparr> rh_type = pw_recordqtype pw, rh_class = pw_recordqclass pw, rh_ttl = pw_recordttl pw,
     rh_clen = word_of_nat (length (pw_record pw)) \<rparr>"
  have pw': "pw' = pw\<lparr> pw_content := update_header (count_field (pw_recordplace pw)) (pw_content pw @ bytes_of_dnsrecordheader ?drh @ pw_record pw),
      pw_stuff := 0, pw_record := [] \<rparr>"
    using assms(1) by (auto simp: pw_commit_def Let_def split: if_splits)
  have "dnsheader_of (pw_content pw @ x) = dnsheader_of (pw_content pw)" for x
    using dnsheader_of_take [of "length (pw_content pw)" "pw_content pw" x] assms(2) by simp
  then have "update_header f (pw_content pw @ x) = update_header f (pw_content pw) @ x" for f x
    using assms(2) by (simp add: update_header_def)
  then show thesis using that [of "bytes_of_dnsrecordheader ?drh"] pw' by simp
qed

lemma length_update_header [simp]: "12 \<le> length c \<Longrightarrow> length (update_header f c) = length c"
  by (simp add: update_header_def)

end
