(* ===== verification/Tsig.thy ===== *)
theory Tsig
  imports WriterFrame Md5
begin

text \<open>
  Transaction signatures: what is signed, the signature of a packet that is being written, and the
  message a signed packet is checked against (\<open>dnssecinfra.cc\<close>).
\<close>

record TSIGRecordContent =
  ts_algoName :: string
  ts_time :: u64
  ts_fudge :: u16
  ts_mac :: string
  ts_origID :: u16
  ts_eRcode :: u16
  ts_otherData :: string

definition tsig_content :: "TSIGRecordContent \<Rightarrow> content" where
  "tsig_content trc = RConv TSIG_conv
     [FLabel False (ts_algoName trc), F48 (ts_time trc), F16 (ts_fudge trc), FSizedBlob (ts_mac trc),
      F16 (ts_origID trc), F16 (ts_eRcode trc), FSizedBlob (ts_otherData trc)]"

text \<open>The members of a record content, as its class has them.\<close>

fun member_text :: "field \<Rightarrow> string" where
  "member_text (FLabel c s) = s"
| "member_text (FSizedBlob s) = s"
| "member_text _ = []"

fun member_number :: "field \<Rightarrow> u64" where
  "member_number (F16 w) = ucast w"
| "member_number (F48 w) = w"
| "member_number _ = 0"

fun tsig_of_content :: "content \<Rightarrow> TSIGRecordContent option" where
  "tsig_of_content (RConv c fs) =
     (if c = TSIG_conv \<and> length fs = 7
      then Some \<lparr> ts_algoName = member_text (fs ! 0), ts_time = member_number (fs ! 1), ts_fudge = ucast (member_number (fs ! 2)),
                  ts_mac = member_text (fs ! 3), ts_origID = ucast (member_number (fs ! 4)), ts_eRcode = ucast (member_number (fs ! 5)),
                  ts_otherData = member_text (fs ! 6) \<rparr>
      else None)"
| "tsig_of_content _ = None"

lemma ucast_back: "(ucast (ucast (w :: u16) :: u64) :: u16) = w"
  by (rule bit_word_eqI) (simp add: bit_simps)

lemma tsig_of_tsig_content [simp]: "tsig_of_content (tsig_content trc) = Some trc"
  by (simp add: tsig_content_def ucast_back)

text \<open>
  A previous signature is signed with its length. The variables of the record are signed as a writer
  of its own writes them; the time is cut to 32 bits.
\<close>

definition signed_previous :: "string \<Rightarrow> byte list" where
  "signed_previous previous =
     (if previous = [] then [] else be_bytes16 (word_of_nat (length previous)) @ map c2b previous)"

definition signed_variables :: "DNSPacketWriter \<Rightarrow> string \<Rightarrow> TSIGRecordContent \<Rightarrow> bool \<Rightarrow> byte list result" where
  "signed_variables mem keyname trc timersonly =
     bindE (DNSPacketWriter_init mem [] 0 1 0) (\<lambda>dw.
     bindE (if \<not> timersonly
            then bindE (pw_xfrLabel keyname False dw) (\<lambda>dw. pw_xfrLabel (ts_algoName trc) False (pw_xfr32BitInt 0 (pw_xfr16BitInt 0xff dw)))
            else Inr dw) (\<lambda>dw.
       let now = (ucast (ts_time trc) :: u32);
           dw = pw_xfr16BitInt (ts_fudge trc) (pw_xfr48BitInt (ucast now) dw);
           dw = (if \<not> timersonly
                 then pw_xfr16BitInt (word_of_nat (length (ts_otherData trc))) (pw_xfr16BitInt (ts_eRcode trc) dw) else dw)
       in Inr (pw_record dw)))"

text \<open>
  The message of a packet with a signature at \<open>tsigOffset\<close>: without the record, and with the low
  byte of the count of additional records decreased.
\<close>

definition makeTSIGMessageFromTSIGPacket ::
    "DNSPacketWriter \<Rightarrow> byte list \<Rightarrow> nat \<Rightarrow> string \<Rightarrow> TSIGRecordContent \<Rightarrow> string \<Rightarrow> bool \<Rightarrow> nat \<Rightarrow> byte list result" where
  "makeTSIGMessageFromTSIGPacket mem opacket tsigOffset keyname trc previous timersonly dnsHeaderOffset =
     (let packet = take tsigOffset opacket @ replicate (tsigOffset - length opacket) 0; i = dnsHeaderOffset + 12 - 1
      in if length packet \<le> i then Inl UndefinedBehaviour
         else let packet = packet[i := packet ! i - 1]
              in bindE (signed_variables mem keyname trc timersonly) (\<lambda>signRecord.
                   Inr (signed_previous previous @ packet @ signRecord)))"

text \<open>
  \<open>addTSIG\<close> gives the record its signature and writes it. The record is changed even if writing it
  fails. \<open>mem\<close>, \<open>mem1\<close> and \<open>mem2\<close> are the memory of the writer and of the summers.
\<close>

definition addTSIG :: "DNSPacketWriter \<Rightarrow> byte list \<Rightarrow> byte list \<Rightarrow> DNSPacketWriter \<Rightarrow> TSIGRecordContent \<Rightarrow> string \<Rightarrow> string
    \<Rightarrow> string \<Rightarrow> bool \<Rightarrow> TSIGRecordContent \<times> DNSPacketWriter result" where
  "addTSIG mem mem1 mem2 pw trc tsigkeyname tsigsecret tsigprevious timersonly =
     (case signed_variables mem tsigkeyname trc timersonly of
        Inl e \<Rightarrow> (trc, Inl e)
      | Inr signRecord \<Rightarrow>
          let toSign = signed_previous tsigprevious @ pw_content pw @ signRecord;
              trc = trc\<lparr> ts_mac := calculateMD5HMAC mem1 mem2 tsigsecret (map b2c toSign) \<rparr>
          in (trc, bindE (pw_startRecord tsigkeyname qt_TSIG 0 0xff ADDITIONAL pw) (\<lambda>pw.
                   bindE (toPacket (tsig_content trc) pw) pw_commit)))"

subsection \<open>A signature is checked against what was signed\<close>

lemma signed_variables_mac [simp]: "signed_variables mem keyname (trc\<lparr> ts_mac := mac \<rparr>) timersonly = signed_variables mem keyname trc timersonly"
  by (simp add: signed_variables_def cong: if_cong)

text \<open>Of the header, only the low byte of the count of additional records grows.\<close>

lemma be_bytes16_inc:
  fixes w :: u16
  assumes "(ucast w :: byte) \<noteq> 255"
  shows "be_bytes16 (w + 1) = [ucast (drop_bit 8 w), ucast w + 1]"
proof -
  have low: "unat (ucast w :: byte) = unat w mod 256"
    by (simp add: unsigned_ucast_eq take_bit_eq_mod)
  have n: "unat w mod 256 \<noteq> 255"
  proof
    assume "unat w mod 256 = 255"
    then have "unat (ucast w :: byte) = unat (255 :: byte)" by (simp add: low)
    with assms show False by (simp only: word_unat_eq_iff)
  qed
  have "unat w < 65536" using unsigned_less [of w] by simp
  then have "unat w + 1 < 65536" using n by (cases "unat w = 65535") simp_all
  then have u: "unat (w + 1) = unat w + 1" by (simp add: unat_word_ariths)
  moreover have "(unat w + 1) div 256 = unat w div 256"
    using n by (simp add: div_Suc mod_Suc)
  moreover have d: "unat (drop_bit 8 v) = unat v div 256" for v :: u16
    by (simp add: drop_bit_eq_div unat_div_distrib)
  ultimately have "unat (drop_bit 8 (w + 1)) = unat (drop_bit 8 w)" by (simp only: d)
  then have hi: "drop_bit 8 (w + 1) = drop_bit 8 w" by (simp only: word_unat_eq_iff)
  have "(ucast (w + 1) :: byte) = ucast w + 1"
  proof -
    have "(ucast v :: byte) = word_of_nat (unat v)" for v :: u16 by simp
    then show ?thesis using u by (metis of_nat_add of_nat_1)
  qed
  then show ?thesis by (simp add: be_bytes16_def hi)
qed

lemma le_bytes16_ntohs: "le_bytes16 (ntohs w) = be_bytes16 w"
  by (simp add: le_bytes16_def be_bytes16_def) (intro conjI; rule bit_word_eqI; simp add: ntohs_def bit_simps)

lemma count_additional:
  fixes h :: dnsheader
  assumes "bytes_of_dnsheader h ! 11 \<noteq> 255"
  shows "(bytes_of_dnsheader (count_field ADDITIONAL h))[11 := bytes_of_dnsheader (count_field ADDITIONAL h) ! 11 - 1] = bytes_of_dnsheader h"
proof -
  let ?w = "ntohs (hdr_arcount h)"
  have w: "be_bytes16 ?w = le_bytes16 (hdr_arcount h)" by (simp add: le_bytes16_ntohs [symmetric])
  then have "(ucast ?w :: byte) \<noteq> 255" using assms
    by (simp add: be_bytes16_def le_bytes16_def bytes_of_dnsheader_def)
  from be_bytes16_inc [OF this]
  have "le_bytes16 (ntohs (?w + 1)) = [ucast (drop_bit 8 ?w), ucast ?w + 1]" by (simp add: le_bytes16_ntohs)
  then show ?thesis using w
    by (simp add: bytes_of_dnsheader_def count_field_def be_bytes16_def le_bytes16_def)
qed

text \<open>When the low byte wraps around, the byte before it has grown, and is left as it is.\<close>

lemma be_bytes16_wrap:
  fixes w :: u16
  assumes "(ucast w :: byte) = 255"
  shows "be_bytes16 (w + 1) = [ucast (drop_bit 8 w) + 1, 0]"
proof -
  have w: "w = be_val16 (ucast (drop_bit 8 w)) 255" using be_val_bytes(1) [of w] assms by simp
  have "be_bytes16 (be_val16 h 255 + 1) = [h + 1, 0]" for h
  proof -
    have "unat (be_val16 h 255) = unat h * 256 + 255" by (simp add: unat_be_val16)
    moreover have "unat (be_val16 h 255 + 1) = (unat (be_val16 h 255) + 1) mod 2 ^ 16"
      using unat_word_ariths(1) [of "be_val16 h 255" 1] by simp
    ultimately have "unat (be_val16 h 255 + 1) = (unat h * 256 + 256) mod 65536" by (simp add: add.commute)
    moreover have "unat (h + 1) = (unat h + 1) mod 2 ^ 8" using unat_word_ariths(1) [of h 1] by simp
    moreover have "(n * 256 + 256) mod 65536 = ((n + 1) mod 256) * 256" for n :: nat
      using mult_mod_left [of "n + 1" 256 256] by (simp add: add.commute)
    moreover have "unat (be_val16 (h + 1) 0) = unat (h + 1) * 256" by (simp add: unat_be_val16)
    ultimately have "unat (be_val16 h 255 + 1) = unat (be_val16 (h + 1) 0)" by simp
    then have "be_val16 h 255 + 1 = be_val16 (h + 1) 0" by (simp only: word_unat_eq_iff)
    then show ?thesis by (simp add: be_bytes_val)
  qed
  then show ?thesis using w by metis
qed

lemma count_additional_wrap:
  fixes h :: dnsheader
  assumes "bytes_of_dnsheader h ! 11 = 255"
  shows "(bytes_of_dnsheader (count_field ADDITIONAL h))[11 := bytes_of_dnsheader (count_field ADDITIONAL h) ! 11 - 1] =
    (bytes_of_dnsheader h)[10 := bytes_of_dnsheader h ! 10 + 1]"
proof -
  let ?w = "ntohs (hdr_arcount h)"
  have w: "be_bytes16 ?w = le_bytes16 (hdr_arcount h)" by (simp add: le_bytes16_ntohs [symmetric])
  then have l: "(ucast ?w :: byte) = 255" using assms
    by (simp add: be_bytes16_def le_bytes16_def bytes_of_dnsheader_def)
  from be_bytes16_wrap [OF l]
  have "le_bytes16 (ntohs (?w + 1)) = [ucast (drop_bit 8 ?w) + 1, 0]" by (simp add: le_bytes16_ntohs)
  then show ?thesis using w l
    by (simp add: bytes_of_dnsheader_def count_field_def be_bytes16_def le_bytes16_def)
qed

text \<open>The packet as its receiver sees it without the signature.\<close>

definition unsigned_packet :: "byte list \<Rightarrow> byte list" where
  "unsigned_packet c = (if c ! 11 = 255 then c[10 := c ! 10 + 1] else c)"

text \<open>What stands where the packet was, once the signature record is written behind it.\<close>

lemma signed_packet_start:
  assumes "pw_startRecord name qt ttl qclass ADDITIONAL pw = Inr pw1" "toPacket content pw1 = Inr pw2" "pw_commit pw2 = Inr pw'"
    and "12 \<le> length (pw_content pw)" "pw_record pw = []"
  shows "take (length (pw_content pw)) (pw_content pw') =
      bytes_of_dnsheader (count_field ADDITIONAL (dnsheader_of (pw_content pw))) @ drop 12 (pw_content pw)"
    "length (pw_content pw) \<le> length (pw_content pw')"
proof -
  let ?n = "length (pw_content pw)"
  have pw1: "pw_content pw1 = pw_content pw @ drop ?n (pw_content pw1)" "pw_recordplace pw1 = ADDITIONAL"
    using startRecord_frame [OF assms(1)] assms(5) by (metis append_eq_conv_conj committed_def sum.inject(2), metis)
  have pw2: "pw_content pw2 = pw_content pw1" "pw_recordplace pw2 = ADDITIONAL"
    using appendedD [OF appended_toPacket [OF assms(2)]] pw1(2) by simp_all
  have l1: "12 \<le> length (pw_content pw1)" using assms(4) by (subst pw1(1)) simp
  obtain tl where pw': "pw_content pw' = update_header (count_field ADDITIONAL) (pw_content pw1) @ tl"
    using commit_content [OF assms(3)] l1 pw2 by metis
  have h1: "dnsheader_of (pw_content pw1) = dnsheader_of (pw_content pw)"
    using dnsheader_of_take [of ?n "pw_content pw" "drop ?n (pw_content pw1)"] assms(4) pw1(1) by simp
  have n1: "?n \<le> length (pw_content pw1)" by (subst pw1(1)) simp
  have "take ?n (pw_content pw1) = pw_content pw" by (subst pw1(1)) simp
  then have "take (?n - 12) (drop 12 (pw_content pw1)) = drop 12 (pw_content pw)" by (metis drop_take)
  then show "take ?n (pw_content pw') = bytes_of_dnsheader (count_field ADDITIONAL (dnsheader_of (pw_content pw))) @ drop 12 (pw_content pw)"
    using assms(4) l1 n1 by (simp add: pw' update_header_def h1)
  show "?n \<le> length (pw_content pw')" using n1 l1 by (simp add: pw')
qed

text \<open>The receiver takes one off the low byte of the count that commit raised.\<close>

lemma count_taken_off:
  assumes "12 \<le> length p"
  defines "q \<equiv> bytes_of_dnsheader (count_field ADDITIONAL (dnsheader_of p)) @ drop 12 p"
  shows "q[11 := q ! 11 - 1] = unsigned_packet p"
proof -
  have top: "bytes_of_dnsheader (dnsheader_of p) = take 12 p"
    using dnsheader_of_take [of 12 p "[]"] bytes_of_dnsheader_of [of "take 12 p"] assms(1) by simp
  show ?thesis
  proof (cases "p ! 11 = 255")
    case True
    then have "bytes_of_dnsheader (dnsheader_of p) ! 11 = 255" using top by simp
    note wrap = count_additional_wrap [OF this]
    have "(take 12 p)[10 := z] @ drop 12 p = p[10 := z]" for z
      using list_update_append1 [of 10 "take 12 p" "drop 12 p" z] assms(1) by simp
    then show ?thesis using wrap True
      by (simp add: list_update_append nth_append top unsigned_packet_def q_def)
  next
    case False
    then have "bytes_of_dnsheader (dnsheader_of p) ! 11 \<noteq> 255" using top by simp
    from count_additional [OF this] False show ?thesis
      by (simp add: list_update_append nth_append top unsigned_packet_def q_def)
  qed
qed

lemma wrapped_count_shows: "12 \<le> length p \<Longrightarrow> p ! 11 = 255 \<Longrightarrow> unsigned_packet p \<noteq> p"
proof
  assume "12 \<le> length p" "p ! 11 = 255" "unsigned_packet p = p"
  then show False using nth_list_update_eq [of 10 p "p ! 10 + 1"] by (simp add: unsigned_packet_def)
qed

text \<open>
  Property C19. The receiver of a signed packet always puts together a message, from the packet without its
  signature, from the signature record and from the signature before. It is the message that was signed, so that
  the digest with the same key comes out as the signature, if the low byte of the count of additional records
  was not 255. If it was, its wrap-around is not undone, and the message differs in the byte before it.
\<close>

theorem tsig_accepted:
  assumes "addTSIG mem mem1 mem2 pw trc keyname secret previous timersonly = (trc', Inr pw')"
    and "12 \<le> length (pw_content pw)" "pw_record pw = []"
    and "length mem1 = 64" "length mem2 = 64" "length mem3 = 64" "length mem4 = 64"
  shows "\<exists>v. signed_variables mem keyname trc timersonly = Inr v \<and>
    makeTSIGMessageFromTSIGPacket mem (pw_content pw') (length (pw_content pw)) keyname trc' previous timersonly 0 =
      Inr (signed_previous previous @ unsigned_packet (pw_content pw) @ v) \<and>
    (if pw_content pw ! 11 = 255 then unsigned_packet (pw_content pw) \<noteq> pw_content pw
     else length (signed_previous previous @ pw_content pw @ v) < 2 ^ 32 \<longrightarrow>
       calculateMD5HMAC mem3 mem4 secret (map b2c (signed_previous previous @ unsigned_packet (pw_content pw) @ v)) = ts_mac trc')"
proof -
  let ?n = "length (pw_content pw)"
  obtain v where v: "signed_variables mem keyname trc timersonly = Inr v"
    using assms(1) by (auto simp: addTSIG_def split: sum.splits)
  let ?sign = "signed_previous previous @ pw_content pw @ v"
  have trc': "trc' = trc\<lparr> ts_mac := calculateMD5HMAC mem1 mem2 secret (map b2c ?sign) \<rparr>"
    using assms(1) v by (simp add: addTSIG_def Let_def)
  obtain pw1 pw2 where w: "pw_startRecord keyname qt_TSIG 0 0xff ADDITIONAL pw = Inr pw1"
    "toPacket (tsig_content trc') pw1 = Inr pw2" "pw_commit pw2 = Inr pw'"
    using assms(1) v trc' by (auto simp: addTSIG_def Let_def)
  note cut = signed_packet_start [OF w assms(2,3)]
  have "makeTSIGMessageFromTSIGPacket mem (pw_content pw') ?n keyname trc' previous timersonly 0 =
      Inr (signed_previous previous @ unsigned_packet (pw_content pw) @ v)"
    using count_taken_off [OF assms(2)] cut assms(2) v trc' by (simp add: makeTSIGMessageFromTSIGPacket_def Let_def)
  moreover have "calculateMD5HMAC mem3 mem4 secret (map b2c (signed_previous previous @ unsigned_packet (pw_content pw) @ v)) = ts_mac trc'"
    if "pw_content pw ! 11 \<noteq> 255" "length ?sign < 2 ^ 32"
    using that assms(4-) by (simp add: trc' hmac_md5_correct unsigned_packet_def)
  ultimately show ?thesis using v wrapped_count_shows [OF assms(2)] by auto
qed

text \<open>A packet of a bare header, signed by a key with the name of the root.\<close>

definition example_tsig :: TSIGRecordContent where
  "example_tsig = \<lparr> ts_algoName = ''.'', ts_time = 1330000000, ts_fudge = 300, ts_mac = [], ts_origID = 7, ts_eRcode = 0, ts_otherData = [] \<rparr>"

lemma tsig_accepted_witness:
  "\<exists>trc pw message.
     addTSIG example_writer (replicate 64 1) (replicate 64 2) (example_writer\<lparr> pw_content := replicate 12 0, pw_record := [], pw_lowerCase := False \<rparr>)
       example_tsig ''.'' ''secret'' [] False = (trc, Inr pw) \<and>
     makeTSIGMessageFromTSIGPacket example_writer (pw_content pw) 12 ''.'' trc [] False 0 = Inr message \<and>
     calculateMD5HMAC (replicate 64 3) (replicate 64 4) ''secret'' (map b2c message) = ts_mac trc"
proof -
  let ?pw0 = "example_writer\<lparr> pw_content := replicate 12 0, pw_record := [], pw_lowerCase := False \<rparr>"
  have root: "pw_xfrLabel ''.'' c pw = Inr (pw\<lparr> pw_record := pw_record pw @ [0] \<rparr>)" if "\<not> pw_lowerCase pw" for c pw
    using that by (simp add: pw_xfrLabel_def)
  have empty: "pw_xfrLabel [] False pw = Inr (pw\<lparr> pw_record := pw_record pw @ [0] \<rparr>)" if "\<not> pw_lowerCase pw" for pw
    using that by (simp add: pw_xfrLabel_def labeltokUnescape_def labeltokUnescape_loop.simps toLower_def)
  obtain v where v: "signed_variables example_writer ''.'' example_tsig False = Inr v" and lv: "length v < 100"
    by (simp add: signed_variables_def DNSPacketWriter_init_def Let_def empty root pw_xfr16BitInt_def pw_xfr32BitInt_def
        pw_xfr48BitInt_def pw_append_def example_tsig_def)
  have w: "\<exists>pw. bindE (pw_startRecord ''.'' qt_TSIG 0 0xff ADDITIONAL ?pw0) (\<lambda>pw.
      bindE (toPacket (tsig_content (example_tsig\<lparr> ts_mac := mac \<rparr>)) pw) pw_commit) = Inr pw" for mac
    by (simp add: pw_startRecord_def Let_def root tsig_content_def example_tsig_def pw_commit_def
        pw_xfr16BitInt_def pw_xfr48BitInt_def pw_append_def pw_xfrBlob_def example_writer_def)
  let ?mac = "calculateMD5HMAC (replicate 64 1) (replicate 64 2) ''secret'' (map b2c (signed_previous [] @ pw_content ?pw0 @ v))"
  let ?trc = "example_tsig\<lparr> ts_mac := ?mac \<rparr>"
  obtain pw where "bindE (pw_startRecord ''.'' qt_TSIG 0 0xff ADDITIONAL ?pw0) (\<lambda>pw. bindE (toPacket (tsig_content ?trc) pw) pw_commit) = Inr pw"
    using w by blast
  then have a: "addTSIG example_writer (replicate 64 1) (replicate 64 2) ?pw0 example_tsig ''.'' ''secret'' [] False = (?trc, Inr pw)"
    by (simp add: addTSIG_def v Let_def)
  have "length (signed_previous [] @ pw_content ?pw0 @ v) < 2 ^ 32" using lv by (simp add: signed_previous_def)
  with tsig_accepted [OF a, of "replicate 64 3" "replicate 64 4"] v
  have "\<exists>message. makeTSIGMessageFromTSIGPacket example_writer (pw_content pw) 12 ''.'' ?trc [] False 0 = Inr message \<and>
      calculateMD5HMAC (replicate 64 3) (replicate 64 4) ''secret'' (map b2c message) = ts_mac ?trc" by simp
  with a show ?thesis by blast
qed

end
