(* ===== verification/DnsPacket.thy ===== *)
theory DnsPacket
  imports Tsig IpUtils Base64
begin

text \<open>
  Queries and replies: \<open>class DNSPacket\<close> of \<open>dnspacket.cc\<close>, from parsing a query to wrapping up
  the reply, with the shuffling of records of \<open>misc.cc\<close>.
\<close>

definition qt_A :: QType where "qt_A = 1"
definition qt_SOA :: QType where "qt_SOA = 6"
definition qt_PTR :: QType where "qt_PTR = 12"
definition qt_AAAA :: QType where "qt_AAAA = 28"
definition qt_ANY :: QType where "qt_ANY = 255"
definition qt_ADDR :: QType where "qt_ADDR = 259"
definition qt_AFSDB :: QType where "qt_AFSDB = 18"
definition qt_NS :: QType where "qt_NS = 2"
definition qt_CNAME :: QType where "qt_CNAME = 5"
definition qt_MX :: QType where "qt_MX = 15"
definition qt_TXT :: QType where "qt_TXT = 16"
definition qt_SRV :: QType where "qt_SRV = 33"

fun Place_num :: "Place \<Rightarrow> nat" where
  "Place_num QUESTION = 0"
| "Place_num ANSWER = 1"
| "Place_num AUTHORITY = 2"
| "Place_num ADDITIONAL = 3"

subsection \<open>State\<close>

record DNSPacket =
  dp_remote :: ComboAddress
  dp_qclass :: u16
  dp_d :: dnsheader
  dp_qtype :: QType
  dp_qdomain :: string
  dp_tcp :: bool
  dp_dnssecOk :: bool
  dp_havetsig :: bool
  dp_trc :: TSIGRecordContent
  dp_wrapped :: bool
  dp_compress :: bool
  dp_qlen :: u16
  dp_socket :: int
  dp_rawpacket :: "byte list"
  dp_maxreplylen :: int
  dp_ednsping :: string
  dp_wantsnsid :: bool
  dp_haveednssubnet :: bool
  dp_eso :: EDNSSubnetOpts
  dp_tsigsecret :: string
  dp_tsigkeyname :: string
  dp_tsigprevious :: string
  dp_tsigtimersonly :: bool
  dp_rrs :: "DNSResourceRecord list"
  dp_dt :: timeval

text \<open>The constructor; \<open>mem\<close> has what it leaves unset.\<close>

definition DNSPacket_init :: "DNSPacket \<Rightarrow> DNSPacket" where
  "DNSPacket_init mem = mem\<lparr> dp_remote := ComboAddress_default (ca_addr6 (dp_remote mem)) (ca_scope (dp_remote mem)),
     dp_eso := \<lparr> es_source = Netmask_default (es_source (dp_eso mem)), es_scope = Netmask_default (es_scope (dp_eso mem)) \<rparr>,
     dp_wrapped := False, dp_compress := True, dp_tcp := False, dp_wantsnsid := False,
     dp_haveednssubnet := False, dp_dnssecOk := False, dp_qdomain := [], dp_rawpacket := [], dp_ednsping := [],
     dp_tsigsecret := [], dp_tsigkeyname := [], dp_tsigprevious := [], dp_rrs := [],
     dp_trc := (dp_trc mem)\<lparr> ts_algoName := [], ts_mac := [], ts_otherData := [] \<rparr> \<rparr>"

definition DNSPacket_copy :: "DNSPacket \<Rightarrow> DNSPacket" where
  "DNSPacket_copy orig =
     \<lparr> dp_remote = dp_remote orig, dp_qclass = dp_qclass orig, dp_d = dp_d orig, dp_qtype = dp_qtype orig, dp_qdomain = dp_qdomain orig,
       dp_tcp = dp_tcp orig, dp_dnssecOk = dp_dnssecOk orig, dp_havetsig = dp_havetsig orig, dp_trc = dp_trc orig,
       dp_wrapped = dp_wrapped orig, dp_compress = dp_compress orig, dp_qlen = dp_qlen orig, dp_socket = dp_socket orig,
       dp_rawpacket = dp_rawpacket orig, dp_maxreplylen = dp_maxreplylen orig, dp_ednsping = dp_ednsping orig,
       dp_wantsnsid = dp_wantsnsid orig, dp_haveednssubnet = dp_haveednssubnet orig, dp_eso = dp_eso orig,
       dp_tsigsecret = dp_tsigsecret orig, dp_tsigkeyname = dp_tsigkeyname orig, dp_tsigprevious = dp_tsigprevious orig,
       dp_tsigtimersonly = dp_tsigtimersonly orig, dp_rrs = dp_rrs orig, dp_dt = dp_dt orig \<rparr>"

subsection \<open>The header and the records\<close>

definition setRcode :: "int \<Rightarrow> DNSPacket \<Rightarrow> DNSPacket" where
  "setRcode v p = p\<lparr> dp_d := (dp_d p)\<lparr> hdr_rcode := word_of_int v \<rparr> \<rparr>"

definition setAnswer :: "bool \<Rightarrow> DNSPacket \<Rightarrow> DNSPacket" where
  "setAnswer b p =
     (if b then p\<lparr> dp_rawpacket := replicate 12 0, dp_d := (dnsheader_of (replicate 12 0))\<lparr> hdr_qr := b \<rparr> \<rparr> else p)"

definition setA :: "bool \<Rightarrow> DNSPacket \<Rightarrow> DNSPacket" where
  "setA b p = p\<lparr> dp_d := (dp_d p)\<lparr> hdr_aa := b \<rparr> \<rparr>"

definition setID :: "u16 \<Rightarrow> DNSPacket \<Rightarrow> DNSPacket" where
  "setID i p = p\<lparr> dp_d := (dp_d p)\<lparr> hdr_id := i \<rparr> \<rparr>"

definition setRA :: "bool \<Rightarrow> DNSPacket \<Rightarrow> DNSPacket" where
  "setRA b p = p\<lparr> dp_d := (dp_d p)\<lparr> hdr_ra := b \<rparr> \<rparr>"

definition setRD :: "bool \<Rightarrow> DNSPacket \<Rightarrow> DNSPacket" where
  "setRD b p = p\<lparr> dp_d := (dp_d p)\<lparr> hdr_rd := b \<rparr> \<rparr>"

definition setOpcode :: "u16 \<Rightarrow> DNSPacket \<Rightarrow> DNSPacket" where
  "setOpcode opcode p = p\<lparr> dp_d := (dp_d p)\<lparr> hdr_opcode := ucast opcode \<rparr> \<rparr>"

definition clearRecords :: "DNSPacket \<Rightarrow> DNSPacket" where
  "clearRecords p = p\<lparr> dp_rrs := [] \<rparr>"

text \<open>Two records are taken for the same one by \<open>addRecord\<close>.\<close>

definition same_record :: "DNSResourceRecord \<Rightarrow> DNSResourceRecord \<Rightarrow> bool" where
  "same_record rr i \<longleftrightarrow>
     rr_qname rr = rr_qname i \<and> rr_qtype rr = rr_qtype i \<and> rr_content rr = rr_content i \<and>
     (rr_qtype rr \<noteq> qt_MX \<and> rr_qtype rr \<noteq> qt_SRV \<or> rr_priority rr = rr_priority i)"

definition addRecord :: "DNSResourceRecord \<Rightarrow> DNSPacket \<Rightarrow> DNSPacket" where
  "addRecord rr p =
     (if dp_compress p \<and> (\<exists>i \<in> set (dp_rrs p). same_record rr i) then p else p\<lparr> dp_rrs := dp_rrs p @ [rr] \<rparr>)"

definition rrcomp :: "DNSResourceRecord \<Rightarrow> DNSResourceRecord \<Rightarrow> bool" where
  "rrcomp A B \<longleftrightarrow> Place_num (rr_place A) < Place_num (rr_place B)"

definition getAPRecords :: "DNSPacket \<Rightarrow> DNSResourceRecord list" where
  "getAPRecords p = filter (\<lambda>i. rr_place i \<noteq> ADDITIONAL \<and> (rr_qtype i = qt_MX \<or> rr_qtype i = qt_NS \<or> rr_qtype i = qt_SRV)) (dp_rrs p)"

definition getAnswerRecords :: "DNSPacket \<Rightarrow> DNSResourceRecord list" where
  "getAnswerRecords p = filter (\<lambda>i. rr_place i \<noteq> ADDITIONAL) (dp_rrs p)"

definition setCompress :: "bool \<Rightarrow> DNSPacket \<Rightarrow> DNSPacket" where
  "setCompress compress p = p\<lparr> dp_compress := compress \<rparr>"

definition couldBeCached :: "DNSPacket \<Rightarrow> bool" where
  "couldBeCached p \<longleftrightarrow> dp_ednsping p = [] \<and> \<not> dp_wantsnsid p \<and> dp_qclass p = 1"

definition getMinTTL :: "DNSPacket \<Rightarrow> u32" where
  "getMinTTL p = foldl (\<lambda>minttl rr. if rr_ttl rr < minttl then rr_ttl rr else minttl) 0xFFFFFFFF (dp_rrs p)"

text \<open>\<open>op\<close> goes into a bit field; \<open>rnd\<close> is the random number.\<close>

definition setQuestion :: "u16 \<Rightarrow> int \<Rightarrow> string \<Rightarrow> int \<Rightarrow> DNSPacket \<Rightarrow> DNSPacket" where
  "setQuestion rnd op qd newqtype p =
     p\<lparr> dp_d := (dnsheader_of (replicate 12 0))\<lparr> hdr_id := rnd, hdr_rd := False, hdr_tc := False, hdr_aa := False, hdr_qr := False,
          hdr_qdcount := 1, hdr_ancount := 0, hdr_arcount := 0, hdr_nscount := 0, hdr_opcode := word_of_int op \<rparr>,
        dp_qdomain := qd, dp_qtype := word_of_int newqtype \<rparr>"

definition getMaxReplyLen :: "DNSPacket \<Rightarrow> nat" where
  "getMaxReplyLen p = unat (word_of_int (dp_maxreplylen p) :: u32)"

definition setMaxReplyLen :: "int \<Rightarrow> DNSPacket \<Rightarrow> DNSPacket" where
  "setMaxReplyLen bytes p = p\<lparr> dp_maxreplylen := bytes \<rparr>"

definition getRealRemote :: "DNSPacket \<Rightarrow> Netmask" where
  "getRealRemote p = (if dp_haveednssubnet p then es_source (dp_eso p) else Netmask_of_address (dp_remote p) 0xff)"

definition commitD :: "DNSPacket \<Rightarrow> DNSPacket" where
  "commitD p = p\<lparr> dp_rawpacket := bytes_of_dnsheader (dp_d p) @ drop 12 (dp_rawpacket p) \<rparr>"

definition setTSIGDetails :: "TSIGRecordContent \<Rightarrow> string \<Rightarrow> string \<Rightarrow> string \<Rightarrow> bool \<Rightarrow> DNSPacket \<Rightarrow> DNSPacket" where
  "setTSIGDetails tr keyname secret previous timersonly p =
     p\<lparr> dp_trc := tr, dp_tsigkeyname := keyname, dp_tsigsecret := secret, dp_tsigprevious := previous, dp_tsigtimersonly := timersonly \<rparr>"

subsection \<open>Receiving\<close>

text \<open>
  \<open>noparse\<close> and \<open>parse\<close> return -1 as \<open>False\<close>. What the \<open>catch\<close> of \<open>parse\<close> turns into -1 are the
  exceptions of the packet parser. \<open>what\<close> is the text of a library exception; the number of the
  client subnet option and the switch for it are settings.
\<close>

definition noparse :: "byte list \<Rightarrow> DNSPacket \<Rightarrow> bool \<times> DNSPacket" where
  "noparse mesg p =
     (let p = p\<lparr> dp_rawpacket := mesg \<rparr>
      in if length mesg < 12 then (False, p)
         else (True, p\<lparr> dp_wantsnsid := False, dp_ednsping := [], dp_maxreplylen := 512, dp_d := dnsheader_of mesg \<rparr>))"

fun parse_options :: "bool \<Rightarrow> int \<Rightarrow> (u16 \<times> string) list \<Rightarrow> DNSPacket \<Rightarrow> DNSPacket" where
  "parse_options subnet number [] p = p"
| "parse_options subnet number ((code, value) # options) p =
     parse_options subnet number options
       (if code = 3 then p\<lparr> dp_wantsnsid := True \<rparr>
        else if code = 5 then p\<lparr> dp_ednsping := value \<rparr>
        else if subnet \<and> uint code = number
        then (case getEDNSSubnetOptsFromString (map c2b value) of
                Some eso \<Rightarrow> p\<lparr> dp_eso := eso, dp_haveednssubnet := True \<rparr>
              | None \<Rightarrow> p)
        else p)"

definition parse :: "registry \<Rightarrow> string \<Rightarrow> bool \<Rightarrow> int \<Rightarrow> byte list \<Rightarrow> DNSPacket \<Rightarrow> (bool \<times> DNSPacket) result" where
  "parse reg what subnet number mesg p =
     (let p = p\<lparr> dp_rawpacket := mesg, dp_wrapped := True \<rparr>
      in if length mesg < 12 then Inr (False, p)
         else case MOADNSParser_init reg what mesg of
           Inl UndefinedBehaviour \<Rightarrow> Inl UndefinedBehaviour
         | Inl e \<Rightarrow> Inr (False, p)
         | Inr mdp \<Rightarrow>
             let p = p\<lparr> dp_wantsnsid := False, dp_dnssecOk := False, dp_ednsping := [], dp_havetsig := (md_tsigPos mdp \<noteq> 0),
                        dp_haveednssubnet := False \<rparr>;
                 p = (case getEDNSOpts mdp of
                        Some edo \<Rightarrow>
                          parse_options subnet number (eo_options edo)
                            (p\<lparr> dp_maxreplylen := uint (min (eo_packetsize edo) 1680),
                                dp_dnssecOk := (eo_Z edo AND 0x8000 \<noteq> 0 \<or> dp_dnssecOk p) \<rparr>)
                      | None \<Rightarrow> p\<lparr> dp_maxreplylen := 512 \<rparr>);
                 p = p\<lparr> dp_d := dnsheader_of mesg, dp_qdomain := butlast (md_qname mdp) \<rparr>
             in if ntohs (hdr_qdcount (dp_d p)) = 0 \<and> \<not> dp_tcp p then Inr (False, p)
                else Inr (True, p\<lparr> dp_qtype := md_qtype mdp, dp_qclass := md_qclass mdp \<rparr>))"

subsection \<open>Replies\<close>

definition replyPacket :: "DNSPacket \<Rightarrow> DNSPacket \<Rightarrow> DNSPacket" where
  "replyPacket mem p =
     (let r = (DNSPacket_init mem)\<lparr> dp_socket := dp_socket p, dp_remote := dp_remote p \<rparr>;
          r = setOpcode (ucast (hdr_opcode (dp_d p))) (setID (hdr_id (dp_d p)) (setRD (hdr_rd (dp_d p)) (setRA False (setA True (setAnswer True r)))));
          r = r\<lparr> dp_dt := dp_dt p, dp_d := (dp_d r)\<lparr> hdr_qdcount := 1 \<rparr>, dp_tcp := dp_tcp p, dp_qdomain := dp_qdomain p,
                 dp_qtype := dp_qtype p, dp_qclass := dp_qclass p, dp_maxreplylen := dp_maxreplylen p, dp_ednsping := dp_ednsping p,
                 dp_wantsnsid := dp_wantsnsid p, dp_dnssecOk := dp_dnssecOk p, dp_eso := dp_eso p, dp_haveednssubnet := dp_haveednssubnet p \<rparr>;
          r = (if dp_tsigkeyname p \<noteq> []
               then r\<lparr> dp_tsigkeyname := dp_tsigkeyname p, dp_tsigprevious := dp_tsigprevious p, dp_trc := dp_trc p,
                       dp_tsigsecret := dp_tsigsecret p, dp_tsigtimersonly := dp_tsigtimersonly p \<rparr>
               else r)
      in r\<lparr> dp_havetsig := dp_havetsig p \<rparr>)"

definition spoofQuestion :: "string \<Rightarrow> DNSPacket \<Rightarrow> DNSPacket" where
  "spoofQuestion qd p =
     (let label = map c2b (simpleCompress qd []); p = p\<lparr> dp_wrapped := True \<rparr>
      in if length label + 12 > length (dp_rawpacket p) then p
         else p\<lparr> dp_rawpacket := put_bytes (dp_rawpacket p) 12 label \<rparr>)"

subsection \<open>Shuffling\<close>

text \<open>
  The part of a section behind its leading aliases is shuffled; \<open>sh\<close> is \<open>random_shuffle\<close>. The
  second component is what comes after the part.
\<close>

definition shuffle_section :: "(DNSResourceRecord list \<Rightarrow> DNSResourceRecord list) \<Rightarrow> Place \<Rightarrow> DNSResourceRecord list
    \<Rightarrow> DNSResourceRecord list \<times> DNSResourceRecord list" where
  "shuffle_section sh place rrs =
     (let stop = (\<lambda>rr. rr_place rr = place \<and> rr_qtype rr \<noteq> qt_CNAME);
          before = takeWhile (\<lambda>rr. \<not> stop rr) rrs; rest = dropWhile (\<lambda>rr. \<not> stop rr) rrs;
          part = takeWhile (\<lambda>rr. rr_place rr = place) rest; after = dropWhile (\<lambda>rr. rr_place rr = place) rest
      in (before @ (if length part > 1 then sh part else part), after))"

definition shuffle :: "(DNSResourceRecord list \<Rightarrow> DNSResourceRecord list) \<Rightarrow> (DNSResourceRecord list \<Rightarrow> DNSResourceRecord list)
    \<Rightarrow> DNSResourceRecord list \<Rightarrow> DNSResourceRecord list" where
  "shuffle sh1 sh2 rrs =
     (let (answers, rest) = shuffle_section sh1 ANSWER rrs; (additional, rest) = shuffle_section sh2 ADDITIONAL rest
      in answers @ additional @ rest)"

text \<open>A stable sort by place, then the shuffle.\<close>

definition orderAndShuffle :: "(DNSResourceRecord list \<Rightarrow> DNSResourceRecord list) \<Rightarrow> (DNSResourceRecord list \<Rightarrow> DNSResourceRecord list)
    \<Rightarrow> DNSResourceRecord list \<Rightarrow> DNSResourceRecord list" where
  "orderAndShuffle sh1 sh2 rrs = shuffle sh1 sh2 (sort_key (\<lambda>rr. Place_num (rr_place rr)) rrs)"

subsection \<open>Wrapping up\<close>

text \<open>The settings, the library's randomness and the memory that wrapping up depends on.\<close>

record wrap_env =
  we_registry :: registry
  we_env :: env
  we_no_shuffle :: bool
  we_shuffle1 :: "DNSResourceRecord list \<Rightarrow> DNSResourceRecord list"
  we_shuffle2 :: "DNSResourceRecord list \<Rightarrow> DNSResourceRecord list"
  we_server_id :: string
  we_subnet_number :: int
  we_writer :: DNSPacketWriter
  we_md5_1 :: "byte list"
  we_md5_2 :: "byte list"

definition wrap_content :: "DNSResourceRecord \<Rightarrow> DNSResourceRecord" where
  "wrap_content rr =
     (let content = (if rr_qtype rr = qt_MX \<or> rr_qtype rr = qt_SRV then show_nat (unat (rr_priority rr)) @ '' '' @ rr_content rr else rr_content rr);
          content = (if content \<noteq> [] \<and> rr_qtype rr = qt_TXT \<and> hd content \<noteq> CHR 0x22 then [CHR 0x22] @ content @ [CHR 0x22] else content);
          content = (if content = [] then ''.'' else content)
      in rr\<lparr> rr_content := content \<rparr>)"

definition write_resource :: "wrap_env \<Rightarrow> DNSResourceRecord \<Rightarrow> DNSPacketWriter \<Rightarrow> DNSPacketWriter result" where
  "write_resource w rr pw =
     bindE (pw_startRecord (rr_qname rr) (rr_qtype rr) (rr_ttl rr) (rr_qclass rr) (rr_place rr) pw) (\<lambda>pw.
     bindE (mastermake_text (we_registry w) (we_env w) (rr_qtype rr) 1 (rr_content rr)) (\<lambda>drc. toPacket drc pw))"

text \<open>
  The loop over the records, with the records as it leaves them, and either an exception or whether
  it was left because the packet was full, the writer, and the largest scope.
\<close>

fun wrap_records :: "wrap_env \<Rightarrow> nat \<Rightarrow> DNSResourceRecord list \<Rightarrow> DNSPacketWriter \<Rightarrow> byte
    \<Rightarrow> DNSResourceRecord list \<times> (bool \<times> DNSPacketWriter \<times> byte) result" where
  "wrap_records w limit [] pw scope = ([], Inr (False, pw, scope))"
| "wrap_records w limit (rr # rrs) pw scope =
     (let scope = max scope (rr_scopeMask rr); rr = wrap_content rr
      in case write_resource w rr pw of
           Inl e \<Rightarrow> (rr # rrs, Inl e)
         | Inr pw \<Rightarrow>
             if pw_size pw + 20 > limit then
               let pw = pw_rollback pw;
                   pw = (if rr_place rr = ANSWER then pw\<lparr> pw_content := update_header (\<lambda>h. h\<lparr> hdr_tc := True \<rparr>) (pw_content pw) \<rparr> else pw)
               in (rr # rrs, Inr (True, pw, scope))
             else (case wrap_records w limit rrs pw scope of (rrs, r) \<Rightarrow> (rr # rrs, r)))"

definition wrap_options :: "wrap_env \<Rightarrow> DNSPacket \<Rightarrow> (u16 \<times> string) list" where
  "wrap_options w p = (if dp_wantsnsid p then [(3, we_server_id w)] else []) @ (if dp_ednsping p \<noteq> [] then [(4, dp_ednsping p)] else [])"

definition wrap_finish :: "wrap_env \<Rightarrow> DNSPacket \<Rightarrow> (u16 \<times> string) list \<Rightarrow> byte \<Rightarrow> DNSPacketWriter \<Rightarrow> DNSPacketWriter result" where
  "wrap_finish w p opts maxScopeMask pw =
     bindE (if dp_haveednssubnet p
            then bindE (makeEDNSSubnetOptsString ((dp_eso p)\<lparr> es_scope := Netmask_of_address (nm_network (es_source (dp_eso p))) maxScopeMask \<rparr>))
                   (\<lambda>opt. Inr (opts @ [(word_of_int (we_subnet_number w), map b2c opt)]))
            else Inr opts) (\<lambda>opts.
     bindE (if opts \<noteq> [] \<or> dp_dnssecOk p then pw_addOpt 2800 0 (if dp_dnssecOk p then 0x8000 else 0) opts pw else Inr pw) (\<lambda>pw.
       if hdr_tc (dnsheader_of (pw_content pw)) then Inr pw else pw_commit pw))"

definition reply_header :: "dnsheader \<Rightarrow> dnsheader \<Rightarrow> dnsheader" where
  "reply_header d h =
     h\<lparr> hdr_rcode := hdr_rcode d, hdr_aa := hdr_aa d, hdr_ra := hdr_ra d, hdr_qr := hdr_qr d, hdr_id := hdr_id d, hdr_rd := hdr_rd d \<rparr>"

definition reply_limit :: "DNSPacket \<Rightarrow> nat" where
  "reply_limit p = (if dp_tcp p then 65535 else getMaxReplyLen p)"

definition wrap_order :: "wrap_env \<Rightarrow> DNSPacket \<Rightarrow> DNSResourceRecord list" where
  "wrap_order w p =
     (let rrs = sort_key (\<lambda>rr. Place_num (rr_place rr)) (dp_rrs p)
      in if \<not> dp_tcp p \<and> \<not> we_no_shuffle w then shuffle (we_shuffle1 w) (we_shuffle2 w) rrs else rrs)"

text \<open>The state after wrapping up, also after an exception, which leaves the packet marked as wrapped.\<close>

definition wrapup :: "wrap_env \<Rightarrow> DNSPacket \<Rightarrow> DNSPacket \<times> unit result" where
  "wrapup w p =
     (if dp_wrapped p then (p, Inr ())
      else
        let rrs = wrap_order w p; p = p\<lparr> dp_wrapped := True, dp_rrs := rrs \<rparr>
        in case DNSPacketWriter_init (we_writer w) (dp_qdomain p) (dp_qtype p) (dp_qclass p) 0 of
             Inl e \<Rightarrow> (p, Inl e)
           | Inr pw \<Rightarrow>
               let pw = pw\<lparr> pw_content := update_header (reply_header (dp_d p)) (pw_content pw) \<rparr>; opts = wrap_options w p;
                   (rrs, r) = (if rrs \<noteq> [] \<or> opts \<noteq> [] \<or> dp_haveednssubnet p
                               then case wrap_records w (reply_limit p) rrs pw 0 of
                                      (rrs, r) \<Rightarrow> (rrs, bindE r (\<lambda>(full, pw, scope). if full then Inr pw else wrap_finish w p opts scope pw))
                               else (rrs, Inr pw));
                   p = p\<lparr> dp_rrs := rrs \<rparr>
               in case r of
                    Inl e \<Rightarrow> (p, Inl e)
                  | Inr pw \<Rightarrow>
                      let (trc, r) = (if ts_algoName (dp_trc p) \<noteq> []
                                      then addTSIG (we_writer w) (we_md5_1 w) (we_md5_2 w) pw (dp_trc p) (dp_tsigkeyname p) (dp_tsigsecret p)
                                             (dp_tsigprevious p) (dp_tsigtimersonly p)
                                      else (dp_trc p, Inr pw));
                          p = p\<lparr> dp_trc := trc \<rparr>
                      in case r of Inl e \<Rightarrow> (p, Inl e) | Inr pw \<Rightarrow> (p\<lparr> dp_rawpacket := pw_content pw \<rparr>, Inr ()))"

definition getString :: "wrap_env \<Rightarrow> DNSPacket \<Rightarrow> DNSPacket \<times> byte list result" where
  "getString w p =
     (if \<not> dp_wrapped p
      then case wrapup w p of (p, r) \<Rightarrow> (p, bindE r (\<lambda>_. Inr (dp_rawpacket p)))
      else (p, Inr (dp_rawpacket p)))"

subsection \<open>Signed queries\<close>

text \<open>
  \<open>getTSIGDetails\<close>: \<open>None\<close> for false, otherwise the signature record, the name of the key and the
  message that was signed. The last signature record of the packet counts; a record that is none
  by its content would make the cast fail.
\<close>

definition getTSIGDetails :: "registry \<Rightarrow> string \<Rightarrow> DNSPacketWriter \<Rightarrow> DNSPacket \<Rightarrow> (TSIGRecordContent \<times> string \<times> byte list) option result" where
  "getTSIGDetails reg what mem p =
     bindE (MOADNSParser_init reg what (dp_rawpacket p)) (\<lambda>mdp.
       if md_tsigPos mdp = 0 then Inr None
       else case filter (\<lambda>(dr, pos). dr_type dr = qt_TSIG) (md_answers mdp) of
         [] \<Rightarrow> Inr None
       | sigs \<Rightarrow>
           if \<exists>(dr, pos) \<in> set sigs. dr_content dr = None \<or> tsig_of_content (the (dr_content dr)) = None then Inl UndefinedBehaviour
           else let dr = fst (last sigs); trc = the (tsig_of_content (the (dr_content dr))); keyname = butlast (dr_label dr)
                in bindE (makeTSIGMessageFromTSIGPacket mem (dp_rawpacket p) (md_tsigPos mdp) keyname trc (dp_tsigprevious p) False 0) (\<lambda>message.
                     Inr (Some (trc, keyname, message))))"

text \<open>
  The check of a signature, with the name of its key, the key and the signature record as the caller
  has them afterwards. That there is no signature goes unnoticed. \<open>abs\<close> takes an \<open>int\<close>, and so do
  the comparison with \<open>fudge\<close>. The backend's lookup is a parameter; it gives the algorithm and the key.
\<close>

definition time_delta :: "u64 \<Rightarrow> u64 \<Rightarrow> int result" where
  "time_delta time now =
     (let delta = sint (ucast (time - now) :: 32 word) in if delta = - (2 ^ 31) then Inl UndefinedBehaviour else Inr (abs delta))"

definition checkForCorrectTSIG :: "registry \<Rightarrow> string \<Rightarrow> DNSPacketWriter \<Rightarrow> byte list \<Rightarrow> byte list \<Rightarrow> u64 \<Rightarrow> (string \<Rightarrow> string \<Rightarrow> (string \<times> string) option)
    \<Rightarrow> DNSPacket \<Rightarrow> string \<times> string \<times> TSIGRecordContent \<Rightarrow> (bool \<times> string \<times> string \<times> TSIGRecordContent) result" where
  "checkForCorrectTSIG reg what mem mem1 mem2 now getTSIGKey q caller =
     bindE (getTSIGDetails reg what mem q) (\<lambda>details.
       let (keyname, secret, trc) = caller;
           (trc, keyname, message) = (case details of Some d \<Rightarrow> d | None \<Rightarrow> (trc, keyname, []))
       in bindE (time_delta (ts_time trc) now) (\<lambda>delta.
          if delta > uint (ts_fudge trc) then Inr (False, keyname, secret, trc)
          else case getTSIGKey keyname (ts_algoName trc) of
            None \<Rightarrow> Inr (False, keyname, secret, trc)
          | Some (algorithm, secret64) \<Rightarrow>
              let trc = trc\<lparr> ts_algoName := algorithm @ ''.sig-alg.reg.int.'' \<rparr>
              in bindE (B64Decode secret64 secret) (\<lambda>(r, secret).
                   Inr (calculateMD5HMAC mem1 mem2 secret (map b2c message) = ts_mac trc, keyname, secret, trc))))"

end
