(* ===== verification/DnsPacketProps.thy ===== *)
theory DnsPacketProps
  imports DnsPacket "HOL-Library.Multiset" "HOL-Library.Sublist"
begin

text \<open>
  The theorems about replies: their size and header, the records in them, and their order.
\<close>

subsection \<open>The writer during wrapping up\<close>

text \<open>Between two steps of the loop the packet, with what will be committed, is within the limit.\<close>

definition reply_fields :: "dnsheader \<Rightarrow> dnsheader \<Rightarrow> bool" where
  "reply_fields d h \<longleftrightarrow> hdr_id h = hdr_id d \<and> hdr_rd h = hdr_rd d \<and> hdr_aa h = hdr_aa d \<and> hdr_qr h = hdr_qr d \<and>
     hdr_ra h = hdr_ra d \<and> hdr_rcode h = hdr_rcode d \<and> hdr_opcode h = 0 \<and> hdr_qdcount h = ntohs 1"

definition room :: "nat \<Rightarrow> dnsheader \<Rightarrow> bool \<Rightarrow> DNSPacketWriter \<Rightarrow> bool" where
  "room limit d tc pw \<longleftrightarrow> 12 \<le> length (pw_content pw) \<and>
     length (pw_content pw) + (if pw_record pw = [] then 0 else 10 + length (pw_record pw)) \<le> limit \<and>
     reply_fields d (dnsheader_of (pw_content pw)) \<and> hdr_tc (dnsheader_of (pw_content pw)) = tc"

lemma reply_fields_count [simp]: "reply_fields d (count_field place h) = reply_fields d h"
  by (cases place) (simp_all add: reply_fields_def count_field_def)

lemma reply_fields_tc [simp]: "reply_fields d (h\<lparr> hdr_tc := tc \<rparr>) = reply_fields d h"
  by (simp add: reply_fields_def)

lemma hdr_tc_count [simp]: "hdr_tc (count_field place h) = hdr_tc h"
  by (cases place) (simp_all add: count_field_def)

lemma dnsheader_of_prefix: "12 \<le> length c \<Longrightarrow> dnsheader_of (c @ x) = dnsheader_of c"
  using dnsheader_of_take [of "length c" c x] by simp

lemma dnsheader_of_update: "12 \<le> length c \<Longrightarrow> dnsheader_of (update_header f c @ x) = f (dnsheader_of c)"
  by (simp add: update_header_def)

lemma commit_room:
  assumes "pw_commit pw = Inr pw'" "12 \<le> length (pw_content pw)" "length (pw_content pw) + 10 + length (pw_record pw) \<le> limit"
    "reply_fields d (dnsheader_of (pw_content pw))" "hdr_tc (dnsheader_of (pw_content pw)) = tc"
  shows "room limit d tc pw'" "pw_record pw' = []"
    "length (pw_content pw') = length (pw_content pw) + 10 + length (pw_record pw)"
proof -
  obtain h where h: "pw_content pw' = update_header (count_field (pw_recordplace pw)) (pw_content pw) @ h @ pw_record pw"
    "length h = 10" "pw_record pw' = []"
    using commit_content [OF assms(1,2)] by blast
  then show "length (pw_content pw') = length (pw_content pw) + 10 + length (pw_record pw)" "pw_record pw' = []"
    using assms(2) by simp_all
  then show "room limit d tc pw'"
    using h assms by (simp add: room_def dnsheader_of_update)
qed

lemma committed_room:
  assumes "committed pw = Inr pw0" "room limit d tc pw"
  shows "room limit d tc pw0" "pw_record pw0 = []"
    "length (pw_content pw0) = length (pw_content pw) + (if pw_record pw = [] then 0 else 10 + length (pw_record pw))"
proof -
  show "room limit d tc pw0"
    using assms commit_room(1) [of pw pw0 limit d tc] by (auto simp: committed_def room_def split: if_splits)
  show "pw_record pw0 = []" "length (pw_content pw0) = length (pw_content pw) + (if pw_record pw = [] then 0 else 10 + length (pw_record pw))"
    using assms commit_room(2,3) [of pw pw0 limit d tc] by (auto simp: committed_def room_def split: if_splits)
qed

lemma rollback_room:
  assumes "room limit d tc pw0" "pw_record pw0 = []" "limit \<le> 65535" "pw_content pw = pw_content pw0 @ owner"
    "pw_rollbackmarker pw = length (pw_content pw0) mod 65536"
  shows "pw_content (pw_rollback pw) = pw_content pw0" "pw_record (pw_rollback pw) = []"
proof -
  have "length (pw_content pw0) < 65536" using assms(1-3) by (simp add: room_def)
  then show "pw_content (pw_rollback pw) = pw_content pw0" "pw_record (pw_rollback pw) = []"
    using assms(4,5) by (simp_all add: pw_rollback_def)
qed

text \<open>The loop keeps room; after a pass without overflow there is room for 20 bytes more.\<close>

lemma wrap_records_room:
  assumes "wrap_records w limit rrs pw scope = (rrs', Inr (full, pw', scope'))" "room limit d False pw" "limit \<le> 65535"
  shows "room limit d (hdr_tc (dnsheader_of (pw_content pw'))) pw' \<and> (full \<longrightarrow> pw_record pw' = []) \<and>
    (\<not> full \<longrightarrow> \<not> hdr_tc (dnsheader_of (pw_content pw'))) \<and>
    (hdr_tc (dnsheader_of (pw_content pw')) \<longrightarrow> (\<exists>rr \<in> set rrs. rr_place rr = ANSWER)) \<and>
    (\<not> full \<and> rrs \<noteq> [] \<longrightarrow> length (pw_content pw') + 10 + length (pw_record pw') + 20 \<le> limit)"
  using assms
proof (induction rrs arbitrary: pw scope rrs')
  case Nil
  then show ?case by (auto simp: room_def)
next
  case (Cons rr rrs)
  let ?rr = "wrap_content rr" and ?scope = "max scope (rr_scopeMask rr)"
  have place: "rr_place ?rr = rr_place rr" by (simp add: wrap_content_def Let_def)
  obtain pw1 where pw1: "write_resource w ?rr pw = Inr pw1"
    using Cons.prems(1) by (auto simp: Let_def split: sum.splits)
  obtain pw0 x where s: "pw_startRecord (rr_qname ?rr) (rr_qtype ?rr) (rr_ttl ?rr) (rr_qclass ?rr) (rr_place ?rr) pw = Inr pw0"
    and x: "toPacket x pw0 = Inr pw1"
    using pw1 by (auto simp: write_resource_def)
  obtain pwc owner where c: "committed pw = Inr pwc" and pw0: "pw_content pw0 = pw_content pwc @ owner" "pw_record pw0 = []" "pw_stuff pw0 = 10"
    "pw_rollbackmarker pw0 = length (pw_content pwc) mod 65536"
    using startRecord_frame [OF s] by metis
  note a = appendedD [OF appended_toPacket [OF x]]
  note roomc = committed_room [OF c Cons.prems(2)]
  have h1: "dnsheader_of (pw_content pw1) = dnsheader_of (pw_content pwc)"
    using roomc(1) by (simp add: a pw0 room_def dnsheader_of_prefix)
  show ?case
  proof (cases "pw_size pw1 + 20 > limit")
    case True
    have rb: "pw_content (pw_rollback pw1) = pw_content pwc" "pw_record (pw_rollback pw1) = []"
      using rollback_room [OF roomc(1,2) Cons.prems(3), of pw1 owner] by (simp_all add: a pw0)
    have pw': "pw' = (if rr_place rr = ANSWER then (pw_rollback pw1)\<lparr> pw_content := update_header (\<lambda>h. h\<lparr> hdr_tc := True \<rparr>) (pw_content pwc) \<rparr>
        else pw_rollback pw1)" and full: "full"
      using Cons.prems(1) pw1 True rb place by (auto simp: Let_def split: if_splits)
    show ?thesis
      using roomc full rb by (auto simp: pw' room_def dnsheader_of_update [of _ _ "[]", simplified])
  next
    case False
    obtain rrs'' where r: "wrap_records w limit rrs pw1 ?scope = (rrs'', Inr (full, pw', scope'))"
      using Cons.prems(1) pw1 False by (auto simp: Let_def split: prod.splits)
    have size: "length (pw_content pw1) + 10 + length (pw_record pw1) + 20 \<le> limit"
      using False by (simp add: pw_size_def a pw0)
    have room1: "room limit d False pw1"
      using roomc(1) size h1 by (auto simp: room_def a pw0)
    from Cons.IH [OF r room1 Cons.prems(3)] show ?thesis
    proof (cases "rrs = []")
      case True
      then show ?thesis using r size room1 by (auto simp: room_def)
    qed auto
  qed
qed

subsection \<open>Size and header of a reply\<close>

definition question_size :: "wrap_env \<Rightarrow> DNSPacket \<Rightarrow> nat" where
  "question_size w p =
     (case DNSPacketWriter_init (we_writer w) (dp_qdomain p) (dp_qtype p) (dp_qclass p) 0 of
        Inr pw \<Rightarrow> length (pw_content pw) | Inl e \<Rightarrow> 0)"

lemma init_fields:
  assumes "DNSPacketWriter_init mem q t c 0 = Inr pw"
  shows "12 \<le> length (pw_content pw)" "pw_record pw = []" "hdr_opcode (dnsheader_of (pw_content pw)) = 0"
    "hdr_qdcount (dnsheader_of (pw_content pw)) = ntohs 1" "\<not> hdr_tc (dnsheader_of (pw_content pw))"
    "hdr_ancount (dnsheader_of (pw_content pw)) = 0"
proof -
  let ?h = "(dnsheader_of (replicate 12 0))\<lparr> hdr_id := 0, hdr_qdcount := ntohs 1, hdr_opcode := 0 \<rparr>"
  obtain pw1 where x: "pw_xfrLabel q False (mem\<lparr> pw_content := bytes_of_dnsheader ?h, pw_record := [], pw_qname := q,
      pw_qtype := t, pw_qclass := c, pw_labelmap := [], pw_stuff := 0, pw_canonic := False, pw_lowerCase := False \<rparr>) = Inr pw1"
    and pw: "pw = pw1\<lparr> pw_content := pw_content pw1 @ pw_record pw1 @ be_bytes16 t @ be_bytes16 c, pw_record := [], pw_stuff := 0xffff \<rparr>"
    using assms by (auto simp: DNSPacketWriter_init_def Let_def)
  have c1: "pw_content pw1 = bytes_of_dnsheader ?h" using appendedD(1) [OF appended_xfrLabel [OF x]] by simp
  show "12 \<le> length (pw_content pw)" "pw_record pw = []" by (simp_all add: pw c1)
  have "dnsheader_of (pw_content pw) = ?h" by (simp add: pw c1)
  then show "hdr_opcode (dnsheader_of (pw_content pw)) = 0" "hdr_qdcount (dnsheader_of (pw_content pw)) = ntohs 1"
    "\<not> hdr_tc (dnsheader_of (pw_content pw))" "hdr_ancount (dnsheader_of (pw_content pw)) = 0"
    by (simp_all add: dnsheader_of_def le16_def)
qed

lemma finish_room:
  assumes "wrap_finish w p [] scope pw = Inr pw'" "\<not> dp_haveednssubnet p" "room limit d False pw"
    "length (pw_content pw) + 10 + length (pw_record pw) + 20 \<le> limit"
  shows "length (pw_content pw') \<le> limit" "reply_fields d (dnsheader_of (pw_content pw'))" "\<not> hdr_tc (dnsheader_of (pw_content pw'))"
proof -
  have "room limit d False pw' \<or> length (pw_content pw') \<le> limit \<and> reply_fields d (dnsheader_of (pw_content pw')) \<and> \<not> hdr_tc (dnsheader_of (pw_content pw'))"
  proof (cases "dp_dnssecOk p")
    case False
    then have "pw_commit pw = Inr pw'"
      using assms by (auto simp: wrap_finish_def room_def)
    from commit_room(1) [OF this, of limit d False] show ?thesis using assms(3,4) by (auto simp: room_def)
  next
    case True
    then obtain pw1 where o: "pw_addOpt 2800 0 0x8000 [] pw = Inr pw1"
      and c: "(if hdr_tc (dnsheader_of (pw_content pw1)) then Inr pw1 else pw_commit pw1) = Inr pw'"
      using assms by (auto simp: wrap_finish_def)
    then obtain ttl where s: "pw_startRecord [] qt_OPT ttl (word_of_int 2800) ADDITIONAL pw = Inr pw1"
      by (auto simp: pw_addOpt_def Let_def)
    obtain pw0 owner where cm: "committed pw = Inr pw0" and pw1: "pw_content pw1 = pw_content pw0 @ owner" "pw_record pw1 = []" "length owner \<le> 2"
      using startRecord_frame [OF s] by metis
    note r0 = committed_room [OF cm assms(3)]
    have "length (pw_content pw0) + 20 \<le> limit" using r0(3) assms(4) by (auto split: if_splits)
    then have l: "length (pw_content pw1) + 10 + length (pw_record pw1) \<le> limit" using pw1 by simp
    have h: "dnsheader_of (pw_content pw1) = dnsheader_of (pw_content pw0)"
      using r0(1) by (simp add: pw1 room_def dnsheader_of_prefix)
    with r0(1) c have "pw_commit pw1 = Inr pw'" by (simp add: room_def)
    from commit_room(1) [OF this _ l, of d False] show ?thesis using r0(1) h pw1 by (auto simp: room_def)
  qed
  then show "length (pw_content pw') \<le> limit" "reply_fields d (dnsheader_of (pw_content pw'))" "\<not> hdr_tc (dnsheader_of (pw_content pw'))"
    by (auto simp: room_def split: if_splits)
qed

text \<open>What is common to the two theorems: a reply without extra options and signature.\<close>

lemma wrapup_room:
  assumes "wrapup w p = (p', Inr ())" "\<not> dp_wrapped p" "wrap_options w p = []" "\<not> dp_haveednssubnet p" "ts_algoName (dp_trc p) = []"
    and "question_size w p \<le> reply_limit p" "reply_limit p \<le> 65535"
  shows "length (dp_rawpacket p') \<le> reply_limit p" "reply_fields (dp_d p) (dnsheader_of (dp_rawpacket p'))"
    "hdr_tc (dnsheader_of (dp_rawpacket p')) \<Longrightarrow> \<exists>rr \<in> set (wrap_order w p). rr_place rr = ANSWER"
proof -
  let ?p = "p\<lparr> dp_wrapped := True, dp_rrs := wrap_order w p \<rparr>"
  obtain pw0 where i: "DNSPacketWriter_init (we_writer w) (dp_qdomain p) (dp_qtype p) (dp_qclass p) 0 = Inr pw0"
    using assms(1,2) by (auto simp: wrapup_def Let_def split: sum.splits)
  let ?pw = "pw0\<lparr> pw_content := update_header (reply_header (dp_d p)) (pw_content pw0) \<rparr>"
  have r: "room (reply_limit p) (dp_d p) False ?pw"
    using assms(6) init_fields [OF i]
    by (simp add: question_size_def i room_def dnsheader_of_update [of _ _ "[]", simplified] reply_header_def reply_fields_def)
  have lim: "reply_limit ?p = reply_limit p" by (simp add: reply_limit_def getMaxReplyLen_def)
  have opts: "wrap_options w ?p = []" using assms(3) by (simp add: wrap_options_def split: if_splits)
  have "\<exists>pw :: DNSPacketWriter. dp_rawpacket p' = pw_content pw \<and> length (pw_content pw) \<le> reply_limit p \<and> reply_fields (dp_d p) (dnsheader_of (pw_content pw)) \<and>
      (hdr_tc (dnsheader_of (pw_content pw)) \<longrightarrow> (\<exists>rr \<in> set (wrap_order w p). rr_place rr = ANSWER))"
  proof (cases "wrap_order w p = []")
    case True
    then have "dp_rawpacket p' = pw_content ?pw"
      using assms i opts by (auto simp: wrapup_def Let_def)
    moreover have "length (pw_content ?pw) \<le> reply_limit p" "reply_fields (dp_d p) (dnsheader_of (pw_content ?pw))"
      "\<not> hdr_tc (dnsheader_of (pw_content ?pw))"
      using r by (auto simp: room_def split: if_splits)
    ultimately show ?thesis by blast
  next
    case False
    obtain rrs full pw1 scope where wr: "wrap_records w (reply_limit p) (wrap_order w p) ?pw 0 = (rrs, Inr (full, pw1, scope))"
      and raw: "\<exists>pw :: DNSPacketWriter. (if full then Inr pw1 else wrap_finish w ?p (wrap_options w ?p) scope pw1) = Inr pw \<and> dp_rawpacket p' = pw_content pw"
      using assms(1,2,5) False i opts lim
      by (auto simp: wrapup_def Let_def split: sum.splits prod.splits)
    obtain pw :: DNSPacketWriter where pw: "(if full then Inr pw1 else wrap_finish w ?p [] scope pw1) = Inr pw" "dp_rawpacket p' = pw_content pw"
      using raw unfolding opts by blast
    note wr1 = wrap_records_room [OF wr r assms(7)]
    show ?thesis
    proof (cases full)
      case True
      then show ?thesis using wr1 pw by (intro exI [of _ pw]) (auto simp: room_def split: if_splits)
    next
      case nf: False
      have s: "\<not> dp_haveednssubnet ?p" using assms(4) by simp
      have f: "wrap_finish w ?p [] scope pw1 = Inr pw" using pw(1) nf by simp
      have "room (reply_limit p) (dp_d p) False pw1" "length (pw_content pw1) + 10 + length (pw_record pw1) + 20 \<le> reply_limit p"
        using wr1 nf False by auto
      from finish_room [OF f s this] pw show ?thesis by (intro exI [of _ pw]) simp
    qed
  qed
  then show "length (dp_rawpacket p') \<le> reply_limit p" "reply_fields (dp_d p) (dnsheader_of (dp_rawpacket p'))"
    "hdr_tc (dnsheader_of (dp_rawpacket p')) \<Longrightarrow> \<exists>rr \<in> set (wrap_order w p). rr_place rr = ANSWER"
    by auto
qed

text \<open>
  Property C8. A reply never exceeds the size its query allows - 65535 bytes over TCP - when the
  question fits: records that do not fit are rolled back, and 20 bytes are kept for the EDNS record.
  Options, which are not part of those 20 bytes, and signatures are set aside.
\<close>

theorem reply_bounded:
  assumes "wrapup w p = (p', Inr ())" "\<not> dp_wrapped p" "\<not> dp_wantsnsid p" "dp_ednsping p = []" "\<not> dp_haveednssubnet p"
    and "ts_algoName (dp_trc p) = []" "question_size w p \<le> reply_limit p" "reply_limit p \<le> 65535"
  shows "length (dp_rawpacket p') \<le> reply_limit p"
  by (rule wrapup_room(1) [of w p p']) (use assms in \<open>simp_all add: wrap_options_def\<close>)

subsection \<open>The header, with options and signatures\<close>

text \<open>The header alone, whatever the size: it survives every way to the end.\<close>

definition heading :: "dnsheader \<Rightarrow> bool \<Rightarrow> DNSPacketWriter \<Rightarrow> bool" where
  "heading d tc pw \<longleftrightarrow> 12 \<le> length (pw_content pw) \<and> reply_fields d (dnsheader_of (pw_content pw)) \<and> hdr_tc (dnsheader_of (pw_content pw)) = tc"

lemma room_heading: "room limit d tc pw \<Longrightarrow> heading d tc pw"
  by (simp add: room_def heading_def)

lemma heading_commit: "pw_commit pw = Inr pw' \<Longrightarrow> heading d tc pw \<Longrightarrow> heading d tc pw'"
  by (rule room_heading [OF commit_room(1)]) (auto simp: heading_def)

lemma heading_committed: "committed pw = Inr pw' \<Longrightarrow> heading d tc pw \<Longrightarrow> heading d tc pw'"
  using heading_commit by (auto simp: committed_def split: if_splits)

lemma heading_appended: "appended pw pw' \<Longrightarrow> heading d tc pw' = heading d tc pw"
  by (simp add: heading_def appendedD(1))

lemma heading_start:
  assumes "pw_startRecord name qt ttl cl place pw = Inr pw'" "heading d tc pw"
  shows "heading d tc pw'"
proof -
  obtain pw0 owner where "committed pw = Inr pw0" "pw_content pw' = pw_content pw0 @ owner"
    using startRecord_frame [OF assms(1)] by metis
  with heading_committed [of pw pw0 d tc] assms(2) show ?thesis by (simp add: heading_def dnsheader_of_prefix)
qed

lemma heading_options: "heading d tc (addOpt_options opts pw) = heading d tc pw"
proof (induction opts arbitrary: pw)
  case (Cons opt opts)
  then show ?case
    by (cases opt) (simp add: heading_def pw_xfrBlob_def pw_xfr16BitInt_def pw_append_def)
qed simp

lemma heading_finish:
  assumes "wrap_finish w p opts scope pw = Inr pw'" "heading d False pw"
  shows "heading d False pw'"
proof -
  obtain opts' pw1 where o: "(if opts' \<noteq> [] \<or> dp_dnssecOk p then pw_addOpt 2800 0 (if dp_dnssecOk p then 0x8000 else 0) opts' pw else Inr pw) = Inr pw1"
    and c: "(if hdr_tc (dnsheader_of (pw_content pw1)) then Inr pw1 else pw_commit pw1) = Inr pw'"
    using assms(1) unfolding wrap_finish_def by (auto simp: bindE_def split: sum.splits simp del: bindE_simps)
  have "heading d False pw1"
    using o assms(2) heading_start by (auto simp: pw_addOpt_def Let_def heading_options split: if_splits)
  then show ?thesis using c heading_commit by (auto simp: heading_def)
qed

lemma heading_tsig:
  assumes "addTSIG mem mem1 mem2 pw trc keyname secret previous timersonly = (trc', Inr pw')" "heading d tc pw"
  shows "heading d tc pw'"
proof -
  obtain pw1 pw2 trc1 where s: "pw_startRecord keyname qt_TSIG 0 0xff ADDITIONAL pw = Inr pw1"
    and t: "toPacket (tsig_content trc1) pw1 = Inr pw2" and c: "pw_commit pw2 = Inr pw'"
    using assms(1) by (auto simp: addTSIG_def Let_def split: sum.splits)
  from heading_start [OF s assms(2)] heading_appended [OF appended_toPacket [OF t]] heading_commit [OF c] show ?thesis by blast
qed

text \<open>The loop, when the question alone may be over the limit.\<close>

lemma wrap_records_heading:
  assumes "wrap_records w limit rrs pw scope = (rrs', Inr (full, pw', scope'))" "room L d False pw" "limit \<le> L" "L \<le> 65535"
  shows "heading d (hdr_tc (dnsheader_of (pw_content pw'))) pw' \<and> (\<not> full \<longrightarrow> \<not> hdr_tc (dnsheader_of (pw_content pw'))) \<and>
    (hdr_tc (dnsheader_of (pw_content pw')) \<longrightarrow> (\<exists>rr \<in> set rrs. rr_place rr = ANSWER))"
  using assms
proof (induction rrs arbitrary: pw scope rrs')
  case Nil
  then show ?case by (auto simp: room_def heading_def)
next
  case (Cons rr rrs)
  let ?rr = "wrap_content rr" and ?scope = "max scope (rr_scopeMask rr)"
  have place: "rr_place ?rr = rr_place rr" by (simp add: wrap_content_def Let_def)
  obtain pw1 where pw1: "write_resource w ?rr pw = Inr pw1"
    using Cons.prems(1) by (auto simp: Let_def split: sum.splits)
  obtain pw0 x where s: "pw_startRecord (rr_qname ?rr) (rr_qtype ?rr) (rr_ttl ?rr) (rr_qclass ?rr) (rr_place ?rr) pw = Inr pw0"
    and x: "toPacket x pw0 = Inr pw1"
    using pw1 by (auto simp: write_resource_def)
  obtain pwc owner where c: "committed pw = Inr pwc" and pw0: "pw_content pw0 = pw_content pwc @ owner" "pw_record pw0 = []" "pw_stuff pw0 = 10"
    "pw_rollbackmarker pw0 = length (pw_content pwc) mod 65536"
    using startRecord_frame [OF s] by metis
  note a = appendedD [OF appended_toPacket [OF x]]
  note roomc = committed_room [OF c Cons.prems(2)]
  show ?case
  proof (cases "pw_size pw1 + 20 > limit")
    case True
    have rb: "pw_content (pw_rollback pw1) = pw_content pwc"
      using rollback_room [OF roomc(1,2) Cons.prems(4), of pw1 owner] by (simp_all add: a pw0)
    have "pw' = (if rr_place rr = ANSWER then (pw_rollback pw1)\<lparr> pw_content := update_header (\<lambda>h. h\<lparr> hdr_tc := True \<rparr>) (pw_content pwc) \<rparr>
        else pw_rollback pw1)" "full"
      using Cons.prems(1) pw1 True rb place by (auto simp: Let_def split: if_splits)
    then show ?thesis
      using roomc rb by (auto simp: room_def heading_def dnsheader_of_update [of _ _ "[]", simplified])
  next
    case False
    obtain rrs'' where r: "wrap_records w limit rrs pw1 ?scope = (rrs'', Inr (full, pw', scope'))"
      using Cons.prems(1) pw1 False by (auto simp: Let_def split: prod.splits)
    have "heading d False pw1"
      using heading_start [OF s room_heading [OF Cons.prems(2)]] heading_appended [OF appended_toPacket [OF x]] by blast
    then have "room L d False pw1"
      using False Cons.prems(3) by (simp add: heading_def room_def pw_size_def a pw0)
    from Cons.IH [OF r this Cons.prems(3,4)] show ?thesis by auto
  qed
qed

lemma wrapup_heading:
  assumes "wrapup w p = (p', Inr ())" "\<not> dp_wrapped p" "question_size w p \<le> 65535" "reply_limit p \<le> 65535"
    and "h = dnsheader_of (dp_rawpacket p')"
  shows "reply_fields (dp_d p) h \<and> (hdr_tc h \<longrightarrow> (\<exists>rr \<in> set (wrap_order w p). rr_place rr = ANSWER))"
proof -
  let ?p = "p\<lparr> dp_wrapped := True, dp_rrs := wrap_order w p \<rparr>" and ?L = "max (reply_limit p) (question_size w p)"
  let ?good = "\<lambda>pw :: DNSPacketWriter. \<exists>tc. heading (dp_d p) tc pw \<and> (tc \<longrightarrow> (\<exists>rr \<in> set (wrap_order w p). rr_place rr = ANSWER))"
  obtain pw0 where i: "DNSPacketWriter_init (we_writer w) (dp_qdomain p) (dp_qtype p) (dp_qclass p) 0 = Inr pw0"
    using assms(1,2) by (auto simp: wrapup_def Let_def split: sum.splits)
  let ?pw = "pw0\<lparr> pw_content := update_header (reply_header (dp_d p)) (pw_content pw0) \<rparr>" and ?opts = "wrap_options w ?p"
  have r: "room ?L (dp_d p) False ?pw"
    using init_fields [OF i]
    by (simp add: question_size_def i room_def dnsheader_of_update [of _ _ "[]", simplified] reply_header_def reply_fields_def)
  have lim: "reply_limit ?p = reply_limit p" by (simp add: reply_limit_def getMaxReplyLen_def)
  have written: "?good pw" if "wrap_records w (reply_limit p) (wrap_order w p) ?pw 0 = (rrs, Inr (full, pw1, scope))"
    "(if full then Inr pw1 else wrap_finish w ?p ?opts scope pw1) = Inr pw" for rrs full pw1 scope pw
    using wrap_records_heading [OF that(1) r] assms(3,4) that(2) heading_finish [of w ?p ?opts scope pw1 pw "dp_d p"]
    by (auto split: if_splits)
  obtain pw trc pwt where pw: "?good pw" and
    t: "(if ts_algoName (dp_trc p) \<noteq> [] then addTSIG (we_writer w) (we_md5_1 w) (we_md5_2 w) pw (dp_trc p) (dp_tsigkeyname p) (dp_tsigsecret p)
          (dp_tsigprevious p) (dp_tsigtimersonly p) else (dp_trc p, Inr pw)) = (trc, Inr pwt)" and raw: "dp_rawpacket p' = pw_content pwt"
  proof (cases "wrap_order w p \<noteq> [] \<or> ?opts \<noteq> [] \<or> dp_haveednssubnet p")
    case False
    have "?good ?pw" using room_heading [OF r] by blast
    moreover obtain trc pwt where "(if ts_algoName (dp_trc p) \<noteq> [] then addTSIG (we_writer w) (we_md5_1 w) (we_md5_2 w) ?pw (dp_trc p) (dp_tsigkeyname p) (dp_tsigsecret p)
          (dp_tsigprevious p) (dp_tsigtimersonly p) else (dp_trc p, Inr ?pw)) = (trc, Inr pwt)" "dp_rawpacket p' = pw_content pwt"
      using assms(1,2) i False by (auto simp: wrapup_def Let_def split: prod.splits sum.splits if_splits)
    ultimately show thesis by (rule that)
  next
    case True
    obtain rrs res where w: "wrap_records w (reply_limit p) (wrap_order w p) ?pw 0 = (rrs, res)" by fastforce
    obtain full pw1 scope pw where f: "res = Inr (full, pw1, scope)" "(if full then Inr pw1 else wrap_finish w ?p ?opts scope pw1) = Inr pw"
      and t: "\<exists>trc pwt. (if ts_algoName (dp_trc p) \<noteq> [] then addTSIG (we_writer w) (we_md5_1 w) (we_md5_2 w) pw (dp_trc p) (dp_tsigkeyname p) (dp_tsigsecret p)
          (dp_tsigprevious p) (dp_tsigtimersonly p) else (dp_trc p, Inr pw)) = (trc, Inr pwt) \<and> dp_rawpacket p' = pw_content pwt"
      using assms(1,2) i True w lim
      by (cases res) (auto simp: wrapup_def Let_def split: prod.splits sum.splits if_splits)
    from t show thesis using that written [OF w [unfolded f(1)] f(2)] by blast
  qed
  obtain tc where tc: "heading (dp_d p) tc pw" "tc \<longrightarrow> (\<exists>rr \<in> set (wrap_order w p). rr_place rr = ANSWER)" using pw by blast
  have "heading (dp_d p) tc pwt"
    using t tc(1) heading_tsig [of _ _ _ pw _ _ _ _ _ trc pwt "dp_d p" tc] by (auto split: if_splits)
  then have "?good pwt" using tc(2) by blast
  then show ?thesis by (auto simp: heading_def assms(5) raw)
qed

text \<open>
  Property C36. The header of a reply has the identifier, the response code and the flags set in the
  packet, with or without options, client subnet and signature, whether or not all records fit; it is marked
  as truncated only if there were answers. The opcode of the packet is not among what is copied: a reply
  always goes out as a standard query, also the one to a notification. Header and question are less than 64 kB.
\<close>

theorem reply_header_kept:
  assumes "wrapup w p = (p', Inr ())" "\<not> dp_wrapped p" "question_size w p \<le> 65535" "reply_limit p \<le> 65535"
    and "h = dnsheader_of (dp_rawpacket p')"
  shows "hdr_id h = hdr_id (dp_d p) \<and> hdr_rcode h = hdr_rcode (dp_d p) \<and> hdr_qr h = hdr_qr (dp_d p) \<and> hdr_aa h = hdr_aa (dp_d p) \<and>
    hdr_ra h = hdr_ra (dp_d p) \<and> hdr_rd h = hdr_rd (dp_d p) \<and> hdr_opcode h = 0 \<and> hdr_qdcount h = ntohs 1 \<and>
    (hdr_tc h \<longrightarrow> (\<exists>rr \<in> set (wrap_order w p). rr_place rr = ANSWER))"
  using wrapup_heading [OF assms] by (simp add: reply_fields_def)

text \<open>A reply for the name of the root with an address.\<close>

definition example_wrap :: wrap_env where
  "example_wrap = \<lparr> we_registry = all_types,
     we_env = \<lparr> env_pton6 = (\<lambda>s. Some (replicate 16 1)), env_ntop6 = (\<lambda>b. []), env_gmtime = (\<lambda>t. \<lparr> tm_year = 70, tm_mon = 0,
       tm_mday = 1, tm_hour = 0, tm_min = 0, tm_sec = 0 \<rparr>), env_loc_text = (\<lambda>l. []),
       env_loc_memory = \<lparr> loc_version = 0, loc_size = 0, loc_horizpre = 0, loc_vertpre = 0, loc_latitude = 0, loc_longitude = 0, loc_altitude = 0 \<rparr>,
       env_saltlength_memory = 0, env_beyond = (\<lambda>n. 0) \<rparr>,
     we_no_shuffle = True, we_shuffle1 = rev, we_shuffle2 = rev, we_server_id = ''id'', we_subnet_number = 20730,
     we_writer = example_writer, we_md5_1 = replicate 64 0, we_md5_2 = replicate 64 0 \<rparr>"

definition example_record :: DNSResourceRecord where
  "example_record = (DNSResourceRecord_init 28 60 1)\<lparr> rr_qname := ''.'', rr_content := ''::1'' \<rparr>"

definition example_memory :: DNSPacket where
  "example_memory =
     \<lparr> dp_remote = ComboAddress_zero, dp_qclass = 1, dp_d = dnsheader_of (replicate 12 0), dp_qtype = 28, dp_qdomain = ''.'',
       dp_tcp = False, dp_dnssecOk = False, dp_havetsig = False, dp_trc = example_tsig\<lparr> ts_algoName := [] \<rparr>, dp_wrapped = False,
       dp_compress = True, dp_qlen = 0, dp_socket = 0, dp_rawpacket = [], dp_maxreplylen = 512, dp_ednsping = [], dp_wantsnsid = False,
       dp_haveednssubnet = False, dp_eso = \<lparr> es_source = Netmask_of_address ComboAddress_zero 0, es_scope = Netmask_of_address ComboAddress_zero 0 \<rparr>,
       dp_tsigsecret = [], dp_tsigkeyname = [], dp_tsigprevious = [], dp_tsigtimersonly = False, dp_rrs = [],
       dp_dt = \<lparr> tv_sec = 0, tv_usec = 0 \<rparr> \<rparr>"

definition example_reply :: DNSPacket where
  "example_reply = addRecord example_record ((setID 7 (DNSPacket_init example_memory))\<lparr> dp_qdomain := ''.'', dp_qtype := 28, dp_qclass := 1 \<rparr>)"

lemma example_reply_fields:
  "\<not> dp_wrapped example_reply" "\<not> dp_wantsnsid example_reply" "dp_ednsping example_reply = []" "\<not> dp_haveednssubnet example_reply"
  "ts_algoName (dp_trc example_reply) = []" "reply_limit example_reply = 512" "dp_rrs example_reply = [example_record]"
  "dp_qdomain example_reply = ''.''" "dp_qtype example_reply = 28" "dp_qclass example_reply = 1" "\<not> dp_dnssecOk example_reply" "\<not> dp_tcp example_reply"
  "hdr_id (dp_d example_reply) = 7"
  by (simp_all add: example_reply_def addRecord_def setID_def DNSPacket_init_def example_memory_def reply_limit_def getMaxReplyLen_def)

lemma example_maker: "reg_zmakermap all_types (1, 28) = Some MAAAA"
  by code_simp

lemma example_wrapped: "\<exists>p'. wrapup example_wrap example_reply = (p', Inr ())" and example_question: "question_size example_wrap example_reply = 17"
proof -
  have root: "pw_xfrLabel ''.'' c pw = Inr (pw\<lparr> pw_record := pw_record pw @ [0] \<rparr>)" if "\<not> pw_lowerCase pw" for c pw
    using that by (simp add: pw_xfrLabel_def)
  show "question_size example_wrap example_reply = 17"
    by (simp add: question_size_def example_reply_fields DNSPacketWriter_init_def Let_def root)
  show "\<exists>p'. wrapup example_wrap example_reply = (p', Inr ())"
    by (simp add: wrapup_def example_reply_fields DNSPacketWriter_init_def Let_def root wrap_order_def wrap_options_def example_wrap_def
        example_record_def DNSResourceRecord_init_def wrap_content_def qt_MX_def qt_SRV_def qt_TXT_def write_resource_def pw_startRecord_def
        mastermake_text_def example_maker AAAA_of_text_def pw_xfrBlob_def pw_append_def pw_size_def reply_limit_def getMaxReplyLen_def
        wrap_finish_def pw_commit_def)
qed

lemma reply_bounded_witness: "\<exists>p'. wrapup example_wrap example_reply = (p', Inr ()) \<and> length (dp_rawpacket p') \<le> 512"
proof -
  obtain p' where p': "wrapup example_wrap example_reply = (p', Inr ())" using example_wrapped by blast
  from reply_bounded [OF p'] have "length (dp_rawpacket p') \<le> reply_limit example_reply"
    by (simp add: example_reply_fields example_question)
  with p' show ?thesis by (simp add: example_reply_fields)
qed

lemma reply_header_kept_witness:
  "\<exists>p'. wrapup example_wrap example_reply = (p', Inr ()) \<and> hdr_id (dnsheader_of (dp_rawpacket p')) = 7"
proof -
  obtain p' where p': "wrapup example_wrap example_reply = (p', Inr ())" using example_wrapped by blast
  from reply_header_kept [OF p' _ _ _ refl] have "hdr_id (dnsheader_of (dp_rawpacket p')) = 7"
    by (simp add: example_reply_fields example_question)
  with p' show ?thesis by blast
qed

subsection \<open>The records of a packet\<close>

lemma same_record_sym: "same_record a b \<Longrightarrow> same_record b a"
  by (auto simp: same_record_def)

lemma same_record_refl [simp]: "same_record a a"
  by (simp add: same_record_def)

definition no_duplicates :: "DNSResourceRecord list \<Rightarrow> bool" where
  "no_duplicates rrs \<longleftrightarrow> (\<forall>i<length rrs. \<forall>j<i. \<not> same_record (rrs ! i) (rrs ! j))"

lemma no_duplicates_snoc: "no_duplicates (rrs @ [rr]) \<longleftrightarrow> no_duplicates rrs \<and> (\<forall>i \<in> set rrs. \<not> same_record rr i)"
  by (auto simp: no_duplicates_def nth_append less_Suc_eq all_set_conv_all_nth)

text \<open>
  The records added to a packet that compresses are those that were given, in their
  order, without the ones a record before stands for - of the same name, type and content, and for
  mail exchangers and services of the same priority: none is in the packet twice, and none is lost.
\<close>

theorem added_records:
  assumes "dp_compress p" "dp_rrs p = []"
  shows "no_duplicates (dp_rrs (foldl (\<lambda>p rr. addRecord rr p) p rrs)) \<and>
    subseq (dp_rrs (foldl (\<lambda>p rr. addRecord rr p) p rrs)) rrs \<and>
    (\<forall>rr \<in> set rrs. \<exists>i \<in> set (dp_rrs (foldl (\<lambda>p rr. addRecord rr p) p rrs)). same_record rr i)"
proof -
  have "dp_compress (foldl (\<lambda>p rr. addRecord rr p) p rrs)" using assms(1)
    by (induction rrs rule: rev_induct) (simp_all add: addRecord_def)
  then show ?thesis
    using assms
  proof (induction rrs rule: rev_induct)
    case Nil then show ?case by (simp add: no_duplicates_def)
  next
    case (snoc rr rrs)
    let ?q = "foldl (\<lambda>p rr. addRecord rr p) p rrs"
    have c: "dp_compress ?q" using snoc.prems(1) by (simp add: addRecord_def split: if_splits)
    note IH = snoc.IH [OF c snoc.prems(2,3)]
    show ?case
    proof (cases "\<exists>i \<in> set (dp_rrs ?q). same_record rr i")
      case True
      then show ?thesis using IH c by (auto simp: addRecord_def intro: list_emb_append2)
    next
      case False
      then show ?thesis using IH c by (auto simp: addRecord_def no_duplicates_snoc intro: list_emb_append_mono)
    qed
  qed
qed

lemma added_records_witness:
  "no_duplicates (dp_rrs (foldl (\<lambda>p rr. addRecord rr p) (DNSPacket_init example_memory) [example_record, example_record]))"
  using added_records [of "DNSPacket_init example_memory" "[example_record, example_record]"]
  by (simp add: DNSPacket_init_def)

subsection \<open>The order of the records\<close>

definition place_key :: "DNSResourceRecord \<Rightarrow> nat" where
  "place_key rr = Place_num (rr_place rr)"

lemma Place_num_inj: "Place_num a = Place_num b \<longleftrightarrow> a = b"
  by (cases a; cases b) simp_all

lemma shuffle_section_split:
  assumes "shuffle_section sh place rrs = (a, b)" "\<And>xs. mset (sh xs) = mset xs"
  obtains x y z where "rrs = x @ y @ b" "a = x @ z" "mset z = mset y" "\<forall>rr \<in> set y. rr_place rr = place"
proof -
  let ?stop = "\<lambda>rr. rr_place rr = place \<and> rr_qtype rr \<noteq> qt_CNAME"
  let ?x = "takeWhile (\<lambda>rr. \<not> ?stop rr) rrs" and ?rest = "dropWhile (\<lambda>rr. \<not> ?stop rr) rrs"
  let ?y = "takeWhile (\<lambda>rr. rr_place rr = place) ?rest"
  have b: "b = dropWhile (\<lambda>rr. rr_place rr = place) ?rest" and a: "a = ?x @ (if length ?y > 1 then sh ?y else ?y)"
    using assms(1) by (simp_all add: shuffle_section_def Let_def)
  have "rrs = ?x @ ?y @ b" by (simp add: b)
  moreover have "mset (if length ?y > 1 then sh ?y else ?y) = mset ?y" by (simp add: assms(2))
  moreover have "\<forall>rr \<in> set ?y. rr_place rr = place" by (auto dest: set_takeWhileD)
  ultimately show thesis using that a by blast
qed

lemma mset_same_key:
  assumes "mset z = mset y" "\<forall>rr \<in> set y. rr_place rr = place"
  shows "map place_key z = map place_key y" "P \<noteq> place \<Longrightarrow> filter (\<lambda>rr. rr_place rr = P) z = filter (\<lambda>rr. rr_place rr = P) y"
proof -
  have s: "set z = set y" "length z = length y" using assms(1) by (metis set_mset_mset, metis size_mset)
  have "map place_key z = replicate (length z) (Place_num place)"
    using assms(2) s(1) by (intro replicate_eqI) (auto simp: place_key_def)
  moreover have "map place_key y = replicate (length y) (Place_num place)"
    using assms(2) by (intro replicate_eqI) (auto simp: place_key_def)
  ultimately show "map place_key z = map place_key y" using s(2) by simp
  show "filter (\<lambda>rr. rr_place rr = P) z = filter (\<lambda>rr. rr_place rr = P) y" if "P \<noteq> place"
    using assms(2) s(1) that by (simp add: filter_empty_conv)
qed

text \<open>
  Ordering and shuffling the records of a reply rearranges them: the sections come in
  the order of the packet, and the questions and the authority records keep the order they were
  added in, whatever the shuffle does with the answers and the additional records.
\<close>

theorem ordered_and_shuffled:
  assumes "\<And>xs. mset (sh1 xs) = mset xs" "\<And>xs. mset (sh2 xs) = mset xs"
  shows "mset (orderAndShuffle sh1 sh2 rrs) = mset rrs \<and>
    sorted (map (\<lambda>rr. Place_num (rr_place rr)) (orderAndShuffle sh1 sh2 rrs)) \<and>
    filter (\<lambda>rr. rr_place rr = AUTHORITY) (orderAndShuffle sh1 sh2 rrs) = filter (\<lambda>rr. rr_place rr = AUTHORITY) rrs \<and>
    filter (\<lambda>rr. rr_place rr = QUESTION) (orderAndShuffle sh1 sh2 rrs) = filter (\<lambda>rr. rr_place rr = QUESTION) rrs"
proof -
  let ?s = "sort_key place_key rrs"
  have key: "(\<lambda>rr. Place_num (rr_place rr)) = place_key" by (simp add: fun_eq_iff place_key_def)
  obtain a1 b1 where s1: "shuffle_section sh1 ANSWER ?s = (a1, b1)" by (cases "shuffle_section sh1 ANSWER ?s")
  obtain a2 b2 where s2: "shuffle_section sh2 ADDITIONAL b1 = (a2, b2)" by (cases "shuffle_section sh2 ADDITIONAL b1")
  have out: "orderAndShuffle sh1 sh2 rrs = a1 @ a2 @ b2" by (simp add: orderAndShuffle_def shuffle_def key s1 s2)
  obtain x1 y1 z1 where 1: "?s = x1 @ y1 @ b1" "a1 = x1 @ z1" "mset z1 = mset y1" "\<forall>rr \<in> set y1. rr_place rr = ANSWER"
    using shuffle_section_split [OF s1 assms(1)] by blast
  obtain x2 y2 z2 where 2: "b1 = x2 @ y2 @ b2" "a2 = x2 @ z2" "mset z2 = mset y2" "\<forall>rr \<in> set y2. rr_place rr = ADDITIONAL"
    using shuffle_section_split [OF s2 assms(2)] by blast
  have in_order: "?s = x1 @ y1 @ x2 @ y2 @ b2" using 1(1) 2(1) by simp
  have "mset (orderAndShuffle sh1 sh2 rrs) = mset ?s" by (simp add: out in_order 1(2,3) 2(2,3))
  moreover have "map place_key (orderAndShuffle sh1 sh2 rrs) = map place_key ?s"
    by (simp add: out in_order 1(2) 2(2) mset_same_key(1) [OF 1(3,4)] mset_same_key(1) [OF 2(3,4)])
  moreover have keep: "filter (\<lambda>rr. rr_place rr = P) (orderAndShuffle sh1 sh2 rrs) = filter (\<lambda>rr. rr_place rr = P) rrs"
    if "P \<noteq> ANSWER" "P \<noteq> ADDITIONAL" for P
  proof -
    have "filter (\<lambda>rr. rr_place rr = P) (orderAndShuffle sh1 sh2 rrs) = filter (\<lambda>rr. rr_place rr = P) ?s"
      using that by (simp add: out in_order 1(2) 2(2) mset_same_key(2) [OF 1(3,4)] mset_same_key(2) [OF 2(3,4)])
    also have "(\<lambda>rr. rr_place rr = P) = (\<lambda>rr. place_key rr = Place_num P)" by (simp add: fun_eq_iff place_key_def Place_num_inj)
    also have "filter (\<lambda>rr. place_key rr = Place_num P) ?s = filter (\<lambda>rr. place_key rr = Place_num P) rrs"
      by (rule sort_key_stable)
    finally show ?thesis by (simp add: place_key_def Place_num_inj)
  qed
  ultimately show ?thesis unfolding key by simp
qed

lemma ordered_and_shuffled_witness:
  "mset (orderAndShuffle rev rev [example_record, example_record]) = mset [example_record, example_record]"
  using ordered_and_shuffled [of rev rev "[example_record, example_record]"] by simp

end
