(* ===== verification/MultiIndex.thy ===== *)
theory MultiIndex
  imports Misc "HOL-Library.Product_Lexorder" "HOL-Library.Multiset" "HOL-Library.Sublist"
begin

text \<open>
  The containers of the caches, and their pruning (\<open>cachecleaner.hh\<close>). A cache is a boost container
  with a unique ordered index over a sequence; it is represented by what it holds, the list of its
  entries in the order of the sequence. The ordered index is a view of that list by the comparison
  of the index. The interface \<open>ordered_index\<close> asks that the comparison is one of keys.
\<close>

subsection \<open>The container\<close>

definition mi_equiv :: "('a \<Rightarrow> 'a \<Rightarrow> bool) \<Rightarrow> 'a \<Rightarrow> 'a \<Rightarrow> bool" where
  "mi_equiv lt a b \<longleftrightarrow> \<not> lt a b \<and> \<not> lt b a"

definition mi_find :: "('a \<Rightarrow> 'a \<Rightarrow> bool) \<Rightarrow> 'a \<Rightarrow> 'a list \<Rightarrow> 'a option" where
  "mi_find lt k m = find (mi_equiv lt k) m"

text \<open>An entry is not inserted if there is one of its key; the flag tells whether it was.\<close>

definition mi_insert :: "('a \<Rightarrow> 'a \<Rightarrow> bool) \<Rightarrow> 'a \<Rightarrow> 'a list \<Rightarrow> 'a list \<times> bool" where
  "mi_insert lt v m = (case mi_find lt v m of Some place \<Rightarrow> (m, False) | None \<Rightarrow> (m @ [v], True))"

definition mi_replace :: "('a \<Rightarrow> 'a \<Rightarrow> bool) \<Rightarrow> 'a \<Rightarrow> 'a list \<Rightarrow> 'a list" where
  "mi_replace lt v m = map (\<lambda>e. if mi_equiv lt v e then v else e) m"

definition mi_erase :: "('a \<Rightarrow> 'a \<Rightarrow> bool) \<Rightarrow> 'a list \<Rightarrow> 'a list \<Rightarrow> 'a list" where
  "mi_erase lt es m = filter (\<lambda>e. \<forall>x \<in> set es. \<not> mi_equiv lt x e) m"

fun mi_place :: "('a \<Rightarrow> 'a \<Rightarrow> bool) \<Rightarrow> 'a \<Rightarrow> 'a list \<Rightarrow> 'a list" where
  "mi_place lt x [] = [x]"
| "mi_place lt x (y # ys) = (if lt y x then y # mi_place lt x ys else x # y # ys)"

definition mi_ordered :: "('a \<Rightarrow> 'a \<Rightarrow> bool) \<Rightarrow> 'a list \<Rightarrow> 'a list" where
  "mi_ordered lt m = foldr (mi_place lt) m []"

text \<open>Moving an entry in the sequence, to its front or its back.\<close>

definition moveCacheItemToFrontOrBack :: "('a \<Rightarrow> 'a \<Rightarrow> bool) \<Rightarrow> 'a \<Rightarrow> bool \<Rightarrow> 'a list \<Rightarrow> 'a list" where
  "moveCacheItemToFrontOrBack lt k front m =
     (let item = filter (mi_equiv lt k) m; rest = filter (\<lambda>e. \<not> mi_equiv lt k e) m
      in if front then item @ rest else rest @ item)"

definition moveCacheItemToFront :: "('a \<Rightarrow> 'a \<Rightarrow> bool) \<Rightarrow> 'a \<Rightarrow> 'a list \<Rightarrow> 'a list" where
  "moveCacheItemToFront lt k m = moveCacheItemToFrontOrBack lt k True m"

definition moveCacheItemToBack :: "('a \<Rightarrow> 'a \<Rightarrow> bool) \<Rightarrow> 'a \<Rightarrow> 'a list \<Rightarrow> 'a list" where
  "moveCacheItemToBack lt k m = moveCacheItemToFrontOrBack lt k False m"

subsection \<open>Pruning\<close>

text \<open>The loop over the sequence; the result has what is left and how many entries were erased.\<close>

fun prune_loop :: "('a \<Rightarrow> u32) \<Rightarrow> u32 \<Rightarrow> nat \<Rightarrow> nat \<Rightarrow> nat \<Rightarrow> nat \<Rightarrow> 'a list \<Rightarrow> 'a list \<times> nat" where
  "prune_loop getTTD now toTrim lookAt tried erased [] = ([], erased)"
| "prune_loop getTTD now toTrim lookAt tried erased (e # es) =
     (if tried < lookAt then
        let (kept, erased) = (if getTTD e < now then ([], erased + 1) else ([e], erased))
        in if toTrim \<noteq> 0 \<and> erased > toTrim then (kept @ es, erased)
           else (case prune_loop getTTD now toTrim lookAt (tried + 1) erased es of (es, erased) \<Rightarrow> (kept @ es, erased))
      else (e # es, erased))"

definition pruneCollection :: "('a \<Rightarrow> u32) \<Rightarrow> u32 \<Rightarrow> nat \<Rightarrow> nat \<Rightarrow> 'a list \<Rightarrow> 'a list" where
  "pruneCollection getTTD now maxCached scanFraction m =
     (let cacheSize = length m; toTrim = (if cacheSize > maxCached then cacheSize - maxCached else 0);
          lookAt = (if toTrim \<noteq> 0 then 5 * toTrim else cacheSize div scanFraction);
          (m, erased) = prune_loop getTTD now toTrim lookAt 0 0 m
      in if erased \<ge> toTrim then m else drop (toTrim - erased) m)"

lemma prune_loop_erased:
  "prune_loop getTTD now toTrim lookAt tried erased m = (m', erased') \<Longrightarrow>
   length m' + erased' = length m + erased \<and> (toTrim \<noteq> 0 \<longrightarrow> erased \<le> toTrim \<longrightarrow> erased' \<le> toTrim + 1) \<and>
   subseq m' m \<and> (\<forall>e \<in> set m. getTTD e < now \<or> e \<in> set m')"
proof (induction getTTD now toTrim lookAt tried erased m arbitrary: m' erased' rule: prune_loop.induct)
  case (2 getTTD now toTrim lookAt tried erased e es)
  show ?case
  proof (cases "tried < lookAt")
    case True
    show ?thesis
    proof (cases "getTTD e < now")
      case e: True
      show ?thesis
      proof (cases "toTrim \<noteq> 0 \<and> erased + 1 > toTrim")
        case True
        then show ?thesis using "2.prems" \<open>tried < lookAt\<close> e by auto
      next
        case False
        then obtain es' where "prune_loop getTTD now toTrim lookAt (tried + 1) (erased + 1) es = (es', erased')" "m' = es'"
          using "2.prems" \<open>tried < lookAt\<close> e by (auto split: prod.splits)
        then show ?thesis using "2.IH"(1) [OF True] False e by fastforce
      qed
    next
      case e: False
      show ?thesis
      proof (cases "toTrim \<noteq> 0 \<and> erased > toTrim")
        case True
        then show ?thesis using "2.prems" \<open>tried < lookAt\<close> e by auto
      next
        case False
        then obtain es' where "prune_loop getTTD now toTrim lookAt (tried + 1) erased es = (es', erased')" "m' = e # es'"
          using "2.prems" \<open>tried < lookAt\<close> e by (auto split: prod.splits)
        then show ?thesis using "2.IH"(1) [OF True] False e by fastforce
      qed
    qed
  qed (use "2.prems" in auto)
qed auto

text \<open>
  Property C37. Pruning brings a collection that is too large down to its limit, with at most one
  entry less; one that is within its limit only loses entries that have expired.
\<close>

theorem pruned_to_limit:
  "(length m > maxCached \<longrightarrow>
      length (pruneCollection getTTD now maxCached scanFraction m) \<in> {maxCached - 1, maxCached}) \<and>
   (length m \<le> maxCached \<longrightarrow>
      (\<forall>e \<in> set m. getTTD e < now \<or> e \<in> set (pruneCollection getTTD now maxCached scanFraction m)))"
proof -
  let ?trim = "if length m > maxCached then length m - maxCached else 0"
  let ?look = "if ?trim \<noteq> 0 then 5 * ?trim else length m div scanFraction"
  obtain m' erased where p: "prune_loop getTTD now ?trim ?look 0 0 m = (m', erased)" by fastforce
  have r: "pruneCollection getTTD now maxCached scanFraction m = (if erased \<ge> ?trim then m' else drop (?trim - erased) m')"
    unfolding pruneCollection_def Let_def p by simp
  show ?thesis
  proof (intro conjI impI)
    assume "length m > maxCached"
    with prune_loop_erased [OF p] have "length m' + erased = length m" "erased \<le> ?trim + 1" by auto
    then show "length (pruneCollection getTTD now maxCached scanFraction m) \<in> {maxCached - 1, maxCached}"
      using \<open>length m > maxCached\<close> unfolding r by auto
  next
    assume "length m \<le> maxCached"
    then have "pruneCollection getTTD now maxCached scanFraction m = m'" by (simp add: r)
    with prune_loop_erased [OF p] show "\<forall>e \<in> set m. getTTD e < now \<or> e \<in> set (pruneCollection getTTD now maxCached scanFraction m)"
      by blast
  qed
qed

lemma pruned_to_limit_witness:
  "length (pruneCollection (\<lambda>e. e) 5 2 1000 [3, 9, 4, 2, 8]) \<in> {1, 2}"
  using pruned_to_limit [of 2 "[3, 9, 4, 2, 8]" "\<lambda>e. e" 5 1000] by simp

lemma pruned_subseq: "subseq (pruneCollection getTTD now maxCached scanFraction m) m"
proof -
  obtain m' n where p: "prune_loop getTTD now (if length m > maxCached then length m - maxCached else 0)
      (if length m > maxCached then 5 * (length m - maxCached) else length m div scanFraction) 0 0 m = (m', n)" by fastforce
  have s: "subseq m' m" using prune_loop_erased [OF p] by simp
  then have "subseq (drop k m') m" for k
    by (rule subseq_order.trans [rotated]) (simp add: suffix_imp_subseq suffix_drop)
  with s show ?thesis using p by (auto simp: pruneCollection_def Let_def)
qed

subsection \<open>The ordered index\<close>

text \<open>Comparing field by field is comparing pairs.\<close>

lemma pair_less: "(a, p) < (b, q) \<longleftrightarrow> (if a \<noteq> b then a < b else p < q)" for a b :: "'a :: linorder" and p q :: "'b :: linorder"
  by auto

lemma decided_first: "(if a < b then True else if b < a then False else P) \<longleftrightarrow> (if a \<noteq> b then a < b else P)" for a b :: "'a :: linorder"
  by auto

lemma set_subseq: "subseq xs ys \<Longrightarrow> set xs \<subseteq> set ys"
  by (auto dest: list_emb_set)

lemma distinct_subseq: "subseq xs ys \<Longrightarrow> distinct ys \<Longrightarrow> distinct xs"
  by (induction rule: list_emb.induct) (auto dest: set_subseq)

locale ordered_index =
  fixes lt :: "'a \<Rightarrow> 'a \<Rightarrow> bool" and key :: "'a \<Rightarrow> 'k :: linorder"
  assumes less_key: "lt a b \<longleftrightarrow> key a < key b"
begin

lemma equiv_key: "mi_equiv lt a b \<longleftrightarrow> key a = key b"
  by (auto simp: mi_equiv_def less_key)

text \<open>At most one entry for a key, and the entry for a key.\<close>

definition unique :: "'a list \<Rightarrow> bool" where
  "unique m \<longleftrightarrow> distinct (map key m)"

definition entry :: "'a list \<Rightarrow> 'k \<Rightarrow> 'a option" where
  "entry m k = find (\<lambda>e. key e = k) m"

lemma find_entry: "mi_find lt v m = entry m (key v)"
  by (simp add: mi_find_def entry_def equiv_key [abs_def] eq_commute)

lemma entry_Some: "unique m \<Longrightarrow> entry m k = Some e \<longleftrightarrow> e \<in> set m \<and> key e = k"
  by (induction m) (auto simp: unique_def entry_def)

lemma entry_None: "entry m k = None \<longleftrightarrow> k \<notin> key ` set m"
  by (auto simp: entry_def find_None_iff)

lemma insert_unique: "unique m \<Longrightarrow> unique (fst (mi_insert lt v m))"
  by (auto simp: mi_insert_def find_entry unique_def entry_None split: option.split)

lemma replace_keys: "map key (mi_replace lt v m) = map key m"
  by (auto simp: mi_replace_def equiv_key)

lemma replace_unique: "unique m \<Longrightarrow> unique (mi_replace lt v m)"
  by (simp add: unique_def replace_keys)

lemma erase_unique: "unique m \<Longrightarrow> unique (mi_erase lt r m)"
  by (simp add: unique_def mi_erase_def distinct_map_filter)

text \<open>Storing an entry, over one with its key if there is one.\<close>

definition store :: "'a \<Rightarrow> 'a list \<Rightarrow> 'a list" where
  "store v m = (let (m', success) = mi_insert lt v m in if success then m' else mi_replace lt v m')"

lemma store_unique: "unique m \<Longrightarrow> unique (store v m)"
  using insert_unique [of m v] by (auto simp: store_def replace_unique split: prod.split)

lemma entry_store: "entry (store v m) = (entry m)(key v \<mapsto> v)"
proof
  fix k
  show "entry (store v m) k = ((entry m)(key v \<mapsto> v)) k"
  proof (cases "entry m (key v)")
    case None
    then have s: "store v m = m @ [v]" by (simp add: store_def mi_insert_def find_entry)
    have "find P (m @ [v]) = (case find P m of Some e \<Rightarrow> Some e | None \<Rightarrow> if P v then Some v else None)" for P
      by (induction m) auto
    with None show ?thesis by (auto simp: s entry_def split: option.split)
  next
    case (Some e)
    then have s: "store v m = mi_replace lt v m" by (simp add: store_def mi_insert_def find_entry)
    have "key v \<in> key ` set m" using Some entry_None [of m "key v"] by auto
    moreover have "entry (mi_replace lt v m) k = (if k = key v \<and> k \<in> key ` set m then Some v else entry m k)"
      by (induction m) (auto simp: mi_replace_def entry_def equiv_key)
    ultimately show ?thesis by (simp add: s)
  qed
qed

lemma place_sorted: "sorted (map key m) \<Longrightarrow> sorted (map key (mi_place lt x m)) \<and> set (mi_place lt x m) = insert x (set m)"
  by (induction m) (auto simp: less_key not_less)

lemma ordered_sorted: "sorted (map key (mi_ordered lt m)) \<and> set (mi_ordered lt m) = set m"
  by (induction m) (auto simp: mi_ordered_def place_sorted)

lemma place_mset: "mset (mi_place lt x m) = add_mset x (mset m)"
  by (induction m) auto

lemma ordered_mset: "mset (mi_ordered lt m) = mset m"
  by (induction m) (simp_all add: mi_ordered_def place_mset)

lemma erase_set: "unique m \<Longrightarrow> set r \<subseteq> set m \<Longrightarrow> set (mi_erase lt r m) = set m - set r"
  by (auto simp: mi_erase_def equiv_key unique_def distinct_map dest: inj_onD)

text \<open>The index does not depend on the order of the sequence.\<close>

lemma ordered_unique:
  assumes "mset m = mset m'" "unique m"
  shows "mi_ordered lt m = mi_ordered lt m'"
proof -
  have "set m = set m'" using assms(1) by (metis set_mset_mset)
  have d: "distinct (map key (mi_ordered lt m))" if "unique m" for m
    using that ordered_mset [of m] unfolding unique_def by (metis mset_map mset_eq_imp_distinct_iff)
  have "unique m'" using assms unfolding unique_def by (metis mset_map mset_eq_imp_distinct_iff)
  have "inj_on key (set m)" using assms(2) by (simp add: unique_def distinct_map)
  then have "inj_on key (set (mi_ordered lt m) \<union> set (mi_ordered lt m'))"
    using ordered_sorted [of m] ordered_sorted [of m'] \<open>set m = set m'\<close> by simp
  then show ?thesis
    by (rule map_sorted_distinct_set_unique)
       (use ordered_sorted d assms(2) \<open>unique m'\<close> \<open>set m = set m'\<close> in auto)
qed

lemma unique_mset: "mset m = mset m' \<Longrightarrow> unique m \<longleftrightarrow> unique m'"
  unfolding unique_def by (metis mset_map mset_eq_imp_distinct_iff)

lemma unique_subseq: "unique m \<Longrightarrow> subseq m' m \<Longrightarrow> unique m'"
  unfolding unique_def by (metis subseq_map distinct_subseq)

lemma moved_mset: "mset (moveCacheItemToFrontOrBack lt k front m) = mset m"
  by (simp add: moveCacheItemToFrontOrBack_def Let_def)

lemma in_replace: "e \<in> set (mi_replace lt v m) \<Longrightarrow> e = v \<or> e \<in> set m"
  by (auto simp: mi_replace_def)

end

end
