(* ===== verification/PacketCache.thy ===== *)
theory PacketCache
  imports MultiIndex DnsPacket
begin

text \<open>
  The cache of whole replies and of backend queries: \<open>packetcache.hh\<close>, \<open>packetcache.cc\<close>. The time
  and whether a lock was had are arguments of the operations. An operation that cleans up first is
  given one time for both.
\<close>

subsection \<open>Entries and their order\<close>

text \<open>Names are compared from their ends, without regard to case, as signed characters.\<close>

fun ci_backwards_loop :: "string \<Rightarrow> string \<Rightarrow> bool" where
  "ci_backwards_loop (a # ra) (b # rb) =
     (if dns_tolower a = dns_tolower b then ci_backwards_loop ra rb else scode (dns_tolower a) < scode (dns_tolower b))"
| "ci_backwards_loop (a # ra) [] = False"
| "ci_backwards_loop [] (b # rb) = True"
| "ci_backwards_loop [] [] = False"

definition CIBackwardsStringCompare :: "string \<Rightarrow> string \<Rightarrow> bool" where
  "CIBackwardsStringCompare str_a str_b = ci_backwards_loop (rev str_a) (rev str_b)"

record CacheEntry =
  ce_qname :: string
  ce_qtype :: u16
  ce_ctype :: u16
  ce_zoneID :: int
  ce_ttd :: int
  ce_meritsRecursion :: bool
  ce_maxReplyLen :: u32
  ce_dnssecOk :: bool
  ce_value :: string

text \<open>\<open>composite_key_compare\<close>: each member by its own comparison, the first that differs decides.\<close>

definition entry_less :: "CacheEntry \<Rightarrow> CacheEntry \<Rightarrow> bool" where
  "entry_less a b =
     (if CIBackwardsStringCompare (ce_qname a) (ce_qname b) then True
      else if CIBackwardsStringCompare (ce_qname b) (ce_qname a) then False
      else if ce_qtype a \<noteq> ce_qtype b then ce_qtype a < ce_qtype b
      else if ce_ctype a \<noteq> ce_ctype b then ce_ctype a < ce_ctype b
      else if ce_zoneID a \<noteq> ce_zoneID b then ce_zoneID a < ce_zoneID b
      else if ce_meritsRecursion a \<noteq> ce_meritsRecursion b then ce_meritsRecursion a < ce_meritsRecursion b
      else if ce_maxReplyLen a \<noteq> ce_maxReplyLen b then ce_maxReplyLen a < ce_maxReplyLen b
      else ce_dnssecOk a < ce_dnssecOk b)"

definition PACKETCACHE :: u16 where "PACKETCACHE = 0"
definition QUERYCACHE :: u16 where "QUERYCACHE = 1"

subsection \<open>State\<close>

record PacketCache =
  pc_map :: "CacheEntry list"
  pc_ops :: u32
  pc_ttl :: int
  pc_recursivettl :: int
  pc_doRecursion :: bool
  pc_statnumhit :: u32
  pc_statnummiss :: u32
  pc_statnumentries :: u32
  pc_deferred_lookup :: u32
  pc_deferred_inserts :: u32

record cache_settings =
  cs_ttl :: int
  cs_recursive_ttl :: int
  cs_recursor :: bool
  cs_max_entries :: int

definition PacketCache_init :: "bool \<Rightarrow> PacketCache" where
  "PacketCache_init unset =
     \<lparr> pc_map = [], pc_ops = 0, pc_ttl = -1, pc_recursivettl = -1, pc_doRecursion = unset, pc_statnumhit = 0, pc_statnummiss = 0,
       pc_statnumentries = 0, pc_deferred_lookup = 0, pc_deferred_inserts = 0 \<rparr>"

definition getTTLS :: "cache_settings \<Rightarrow> PacketCache \<Rightarrow> PacketCache" where
  "getTTLS s c = c\<lparr> pc_ttl := cs_ttl s, pc_recursivettl := cs_recursive_ttl s, pc_doRecursion := cs_recursor s \<rparr>"

definition with_ttls :: "cache_settings \<Rightarrow> PacketCache \<Rightarrow> PacketCache" where
  "with_ttls s c = (if pc_ttl c < 0 then getTTLS s c else c)"

subsection \<open>Cleaning up\<close>

fun cleanup_loop :: "int \<Rightarrow> nat \<Rightarrow> nat \<Rightarrow> nat \<Rightarrow> nat \<Rightarrow> CacheEntry list \<Rightarrow> CacheEntry list" where
  "cleanup_loop now toTrim lookAt erased lookedAt [] = []"
| "cleanup_loop now toTrim lookAt erased lookedAt (i # sidx) =
     (let (kept, erased) = (if ce_ttd i < now then ([], erased + 1) else ([i], erased))
      in if toTrim \<noteq> 0 \<and> erased > toTrim then kept @ sidx
         else if lookedAt > lookAt then kept @ sidx
         else kept @ cleanup_loop now toTrim lookAt erased (lookedAt + 1) sidx)"

definition cleanup :: "cache_settings \<Rightarrow> int \<Rightarrow> PacketCache \<Rightarrow> PacketCache" where
  "cleanup s now c =
     (let cacheSize = length (pc_map c); c = c\<lparr> pc_statnumentries := word_of_nat cacheSize \<rparr>;
          maxCached = unat (word_of_int (cs_max_entries s) :: u32);
          toTrim = (if maxCached \<noteq> 0 \<and> cacheSize > maxCached then cacheSize - maxCached else 0);
          lookAt = (if toTrim \<noteq> 0 then 5 * toTrim else cacheSize div 10)
      in if pc_map c = [] then c
         else let m = cleanup_loop now toTrim lookAt 0 0 (pc_map c)
              in c\<lparr> pc_map := m, pc_statnumentries := word_of_nat (length m) \<rparr>)"

text \<open>Every 300000th operation cleans up.\<close>

definition count_op :: "cache_settings \<Rightarrow> int \<Rightarrow> PacketCache \<Rightarrow> PacketCache" where
  "count_op s now c =
     (let c = c\<lparr> pc_ops := pc_ops c + 1 \<rparr> in if unat (pc_ops c) mod 300000 = 0 then cleanup s now c else c)"

subsection \<open>Looking up\<close>

definition lookup_key :: "string \<Rightarrow> QType \<Rightarrow> u16 \<Rightarrow> int \<Rightarrow> bool \<Rightarrow> u32 \<Rightarrow> bool \<Rightarrow> CacheEntry" where
  "lookup_key qname qtype cet zoneID meritsRecursion maxReplyLen dnssecOk =
     \<lparr> ce_qname = qname, ce_qtype = qtype, ce_ctype = cet, ce_zoneID = zoneID, ce_ttd = 0, ce_meritsRecursion = meritsRecursion,
       ce_maxReplyLen = maxReplyLen, ce_dnssecOk = dnssecOk, ce_value = [] \<rparr>"

text \<open>\<open>None\<close> is the result false.\<close>

definition getEntryLocked :: "int \<Rightarrow> PacketCache \<Rightarrow> string \<Rightarrow> QType \<Rightarrow> u16 \<Rightarrow> int \<Rightarrow> bool \<Rightarrow> u32 \<Rightarrow> bool \<Rightarrow> string option" where
  "getEntryLocked now c qname qtype cet zoneID meritsRecursion maxReplyLen dnssecOk =
     (case mi_find entry_less (lookup_key qname qtype cet zoneID meritsRecursion maxReplyLen dnssecOk) (pc_map c) of
        Some i \<Rightarrow> if ce_ttd i > now then Some (ce_value i) else None
      | None \<Rightarrow> None)"

definition getEntry :: "cache_settings \<Rightarrow> int \<Rightarrow> bool \<Rightarrow> string \<Rightarrow> QType \<Rightarrow> u16 \<Rightarrow> int \<Rightarrow> bool \<Rightarrow> u32 \<Rightarrow> bool \<Rightarrow> PacketCache
    \<Rightarrow> string option \<times> PacketCache" where
  "getEntry s now gotIt qname qtype cet zoneID meritsRecursion maxReplyLen dnssecOk c =
     (let c = count_op s now (with_ttls s c)
      in if \<not> gotIt then (None, c\<lparr> pc_deferred_lookup := pc_deferred_lookup c + 1 \<rparr>)
         else (getEntryLocked now c qname qtype cet zoneID meritsRecursion maxReplyLen dnssecOk, c))"

definition reply_length :: "DNSPacket \<Rightarrow> u32" where
  "reply_length p = ucast (if dp_tcp p then 0xffff else word_of_nat (getMaxReplyLen p) :: u16)"

definition PacketCache_get :: "cache_settings \<Rightarrow> int \<Rightarrow> bool \<Rightarrow> DNSPacket \<Rightarrow> DNSPacket \<Rightarrow> PacketCache \<Rightarrow> bool \<times> DNSPacket \<times> PacketCache" where
  "PacketCache_get s now gotIt p cached c =
     (let c = count_op s now (with_ttls s c); packetMeritsRecursion = pc_doRecursion c \<and> hdr_rd (dp_d p)
      in if (if packetMeritsRecursion then pc_recursivettl c = 0 else pc_ttl c = 0)
         then (False, cached, c\<lparr> pc_statnummiss := pc_statnummiss c + 1 \<rparr>)
         else if ntohs (hdr_qdcount (dp_d p)) \<noteq> 1 then (False, cached, c)
         else if \<not> gotIt then (False, cached, c\<lparr> pc_deferred_lookup := pc_deferred_lookup c + 1 \<rparr>)
         else case getEntryLocked now c (dp_qdomain p) (dp_qtype p) PACKETCACHE (-1) packetMeritsRecursion (reply_length p) (dp_dnssecOk p) of
           Some value \<Rightarrow>
             let c = c\<lparr> pc_statnumhit := pc_statnumhit c + 1 \<rparr>; (parsed, cached) = noparse (map c2b value) cached
             in if \<not> parsed then (False, cached, c) else (True, spoofQuestion (dp_qdomain p) cached, c)
         | None \<Rightarrow> (False, cached, c\<lparr> pc_statnummiss := pc_statnummiss c + 1 \<rparr>))"

subsection \<open>Inserting\<close>

definition PacketCache_insert :: "cache_settings \<Rightarrow> int \<Rightarrow> bool \<Rightarrow> string \<Rightarrow> QType \<Rightarrow> u16 \<Rightarrow> string \<Rightarrow> u32 \<Rightarrow> int \<Rightarrow> bool \<Rightarrow> u32 \<Rightarrow> bool
    \<Rightarrow> PacketCache \<Rightarrow> PacketCache" where
  "PacketCache_insert s now gotIt qname qtype cet val ttl zoneID meritsRecursion maxReplyLen dnssecOk c =
     (let c = count_op s now c
      in if ttl = 0 then c
         else let e = (lookup_key qname qtype cet zoneID meritsRecursion maxReplyLen dnssecOk)\<lparr> ce_ttd := now + uint ttl, ce_value := val \<rparr>
              in if gotIt
                 then let (m, success) = mi_insert entry_less e (pc_map c)
                      in c\<lparr> pc_map := (if \<not> success then mi_replace entry_less e m else m) \<rparr>
                 else c\<lparr> pc_deferred_inserts := pc_deferred_inserts c + 1 \<rparr>)"

text \<open>A reply is wrapped up to be inserted, which may fail.\<close>

definition PacketCache_insert_packet :: "wrap_env \<Rightarrow> cache_settings \<Rightarrow> int \<Rightarrow> bool \<Rightarrow> DNSPacket \<Rightarrow> DNSPacket \<Rightarrow> u32 \<Rightarrow> PacketCache
    \<Rightarrow> DNSPacket \<times> PacketCache \<times> unit result" where
  "PacketCache_insert_packet w s now gotIt q r maxttl c =
     (let c = with_ttls s c
      in if ntohs (hdr_qdcount (dp_d q)) \<noteq> 1 then (r, c, Inr ())
         else if dp_qclass q \<noteq> 1 then (r, c, Inr ())
         else let packetMeritsRecursion = pc_doRecursion c \<and> hdr_rd (dp_d q);
                  ourttl = (word_of_int (if packetMeritsRecursion then pc_recursivettl c else pc_ttl c) :: u32);
                  ourttl = (if maxttl < ourttl then maxttl else ourttl)
              in case getString w r of
                   (r, Inl e) \<Rightarrow> (r, c, Inl e)
                 | (r, Inr raw) \<Rightarrow>
                     (r, PacketCache_insert s now gotIt (dp_qdomain q) (dp_qtype q) PACKETCACHE (map b2c raw) ourttl (-1)
                           packetMeritsRecursion (reply_length q) (dp_dnssecOk q) c, Inr ()))"

subsection \<open>Purging and counting\<close>

definition purge_all :: "PacketCache \<Rightarrow> nat \<times> PacketCache" where
  "purge_all c = (length (pc_map c), c\<lparr> pc_map := [], pc_statnumentries := 0 \<rparr>)"

definition iends_with :: "string \<Rightarrow> string \<Rightarrow> bool" where
  "iends_with s t \<longleftrightarrow> length t \<le> length s \<and> toLower (drop (length s - length t) s) = toLower t"

text \<open>
  The entries from the place of the suffix on, as long as they match; without a dollar sign, the
  entries of the name.
\<close>

definition purge_range :: "string \<Rightarrow> CacheEntry list \<Rightarrow> CacheEntry list" where
  "purge_range sfx m =
     (let iter = dropWhile (\<lambda>e. CIBackwardsStringCompare (ce_qname e) sfx) (mi_ordered entry_less m)
      in takeWhile (\<lambda>e. pdns_iequals (ce_qname e) sfx \<or> iends_with (ce_qname e) (''.'' @ sfx)) iter)"

definition purge :: "string \<Rightarrow> PacketCache \<Rightarrow> nat \<times> PacketCache" where
  "purge match c =
     (let found = (if match \<noteq> [] \<and> last match = CHR ''$'' then purge_range (butlast match) (pc_map c)
            else filter (\<lambda>e. \<not> CIBackwardsStringCompare (ce_qname e) match \<and> \<not> CIBackwardsStringCompare match (ce_qname e)) (pc_map c));
          m = mi_erase entry_less found (pc_map c)
      in (length found, c\<lparr> pc_map := m, pc_statnumentries := word_of_nat (length m) \<rparr>))"

definition getCounts :: "PacketCache \<Rightarrow> (char \<rightharpoonup> nat)" where
  "getCounts c =
     (let n = (\<lambda>P. length (filter P (pc_map c)))
      in [CHR 0x21 \<mapsto> n (\<lambda>e. ce_ctype e = QUERYCACHE \<and> ce_value e = []), CHR ''Q'' \<mapsto> n (\<lambda>e. ce_ctype e = QUERYCACHE \<and> ce_value e \<noteq> []),
          CHR ''n'' \<mapsto> n (\<lambda>e. ce_ctype e = PACKETCACHE \<and> \<not> ce_meritsRecursion e), CHR ''r'' \<mapsto> n (\<lambda>e. ce_ctype e = PACKETCACHE \<and> ce_meritsRecursion e)])"

definition PacketCache_size :: "PacketCache \<Rightarrow> nat" where
  "PacketCache_size c = length (pc_map c)"

subsection \<open>The order is one of keys\<close>

type_synonym entry_key = "int list \<times> u16 \<times> u16 \<times> int \<times> bool \<times> u32 \<times> bool"

definition name_order :: "string \<Rightarrow> int list" where
  "name_order qname = ci_key (rev qname)"

definition entry_key :: "CacheEntry \<Rightarrow> entry_key" where
  "entry_key e = (name_order (ce_qname e), ce_qtype e, ce_ctype e, ce_zoneID e, ce_meritsRecursion e, ce_maxReplyLen e, ce_dnssecOk e)"

lemma ci_backwards_key: "ci_backwards_loop a b \<longleftrightarrow> ci_key a < ci_key b"
  by (induction a b rule: ci_backwards_loop.induct) (auto simp: ci_key_def toLower_def)

lemma compare_key: "CIBackwardsStringCompare a b \<longleftrightarrow> name_order a < name_order b"
  by (simp add: CIBackwardsStringCompare_def ci_backwards_key name_order_def)

interpretation packet_index: ordered_index entry_less entry_key
proof unfold_locales
  fix a b :: CacheEntry
  show "entry_less a b \<longleftrightarrow> entry_key a < entry_key b"
    by (simp only: entry_less_def entry_key_def compare_key pair_less decided_first)
qed

text \<open>The map that the cache stands for at a time: what has not expired.\<close>

definition cache_ok :: "PacketCache \<Rightarrow> bool" where
  "cache_ok c \<longleftrightarrow> packet_index.unique (pc_map c)"

definition fresh :: "int \<Rightarrow> PacketCache \<Rightarrow> entry_key \<rightharpoonup> string" where
  "fresh t c k = (case packet_index.entry (pc_map c) k of Some e \<Rightarrow> if ce_ttd e > t then Some (ce_value e) else None | None \<Rightarrow> None)"

lemma cleanup_loop_subseq: "subseq (cleanup_loop now toTrim lookAt erased lookedAt m) m"
  by (induction now toTrim lookAt erased lookedAt m rule: cleanup_loop.induct) (auto simp: Let_def)

lemma cleanup_loop_fresh: "e \<in> set m \<Longrightarrow> now \<le> ce_ttd e \<Longrightarrow> e \<in> set (cleanup_loop now toTrim lookAt erased lookedAt m)"
proof (induction m arbitrary: erased lookedAt)
  case (Cons i sidx)
  have IH: "e \<in> set sidx \<Longrightarrow> e \<in> set (cleanup_loop now toTrim lookAt n k sidx)" for n k
    using Cons.IH Cons.prems(2) by blast
  show ?case
    using Cons.prems IH [of "erased + 1" "lookedAt + 1"] IH [of erased "lookedAt + 1"]
    by (cases "ce_ttd i < now") (auto simp: Let_def)
qed simp

lemma fresh_cong: "pc_map c = pc_map c' \<Longrightarrow> fresh t c = fresh t c'"
  by (rule ext) (simp add: fresh_def)

lemma fresh_cleanup:
  assumes "cache_ok c" "now \<le> t"
  shows "cache_ok (cleanup s now c) \<and> fresh t (cleanup s now c) = fresh t c"
proof -
  have "\<exists>toTrim lookAt. pc_map (cleanup s now c) = cleanup_loop now toTrim lookAt 0 0 (pc_map c)"
    by (auto simp: cleanup_def Let_def)
  then obtain toTrim lookAt where m: "pc_map (cleanup s now c) = cleanup_loop now toTrim lookAt 0 0 (pc_map c)" by blast
  let ?m = "cleanup_loop now toTrim lookAt 0 0 (pc_map c)"
  have u: "packet_index.unique (pc_map c)" "packet_index.unique ?m"
    using assms(1) packet_index.unique_subseq [OF _ cleanup_loop_subseq] by (auto simp: cache_ok_def)
  have "fresh t (cleanup s now c) k = fresh t c k" for k
  proof (cases "packet_index.entry ?m k")
    case (Some e)
    then have "e \<in> set (pc_map c)" "entry_key e = k"
      using packet_index.entry_Some [OF u(2)] set_subseq [OF cleanup_loop_subseq] by blast+
    then have "packet_index.entry (pc_map c) k = Some e" using packet_index.entry_Some [OF u(1)] by blast
    then show ?thesis by (simp add: fresh_def m Some)
  next
    case None
    have "ce_ttd e \<le> t" if "packet_index.entry (pc_map c) k = Some e" for e
    proof (rule ccontr)
      assume "\<not> ce_ttd e \<le> t"
      moreover have "e \<in> set (pc_map c)" "entry_key e = k" using that packet_index.entry_Some [OF u(1)] by auto
      ultimately have "e \<in> set ?m" using assms(2) by (intro cleanup_loop_fresh) auto
      then show False using None \<open>entry_key e = k\<close> by (auto simp: packet_index.entry_None)
    qed
    then show ?thesis by (auto simp: fresh_def m None split: option.split)
  qed
  then show ?thesis using u(2) by (simp add: cache_ok_def m fun_eq_iff)
qed

lemma fresh_count_op:
  assumes "cache_ok c" "now \<le> t"
  shows "cache_ok (count_op s now c) \<and> fresh t (count_op s now c) = fresh t c"
proof -
  have "cache_ok (c\<lparr> pc_ops := n \<rparr>)" "fresh t (c\<lparr> pc_ops := n \<rparr>) = fresh t c" for n
    using assms(1) by (simp_all add: cache_ok_def fun_eq_iff fresh_def)
  then show ?thesis
    using fresh_cleanup [of "c\<lparr> pc_ops := pc_ops c + 1 \<rparr>" now t s] assms(2) by (simp add: count_op_def Let_def)
qed

lemma getEntryLocked_fresh:
  "getEntryLocked t c qname qtype cet zoneID merits maxlen dnssec =
   fresh t c (entry_key (lookup_key qname qtype cet zoneID merits maxlen dnssec))"
  by (simp add: getEntryLocked_def fresh_def packet_index.find_entry split: option.split)

lemma cache_refines:
  assumes "cache_ok c" "ttl \<noteq> 0" "now \<le> t"
    and "k = entry_key (lookup_key qname qtype cet zoneID merits maxlen dnssec)"
  shows "cache_ok (PacketCache_insert s now True qname qtype cet val ttl zoneID merits maxlen dnssec c) \<and>
    fresh t (PacketCache_insert s now True qname qtype cet val ttl zoneID merits maxlen dnssec c) =
      (fresh t c)(k := if t < now + uint ttl then Some val else None) \<and>
    fst (getEntry s t True qname qtype cet zoneID merits maxlen dnssec c) = fresh t c k \<and>
    fresh t (snd (getEntry s t True qname qtype cet zoneID merits maxlen dnssec c)) = fresh t c"
proof -
  let ?c = "count_op s now c"
  let ?e = "(lookup_key qname qtype cet zoneID merits maxlen dnssec)\<lparr> ce_ttd := now + uint ttl, ce_value := val \<rparr>"
  let ?c' = "PacketCache_insert s now True qname qtype cet val ttl zoneID merits maxlen dnssec c"
  have m: "pc_map ?c' = packet_index.store ?e (pc_map ?c)"
    using assms(2) by (simp add: PacketCache_insert_def Let_def packet_index.store_def split: prod.split)
  have ek: "entry_key ?e = k" by (simp add: assms(4) entry_key_def lookup_key_def)
  have ok: "cache_ok ?c" "fresh t ?c = fresh t c" using fresh_count_op [OF assms(1,3)] by auto
  have 1: "cache_ok ?c'" using ok(1) by (simp add: cache_ok_def m packet_index.store_unique)
  have 2: "fresh t ?c' = (fresh t ?c)(k := if t < now + uint ttl then Some val else None)"
    by (rule ext) (simp add: fresh_def m packet_index.entry_store ek)
  let ?d = "with_ttls s c"
  have d: "cache_ok ?d" "fresh t ?d = fresh t c"
    using assms(1) by (simp_all add: cache_ok_def fun_eq_iff fresh_def with_ttls_def getTTLS_def)
  note g = fresh_count_op [OF d(1), of t t s, OF order_refl]
  have 3: "fst (getEntry s t True qname qtype cet zoneID merits maxlen dnssec c) = fresh t c k"
    using g d(2) by (simp add: getEntry_def Let_def getEntryLocked_fresh assms(4))
  have 4: "fresh t (snd (getEntry s t True qname qtype cet zoneID merits maxlen dnssec c)) = fresh t c"
    using g d(2) by (simp add: getEntry_def Let_def)
  show ?thesis using 1 2 3 4 ok(2) by simp
qed

text \<open>
  Property C7. The cache refines a map from questions to answers with a time to die, in which the
  case of the name does not count: after an insertion the map has the answer for its question until
  its time is over, and is unchanged elsewhere; a lookup gives what the map has at its time. The
  housekeeping that any operation may do first is invisible.
\<close>

theorem packet_cache_refines:
  assumes "cache_ok c" "ttl \<noteq> 0" "now \<le> t"
    and "k = entry_key (lookup_key qname qtype cet zoneID merits maxlen dnssec)"
  shows "cache_ok (PacketCache_insert s now True qname qtype cet val ttl zoneID merits maxlen dnssec c) \<and>
    fresh t (PacketCache_insert s now True qname qtype cet val ttl zoneID merits maxlen dnssec c) =
      (fresh t c)(k := if t < now + uint ttl then Some val else None) \<and>
    fst (getEntry s t True qname qtype cet zoneID merits maxlen dnssec c) = fresh t c k \<and>
    fresh t (snd (getEntry s t True qname qtype cet zoneID merits maxlen dnssec c)) = fresh t c"
  using cache_refines [OF assms] by blast

lemma packet_cache_refines_witness:
  "fst (getEntry \<lparr> cs_ttl = 20, cs_recursive_ttl = 10, cs_recursor = False, cs_max_entries = 100 \<rparr> 1015 True ''WWW.example'' 1 QUERYCACHE 3 False 512 False
     (PacketCache_insert \<lparr> cs_ttl = 20, cs_recursive_ttl = 10, cs_recursor = False, cs_max_entries = 100 \<rparr> 1000 True ''www.Example'' 1 QUERYCACHE ''answer'' 20 3 False 512 False
       (PacketCache_init False))) = Some ''answer''"
proof -
  let ?s = "\<lparr> cs_ttl = 20, cs_recursive_ttl = 10, cs_recursor = False, cs_max_entries = 100 \<rparr>"
  let ?k = "entry_key (lookup_key ''www.Example'' 1 QUERYCACHE 3 False 512 False)"
  let ?c' = "PacketCache_insert ?s 1000 True ''www.Example'' 1 QUERYCACHE ''answer'' 20 3 False 512 False (PacketCache_init False)"
  have k: "?k = entry_key (lookup_key ''WWW.example'' 1 QUERYCACHE 3 False 512 False)" by code_simp
  have ok: "cache_ok (PacketCache_init False)" by (simp add: cache_ok_def PacketCache_init_def packet_index.unique_def)
  have i: "cache_ok ?c'" "fresh 1015 ?c' ?k = Some ''answer''"
    using packet_cache_refines [OF ok, of 20 1000 1015 ?k "''www.Example''" 1 QUERYCACHE 3 False 512 False ?s "''answer''"] by simp_all
  have "fst (getEntry ?s 1015 True ''WWW.example'' 1 QUERYCACHE 3 False 512 False ?c') = fresh 1015 ?c' ?k"
    using packet_cache_refines [OF i(1), of 20 1015 1015 ?k "''WWW.example''" 1 QUERYCACHE 3 False 512 False ?s "[]"] k by simp
  with i(2) show ?thesis by simp
qed

subsection \<open>Purging a suffix\<close>

definition suffix_matches :: "string \<Rightarrow> CacheEntry \<Rightarrow> bool" where
  "suffix_matches sfx e \<longleftrightarrow> pdns_iequals (ce_qname e) sfx \<or> iends_with (ce_qname e) (''.'' @ sfx)"

definition extends :: "string \<Rightarrow> CacheEntry \<Rightarrow> bool" where
  "extends sfx e \<longleftrightarrow> prefix (name_order sfx) (name_order (ce_qname e))"

lemma prefix_le: "prefix p k \<Longrightarrow> p \<le> (k :: int list)"
  by (induction p arbitrary: k) (auto simp: prefix_def)

lemma prefix_between: "prefix p k2 \<Longrightarrow> p \<le> k1 \<Longrightarrow> k1 \<le> k2 \<Longrightarrow> prefix p (k1 :: int list)"
proof (induction p arbitrary: k1 k2)
  case (Cons x p)
  then obtain k2' where k2: "k2 = x # k2'" "prefix p k2'" using Cons.prems(1) by (auto simp: prefix_def)
  with Cons.prems obtain y k1' where "k1 = y # k1'" by (cases k1) auto
  with k2 Cons show ?case by auto
qed simp

lemma name_order_alt: "name_order s = map scode (rev (toLower s))"
  by (simp add: name_order_def ci_key_def toLower_def rev_map)

lemma matches_extends: "suffix_matches sfx e \<Longrightarrow> extends sfx e"
proof -
  assume "suffix_matches sfx e"
  then consider "toLower (ce_qname e) = toLower sfx"
    | "length sfx < length (ce_qname e)" "toLower (drop (length (ce_qname e) - Suc (length sfx)) (ce_qname e)) = toLower (''.'' @ sfx)"
    by (auto simp: suffix_matches_def iends_with_def pdns_iequals_iff)
  then show ?thesis
  proof cases
    case 1
    then have "ci_key (rev (ce_qname e)) = ci_key (rev sfx)" by (simp add: ci_key_def toLower_def rev_map [symmetric])
    then show ?thesis unfolding extends_def name_order_def by (simp only: prefix_order.refl)
  next
    case 2
    let ?q = "ce_qname e" and ?n = "length (ce_qname e) - Suc (length sfx)"
    have "toLower ?q = toLower (take ?n ?q) @ toLower (''.'' @ sfx)"
      using 2(2) by (metis append_take_drop_id toLower_def map_append)
    then have "name_order ?q = name_order sfx @ map scode (rev (toLower (take ?n ?q) @ ''.''))"
      unfolding name_order_alt by (simp add: toLower_def)
    then show ?thesis by (simp add: extends_def)
  qed
qed

lemma take_matching:
  assumes "sorted (map nm es)" "\<forall>e \<in> set es. p \<le> nm e" "\<forall>e \<in> set es. Q e \<longleftrightarrow> prefix p (nm e :: int list)"
  shows "takeWhile Q es = filter Q es"
  using assms
proof (induction es)
  case (Cons e es)
  show ?case
  proof (cases "Q e")
    case True
    then show ?thesis using Cons by simp
  next
    case False
    then have "\<not> Q e'" if "e' \<in> set es" for e'
      using Cons.prems that prefix_between [of p "nm e'" "nm e"] by auto
    then have "filter Q es = []" by (simp add: filter_empty_conv)
    with False show ?thesis by simp
  qed
qed simp

lemma matching_range:
  assumes "sorted (map nm es)" "\<forall>e \<in> set es. Q e \<longleftrightarrow> prefix p (nm e :: int list)"
  shows "takeWhile Q (dropWhile (\<lambda>e. nm e < p) es) = filter Q es"
  using assms
proof (induction es)
  case (Cons e es)
  show ?case
  proof (cases "nm e < p")
    case True
    then have "\<not> prefix p (nm e)" using prefix_le [of p "nm e"] by auto
    then show ?thesis using Cons True by simp
  next
    case False
    then have "\<forall>e' \<in> set (e # es). p \<le> nm e'" using Cons.prems(1) by fastforce
    then show ?thesis using take_matching [OF Cons.prems(1) _ Cons.prems(2)] False by simp
  qed
qed simp

lemma ordered_names: "sorted (map (\<lambda>e. name_order (ce_qname e)) (mi_ordered entry_less m))"
proof -
  have "sorted (map entry_key (mi_ordered entry_less m))" using packet_index.ordered_sorted by blast
  then have "sorted (map fst (map entry_key (mi_ordered entry_less m)))"
    by (rule sorted_map_mono) (auto simp: mono_on_def less_eq_prod_def)
  then show ?thesis by (simp add: entry_key_def o_def)
qed

lemma purge_range_matches: "e \<in> set (purge_range sfx m) \<Longrightarrow> e \<in> set m \<and> suffix_matches sfx e"
proof -
  assume "e \<in> set (purge_range sfx m)"
  then have "suffix_matches sfx e" "e \<in> set (mi_ordered entry_less m)"
    by (auto simp: purge_range_def Let_def suffix_matches_def dest: set_takeWhileD set_dropWhileD)
  then show ?thesis using packet_index.ordered_sorted by blast
qed

text \<open>
  Property C38. Purging a suffix only removes entries of the name and of names below it. If no name
  in the cache ends on the suffix other than after a dot, exactly those entries go and are counted;
  otherwise the search may stop too early, as names like \<open>my-example\<close> come before those below \<open>example\<close>
  in the order: then nothing is removed.
\<close>

theorem purge_suffix:
  assumes "cache_ok c" "purge (sfx @ ''$'') c = (n, c')"
  shows "(\<forall>e \<in> set (pc_map c). e \<in> set (pc_map c') \<or> suffix_matches sfx e) \<and>
    ((\<forall>e \<in> set (pc_map c). extends sfx e \<longrightarrow> suffix_matches sfx e) \<longrightarrow>
       pc_map c' = filter (\<lambda>e. \<not> suffix_matches sfx e) (pc_map c) \<and> n = length (filter (suffix_matches sfx) (pc_map c)))"
proof -
  have c': "pc_map c' = mi_erase entry_less (purge_range sfx (pc_map c)) (pc_map c)" "n = length (purge_range sfx (pc_map c))"
    using assms(2) by (auto simp: purge_def Let_def)
  have u: "packet_index.unique (pc_map c)" using assms(1) by (simp add: cache_ok_def)
  have sub: "set (purge_range sfx (pc_map c)) \<subseteq> set (pc_map c)" using purge_range_matches by blast
  have set': "set (pc_map c') = set (pc_map c) - set (purge_range sfx (pc_map c))"
    unfolding c' by (rule packet_index.erase_set [OF u sub])
  show ?thesis
  proof (intro conjI impI)
    show "\<forall>e \<in> set (pc_map c). e \<in> set (pc_map c') \<or> suffix_matches sfx e"
      using set' purge_range_matches by blast
  next
    assume all: "\<forall>e \<in> set (pc_map c). extends sfx e \<longrightarrow> suffix_matches sfx e"
    have "\<forall>e \<in> set (mi_ordered entry_less (pc_map c)). suffix_matches sfx e \<longleftrightarrow> prefix (name_order sfx) (name_order (ce_qname e))"
      using all matches_extends packet_index.ordered_sorted [of "pc_map c"] by (auto simp: extends_def)
    from matching_range [OF ordered_names this]
    have r: "purge_range sfx (pc_map c) = filter (suffix_matches sfx) (mi_ordered entry_less (pc_map c))"
      by (simp add: purge_range_def Let_def compare_key suffix_matches_def [abs_def])
    have "mset (purge_range sfx (pc_map c)) = mset (filter (suffix_matches sfx) (pc_map c))"
      by (simp add: r packet_index.ordered_mset)
    then show "n = length (filter (suffix_matches sfx) (pc_map c))" unfolding c' by (metis size_mset)
    have "set (purge_range sfx (pc_map c)) = {e \<in> set (pc_map c). suffix_matches sfx e}"
      using packet_index.ordered_sorted [of "pc_map c"] by (auto simp: r)
    then show "pc_map c' = filter (\<lambda>e. \<not> suffix_matches sfx e) (pc_map c)"
      using u unfolding c'(1) mi_erase_def
      by (intro filter_cong refl) (auto simp: packet_index.equiv_key packet_index.unique_def distinct_map dest: inj_onD)
  qed
qed

text \<open>With the names of the comment in the source, and with one that stops the search.\<close>

definition example_cache :: "string list \<Rightarrow> PacketCache" where
  "example_cache names = (PacketCache_init False)\<lparr> pc_map := map (\<lambda>n. lookup_key n 1 PACKETCACHE (-1) False 512 False) names \<rparr>"

lemma purge_suffix_witness:
  "map ce_qname (pc_map (snd (purge ''powerdns.com$'' (example_cache [''www.powerdns.com'', ''powerdnsiscool.com'', ''powerdns.com''])))) =
   [''powerdnsiscool.com'']"
proof -
  let ?c = "example_cache [''www.powerdns.com'', ''powerdnsiscool.com'', ''powerdns.com'']"
  have u: "cache_ok ?c" unfolding cache_ok_def packet_index.unique_def by code_simp
  have a: "\<forall>e \<in> set (pc_map ?c). extends ''powerdns.com'' e \<longrightarrow> suffix_matches ''powerdns.com'' e" by code_simp
  have p: "purge (''powerdns.com'' @ ''$'') ?c = (fst (purge ''powerdns.com$'' ?c), snd (purge ''powerdns.com$'' ?c))" by simp
  from purge_suffix [OF u p] a
  have "pc_map (snd (purge ''powerdns.com$'' ?c)) = filter (\<lambda>e. \<not> suffix_matches ''powerdns.com'' e) (pc_map ?c)" by blast
  moreover have "map ce_qname (filter (\<lambda>e. \<not> suffix_matches ''powerdns.com'' e) (pc_map ?c)) = [''powerdnsiscool.com'']" by code_simp
  ultimately show ?thesis by simp
qed

lemma purge_stopped:
  "fst (purge ''powerdns.com$'' (example_cache [''www.powerdns.com'', ''my-powerdns.com''])) = 0"
  by code_simp

end
