(* ===== verification/RecursorCache.thy ===== *)
theory RecursorCache
  imports DnsPacketProps MultiIndex
begin

text \<open>
  The record cache of the recursor (\<open>recursor_cache.cc\<close>, \<open>recursor_cache.hh\<close>): the storage form of
  records, and class \<open>MemRecursorCache\<close> with all its operations. The library's address functions,
  the sorting of equal elements, the sizes of the objects and unset memory are in \<open>rcache_env\<close>.
\<close>

subsection \<open>Records in storage form\<close>

record StoredRecord =
  sr_ttd :: u32
  sr_string :: string

definition StoredRecord_less :: "StoredRecord \<Rightarrow> StoredRecord \<Rightarrow> bool" where
  "StoredRecord_less a b = string_less (sr_string a) (sr_string b)"

text \<open>
  \<open>rv_sort\<close> is \<open>std::sort\<close>, which may put equal records in any order; \<open>rv_ip\<close> is what a variable for
  an address holds before it is set, \<open>rv_domain_id\<close> the same for a member of a new record.
\<close>

record rcache_env =
  rv_lib :: addr_lib
  rv_registry :: registry
  rv_env :: env
  rv_writer :: DNSPacketWriter
  rv_what :: string
  rv_ip :: "byte list"
  rv_domain_id :: int
  rv_sort :: "StoredRecord list \<Rightarrow> StoredRecord list"
  rv_entry_size :: nat
  rv_record_size :: nat

definition IpToU32 :: "addr_lib \<Rightarrow> string \<Rightarrow> byte list \<Rightarrow> byte list \<times> bool" where
  "IpToU32 lib str ip =
     (if str = [] then ([0, 0, 0, 0], True)
      else case al_aton lib (text_to_nul str) of
             Some inp \<Rightarrow> (inp, True)
           | None \<Rightarrow> (ip, False))"

definition DNSRR2String :: "rcache_env \<Rightarrow> DNSResourceRecord \<Rightarrow> string result" where
  "DNSRR2String rv rr =
     (let ty = rr_qtype rr
      in if ty = qt_A then Inr (map b2c (fst (IpToU32 (rv_lib rv) (rr_content rr) (rv_ip rv))))
         else if ty = qt_AAAA then bindE (ComboAddress_of_string (rv_lib rv) (rr_content rr) 0) (\<lambda>ca. Inr (map b2c (ca_addr6 ca)))
         else if ty = qt_NS \<or> ty = qt_CNAME then Inr (simpleCompress (rr_content rr) (rr_qname rr))
         else bindE (mastermake_text (rv_registry rv) (rv_env rv) ty 1 (rr_content rr)) (\<lambda>drc.
                serialize (rv_writer rv) drc (rr_qname rr) False False))"

text \<open>
  The labels of a stored name; a compression pointer ends it. \<open>append\<close> copies from the C string: it
  may take the final NUL, but not more. The offset of the pointer is a sum with a signed character.
\<close>

function stored_name :: "string \<Rightarrow> string \<Rightarrow> nat \<Rightarrow> string \<Rightarrow> string result" where
  "stored_name qname serial frompos content =
     bindE (at serial frompos) (\<lambda>c.
       let labellen = ucode c; frompos = frompos + 1
       in if labellen = 0 then Inr content
          else if labellen div 64 = 3 then
            bindE (at serial frompos) (\<lambda>d.
              let encoded = simpleCompress qname []; offset = nat ((256 * int (labellen mod 64) + scode d - 12 - 5) mod 65536)
              in simpleExpandTo encoded offset content)
          else if frompos + labellen > length serial + 1 then Inl UndefinedBehaviour
          else stored_name qname serial (frompos + labellen) (content @ substr (serial @ [CHR 0x00]) frompos labellen @ ''.''))"
  by pat_completeness auto
termination
  by (relation "measure (\<lambda>(qname, serial, frompos, content). length serial + 2 - frompos)") (auto simp: at_def split: if_splits)

declare stored_name.simps [simp del]

definition String2DNSRR :: "rcache_env \<Rightarrow> string \<Rightarrow> QType \<Rightarrow> string \<Rightarrow> u32 \<Rightarrow> DNSResourceRecord result" where
  "String2DNSRR rv qname qt serial ttd =
     (let rr = (DNSResourceRecord_init qt ttd (rv_domain_id rv))\<lparr> rr_qname := qname \<rparr>
      in if qt = qt_A \<and> length serial = 4 then
           Inr (rr\<lparr> rr_content := U32ToIP (be_val32 (c2b (serial ! 0)) (c2b (serial ! 1)) (c2b (serial ! 2)) (c2b (serial ! 3))) \<rparr>)
         else if qt = qt_AAAA \<and> length serial = 16 then
           Inr (rr\<lparr> rr_content := al_nameinfo (rv_lib rv) (ComboAddress_zero\<lparr> ca_family := AF_INET6, ca_addr6 := map c2b serial \<rparr>) \<rparr>)
         else if qt = qt_CNAME \<or> qt = qt_NS \<or> qt = qt_PTR then
           bindE (stored_name qname serial 0 []) (\<lambda>content. Inr (rr\<lparr> rr_content := (if content = [] then ''.'' else content) \<rparr>))
         else
           bindE (unserialize (rv_registry rv) (rv_what rv) qname qt serial) (\<lambda>(regen, label, ttl).
             case regen of
               None \<Rightarrow> Inl UndefinedBehaviour
             | Some regen \<Rightarrow> Inr (rr\<lparr> rr_content := getZoneRepresentation (\<lambda>ty. NumberToType (rv_registry rv) ty 1) (rv_env rv) regen \<rparr>)))"

subsection \<open>The cache\<close>

record RCacheEntry =
  re_qname :: string
  re_qtype :: u16
  re_auth :: bool
  re_records :: "StoredRecord list"

definition RCacheEntry_getTTD :: "RCacheEntry \<Rightarrow> u32" where
  "RCacheEntry_getTTD e =
     (if length (re_records e) = 1 then sr_ttd (hd (re_records e))
      else foldl (\<lambda>earliest i. min earliest (sr_ttd i)) 0xffffffff (re_records e))"

definition rentry_less :: "RCacheEntry \<Rightarrow> RCacheEntry \<Rightarrow> bool" where
  "rentry_less a b =
     (if pdns_ilexicographical_compare (re_qname a) (re_qname b) then True
      else if pdns_ilexicographical_compare (re_qname b) (re_qname a) then False
      else re_qtype a < re_qtype b)"

text \<open>\<open>mc_cachecache\<close> has the entries between the two iterators of \<open>d_cachecache\<close>.\<close>

record MemRecursorCache =
  mc_cacheHits :: u64
  mc_cacheMisses :: u64
  mc_followRFC2181 :: bool
  mc_cache :: "RCacheEntry list"
  mc_cachecache :: "RCacheEntry list"
  mc_cachedqname :: string
  mc_cachecachevalid :: bool

definition MemRecursorCache_init :: MemRecursorCache where
  "MemRecursorCache_init =
     \<lparr> mc_cacheHits = 0, mc_cacheMisses = 0, mc_followRFC2181 = False, mc_cache = [], mc_cachecache = [],
       mc_cachedqname = [], mc_cachecachevalid = False \<rparr>"

definition rc_key :: "string \<Rightarrow> u16 \<Rightarrow> RCacheEntry" where
  "rc_key qname qtype = \<lparr> re_qname = qname, re_qtype = qtype, re_auth = False, re_records = [] \<rparr>"

text \<open>\<open>equal_range(tie(qname))\<close>: the part of the ordered index with the name, whatever the type.\<close>

definition name_range :: "string \<Rightarrow> RCacheEntry list \<Rightarrow> RCacheEntry list" where
  "name_range qname m =
     takeWhile (\<lambda>e. \<not> pdns_ilexicographical_compare qname (re_qname e))
       (dropWhile (\<lambda>e. pdns_ilexicographical_compare (re_qname e) qname) (mi_ordered rentry_less m))"

definition rc_size :: "MemRecursorCache \<Rightarrow> u32" where
  "rc_size c = word_of_nat (length (mc_cache c))"

definition rc_bytes :: "rcache_env \<Rightarrow> MemRecursorCache \<Rightarrow> u32" where
  "rc_bytes rv c =
     word_of_nat (sum_list (map (\<lambda>i. rv_entry_size rv + length (re_qname i) +
       sum_list (map (\<lambda>j. rv_record_size rv + length (sr_string j)) (re_records i))) (mc_cache c)))"

subsection \<open>Looking up\<close>

definition get_match :: "QType \<Rightarrow> RCacheEntry \<Rightarrow> bool" where
  "get_match qt e \<longleftrightarrow> re_qtype e = qt \<or> qt = qt_ANY \<or> (qt = qt_ADDR \<and> (re_qtype e = qt_A \<or> re_qtype e = qt_AAAA))"

definition sr_alive :: "int \<Rightarrow> StoredRecord \<Rightarrow> bool" where
  "sr_alive now k \<longleftrightarrow> sr_ttd k < 1000000000 \<or> sr_ttd k > word_of_int now"

text \<open>A set of records is the list of its elements in their order.\<close>

definition rrset_insert :: "DNSResourceRecord \<Rightarrow> DNSResourceRecord list \<Rightarrow> DNSResourceRecord list" where
  "rrset_insert rr res =
     (if mi_find DNSResourceRecord_less rr res = None then mi_place DNSResourceRecord_less rr res else res)"

text \<open>The loop over the records of an entry: the time of the last live one, and the set if asked for.\<close>

fun get_records :: "rcache_env \<Rightarrow> int \<Rightarrow> string \<Rightarrow> bool \<Rightarrow> u16 \<Rightarrow> StoredRecord list \<Rightarrow> u32 \<Rightarrow> DNSResourceRecord list \<Rightarrow> (u32 \<times> DNSResourceRecord list) result" where
  "get_records rv now qname want qtype [] ttd res = Inr (ttd, res)"
| "get_records rv now qname want qtype (k # ks) ttd res =
     (if sr_alive now k then
        (if want then
           bindE (String2DNSRR rv qname qtype (sr_string k) (sr_ttd k)) (\<lambda>rr.
             get_records rv now qname want qtype ks (sr_ttd k) (rrset_insert rr res))
         else get_records rv now qname want qtype ks (sr_ttd k) res)
      else get_records rv now qname want qtype ks ttd res)"

text \<open>The loop over the entries; the cache changes only in the order of its sequence.\<close>

fun get_entries :: "rcache_env \<Rightarrow> int \<Rightarrow> string \<Rightarrow> QType \<Rightarrow> bool \<Rightarrow> RCacheEntry list \<Rightarrow> RCacheEntry list \<Rightarrow> u32 \<Rightarrow> DNSResourceRecord list \<Rightarrow>
    RCacheEntry list \<times> (u32 \<times> DNSResourceRecord list) result" where
  "get_entries rv now qname qt want [] m ttd res = (m, Inr (ttd, res))"
| "get_entries rv now qname qt want (i # is) m ttd res =
     (if get_match qt i then
        (case get_records rv now qname want (re_qtype i) (re_records i) ttd res of
           Inl e \<Rightarrow> (m, Inl e)
         | Inr (ttd, res) \<Rightarrow>
             let m = (if want then (if res = [] then moveCacheItemToFront rentry_less i m else moveCacheItemToBack rentry_less i m) else m)
             in if qt \<noteq> qt_ANY \<and> qt \<noteq> qt_ADDR then (m, Inr (ttd, res))
                else get_entries rv now qname qt want is m ttd res)
      else get_entries rv now qname qt want is m ttd res)"

definition rc_get :: "rcache_env \<Rightarrow> int \<Rightarrow> string \<Rightarrow> QType \<Rightarrow> bool \<Rightarrow> MemRecursorCache \<Rightarrow>
    MemRecursorCache \<times> (int \<times> DNSResourceRecord list) result" where
  "rc_get rv now qname qt want c =
     (let c = (if \<not> mc_cachecachevalid c \<or> \<not> pdns_iequals (mc_cachedqname c) qname
               then c\<lparr> mc_cachedqname := qname, mc_cachecache := name_range qname (mc_cache c), mc_cachecachevalid := True \<rparr> else c)
      in if mc_cachecache c \<noteq> [] then
           (case get_entries rv now qname qt want (mc_cachecache c) (mc_cache c) 0 [] of
              (m, Inl e) \<Rightarrow> (c\<lparr> mc_cache := m \<rparr>, Inl e)
            | (m, Inr (ttd, res)) \<Rightarrow> (c\<lparr> mc_cache := m \<rparr>, Inr (sint (ttd - word_of_int now), res)))
         else (c, Inr (-1, [])))"

subsection \<open>Storing\<close>

definition attemptToRefreshNSTTL :: "QType \<Rightarrow> DNSResourceRecord list \<Rightarrow> RCacheEntry \<Rightarrow> bool" where
  "attemptToRefreshNSTTL qt content stored =
     (if \<not> re_auth stored then False
      else if qt \<noteq> qt_NS then False
      else if length content \<noteq> length (re_records stored) then False
      else if re_records stored = [] then False
      else if sr_ttd (hd (re_records stored)) > rr_ttl (hd content) then False
      else True)"

text \<open>A stored record equal to a new one: its new time.\<close>

definition update_ttd :: "int \<Rightarrow> QType \<Rightarrow> bool \<Rightarrow> bool \<Rightarrow> u32 \<Rightarrow> StoredRecord \<Rightarrow> StoredRecord" where
  "update_ttd now qt auth rfc2181 ttl j =
     (if sr_ttd j > word_of_int now \<and> ttl > sr_ttd j \<and> qt = qt_NS \<and> auth then j
      else if ttl > sr_ttd j \<or> (auth \<and> rfc2181) then j\<lparr> sr_ttd := ttl \<rparr>
      else j)"

text \<open>Storing one record. \<open>equal_range\<close> splits the sorted records in three.\<close>

definition store_record :: "rcache_env \<Rightarrow> int \<Rightarrow> QType \<Rightarrow> bool \<Rightarrow> bool \<Rightarrow> bool \<Rightarrow> StoredRecord \<Rightarrow> StoredRecord list \<Rightarrow> StoredRecord list" where
  "store_record rv now qt auth rfc2181 isNew dr rs =
     (if isNew then rs @ [dr]
      else let below = takeWhile (\<lambda>j. StoredRecord_less j dr) rs; rest = dropWhile (\<lambda>j. StoredRecord_less j dr) rs;
               equal = takeWhile (\<lambda>j. \<not> StoredRecord_less dr j) rest; above = dropWhile (\<lambda>j. \<not> StoredRecord_less dr j) rest
           in if equal \<noteq> [] then below @ map (update_ttd now qt auth rfc2181 (sr_ttd dr)) equal @ above
              else rv_sort rv (rs @ [dr]))"

fun store_records :: "rcache_env \<Rightarrow> int \<Rightarrow> QType \<Rightarrow> bool \<Rightarrow> bool \<Rightarrow> bool \<Rightarrow> DNSResourceRecord list \<Rightarrow> StoredRecord list \<Rightarrow> StoredRecord list result" where
  "store_records rv now qt auth rfc2181 isNew [] rs = Inr rs"
| "store_records rv now qt auth rfc2181 isNew (i # is) rs =
     bindE (DNSRR2String rv i) (\<lambda>s.
       store_records rv now qt auth rfc2181 isNew is
         (store_record rv now qt auth rfc2181 isNew \<lparr> sr_ttd = rr_ttl i, sr_string = s \<rparr> rs))"

text \<open>What happens to the stored entry before records are added; nothing at all if it is fresh.\<close>

definition clear_single :: "QType \<Rightarrow> RCacheEntry \<Rightarrow> RCacheEntry" where
  "clear_single qt ce = (if qt = qt_SOA \<or> qt = qt_CNAME then ce\<lparr> re_records := [] \<rparr> else ce)"

definition admit_unauth :: "int \<Rightarrow> bool \<Rightarrow> RCacheEntry \<Rightarrow> RCacheEntry option" where
  "admit_unauth now auth ce =
     (if \<not> auth \<and> re_auth ce then
        (if \<exists>j \<in> set (re_records ce). int (unat (sr_ttd j)) > now then None else Some (ce\<lparr> re_auth := False \<rparr>))
      else Some ce)"

definition clear_unauth :: "string \<Rightarrow> QType \<Rightarrow> DNSResourceRecord list \<Rightarrow> bool \<Rightarrow> bool \<Rightarrow> RCacheEntry \<Rightarrow> RCacheEntry \<times> bool" where
  "clear_unauth qname qt content auth isNew ce =
     (if auth \<and> ((length qname = 1 \<and> qname ! 0 = CHR ''.'') \<or> \<not> attemptToRefreshNSTTL qt content ce)
      then (ce\<lparr> re_records := [], re_auth := True \<rparr>, True) else (ce, isNew))"

text \<open>An exception of \<open>DNSRR2String\<close> leaves the stored entry as it is, a new one empty.\<close>

definition rc_replace :: "rcache_env \<Rightarrow> int \<Rightarrow> string \<Rightarrow> QType \<Rightarrow> DNSResourceRecord list \<Rightarrow> bool \<Rightarrow> MemRecursorCache \<Rightarrow>
    MemRecursorCache \<times> unit result" where
  "rc_replace rv now qname qt content auth c =
     (let c = c\<lparr> mc_cachecachevalid := False \<rparr>;
          new = \<lparr> re_qname = qname, re_qtype = qt, re_auth = auth, re_records = [] \<rparr>;
          (stored, isNew) = (case mi_find rentry_less new (mc_cache c) of Some stored \<Rightarrow> (stored, False) | None \<Rightarrow> (new, True));
          c = (if isNew then c\<lparr> mc_cache := fst (mi_insert rentry_less new (mc_cache c)) \<rparr> else c)
      in case admit_unauth now auth (clear_single qt stored) of
           None \<Rightarrow> (c, Inr ())
         | Some ce \<Rightarrow>
             let (ce, isNew) = clear_unauth qname qt content auth isNew ce
             in case store_records rv now qt auth (mc_followRFC2181 c) isNew content (re_records ce) of
                  Inl e \<Rightarrow> (c, Inl e)
                | Inr rs \<Rightarrow>
                    let ce = ce\<lparr> re_records := (if isNew then rv_sort rv rs else rs) \<rparr>
                    in (c\<lparr> mc_cache := mi_replace rentry_less ce (mc_cache c) \<rparr>, Inr ()))"

subsection \<open>Wiping, ageing, pruning, dumping\<close>

definition doWipeCache :: "string \<Rightarrow> u16 \<Rightarrow> MemRecursorCache \<Rightarrow> int \<times> MemRecursorCache" where
  "doWipeCache name qtype c =
     (let c = c\<lparr> mc_cachecachevalid := False \<rparr>;
          rng = (if qtype = 0xffff then name_range name (mc_cache c)
                 else filter (mi_equiv rentry_less (rc_key name qtype)) (mi_ordered rentry_less (mc_cache c)))
      in (int (length rng), c\<lparr> mc_cache := mi_erase rentry_less rng (mc_cache c) \<rparr>))"

definition doAgeCache :: "int \<Rightarrow> string \<Rightarrow> u16 \<Rightarrow> int \<Rightarrow> MemRecursorCache \<Rightarrow> bool \<times> MemRecursorCache" where
  "doAgeCache now name qtype newTTL c =
     (case mi_find rentry_less (rc_key name qtype) (mc_cache c) of
        None \<Rightarrow> (False, c)
      | Some e \<Rightarrow>
          let ttl = sint (RCacheEntry_getTTD e - word_of_int now)
          in if ttl < 0 then (False, c)
             else if ttl > newTTL then
               let c = c\<lparr> mc_cachecachevalid := False \<rparr>; newTTD = word_of_int (now + newTTL);
                   ce = e\<lparr> re_records := map (\<lambda>j. j\<lparr> sr_ttd := newTTD \<rparr>) (re_records e) \<rparr>
               in (True, c\<lparr> mc_cache := mi_replace rentry_less ce (mc_cache c) \<rparr>)
             else (False, c))"

definition doPrune :: "u32 \<Rightarrow> nat \<Rightarrow> MemRecursorCache \<Rightarrow> MemRecursorCache" where
  "doPrune now maxCached c =
     c\<lparr> mc_cachecachevalid := False, mc_cache := pruneCollection RCacheEntry_getTTD now maxCached 1000 (mc_cache c) \<rparr>"

definition show_int :: "int \<Rightarrow> string" where
  "show_int i = (if i < 0 then CHR ''-'' # show_nat (nat (- i)) else show_nat (nat i))"

text \<open>A line of the dump for each record.\<close>

definition dump_line :: "rcache_env \<Rightarrow> int \<Rightarrow> RCacheEntry \<Rightarrow> StoredRecord \<Rightarrow> string" where
  "dump_line rv now i j =
     (case String2DNSRR rv (re_qname i) (re_qtype i) (sr_string j) (sr_ttd j - word_of_int now) of
        Inr rr \<Rightarrow> text_to_nul (rr_qname rr) @ '' '' @ show_int (sint (rr_ttl rr)) @ '' IN '' @ QType_getName (rr_qtype rr) @ '' '' @
                   text_to_nul (rr_content rr) @ [CHR 0x0a]
      | Inl e \<Rightarrow> ''; error printing '' @ [CHR 0x27] @ text_to_nul (re_qname i) @ [CHR 0x27, CHR 0x0a])"

definition doDump :: "rcache_env \<Rightarrow> int \<Rightarrow> MemRecursorCache \<Rightarrow> nat \<times> string" where
  "doDump rv now c =
     (let lines = concat (map (\<lambda>i. map (dump_line rv now i) (re_records i)) (mc_cache c))
      in (length lines, ''; main record cache dump from thread follows'' @ [CHR 0x0a, CHR '';'', CHR 0x0a] @ concat lines))"

subsection \<open>The index and its invariant\<close>

definition rentry_key :: "RCacheEntry \<Rightarrow> int list \<times> u16" where
  "rentry_key e = (ci_key (re_qname e), re_qtype e)"

interpretation record_index: ordered_index rentry_less rentry_key
proof unfold_locales
  fix a b :: RCacheEntry
  show "rentry_less a b \<longleftrightarrow> rentry_key a < rentry_key b"
    by (simp only: rentry_less_def rentry_key_def ilex_key pair_less decided_first)
qed

definition string_key :: "string \<Rightarrow> nat list" where
  "string_key s = map ucode s"

lemma string_less_key: "string_less a b \<longleftrightarrow> string_key a < string_key b"
  by (induction a b rule: string_less.induct) (auto simp: string_key_def ucode_def)

lemma string_key_inject [simp]: "string_key a = string_key b \<longleftrightarrow> a = b"
  unfolding string_key_def by (rule inj_map_eq_map) (simp add: inj_on_def ucode_def)

definition sorts :: "(StoredRecord list \<Rightarrow> StoredRecord list) \<Rightarrow> bool" where
  "sorts f \<longleftrightarrow> (\<forall>rs. mset (f rs) = mset rs \<and> sorted (map (\<lambda>r. string_key (sr_string r)) (f rs)))"

definition records_sorted :: "RCacheEntry \<Rightarrow> bool" where
  "records_sorted e \<longleftrightarrow> sorted (map (\<lambda>r. string_key (sr_string r)) (re_records e))"

definition rc_ok :: "MemRecursorCache \<Rightarrow> bool" where
  "rc_ok c \<longleftrightarrow> record_index.unique (mc_cache c) \<and> (\<forall>e \<in> set (mc_cache c). records_sorted e) \<and>
     (mc_cachecachevalid c \<longrightarrow> mc_cachecache c = name_range (mc_cachedqname c) (mc_cache c))"

text \<open>The operations as steps of a cache.\<close>

inductive rc_step :: "rcache_env \<Rightarrow> MemRecursorCache \<Rightarrow> MemRecursorCache \<Rightarrow> bool" for rv where
  get: "rc_step rv c (fst (rc_get rv now qname qt want c))"
| replace: "rc_step rv c (fst (rc_replace rv now qname qt content auth c))"
| wipe: "rc_step rv c (snd (doWipeCache name qtype c))"
| age: "rc_step rv c (snd (doAgeCache now name qtype newTTL c))"
| prune: "rc_step rv c (doPrune now32 maxCached c)"

lemma name_range_mset: "mset m = mset m' \<Longrightarrow> record_index.unique m \<Longrightarrow> name_range q m = name_range q m'"
  by (simp add: name_range_def record_index.ordered_unique [of m m'])

lemma name_range_set: "e \<in> set (name_range q m) \<Longrightarrow> e \<in> set m"
  using record_index.ordered_sorted [of m] by (auto simp: name_range_def dest!: set_takeWhileD set_dropWhileD)

lemma get_entries_mset:
  "get_entries rv now q qt want es m ttd res = (m', r) \<Longrightarrow> mset m' = mset m"
proof (induction rv now q qt want es m ttd res arbitrary: m' r rule: get_entries.induct)
  case (2 rv now q qt want i es m ttd res)
  then show ?case
    by (auto simp: moveCacheItemToFront_def moveCacheItemToBack_def record_index.moved_mset Let_def split: sum.splits if_splits)
qed simp

lemma rc_ok_moved:
  assumes "rc_ok c" "mset m = mset (mc_cache c)"
  shows "rc_ok (c\<lparr> mc_cache := m \<rparr>)"
proof -
  have "set m = set (mc_cache c)" using assms(2) by (metis set_mset_mset)
  moreover have "record_index.unique m" using assms record_index.unique_mset [of m] by (simp add: rc_ok_def)
  ultimately show ?thesis using assms name_range_mset [of m "mc_cache c"] by (simp add: rc_ok_def)
qed

lemma rc_ok_get: "rc_ok c \<Longrightarrow> rc_ok (fst (rc_get rv now q qt want c))"
proof -
  assume ok: "rc_ok c"
  define c1 where "c1 = (if \<not> mc_cachecachevalid c \<or> \<not> pdns_iequals (mc_cachedqname c) q
               then c\<lparr> mc_cachedqname := q, mc_cachecache := name_range q (mc_cache c), mc_cachecachevalid := True \<rparr> else c)"
  have c1: "rc_ok c1" using ok by (simp add: c1_def rc_ok_def)
  obtain m r where g: "get_entries rv now q qt want (mc_cachecache c1) (mc_cache c1) 0 [] = (m, r)" by fastforce
  show ?thesis
    unfolding rc_get_def c1_def [symmetric] Let_def g
    using c1 rc_ok_moved [OF c1 get_entries_mset [OF g]] by (cases r) auto
qed

lemma sorted_store_record:
  assumes "sorts (rv_sort rv)" "\<not> isNew \<Longrightarrow> sorted (map (\<lambda>r. string_key (sr_string r)) rs)"
  shows "\<not> isNew \<Longrightarrow> sorted (map (\<lambda>r. string_key (sr_string r)) (store_record rv now qt auth rfc isNew dr rs))"
proof -
  assume new: "\<not> isNew"
  let ?k = "\<lambda>r. string_key (sr_string r)"
  let ?lt = "\<lambda>j. StoredRecord_less j dr" and ?ge = "\<lambda>j. \<not> StoredRecord_less dr j"
  let ?rest = "dropWhile ?lt rs"
  let ?new = "takeWhile ?lt rs @ map (update_ttd now qt auth rfc (sr_ttd dr)) (takeWhile ?ge ?rest) @ dropWhile ?ge ?rest"
  have "map ?k (map (update_ttd now qt auth rfc (sr_ttd dr)) xs) = map ?k xs" for xs
    by (auto simp: update_ttd_def)
  then have "map ?k ?new = map ?k (takeWhile ?lt rs @ takeWhile ?ge ?rest @ dropWhile ?ge ?rest)"
    by (simp only: map_append)
  then have "map ?k ?new = map ?k rs" by (simp only: takeWhile_dropWhile_id)
  then have "sorted (map ?k ?new)" using assms(2) [OF new] by simp
  then show ?thesis
    using new assms(1) by (auto simp: store_record_def Let_def sorts_def)
qed

lemma sorted_store_records:
  assumes "sorts (rv_sort rv)" "store_records rv now qt auth rfc isNew is rs = Inr rs'"
    and "\<not> isNew \<Longrightarrow> sorted (map (\<lambda>r. string_key (sr_string r)) rs)"
  shows "\<not> isNew \<Longrightarrow> sorted (map (\<lambda>r. string_key (sr_string r)) rs')"
  using assms(2,3)
proof (induction "is" arbitrary: rs)
  case (Cons i "is")
  then obtain s where s: "DNSRR2String rv i = Inr s"
    "store_records rv now qt auth rfc isNew is (store_record rv now qt auth rfc isNew \<lparr>sr_ttd = rr_ttl i, sr_string = s\<rparr> rs) = Inr rs'"
    by auto
  show ?case by (rule Cons.IH [OF Cons.prems(1) s(2)]) (rule sorted_store_record [OF assms(1) Cons.prems(3)])
qed auto

lemma rc_ok_changed:
  assumes "record_index.unique m" "\<forall>e \<in> set m. records_sorted e"
  shows "rc_ok (c\<lparr> mc_cachecachevalid := False, mc_cache := m \<rparr>)"
  using assms by (simp add: rc_ok_def)

lemma rc_ok_replace:
  assumes "rc_ok c" "sorts (rv_sort rv)"
  shows "rc_ok (fst (rc_replace rv now q qt content auth c))"
proof -
  define new where "new = \<lparr> re_qname = q, re_qtype = qt, re_auth = auth, re_records = [] \<rparr>"
  obtain stored isNew where st: "(case mi_find rentry_less new (mc_cache c) of Some stored \<Rightarrow> (stored, False) | None \<Rightarrow> (new, True)) = (stored, isNew)"
    by fastforce
  define m where "m = (if isNew then fst (mi_insert rentry_less new (mc_cache c)) else mc_cache c)"
  have u: "record_index.unique m" using assms(1) record_index.insert_unique by (simp add: m_def rc_ok_def)
  have srt: "\<forall>e \<in> set m. records_sorted e"
    using assms(1) by (auto simp: m_def rc_ok_def mi_insert_def new_def records_sorted_def split: option.splits)
  have rs: "records_sorted stored"
    using st assms(1) by (auto simp: new_def records_sorted_def rc_ok_def mi_find_def find_Some_iff split: option.splits dest!: nth_mem)
  have keep: "rc_ok (c\<lparr> mc_cachecachevalid := False, mc_cache := m \<rparr>)" by (rule rc_ok_changed [OF u srt])
  have "fst (rc_replace rv now q qt content auth c) = c\<lparr> mc_cachecachevalid := False, mc_cache := m \<rparr> \<or>
    (\<exists>ce. records_sorted ce \<and> fst (rc_replace rv now q qt content auth c) =
       c\<lparr> mc_cachecachevalid := False, mc_cache := mi_replace rentry_less ce m \<rparr>)"
  proof (cases "admit_unauth now auth (clear_single qt stored)")
    case None
    then show ?thesis by (simp add: rc_replace_def new_def [symmetric] st Let_def m_def)
  next
    case (Some ce)
    then have cs: "records_sorted ce" using rs by (auto simp: admit_unauth_def clear_single_def records_sorted_def split: if_splits)
    obtain ce' new' where cl: "clear_unauth q qt content auth isNew ce = (ce', new')" by fastforce
    have cs': "records_sorted ce'" using cs cl by (auto simp: clear_unauth_def records_sorted_def split: if_splits)
    show ?thesis
    proof (cases "store_records rv now qt auth (mc_followRFC2181 c) new' content (re_records ce')")
      case (Inl e)
      then show ?thesis using Some cl by (simp add: rc_replace_def new_def [symmetric] st Let_def m_def)
    next
      case (Inr rs')
      have "records_sorted (ce'\<lparr> re_records := (if new' then rv_sort rv rs' else rs') \<rparr>)"
        using sorted_store_records [OF assms(2) Inr] cs' assms(2) by (auto simp: records_sorted_def sorts_def)
      with Inr Some cl show ?thesis by (auto simp: rc_replace_def new_def [symmetric] st Let_def m_def)
    qed
  qed
  then show ?thesis
  proof (elim disjE exE conjE)
    fix ce
    assume ce: "records_sorted ce" "fst (rc_replace rv now q qt content auth c) = c\<lparr> mc_cachecachevalid := False, mc_cache := mi_replace rentry_less ce m \<rparr>"
    show ?thesis
      unfolding ce(2) using ce(1) srt by (intro rc_ok_changed record_index.replace_unique u) (auto dest!: record_index.in_replace)
  qed (simp add: keep)
qed

lemma rc_ok_wipe: "rc_ok c \<Longrightarrow> rc_ok (snd (doWipeCache name qtype c))"
  using record_index.erase_unique [of "mc_cache c"] by (auto simp: doWipeCache_def Let_def rc_ok_def) (simp_all add: mi_erase_def)

lemma rc_ok_age: "rc_ok c \<Longrightarrow> rc_ok (snd (doAgeCache now name qtype newTTL c))"
proof -
  assume ok: "rc_ok c"
  show ?thesis
  proof (cases "mi_find rentry_less (rc_key name qtype) (mc_cache c)")
    case (Some e)
    then have "e \<in> set (mc_cache c)" by (auto simp: mi_find_def find_Some_iff)
    then have "records_sorted e" using ok by (simp add: rc_ok_def)
    then have "records_sorted (e\<lparr> re_records := map (\<lambda>j. j\<lparr> sr_ttd := t \<rparr>) (re_records e) \<rparr>)" for t
      by (simp add: records_sorted_def o_def)
    with ok Some show ?thesis
      by (auto simp: doAgeCache_def Let_def rc_ok_def intro!: record_index.replace_unique dest!: record_index.in_replace)
  qed (simp add: doAgeCache_def ok)
qed

lemma rc_ok_prune: "rc_ok c \<Longrightarrow> rc_ok (doPrune now maxCached c)"
  using record_index.unique_subseq [OF _ pruned_subseq, of "mc_cache c" RCacheEntry_getTTD now maxCached 1000]
    set_subseq [OF pruned_subseq, of RCacheEntry_getTTD now maxCached 1000 "mc_cache c"]
  by (auto simp: doPrune_def rc_ok_def)

text \<open>
  Property C9. Whatever operations the recursor's cache has gone through, no two of its entries are
  of one name and type, the records of an entry are in order, and a remembered lookup range is what a
  new lookup of the name would give.
\<close>

theorem record_cache_invariant:
  assumes "sorts (rv_sort rv)" "(rc_step rv)\<^sup>*\<^sup>* MemRecursorCache_init c"
  shows "rc_ok c"
  using assms(2)
proof induction
  case base
  show ?case by (simp add: rc_ok_def MemRecursorCache_init_def record_index.unique_def)
next
  case (step c c')
  from step(2) show ?case
    by cases (simp_all add: step(3) assms(1) rc_ok_get rc_ok_replace rc_ok_wipe rc_ok_age rc_ok_prune)
qed

subsection \<open>What is stored is what is found\<close>

definition rr_key :: "DNSResourceRecord \<Rightarrow> nat list \<times> nat list" where
  "rr_key rr = (string_key (rr_qname rr), string_key (rr_content rr))"

interpretation rr_index: ordered_index DNSResourceRecord_less rr_key
  by unfold_locales (auto simp: DNSResourceRecord_less_def rr_key_def string_less_key)

lemma set_rrset_insert: "rr_key ` set (rrset_insert rr res) = insert (rr_key rr) (rr_key ` set res)"
  using rr_index.place_mset [of rr res, THEN arg_cong [where f = set_mset]] rr_index.entry_None [of res "rr_key rr"]
  by (auto simp: rrset_insert_def rr_index.find_entry)

definition shown_records :: "rcache_env \<Rightarrow> int \<Rightarrow> string \<Rightarrow> QType \<Rightarrow> StoredRecord list \<Rightarrow> DNSResourceRecord set" where
  "shown_records rv now q qt ks =
     {rr. \<exists>k \<in> set ks. sr_alive now k \<and> String2DNSRR rv q qt (sr_string k) (sr_ttd k) = Inr rr}"

lemma get_records_keys:
  "get_records rv now q True qt ks ttd res = Inr (ttd', res') \<Longrightarrow>
   rr_key ` set res' = rr_key ` set res \<union> rr_key ` shown_records rv now q qt ks"
proof (induction ks arbitrary: ttd res)
  case (Cons k ks)
  have split: "shown_records rv now q qt (k # ks) =
    {rr. sr_alive now k \<and> String2DNSRR rv q qt (sr_string k) (sr_ttd k) = Inr rr} \<union> shown_records rv now q qt ks"
    by (auto simp: shown_records_def)
  show ?case
  proof (cases "sr_alive now k")
    case True
    then obtain rr where rr: "String2DNSRR rv q qt (sr_string k) (sr_ttd k) = Inr rr"
      "get_records rv now q True qt ks (sr_ttd k) (rrset_insert rr res) = Inr (ttd', res')"
      using Cons.prems by auto
    show ?thesis using Cons.IH [OF rr(2)] True by (auto simp: split rr(1) set_rrset_insert)
  next
    case False
    then show ?thesis using Cons by (simp add: split)
  qed
qed (simp add: shown_records_def)

lemma equal_part:
  assumes "sorted (map k xs)"
  shows "takeWhile (\<lambda>e. \<not> a < k e) (dropWhile (\<lambda>e. k e < a) xs) = filter (\<lambda>e. k e = (a :: 'k :: linorder)) xs"
  using assms
proof (induction xs)
  case (Cons x xs)
  have "filter (\<lambda>e. k e = a) ys = takeWhile (\<lambda>e. \<not> a < k e) ys" if "sorted (map k ys)" "\<forall>e \<in> set ys. a \<le> k e" for ys
    using that
  proof (induction ys)
    case (Cons y ys)
    show ?case
    proof (cases "a < k y")
      case True
      then have "filter (\<lambda>e. k e = a) ys = []" using Cons.prems by (auto simp: filter_empty_conv)
      with True show ?thesis by simp
    next
      case False
      then show ?thesis using Cons by auto
    qed
  qed simp
  from this [of "x # xs"] Cons show ?case
    by (cases "k x < a") (simp_all add: not_less, force)
qed simp

lemma name_range_names: "name_range q m = filter (\<lambda>e. toLower (re_qname e) = toLower q) (mi_ordered rentry_less m)"
proof -
  have "sorted (map rentry_key (mi_ordered rentry_less m))" using record_index.ordered_sorted by blast
  then have "sorted (map fst (map rentry_key (mi_ordered rentry_less m)))"
    by (rule sorted_map_mono) (auto simp: mono_on_def less_eq_prod_def)
  then have "sorted (map (\<lambda>e. ci_key (re_qname e)) (mi_ordered rentry_less m))" by (simp add: rentry_key_def o_def)
  from equal_part [OF this, of "ci_key q"] show ?thesis by (simp add: name_range_def ilex_key)
qed

lemma get_entries_single:
  assumes "\<forall>i \<in> set es. get_match qt i \<longrightarrow> i = e" "e \<in> set es" "get_match qt e" "qt \<noteq> qt_ANY" "qt \<noteq> qt_ADDR"
  shows "snd (get_entries rv now q qt want es m ttd res) = get_records rv now q want (re_qtype e) (re_records e) ttd res"
  using assms(1,2)
proof (induction es)
  case (Cons i es)
  show ?case
  proof (cases "i = e")
    case True
    then show ?thesis using assms(3-5) by (simp add: Let_def split: sum.split)
  next
    case False
    then have "\<not> get_match qt i" "e \<in> set es" using Cons.prems by auto
    then show ?thesis using Cons by simp
  qed
qed simp

text \<open>A lookup that did not remember the name gives the live records of the entry of the key.\<close>

lemma rc_get_found:
  assumes "rc_ok c" "\<not> mc_cachecachevalid c" "e \<in> set (mc_cache c)" "rentry_key e = (ci_key q, qt)" "qt \<noteq> qt_ANY" "qt \<noteq> qt_ADDR"
    and "rc_get rv now q qt True c = (c', Inr (ttl, res))"
  shows "rr_key ` set res = rr_key ` shown_records rv now q qt (re_records e)"
proof -
  let ?es = "name_range q (mc_cache c)"
  have es: "set ?es = {e \<in> set (mc_cache c). toLower (re_qname e) = toLower q}"
    using record_index.ordered_sorted [of "mc_cache c"] by (auto simp: name_range_names)
  have e: "e \<in> set ?es" "get_match qt e" "re_qtype e = qt" using assms(3,4) by (auto simp: es rentry_key_def get_match_def)
  have "i = e" if "i \<in> set ?es" "get_match qt i" for i
  proof -
    have "rentry_key i = rentry_key e" using that assms(4-6) by (auto simp: es rentry_key_def get_match_def)
    then show ?thesis using assms(1,3) that(1) inj_onD [of rentry_key "set (mc_cache c)" i e]
      by (simp add: es rc_ok_def record_index.unique_def distinct_map)
  qed
  then have "\<forall>i \<in> set ?es. get_match qt i \<longrightarrow> i = e" by blast
  from get_entries_single [OF this e(1,2) assms(5,6)]
  have "snd (get_entries rv now q qt True ?es (mc_cache c) 0 []) = get_records rv now q True qt (re_records e) 0 []"
    unfolding e(3) .
  moreover have "?es \<noteq> []" using e(1) by auto
  moreover obtain m' r where g: "get_entries rv now q qt True ?es (mc_cache c) 0 [] = (m', r)" by fastforce
  ultimately have r: "r = get_records rv now q True qt (re_records e) 0 []" "?es \<noteq> []" by simp_all
  then obtain ttd where "get_records rv now q True qt (re_records e) 0 [] = Inr (ttd, res)"
    using assms(2,7) g by (cases "get_records rv now q True qt (re_records e) 0 []") (auto simp: rc_get_def Let_def)
  from get_records_keys [OF this] show ?thesis by simp
qed

text \<open>The records to store, in the form they are stored in.\<close>

fun stored_form :: "rcache_env \<Rightarrow> DNSResourceRecord list \<Rightarrow> StoredRecord list result" where
  "stored_form rv [] = Inr []"
| "stored_form rv (i # is) = bindE (DNSRR2String rv i) (\<lambda>s. bindE (stored_form rv is) (\<lambda>ks. Inr (\<lparr> sr_ttd = rr_ttl i, sr_string = s \<rparr> # ks)))"

lemma store_records_new:
  "store_records rv now qt auth rfc True content rs = bindE (stored_form rv content) (\<lambda>ks. Inr (rs @ ks))"
proof (induction content arbitrary: rs)
  case (Cons i content)
  then show ?case by (simp add: store_record_def bindE_def split: sum.split)
qed simp

lemma shown_records_mset: "mset ks = mset ks' \<Longrightarrow> shown_records rv now q qt ks = shown_records rv now q qt ks'"
  unfolding shown_records_def by (drule mset_eq_setD) simp

text \<open>
  Property C16. Authoritative data replaces what the cache has for the name and type: a lookup of the name
  and type, in any spelling, gives the new records that are alive, as they come back from their stored form.
  The one exception are name servers of a name other than the root whose entry could be refreshed
  (\<open>attemptToRefreshNSTTL\<close>): authoritative already, with as many records as there are new ones, and
  not to die after them. The pseudo types ANY and ADDR, which name no entry, are left out.
\<close>

theorem auth_data_found:
  assumes "rc_ok c" "sorts (rv_sort rv)" "qt \<notin> {qt_ANY, qt_ADDR}"
    and "rc_replace rv now q qt content True c = (c', Inr ())" "toLower q' = toLower q"
    and "rc_get rv t q' qt True c' = (c'', Inr (ttl, res))"
    and "q = ''.'' \<or> (\<forall>e \<in> set (mc_cache c). toLower (re_qname e) = toLower q \<and> re_qtype e = qt \<longrightarrow> \<not> attemptToRefreshNSTTL qt content e)"
  shows "\<exists>ks. stored_form rv content = Inr ks \<and> rr_key ` set res = rr_key ` shown_records rv t q' qt ks"
proof -
  define new where "new = \<lparr> re_qname = q, re_qtype = qt, re_auth = True, re_records = [] \<rparr>"
  obtain stored isNew where st: "(case mi_find rentry_less new (mc_cache c) of Some stored \<Rightarrow> (stored, False) | None \<Rightarrow> (new, True)) = (stored, isNew)"
    by fastforce
  define m where "m = (if isNew then fst (mi_insert rentry_less new (mc_cache c)) else mc_cache c)"
  have stored: "stored \<in> set m \<and> rentry_key stored = rentry_key new"
  proof (cases "mi_find rentry_less new (mc_cache c)")
    case None
    then show ?thesis using st by (auto simp: m_def mi_insert_def)
  next
    case (Some e)
    then show ?thesis using st record_index.entry_Some [of "mc_cache c" "rentry_key new" e] assms(1)
      by (auto simp: m_def record_index.find_entry rc_ok_def)
  qed
  have norefresh: "q = ''.'' \<or> \<not> attemptToRefreshNSTTL qt content (clear_single qt stored)"
  proof (cases "mi_find rentry_less new (mc_cache c)")
    case None
    then show ?thesis using st by (auto simp: attemptToRefreshNSTTL_def clear_single_def new_def)
  next
    case (Some e)
    then have "stored \<in> set (mc_cache c)" "rentry_key stored = rentry_key new"
      using st record_index.entry_Some [of "mc_cache c" "rentry_key new" e] assms(1) by (auto simp: record_index.find_entry rc_ok_def)
    then have "q = ''.'' \<or> \<not> attemptToRefreshNSTTL qt content stored"
      using assms(7) by (auto simp: rentry_key_def new_def ci_key_eq)
    then show ?thesis by (auto simp: attemptToRefreshNSTTL_def clear_single_def qt_NS_def qt_SOA_def qt_CNAME_def)
  qed
  then have cl: "clear_unauth q qt content True b (clear_single qt stored) = (stored\<lparr> re_records := [], re_auth := True \<rparr>, True)" for b
    by (auto simp: clear_unauth_def clear_single_def)
  from assms(4) obtain ks where ks: "stored_form rv content = Inr ks"
    "c' = c\<lparr> mc_cachecachevalid := False, mc_cache := mi_replace rentry_less (stored\<lparr> re_auth := True, re_records := rv_sort rv ks \<rparr>) m \<rparr>"
    by (cases isNew; cases "stored_form rv content")
       (simp_all add: rc_replace_def new_def [symmetric] st Let_def m_def cl admit_unauth_def store_records_new cong: if_cong)
  let ?e = "stored\<lparr> re_auth := True, re_records := rv_sort rv ks \<rparr>"
  have key: "rentry_key ?e = rentry_key stored" by (simp add: rentry_key_def)
  then have "?e \<in> set (mc_cache c')" using stored by (force simp: ks(2) mi_replace_def record_index.equiv_key)
  moreover have "rentry_key ?e = (ci_key q', qt)" using stored key assms(5) by (simp add: rentry_key_def new_def)
  moreover have "rc_ok c'" using rc_ok_replace [OF assms(1,2), of now q qt content True] assms(4) by simp
  ultimately have "rr_key ` set res = rr_key ` shown_records rv t q' qt (re_records ?e)"
    using assms(3) by (intro rc_get_found [OF _ _ _ _ _ _ assms(6)]) (auto simp: ks(2))
  then show ?thesis using shown_records_mset [of "rv_sort rv ks" ks] assms(2) ks(1) by (auto simp: sorts_def)
qed

subsection \<open>Fresh data from the authority\<close>

lemma update_ttd_string [simp]: "sr_string (update_ttd now qt auth rfc ttl j) = sr_string j"
  by (simp add: update_ttd_def)

lemma store_record_strings:
  assumes "sorts (rv_sort rv)"
  shows "sr_string ` set (store_record rv now qt auth rfc isNew dr rs) = insert (sr_string dr) (sr_string ` set rs)"
proof -
  let ?rest = "dropWhile (\<lambda>j. StoredRecord_less j dr) rs"
  let ?equal = "takeWhile (\<lambda>j. \<not> StoredRecord_less dr j) ?rest"
  let ?above = "dropWhile (\<lambda>j. \<not> StoredRecord_less dr j) ?rest"
  let ?below = "takeWhile (\<lambda>j. StoredRecord_less j dr) rs"
  have u: "sr_string ` set (map (update_ttd now qt auth rfc (sr_ttd dr)) xs) = sr_string ` set xs" for xs
    by (simp add: image_image)
  have parts: "rs = ?below @ ?equal @ ?above" by (simp only: takeWhile_dropWhile_id)
  have mem: "sr_string dr \<in> sr_string ` set rs" if "?equal \<noteq> []"
  proof -
    from that obtain x xs where x: "?equal = x # xs" by (cases ?equal) auto
    then have "hd ?rest = x" "?rest \<noteq> []" by (cases ?rest; auto split: if_splits)+
    with hd_dropWhile [of "\<lambda>j. StoredRecord_less j dr" rs] have "\<not> StoredRecord_less x dr" by simp
    moreover have "\<not> StoredRecord_less dr x" using x by (metis list.set_intros(1) set_takeWhileD)
    ultimately have "sr_string x = sr_string dr" by (auto simp: StoredRecord_less_def string_less_key not_less)
    moreover have "x \<in> set rs" using x parts by (metis Un_iff list.set_intros(1) set_append)
    ultimately show ?thesis by (metis imageI)
  qed
  have all: "sr_string ` set rs = sr_string ` set ?below \<union> sr_string ` set ?equal \<union> sr_string ` set ?above"
    using arg_cong [OF parts, of "\<lambda>xs. sr_string ` set xs"] by (simp only: set_append image_Un Un_assoc)
  have srt: "set (rv_sort rv xs) = set xs" for xs using assms unfolding sorts_def by (metis set_mset_mset)
  show ?thesis
  proof (cases "isNew \<or> ?equal = []")
    case True
    then show ?thesis by (auto simp: store_record_def Let_def srt)
  next
    case False
    then have "store_record rv now qt auth rfc isNew dr rs = ?below @ map (update_ttd now qt auth rfc (sr_ttd dr)) ?equal @ ?above"
      by (simp add: store_record_def Let_def)
    then have "sr_string ` set (store_record rv now qt auth rfc isNew dr rs) = sr_string ` set rs"
      by (simp only: set_append image_Un u all Un_assoc)
    then show ?thesis using mem False by blast
  qed
qed

lemma store_records_strings:
  assumes "sorts (rv_sort rv)" "store_records rv now qt auth rfc isNew content rs = Inr rs'"
  shows "sr_string ` set rs' = sr_string ` set rs \<union> {s. \<exists>i \<in> set content. DNSRR2String rv i = Inr s}"
  using assms(2)
proof (induction content arbitrary: rs)
  case (Cons i content)
  then obtain s where s: "DNSRR2String rv i = Inr s"
    "store_records rv now qt auth rfc isNew content (store_record rv now qt auth rfc isNew \<lparr> sr_ttd = rr_ttl i, sr_string = s \<rparr> rs) = Inr rs'"
    by auto
  show ?case unfolding Cons.IH [OF s(2)] store_record_strings [OF assms(1)] using s(1) by auto
qed auto

lemma find_replace:
  assumes "mi_find rentry_less k m = Some e" "rentry_key e' = rentry_key e"
  shows "mi_find rentry_less k (mi_replace rentry_less e' m) = Some e'"
  using assms by (induction m) (auto simp: mi_find_def mi_replace_def record_index.equiv_key)

text \<open>
  Property C12. While authoritative data for a name and type is alive, data from elsewhere does not
  touch it, except for SOA and CNAME: for these the stored record is dropped before it is looked at,
  so that the new data takes its place, no longer marked as authoritative.
\<close>

theorem unauthoritative_data:
  assumes "rc_ok c" "sorts (rv_sort rv)" "mi_find rentry_less (rc_key q qt) (mc_cache c) = Some e" "re_auth e"
    and "\<exists>j \<in> set (re_records e). int (unat (sr_ttd j)) > now"
  shows "(qt \<notin> {qt_SOA, qt_CNAME} \<longrightarrow>
            rc_replace rv now q qt content False c = (c\<lparr> mc_cachecachevalid := False \<rparr>, Inr ())) \<and>
         (\<forall>c'. qt \<in> {qt_SOA, qt_CNAME} \<longrightarrow> rc_replace rv now q qt content False c = (c', Inr ()) \<longrightarrow>
            (\<exists>e'. mi_find rentry_less (rc_key q qt) (mc_cache c') = Some e' \<and> \<not> re_auth e' \<and>
               sr_string ` set (re_records e') = {s. \<exists>i \<in> set content. DNSRR2String rv i = Inr s}))"
proof -
  let ?new = "\<lparr> re_qname = q, re_qtype = qt, re_auth = False, re_records = [] \<rparr>"
  have new: "mi_find rentry_less ?new (mc_cache c) = Some e"
    using assms(3) by (simp add: rc_key_def)
  show ?thesis
  proof (intro conjI allI impI)
    assume "qt \<notin> {qt_SOA, qt_CNAME}"
    then show "rc_replace rv now q qt content False c = (c\<lparr> mc_cachecachevalid := False \<rparr>, Inr ())"
      using assms(4,5) by (simp add: rc_replace_def new clear_single_def admit_unauth_def)
  next
    fix c'
    assume "qt \<in> {qt_SOA, qt_CNAME}" and r: "rc_replace rv now q qt content False c = (c', Inr ())"
    then have "admit_unauth now False (clear_single qt e) = Some (e\<lparr> re_auth := False, re_records := [] \<rparr>)"
      using assms(4) by (auto simp: clear_single_def admit_unauth_def)
    with r obtain rs where rs: "store_records rv now qt False (mc_followRFC2181 c) False content [] = Inr rs"
      "c' = c\<lparr> mc_cachecachevalid := False, mc_cache := mi_replace rentry_less (e\<lparr> re_auth := False, re_records := rs \<rparr>) (mc_cache c) \<rparr>"
      by (cases "store_records rv now qt False (mc_followRFC2181 c) False content []")
         (auto simp: rc_replace_def new clear_unauth_def Let_def)
    have "mi_find rentry_less (rc_key q qt) (mc_cache c') = Some (e\<lparr> re_auth := False, re_records := rs \<rparr>)"
      unfolding rs(2) using find_replace [OF assms(3), of "e\<lparr> re_auth := False, re_records := rs \<rparr>"] by (simp add: rentry_key_def)
    then show "\<exists>e'. mi_find rentry_less (rc_key q qt) (mc_cache c') = Some e' \<and> \<not> re_auth e' \<and>
        sr_string ` set (re_records e') = {s. \<exists>i \<in> set content. DNSRR2String rv i = Inr s}"
      using store_records_strings [OF assms(2) rs(1)] by auto
  qed
qed

subsection \<open>Names in storage form\<close>

definition plain_label :: "string \<Rightarrow> bool" where
  "plain_label l \<longleftrightarrow> l \<noteq> [] \<and> length l < 64 \<and> (\<forall>c \<in> set l. c \<noteq> CHR ''.'' \<and> c \<noteq> CHR 0x00)"

definition dotted :: "string list \<Rightarrow> string" where
  "dotted ls = concat (map (\<lambda>l. l @ ''.'') ls)"

definition spelled :: "string list \<Rightarrow> string" where
  "spelled ls = (if ls = [] then ''.'' else dotted ls)"

definition packed :: "string list \<Rightarrow> string" where
  "packed ls = concat (map (\<lambda>l. b2c (word_of_nat (length l)) # l) ls)"

fun dot_parts :: "nat \<Rightarrow> string list \<Rightarrow> (nat \<times> nat) list" where
  "dot_parts n [] = []"
| "dot_parts n (l # ls) = (n, n + length l) # dot_parts (n + length l + 1) ls"

lemma dotted_simps [simp]: "dotted [] = []" "dotted (l # ls) = l @ CHR ''.'' # dotted ls"
  "packed [] = []" "packed (l # ls) = b2c (word_of_nat (length l)) # l @ packed ls"
  by (simp_all add: dotted_def packed_def)

lemma label_char: "plain_label l \<Longrightarrow> ucode (b2c (word_of_nat (length l))) = length l"
  by (simp add: plain_label_def unat_of_nat)

lemma vstringtok_dotted:
  "\<forall>l \<in> set ls. plain_label l \<Longrightarrow> vstringtok_loop (\<lambda>c. c = CHR ''.'') (pre @ dotted ls) (length pre) = dot_parts (length pre) ls"
proof (induction ls arbitrary: pre)
  case Nil
  then show ?case by (simp add: vstringtok_loop.simps)
next
  case (Cons l ls)
  then obtain x xs where l: "l = x # xs" "x \<noteq> CHR ''.''" by (cases l) (auto simp: plain_label_def)
  have "find_from (\<lambda>c. c \<noteq> CHR ''.'') (pre @ dotted (l # ls)) (length pre) = Some (length pre)"
    using l by (simp add: find_from_def)
  moreover have "find_from (\<lambda>c. c = CHR ''.'') (pre @ dotted (l # ls)) (length pre) = Some (length pre + length l)"
    using Cons.prems find_idx_append [of l "\<lambda>c. c = CHR ''.''" "CHR ''.''" "dotted ls"] by (simp add: find_from_def plain_label_def)
  ultimately show ?case
    using Cons.IH [of "pre @ l @ ''.''"] Cons.prems by (simp add: vstringtok_loop.simps [of _ "pre @ l @ CHR ''.'' # dotted ls"])
qed

lemma tolower_nul: "dns_tolower c = CHR 0x00 \<longleftrightarrow> c = CHR 0x00"
proof -
  have "char_of (ucode c + 32) = CHR 0x00 \<Longrightarrow> 65 \<le> ucode c \<Longrightarrow> ucode c \<le> 90 \<Longrightarrow> False"
    by (drule arg_cong [where f = "of_char :: char \<Rightarrow> nat"]) (simp add: ucode_def)
  then show ?thesis by (auto simp: dns_tolower_def ucode_def)
qed

lemma strncaseeq_whole:
  assumes "strncaseeq root t (1 + length t)" "CHR 0x00 \<notin> set root" "CHR 0x00 \<notin> set t"
  shows "toLower root = toLower t"
proof -
  have c: "c_string s = s" if "CHR 0x00 \<notin> set s" for s
    unfolding c_string_def takeWhile_eq_all_conv using that by auto
  have e: "toLower (take (1 + length t) (root @ [CHR 0x00])) = toLower t @ [CHR 0x00]"
    using assms by (simp add: strncaseeq_def c toLower_def tolower_nul)
  then have len: "length t \<le> length root"
    by (metis One_nat_def add_le_cancel_left length_append length_append_singleton length_toLower length_take min.bounded_iff plus_1_eq_Suc le_refl Suc_le_mono)
  show ?thesis
  proof (cases "length t = length root")
    case True
    then show ?thesis using e by (simp add: toLower_def)
  next
    case False
    then have "take (1 + length t) (root @ [CHR 0x00]) = take (length t) root @ [root ! length t]" using len
      by (simp add: take_Suc_conv_app_nth)
    from e [unfolded this] have "dns_tolower (root ! length t) = CHR 0x00" by (simp add: toLower_def)
    then show ?thesis using assms(2) len False by (simp add: tolower_nul) (metis le_neq_implies_less nth_mem)
  qed
qed

lemma dotted_append: "dotted (xs @ ys) = dotted xs @ dotted ys"
  by (simp add: dotted_def)

lemma dotted_no_nul: "\<forall>l \<in> set ls. plain_label l \<Longrightarrow> CHR 0x00 \<notin> set (dotted ls)"
  by (induction ls) (auto simp: plain_label_def)

text \<open>A compressed name has the first labels, and then a final zero or the pointer.\<close>

lemma simpleCompress_dotted:
  assumes "\<forall>l \<in> set ls. plain_label l" "CHR 0x00 \<notin> set root"
  shows "\<exists>xs ys tail. ls = xs @ ys \<and> simpleCompress_loop (pre @ dotted ls) root (dot_parts (length pre) ls) ret = ret @ packed xs @ tail \<and>
    (tail = [CHR 0x00] \<and> ys = [] \<or> tail = [CHR 0xC0, CHR 0x11] \<and> ys \<noteq> [] \<and> root \<noteq> [] \<and> toLower root = toLower (dotted ys))"
  using assms(1)
proof (induction ls arbitrary: pre ret)
  case Nil
  show ?case by (rule exI [of _ "[]"]) simp
next
  case (Cons l ls)
  let ?label = "pre @ dotted (l # ls)"
  show ?case
  proof (cases "root \<noteq> [] \<and> strncaseeq root (drop (length pre) ?label) (1 + length ?label - length pre)")
    case True
    then have "toLower root = toLower (dotted (l # ls))"
      using strncaseeq_whole [OF _ assms(2) dotted_no_nul [OF Cons.prems]] by simp
    with True show ?thesis by (intro exI [of _ "[]"] exI [of _ "l # ls"] exI [of _ "[CHR 0xC0, CHR 0x11]"]) simp
  next
    case False
    have eq: "simpleCompress_loop ?label root (dot_parts (length pre) (l # ls)) ret =
        simpleCompress_loop ((pre @ l @ ''.'') @ dotted ls) root (dot_parts (length (pre @ l @ ''.'')) ls) (ret @ b2c (word_of_nat (length l)) # l)"
      using False by (auto simp: substr_def)
    obtain xs ys tail where "ls = xs @ ys"
      "simpleCompress_loop ((pre @ l @ ''.'') @ dotted ls) root (dot_parts (length (pre @ l @ ''.'')) ls) (ret @ b2c (word_of_nat (length l)) # l) =
       (ret @ b2c (word_of_nat (length l)) # l) @ packed xs @ tail"
      "tail = [CHR 0x00] \<and> ys = [] \<or> tail = [CHR 0xC0, CHR 0x11] \<and> ys \<noteq> [] \<and> root \<noteq> [] \<and> toLower root = toLower (dotted ys)"
      using Cons.IH [of "pre @ l @ ''.''" "ret @ b2c (word_of_nat (length l)) # l"] Cons.prems by auto
    then show ?thesis unfolding eq by (intro exI [of _ "l # xs"] exI [of _ ys] exI [of _ tail]) simp
  qed
qed

lemma stored_name_packed:
  "\<forall>l \<in> set ls. plain_label l \<Longrightarrow> tail \<noteq> [] \<Longrightarrow>
   stored_name q (pre @ packed ls @ tail) (length pre) content = stored_name q (pre @ packed ls @ tail) (length (pre @ packed ls)) (content @ dotted ls)"
proof (induction ls arbitrary: pre content)
  case (Cons l ls)
  let ?s = "pre @ packed (l # ls) @ tail"
  have l: "0 < length l" "length l < 64" "ucode (b2c (word_of_nat (length l))) = length l"
    using Cons.prems label_char by (auto simp: plain_label_def)
  have "stored_name q ?s (length pre) content = stored_name q ?s (length pre + 1 + length l) (content @ l @ ''.'')"
    using l by (subst stored_name.simps) (simp add: at_def Let_def nth_append substr_def)
  also have "\<dots> = stored_name q ?s (length (pre @ packed (l # ls))) (content @ dotted (l # ls))"
    using Cons.IH [of "pre @ b2c (word_of_nat (length l)) # l" "content @ l @ ''.''"] Cons.prems by simp
  finally show ?case .
qed simp

lemma simpleExpandTo_packed:
  "\<forall>l \<in> set ls. plain_label l \<Longrightarrow> simpleExpandTo (pre @ packed ls @ [CHR 0x00]) (length pre) ret = Inr (ret @ dotted ls)"
proof (induction ls arbitrary: pre ret)
  case Nil
  then show ?case by (subst simpleExpandTo.simps) (simp add: at_def nth_append)
next
  case (Cons l ls)
  have l: "0 < length l" "length l < 64" "ucode (b2c (word_of_nat (length l))) = length l"
    using Cons.prems label_char by (auto simp: plain_label_def)
  then have "b2c (word_of_nat (length l)) \<noteq> CHR 0x00" by (auto simp: ucode_def)
  moreover have "\<not> scode (b2c (word_of_nat (length l))) < 0"
    using l by (simp add: scode_def signed_of_nat signed_take_bit_int_eq_self)
  ultimately show ?case
    using l Cons.IH [of "pre @ b2c (word_of_nat (length l)) # l" "ret @ l @ ''.''"] Cons.prems
    by (subst simpleExpandTo.simps) (simp add: at_def nth_append substr_def)
qed

lemma toLower_dotted: "toLower (dotted ls) = dotted (map toLower ls)"
  by (induction ls) (simp_all add: toLower_def dns_tolower_def ucode_def)

lemma simpleCompress_spelled:
  assumes "\<forall>l \<in> set ls. plain_label l"
  shows "simpleCompress (spelled ls) root = simpleCompress_loop (dotted ls) root (dot_parts 0 ls) []"
  using vstringtok_dotted [OF assms, of "[]"]
  by (auto simp: simpleCompress_def vstringtok_def spelled_def vstringtok_loop.simps find_from_def)

lemma simpleCompress_rootless: "\<forall>l \<in> set ls. plain_label l \<Longrightarrow> simpleCompress (spelled ls) [] = packed ls @ [CHR 0x00]"
  using simpleCompress_dotted [of ls "[]" "[]" "[]"] by (auto simp: simpleCompress_spelled)

text \<open>
  Property C39. A name kept as the data of an NS or CNAME record, compressed against the name of the
  record, comes back when the record is looked up, whatever case the name is looked up in: with its
  labels, and but for the case of letters as it was.
\<close>

theorem stored_name_roundtrip:
  assumes "\<forall>l \<in> set ls. plain_label l" "\<forall>l \<in> set ns. plain_label l" "\<forall>l \<in> set ns'. plain_label l"
    and "map toLower ns' = map toLower ns"
    and "rr_qtype rr = qt_NS \<or> rr_qtype rr = qt_CNAME" "rr_content rr = spelled ls" "rr_qname rr = spelled ns"
  shows "\<exists>s rr'. DNSRR2String rv rr = Inr s \<and> String2DNSRR rv (spelled ns') (rr_qtype rr) s ttd = Inr rr' \<and>
    toLower (rr_content rr') = toLower (spelled ls) \<and> rr_ttl rr' = ttd"
proof -
  have types: "rr_qtype rr \<noteq> qt_A" "rr_qtype rr \<noteq> qt_AAAA"
    using assms(5) by (auto simp: qt_NS_def qt_CNAME_def qt_A_def qt_AAAA_def)
  have nul: "CHR 0x00 \<notin> set (spelled ns)" using dotted_no_nul [OF assms(2)] by (simp add: spelled_def)
  obtain xs ys tail where c: "ls = xs @ ys" "simpleCompress (spelled ls) (spelled ns) = packed xs @ tail"
    "tail = [CHR 0x00] \<and> ys = [] \<or> tail = [CHR 0xC0, CHR 0x11] \<and> ys \<noteq> [] \<and> toLower (spelled ns) = toLower (dotted ys)"
    using simpleCompress_dotted [OF assms(1) nul, of "[]" "[]"]
    unfolding append_Nil list.size(3) simpleCompress_spelled [OF assms(1), symmetric] by blast
  have s: "DNSRR2String rv rr = Inr (packed xs @ tail)"
    using assms(5-7) types c(2) by (auto simp: DNSRR2String_def)
  have xs: "\<forall>l \<in> set xs. plain_label l" using assms(1) c(1) by simp
  have "tail \<noteq> []" using c(3) by auto
  from stored_name_packed [OF xs this, of _ "[]" "[]"]
  have start: "stored_name (spelled ns') (packed xs @ tail) 0 [] = stored_name (spelled ns') (packed xs @ tail) (length (packed xs)) (dotted xs)"
    by simp
  have "\<exists>content. stored_name (spelled ns') (packed xs @ tail) 0 [] = Inr content \<and> toLower content = toLower (dotted ls)"
    using c(3)
  proof (elim disjE conjE)
    assume "tail = [CHR 0x00]" "ys = []"
    then show ?thesis using c(1) by (subst start) (simp add: stored_name.simps at_def nth_append Let_def ucode_def)
  next
    assume t: "tail = [CHR 0xC0, CHR 0x11]" "ys \<noteq> []" "toLower (spelled ns) = toLower (dotted ys)"
    have "ns \<noteq> []"
    proof
      assume "ns = []"
      then have "length (dotted ys) = 1" using arg_cong [OF t(3), of length] by (simp add: spelled_def)
      then show False using t(2) c(1) assms(1) by (cases ys) (auto simp: plain_label_def)
    qed
    then have "ns' \<noteq> []" using assms(4) by auto
    have "stored_name (spelled ns') (packed xs @ tail) (length (packed xs)) (dotted xs) = Inr (dotted xs @ dotted ns')"
      using simpleExpandTo_packed [OF assms(3), of "[]"] simpleCompress_rootless [OF assms(3)]
      by (subst stored_name.simps) (simp add: t(1) at_def nth_append Let_def ucode_def scode_def c2b_def)
    moreover have "toLower (dotted ns') = toLower (dotted ys)"
      using t(3) \<open>ns \<noteq> []\<close> assms(4) by (simp add: spelled_def toLower_dotted)
    ultimately show ?thesis unfolding start using c(1) by (simp add: dotted_append toLower_def)
  qed
  then obtain content where content: "stored_name (spelled ns') (packed xs @ tail) 0 [] = Inr content" "toLower content = toLower (dotted ls)" by blast
  have "content = [] \<longleftrightarrow> ls = []" using arg_cong [OF content(2), of length] by (cases ls) (auto simp: spelled_def)
  with content show ?thesis using assms(5) s types
    by (auto simp: String2DNSRR_def Let_def DNSResourceRecord_init_def spelled_def)
qed

subsection \<open>Examples\<close>

definition example_rcache :: rcache_env where
  "example_rcache = \<lparr> rv_lib = \<lparr> al_aton = (\<lambda>s. None), al_pton4 = (\<lambda>s. None), al_addrinfo6 = (\<lambda>s. None), al_nameinfo = (\<lambda>a. []) \<rparr>,
     rv_registry = all_types, rv_env = we_env example_wrap, rv_writer = example_writer, rv_what = [], rv_ip = [0, 0, 0, 0], rv_domain_id = 0,
     rv_sort = sort_key (\<lambda>r. string_key (sr_string r)), rv_entry_size = 64, rv_record_size = 16 \<rparr>"

definition example_alias :: "string \<Rightarrow> DNSResourceRecord" where
  "example_alias target = (DNSResourceRecord_init qt_CNAME 2000000000 0)\<lparr> rr_qname := ''www.nl.'', rr_content := target \<rparr>"

lemma example_sorts: "sorts (rv_sort example_rcache)"
  by (simp add: sorts_def example_rcache_def)

lemma stored_name_roundtrip_witness:
  "\<exists>s rr'. DNSRR2String example_rcache (example_alias ''a.WWW.nl.'') = Inr s \<and>
     String2DNSRR example_rcache ''www.NL.'' qt_CNAME s 7 = Inr rr' \<and> toLower (rr_content rr') = ''a.www.nl.''"
proof -
  have l: "\<forall>l \<in> set ls. plain_label l" if "ls = [''a'', ''WWW'', ''nl''] \<or> ls = [''www'', ''nl''] \<or> ls = [''www'', ''NL'']" for ls
    using that by (auto simp: plain_label_def)
  have "map toLower [''www'', ''NL''] = map toLower [''www'', ''nl'']" by code_simp
  from stored_name_roundtrip [OF l l l this, of "[''a'', ''WWW'', ''nl'']" "example_alias ''a.WWW.nl.''" example_rcache 7]
  have "\<exists>s rr'. DNSRR2String example_rcache (example_alias ''a.WWW.nl.'') = Inr s \<and>
      String2DNSRR example_rcache (spelled [''www'', ''NL'']) qt_CNAME s 7 = Inr rr' \<and> toLower (rr_content rr') = toLower (spelled [''a'', ''WWW'', ''nl''])"
    by (auto simp: example_alias_def DNSResourceRecord_init_def spelled_def)
  moreover have "spelled [''www'', ''NL''] = ''www.NL.''" "toLower (spelled [''a'', ''WWW'', ''nl'']) = ''a.www.nl.''" by code_simp+
  ultimately show ?thesis by simp
qed

lemma record_cache_invariant_witness:
  "rc_ok (fst (rc_replace example_rcache 1000 ''www.nl.'' qt_CNAME [example_alias ''b.nl.''] True MemRecursorCache_init))"
  by (rule record_cache_invariant [OF example_sorts r_into_rtranclp [of "rc_step example_rcache", OF rc_step.replace]])

definition example_cached :: MemRecursorCache where
  "example_cached = fst (rc_replace example_rcache 1000 ''www.nl.'' qt_CNAME [example_alias ''b.nl.''] True MemRecursorCache_init)"

lemma auth_data_found_witness:
  "\<exists>c'' ttl res ks. rc_get example_rcache 1000 ''WWW.nl.'' qt_CNAME True example_cached = (c'', Inr (ttl, res)) \<and>
     stored_form example_rcache [example_alias ''b.nl.''] = Inr ks \<and>
     rr_key ` set res = rr_key ` shown_records example_rcache 1000 ''WWW.nl.'' qt_CNAME ks"
proof -
  have r: "rc_replace example_rcache 1000 ''www.nl.'' qt_CNAME [example_alias ''b.nl.''] True MemRecursorCache_init = (example_cached, Inr ())"
    by code_simp
  have "\<not> isl (snd (rc_get example_rcache 1000 ''WWW.nl.'' qt_CNAME True example_cached))" by code_simp
  then obtain c'' ttl res where g: "rc_get example_rcache 1000 ''WWW.nl.'' qt_CNAME True example_cached = (c'', Inr (ttl, res))"
    by (cases "rc_get example_rcache 1000 ''WWW.nl.'' qt_CNAME True example_cached"; cases "snd (rc_get example_rcache 1000 ''WWW.nl.'' qt_CNAME True example_cached)") auto
  have "rc_ok MemRecursorCache_init" by (simp add: rc_ok_def MemRecursorCache_init_def record_index.unique_def)
  moreover have "qt_CNAME \<notin> {qt_ANY, qt_ADDR}" by (simp add: qt_CNAME_def qt_ANY_def qt_ADDR_def)
  moreover have "toLower ''WWW.nl.'' = toLower ''www.nl.''" by code_simp
  moreover have "mc_cache MemRecursorCache_init = []" by (simp add: MemRecursorCache_init_def)
  ultimately show ?thesis using auth_data_found [OF _ example_sorts _ r _ g] g by auto
qed

lemma unauthoritative_data_witness:
  "\<exists>e' c'. rc_replace example_rcache 1000 ''www.nl.'' qt_CNAME [example_alias ''c.nl.''] False example_cached = (c', Inr ()) \<and>
     mi_find rentry_less (rc_key ''www.nl.'' qt_CNAME) (mc_cache c') = Some e' \<and> \<not> re_auth e'"
proof -
  let ?e = "\<lparr> re_qname = ''www.nl.'', re_qtype = qt_CNAME, re_auth = True,
    re_records = [\<lparr> sr_ttd = 2000000000, sr_string = [CHR 0x01, CHR ''b'', CHR 0x02, CHR ''n'', CHR ''l'', CHR 0x00] \<rparr>] \<rparr>"
  have "rc_ok MemRecursorCache_init" by (simp add: rc_ok_def MemRecursorCache_init_def record_index.unique_def)
  then have ok: "rc_ok example_cached" unfolding example_cached_def by (rule rc_ok_replace [OF _ example_sorts])
  have f: "mi_find rentry_less (rc_key ''www.nl.'' qt_CNAME) (mc_cache example_cached) = Some ?e" by code_simp
  obtain c' r where r: "rc_replace example_rcache 1000 ''www.nl.'' qt_CNAME [example_alias ''c.nl.''] False example_cached = (c', r)" by fastforce
  moreover have "snd (rc_replace example_rcache 1000 ''www.nl.'' qt_CNAME [example_alias ''c.nl.''] False example_cached) = Inr ()" by code_simp
  ultimately have "rc_replace example_rcache 1000 ''www.nl.'' qt_CNAME [example_alias ''c.nl.''] False example_cached = (c', Inr ())" by simp
  with unauthoritative_data [OF ok example_sorts f, of 1000 "[example_alias ''c.nl.'']"] show ?thesis by auto
qed

end
