(* ===== verification/RecursorPacketCache.thy ===== *)
theory RecursorPacketCache
  imports Dns MultiIndex
begin

text \<open>
  The packet cache of the recursor (\<open>recpacketcache.cc\<close>, \<open>recpacketcache.hh\<close>). The comparison of its
  entries is not an order, so that what the ordered index of the container finds is not determined by
  what the container holds: finding and inserting are parameters.
\<close>

record RPEntry =
  rp_ttd :: u32
  rp_creation :: u32
  rp_packet :: string

record RecursorPacketCache =
  rpc_hits :: u64
  rpc_misses :: u64
  rpc_packetCache :: "RPEntry list"

definition RecursorPacketCache_init :: RecursorPacketCache where
  "RecursorPacketCache_init = \<lparr> rpc_hits = 0, rpc_misses = 0, rpc_packetCache = [] \<rparr>"

text \<open>The fields of the header that are compared first; a shorter packet is read past its end.\<close>

definition packet_fields :: "string \<Rightarrow> (nat \<times> nat \<times> nat) result" where
  "packet_fields p =
     (if length p < 12 then Inl UndefinedBehaviour
      else let dh = dnsheader_of (map c2b (take 12 p))
           in Inr (unat (hdr_opcode dh), of_bool (hdr_rd dh), unat (hdr_qdcount dh)))"

definition RPEntry_less :: "RPEntry \<Rightarrow> RPEntry \<Rightarrow> bool result" where
  "RPEntry_less a b =
     bindE (packet_fields (rp_packet a)) (\<lambda>x. bindE (packet_fields (rp_packet b)) (\<lambda>y.
       if x < y then Inr True else dnspacketLessThan (rp_packet a) (rp_packet b)))"

text \<open>
  \<open>look\<close> gives the position in the sequence of what the index finds for an entry; \<open>room\<close> tells whether
  the index takes an entry.
\<close>

definition getResponsePacket :: "(RPEntry \<Rightarrow> RPEntry list \<Rightarrow> nat option) \<Rightarrow> RPEntry \<Rightarrow> string \<Rightarrow> int \<Rightarrow> RecursorPacketCache \<Rightarrow>
    (string \<times> u32) option \<times> RecursorPacketCache" where
  "getResponsePacket look e queryPacket now c =
     (let m = rpc_packetCache c
      in case look (e\<lparr> rp_packet := queryPacket \<rparr>) m of
           None \<Rightarrow> (None, c\<lparr> rpc_misses := rpc_misses c + 1 \<rparr>)
         | Some i \<Rightarrow>
             let x = m ! i; rest = take i m @ drop (i + 1) m
             in if word_of_int now < rp_ttd x then
                  (Some (take 2 (queryPacket @ [CHR 0x00]) @ drop 2 (rp_packet x), word_of_int now - rp_creation x),
                   c\<lparr> rpc_hits := rpc_hits c + 1, rpc_packetCache := rest @ [x] \<rparr>)
                else (None, c\<lparr> rpc_misses := rpc_misses c + 1, rpc_packetCache := x # rest \<rparr>))"

definition insertResponsePacket :: "(RPEntry \<Rightarrow> RPEntry list \<Rightarrow> nat option) \<Rightarrow> (RPEntry \<Rightarrow> RPEntry list \<Rightarrow> bool) \<Rightarrow> string \<Rightarrow> int \<Rightarrow> u32 \<Rightarrow>
    RecursorPacketCache \<Rightarrow> RecursorPacketCache" where
  "insertResponsePacket look room responsePacket now ttl c =
     (let m = rpc_packetCache c; e = \<lparr> rp_ttd = word_of_int now + ttl, rp_creation = word_of_int now, rp_packet = responsePacket \<rparr>
      in case look e m of
           Some i \<Rightarrow> c\<lparr> rpc_packetCache := m[i := e] \<rparr>
         | None \<Rightarrow> if room e m then c\<lparr> rpc_packetCache := m @ [e] \<rparr> else c)"

definition rpc_size :: "RecursorPacketCache \<Rightarrow> nat" where
  "rpc_size c = length (rpc_packetCache c)"

definition rpc_bytes :: "nat \<Rightarrow> RecursorPacketCache \<Rightarrow> nat" where
  "rpc_bytes entry_size c = sum_list (map (\<lambda>e. entry_size + length (rp_packet e) + 4) (rpc_packetCache c))"

definition doPruneTo :: "u32 \<Rightarrow> nat \<Rightarrow> RecursorPacketCache \<Rightarrow> RecursorPacketCache" where
  "doPruneTo now maxCached c = c\<lparr> rpc_packetCache := pruneCollection rp_ttd now maxCached 1000 (rpc_packetCache c) \<rparr>"

text \<open>Two queries that are each before the other: the comparison of names follows even when the first fields decide the other way.\<close>

definition plain_query :: "byte \<Rightarrow> byte \<Rightarrow> string" where
  "plain_query flags letter = map b2c [0, 0, flags, 0, 0, 1, 0, 0, 0, 0, 0, 0, 1, letter, 0, 0, 1, 0, 1]"

lemma not_an_order:
  "RPEntry_less \<lparr> rp_ttd = 0, rp_creation = 0, rp_packet = plain_query 0 98 \<rparr> \<lparr> rp_ttd = 0, rp_creation = 0, rp_packet = plain_query 1 97 \<rparr> = Inr True"
  "RPEntry_less \<lparr> rp_ttd = 0, rp_creation = 0, rp_packet = plain_query 1 97 \<rparr> \<lparr> rp_ttd = 0, rp_creation = 0, rp_packet = plain_query 0 98 \<rparr> = Inr True"
  by code_simp+

text \<open>What a lookup gives is a stored packet that has not expired, under the identifier of the query.\<close>

lemma response_found:
  assumes "getResponsePacket look e query now c = (Some (p, age), c')" "\<And>e m i. look e m = Some i \<Longrightarrow> i < length m" "2 \<le> length query"
  shows "\<exists>x \<in> set (rpc_packetCache c). word_of_int now < rp_ttd x \<and> p = take 2 query @ drop 2 (rp_packet x) \<and> age = word_of_int now - rp_creation x"
    and "mset (rpc_packetCache c') = mset (rpc_packetCache c)"
proof -
  obtain i where i: "look (e\<lparr> rp_packet := query \<rparr>) (rpc_packetCache c) = Some i" "word_of_int now < rp_ttd (rpc_packetCache c ! i)"
    using assms(1) by (auto simp: getResponsePacket_def Let_def split: option.splits if_splits)
  have len: "i < length (rpc_packetCache c)" using assms(2) i(1) .
  then show "\<exists>x \<in> set (rpc_packetCache c). word_of_int now < rp_ttd x \<and> p = take 2 query @ drop 2 (rp_packet x) \<and> age = word_of_int now - rp_creation x"
    using assms(1,3) i by (intro bexI [of _ "rpc_packetCache c ! i"]) (auto simp: getResponsePacket_def Let_def)
  have "mset (rpc_packetCache c) = mset (take i (rpc_packetCache c) @ rpc_packetCache c ! i # drop (Suc i) (rpc_packetCache c))"
    using len by (simp only: id_take_nth_drop [symmetric])
  then show "mset (rpc_packetCache c') = mset (rpc_packetCache c)"
    using assms(1) i by (auto simp: getResponsePacket_def Let_def)
qed

end
