(* ===== verification/ZoneParser.thy ===== *)
theory ZoneParser
  imports RecordTypes IpUtils DnsPacket
begin

text \<open>
  Reading zone files (\<open>zoneparser-tng.cc\<close>). A file is the text that is still to be read from it; which
  files there are is a parameter. An exception ends the reading, so no state is kept with it.
\<close>

subsection \<open>Lines\<close>

text \<open>\<open>fgets\<close> into a buffer of 1024 characters, and \<open>stringfgets\<close> of \<open>misc.cc\<close>; a NUL cuts what is read at once.\<close>

definition fgets_length :: "string \<Rightarrow> nat" where
  "fgets_length s = (case find_idx (\<lambda>c. c = CHR 0x0a) (take 1023 s) of Some i \<Rightarrow> i + 1 | None \<Rightarrow> length (take 1023 s))"

function stringfgets :: "string \<Rightarrow> string \<Rightarrow> bool \<times> string \<times> string" where
  "stringfgets fp line =
     (if fp = [] then (line \<noteq> [], line, [])
      else let n = fgets_length fp; buffer = text_to_nul (take n fp)
           in if CHR 0x0a \<in> set buffer then (True, line @ buffer, drop n fp)
              else stringfgets (drop n fp) (line @ buffer))"
  by pat_completeness auto
termination
  by (relation "measure (\<lambda>(fp, line). length fp)") (auto simp: fgets_length_def split: option.split)

declare stringfgets.simps [simp del]

record filestate =
  fs_fp :: string
  fs_filename :: string
  fs_lineno :: int

record ZoneParserTNG =
  zp_reldir :: string
  zp_line :: string
  zp_prevqname :: string
  zp_zonename :: string
  zp_defaultttl :: u32
  zp_havedollarttl :: bool
  zp_templatecounter :: u32
  zp_templatestop :: u32
  zp_templatestep :: u32
  zp_templateline :: string
  zp_templateparts :: "(nat \<times> nat) list"
  zp_filestates :: "filestate list"

text \<open>The library: the files that can be opened, and the text of the last error; the type names.\<close>

record zone_env =
  ze_files :: "string \<Rightarrow> string option"
  ze_error :: string
  ze_registry :: registry

definition stackFile :: "zone_env \<Rightarrow> string \<Rightarrow> ZoneParserTNG \<Rightarrow> ZoneParserTNG result" where
  "stackFile ze fname zp =
     (case ze_files ze fname of
        None \<Rightarrow> Inl (RuntimeError (''Unable to open file '' @ [CHR 0x27] @ fname @ [CHR 0x27] @ '': '' @ ze_error ze))
      | Some text \<Rightarrow> Inr (zp\<lparr> zp_filestates := \<lparr> fs_fp = text, fs_filename = fname, fs_lineno = 0 \<rparr> # zp_filestates zp \<rparr>))"

text \<open>The three numbers of a template are not set by the constructor.\<close>

definition ZoneParserTNG_init :: "zone_env \<Rightarrow> u32 \<Rightarrow> u32 \<Rightarrow> u32 \<Rightarrow> string \<Rightarrow> string \<Rightarrow> string \<Rightarrow> ZoneParserTNG result" where
  "ZoneParserTNG_init ze counter stop step fname zname reldir =
     stackFile ze fname
       \<lparr> zp_reldir = reldir, zp_line = [], zp_prevqname = [], zp_zonename = toCanonic [] zname, zp_defaultttl = 3600,
         zp_havedollarttl = False, zp_templatecounter = counter, zp_templatestop = stop, zp_templatestep = step,
         zp_templateline = [], zp_templateparts = [], zp_filestates = [] \<rparr>"

fun getLine_files :: "string \<Rightarrow> filestate list \<Rightarrow> bool \<times> string \<times> filestate list" where
  "getLine_files line [] = (False, line, [])"
| "getLine_files line (f # fs) =
     (case stringfgets (fs_fp f) [] of
        (True, line, fp) \<Rightarrow> (True, line, f\<lparr> fs_fp := fp, fs_lineno := fs_lineno f + 1 \<rparr> # fs)
      | (False, line, fp) \<Rightarrow> getLine_files line fs)"

definition zp_getLine :: "ZoneParserTNG \<Rightarrow> bool \<times> ZoneParserTNG" where
  "zp_getLine zp =
     (case getLine_files (zp_line zp) (zp_filestates zp) of
        (found, line, fs) \<Rightarrow> (found, zp\<lparr> zp_line := line, zp_filestates := fs \<rparr>))"

text \<open>The stack has no top when the last file is at its end.\<close>

definition getLineOfFile :: "ZoneParserTNG \<Rightarrow> string result" where
  "getLineOfFile zp =
     (case zp_filestates zp of
        [] \<Rightarrow> Inl UndefinedBehaviour
      | f # fs \<Rightarrow> Inr (''on line '' @ show_nat (nat (fs_lineno f)) @ '' of file '' @ [CHR 0x27] @ fs_filename f @ [CHR 0x27]))"

definition zp_error :: "ZoneParserTNG \<Rightarrow> (string \<Rightarrow> string) \<Rightarrow> 'a result" where
  "zp_error zp msg = bindE (getLineOfFile zp) (\<lambda>place. Inl (RuntimeError (msg place)))"

definition makeString :: "string \<Rightarrow> nat \<times> nat \<Rightarrow> string" where
  "makeString line rng = substr line (fst rng) (snd rng - fst rng)"

subsection \<open>Times\<close>

fun time_spec_loop :: "string \<Rightarrow> bool" where
  "time_spec_loop [] = True"
| "time_spec_loop (c # s) =
     (if isdigit c then time_spec_loop s
      else if s \<noteq> [] then False
      else dns_tolower c \<in> set ''smhdwy'')"

definition isTimeSpec :: "string \<Rightarrow> bool" where
  "isTimeSpec nextpart \<longleftrightarrow> nextpart \<noteq> [] \<and> time_spec_loop nextpart"

definition makeTTLFromZone :: "ZoneParserTNG \<Rightarrow> string \<Rightarrow> u32 result" where
  "makeTTLFromZone zp str =
     (if str = [] then Inr 0
      else let val = word_of_int (atoi str); lc = dns_tolower (last str)
           in if isdigit lc then Inr val
              else if lc = CHR ''s'' then Inr val
              else if lc = CHR ''m'' then Inr (val * 60)
              else if lc = CHR ''h'' then Inr (val * 3600)
              else if lc = CHR ''d'' then Inr (val * (3600 * 24))
              else if lc = CHR ''w'' then Inr (val * (3600 * 24 * 7))
              else if lc = CHR ''y'' then Inr (val * (3600 * 24 * 365))
              else zp_error zp (\<lambda>at. ''Unable to parse time specification '' @ [CHR 0x27] @ str @ [CHR 0x27] @ '' '' @ at))"

subsection \<open>Templates\<close>

text \<open>A number for the conversion \<open>%d\<close> of \<open>sscanf\<close>, and the rest of the text.\<close>

definition scan_d :: "string \<Rightarrow> (u32 \<times> string) option" where
  "scan_d s = (let (v, n) = strtol s in if n = 0 then None else Some (word_of_int v, drop n s))"

definition scan_char :: "char \<Rightarrow> string \<Rightarrow> string option" where
  "scan_char c s = (if s \<noteq> [] \<and> hd s = c then Some (tl s) else None)"

text \<open>\<open>%d-%d/%d\<close>: what is not reached keeps its value.\<close>

definition scan_range :: "string \<Rightarrow> u32 \<times> u32 \<times> u32 \<Rightarrow> u32 \<times> u32 \<times> u32" where
  "scan_range s = (\<lambda>(counter, stop, step).
     (case scan_d s of None \<Rightarrow> (counter, stop, step)
      | Some (counter, s) \<Rightarrow> (case Option.bind (scan_char CHR ''-'' s) scan_d of None \<Rightarrow> (counter, stop, step)
         | Some (stop, s) \<Rightarrow> (case Option.bind (scan_char CHR ''/'' s) scan_d of None \<Rightarrow> (counter, stop, step)
            | Some (step, s) \<Rightarrow> (counter, stop, step)))))"

text \<open>\<open>%d,%d,%c\<close>: offset, width and radix.\<close>

definition scan_spec :: "string \<Rightarrow> u32 \<times> u32 \<times> char" where
  "scan_spec s =
     (case scan_d s of None \<Rightarrow> (0, 0, CHR ''d'')
      | Some (offset, s) \<Rightarrow> (case Option.bind (scan_char CHR '','' s) scan_d of None \<Rightarrow> (offset, 0, CHR ''d'')
         | Some (width, s) \<Rightarrow> (case scan_char CHR '','' s of Some (radix # s) \<Rightarrow> (offset, width, radix) | _ \<Rightarrow> (offset, width, CHR ''d''))))"

fun show_base :: "nat \<Rightarrow> bool \<Rightarrow> nat \<Rightarrow> string" where
  "show_base b upper n =
     (if b < 2 then []
      else let d = n mod b; c = (if d < 10 then digit_char d else char_of ((if upper then 55 else 87) + d))
           in if n < b then [c] else show_base b upper (n div b) @ [c])"

declare show_base.simps [simp del]

definition show_signed :: "int \<Rightarrow> string" where
  "show_signed i = (if i < 0 then CHR ''-'' # show_nat (nat (- i)) else show_nat (nat i))"

text \<open>
  \<open>snprintf\<close> of a number with the zero flag, a width and a conversion. A negative width asks for spaces on
  the right. Another conversion than one for an \<open>int\<close> is undefined, and so is a format that does not fit.
\<close>

definition pad_number :: "int \<Rightarrow> string \<Rightarrow> string" where
  "pad_number width s =
     (if width < 0 then s @ replicate (nat (- width) - length s) CHR '' ''
      else if s \<noteq> [] \<and> hd s = CHR ''-'' then CHR ''-'' # replicate (nat width - length s) CHR ''0'' @ tl s
      else replicate (nat width - length s) CHR ''0'' @ s)"

definition print_number :: "u32 \<Rightarrow> char \<Rightarrow> u32 \<Rightarrow> string result" where
  "print_number width radix v =
     (if length (''%0'' @ show_signed (sint width)) + 1 > 10 then Inl UndefinedBehaviour
      else bindE (if radix = CHR ''d'' \<or> radix = CHR ''i'' then Inr (show_signed (sint v))
                  else if radix = CHR ''u'' then Inr (show_nat (unat v))
                  else if radix = CHR ''o'' then Inr (show_base 8 False (unat v))
                  else if radix = CHR ''x'' then Inr (show_base 16 False (unat v))
                  else if radix = CHR ''X'' then Inr (show_base 16 True (unat v))
                  else Inl UndefinedBehaviour)
           (\<lambda>s. Inr (take 78 (pad_number (sint width) s))))"

text \<open>One part of a template with the counter filled in; a specification without end ends the part.\<close>

function template_part :: "u32 \<Rightarrow> string \<Rightarrow> string result" where
  "template_part counter [] = Inr []"
| "template_part counter (c # s) =
     (if c = CHR 0x5c then (if s = [] then Inr [] else bindE (template_part counter (tl s)) (\<lambda>r. Inr (hd s # r)))
      else if c = CHR ''$'' then
        (if s = [] \<or> hd s \<noteq> CHR 0x7b then bindE (template_part counter s) (\<lambda>r. Inr (show_nat (unat counter) @ r))
         else let spec = takeWhile (\<lambda>c. c \<noteq> CHR 0x7d) (tl s); rest = dropWhile (\<lambda>c. c \<noteq> CHR 0x7d) (tl s)
              in if rest = [] then Inr []
                 else let (offset, width, radix) = scan_spec spec
                      in bindE (print_number width radix (counter + offset)) (\<lambda>tmp.
                           bindE (template_part counter (tl rest)) (\<lambda>r. Inr (tmp @ r))))
      else bindE (template_part counter s) (\<lambda>r. Inr (c # r)))"
  by pat_completeness auto
termination
proof (relation "measure (\<lambda>(counter, s). length s)")
  fix counter :: u32 and c :: char and s :: string and x rest offset z width radix xb
  assume "rest = dropWhile (\<lambda>c. c \<noteq> CHR 0x7d) (tl s)"
  then have "length (tl rest) \<le> length s"
    using length_dropWhile_le [of "\<lambda>c. c \<noteq> CHR 0x7d" "tl s"] by simp
  then show "((counter, tl rest), counter, c # s) \<in> measure (\<lambda>(counter, s). length s)" by simp
qed auto

declare template_part.simps [simp del]

fun template_line :: "u32 \<Rightarrow> string list \<Rightarrow> string result" where
  "template_line counter [] = Inr []"
| "template_line counter [p] = template_part counter p"
| "template_line counter (p # ps) = bindE (template_part counter p) (\<lambda>a. bindE (template_line counter ps) (\<lambda>b. Inr (a @ '' '' @ b)))"

definition getTemplateLine :: "ZoneParserTNG \<Rightarrow> (bool \<times> ZoneParserTNG) result" where
  "getTemplateLine zp =
     (if zp_templateparts zp = [] \<or> zp_templatecounter zp > zp_templatestop zp then Inr (False, zp)
      else bindE (template_line (zp_templatecounter zp) (map (makeString (zp_templateline zp)) (zp_templateparts zp))) (\<lambda>retline.
        Inr (True, zp\<lparr> zp_templatecounter := zp_templatecounter zp + zp_templatestep zp, zp_line := retline \<rparr>)))"

subsection \<open>Comments and brackets\<close>

text \<open>The place of the first such character outside quotes, escapes taken in account.\<close>

fun unquoted_at :: "(char \<Rightarrow> bool) \<Rightarrow> bool \<Rightarrow> nat \<Rightarrow> string \<Rightarrow> nat" where
  "unquoted_at P inQuote pos [] = pos"
| "unquoted_at P inQuote pos (c # s) =
     (if c = CHR 0x5c then (case s of [] \<Rightarrow> pos + 2 | d # s \<Rightarrow> unquoted_at P inQuote (pos + 2) s)
      else if c = CHR 0x22 then unquoted_at P (\<not> inQuote) (pos + 1) s
      else if P c \<and> \<not> inQuote then pos
      else unquoted_at P inQuote (pos + 1) s)"

text \<open>A last backslash takes the position past the end; \<open>resize\<close> then adds a NUL, and \<open>erase\<close> throws.\<close>

definition chopComment :: "string \<Rightarrow> string" where
  "chopComment line =
     (let pos = unquoted_at (\<lambda>c. c = CHR '';'') False 0 line
      in if pos \<noteq> length line then take pos line @ replicate (pos - length line) CHR 0x00 else line)"

definition findAndElide :: "string \<Rightarrow> char \<Rightarrow> (bool \<times> string) result" where
  "findAndElide line c =
     (let pos = unquoted_at (\<lambda>d. d = c) False 0 line
      in if pos = length line then Inr (False, line)
         else if pos > length line then Inl OutOfRange
         else Inr (True, take pos line @ drop (pos + 1) line))"

definition trim_right :: "(char \<Rightarrow> bool) \<Rightarrow> string \<Rightarrow> string" where
  "trim_right P s = rev (dropWhile P (rev s))"

definition trim :: "string \<Rightarrow> string" where
  "trim s = dropWhile isspace (trim_right isspace s)"

subsection \<open>Records\<close>

text \<open>A line that starts with a dollar sign; the template of \<open>$GENERATE\<close> is the rest of the line.\<close>

definition zp_command :: "zone_env \<Rightarrow> (nat \<times> nat) list \<Rightarrow> ZoneParserTNG \<Rightarrow> ZoneParserTNG result" where
  "zp_command ze parts zp =
     (let line = zp_line zp; command = makeString line (parts ! 0)
      in if pdns_iequals command ''$TTL'' \<and> length parts > 1 then
           bindE (makeTTLFromZone zp (trim_right (\<lambda>c. c = CHR '';'') (makeString line (parts ! 1)))) (\<lambda>ttl.
             Inr (zp\<lparr> zp_defaultttl := ttl, zp_havedollarttl := True \<rparr>))
         else if pdns_iequals command ''$INCLUDE'' \<and> length parts > 1 then
           let fname = unquotify (makeString line (parts ! 1))
           in stackFile ze (if fname \<noteq> [] \<and> fname ! 0 \<noteq> CHR ''/'' \<and> zp_reldir zp \<noteq> [] then zp_reldir zp @ ''/'' @ fname else fname) zp
         else if pdns_iequals command ''$ORIGIN'' \<and> length parts > 1 then
           Inr (zp\<lparr> zp_zonename := toCanonic [] (makeString line (parts ! 1)) \<rparr>)
         else if pdns_iequals command ''$GENERATE'' \<and> length parts > 2 then
           let (counter, stop, step) = scan_range (makeString line (parts ! 1)) (zp_templatecounter zp, 0, 1)
           in Inr (zp\<lparr> zp_templatecounter := counter, zp_templatestop := stop, zp_templatestep := step,
                       zp_templateline := line, zp_templateparts := drop 2 parts \<rparr>)
         else zp_error zp (\<lambda>at. ''Can'' @ [CHR 0x27] @ ''t parse zone line '' @ [CHR 0x27] @ line @ [CHR 0x27] @ '' '' @ at))"

text \<open>The name at the start of a line, and what is left of it; none if the line is a comment after all.\<close>

definition zp_name :: "ZoneParserTNG \<Rightarrow> (nat \<times> nat) list \<Rightarrow> string \<times> (nat \<times> nat) list" where
  "zp_name zp parts =
     (if isspace (zp_line zp ! 0) then (zp_prevqname zp, parts) else (makeString (zp_line zp) (parts ! 0), tl parts))"

definition zp_full_name :: "ZoneParserTNG \<Rightarrow> string \<Rightarrow> string" where
  "zp_full_name zp qname =
     (if qname = ''@'' then zp_zonename zp
      else if \<not> isCanonical qname then
        qname @ (if zp_zonename zp = [] \<or> zp_zonename zp ! 0 \<noteq> CHR ''.'' then ''.'' else []) @ zp_zonename zp
      else qname)"

text \<open>Class, time to live and type, in any order; the place of the last part looked at is where the content starts.\<close>

fun zp_fields :: "zone_env \<Rightarrow> ZoneParserTNG \<Rightarrow> (nat \<times> nat) list \<Rightarrow> bool \<Rightarrow> u16 option \<Rightarrow> u32 \<Rightarrow> nat \<Rightarrow> (u32 \<times> u16 option \<times> nat) result" where
  "zp_fields ze zp [] haveTTL qtype ttl start = Inr (ttl, qtype, start)"
| "zp_fields ze zp (p # ps) haveTTL qtype ttl start =
     (let nextpart = makeString (zp_line zp) p; start = fst p
      in if nextpart = [] \<or> CHR '';'' \<in> set nextpart then Inr (ttl, qtype, start)
         else if pdns_iequals nextpart ''IN'' then zp_fields ze zp ps haveTTL qtype ttl start
         else if \<not> haveTTL \<and> qtype = None \<and> isTimeSpec nextpart then
           bindE (makeTTLFromZone zp nextpart) (\<lambda>ttl. zp_fields ze zp ps True qtype ttl start)
         else if qtype \<noteq> None then Inr (ttl, qtype, start)
         else (case TypeToNumber (ze_registry ze) nextpart of
                 Inr t \<Rightarrow> zp_fields ze zp ps haveTTL (Some t) ttl start
               | Inl e \<Rightarrow> zp_error zp (\<lambda>at. ''Parsing zone content '' @ at @ '': '' @ [CHR 0x27] @ nextpart @ [CHR 0x27] @
                   '' doesn'' @ [CHR 0x27] @ ''t look like a qtype, stopping loop'')))"

text \<open>The lines up to the closing bracket.\<close>

definition zp_remaining :: "ZoneParserTNG \<Rightarrow> nat" where
  "zp_remaining zp = sum_list (map (\<lambda>f. length (fs_fp f)) (zp_filestates zp))"

lemma stringfgets_less: "fp \<noteq> [] \<Longrightarrow> stringfgets fp line = (b, line', fp') \<Longrightarrow> length fp' < length fp"
proof (induction fp line arbitrary: b line' fp' rule: stringfgets.induct)
  case (1 fp line)
  let ?n = "fgets_length fp"
  have n: "0 < ?n" using 1(2) by (auto simp: fgets_length_def split: option.split)
  show ?case
  proof (cases "CHR 0x0a \<in> set (text_to_nul (take ?n fp))")
    case True
    then show ?thesis using 1(2,3) n by (auto simp: stringfgets.simps [of fp] Let_def)
  next
    case False
    then have r: "stringfgets (drop ?n fp) (line @ text_to_nul (take ?n fp)) = (b, line', fp')"
      using 1(2,3) by (simp add: stringfgets.simps [of fp] Let_def)
    show ?thesis
    proof (cases "drop ?n fp = []")
      case True
      then show ?thesis using r 1(2) by (simp add: stringfgets.simps)
    next
      case False
      from "1.IH" [OF 1(2) refl refl \<open>CHR 0x0a \<notin> set (text_to_nul (take ?n fp))\<close> False r] show ?thesis by simp
    qed
  qed
qed

lemma getLine_files_less:
  "getLine_files line fs = (True, line', fs') \<Longrightarrow> sum_list (map (\<lambda>f. length (fs_fp f)) fs') < sum_list (map (\<lambda>f. length (fs_fp f)) fs)"
proof (induction line fs rule: getLine_files.induct)
  case (2 line f fs)
  obtain b l fp where g: "stringfgets (fs_fp f) [] = (b, l, fp)" by (metis prod.exhaust)
  show ?case
  proof (cases b)
    case True
    then have "fs_fp f \<noteq> []" using g by (auto simp: stringfgets.simps)
    then show ?thesis using stringfgets_less g True 2(2) by auto
  next
    case False
    then show ?thesis using 2 g by fastforce
  qed
qed simp

lemma zp_getLine_less: "zp_getLine zp = (True, zp') \<Longrightarrow> zp_remaining zp' < zp_remaining zp"
  by (auto simp: zp_getLine_def zp_remaining_def dest: getLine_files_less split: prod.splits)

function zp_lines :: "ZoneParserTNG \<Rightarrow> string \<Rightarrow> (ZoneParserTNG \<times> string) result" where
  "zp_lines zp content =
     (case zp_getLine zp of
        (False, zp) \<Rightarrow> Inr (zp, content)
      | (True, zp') \<Rightarrow>
          bindE (findAndElide (trim (chopComment (trim_right isspace (zp_line zp')))) CHR '')'') (\<lambda>(ended, line).
            let zp' = zp'\<lparr> zp_line := line \<rparr>; content = content @ '' '' @ line
            in if ended then Inr (zp', content) else zp_lines zp' content))"
  by pat_completeness auto
termination
  by (relation "measure (\<lambda>(zp, content). zp_remaining zp)") (auto dest!: zp_getLine_less [OF sym] simp: zp_remaining_def)

declare zp_lines.simps [simp del]

definition zp_brackets :: "ZoneParserTNG \<Rightarrow> string \<Rightarrow> (ZoneParserTNG \<times> string) result" where
  "zp_brackets zp content =
     bindE (findAndElide content CHR ''('') (\<lambda>(opened, content).
       if \<not> opened then Inr (zp, content)
       else bindE (findAndElide content CHR '')'') (\<lambda>(closed, content).
         if closed then Inr (zp, content) else zp_lines zp content))"

text \<open>What the content of some types is changed to; the SOA record may set the default time to live.\<close>

fun soa_parts :: "ZoneParserTNG \<Rightarrow> nat \<Rightarrow> string list \<Rightarrow> (u32 option \<times> string list) result" where
  "soa_parts zp n [] = Inr (None, [])"
| "soa_parts zp n (p # ps) =
     (if n > 1 then
        bindE (makeTTLFromZone zp p) (\<lambda>v. bindE (soa_parts zp (n + 1) ps) (\<lambda>(ttl, rest).
          Inr (if n = 6 \<and> \<not> zp_havedollarttl zp then Some v else ttl, show_nat (unat v) # rest)))
      else bindE (soa_parts zp (n + 1) ps) (\<lambda>(ttl, rest). Inr (ttl, p # rest)))"

definition zp_content :: "ZoneParserTNG \<Rightarrow> u16 \<Rightarrow> string \<Rightarrow> (ZoneParserTNG \<times> string) result" where
  "zp_content zp qtype content =
     (let recparts = stringtok content default_delims; canonic = toCanonic (zp_zonename zp)
      in if qtype = qt_MX then
           Inr (zp, if length recparts = 2 then recparts ! 0 @ '' '' @ stripDot (canonic (recparts ! 1)) else content)
         else if qtype = qt_SRV then
           Inr (zp, if length recparts = 4 then recparts ! 0 @ '' '' @ recparts ! 1 @ '' '' @ recparts ! 2 @ '' '' @ stripDot (canonic (recparts ! 3)) else content)
         else if qtype = qt_NS \<or> qtype = qt_CNAME \<or> qtype = qt_PTR \<or> qtype = qt_AFSDB then Inr (zp, stripDot (canonic content))
         else if qtype = qt_SOA then
           let recparts = (if length recparts > 1 then canonic (recparts ! 0) # canonic (recparts ! 1) # drop 2 recparts else recparts)
           in bindE (soa_parts zp 0 recparts) (\<lambda>(ttl, parts).
                Inr (case ttl of Some ttl \<Rightarrow> zp\<lparr> zp_defaultttl := ttl \<rparr> | None \<Rightarrow> zp, join CHR '' '' parts))
         else Inr (zp, content))"

text \<open>One round of \<open>get\<close>: the answer, or none for another round. The record changes as far as it came.\<close>

definition zp_record :: "zone_env \<Rightarrow> (nat \<times> nat) list \<Rightarrow> ZoneParserTNG \<Rightarrow> DNSResourceRecord \<Rightarrow> (ZoneParserTNG \<times> DNSResourceRecord) result" where
  "zp_record ze parts zp rr =
     (if parts = [] then zp_error zp (\<lambda>at. ''Line with too little parts '' @ at)
      else bindE (zp_fields ze zp parts False None (zp_defaultttl zp) 0) (\<lambda>(ttl, qtype, start).
        case qtype of
          None \<Rightarrow> zp_error zp (\<lambda>at. ''Malformed line '' @ at @ '': '' @ [CHR 0x27] @ zp_line zp @ [CHR 0x27])
        | Some qtype \<Rightarrow>
            let content = trim (chopComment (drop start (zp_line zp)));
                content = (if content = ''@'' then zp_zonename zp else content)
            in bindE (zp_brackets zp content) (\<lambda>(zp, content).
                 bindE (zp_content zp qtype content) (\<lambda>(zp, content).
                   Inr (zp, rr\<lparr> rr_ttl := ttl, rr_qtype := qtype, rr_content := content, rr_place := ANSWER \<rparr>)))))"

definition zp_round :: "zone_env \<Rightarrow> ZoneParserTNG \<Rightarrow> DNSResourceRecord \<Rightarrow> (ZoneParserTNG \<times> DNSResourceRecord \<times> bool option) result" where
  "zp_round ze zp rr =
     bindE (getTemplateLine zp) (\<lambda>(template, zp).
       let (found, zp) = (if template then (True, zp) else zp_getLine zp)
       in if \<not> found then Inr (zp, rr, Some False)
          else
            let zp = zp\<lparr> zp_line := trim_right (\<lambda>c. c \<in> {CHR '' '', CHR 0x0d, CHR 0x0a, CHR 0x1a}) (zp_line zp) \<rparr>;
                line = zp_line zp; parts = vstringtok line default_delims
            in if parts = [] then Inr (zp, rr, None)
               else if hd (makeString line (parts ! 0)) = CHR '';'' then Inr (zp, rr, None)
               else if line ! 0 = CHR ''$'' then bindE (zp_command ze parts zp) (\<lambda>zp. Inr (zp, rr, None))
               else
                 let (qname, parts) = zp_name zp parts; rr = rr\<lparr> rr_qname := qname \<rparr>
                 in if \<not> isspace (line ! 0) \<and> (qname = [] \<or> qname ! 0 = CHR '';'') then Inr (zp, rr, None)
                    else
                      let qname = zp_full_name zp qname; zp = zp\<lparr> zp_prevqname := qname \<rparr>; rr = rr\<lparr> rr_qname := qname \<rparr>
                      in bindE (zp_record ze parts zp rr) (\<lambda>(zp, rr). Inr (zp, rr, Some True)))"

text \<open>\<open>get\<close> goes round until there is an answer, which may be never: then it is \<open>None\<close>.\<close>

partial_function (option) zp_get :: "zone_env \<Rightarrow> ZoneParserTNG \<Rightarrow> DNSResourceRecord \<Rightarrow> (ZoneParserTNG \<times> DNSResourceRecord \<times> bool) result option" where
  "zp_get ze zp rr =
     (case zp_round ze zp rr of
        Inl e \<Rightarrow> Some (Inl e)
      | Inr (zp, rr, Some b) \<Rightarrow> Some (Inr (zp, rr, b))
      | Inr (zp, rr, None) \<Rightarrow> zp_get ze zp rr)"

end
