(* ===== verification/ZoneParserProps.thy ===== *)
theory ZoneParserProps
  imports ZoneParser
begin

text \<open>
  When the zone parser comes to an end, and what it makes of a line with a record.
\<close>

subsection \<open>Templates use up their escapes\<close>

definition slashes :: "string \<Rightarrow> nat" where
  "slashes s = count_list s CHR 0x5c"

lemma slashes_simps [simp]: "slashes [] = 0" "slashes (c # s) = (if c = CHR 0x5c then Suc (slashes s) else slashes s)"
  "slashes (s @ t) = slashes s + slashes t"
  by (simp_all add: slashes_def)

definition inert :: "string \<Rightarrow> bool" where
  "inert s \<longleftrightarrow> CHR 0x5c \<notin> set s \<and> CHR ''$'' \<notin> set s"

lemma inert_slashes: "inert s \<Longrightarrow> slashes s = 0"
  by (simp add: inert_def slashes_def)

lemma inert_simps [simp]: "inert []" "inert (c # s) \<longleftrightarrow> c \<noteq> CHR 0x5c \<and> c \<noteq> CHR ''$'' \<and> inert s" "inert (s @ t) \<longleftrightarrow> inert s \<and> inert t"
  by (auto simp: inert_def)

lemma inert_show_nat [simp]: "inert (show_nat n)"
  using show_nat_digits [of n] by (auto simp: inert_def isdigit_def ucode_def)

lemma inert_replicate [simp]: "c \<noteq> CHR 0x5c \<Longrightarrow> c \<noteq> CHR ''$'' \<Longrightarrow> inert (replicate n c)"
  by (simp add: inert_def)

lemma base_digit: "(if d < 10 then digit_char d else char_of ((if upper then 55 else 87) + d)) \<notin> {CHR 0x5c, CHR ''$''}" if "d < 16" for d :: nat
proof -
  let ?c = "if d < 10 then digit_char d else char_of ((if upper then 55 else 87) + d)"
  have "ucode ?c = (if d < 10 then 48 + d else (if upper then 55 else 87) + d)" using that by (simp add: ucode_def digit_char_def)
  moreover have "ucode CHR 0x5c = 92" "ucode CHR ''$'' = 36" by (simp_all add: ucode_def)
  ultimately have "ucode ?c \<noteq> ucode CHR 0x5c \<and> ucode ?c \<noteq> ucode CHR ''$''" using that by auto
  then show ?thesis by (auto simp del: of_char_of split del: if_split)
qed

lemma inert_show_base: "b \<le> 16 \<Longrightarrow> inert (show_base b upper n)"
proof (induction b upper n rule: show_base.induct)
  case (1 b upper n)
  show ?case
  proof (cases "b < 2")
    case False
    then have "n mod b < 16" using "1.prems" mod_less_divisor [of b n] by linarith
    with base_digit [of "n mod b" upper] 1 False show ?thesis
      by (subst show_base.simps) (auto simp: Let_def)
  qed (simp add: show_base.simps)
qed

lemma inert_print_number: "print_number width radix v = Inr s \<Longrightarrow> inert s"
proof -
  assume "print_number width radix v = Inr s"
  then obtain t where t: "s = take 78 (pad_number (sint width) t)" "inert t"
    by (auto simp: print_number_def show_signed_def inert_show_base split: if_splits)
  have "inert (pad_number (sint width) t)" using t(2) by (cases t) (auto simp: pad_number_def)
  then show ?thesis unfolding t(1) inert_def by (meson in_set_takeD)
qed

text \<open>A dollar sign in what comes out of a template was escaped in it.\<close>

lemma template_part_slashes:
  "template_part counter s = Inr r \<Longrightarrow> slashes r \<le> slashes s \<and> (CHR ''$'' \<in> set r \<longrightarrow> slashes r < slashes s)"
proof (induction counter s arbitrary: r rule: template_part.induct)
  case (1 counter)
  then show ?case by (simp add: template_part.simps)
next
  case (2 counter c s)
  consider (slash) "c = CHR 0x5c" | (dollar) "c = CHR ''$''" | (other) "c \<noteq> CHR 0x5c" "c \<noteq> CHR ''$''" by auto
  then show ?case
  proof cases
    case slash
    show ?thesis
    proof (cases s)
      case Nil
      then show ?thesis using slash "2.prems" by (simp add: template_part.simps)
    next
      case (Cons d s')
      then obtain r' where "template_part counter s' = Inr r'" "r = d # r'" using slash "2.prems" by (auto simp: template_part.simps(2))
      then show ?thesis using "2.IH"(1) [of r'] slash Cons by auto
    qed
  next
    case dollar
    show ?thesis
    proof (cases "s = [] \<or> hd s \<noteq> CHR 0x7b")
      case True
      then obtain r' where "template_part counter s = Inr r'" "r = show_nat (unat counter) @ r'"
        using dollar "2.prems" by (auto simp: template_part.simps(2))
      then show ?thesis using "2.IH"(2) [of r'] dollar True inert_show_nat [of "unat counter"] inert_slashes
        by (auto simp: inert_def)
    next
      case False
      let ?rest = "dropWhile (\<lambda>c. c \<noteq> CHR 0x7d) (tl s)"
      show ?thesis
      proof (cases "?rest = []")
        case True
        then show ?thesis using False dollar "2.prems" by (simp add: template_part.simps(2) Let_def)
      next
        case rest: False
        obtain offset width radix where spec: "scan_spec (takeWhile (\<lambda>c. c \<noteq> CHR 0x7d) (tl s)) = (offset, width, radix)"
          by (metis prod_cases3)
        then obtain tmp r' where r: "print_number width radix (counter + offset) = Inr tmp" "template_part counter (tl ?rest) = Inr r'" "r = tmp @ r'"
          using False dollar rest "2.prems" by (auto simp: template_part.simps(2) Let_def simp del: dropWhile_eq_Nil_conv)
        have "slashes (tl ?rest) \<le> slashes s"
        proof -
          have "slashes (tl xs) \<le> slashes xs" for xs by (cases xs) auto
          moreover have "slashes (dropWhile P xs) \<le> slashes xs" for P xs by (induction xs) auto
          ultimately show ?thesis by (meson le_trans)
        qed
        moreover have "slashes r' \<le> slashes (tl ?rest) \<and> (CHR ''$'' \<in> set r' \<longrightarrow> slashes r' < slashes (tl ?rest))"
          using "2.IH"(3) [OF _ dollar False refl refl rest refl spec [symmetric] refl r(1) r(2)] dollar by simp
        ultimately show ?thesis using inert_print_number [OF r(1)] inert_slashes dollar r(3) by (auto simp: inert_def)
      qed
    qed
  next
    case other
    then obtain r' where "template_part counter s = Inr r'" "r = c # r'" using "2.prems" by (auto simp: template_part.simps(2))
    then show ?thesis using "2.IH"(4) [of r'] other by auto
  qed
qed

lemma template_line_slashes:
  "template_line counter ps = Inr r \<Longrightarrow> slashes r \<le> sum_list (map slashes ps) \<and> (CHR ''$'' \<in> set r \<longrightarrow> slashes r < sum_list (map slashes ps))"
proof (induction counter ps arbitrary: r rule: template_line.induct)
  case (2 counter p)
  then show ?case using template_part_slashes by auto
next
  case (3 counter p q ps)
  then obtain a b where ab: "template_part counter p = Inr a" "template_line counter (q # ps) = Inr b" "r = a @ '' '' @ b" by auto
  show ?case using template_part_slashes [OF ab(1)] "3.IH" [OF ab(1,2)] ab(3) by auto
qed auto

lemma slashes_concat: "slashes (concat xs) = sum_list (map slashes xs)"
  by (induction xs) auto

lemma slashes_filter: "slashes (filter P s) \<le> slashes s"
  by (induction s) auto

lemma slashes_parts: "sum_list (map slashes (map (makeString line) (vstringtok line delim))) \<le> slashes line"
proof -
  have "map (makeString line) (vstringtok line delim) = stringtok line delim"
    by (auto simp: vstringtok_def stringtok_def stringtok_vstringtok_loop makeString_def)
  then have "concat (map (makeString line) (vstringtok line delim)) = filter (\<lambda>c. \<not> delim c) line"
    by (simp only: stringtok_tokens concat_tokens)
  then show ?thesis using slashes_filter by (metis slashes_concat)
qed

lemma sum_list_drop_le: "sum_list (map f (drop n xs)) \<le> sum_list (map f xs)" for f :: "'a \<Rightarrow> nat"
  by (metis append_take_drop_id le_add2 map_append sum_list_append)

lemma slashes_trim: "slashes (trim_right P s) \<le> slashes s"
proof -
  have "slashes (rev t) = slashes t" for t by (induction t) auto
  moreover have "slashes (dropWhile P t) \<le> slashes t" for t by (induction t) auto
  ultimately show ?thesis unfolding trim_right_def by metis
qed

subsection \<open>Going round\<close>

text \<open>
  A template counts up to its end. What is left to read, the escapes of the template and what is left
  of it, in this order, get less with every round.
\<close>

definition template_ok :: "ZoneParserTNG \<Rightarrow> bool" where
  "template_ok zp \<longleftrightarrow> zp_templateparts zp = [] \<or>
     (zp_templatestep zp \<noteq> 0 \<and> unat (zp_templatestop zp) + unat (zp_templatestep zp) < 2 ^ 32)"

definition template_slashes :: "ZoneParserTNG \<Rightarrow> nat" where
  "template_slashes zp = sum_list (map slashes (map (makeString (zp_templateline zp)) (zp_templateparts zp)))"

definition template_left :: "ZoneParserTNG \<Rightarrow> nat" where
  "template_left zp = (if zp_templateparts zp = [] then 0 else unat (zp_templatestop zp) + 1 - unat (zp_templatecounter zp))"

definition zp_measure :: "(ZoneParserTNG \<times> ZoneParserTNG) set" where
  "zp_measure = measures [zp_remaining, template_slashes, template_left]"

definition zp_goes :: "zone_env \<Rightarrow> ZoneParserTNG \<Rightarrow> ZoneParserTNG \<Rightarrow> bool" where
  "zp_goes ze zp zp' \<longleftrightarrow> (\<exists>rr rr'. zp_round ze zp rr = Inr (zp', rr', None))"

lemma wf_zp_measure: "wf zp_measure"
  by (simp add: zp_measure_def)

lemma template_step:
  assumes "getTemplateLine zp = Inr (True, zp1)" "template_ok zp"
  shows "zp_remaining zp1 = zp_remaining zp" "template_slashes zp1 = template_slashes zp" "template_left zp1 < template_left zp"
    "CHR ''$'' \<in> set (zp_line zp1) \<Longrightarrow> slashes (zp_line zp1) < template_slashes zp"
proof -
  let ?c = "zp_templatecounter zp" and ?s = "zp_templatestep zp" and ?e = "zp_templatestop zp"
  obtain r where r: "zp_templateparts zp \<noteq> []" "\<not> ?c > ?e" "template_line ?c (map (makeString (zp_templateline zp)) (zp_templateparts zp)) = Inr r"
    "zp1 = zp\<lparr> zp_templatecounter := ?c + ?s, zp_line := r \<rparr>"
    using assms(1) by (auto simp: getTemplateLine_def split: if_splits)
  show "zp_remaining zp1 = zp_remaining zp" "template_slashes zp1 = template_slashes zp"
    by (simp_all add: r(4) zp_remaining_def template_slashes_def)
  have c: "unat ?c \<le> unat ?e" using r(2) by (simp add: word_le_nat_alt not_less)
  have "0 < unat ?s" using assms(2) r(1) by (simp add: template_ok_def unat_gt_0)
  moreover have "unat (?c + ?s) = unat ?c + unat ?s" using assms(2) r(1) c by (simp add: template_ok_def unat_word_ariths(1))
  ultimately show "template_left zp1 < template_left zp" using r(1) c by (simp add: r(4) template_left_def)
  assume "CHR ''$'' \<in> set (zp_line zp1)"
  then show "slashes (zp_line zp1) < template_slashes zp" using template_line_slashes [OF r(3)] by (simp add: r(4) template_slashes_def)
qed

lemma no_template: "getTemplateLine zp = Inr (False, zp1) \<Longrightarrow> zp1 = zp"
  by (auto simp: getTemplateLine_def split: if_splits)

text \<open>A command leaves the template as it is or makes one of its line; no file is opened here.\<close>

lemma zp_command_effect:
  assumes "zp_command ze parts zp = Inr zp'" "\<And>f. ze_files ze f = None" "parts = vstringtok (zp_line zp) delim"
  shows "zp_remaining zp' = zp_remaining zp"
    and "template_slashes zp' = template_slashes zp \<and> template_left zp' = template_left zp \<or> template_slashes zp' \<le> slashes (zp_line zp)"
proof -
  have "template_slashes zp' \<le> slashes (zp_line zp)" if "zp_templateline zp' = zp_line zp" "zp_templateparts zp' = drop 2 parts"
    using that slashes_parts [of "zp_line zp" delim] sum_list_drop_le [of "slashes \<circ> makeString (zp_line zp)" 2 parts]
    by (simp add: template_slashes_def assms(3) o_def)
  then show "zp_remaining zp' = zp_remaining zp"
    and "template_slashes zp' = template_slashes zp \<and> template_left zp' = template_left zp \<or> template_slashes zp' \<le> slashes (zp_line zp)"
    using assms(1,2) by (auto simp: zp_command_def Let_def stackFile_def zp_error_def zp_remaining_def template_slashes_def
        template_left_def bindE_eq_Inl split: if_splits prod.splits option.splits)
qed

text \<open>A round without an answer either passes over the line or is a command.\<close>

definition zp_trimmed :: "ZoneParserTNG \<Rightarrow> ZoneParserTNG" where
  "zp_trimmed zp = zp\<lparr> zp_line := trim_right (\<lambda>c. c \<in> {CHR '' '', CHR 0x0d, CHR 0x0a, CHR 0x1a}) (zp_line zp) \<rparr>"

lemma round_retry:
  assumes "zp_round ze zp rr = Inr (zp', rr', None)"
  obtains zp1 where "getTemplateLine zp = Inr (True, zp1) \<or> getTemplateLine zp = Inr (False, zp) \<and> zp_getLine zp = (True, zp1)"
    "zp' = zp_trimmed zp1 \<or> vstringtok (zp_line (zp_trimmed zp1)) default_delims \<noteq> [] \<and> zp_line (zp_trimmed zp1) ! 0 = CHR ''$'' \<and>
       zp_command ze (vstringtok (zp_line (zp_trimmed zp1)) default_delims) (zp_trimmed zp1) = Inr zp'"
proof -
  obtain template zpa where t: "getTemplateLine zp = Inr (template, zpa)"
    using assms by (auto simp: zp_round_def)
  obtain found zp1 where f: "(if template then (True, zpa) else zp_getLine zpa) = (found, zp1)" by fastforce
  have "found" using assms t f by (auto simp: zp_round_def split: if_splits)
  show thesis
  proof (rule that)
    show "getTemplateLine zp = Inr (True, zp1) \<or> getTemplateLine zp = Inr (False, zp) \<and> zp_getLine zp = (True, zp1)"
      using t f \<open>found\<close> no_template by (cases template) auto
    show "zp' = zp_trimmed zp1 \<or> vstringtok (zp_line (zp_trimmed zp1)) default_delims \<noteq> [] \<and> zp_line (zp_trimmed zp1) ! 0 = CHR ''$'' \<and>
       zp_command ze (vstringtok (zp_line (zp_trimmed zp1)) default_delims) (zp_trimmed zp1) = Inr zp'"
      using assms t f \<open>found\<close> unfolding zp_round_def Let_def zp_trimmed_def [symmetric]
      by (simp split: if_splits prod.splits)
  qed
qed

lemma line_not_empty: "vstringtok s default_delims \<noteq> [] \<Longrightarrow> s \<noteq> []"
  by (auto simp: vstringtok_def vstringtok_loop.simps)

lemma trimmed_line: "slashes (zp_line (zp_trimmed zp)) \<le> slashes (zp_line zp)" "set (zp_line (zp_trimmed zp)) \<subseteq> set (zp_line zp)"
  using slashes_trim by (auto simp: zp_trimmed_def trim_right_def dest: set_dropWhileD)

lemma trimmed_same [simp]: "zp_remaining (zp_trimmed zp) = zp_remaining zp" "template_slashes (zp_trimmed zp) = template_slashes zp"
  "template_left (zp_trimmed zp) = template_left zp"
  by (simp_all add: zp_trimmed_def zp_remaining_def template_slashes_def template_left_def)

lemma round_decreases:
  assumes "zp_round ze zp rr = Inr (zp', rr', None)" "template_ok zp" "\<And>f. ze_files ze f = None"
  shows "(zp', zp) \<in> zp_measure"
  using assms(1)
proof (rule round_retry)
  fix zp1
  let ?zp = "zp_trimmed zp1"
  assume src: "getTemplateLine zp = Inr (True, zp1) \<or> getTemplateLine zp = Inr (False, zp) \<and> zp_getLine zp = (True, zp1)"
    and out: "zp' = ?zp \<or> vstringtok (zp_line ?zp) default_delims \<noteq> [] \<and> zp_line ?zp ! 0 = CHR ''$'' \<and>
       zp_command ze (vstringtok (zp_line ?zp) default_delims) ?zp = Inr zp'"
  have rem: "zp_remaining zp' = zp_remaining zp1"
    using out zp_command_effect(1) [OF _ assms(3) refl] by auto
  from src show ?thesis
  proof (elim disjE conjE)
    assume "zp_getLine zp = (True, zp1)"
    then show ?thesis using zp_getLine_less rem by (auto simp: zp_measure_def)
  next
    assume t: "getTemplateLine zp = Inr (True, zp1)"
    note step = template_step [OF t assms(2)]
    from out show ?thesis
    proof (elim disjE conjE)
      assume "zp' = ?zp"
      then show ?thesis using step by (simp add: zp_measure_def)
    next
      assume c: "vstringtok (zp_line ?zp) default_delims \<noteq> []" "zp_line ?zp ! 0 = CHR ''$''"
        "zp_command ze (vstringtok (zp_line ?zp) default_delims) ?zp = Inr zp'"
      have "CHR ''$'' \<in> set (zp_line ?zp)" using c(2) line_not_empty [OF c(1)] nth_mem [of 0 "zp_line ?zp"] by simp
      then have "slashes (zp_line ?zp) < template_slashes zp" using step(4) trimmed_line [of zp1] by fastforce
      then show ?thesis using zp_command_effect(2) [OF c(3) assms(3) refl] step rem by (auto simp: zp_measure_def)
    qed
  qed
qed

text \<open>
  Property C17. Reading a record from a zone comes to an end, however many comments, blank lines,
  commands and template lines come before it, if every template that is started counts up to its end
  (its step is not zero, and stepping over the end does not overflow 32 bits) and no other file is
  included.
\<close>

theorem zone_get_ends:
  assumes "\<And>zp'. (zp_goes ze)\<^sup>*\<^sup>* zp zp' \<Longrightarrow> template_ok zp'" "\<And>f. ze_files ze f = None"
  shows "\<exists>r. zp_get ze zp rr = Some r"
  using wf_zp_measure assms(1)
proof (induction zp arbitrary: rr rule: wf_induct_rule)
  case (less zp)
  show ?case
  proof (cases "\<exists>zp' rr'. zp_round ze zp rr = Inr (zp', rr', None)")
    case True
    then obtain zp' rr' where r: "zp_round ze zp rr = Inr (zp', rr', None)" by blast
    have ok: "template_ok zp" using less.prems by blast
    have go: "zp_goes ze zp zp'" using r by (auto simp: zp_goes_def)
    have "\<exists>y. zp_get ze zp' rr' = Some y"
      by (rule less.IH [OF round_decreases [OF r ok assms(2)]]) (use go less.prems in \<open>blast intro: converse_rtranclp_into_rtranclp\<close>)
    then show ?thesis using r by (subst zp_get.simps) simp
  next
    case False
    then show ?thesis by (subst zp_get.simps) (auto split: sum.split prod.split option.split)
  qed
qed

text \<open>A zone of one template, which makes two comments.\<close>

definition ending :: "string \<Rightarrow> u32 \<Rightarrow> ZoneParserTNG" where
  "ending line counter = \<lparr> zp_reldir = [], zp_line = line, zp_prevqname = [], zp_zonename = ''.'', zp_defaultttl = 3600, zp_havedollarttl = False,
     zp_templatecounter = counter, zp_templatestop = 2, zp_templatestep = 1, zp_templateline = ''$GENERATE 1-2 ;$'',
     zp_templateparts = [(14, 16)], zp_filestates = [\<lparr> fs_fp = [], fs_filename = ''zone'', fs_lineno = 1 \<rparr>] \<rparr>"

definition ending_start :: ZoneParserTNG where
  "ending_start = (ending [] 0)\<lparr> zp_templatestop := 0, zp_templatestep := 0, zp_templateline := [], zp_templateparts := [],
     zp_filestates := [\<lparr> fs_fp = ''$GENERATE 1-2 ;$'' @ [CHR 0x0a], fs_filename = ''zone'', fs_lineno = 0 \<rparr>] \<rparr>"

definition ending_env :: zone_env where
  "ending_env = \<lparr> ze_files = (\<lambda>f. None), ze_error = [], ze_registry = empty_registry \<rparr>"

lemma ending_rounds:
  "zp_round ending_env ending_start rr = Inr (ending ''$GENERATE 1-2 ;$'' 1, rr, None)"
  "zp_round ending_env (ending ''$GENERATE 1-2 ;$'' 1) rr = Inr (ending '';1'' 2, rr, None)"
  "zp_round ending_env (ending '';1'' 2) rr = Inr (ending '';2'' 3, rr, None)"
  "\<exists>zp. zp_round ending_env (ending '';2'' 3) rr = Inr (zp, rr, Some False)"
proof -
  show "\<exists>zp. zp_round ending_env (ending '';2'' 3) rr = Inr (zp, rr, Some False)"
  proof
    show "zp_round ending_env (ending '';2'' 3) rr = Inr ((ending [] 3)\<lparr> zp_filestates := [] \<rparr>, rr, Some False)" by code_simp
  qed
qed code_simp+

lemma ending_reached:
  "(zp_goes ending_env)\<^sup>*\<^sup>* ending_start zp \<Longrightarrow> zp \<in> {ending_start, ending ''$GENERATE 1-2 ;$'' 1, ending '';1'' 2, ending '';2'' 3}"
proof (induction rule: rtranclp_induct)
  case (step zp zp')
  obtain rr rr' where r: "zp_round ending_env zp rr = Inr (zp', rr', None)" using step(2) by (auto simp: zp_goes_def)
  from step(3) show ?case
    using r ending_rounds(1-3) [of rr] ending_rounds(4) [of rr] by auto
qed simp

lemma zone_get_ends_witness: "\<forall>rr. \<exists>r. zp_get ending_env ending_start rr = Some r"
proof
  fix rr
  show "\<exists>r. zp_get ending_env ending_start rr = Some r"
  proof (rule zone_get_ends)
    fix zp
    assume "(zp_goes ending_env)\<^sup>*\<^sup>* ending_start zp"
    from ending_reached [OF this] show "template_ok zp"
      by (auto simp: template_ok_def ending_def ending_start_def)
  qed (simp add: ending_env_def)
qed

text \<open>With a step of zero the same comment is read over and over.\<close>

definition endless_env :: "registry \<Rightarrow> zone_env" where
  "endless_env reg = \<lparr> ze_files = [''zone'' \<mapsto> ''$GENERATE 1-1/0 ;'' @ [CHR 0x0a]], ze_error = [], ze_registry = reg \<rparr>"

definition endless :: ZoneParserTNG where
  "endless = \<lparr> zp_reldir = [], zp_line = '';'', zp_prevqname = [], zp_zonename = ''.'', zp_defaultttl = 3600, zp_havedollarttl = False,
     zp_templatecounter = 1, zp_templatestop = 1, zp_templatestep = 0, zp_templateline = ''$GENERATE 1-1/0 ;'',
     zp_templateparts = [(16, 17)], zp_filestates = [\<lparr> fs_fp = [], fs_filename = ''zone'', fs_lineno = 1 \<rparr>] \<rparr>"

lemma endless_round: "zp_round ze endless rr = Inr (endless, rr, None)"
  by code_simp

lemma endless_template: "zp_get ze endless rr = None"
proof (rule ccontr)
  assume "zp_get ze endless rr \<noteq> None"
  then obtain y where y: "zp_get ze endless rr = Some y" by blast
  have "endless = endless \<longrightarrow> False"
    using y
  proof (rule zp_get.raw_induct [rotated, where P = "\<lambda>ze zp rr y. zp = endless \<longrightarrow> False"])
    fix f :: "zone_env \<Rightarrow> ZoneParserTNG \<Rightarrow> DNSResourceRecord \<Rightarrow> (ZoneParserTNG \<times> DNSResourceRecord \<times> bool) result option" and ze zp rr y
    assume IH: "\<And>ze zp rr y. f ze zp rr = Some y \<Longrightarrow> zp = endless \<longrightarrow> False"
      and step: "(case zp_round ze zp rr of Inl e \<Rightarrow> Some (Inl e) | Inr (zp, rr, None) \<Rightarrow> f ze zp rr | Inr (zp, rr, Some b) \<Rightarrow> Some (Inr (zp, rr, b))) = Some y"
    show "zp = endless \<longrightarrow> False"
      using IH [of ze endless rr y] step endless_round [of ze rr] by auto
  qed
  then show False by simp
qed

text \<open>A zone of this one line.\<close>

lemma endless_zone:
  "\<exists>zp. ZoneParserTNG_init (endless_env reg) 0 0 0 ''zone'' ''.'' [] = Inr zp \<and> zp_get (endless_env reg) zp rr = None"
proof -
  let ?start = "endless\<lparr> zp_line := [], zp_templatecounter := 0, zp_templatestop := 0, zp_templatestep := 0, zp_templateline := [],
    zp_templateparts := [], zp_filestates := [\<lparr> fs_fp = ''$GENERATE 1-1/0 ;'' @ [CHR 0x0a], fs_filename = ''zone'', fs_lineno = 0 \<rparr>] \<rparr>"
  let ?next = "endless\<lparr> zp_line := ''$GENERATE 1-1/0 ;'' \<rparr>"
  have "ZoneParserTNG_init (endless_env reg) 0 0 0 ''zone'' ''.'' [] = Inr ?start" by code_simp
  moreover have "zp_get (endless_env reg) ?start rr = None"
  proof -
    have "zp_round (endless_env reg) ?start rr = Inr (?next, rr, None)" by code_simp
    then have "zp_get (endless_env reg) ?start rr = zp_get (endless_env reg) ?next rr"
      by (subst zp_get.simps) (simp only: sum.case prod.case option.case)
    moreover have "zp_round (endless_env reg) ?next rr = Inr (endless, rr, None)" by code_simp
    then have "zp_get (endless_env reg) ?next rr = zp_get (endless_env reg) endless rr"
      by (subst zp_get.simps) (simp only: sum.case prod.case option.case)
    ultimately show ?thesis by (simp only: endless_template)
  qed
  ultimately show ?thesis by blast
qed

subsection \<open>A line with a record\<close>
































end
