(* ===== verification/Throttle.thy ===== *)
theory Throttle
  imports IpUtils RecursorCache
begin

text \<open>
  What the resolver keeps about servers and names (\<open>syncres.hh\<close>): the throttle, the negative cache
  with \<open>replacing_insert\<close> of \<open>misc.hh\<close>, and the state of EDNS support.
\<close>

subsection \<open>The throttle\<close>

record throttle_entry =
  te_ttd :: int
  te_count :: int

record 'k Throttle =
  th_limit :: int
  th_ttl :: int
  th_last_clean :: int
  th_cont :: "('k \<times> throttle_entry) list"

definition Throttle_init :: "int \<Rightarrow> 'k Throttle" where
  "Throttle_init now = \<lparr> th_limit = 3, th_ttl = 60, th_last_clean = now, th_cont = [] \<rparr>"

text \<open>A \<open>std::map\<close> is the list of its pairs; \<open>lt\<close> is the order of its keys.\<close>

definition om_find :: "('k \<Rightarrow> 'k \<Rightarrow> bool) \<Rightarrow> 'k \<Rightarrow> ('k \<times> 'v) list \<Rightarrow> 'v option" where
  "om_find lt t cont = map_option snd (find (\<lambda>(k, e). mi_equiv lt t k) cont)"

definition om_erase :: "('k \<Rightarrow> 'k \<Rightarrow> bool) \<Rightarrow> 'k \<Rightarrow> ('k \<times> 'v) list \<Rightarrow> ('k \<times> 'v) list" where
  "om_erase lt t cont = filter (\<lambda>(k, e). \<not> mi_equiv lt t k) cont"

definition om_set :: "('k \<Rightarrow> 'k \<Rightarrow> bool) \<Rightarrow> 'k \<Rightarrow> 'v \<Rightarrow> ('k \<times> 'v) list \<Rightarrow> ('k \<times> 'v) list" where
  "om_set lt t e cont =
     (if om_find lt t cont = None then cont @ [(t, e)]
      else map (\<lambda>(k, old). (k, if mi_equiv lt t k then e else old)) cont)"

definition th_clean :: "int \<Rightarrow> 'k Throttle \<Rightarrow> 'k Throttle" where
  "th_clean now th =
     (if now > th_last_clean th + 300
      then th\<lparr> th_last_clean := now, th_cont := filter (\<lambda>(k, e). \<not> te_ttd e < now) (th_cont th) \<rparr> else th)"

definition shouldThrottle :: "('k \<Rightarrow> 'k \<Rightarrow> bool) \<Rightarrow> int \<Rightarrow> 'k \<Rightarrow> 'k Throttle \<Rightarrow> bool \<times> 'k Throttle" where
  "shouldThrottle lt now t th =
     (let th = th_clean now th
      in case om_find lt t (th_cont th) of
           None \<Rightarrow> (False, th)
         | Some i \<Rightarrow>
             if now > te_ttd i then (False, th\<lparr> th_cont := om_erase lt t (th_cont th) \<rparr>)
             else if te_count i < 0 then (False, th\<lparr> th_cont := om_erase lt t (th_cont th) \<rparr>)
             else (True, th\<lparr> th_cont := om_set lt t (i\<lparr> te_count := te_count i - 1 \<rparr>) (th_cont th) \<rparr>))"

definition throttle :: "('k \<Rightarrow> 'k \<Rightarrow> bool) \<Rightarrow> int \<Rightarrow> 'k \<Rightarrow> int \<Rightarrow> int \<Rightarrow> 'k Throttle \<Rightarrow> 'k Throttle" where
  "throttle lt now t ttl tries th =
     (let e = \<lparr> te_ttd = now + (if ttl \<noteq> 0 then ttl else th_ttl th), te_count = (if tries \<noteq> 0 then tries else th_limit th) \<rparr>
      in case om_find lt t (th_cont th) of
           None \<Rightarrow> th\<lparr> th_cont := om_set lt t e (th_cont th) \<rparr>
         | Some i \<Rightarrow>
             if te_ttd i > te_ttd e \<or> te_count i < te_count e then th\<lparr> th_cont := om_set lt t e (th_cont th) \<rparr> else th)"

definition th_size :: "'k Throttle \<Rightarrow> nat" where
  "th_size th = length (th_cont th)"

text \<open>The resolver throttles by address, name and type, in the order of tuples.\<close>

type_synonym throttle_key = "ComboAddress \<times> string \<times> u16"

definition throttle_key_less :: "throttle_key \<Rightarrow> throttle_key \<Rightarrow> bool" where
  "throttle_key_less a b =
     (let (ip1, name1, type1) = a; (ip2, name2, type2) = b
      in if ComboAddress_less ip1 ip2 then True
         else if ComboAddress_less ip2 ip1 then False
         else if string_less name1 name2 then True
         else if string_less name2 name1 then False
         else type1 < type2)"

subsection \<open>The negative cache\<close>

record NegCacheEntry =
  ne_name :: string
  ne_qtype :: QType
  ne_qname :: string
  ne_ttd :: u32

definition neg_less :: "NegCacheEntry \<Rightarrow> NegCacheEntry \<Rightarrow> bool" where
  "neg_less a b =
     (if pdns_ilexicographical_compare (ne_name a) (ne_name b) then True
      else if pdns_ilexicographical_compare (ne_name b) (ne_name a) then False
      else ne_qtype a < ne_qtype b)"

definition replacing_insert :: "('a \<Rightarrow> 'a \<Rightarrow> bool) \<Rightarrow> 'a \<Rightarrow> 'a list \<Rightarrow> 'a list" where
  "replacing_insert lt x m = (let (m', inserted) = mi_insert lt x m in if inserted then m' else mi_replace lt x m')"

text \<open>\<open>equal_range(tie(qname))\<close>: the entries of a name, in the order of the types.\<close>

definition neg_range :: "string \<Rightarrow> NegCacheEntry list \<Rightarrow> NegCacheEntry list" where
  "neg_range qname m =
     takeWhile (\<lambda>e. \<not> pdns_ilexicographical_compare qname (ne_name e))
       (dropWhile (\<lambda>e. pdns_ilexicographical_compare (ne_name e) qname) (mi_ordered neg_less m))"

subsection \<open>EDNS support of a server\<close>

datatype EDNSMode = CONFIRMEDPINGER | UNKNOWN | EDNSNOPING | EDNSPINGOK | EDNSIGNORANT | NOEDNS

record EDNSStatus =
  es_mode :: EDNSMode
  es_modeSetAt :: int
  es_EDNSPingHitCount :: int

definition EDNSStatus_init :: EDNSStatus where
  "EDNSStatus_init = \<lparr> es_mode = UNKNOWN, es_modeSetAt = 0, es_EDNSPingHitCount = 0 \<rparr>"

text \<open>The map of the states, and \<open>operator[]\<close> on it, which makes an entry if there is none.\<close>

definition es_get :: "ComboAddress \<Rightarrow> (ComboAddress \<times> EDNSStatus) list \<Rightarrow> EDNSStatus" where
  "es_get ip m = (case om_find ComboAddress_less ip m of Some s \<Rightarrow> s | None \<Rightarrow> EDNSStatus_init)"

definition es_put :: "ComboAddress \<Rightarrow> EDNSStatus \<Rightarrow> (ComboAddress \<times> EDNSStatus) list \<Rightarrow> (ComboAddress \<times> EDNSStatus) list" where
  "es_put ip s m = om_set ComboAddress_less ip s m"

subsection \<open>Maps by their keys\<close>

text \<open>
  The interface of a map whose order tells the keys apart that \<open>key\<close> tells apart, on the keys that are
  \<open>ok\<close>: what a map stands for is a function on what \<open>key\<close> gives.
\<close>

locale key_order =
  fixes lt :: "'k \<Rightarrow> 'k \<Rightarrow> bool" and key :: "'k \<Rightarrow> 'a" and ok :: "'k \<Rightarrow> bool"
  assumes equiv_key: "ok a \<Longrightarrow> ok b \<Longrightarrow> mi_equiv lt a b \<longleftrightarrow> key a = key b"
begin

definition sane :: "('k \<times> 'v) list \<Rightarrow> bool" where
  "sane m \<longleftrightarrow> distinct (map (key \<circ> fst) m) \<and> (\<forall>p \<in> set m. ok (fst p))"

definition stored :: "('k \<times> 'v) list \<Rightarrow> 'a \<Rightarrow> 'v option" where
  "stored m a = map_option snd (find (\<lambda>p. key (fst p) = a) m)"

lemma stored_Nil [simp]: "stored [] a = None" and
  stored_Cons [simp]: "stored (p # m) a = (if key (fst p) = a then Some (snd p) else stored m a)"
  by (auto simp: stored_def)

lemma sane_Nil [simp]: "sane []" and
  sane_Cons [simp]: "sane (p # m) \<longleftrightarrow> key (fst p) \<notin> key ` fst ` set m \<and> ok (fst p) \<and> sane m"
  by (auto simp: sane_def image_image)

lemma stored_None: "stored m a = None \<longleftrightarrow> a \<notin> key ` fst ` set m"
  by (induction m) auto

lemma find_stored: "sane m \<Longrightarrow> ok t \<Longrightarrow> om_find lt t m = stored m (key t)"
  by (induction m) (auto simp: om_find_def equiv_key)

lemma erase_stored: "sane m \<Longrightarrow> ok t \<Longrightarrow> stored (om_erase lt t m) = (stored m)(key t := None)"
  by (induction m) (auto simp: om_erase_def equiv_key fun_eq_iff stored_None image_iff)

lemma filter_sane: "sane m \<Longrightarrow> sane (filter P m)"
  by (induction m) auto

lemma erase_sane: "sane m \<Longrightarrow> sane (om_erase lt t m)"
  unfolding om_erase_def by (rule filter_sane)

lemma filter_stored: "sane m \<Longrightarrow> stored (filter (\<lambda>(k, e). P e) m) a = (case stored m a of Some e \<Rightarrow> if P e then Some e else None | None \<Rightarrow> None)"
proof (induction m)
  case (Cons p m)
  then have "stored m (key (fst p)) = None" by (simp add: stored_None)
  with Cons show ?case by (auto split: option.split prod.splits)
qed simp

lemma append_stored: "key t \<notin> key ` fst ` set m \<Longrightarrow> stored (m @ [(t, e)]) = (stored m)(key t \<mapsto> e)"
  by (induction m) (auto simp: fun_eq_iff)

lemma append_sane: "sane m \<Longrightarrow> ok t \<Longrightarrow> key t \<notin> key ` fst ` set m \<Longrightarrow> sane (m @ [(t, e)])"
  by (induction m) auto

lemma update_stored:
  "sane m \<Longrightarrow> ok t \<Longrightarrow> stored (map (\<lambda>(k, old). (k, if mi_equiv lt t k then e else old)) m) a =
     (if a = key t then map_option (\<lambda>_. e) (stored m a) else stored m a)"
  by (induction m) (auto simp: equiv_key)

lemma set_stored: "sane m \<Longrightarrow> ok t \<Longrightarrow> stored (om_set lt t e m) = (stored m)(key t \<mapsto> e)"
  using append_stored [of t m e] update_stored [of m t e] stored_None [of m "key t"]
  by (cases "stored m (key t)") (auto simp: om_set_def find_stored fun_eq_iff)

lemma set_sane: "sane m \<Longrightarrow> ok t \<Longrightarrow> sane (om_set lt t e m)"
  using append_sane [of m t e] stored_None [of m "key t"]
  by (auto simp: om_set_def find_stored sane_def comp_def case_prod_unfold)

end

end
