(* ===== verification/ThrottleProps.thy ===== *)
theory ThrottleProps
  imports Throttle
begin

text \<open>
  The throttle as a function from what it throttles to the entry that is pending, and the promise that
  whatever is throttled is let through again.
\<close>

context key_order
begin

definition pending :: "'k Throttle \<Rightarrow> int \<Rightarrow> 'a \<Rightarrow> throttle_entry option" where
  "pending th now a = (case stored (th_cont th) a of Some e \<Rightarrow> if te_ttd e < now then None else Some e | None \<Rightarrow> None)"

lemma clean_sane: "sane (th_cont th) \<Longrightarrow> sane (th_cont (th_clean now th))"
  by (simp add: th_clean_def filter_sane)

lemma clean_stored:
  "sane (th_cont th) \<Longrightarrow> stored (th_cont (th_clean now th)) a = stored (th_cont th) a \<or>
     (stored (th_cont (th_clean now th)) a = None \<and> pending th now a = None)"
  by (auto simp: th_clean_def pending_def filter_stored [where P = "\<lambda>e. \<not> te_ttd e < now"] split: option.split)

lemma clean_Some: "sane (th_cont th) \<Longrightarrow> stored (th_cont (th_clean now th)) a = Some e \<Longrightarrow> stored (th_cont th) a = Some e"
  using clean_stored [of th now a] by auto

lemma clean_pending: "sane (th_cont th) \<Longrightarrow> pending (th_clean now th) now = pending th now"
proof
  fix a
  assume "sane (th_cont th)"
  from clean_stored [OF this, of now a] show "pending (th_clean now th) now a = pending th now a"
    by (auto simp: pending_def)
qed

lemma should_sane: "sane (th_cont th) \<Longrightarrow> ok t \<Longrightarrow> sane (th_cont (snd (shouldThrottle lt now t th)))"
  by (auto simp: shouldThrottle_def Let_def clean_sane erase_sane set_sane split: option.split)

lemma throttle_sane: "sane (th_cont th) \<Longrightarrow> ok t \<Longrightarrow> sane (th_cont (throttle lt now t ttl tries th))"
  by (auto simp: throttle_def Let_def set_sane split: option.split)

lemma should_refines:
  assumes "sane (th_cont th)" "ok t"
  shows "(fst (shouldThrottle lt now t th), pending (snd (shouldThrottle lt now t th)) now) =
     (case pending th now (key t) of
        None \<Rightarrow> (False, pending th now)
      | Some e \<Rightarrow> if te_count e < 0 then (False, (pending th now)(key t := None))
                  else (True, (pending th now)(key t \<mapsto> e\<lparr> te_count := te_count e - 1 \<rparr>)))"
proof -
  let ?c = "th_clean now th"
  have s: "sane (th_cont ?c)" using assms(1) by (rule clean_sane)
  note p = clean_pending [OF assms(1), of now, symmetric]
  show ?thesis
    unfolding p
    by (auto simp: shouldThrottle_def Let_def find_stored [OF s assms(2)] pending_def fun_eq_iff
      erase_stored [OF s assms(2)] set_stored [OF s assms(2)] split: option.split)
qed

lemma throttle_refines_put:
  fixes now ttl tries :: int
  assumes "sane (th_cont th)" "ok t"
  defines "e \<equiv> \<lparr> te_ttd = now + (if ttl \<noteq> 0 then ttl else th_ttl th), te_count = (if tries \<noteq> 0 then tries else th_limit th) \<rparr>"
  shows "stored (th_cont (throttle lt now t ttl tries th)) =
     (case stored (th_cont th) (key t) of
        Some i \<Rightarrow> if te_ttd i > te_ttd e \<or> te_count i < te_count e then (stored (th_cont th))(key t \<mapsto> e) else stored (th_cont th)
      | None \<Rightarrow> (stored (th_cont th))(key t \<mapsto> e))"
  by (auto simp: throttle_def Let_def e_def find_stored [OF assms(1,2)] set_stored [OF assms(1,2)] split: option.split)

end

text \<open>A run of the throttle: questions whether to throttle, and failures; the answers to the questions.\<close>

datatype 'k throttle_op = Asked int 'k | Failed int 'k int int

fun op_key :: "'k throttle_op \<Rightarrow> 'k" where
  "op_key (Asked now t) = t"
| "op_key (Failed now t ttl tries) = t"

fun op_tries :: "'k throttle_op \<Rightarrow> int" where
  "op_tries (Asked now t) = 0"
| "op_tries (Failed now t ttl tries) = tries"

fun is_asked :: "'k throttle_op \<Rightarrow> bool" where
  "is_asked (Asked now t) = True"
| "is_asked (Failed now t ttl tries) = False"

fun throttle_run :: "('k \<Rightarrow> 'k \<Rightarrow> bool) \<Rightarrow> 'k throttle_op list \<Rightarrow> 'k Throttle \<Rightarrow> ('k \<times> bool) list \<times> 'k Throttle" where
  "throttle_run lt [] th = ([], th)"
| "throttle_run lt (Asked now t # ops) th =
     (let (b, th) = shouldThrottle lt now t th; (answers, th) = throttle_run lt ops th in ((t, b) # answers, th))"
| "throttle_run lt (Failed now t ttl tries # ops) th = throttle_run lt ops (throttle lt now t ttl tries th)"

lemma throttle_run_append:
  "throttle_run lt (ops1 @ ops2) th =
     (fst (throttle_run lt ops1 th) @ fst (throttle_run lt ops2 (snd (throttle_run lt ops1 th))),
      snd (throttle_run lt ops2 (snd (throttle_run lt ops1 th))))"
  by (induction lt ops1 th rule: throttle_run.induct) (auto simp: Let_def split: prod.splits)

context key_order
begin

text \<open>No entry is good for more than \<open>M\<close> refusals and one.\<close>

definition limited :: "int \<Rightarrow> 'k Throttle \<Rightarrow> bool" where
  "limited M th \<longleftrightarrow> sane (th_cont th) \<and> th_limit th \<le> M \<and> (\<forall>a e. stored (th_cont th) a = Some e \<longrightarrow> te_count e \<le> M)"

lemma should_stored:
  assumes "sane (th_cont th)" "ok t" "stored (th_cont (snd (shouldThrottle lt now t th))) a = Some e"
  shows "\<exists>i. stored (th_cont th) a = Some i \<and> te_count e = (if a = key t then te_count i - 1 else te_count i)"
proof -
  let ?c = "th_clean now th"
  have s: "sane (th_cont ?c)" using assms(1) by (rule clean_sane)
  show ?thesis
    using assms(3) clean_Some [OF assms(1), of now]
    by (auto simp: shouldThrottle_def Let_def find_stored [OF s assms(2)] erase_stored [OF s assms(2)] set_stored [OF s assms(2)]
      split: option.splits if_splits)
qed

lemma should_answer:
  assumes "sane (th_cont th)" "ok t" "fst (shouldThrottle lt now t th)"
  shows "\<exists>i. stored (th_cont th) (key t) = Some i \<and> 0 \<le> te_count i"
proof -
  let ?c = "th_clean now th"
  have s: "sane (th_cont ?c)" using assms(1) by (rule clean_sane)
  show ?thesis
    using assms(3) clean_Some [OF assms(1), of now]
    by (auto simp: shouldThrottle_def Let_def find_stored [OF s assms(2)] split: option.splits if_splits)
qed

lemma should_limit: "th_limit (snd (shouldThrottle lt now t th)) = th_limit th"
  by (auto simp: shouldThrottle_def Let_def th_clean_def split: option.split)

lemma throttle_limit: "th_limit (throttle lt now t ttl tries th) = th_limit th"
  by (auto simp: throttle_def Let_def split: option.split)

lemma should_limited: "limited M th \<Longrightarrow> ok t \<Longrightarrow> limited M (snd (shouldThrottle lt now t th))"
proof -
  assume l: "limited M th" and ok: "ok t"
  have "te_count e \<le> M" if "stored (th_cont (snd (shouldThrottle lt now t th))) a = Some e" for a e
    using should_stored [OF _ ok that] l by (auto simp: limited_def split: if_splits) fastforce
  with l ok show ?thesis by (simp add: limited_def should_limit should_sane)
qed

lemma throttle_limited: "limited M th \<Longrightarrow> ok t \<Longrightarrow> tries \<le> M \<Longrightarrow> limited M (throttle lt now t ttl tries th)"
  using throttle_sane [of th t now ttl tries]
  by (auto simp: limited_def throttle_limit throttle_refines_put split: option.splits if_splits)

lemma run_limited:
  "limited M th \<Longrightarrow> list_all (\<lambda>op. ok (op_key op) \<and> op_tries op \<le> M) ops \<Longrightarrow> limited M (snd (throttle_run lt ops th))"
proof (induction ops arbitrary: th)
  case (Cons op ops)
  show ?case
  proof (cases op)
    case (Asked now t)
    with Cons.prems should_limited [of M th t now] show ?thesis
      by (auto simp: Let_def split: prod.splits dest: Cons.IH)
  next
    case (Failed now t ttl tries)
    with Cons.prems throttle_limited [of M th t tries now ttl] show ?thesis by (auto intro: Cons.IH)
  qed
qed simp

lemma throttle_other:
  assumes "sane (th_cont th)" "ok u" "key u \<noteq> a"
  shows "stored (th_cont (throttle lt now u ttl tries th)) a = stored (th_cont th) a"
  using assms by (auto simp: throttle_refines_put split: option.split)

lemma run_lets_through:
  assumes "sane (th_cont th)" "list_all (\<lambda>op. ok (op_key op) \<and> (is_asked op \<or> key (op_key op) \<noteq> a)) ops"
    "\<forall>e. stored (th_cont th) a = Some e \<longrightarrow> te_count e + 2 \<le> int n" "0 < n"
    "n \<le> length (filter (\<lambda>op. is_asked op \<and> key (op_key op) = a) ops)"
  shows "\<exists>u. key u = a \<and> (u, False) \<in> set (fst (throttle_run lt ops th))"
  using assms
proof (induction ops arbitrary: th n)
  case (Cons op ops)
  show ?case
  proof (cases op)
    case (Failed now t ttl tries)
    have "\<exists>u. key u = a \<and> (u, False) \<in> set (fst (throttle_run lt ops (throttle lt now t ttl tries th)))"
      using Cons.prems Failed throttle_other [of th t a now ttl tries]
      by (intro Cons.IH [of _ n] throttle_sane) auto
    with Failed show ?thesis by simp
  next
    case (Asked now t)
    obtain b th' where r: "shouldThrottle lt now t th = (b, th')" by fastforce
    have ok: "ok t" using Cons.prems Asked by simp
    have s: "sane (th_cont th')" using should_sane [OF Cons.prems(1) ok, of now] r by simp
    have later: "\<exists>u. key u = a \<and> (u, False) \<in> set (fst (throttle_run lt ops th')) \<Longrightarrow> ?thesis"
      using Asked r by (auto simp: Let_def split: prod.splits)
    note st = should_stored [OF Cons.prems(1) ok, of now a, unfolded r snd_conv]
    show ?thesis
    proof (cases "key t = a")
      case False
      with st Cons.prems(3) have "\<forall>e. stored (th_cont th') a = Some e \<longrightarrow> te_count e + 2 \<le> int n" by auto
      with False show ?thesis
        using Cons.prems(2,4,5) Asked by (intro later Cons.IH [of th' n, OF s]) auto
    next
      case a: True
      show ?thesis
      proof (cases b)
        case False
        with a show ?thesis using Asked r by (auto simp: Let_def split: prod.splits)
      next
        case True
        with should_answer [OF Cons.prems(1) ok, of now] r obtain i where
          i: "stored (th_cont th) a = Some i" "0 \<le> te_count i" using a by auto
        with Cons.prems(3) have n: "2 \<le> n" by force
        have "\<forall>e. stored (th_cont th') a = Some e \<longrightarrow> te_count e + 2 \<le> int (n - 1)"
          using st Cons.prems(3) a n by fastforce
        with n show ?thesis
          using Cons.prems(2,5) Asked a by (intro later Cons.IH [of th' "n - 1", OF s]) auto
      qed
    qed
  qed
qed simp

lemma lets_through:
  assumes "list_all (\<lambda>op. ok (op_key op) \<and> op_tries op \<le> M) (before @ after)" "3 \<le> M"
    "list_all (\<lambda>op. is_asked op \<or> key (op_key op) \<noteq> a) after"
    "M + 2 \<le> int (length (filter (\<lambda>op. is_asked op \<and> key (op_key op) = a) after))"
  shows "\<exists>u. key u = a \<and> (u, False) \<in> set (fst (throttle_run lt after (snd (throttle_run lt before (Throttle_init start)))))"
proof -
  have "limited M (Throttle_init start)" using assms(2) by (simp add: limited_def Throttle_init_def)
  from run_limited [OF this] assms(1)
  have "limited M (snd (throttle_run lt before (Throttle_init start)))" by simp
  then show ?thesis
    using assms by (intro run_lets_through [where n = "nat (M + 2)"]) (auto simp: limited_def list_all_iff)
qed

end

subsection \<open>The resolver's keys\<close>

text \<open>Addresses that compare as the same: the one the family selects, which has 16 bytes if it is not IPv4.\<close>

definition address_key :: "ComboAddress \<Rightarrow> u16 \<times> u16 \<times> (u32 + byte list)" where
  "address_key a = (ca_family a, ca_port a, if ca_family a = AF_INET then Inl (s_addr (ca_addr4 a)) else Inr (ca_addr6 a))"

definition address_ok :: "ComboAddress \<Rightarrow> bool" where
  "address_ok a \<longleftrightarrow> length (ca_addr6 a) = 16"

lemma memcmp_equiv: "length a = length b \<Longrightarrow> \<not> memcmp_less a b \<and> \<not> memcmp_less b a \<longleftrightarrow> a = b"
  by (induction a b rule: list_induct2) auto

lemma address_equiv: "address_ok a \<Longrightarrow> address_ok b \<Longrightarrow> mi_equiv ComboAddress_less a b \<longleftrightarrow> address_key a = address_key b"
  using memcmp_equiv [of "ca_addr6 a" "ca_addr6 b"]
  by (auto simp: mi_equiv_def ComboAddress_less_def family_port_less_def address_key_def address_ok_def)

definition throttle_key :: "throttle_key \<Rightarrow> (u16 \<times> u16 \<times> (u32 + byte list)) \<times> string \<times> u16" where
  "throttle_key = (\<lambda>(ip, name, ty). (address_key ip, name, ty))"

interpretation servers: key_order ComboAddress_less address_key address_ok
  by unfold_locales (rule address_equiv)

interpretation throttled: key_order throttle_key_less throttle_key "\<lambda>t. address_ok (fst t)"
proof unfold_locales
  fix a b :: throttle_key
  assume ok: "address_ok (fst a)" "address_ok (fst b)"
  obtain ip name ty ip' name' ty' where ab: "a = (ip, name, ty)" "b = (ip', name', ty')" by (metis surj_pair)
  have "mi_equiv throttle_key_less a b \<longleftrightarrow> mi_equiv ComboAddress_less ip ip' \<and> \<not> string_less name name' \<and> \<not> string_less name' name \<and> ty = ty'"
    by (auto simp: ab mi_equiv_def throttle_key_less_def)
  also have "\<dots> \<longleftrightarrow> throttle_key a = throttle_key b"
    using servers.equiv_key [of ip ip'] ok by (auto simp: ab throttle_key_def string_less_key not_less simp flip: string_key_inject)
  finally show "mi_equiv throttle_key_less a b \<longleftrightarrow> throttle_key a = throttle_key b" .
qed

text \<open>
  Property C4. Whatever the resolver throttles is let through again: if failures throttle for at most M
  attempts, then after any run of the throttle, of M + 2 questions for the same server, name and type
  with no new failure between them one is let through, whatever else is asked, throttled or cleaned up,
  and also if time stands still.
\<close>

theorem throttled_is_let_through:
  assumes "list_all (\<lambda>op. address_ok (fst (op_key op)) \<and> op_tries op \<le> M) (before @ after)" "3 \<le> M"
    "list_all (\<lambda>op. is_asked op \<or> throttle_key (op_key op) \<noteq> a) after"
    "M + 2 \<le> int (length (filter (\<lambda>op. is_asked op \<and> throttle_key (op_key op) = a) after))"
  shows "\<exists>u. throttle_key u = a \<and>
     (u, False) \<in> set (fst (throttle_run throttle_key_less after (snd (throttle_run throttle_key_less before (Throttle_init start)))))"
  using assms by (rule throttled.lets_through)

definition sample_server :: "byte \<Rightarrow> ComboAddress" where
  "sample_server d = \<lparr> ca_family = AF_INET, ca_port = 53, ca_addr4 = [192, 0, 2, d], ca_addr6 = replicate 16 0, ca_scope = replicate 4 0 \<rparr>"

lemma sample_server_ok: "address_ok (sample_server d)"
  by (simp add: address_ok_def sample_server_def)

lemma throttled_is_let_through_witness:
  "\<exists>u. throttle_key u = throttle_key (sample_server 1, ''example.net.'', 1) \<and>
     (u, False) \<in> set (fst (throttle_run throttle_key_less (replicate 5 (Asked 100 (sample_server 1, ''example.net.'', 1)))
        (snd (throttle_run throttle_key_less [Failed 100 (sample_server 1, ''example.net.'', 1) 60 3] (Throttle_init 0)))))"
  by (rule throttled_is_let_through [where M = 3]) (simp_all add: sample_server_ok numeral_eq_Suc)

text \<open>
  Property C13. The throttle is a function from server, name and type to what is pending: a question is
  refused exactly if an entry is pending, has not expired and has attempts left, each refusal takes one
  attempt, and the entry goes once they are used up; cleaning up is not seen.
\<close>

theorem throttle_refines:
  assumes "throttled.sane (th_cont th)" "address_ok (fst t)"
  shows "(fst (shouldThrottle throttle_key_less now t th), throttled.pending (snd (shouldThrottle throttle_key_less now t th)) now) =
     (case throttled.pending th now (throttle_key t) of
        None \<Rightarrow> (False, throttled.pending th now)
      | Some e \<Rightarrow> if te_count e < 0 then (False, (throttled.pending th now)(throttle_key t := None))
                  else (True, (throttled.pending th now)(throttle_key t \<mapsto> e\<lparr> te_count := te_count e - 1 \<rparr>)))"
  using assms by (rule throttled.should_refines)

lemma throttle_refines_witness:
  "(let t = (sample_server 1, ''example.net.'', 1); th = throttle throttle_key_less 100 t 60 3 (Throttle_init 0)
    in fst (shouldThrottle throttle_key_less 130 t th))"
proof -
  let ?t = "(sample_server 1, ''example.net.'', 1)"
  let ?th = "throttle throttle_key_less 100 ?t 60 3 (Throttle_init 0)"
  have s: "throttled.sane (th_cont (Throttle_init 0))" by (simp add: Throttle_init_def)
  have "throttled.pending ?th 130 (throttle_key ?t) = Some \<lparr> te_ttd = 160, te_count = 3 \<rparr>"
    by (simp add: throttled.pending_def throttled.throttle_refines_put [OF s] sample_server_ok) (simp add: Throttle_init_def)
  then show ?thesis
    using throttle_refines [OF throttled.throttle_sane [OF s], of ?t ?t 130 100 60 3] by (simp add: sample_server_ok Let_def)
qed

text \<open>What is stored for a server is what is found for it.\<close>

lemma es_get_put:
  assumes "servers.sane m" "address_ok ip" "address_ok ip'"
  shows "es_get ip' (es_put ip s m) = (if address_key ip' = address_key ip then s else es_get ip' m)"
  using assms by (auto simp: es_get_def es_put_def servers.find_stored servers.set_sane servers.set_stored)

end
