(* ===== verification/Hints.thy ===== *)
theory Hints
  imports ZoneParser RecursorCache
begin

text \<open>
  Putting the root servers into the record cache, and addresses with ports from text (\<open>reczones.cc\<close>).
\<close>

subsection \<open>The root servers\<close>

record hint_env =
  hi_rcache :: rcache_env
  hi_zone :: zone_env
  hi_file :: string
  hi_template :: "u32 \<times> u32 \<times> u32"
  hi_lexical :: "string \<Rightarrow> u16 option"

definition root_servers :: "(char \<times> string \<times> string option) list" where
  "root_servers = [
     (CHR ''a'', ''198.41.0.4'', Some ''2001:503:ba3e::2:30''), (CHR ''b'', ''192.228.79.201'', None), (CHR ''c'', ''192.33.4.12'', None),
     (CHR ''d'', ''128.8.10.90'', None), (CHR ''e'', ''192.203.230.10'', None), (CHR ''f'', ''192.5.5.241'', Some ''2001:500:2f::f''),
     (CHR ''g'', ''192.112.36.4'', None), (CHR ''h'', ''128.63.2.53'', Some ''2001:500:1::803f:235''), (CHR ''i'', ''192.36.148.17'', Some ''2001:7fe::53''),
     (CHR ''j'', ''192.58.128.30'', Some ''2001:503:c27::2:30''), (CHR ''k'', ''193.0.14.129'', Some ''2001:7fd::1''),
     (CHR ''l'', ''199.7.83.42'', Some ''2001:500:3::42''), (CHR ''m'', ''202.12.27.33'', Some ''2001:dc3::35'')]"

definition hint_record :: "rcache_env \<Rightarrow> QType \<Rightarrow> u32 \<Rightarrow> string \<Rightarrow> string \<Rightarrow> DNSResourceRecord" where
  "hint_record rv qtype ttl qname content = (DNSResourceRecord_init qtype ttl (rv_domain_id rv))\<lparr> rr_qname := qname, rr_content := content \<rparr>"

fun prime_servers :: "rcache_env \<Rightarrow> int \<Rightarrow> (char \<times> string \<times> string option) list \<Rightarrow> MemRecursorCache \<Rightarrow> DNSResourceRecord list \<Rightarrow>
    MemRecursorCache \<times> DNSResourceRecord list result" where
  "prime_servers rv now [] rc nsset = (rc, Inr nsset)"
| "prime_servers rv now ((c, ip, ip6) # servers) rc nsset =
     (let ttl = word_of_int (now + 3600000); templ = c # ''.root-servers.net.'';
          nsset' = rrset_insert (hint_record rv qt_NS ttl [] templ) nsset
      in case rc_replace rv now templ qt_A [hint_record rv qt_A ttl templ ip] True rc of
           (rc, Inl e) \<Rightarrow> (rc, Inl e)
         | (rc, Inr _) \<Rightarrow>
             (case ip6 of
                None \<Rightarrow> prime_servers rv now servers rc nsset'
              | Some ip6 \<Rightarrow>
                  (case rc_replace rv now templ qt_AAAA [hint_record rv qt_AAAA ttl templ ip6] True rc of
                     (rc, Inl e) \<Rightarrow> (rc, Inl e)
                   | (rc, Inr _) \<Rightarrow> prime_servers rv now servers rc nsset')))"

text \<open>The loop over a hint file may not end, as the zone parser may not.\<close>

partial_function (option) prime_file :: "rcache_env \<Rightarrow> zone_env \<Rightarrow> int \<Rightarrow> ZoneParserTNG \<Rightarrow> DNSResourceRecord \<Rightarrow> MemRecursorCache \<Rightarrow> DNSResourceRecord list \<Rightarrow>
    (MemRecursorCache \<times> DNSResourceRecord list result) option" where
  "prime_file rv ze now zp rr rc nsset =
     (case zp_get ze zp rr of
        None \<Rightarrow> None
      | Some (Inl e) \<Rightarrow> Some (rc, Inl e)
      | Some (Inr (zp, rr, found)) \<Rightarrow>
          if \<not> found then Some (rc, Inr nsset)
          else let rr = rr\<lparr> rr_ttl := rr_ttl rr + word_of_int now \<rparr>
               in if rr_qtype rr = qt_A \<or> rr_qtype rr = qt_AAAA then
                    (case rc_replace rv now (rr_qname rr) (rr_qtype rr) [rr] True rc of
                       (rc, Inl e) \<Rightarrow> Some (rc, Inl e)
                     | (rc, Inr _) \<Rightarrow> prime_file rv ze now zp rr rc nsset)
                  else if rr_qtype rr = qt_NS then
                    let rr = rr\<lparr> rr_content := toLower (rr_content rr) \<rparr>
                    in prime_file rv ze now zp rr rc (rrset_insert rr nsset)
                  else prime_file rv ze now zp rr rc nsset)"

definition primeHints :: "hint_env \<Rightarrow> int \<Rightarrow> MemRecursorCache \<Rightarrow> (MemRecursorCache \<times> unit result) option" where
  "primeHints hi now rc =
     (let rv = hi_rcache hi; store = (\<lambda>r. case r of
            (rc, Inl e) \<Rightarrow> (rc, Inl e)
          | (rc, Inr nsset) \<Rightarrow> rc_replace rv now ''.'' qt_NS nsset True rc)
      in if hi_file hi = [] then Some (store (prime_servers rv now root_servers rc []))
         else let (counter, stop, step) = hi_template hi
              in case ZoneParserTNG_init (hi_zone hi) counter stop step (hi_file hi) [] [] of
                   Inl e \<Rightarrow> Some (rc, Inl e)
                 | Inr zp \<Rightarrow> map_option store (prime_file rv (hi_zone hi) now zp (DNSResourceRecord_init 0 0 (rv_domain_id rv)) rc []))"

subsection \<open>Addresses with ports\<close>

text \<open>\<open>boost::lexical_cast\<close> to 16 bits is a parameter; the first attempt catches all exceptions.\<close>

definition parseIPAndPort :: "hint_env \<Rightarrow> string \<Rightarrow> u16 \<Rightarrow> ComboAddress result" where
  "parseIPAndPort hi inp port =
     (let lib = rv_lib (hi_rcache hi); colon = splitField inp CHR '':'';
          attempt = (case hi_lexical hi (snd colon) of
            None \<Rightarrow> Inl BadLexicalCast
          | Some newport \<Rightarrow> ComboAddress_of_string lib (fst colon) newport)
      in if CHR '':'' \<notin> set inp \<or> inp = [] then ComboAddress_of_string lib inp port
         else if \<not> isl attempt then attempt
         else if inp ! 0 = CHR ''['' then
           let both = splitField (drop 1 inp) CHR '']''
           in if snd both = [] then ComboAddress_of_string lib (fst both) port
              else (case hi_lexical hi (drop 1 (snd both)) of
                      None \<Rightarrow> Inl BadLexicalCast
                    | Some newport \<Rightarrow> ComboAddress_of_string lib (fst both) newport)
         else ComboAddress_of_string lib inp port)"

end
