(* ===== verification/SyncRes.thy ===== *)
theory SyncRes
  imports Hints Throttle
begin

text \<open>
  The resolver (\<open>syncres.cc\<close>): class \<open>SyncRes\<close>. Asking a server (\<open>asyncresolve\<close> of \<open>lwres.cc\<close>), the clock
  and what is random are parameters, which depend on how often the world was asked before. The average
  speeds of servers, floating-point numbers that only decide the order in which servers are tried, are
  parameters in the same way. Logging is left out.
\<close>

subsection \<open>State and settings\<close>

definition rcode_NoError :: int where "rcode_NoError = 0"
definition rcode_FormErr :: int where "rcode_FormErr = 1"
definition rcode_ServFail :: int where "rcode_ServFail = 2"
definition rcode_NXDomain :: int where "rcode_NXDomain = 3"
definition rcode_NotImp :: int where "rcode_NotImp = 4"
definition rcode_Refused :: int where "rcode_Refused = 5"
definition qt_AXFR :: QType where "qt_AXFR = 252"

record LWResult =
  lw_result :: "DNSResourceRecord list"
  lw_rcode :: int
  lw_aabit :: bool
  lw_tcbit :: bool
  lw_usec :: u32
  lw_pingCorrect :: bool
  lw_haveEDNS :: bool

text \<open>A zone the resolver answers for itself, or whose servers it is told; its records are in the order of their index.\<close>

record AuthDomain =
  ad_servers :: "ComboAddress list"
  ad_rdForward :: bool
  ad_records :: "DNSResourceRecord list"

record GetBestNSAnswer =
  gb_qname :: string
  gb_bestns :: "DNSResourceRecord list"

text \<open>
  \<open>rs_async\<close> gives what \<open>asyncresolve\<close> returns, the result as it leaves it and the time, from the number
  of the step, the server, the question, TCP or not, the rd bit, the EDNS level and the result and time before.
\<close>

record resolver_env =
  rs_hints :: hint_env
  rs_async :: "nat \<Rightarrow> ComboAddress \<Rightarrow> string \<Rightarrow> u16 \<Rightarrow> bool \<Rightarrow> bool \<Rightarrow> nat \<Rightarrow> LWResult \<Rightarrow> int \<Rightarrow> (int \<times> LWResult \<times> int) result"
  rs_time :: "nat \<Rightarrow> int"
  rs_shuffle_names :: "nat \<Rightarrow> string list \<Rightarrow> string list"
  rs_shuffle_addresses :: "nat \<Rightarrow> ComboAddress list \<Rightarrow> ComboAddress list"
  rs_speed :: "nat \<Rightarrow> string \<Rightarrow> nat"
  rs_best :: "nat \<Rightarrow> string \<Rightarrow> ComboAddress option"
  rs_lwr :: LWResult
  rs_match_memory :: "byte list \<times> byte list"
  rs_sort :: "DNSResourceRecord list \<Rightarrow> DNSResourceRecord list"
  rs_maxnegttl :: u32
  rs_maxcachettl :: u32
  rs_doIPv6 :: bool
  rs_noEDNSPing :: bool
  rs_noEDNS :: bool
  rs_doAdditionalProcessing :: bool
  rs_doAAAAAdditionalProcessing :: bool
  rs_log :: bool
  rs_cacheonly :: bool
  rs_nocache :: bool
  rs_serverID :: string
  rs_version :: string
  rs_delegation_only :: "string \<Rightarrow> bool"
  rs_dontQuery :: "NetmaskGroup option"
  rs_domainmap :: "(string \<times> AuthDomain) list"

definition rs_rv :: "resolver_env \<Rightarrow> rcache_env" where
  "rs_rv rs = hi_rcache (rs_hints rs)"

record sync_state =
  ss_steps :: nat
  ss_now :: int
  ss_RC :: MemRecursorCache
  ss_negcache :: "NegCacheEntry list"
  ss_ednsstatus :: "(ComboAddress \<times> EDNSStatus) list"
  ss_throttle :: "throttle_key Throttle"
  ss_queries :: u32
  ss_outgoingtimeouts :: u32
  ss_throttledqueries :: u32
  ss_dontqueries :: u32
  ss_outqueries :: u32
  ss_tcpoutqueries :: u32
  ss_nodelegated :: u32
  ss_unreachables :: u32
  ss_d_outqueries :: u32
  ss_d_tcpoutqueries :: u32
  ss_d_throttledqueries :: u32
  ss_d_timeouts :: u32
  ss_d_unreachables :: u32
  ss_nsSetInvalidations :: u64
  ss_ednsPingMatches :: u64
  ss_ednsPingMismatches :: u64
  ss_noPingOutQueries :: u64
  ss_noEdnsOutQueries :: u64
  ss_resourceLimits :: u64

text \<open>
  A computation on the state ends with a value or an exception, or not at all: then it is \<open>None\<close>.
\<close>

type_synonym 'a sync = "sync_state \<Rightarrow> ('a result \<times> sync_state) option"

definition returnS :: "'a \<Rightarrow> 'a sync" where
  "returnS a = (\<lambda>s. Some (Inr a, s))"

definition liftS :: "'a result \<Rightarrow> 'a sync" where
  "liftS r = (\<lambda>s. Some (r, s))"

definition updateS :: "(sync_state \<Rightarrow> sync_state) \<Rightarrow> unit sync" where
  "updateS f = (\<lambda>s. Some (Inr (), f s))"

definition bindS :: "'a sync \<Rightarrow> ('a \<Rightarrow> 'b sync) \<Rightarrow> 'b sync" where
  "bindS m f = (\<lambda>s. case m s of None \<Rightarrow> None | Some (Inl e, s) \<Rightarrow> Some (Inl e, s) | Some (Inr a, s) \<Rightarrow> f a s)"

definition withS :: "(sync_state \<Rightarrow> 'a sync) \<Rightarrow> 'a sync" where
  "withS f = (\<lambda>s. f s s)"

text \<open>Asking the record cache; it may be left changed by an exception.\<close>

definition RC_get :: "resolver_env \<Rightarrow> string \<Rightarrow> QType \<Rightarrow> bool \<Rightarrow> (int \<times> DNSResourceRecord list) sync" where
  "RC_get rs qname qt want =
     (\<lambda>s. case rc_get (rs_rv rs) (ss_now s) qname qt want (ss_RC s) of (rc, r) \<Rightarrow> Some (r, s\<lparr> ss_RC := rc \<rparr>))"

definition RC_replace :: "resolver_env \<Rightarrow> string \<Rightarrow> QType \<Rightarrow> DNSResourceRecord list \<Rightarrow> bool \<Rightarrow> unit sync" where
  "RC_replace rs qname qt content auth =
     (\<lambda>s. case rc_replace (rs_rv rs) (ss_now s) qname qt content auth (ss_RC s) of (rc, r) \<Rightarrow> Some (r, s\<lparr> ss_RC := rc \<rparr>))"

definition prime_hints :: "resolver_env \<Rightarrow> unit sync" where
  "prime_hints rs =
     (\<lambda>s. map_option (\<lambda>(rc, r). (r, s\<lparr> ss_steps := ss_steps s + 1, ss_RC := rc \<rparr>)) (primeHints (rs_hints rs) (rs_time rs (ss_steps s)) (ss_RC s)))"

definition async :: "resolver_env \<Rightarrow> ComboAddress \<Rightarrow> string \<Rightarrow> u16 \<Rightarrow> bool \<Rightarrow> bool \<Rightarrow> nat \<Rightarrow> LWResult \<Rightarrow> (int \<times> LWResult) sync" where
  "async rs ip domain ty doTCP sendRDQuery level lwr =
     (\<lambda>s. case rs_async rs (ss_steps s) ip domain ty doTCP sendRDQuery level lwr (ss_now s) of
            Inl e \<Rightarrow> Some (Inl e, s\<lparr> ss_steps := ss_steps s + 1 \<rparr>)
          | Inr (ret, lwr, now) \<Rightarrow> Some (Inr (ret, lwr), s\<lparr> ss_steps := ss_steps s + 1, ss_now := now \<rparr>))"

subsection \<open>EDNS fallback\<close>

definition edns_level :: "EDNSMode \<Rightarrow> nat" where
  "edns_level mode = (if mode = EDNSNOPING then 1 else if mode = NOEDNS then 0 else 2)"

definition count_edns :: "EDNSMode \<Rightarrow> sync_state \<Rightarrow> sync_state" where
  "count_edns mode s =
     (if mode = EDNSNOPING then s\<lparr> ss_noPingOutQueries := ss_noPingOutQueries s + 1 \<rparr>
      else if mode = NOEDNS then s\<lparr> ss_noEdnsOutQueries := ss_noEdnsOutQueries s + 1 \<rparr> else s)"

text \<open>The mode after an answer, and whether to ask again.\<close>

definition edns_step :: "EDNSMode \<Rightarrow> LWResult \<Rightarrow> EDNSMode \<times> bool" where
  "edns_step mode lwr =
     (if mode = CONFIRMEDPINGER then (mode, False)
      else if mode = UNKNOWN \<or> mode = EDNSPINGOK \<or> mode = EDNSIGNORANT then
        (if lw_rcode lwr = rcode_FormErr then (EDNSNOPING, True)
         else if mode = UNKNOWN \<and> (lw_rcode lwr = rcode_Refused \<or> lw_rcode lwr = rcode_NotImp) then (EDNSNOPING, True)
         else if \<not> lw_pingCorrect lwr \<and> lw_haveEDNS lwr then (EDNSPINGOK, False)
         else if lw_pingCorrect lwr then (CONFIRMEDPINGER, False)
         else if \<not> lw_haveEDNS lwr then (EDNSIGNORANT, False)
         else (mode, False))
      else if mode = EDNSNOPING then (if lw_rcode lwr = rcode_FormErr then (NOEDNS, True) else (mode, False))
      else (mode, False))"

text \<open>The counters of ping answers; a confirmed pinger that does not ping back is a failed server.\<close>

definition edns_account :: "EDNSMode \<Rightarrow> LWResult \<Rightarrow> sync_state \<Rightarrow> sync_state" where
  "edns_account mode lwr s =
     (if mode = CONFIRMEDPINGER then
        (if lw_pingCorrect lwr then s\<lparr> ss_ednsPingMatches := ss_ednsPingMatches s + 1 \<rparr> else s\<lparr> ss_ednsPingMismatches := ss_ednsPingMismatches s + 1 \<rparr>)
      else if (mode = UNKNOWN \<or> mode = EDNSPINGOK \<or> mode = EDNSIGNORANT) \<and> fst (edns_step mode lwr) = CONFIRMEDPINGER
        then s\<lparr> ss_ednsPingMatches := ss_ednsPingMatches s + 1 \<rparr>
      else s)"

fun edns_tries :: "resolver_env \<Rightarrow> nat \<Rightarrow> EDNSMode \<Rightarrow> int \<Rightarrow> ComboAddress \<Rightarrow> string \<Rightarrow> u16 \<Rightarrow> bool \<Rightarrow> bool \<Rightarrow> LWResult \<Rightarrow> (int \<times> LWResult) sync" where
  "edns_tries rs 0 oldmode ret ip domain ty doTCP sendRDQuery lwr = returnS (ret, lwr)"
| "edns_tries rs (Suc tries) oldmode ret ip domain ty doTCP sendRDQuery lwr =
     withS (\<lambda>s. let mode = es_mode (es_get ip (ss_ednsstatus s))
       in bindS (updateS (count_edns mode)) (\<lambda>_.
          bindS (async rs ip domain ty doTCP sendRDQuery (edns_level mode) lwr) (\<lambda>(ret, lwr).
            if ret \<le> 0 then returnS (ret, lwr)
            else
              let (mode', again) = edns_step mode lwr;
                  mismatch = (mode = CONFIRMEDPINGER \<and> \<not> lw_pingCorrect lwr)
              in bindS (updateS (edns_account mode lwr)) (\<lambda>_.
                 bindS (updateS (\<lambda>s. let st = es_get ip (ss_ednsstatus s);
                     st = (if mode = CONFIRMEDPINGER \<and> lw_pingCorrect lwr then st\<lparr> es_modeSetAt := ss_now s \<rparr> else st);
                     st = st\<lparr> es_mode := mode' \<rparr>;
                     st = (if \<not> again \<and> oldmode \<noteq> mode' then st\<lparr> es_modeSetAt := ss_now s \<rparr> else st)
                   in s\<lparr> ss_ednsstatus := es_put ip st (ss_ednsstatus s) \<rparr>)) (\<lambda>_.
                 if again then edns_tries rs tries oldmode ret ip domain ty doTCP sendRDQuery lwr
                 else if mismatch then returnS (0, lwr\<lparr> lw_rcode := rcode_ServFail \<rparr>)
                 else returnS (ret, lwr))))))"

definition asyncresolveWrapper :: "resolver_env \<Rightarrow> ComboAddress \<Rightarrow> string \<Rightarrow> u16 \<Rightarrow> bool \<Rightarrow> bool \<Rightarrow> LWResult \<Rightarrow> (int \<times> LWResult) sync" where
  "asyncresolveWrapper rs ip domain ty doTCP sendRDQuery lwr =
     (if rs_noEDNS rs then
        bindS (updateS (\<lambda>s. s\<lparr> ss_noEdnsOutQueries := ss_noEdnsOutQueries s + 1 \<rparr>)) (\<lambda>_. async rs ip domain ty doTCP sendRDQuery 0 lwr)
      else
        bindS (updateS (\<lambda>s. let st = es_get ip (ss_ednsstatus s);
            st = (if es_modeSetAt st \<noteq> 0 \<and> es_modeSetAt st + 3600 < ss_now s then EDNSStatus_init else st);
            st = (if rs_noEDNSPing rs \<and> es_mode st = UNKNOWN then st\<lparr> es_mode := EDNSNOPING \<rparr> else st)
          in s\<lparr> ss_ednsstatus := es_put ip st (ss_ednsstatus s) \<rparr>)) (\<lambda>_.
        withS (\<lambda>s. edns_tries rs 3 (es_mode (es_get ip (ss_ednsstatus s))) 0 ip domain ty doTCP sendRDQuery lwr)))"

subsection \<open>Zones of its own, and the best servers known\<close>

function dotted_parents :: "string \<Rightarrow> string list" where
  "dotted_parents domain =
     (if fst (chopOffDotted domain) then snd (chopOffDotted domain) # dotted_parents (snd (chopOffDotted domain)) else [])"
  by auto
termination
proof (relation "measure length")
  fix domain :: string
  assume "fst (chopOffDotted domain)"
  then show "(snd (chopOffDotted domain), domain) \<in> measure length"
    by (cases domain) (auto simp: chopOffDotted_def split: if_splits option.splits)
qed simp

declare dotted_parents.simps [simp del]

text \<open>The zone, with its name in the map, and the name it was found by.\<close>

fun best_auth_zone :: "(string \<times> AuthDomain) list \<Rightarrow> string list \<Rightarrow> (string \<times> AuthDomain \<times> string) option" where
  "best_auth_zone dm [] = None"
| "best_auth_zone dm (q # qs) =
     (case find (\<lambda>(k, ad). mi_equiv pdns_ilexicographical_compare q k) dm of Some (k, ad) \<Rightarrow> Some (k, ad, q) | None \<Rightarrow> best_auth_zone dm qs)"

definition getBestAuthZone :: "resolver_env \<Rightarrow> string \<Rightarrow> (string \<times> AuthDomain \<times> string) option" where
  "getBestAuthZone rs qname = best_auth_zone (rs_domainmap rs) (qname # dotted_parents qname)"

definition auth_range :: "AuthDomain \<Rightarrow> string \<Rightarrow> DNSResourceRecord list" where
  "auth_range ad name = filter (\<lambda>rr. pdns_iequals (rr_qname rr) name) (ad_records ad)"

fun oob_wildcard :: "AuthDomain \<Rightarrow> string \<Rightarrow> string \<Rightarrow> string list \<Rightarrow> DNSResourceRecord list option" where
  "oob_wildcard ad zone wcarddomain [] = None"
| "oob_wildcard ad zone wcarddomain (p # ps) =
     (if pdns_iequals wcarddomain zone then None
      else if auth_range ad (''*.'' @ p) \<noteq> [] then Some (auth_range ad (''*.'' @ p))
      else oob_wildcard ad zone p ps)"

definition oob_soa :: "AuthDomain \<Rightarrow> string \<Rightarrow> DNSResourceRecord list" where
  "oob_soa ad authdomain =
     (case find (\<lambda>rr. rr_qtype rr = qt_SOA) (auth_range ad authdomain) of
        Some rr \<Rightarrow> [rr\<lparr> rr_place := AUTHORITY \<rparr>] | None \<Rightarrow> [])"

text \<open>Nothing for a name in no zone; otherwise the rcode, and the records, which replace what was there.\<close>

definition doOOBResolve :: "resolver_env \<Rightarrow> string \<Rightarrow> QType \<Rightarrow> (int \<times> DNSResourceRecord list) option" where
  "doOOBResolve rs qname qtype =
     (case getBestAuthZone rs qname of
        None \<Rightarrow> None
      | Some (zone, ad, authdomain) \<Rightarrow>
          let here = auth_range ad qname;
              ret = filter (\<lambda>rr. qtype = qt_ANY \<or> rr_qtype rr = qtype \<or> rr_qtype rr = qt_CNAME) here
          in if ret \<noteq> [] then Some (0, ret)
             else if here \<noteq> [] then Some (rcode_NoError, oob_soa ad authdomain)
             else case oob_wildcard ad zone qname (dotted_parents qname) of
                    Some wild \<Rightarrow> Some (rcode_NoError,
                      map (\<lambda>rr. rr\<lparr> rr_qname := qname, rr_place := ANSWER \<rparr>) (filter (\<lambda>rr. rr_qtype rr = qtype \<or> qtype = qt_ANY) wild))
                  | None \<Rightarrow>
                      let ns = concat (map (\<lambda>nsdomain. filter (\<lambda>rr. rr_qtype rr = qt_NS) (auth_range ad nsdomain))
                                 (takeWhile (\<lambda>nsdomain. \<not> pdns_iequals nsdomain zone) (dotted_parents qname)))
                      in if ns = [] then Some (rcode_NXDomain, oob_soa ad authdomain)
                         else Some (0, map (\<lambda>rr. rr\<lparr> rr_place := AUTHORITY \<rparr>) ns))"

definition address_type :: "resolver_env \<Rightarrow> QType" where
  "address_type rs = (if rs_doIPv6 rs then qt_ADDR else qt_A)"

text \<open>The servers of a zone that are outside it, or have an address in the cache; the flag tells of others.\<close>

fun useful_servers :: "resolver_env \<Rightarrow> string \<Rightarrow> DNSResourceRecord list \<Rightarrow> DNSResourceRecord list \<Rightarrow> bool \<Rightarrow> (DNSResourceRecord list \<times> bool) sync" where
  "useful_servers rs subdomain [] bestns flawed = returnS (bestns, flawed)"
| "useful_servers rs subdomain (k # ns) bestns flawed =
     withS (\<lambda>s.
       if \<not> rr_ttl k > word_of_int (ss_now s) then useful_servers rs subdomain ns bestns flawed
       else if \<not> dottedEndsOn (rr_content k) subdomain then useful_servers rs subdomain ns (rrset_insert k bestns) flawed
       else bindS (RC_get rs (rr_content k) (address_type rs) (rs_log rs)) (\<lambda>(ttl, aset).
         if ttl > 5 then useful_servers rs subdomain ns (rrset_insert k bestns) flawed
         else useful_servers rs subdomain ns bestns True))"

text \<open>Two answers are one for the set of those seen if their records have the same names and contents.\<close>

definition same_answer :: "GetBestNSAnswer \<Rightarrow> GetBestNSAnswer \<Rightarrow> bool" where
  "same_answer a b \<longleftrightarrow> gb_qname a = gb_qname b \<and>
     map (\<lambda>rr. (rr_qname rr, rr_content rr)) (gb_bestns a) = map (\<lambda>rr. (rr_qname rr, rr_content rr)) (gb_bestns b)"

fun best_ns_levels :: "resolver_env \<Rightarrow> string \<Rightarrow> string list \<Rightarrow> bool \<Rightarrow> GetBestNSAnswer list \<Rightarrow>
    (DNSResourceRecord list \<times> bool \<times> GetBestNSAnswer list) sync" where
  "best_ns_levels rs qname [] flawed beenthere = returnS ([], flawed, beenthere)"
| "best_ns_levels rs qname (subdomain # parents) flawed beenthere =
     bindS (RC_get rs subdomain qt_NS True) (\<lambda>(ttl, ns).
     bindS (if ttl > 0 then useful_servers rs subdomain ns [] False else returnS ([], False)) (\<lambda>(bestns, flawed).
       let answer = \<lparr> gb_qname = qname, gb_bestns = bestns \<rparr>
       in if bestns \<noteq> [] \<and> \<not> list_ex (same_answer answer) beenthere then returnS (bestns, flawed, answer # beenthere)
          else bindS (if subdomain = ''.'' then prime_hints rs else returnS ()) (\<lambda>_. best_ns_levels rs qname parents flawed beenthere)))"

definition getBestNSFromCache :: "resolver_env \<Rightarrow> string \<Rightarrow> GetBestNSAnswer list \<Rightarrow> (DNSResourceRecord list \<times> bool \<times> GetBestNSAnswer list) sync" where
  "getBestNSFromCache rs qname beenthere = best_ns_levels rs qname (qname # dotted_parents qname) False beenthere"

text \<open>A set of names in the order that ignores case.\<close>

definition names_insert :: "string \<Rightarrow> string list \<Rightarrow> string list" where
  "names_insert x m = (if mi_find pdns_ilexicographical_compare x m = None then mi_place pdns_ilexicographical_compare x m else m)"

definition getBestNSNamesFromCache :: "resolver_env \<Rightarrow> string \<Rightarrow> string list \<Rightarrow> bool \<Rightarrow> GetBestNSAnswer list \<Rightarrow>
    (string \<times> string list \<times> bool \<times> GetBestNSAnswer list) sync" where
  "getBestNSNamesFromCache rs qname nsset flawed beenthere =
     (case getBestAuthZone rs qname of
        Some (zone, ad, authdomain) \<Rightarrow>
          let nsset = (if ad_servers ad = [] then names_insert [] nsset
                       else fold (\<lambda>server. names_insert ((if ad_rdForward ad then ''+'' else ''-'') @ toStringWithPort (rv_lib (rs_rv rs)) server))
                              (ad_servers ad) nsset)
          in returnS (authdomain, nsset, flawed, beenthere)
      | None \<Rightarrow>
          bindS (getBestNSFromCache rs qname beenthere) (\<lambda>(bestns, flawed, beenthere).
            returnS (case bestns of [] \<Rightarrow> qname | k # ks \<Rightarrow> rr_qname k, fold (\<lambda>k. names_insert (rr_content k)) bestns nsset, flawed, beenthere)))"

subsection \<open>Looking into the caches\<close>

text \<open>
  Resolving a name, which several steps do at a deeper level: the name, the type, the records so far,
  the depth and the answers seen; the result is the rcode with the records and the answers seen.
\<close>

type_synonym resolve = "string \<Rightarrow> QType \<Rightarrow> DNSResourceRecord list \<Rightarrow> nat \<Rightarrow> GetBestNSAnswer list \<Rightarrow>
  (int \<times> DNSResourceRecord list \<times> GetBestNSAnswer list) sync"

definition doCNAMECacheCheck :: "resolver_env \<Rightarrow> resolve \<Rightarrow> string \<Rightarrow> QType \<Rightarrow> DNSResourceRecord list \<Rightarrow> nat \<Rightarrow>
    (bool \<times> int \<times> DNSResourceRecord list) sync" where
  "doCNAMECacheCheck rs resolve qname qtype ret depth =
     (if depth > 10 then returnS (True, rcode_ServFail, ret)
      else bindS (RC_get rs qname qt_CNAME True) (\<lambda>(ttl, cset).
        withS (\<lambda>s. case (if ttl > 0 then find (\<lambda>j. rr_ttl j > word_of_int (ss_now s)) cset else None) of
            None \<Rightarrow> returnS (False, 0, ret)
          | Some j \<Rightarrow>
              let ret = ret @ [j\<lparr> rr_ttl := rr_ttl j - word_of_int (ss_now s) \<rparr>]
              in if qtype \<noteq> qt_CNAME then
                   bindS (resolve (rr_content j) qtype ret (depth + 1) []) (\<lambda>(res, ret, beenthere). returnS (True, res, ret))
                 else returnS (True, 0, ret))))"

text \<open>The entry of the negative cache that holds for a type, with the cache as its entries were moved.\<close>

fun neg_scan :: "QType \<Rightarrow> int \<Rightarrow> NegCacheEntry list \<Rightarrow> NegCacheEntry list \<Rightarrow> NegCacheEntry option \<times> NegCacheEntry list" where
  "neg_scan qtype now [] m = (None, m)"
| "neg_scan qtype now (ni # nis) m =
     (if ne_qtype ni = 0 \<or> ne_qtype ni = qtype then
        (if word_of_int now < ne_ttd ni then (Some ni, moveCacheItemToBack neg_less ni m)
         else neg_scan qtype now nis (moveCacheItemToFront neg_less ni m))
      else neg_scan qtype now nis m)"

definition doCacheCheck :: "resolver_env \<Rightarrow> string \<Rightarrow> QType \<Rightarrow> DNSResourceRecord list \<Rightarrow> (bool \<times> int \<times> DNSResourceRecord list) sync" where
  "doCacheCheck rs qname qtype ret =
     withS (\<lambda>s. case neg_scan qtype (ss_now s) (neg_range qname (ss_negcache s)) (ss_negcache s) of (neg, negcache) \<Rightarrow>
       let sqname = (case neg of Some ni \<Rightarrow> ne_qname ni | None \<Rightarrow> qname);
           sqt = (if neg = None then qtype else qt_SOA)
       in bindS (updateS (\<lambda>s. s\<lparr> ss_negcache := negcache \<rparr>)) (\<lambda>_.
          bindS (RC_get rs sqname sqt True) (\<lambda>(ttl, cset).
            if \<not> ttl > 0 then returnS (False, 0, ret)
            else let live = filter (\<lambda>j. rr_ttl j > word_of_int (ss_now s)) cset;
                     show_it = (\<lambda>j. case neg of
                         None \<Rightarrow> j\<lparr> rr_ttl := rr_ttl j - word_of_int (ss_now s) \<rparr>
                       | Some ni \<Rightarrow> j\<lparr> rr_place := AUTHORITY, rr_ttl := ne_ttd ni - word_of_int (ss_now s) \<rparr>);
                     res = (case neg of Some ni \<Rightarrow> if ne_qtype ni \<noteq> 0 then rcode_NoError else rcode_NXDomain | None \<Rightarrow> 0)
                 in returnS (live \<noteq> [] \<and> length live = length cset, res, ret @ map show_it live))))"

end
