(* ===== verification/Resolver.thy ===== *)
theory Resolver
  imports SyncRes
begin

text \<open>
  The resolver (\<open>syncres.cc\<close>), second part: asking the servers of a zone, what is kept of their answers,
  and the resolution of a name. The recursion is bounded by fuel; \<open>None\<close> is fuel that was not enough.
\<close>

subsection \<open>What is kept of an answer\<close>

definition specificity :: "string \<Rightarrow> nat" where
  "specificity a = (if a \<noteq> ''.'' then 1 else 0) + length (filter (\<lambda>c. c = CHR ''.'') a)"

definition moreSpecificThan :: "string \<Rightarrow> string \<Rightarrow> bool" where
  "moreSpecificThan a b \<longleftrightarrow> specificity a > specificity b"

text \<open>The records by name and type, and the order these are kept in.\<close>

type_synonym tcache = "((string \<times> QType) \<times> DNSResourceRecord list) list"

definition TCacheComp :: "string \<times> QType \<Rightarrow> string \<times> QType \<Rightarrow> bool" where
  "TCacheComp a b =
     (if pdns_ilexicographical_compare (fst a) (fst b) then True
      else if pdns_ilexicographical_compare (fst b) (fst a) then False
      else snd a < snd b)"

fun tcache_insert :: "string \<times> QType \<Rightarrow> DNSResourceRecord \<Rightarrow> tcache \<Rightarrow> tcache" where
  "tcache_insert k rr [] = [(k, [rr])]"
| "tcache_insert k rr ((k', rrs) # m) =
     (if TCacheComp k' k then (k', rrs) # tcache_insert k rr m
      else if TCacheComp k k' then (k, [rr]) # (k', rrs) # m
      else (k', rrset_insert rr rrs) # m)"

definition magicAddrMatch :: "QType \<Rightarrow> QType \<Rightarrow> bool" where
  "magicAddrMatch query answer = (if query \<noteq> qt_ADDR then False else answer = qt_A \<or> answer = qt_AAAA)"

text \<open>
  The records of a reply that are acceptable, for the cache, and the reply with the times to live that
  were capped; nothing if the zone should only delegate.
\<close>

definition cached_form :: "int \<Rightarrow> DNSResourceRecord \<Rightarrow> DNSResourceRecord" where
  "cached_form now i =
     (let rr = i\<lparr> rr_place := ANSWER, rr_ttl := rr_ttl i + word_of_int now \<rparr>
      in if rr_qtype rr = qt_NS then rr\<lparr> rr_content := toLower (rr_content rr) \<rparr> else rr)"

fun reap_answers :: "resolver_env \<Rightarrow> int \<Rightarrow> string \<Rightarrow> LWResult \<Rightarrow> DNSResourceRecord list \<Rightarrow> tcache \<Rightarrow> (DNSResourceRecord list \<times> tcache) option" where
  "reap_answers rs now auth lwr [] tcache = Some ([], tcache)"
| "reap_answers rs now auth lwr (i # is) tcache =
     (if rr_qtype i = qt_OPT \<or> rr_qtype i = qt_ANY \<or> \<not> dottedEndsOn (rr_qname i) auth
      then map_option (\<lambda>(is', tcache). (i # is', tcache)) (reap_answers rs now auth lwr is tcache)
      else if lw_aabit lwr \<and> lw_rcode lwr = rcode_NoError \<and> rr_place i = ANSWER \<and> rs_delegation_only rs auth then None
      else let i = i\<lparr> rr_ttl := min (rs_maxcachettl rs) (rr_ttl i) \<rparr>
           in map_option (\<lambda>(is', tcache). (i # is', tcache))
                (reap_answers rs now auth lwr is (tcache_insert (rr_qname i, rr_qtype i) (cached_form now i) tcache)))"

definition group_ttl :: "DNSResourceRecord list \<Rightarrow> DNSResourceRecord list" where
  "group_ttl rrs =
     (if length rrs > 1 then
        let lowestTTL = fold (\<lambda>j t. min t (rr_ttl j)) rrs 0xFFFFFFFF in map (\<lambda>j. j\<lparr> rr_ttl := lowestTTL \<rparr>) rrs
      else rrs)"

fun supplant :: "resolver_env \<Rightarrow> bool \<Rightarrow> tcache \<Rightarrow> unit sync" where
  "supplant rs aabit [] = returnS ()"
| "supplant rs aabit (((name, qt), rrs) # m) =
     bindS (RC_replace rs name qt (group_ttl rrs) aabit) (\<lambda>_. supplant rs aabit m)"

text \<open>Storing a reply; the reply as it is then, or nothing if the zone should only delegate.\<close>

definition store_reply :: "resolver_env \<Rightarrow> string \<Rightarrow> LWResult \<Rightarrow> DNSResourceRecord list option sync" where
  "store_reply rs auth lwr =
     withS (\<lambda>s. case reap_answers rs (ss_now s) auth lwr (lw_result lwr) [] of
         None \<Rightarrow> bindS (updateS (\<lambda>s. s\<lparr> ss_nodelegated := ss_nodelegated s + 1 \<rparr>)) (\<lambda>_. returnS None)
       | Some (is, tcache) \<Rightarrow> bindS (supplant rs (lw_aabit lwr) tcache) (\<lambda>_. returnS (Some is)))"

text \<open>What a reply means for the question.\<close>

record reply_status =
  st_done :: bool
  st_realreferral :: bool
  st_newauth :: string
  st_newtarget :: string
  st_nsset :: "string list"
  st_ret :: "DNSResourceRecord list"
  st_negcache :: "NegCacheEntry list"

definition neg_entry :: "int \<Rightarrow> string \<Rightarrow> QType \<Rightarrow> DNSResourceRecord \<Rightarrow> NegCacheEntry" where
  "neg_entry now qname qtype i =
     \<lparr> ne_name = qname, ne_qtype = qtype, ne_qname = rr_qname i, ne_ttd = word_of_int now + rr_ttl i \<rparr>"

definition status_step :: "resolver_env \<Rightarrow> int \<Rightarrow> string \<Rightarrow> string \<Rightarrow> QType \<Rightarrow> LWResult \<Rightarrow> DNSResourceRecord \<Rightarrow> reply_status \<Rightarrow> reply_status" where
  "status_step rs now auth qname qtype lwr i st =
     (if rr_place i = AUTHORITY \<and> rr_qtype i = qt_SOA \<and> lw_rcode lwr = rcode_NXDomain \<and> dottedEndsOn qname (rr_qname i) \<and>
         dottedEndsOn (rr_qname i) auth then
        let i = i\<lparr> rr_ttl := min (rr_ttl i) (rs_maxnegttl rs) \<rparr>
        in st\<lparr> st_ret := st_ret st @ [i], st_negcache := replacing_insert neg_less (neg_entry now qname 0 i) (st_negcache st) \<rparr>
      else if rr_place i = ANSWER \<and> pdns_iequals (rr_qname i) qname \<and> rr_qtype i = qt_CNAME \<and> qtype \<noteq> qt_CNAME then
        st\<lparr> st_ret := st_ret st @ [i], st_newtarget := rr_content i \<rparr>
      else if rr_place i = ANSWER \<and> pdns_iequals (rr_qname i) qname \<and>
         (rr_qtype i = qtype \<or> (lw_aabit lwr \<and> (qtype = qt_ANY \<or> magicAddrMatch qtype (rr_qtype i)))) then
        st\<lparr> st_done := True, st_ret := st_ret st @ [i] \<rparr>
      else if rr_place i = AUTHORITY \<and> dottedEndsOn qname (rr_qname i) \<and> rr_qtype i = qt_NS then
        let st = (if moreSpecificThan (rr_qname i) auth then st\<lparr> st_newauth := rr_qname i, st_realreferral := True \<rparr> else st)
        in st\<lparr> st_nsset := names_insert (rr_content i) (st_nsset st) \<rparr>
      else if \<not> st_done st \<and> rr_place i = AUTHORITY \<and> dottedEndsOn qname (rr_qname i) \<and> rr_qtype i = qt_SOA \<and> lw_rcode lwr = rcode_NoError then
        (if st_newtarget st \<noteq> [] then st
         else let i = i\<lparr> rr_ttl := min (rs_maxnegttl rs) (rr_ttl i) \<rparr>
              in st\<lparr> st_ret := st_ret st @ [i],
                     st_negcache := (if qtype \<noteq> 0 then replacing_insert neg_less (neg_entry now qname qtype i) (st_negcache st) else st_negcache st) \<rparr>)
      else st)"

definition determine_status :: "resolver_env \<Rightarrow> int \<Rightarrow> string \<Rightarrow> string \<Rightarrow> QType \<Rightarrow> LWResult \<Rightarrow> DNSResourceRecord list \<Rightarrow>
    DNSResourceRecord list \<Rightarrow> NegCacheEntry list \<Rightarrow> reply_status" where
  "determine_status rs now auth qname qtype lwr is ret negcache =
     fold (status_step rs now auth qname qtype lwr) is
       \<lparr> st_done = False, st_realreferral = False, st_newauth = [], st_newtarget = [], st_nsset = [], st_ret = ret, st_negcache = negcache \<rparr>"

text \<open>After a reply: the resolution ends, goes on with another server, finds this one lame, or is referred.\<close>

datatype at_outcome = At_return int | At_next | At_lame | At_referral string "string list"

definition process_reply :: "resolver_env \<Rightarrow> resolve \<Rightarrow> string \<Rightarrow> string \<Rightarrow> string \<Rightarrow> QType \<Rightarrow> nat \<Rightarrow> LWResult \<Rightarrow> DNSResourceRecord list \<Rightarrow>
    (at_outcome \<times> DNSResourceRecord list) sync" where
  "process_reply rs resolve tns auth qname qtype depth lwr ret =
     bindS (store_reply rs auth lwr) (\<lambda>stored. case stored of
         None \<Rightarrow> returnS (At_return rcode_NXDomain, ret)
       | Some is \<Rightarrow>
           withS (\<lambda>s. let st = determine_status rs (ss_now s) auth qname qtype lwr is ret (ss_negcache s); ret = st_ret st
             in bindS (updateS (\<lambda>s. s\<lparr> ss_negcache := st_negcache st \<rparr>)) (\<lambda>_.
                if st_done st then returnS (At_return 0, ret)
                else if st_newtarget st \<noteq> [] then
                  (if pdns_iequals (st_newtarget st) qname then returnS (At_return rcode_ServFail, ret)
                   else if depth > 10 then returnS (At_return rcode_ServFail, ret)
                   else bindS (resolve (st_newtarget st) qtype ret (depth + 1) []) (\<lambda>(res, ret, beenthere). returnS (At_return res, ret)))
                else if lw_rcode lwr = rcode_NXDomain then returnS (At_return rcode_NXDomain, ret)
                else if st_nsset st = [] \<and> lw_rcode lwr = 0 then returnS (At_return 0, ret)
                else if st_realreferral st then returnS (At_referral (st_newauth st) (st_nsset st), ret)
                else if isCanonical tns then returnS (At_lame, ret)
                else returnS (At_next, ret))))"

subsection \<open>Asking the servers of a zone\<close>

text \<open>Names in the order of their speed, of what the shuffle made of them.\<close>

definition shuffleInSpeedOrder :: "resolver_env \<Rightarrow> string list \<Rightarrow> string list sync" where
  "shuffleInSpeedOrder rs nameservers =
     (\<lambda>s. Some (Inr (sort_key (rs_speed rs (ss_steps s)) (rs_shuffle_names rs (ss_steps s) nameservers)), s\<lparr> ss_steps := ss_steps s + 1 \<rparr>))"

fun front_best :: "ComboAddress \<Rightarrow> ComboAddress list \<Rightarrow> ComboAddress list \<Rightarrow> ComboAddress list" where
  "front_best best [] seen = seen"
| "front_best best (i # is) seen =
     (if ComboAddress_eq i best then (case seen of [] \<Rightarrow> i # is | b # bs \<Rightarrow> best # bs @ b # is)
      else front_best best is (seen @ [i]))"

definition ordered_addresses :: "resolver_env \<Rightarrow> string \<Rightarrow> ComboAddress list \<Rightarrow> ComboAddress list sync" where
  "ordered_addresses rs qname ips =
     (\<lambda>s. let ips = rs_shuffle_addresses rs (ss_steps s) ips;
              ips = (case rs_best rs (ss_steps s) qname of Some best \<Rightarrow> front_best best ips [] | None \<Rightarrow> ips)
          in Some (Inr ips, s\<lparr> ss_steps := ss_steps s + 1 \<rparr>))"

fun addresses_of :: "addr_lib \<Rightarrow> DNSResourceRecord list \<Rightarrow> ComboAddress list result" where
  "addresses_of lib [] = Inr []"
| "addresses_of lib (i # is) =
     (if rr_qtype i = qt_A \<or> rr_qtype i = qt_AAAA then
        bindE (ComboAddress_of_string lib (rr_content i) 53) (\<lambda>a. bindE (addresses_of lib is) (\<lambda>as. Inr (a # as)))
      else addresses_of lib is)"

definition getAs :: "resolver_env \<Rightarrow> resolve \<Rightarrow> string \<Rightarrow> nat \<Rightarrow> GetBestNSAnswer list \<Rightarrow> (ComboAddress list \<times> GetBestNSAnswer list) sync" where
  "getAs rs resolve qname depth beenthere =
     bindS (resolve qname (address_type rs) [] (depth + 1) beenthere) (\<lambda>(rcode, res, beenthere).
     bindS (if rcode = 0 \<and> res \<noteq> [] then liftS (addresses_of (rv_lib (rs_rv rs)) res) else returnS []) (\<lambda>ips.
     bindS (if length ips > 1 then ordered_addresses rs qname ips else returnS ips) (\<lambda>ips. returnS (ips, beenthere))))"

text \<open>A query to one address, once, and what a failure is accounted for.\<close>

definition throttle_server :: "ComboAddress \<Rightarrow> string \<Rightarrow> QType \<Rightarrow> int \<Rightarrow> int \<Rightarrow> unit sync" where
  "throttle_server ip qname qtype ttl tries =
     updateS (\<lambda>s. s\<lparr> ss_throttle := throttle throttle_key_less (ss_now s) (ip, qname, qtype) ttl tries (ss_throttle s) \<rparr>)"

definition account_failure :: "int \<Rightarrow> sync_state \<Rightarrow> sync_state" where
  "account_failure resolveret s =
     (if resolveret = 0 then s\<lparr> ss_d_timeouts := ss_d_timeouts s + 1, ss_outgoingtimeouts := ss_outgoingtimeouts s + 1 \<rparr>
      else if resolveret = -2 then s\<lparr> ss_resourceLimits := ss_resourceLimits s + 1 \<rparr>
      else s\<lparr> ss_unreachables := ss_unreachables s + 1, ss_d_unreachables := ss_d_unreachables s + 1 \<rparr>)"

definition ask_once :: "resolver_env \<Rightarrow> ComboAddress \<Rightarrow> string \<Rightarrow> QType \<Rightarrow> bool \<Rightarrow> bool \<Rightarrow> LWResult \<Rightarrow> (bool \<times> LWResult) sync" where
  "ask_once rs ip qname qtype sendRDQuery doTCP lwr =
     bindS (updateS (\<lambda>s. if doTCP then s\<lparr> ss_tcpoutqueries := ss_tcpoutqueries s + 1, ss_d_tcpoutqueries := ss_d_tcpoutqueries s + 1 \<rparr> else s)) (\<lambda>_.
     bindS (asyncresolveWrapper rs ip qname (if qtype = qt_ADDR then qt_ANY else qtype) doTCP sendRDQuery lwr) (\<lambda>(resolveret, lwr).
       if resolveret \<noteq> 1 then
         bindS (updateS (account_failure resolveret)) (\<lambda>_.
         bindS (if resolveret = -2 then returnS () else if resolveret = -1 then throttle_server ip qname qtype 60 100
                else throttle_server ip qname qtype 10 5) (\<lambda>_.
           returnS (False, lwr)))
       else returnS (True, lwr)))"

text \<open>An address, over TCP as well if the answer was truncated; whether it worked, and TCP was used.\<close>

definition ask_address :: "resolver_env \<Rightarrow> ComboAddress \<Rightarrow> string \<Rightarrow> QType \<Rightarrow> bool \<Rightarrow> bool \<Rightarrow> LWResult \<Rightarrow> (bool \<times> bool \<times> LWResult) sync" where
  "ask_address rs ip qname qtype sendRDQuery doTCP lwr =
     bindS (ask_once rs ip qname qtype sendRDQuery doTCP lwr) (\<lambda>(worked, lwr).
       if worked \<and> lw_tcbit lwr \<and> \<not> doTCP then
         bindS (ask_once rs ip qname qtype sendRDQuery True lwr) (\<lambda>(worked, lwr). returnS (worked, True, lwr))
       else returnS (worked, doTCP, lwr))"

definition should_throttle :: "ComboAddress \<Rightarrow> string \<Rightarrow> QType \<Rightarrow> bool sync" where
  "should_throttle ip qname qtype =
     (\<lambda>s. case shouldThrottle throttle_key_less (ss_now s) (ip, qname, qtype) (ss_throttle s) of
            (b, th) \<Rightarrow> Some (Inr b, s\<lparr> ss_throttle := th \<rparr>))"

definition dont_query :: "resolver_env \<Rightarrow> bool \<Rightarrow> ComboAddress \<Rightarrow> bool result" where
  "dont_query rs pierceDontQuery ip =
     (case rs_dontQuery rs of
        Some nmg \<Rightarrow> if pierceDontQuery then Inr False else NetmaskGroup_match (fst (rs_match_memory rs)) (snd (rs_match_memory rs)) nmg ip
      | None \<Rightarrow> Inr False)"

fun try_addresses :: "resolver_env \<Rightarrow> resolve \<Rightarrow> string \<Rightarrow> string \<Rightarrow> string \<Rightarrow> QType \<Rightarrow> nat \<Rightarrow> bool \<Rightarrow> bool \<Rightarrow> ComboAddress list \<Rightarrow> bool \<Rightarrow> LWResult \<Rightarrow>
    DNSResourceRecord list \<Rightarrow> (at_outcome \<times> DNSResourceRecord list) sync" where
  "try_addresses rs resolve tns auth qname qtype depth sendRDQuery pierceDontQuery [] doTCP lwr ret = returnS (At_next, ret)"
| "try_addresses rs resolve tns auth qname qtype depth sendRDQuery pierceDontQuery (ip # ips) doTCP lwr ret =
     bindS (should_throttle ip qname qtype) (\<lambda>throttled.
     if throttled then
       bindS (updateS (\<lambda>s. s\<lparr> ss_throttledqueries := ss_throttledqueries s + 1, ss_d_throttledqueries := ss_d_throttledqueries s + 1 \<rparr>)) (\<lambda>_.
         try_addresses rs resolve tns auth qname qtype depth sendRDQuery pierceDontQuery ips doTCP lwr ret)
     else
     bindS (liftS (dont_query rs pierceDontQuery ip)) (\<lambda>blocked.
     if blocked then
       bindS (updateS (\<lambda>s. s\<lparr> ss_dontqueries := ss_dontqueries s + 1 \<rparr>)) (\<lambda>_.
         try_addresses rs resolve tns auth qname qtype depth sendRDQuery pierceDontQuery ips doTCP lwr ret)
     else
     bindS (updateS (\<lambda>s. s\<lparr> ss_outqueries := ss_outqueries s + 1, ss_d_outqueries := ss_d_outqueries s + 1 \<rparr>)) (\<lambda>_.
     bindS (ask_address rs ip qname qtype sendRDQuery doTCP lwr) (\<lambda>(worked, doTCP, lwr).
     if \<not> worked then try_addresses rs resolve tns auth qname qtype depth sendRDQuery pierceDontQuery ips doTCP lwr ret
     else if lw_tcbit lwr then returnS (At_return rcode_ServFail, ret)
     else if lw_rcode lwr = rcode_ServFail then bindS (throttle_server ip qname qtype 60 3) (\<lambda>_. returnS (At_next, ret))
     else
     bindS (process_reply rs resolve tns auth qname qtype depth lwr ret) (\<lambda>(outcome, ret).
     if outcome = At_lame then
       bindS (throttle_server ip qname qtype 60 100) (\<lambda>_.
         try_addresses rs resolve tns auth qname qtype depth sendRDQuery pierceDontQuery ips doTCP lwr ret)
     else returnS (outcome, ret))))))"

definition fresh_lwr :: "resolver_env \<Rightarrow> LWResult" where
  "fresh_lwr rs = (rs_lwr rs)\<lparr> lw_result := [] \<rparr>"

text \<open>The servers one after the other; the flag tells that the set of them is flawed.\<close>

definition no_server_left :: "resolver_env \<Rightarrow> string \<Rightarrow> bool \<Rightarrow> sync_state \<Rightarrow> sync_state" where
  "no_server_left rs auth flawed s =
     (if auth \<noteq> ''.'' \<and> flawed then
        (case doAgeCache (ss_now s) auth qt_NS 10 (ss_RC s) of
           (aged, rc) \<Rightarrow> s\<lparr> ss_RC := rc, ss_nsSetInvalidations := ss_nsSetInvalidations s + (if aged then 1 else 0) \<rparr>)
      else s)"

text \<open>The addresses to ask, whether to ask for recursion, and whether these servers may be asked in any case.\<close>

definition server_addresses :: "resolver_env \<Rightarrow> resolve \<Rightarrow> string \<Rightarrow> nat \<Rightarrow> GetBestNSAnswer list \<Rightarrow>
    (ComboAddress list \<times> bool \<times> bool \<times> GetBestNSAnswer list) sync" where
  "server_addresses rs resolve tns depth beenthere =
     (if \<not> isCanonical tns then
        bindS (liftS (parseIPAndPort (rs_hints rs) (text_to_nul (drop 1 tns)) 53)) (\<lambda>addr. returnS ([addr], hd tns = CHR ''+'', True, beenthere))
      else bindS (getAs rs resolve tns (depth + 1) beenthere) (\<lambda>(ips, beenthere). returnS (ips, False, False, beenthere)))"

fun try_servers :: "resolver_env \<Rightarrow> resolve \<Rightarrow> string list \<Rightarrow> string \<Rightarrow> bool \<Rightarrow> string \<Rightarrow> QType \<Rightarrow> nat \<Rightarrow> DNSResourceRecord list \<Rightarrow> GetBestNSAnswer list \<Rightarrow>
    (at_outcome \<times> bool \<times> DNSResourceRecord list \<times> GetBestNSAnswer list) sync" where
  "try_servers rs resolve [] auth flawed qname qtype depth ret beenthere =
     bindS (updateS (no_server_left rs auth flawed)) (\<lambda>_. returnS (At_return (-1), flawed, ret, beenthere))"
| "try_servers rs resolve (tns # rest) auth flawed qname qtype depth ret beenthere =
     (if qname = tns \<and> qtype = qt_A then try_servers rs resolve rest auth flawed qname qtype depth ret beenthere
      else if tns = [] then
        let lwr = fresh_lwr rs;
            lwr = (case doOOBResolve rs qname qtype of Some (res, rrs) \<Rightarrow> lwr\<lparr> lw_rcode := res, lw_result := rrs \<rparr> | None \<Rightarrow> lwr);
            lwr = lwr\<lparr> lw_tcbit := False, lw_aabit := True \<rparr>
        in bindS (process_reply rs resolve tns auth qname qtype depth lwr ret) (\<lambda>(outcome, ret).
           if outcome = At_next \<or> outcome = At_lame then try_servers rs resolve rest auth flawed qname qtype depth ret beenthere
           else returnS (outcome, flawed, ret, beenthere))
      else
        bindS (server_addresses rs resolve tns depth beenthere) (\<lambda>(ips, sendRDQuery, pierceDontQuery, beenthere).
        if ips = [] then try_servers rs resolve rest auth True qname qtype depth ret beenthere
        else
          bindS (try_addresses rs resolve tns auth qname qtype depth sendRDQuery pierceDontQuery ips False (fresh_lwr rs) ret) (\<lambda>(outcome, ret).
          if outcome = At_next \<or> outcome = At_lame then try_servers rs resolve rest auth flawed qname qtype depth ret beenthere
          else returnS (outcome, flawed, ret, beenthere))))"

text \<open>One round for each referral: \<open>levels\<close> bounds their number.\<close>

fun resolve_levels :: "resolver_env \<Rightarrow> resolve \<Rightarrow> nat \<Rightarrow> string list \<Rightarrow> string \<Rightarrow> bool \<Rightarrow> string \<Rightarrow> QType \<Rightarrow> nat \<Rightarrow> DNSResourceRecord list \<Rightarrow> GetBestNSAnswer list \<Rightarrow>
    (int \<times> DNSResourceRecord list \<times> GetBestNSAnswer list) sync" where
  "resolve_levels rs resolve 0 nameservers auth flawed qname qtype depth ret beenthere = (\<lambda>s. None)"
| "resolve_levels rs resolve (Suc levels) nameservers auth flawed qname qtype depth ret beenthere =
     bindS (shuffleInSpeedOrder rs nameservers) (\<lambda>rnameservers.
     bindS (try_servers rs resolve rnameservers auth flawed qname qtype depth ret beenthere) (\<lambda>(outcome, flawed, ret, beenthere).
       case outcome of
         At_referral newauth nsset \<Rightarrow> resolve_levels rs resolve levels nsset newauth flawed qname qtype depth ret beenthere
       | At_return res \<Rightarrow> returnS (res, ret, beenthere)
       | _ \<Rightarrow> returnS (-1, ret, beenthere)))"

definition doResolveAt :: "resolver_env \<Rightarrow> resolve \<Rightarrow> string list \<Rightarrow> string \<Rightarrow> bool \<Rightarrow> string \<Rightarrow> QType \<Rightarrow> nat \<Rightarrow> DNSResourceRecord list \<Rightarrow> GetBestNSAnswer list \<Rightarrow>
    (int \<times> DNSResourceRecord list \<times> GetBestNSAnswer list) sync" where
  "doResolveAt rs resolve nameservers auth flawed qname qtype depth ret beenthere =
     resolve_levels rs resolve (length qname + 3) nameservers auth flawed qname qtype depth ret beenthere"

subsection \<open>Resolving a name\<close>

text \<open>With the cache alone, and zones of its own or with hard-coded servers; nothing for names in no such zone.\<close>

definition peek_zone :: "resolver_env \<Rightarrow> string \<Rightarrow> QType \<Rightarrow> DNSResourceRecord list \<Rightarrow> (int \<times> DNSResourceRecord list) sync option" where
  "peek_zone rs qname qtype ret =
     (case getBestAuthZone rs qname of
        None \<Rightarrow> None
      | Some (zone, ad, authname) \<Rightarrow> Some
          (case ad_servers ad of
             [] \<Rightarrow> returnS (case doOOBResolve rs qname qtype of Some (res, ret) \<Rightarrow> (res, ret) | None \<Rightarrow> (0, []))
           | remoteIP # servers \<Rightarrow>
               bindS (asyncresolveWrapper rs remoteIP qname qtype False False (fresh_lwr rs)) (\<lambda>(res, lwr).
                 returnS (res, ret @ filter (\<lambda>i. rr_place i = ANSWER) (lw_result lwr)))))"

definition ask_servers :: "resolver_env \<Rightarrow> resolve \<Rightarrow> string \<Rightarrow> QType \<Rightarrow> DNSResourceRecord list \<Rightarrow> nat \<Rightarrow> GetBestNSAnswer list \<Rightarrow>
    (int \<times> DNSResourceRecord list \<times> GetBestNSAnswer list) sync" where
  "ask_servers rs resolve qname qtype ret depth beenthere =
     bindS (getBestNSNamesFromCache rs qname [] False beenthere) (\<lambda>(subdomain, nsset, flawed, beenthere).
     bindS (if nsset = [] then getBestNSNamesFromCache rs subdomain nsset flawed beenthere
            else returnS (subdomain, nsset, flawed, beenthere)) (\<lambda>(subdomain, nsset, flawed, beenthere).
     bindS (doResolveAt rs resolve nsset subdomain flawed qname qtype depth ret beenthere) (\<lambda>(res, ret, beenthere).
       returnS (if res < 0 then rcode_ServFail else res, ret, beenthere))))"

fun doResolve :: "resolver_env \<Rightarrow> nat \<Rightarrow> resolve" where
  "doResolve rs 0 qname qtype ret depth beenthere = (\<lambda>s. None)"
| "doResolve rs (Suc fuel) qname qtype ret depth beenthere =
     (let go_out = (\<lambda>ret. if rs_cacheonly rs then returnS (0, ret, beenthere)
                          else ask_servers rs (doResolve rs fuel) qname qtype ret depth beenthere);
          in_cache =
            bindS (doCNAMECacheCheck rs (doResolve rs fuel) qname qtype ret depth) (\<lambda>(found, res, ret).
              if found then returnS (res, ret, beenthere)
              else bindS (doCacheCheck rs qname qtype ret) (\<lambda>(found, res, ret).
                if found then returnS (res, ret, beenthere) else go_out ret))
      in if rs_nocache rs \<and> qtype = qt_NS \<and> qname = ''.'' then go_out ret
         else case (if rs_cacheonly rs then peek_zone rs qname qtype ret else None) of
                Some answer \<Rightarrow> bindS answer (\<lambda>(res, ret). returnS (res, ret, beenthere))
              | None \<Rightarrow> in_cache)"

subsection \<open>The entry point\<close>

definition uniqueComp :: "DNSResourceRecord \<Rightarrow> DNSResourceRecord \<Rightarrow> bool" where
  "uniqueComp a b \<longleftrightarrow> rr_qtype a = rr_qtype b \<and> rr_qname a = rr_qname b \<and> rr_content a = rr_content b"

text \<open>\<open>std::unique\<close>: of neighbours that are the same the first is kept.\<close>

fun unique_records :: "DNSResourceRecord list \<Rightarrow> DNSResourceRecord list" where
  "unique_records (a # b # rrs) = (if uniqueComp a b then unique_records (a # rrs) else a # unique_records (b # rrs))"
| "unique_records rrs = rrs"

text \<open>The name of the host a record points to.\<close>

definition additional_host :: "DNSResourceRecord \<Rightarrow> string option" where
  "additional_host k =
     (let fields = vstringtok (rr_content k) (\<lambda>c. c = CHR '' '');
          field = (\<lambda>i. take (snd (fields ! i) - fst (fields ! i)) (drop (fst (fields ! i)) (rr_content k)))
      in if rr_qtype k = qt_MX \<and> length fields = 2 then Some (field 1)
         else if rr_qtype k = qt_NS then Some (rr_content k)
         else if rr_qtype k = qt_SRV \<and> length fields = 4 then Some (field 3)
         else None)"

definition wants_address :: "DNSResourceRecord \<Rightarrow> bool" where
  "wants_address k \<longleftrightarrow> (rr_place k = ANSWER \<and> (rr_qtype k = qt_MX \<or> rr_qtype k = qt_SRV)) \<or>
     ((rr_place k = AUTHORITY \<or> rr_place k = ANSWER) \<and> rr_qtype k = qt_NS)"

fun additional_records :: "resolver_env \<Rightarrow> resolve \<Rightarrow> DNSResourceRecord list \<Rightarrow> DNSResourceRecord list \<Rightarrow> DNSResourceRecord list sync" where
  "additional_records rs resolve [] addit = returnS addit"
| "additional_records rs resolve (k # ks) addit =
     (case (if wants_address k then additional_host k else None) of
        None \<Rightarrow> additional_records rs resolve ks addit
      | Some host \<Rightarrow>
          bindS (resolve host (if rs_doAAAAAdditionalProcessing rs then qt_ADDR else qt_A) addit 1 []) (\<lambda>(res, addit, beenthere).
            additional_records rs resolve ks addit))"

definition addCruft :: "resolver_env \<Rightarrow> resolve \<Rightarrow> DNSResourceRecord list \<Rightarrow> DNSResourceRecord list sync" where
  "addCruft rs resolve ret =
     (if \<exists>k \<in> set ret. rr_place k = AUTHORITY \<and> rr_qtype k = qt_SOA then returnS ret
      else bindS (additional_records rs resolve ret []) (\<lambda>addit.
        returnS (ret @ map (\<lambda>k. k\<lparr> rr_place := ADDITIONAL \<rparr>)
          (filter (\<lambda>k. rr_qtype k = qt_A \<or> rr_qtype k = qt_AAAA) (unique_records (rs_sort rs addit))))))"

definition addAuthorityRecords :: "resolver_env \<Rightarrow> string \<Rightarrow> DNSResourceRecord list \<Rightarrow> DNSResourceRecord list sync" where
  "addAuthorityRecords rs qname ret =
     bindS (getBestNSFromCache rs qname []) (\<lambda>(bestns, dontcare, beenthere).
     withS (\<lambda>s. returnS (ret @ map (\<lambda>k. k\<lparr> rr_place := AUTHORITY, rr_ttl := rr_ttl k - word_of_int (ss_now s) \<rparr>) bestns)))"

text \<open>Names with a built-in answer.\<close>

definition built_in :: "resolver_env \<Rightarrow> string \<Rightarrow> QType \<Rightarrow> u16 \<Rightarrow> DNSResourceRecord option" where
  "built_in rs qname qtype qclass =
     (let rr = (DNSResourceRecord_init qtype 86400 (rv_domain_id (rs_rv rs)))\<lparr> rr_qname := qname \<rparr>
      in if (qtype = qt_PTR \<and> pdns_iequals qname ''1.0.0.127.in-addr.arpa.'') \<or> (qtype = qt_A \<and> length qname = 10 \<and> pdns_iequals qname ''localhost.'')
         then Some (rr\<lparr> rr_qclass := 1, rr_content := (if qtype = qt_PTR then ''localhost.'' else ''127.0.0.1'') \<rparr>)
         else if qclass = 3 \<and> qtype = qt_TXT \<and>
           (pdns_iequals qname ''version.bind.'' \<or> pdns_iequals qname ''id.server.'' \<or> pdns_iequals qname ''version.pdns.'')
         then Some (rr\<lparr> rr_qclass := qclass, rr_content := CHR 0x22 #
           (if pdns_iequals qname ''version.bind.'' \<or> pdns_iequals qname ''version.pdns.'' then rs_version rs else rs_serverID rs) @ [CHR 0x22] \<rparr>)
         else None)"

definition beginResolve :: "resolver_env \<Rightarrow> nat \<Rightarrow> string \<Rightarrow> QType \<Rightarrow> u16 \<Rightarrow> DNSResourceRecord list \<Rightarrow> (int \<times> DNSResourceRecord list) sync" where
  "beginResolve rs fuel qname qtype qclass ret =
     bindS (updateS (\<lambda>s. s\<lparr> ss_queries := ss_queries s + 1 \<rparr>)) (\<lambda>_.
       if qtype = qt_AXFR then returnS (-1, ret)
       else case built_in rs qname qtype qclass of
              Some rr \<Rightarrow> returnS (0, [rr])
            | None \<Rightarrow>
                if qclass \<noteq> 0xFF \<and> qclass \<noteq> 1 then returnS (-1, ret)
                else bindS (doResolve rs fuel qname qtype ret 0 []) (\<lambda>(res, ret, beenthere).
                  if res = 0 \<and> rs_doAdditionalProcessing rs then bindS (addCruft rs (doResolve rs fuel) ret) (\<lambda>ret. returnS (res, ret))
                  else returnS (res, ret)))"

end
