(* ===== verification/EdnsFallback.thy ===== *)
theory EdnsFallback
  imports SyncRes ThrottleProps
begin

text \<open>
  Giving up EDNS for a server (\<open>asyncresolveWrapper\<close> of \<open>syncres.cc\<close>): how often a server is asked, and what
  becomes of one that does not know EDNS.
\<close>

subsection \<open>How often a server is asked\<close>

lemma count_edns_fields [simp]: "ss_steps (count_edns mode s) = ss_steps s" "ss_ednsstatus (count_edns mode s) = ss_ednsstatus s"
  "ss_now (count_edns mode s) = ss_now s"
  by (simp_all add: count_edns_def)

lemma edns_account_fields [simp]: "ss_steps (edns_account mode lwr s) = ss_steps s" "ss_ednsstatus (edns_account mode lwr s) = ss_ednsstatus s"
  "ss_now (edns_account mode lwr s) = ss_now s"
  by (simp_all add: edns_account_def)

text \<open>The state after a server replied, and one try in terms of it.\<close>

definition edns_after :: "EDNSMode \<Rightarrow> EDNSMode \<Rightarrow> ComboAddress \<Rightarrow> LWResult \<Rightarrow> int \<Rightarrow> sync_state \<Rightarrow> sync_state" where
  "edns_after oldmode mode ip lwr now s =
     (let s = edns_account mode lwr ((count_edns mode s)\<lparr> ss_steps := ss_steps s + 1, ss_now := now \<rparr>);
          (mode', again) = edns_step mode lwr;
          st = es_get ip (ss_ednsstatus s);
          st = (if mode = CONFIRMEDPINGER \<and> lw_pingCorrect lwr then st\<lparr> es_modeSetAt := ss_now s \<rparr> else st);
          st = st\<lparr> es_mode := mode' \<rparr>;
          st = (if \<not> again \<and> oldmode \<noteq> mode' then st\<lparr> es_modeSetAt := ss_now s \<rparr> else st)
      in s\<lparr> ss_ednsstatus := es_put ip st (ss_ednsstatus s) \<rparr>)"

lemma edns_after_fields [simp]: "ss_steps (edns_after old mode ip lwr now s) = ss_steps s + 1" "ss_now (edns_after old mode ip lwr now s) = now"
  by (simp_all add: edns_after_def Let_def split: prod.split)

lemma edns_tries_Suc:
  "edns_tries rs (Suc n) old ret ip domain ty doTCP rd lwr s =
     (let mode = es_mode (es_get ip (ss_ednsstatus s))
      in case rs_async rs (ss_steps s) ip domain ty doTCP rd (edns_level mode) lwr (ss_now s) of
           Inl e \<Rightarrow> Some (Inl e, (count_edns mode s)\<lparr> ss_steps := ss_steps s + 1 \<rparr>)
         | Inr (ret, lwr, now) \<Rightarrow>
             if ret \<le> 0 then Some (Inr (ret, lwr), (count_edns mode s)\<lparr> ss_steps := ss_steps s + 1, ss_now := now \<rparr>)
             else if snd (edns_step mode lwr) then edns_tries rs n old ret ip domain ty doTCP rd lwr (edns_after old mode ip lwr now s)
             else if mode = CONFIRMEDPINGER \<and> \<not> lw_pingCorrect lwr
               then Some (Inr (0, lwr\<lparr> lw_rcode := rcode_ServFail \<rparr>), edns_after old mode ip lwr now s)
             else Some (Inr (ret, lwr), edns_after old mode ip lwr now s))"
  by (simp add: withS_def updateS_def bindS_def returnS_def async_def Let_def edns_after_def split: sum.split prod.split)

lemma edns_tries_steps:
  "edns_tries rs n old ret ip domain ty doTCP rd lwr s = Some (r, s') \<Longrightarrow>
   ss_steps s \<le> ss_steps s' \<and> ss_steps s' \<le> ss_steps s + n \<and> (0 < n \<longrightarrow> ss_steps s < ss_steps s')"
proof (induction n arbitrary: ret lwr s)
  case (Suc n)
  from Suc.prems show ?case
    by (auto simp: edns_tries_Suc Let_def simp del: edns_tries.simps dest!: Suc.IH split: if_splits prod.splits sum.splits)
qed (simp add: returnS_def)

lemma edns_tries_end: "edns_tries rs n old ret ip domain ty doTCP rd lwr s \<noteq> None"
proof (induction n arbitrary: ret lwr s)
  case (Suc n)
  then show ?case by (simp add: edns_tries_Suc Let_def del: edns_tries.simps not_None_eq split: sum.split prod.split)
qed (simp add: returnS_def)

lemma wrapper_end: "asyncresolveWrapper rs ip domain ty doTCP rd lwr s \<noteq> None"
  by (simp add: asyncresolveWrapper_def withS_def bindS_def updateS_def async_def Let_def edns_tries_end del: not_None_eq split: sum.split prod.split)

text \<open>
  For one question a server is asked at least once and at most three times, whatever it replies.
\<close>

theorem edns_three_queries:
  assumes "asyncresolveWrapper rs ip domain ty doTCP rd lwr s = Some (r, s')"
  shows "ss_steps s < ss_steps s' \<and> ss_steps s' \<le> ss_steps s + 3"
  using assms
  by (auto simp: asyncresolveWrapper_def withS_def updateS_def bindS_def async_def Let_def dest!: edns_tries_steps
      split: if_splits sum.splits prod.splits)

subsection \<open>A server that does not know EDNS\<close>

lemma es_put_sane: "servers.sane m \<Longrightarrow> address_ok ip \<Longrightarrow> servers.sane (es_put ip st m)"
  by (simp add: es_put_def servers.set_sane)

lemma edns_after_status:
  assumes "servers.sane (ss_ednsstatus s)" "address_ok ip"
  shows "servers.sane (ss_ednsstatus (edns_after old mode ip lwr now s))"
    "es_mode (es_get ip (ss_ednsstatus (edns_after old mode ip lwr now s))) = fst (edns_step mode lwr)"
    "\<not> snd (edns_step mode lwr) \<Longrightarrow> old \<noteq> fst (edns_step mode lwr) \<Longrightarrow> es_modeSetAt (es_get ip (ss_ednsstatus (edns_after old mode ip lwr now s))) = now"
  using assms by (auto simp: edns_after_def Let_def es_get_put es_put_sane split: prod.split)

text \<open>
  Property C15. A server that answers FORMERR to whatever has EDNS, and plain questions properly, is asked three
  times for the first question, first with EDNS and a ping, then with EDNS, then plainly, and the
  answer to the plain question is the answer. It is remembered as one without EDNS: the next question is
  asked plainly at once.
\<close>

theorem edns_given_up:
  assumes "\<not> rs_noEDNS rs" "\<not> rs_noEDNSPing rs" "address_ok ip" "servers.sane (ss_ednsstatus s)"
    and unknown: "es_mode (es_get ip (ss_ednsstatus s)) = UNKNOWN"
    and server: "\<forall>n level lwr now. rs_async rs n ip domain ty doTCP rd level lwr now = Inr (1, if level = 0 then plainly else refusal, now)"
    and "lw_rcode refusal = rcode_FormErr"
  shows "\<exists>s1 s2. asyncresolveWrapper rs ip domain ty doTCP rd lwr s = Some (Inr (1, plainly), s1) \<and>
    ss_steps s1 = ss_steps s + 3 \<and> es_mode (es_get ip (ss_ednsstatus s1)) = NOEDNS \<and>
    asyncresolveWrapper rs ip domain ty doTCP rd lwr' s1 = Some (Inr (1, plainly), s2) \<and> ss_steps s2 = ss_steps s1 + 1"
proof -
  let ?st = "let st = es_get ip (ss_ednsstatus s) in if es_modeSetAt st \<noteq> 0 \<and> es_modeSetAt st + 3600 < ss_now s then EDNSStatus_init else st"
  define t0 where "t0 = s\<lparr> ss_ednsstatus := es_put ip ?st (ss_ednsstatus s) \<rparr>"
  define t1 where "t1 = edns_after UNKNOWN UNKNOWN ip refusal (ss_now s) t0"
  define t2 where "t2 = edns_after UNKNOWN EDNSNOPING ip refusal (ss_now s) t1"
  define t3 where "t3 = edns_after UNKNOWN NOEDNS ip plainly (ss_now s) t2"
  have steps: "edns_step UNKNOWN refusal = (EDNSNOPING, True)" "edns_step EDNSNOPING refusal = (NOEDNS, True)" "edns_step NOEDNS l = (NOEDNS, False)" for l
    using assms(7) by (simp_all add: edns_step_def)
  have "es_mode ?st = UNKNOWN" using unknown by (simp add: Let_def EDNSStatus_init_def)
  then have m0: "servers.sane (ss_ednsstatus t0)" "es_mode (es_get ip (ss_ednsstatus t0)) = UNKNOWN" "ss_now t0 = ss_now s" "ss_steps t0 = ss_steps s"
    using assms(3,4) by (simp_all add: t0_def es_put_sane es_get_put)
  note m1 = edns_after_status [OF m0(1) assms(3), where old = UNKNOWN and mode = UNKNOWN and lwr = refusal and now = "ss_now s", folded t1_def]
  note m2 = edns_after_status [OF m1(1) assms(3), where old = UNKNOWN and mode = EDNSNOPING and lwr = refusal and now = "ss_now s", folded t2_def]
  note m3 = edns_after_status [OF m2(1) assms(3), where old = UNKNOWN and mode = NOEDNS and lwr = plainly and now = "ss_now s", folded t3_def]
  have n: "ss_now t1 = ss_now s" "ss_now t2 = ss_now s" "ss_now t3 = ss_now s" "ss_steps t3 = ss_steps s + 3"
    by (simp_all add: t1_def t2_def t3_def m0)
  have "asyncresolveWrapper rs ip domain ty doTCP rd lwr s = edns_tries rs (Suc (Suc (Suc 0))) UNKNOWN 0 ip domain ty doTCP rd lwr t0"
    using assms(1,2) m0(2) by (simp add: asyncresolveWrapper_def withS_def bindS_def updateS_def t0_def Let_def numeral_3_eq_3 del: edns_tries.simps)
  also have "\<dots> = edns_tries rs (Suc (Suc 0)) UNKNOWN 1 ip domain ty doTCP rd refusal t1"
    by (simp add: edns_tries_Suc [of _ "Suc (Suc 0)"] m0 server edns_level_def steps t1_def del: edns_tries.simps)
  also have "\<dots> = edns_tries rs (Suc 0) UNKNOWN 1 ip domain ty doTCP rd refusal t2"
    using m1(2) by (simp add: edns_tries_Suc [of _ "Suc 0"] n server edns_level_def steps t2_def del: edns_tries.simps)
  also have "\<dots> = Some (Inr (1, plainly), t3)"
    using m2(2) by (simp add: edns_tries_Suc n server edns_level_def steps t3_def del: edns_tries.simps)
  finally have first: "asyncresolveWrapper rs ip domain ty doTCP rd lwr s = Some (Inr (1, plainly), t3)" .
  have m3': "es_mode (es_get ip (ss_ednsstatus t3)) = NOEDNS" "es_modeSetAt (es_get ip (ss_ednsstatus t3)) = ss_now s"
    using m3 by (simp_all add: steps)
  define t4 where "t4 = t3\<lparr> ss_ednsstatus := es_put ip (es_get ip (ss_ednsstatus t3)) (ss_ednsstatus t3) \<rparr>"
  have m4: "es_mode (es_get ip (ss_ednsstatus t4)) = NOEDNS" "ss_now t4 = ss_now s" "ss_steps t4 = ss_steps t3"
    using m3(1) assms(3) m3' n by (simp_all add: t4_def es_get_put)
  have "asyncresolveWrapper rs ip domain ty doTCP rd lwr' t3 = edns_tries rs (Suc (Suc (Suc 0))) NOEDNS 0 ip domain ty doTCP rd lwr' t4"
    using assms(1,2) m3' n m4 by (simp add: asyncresolveWrapper_def withS_def bindS_def updateS_def Let_def numeral_3_eq_3 t4_def del: edns_tries.simps)
  also have "\<dots> = Some (Inr (1, plainly), edns_after NOEDNS NOEDNS ip plainly (ss_now s) t4)"
    using m4 by (simp add: edns_tries_Suc [of _ "Suc (Suc 0)"] server edns_level_def steps del: edns_tries.simps)
  finally show ?thesis using first n m3' m4 by auto
qed

subsection \<open>Examples\<close>

definition example_reply :: "int \<Rightarrow> DNSResourceRecord list \<Rightarrow> LWResult" where
  "example_reply rcode rrs = \<lparr> lw_result = rrs, lw_rcode = rcode, lw_aabit = True, lw_tcbit = False, lw_usec = 100,
     lw_pingCorrect = False, lw_haveEDNS = False \<rparr>"

text \<open>A resolver all whose servers are without EDNS.\<close>

definition example_resolver :: resolver_env where
  "example_resolver = \<lparr>
     rs_hints = \<lparr> hi_rcache = example_rcache, hi_zone = \<lparr> ze_files = (\<lambda>f. None), ze_error = [], ze_registry = all_types \<rparr>,
       hi_file = [], hi_template = (0, 0, 1), hi_lexical = (\<lambda>s. None) \<rparr>,
     rs_async = (\<lambda>n ip domain ty doTCP rd level lwr now. Inr (1, if level = 0 then example_reply 0 [] else example_reply rcode_FormErr [], now)),
     rs_time = (\<lambda>n. 1000), rs_shuffle_names = (\<lambda>n names. names), rs_shuffle_addresses = (\<lambda>n ips. ips), rs_speed = (\<lambda>n name. 0),
     rs_best = (\<lambda>n name. None), rs_lwr = example_reply 0 [], rs_match_memory = ([], []), rs_sort = (\<lambda>rrs. rrs), rs_maxnegttl = 3600,
     rs_maxcachettl = 86400, rs_doIPv6 = False, rs_noEDNSPing = False, rs_noEDNS = False, rs_doAdditionalProcessing = True,
     rs_doAAAAAdditionalProcessing = False, rs_log = False, rs_cacheonly = False, rs_nocache = False, rs_serverID = ''id'', rs_version = ''pdns'',
     rs_delegation_only = (\<lambda>zone. False), rs_dontQuery = None, rs_domainmap = [] \<rparr>"

definition example_state :: sync_state where
  "example_state = \<lparr> ss_steps = 0, ss_now = 1000, ss_RC = MemRecursorCache_init, ss_negcache = [], ss_ednsstatus = [],
     ss_throttle = Throttle_init 1000, ss_queries = 0, ss_outgoingtimeouts = 0, ss_throttledqueries = 0, ss_dontqueries = 0, ss_outqueries = 0,
     ss_tcpoutqueries = 0, ss_nodelegated = 0, ss_unreachables = 0, ss_d_outqueries = 0, ss_d_tcpoutqueries = 0, ss_d_throttledqueries = 0,
     ss_d_timeouts = 0, ss_d_unreachables = 0, ss_nsSetInvalidations = 0, ss_ednsPingMatches = 0, ss_ednsPingMismatches = 0,
     ss_noPingOutQueries = 0, ss_noEdnsOutQueries = 0, ss_resourceLimits = 0 \<rparr>"

lemma edns_given_up_witness:
  "\<exists>s1. asyncresolveWrapper example_resolver (sample_server 1) ''example.net.'' 1 False False (example_reply 0 []) example_state =
     Some (Inr (1, example_reply 0 []), s1) \<and> ss_steps s1 = 3 \<and> es_mode (es_get (sample_server 1) (ss_ednsstatus s1)) = NOEDNS"
proof -
  have "\<not> rs_noEDNS example_resolver" "\<not> rs_noEDNSPing example_resolver" "servers.sane (ss_ednsstatus example_state)"
    "es_mode (es_get (sample_server 1) (ss_ednsstatus example_state)) = UNKNOWN" "ss_steps example_state = 0"
    "lw_rcode (example_reply rcode_FormErr []) = rcode_FormErr"
    by (simp_all add: example_resolver_def example_state_def es_get_def om_find_def EDNSStatus_init_def example_reply_def)
  moreover have "\<forall>n level lwr now. rs_async example_resolver n (sample_server 1) ''example.net.'' 1 False False level lwr now =
    Inr (1, if level = 0 then example_reply 0 [] else example_reply rcode_FormErr [], now)"
    by (simp add: example_resolver_def)
  ultimately show ?thesis
    using edns_given_up [of example_resolver "sample_server 1" example_state "''example.net.''" 1 False False "example_reply 0 []" "example_reply rcode_FormErr []"]
    by (fastforce simp: sample_server_ok)
qed

lemma edns_three_queries_witness:
  "\<exists>r s'. asyncresolveWrapper example_resolver (sample_server 1) ''example.net.'' 1 False False (example_reply 0 []) example_state = Some (r, s') \<and>
     ss_steps s' \<le> 3"
proof -
  obtain p where p: "asyncresolveWrapper example_resolver (sample_server 1) ''example.net.'' 1 False False (example_reply 0 []) example_state = Some p"
    using wrapper_end by blast
  obtain r s' where "p = (r, s')" by fastforce
  with p edns_three_queries [of example_resolver "sample_server 1" "''example.net.''" 1 False False "example_reply 0 []" example_state r s']
  show ?thesis by (simp add: example_state_def)
qed

end
