(* ===== verification/ResolverProps.thy ===== *)
theory ResolverProps
  imports Resolver EdnsFallback
begin

text \<open>
  Properties of the resolver: it always comes to an end, what a reply can change in the cache and for how
  long, and how EDNS is given up.
\<close>

subsection \<open>Computations that end\<close>

definition ends :: "'a sync \<Rightarrow> bool" where
  "ends m \<longleftrightarrow> (\<forall>s. m s \<noteq> None)"

named_theorems ends

lemma ends_returnS [ends]: "ends (returnS a)"
  by (simp add: ends_def returnS_def)

lemma ends_liftS [ends]: "ends (liftS r)"
  by (simp add: ends_def liftS_def)

lemma ends_updateS [ends]: "ends (updateS f)"
  by (simp add: ends_def updateS_def)

lemma ends_bindS [ends]: "ends m \<Longrightarrow> (\<And>a. ends (f a)) \<Longrightarrow> ends (bindS m f)"
  by (auto simp: ends_def bindS_def split: option.split prod.split sum.split)

lemma ends_withS [ends]: "(\<And>s. ends (f s)) \<Longrightarrow> ends (withS f)"
  by (simp add: ends_def withS_def)

lemma ends_RC [ends]: "ends (RC_get rs qname qt want)" "ends (RC_replace rs qname qt content auth)"
  by (auto simp: ends_def RC_get_def RC_replace_def split: prod.split)

lemma ends_async [ends]: "ends (async rs ip domain ty doTCP rd level lwr)"
  by (auto simp: ends_def async_def split: sum.split prod.split)

lemma ends_edns_tries [ends]: "ends (edns_tries rs n old ret ip domain ty doTCP rd lwr)"
  using edns_tries_end by (simp add: ends_def)

lemma ends_wrapper [ends]: "ends (asyncresolveWrapper rs ip domain ty doTCP rd lwr)"
  using wrapper_end by (simp add: ends_def)

lemma ends_useful_servers [ends]: "ends (useful_servers rs subdomain ns bestns flawed)"
proof (induction ns arbitrary: bestns flawed)
  case (Cons k ns)
  then show ?case by (auto simp: Let_def split: prod.split intro!: ends)
qed (simp add: ends)

text \<open>The root hints are read to their end.\<close>

definition hints_end :: "resolver_env \<Rightarrow> bool" where
  "hints_end rs \<longleftrightarrow> (\<forall>now rc. primeHints (rs_hints rs) now rc \<noteq> None)"

lemma built_in_hints_end: "hi_file (rs_hints rs) = [] \<Longrightarrow> hints_end rs"
  by (simp add: hints_end_def primeHints_def Let_def)

lemma ends_prime_hints: "hints_end rs \<Longrightarrow> ends (prime_hints rs)"
  by (auto simp: ends_def prime_hints_def hints_end_def)

lemma ends_best_ns_levels: "hints_end rs \<Longrightarrow> ends (best_ns_levels rs qname subs flawed beenthere)"
proof (induction subs arbitrary: flawed)
  case (Cons sub subs)
  then show ?case by (auto simp: Let_def split: prod.split intro!: ends ends_prime_hints)
qed (simp add: ends)

lemma ends_getBestNS: "hints_end rs \<Longrightarrow> ends (getBestNSFromCache rs qname beenthere)"
  unfolding getBestNSFromCache_def by (rule ends_best_ns_levels)

lemma ends_getBestNSNames: "hints_end rs \<Longrightarrow> ends (getBestNSNamesFromCache rs qname nsset flawed beenthere)"
  by (auto simp: getBestNSNamesFromCache_def Let_def split: option.split prod.split intro!: ends ends_getBestNS)

lemma ends_doCacheCheck [ends]: "ends (doCacheCheck rs qname qtype ret)"
  by (auto simp: doCacheCheck_def Let_def split: prod.split intro!: ends)

lemma ends_supplant [ends]: "ends (supplant rs aabit m)"
  by (induction rs aabit m rule: supplant.induct) (auto intro!: ends)

lemma ends_store_reply [ends]: "ends (store_reply rs auth lwr)"
  by (auto simp: store_reply_def split: prod.split option.split intro!: ends)

lemma ends_ordering [ends]: "ends (shuffleInSpeedOrder rs names)" "ends (ordered_addresses rs qname ips)"
  by (auto simp: ends_def shuffleInSpeedOrder_def ordered_addresses_def Let_def)

lemma ends_throttling [ends]: "ends (throttle_server ip qname qtype ttl tries)" "ends (should_throttle ip qname qtype)"
  by (auto simp: ends_def throttle_server_def should_throttle_def updateS_def split: prod.split)

lemma ends_ask [ends]: "ends (ask_once rs ip qname qtype rd doTCP lwr)" "ends (ask_address rs ip qname qtype rd doTCP lwr)"
  by (auto simp: ask_address_def ask_once_def split: prod.split intro!: ends)

subsection \<open>The depth of a resolution\<close>

text \<open>
  What a resolution at some depth asks of deeper ones: at the next depth for the target of a CNAME, if the
  depth allows it, and two deeper for the address of a server.
\<close>

definition deeper_ends :: "resolve \<Rightarrow> nat \<Rightarrow> bool" where
  "deeper_ends resolve depth \<longleftrightarrow>
     (depth \<le> 10 \<longrightarrow> (\<forall>q t r b. ends (resolve q t r (depth + 1) b))) \<and>
     (\<forall>q r b. \<forall>t \<in> {qt_A, qt_ADDR}. ends (resolve q t r (depth + 2) b))"

lemma ends_process_reply: "deeper_ends resolve depth \<Longrightarrow> ends (process_reply rs resolve tns auth qname qtype depth lwr ret)"
  by (auto simp: process_reply_def Let_def deeper_ends_def split: option.split prod.split intro!: ends)

lemma ends_try_addresses:
  "deeper_ends resolve depth \<Longrightarrow> ends (try_addresses rs resolve tns auth qname qtype depth rd pierce ips doTCP lwr ret)"
proof (induction ips arbitrary: doTCP lwr ret)
  case (Cons ip ips)
  then show ?case by (auto split: prod.split intro!: ends ends_process_reply)
qed (simp add: ends)

lemma ends_server_addresses: "deeper_ends resolve depth \<Longrightarrow> ends (server_addresses rs resolve tns depth beenthere)"
  by (auto simp: server_addresses_def getAs_def address_type_def deeper_ends_def split: prod.split intro!: ends)

lemma ends_try_servers:
  "deeper_ends resolve depth \<Longrightarrow> ends (try_servers rs resolve names auth flawed qname qtype depth ret beenthere)"
proof (induction names arbitrary: flawed ret beenthere)
  case (Cons tns names)
  then show ?case
    by (auto simp: Let_def split: prod.split intro!: ends ends_process_reply ends_try_addresses ends_server_addresses)
qed (simp add: ends)

subsection \<open>Referrals\<close>

definition gives :: "'a sync \<Rightarrow> ('a \<Rightarrow> bool) \<Rightarrow> bool" where
  "gives m P \<longleftrightarrow> (\<forall>s a s'. m s = Some (Inr a, s') \<longrightarrow> P a)"

named_theorems gives

lemma gives_returnS [gives]: "P a \<Longrightarrow> gives (returnS a) P"
  by (simp add: gives_def returnS_def)

lemma gives_bindS [gives]: "gives m (\<lambda>a. gives (f a) P) \<Longrightarrow> gives (bindS m f) P"
  by (fastforce simp: gives_def bindS_def split: option.splits prod.splits sum.splits)

lemma gives_withS [gives]: "(\<And>s. gives (f s) P) \<Longrightarrow> gives (withS f) P"
  by (auto simp: gives_def withS_def)

lemma gives_weaken: "gives m Q \<Longrightarrow> (\<And>a. Q a \<Longrightarrow> P a) \<Longrightarrow> gives m P"
  by (auto simp: gives_def)

lemma gives_any: "(\<And>a. P a) \<Longrightarrow> gives m P"
  by (simp add: gives_def)

lemmas gives_basic [gives] =
  gives_any [of _ "updateS f" for f] gives_any [of _ "liftS r" for r] gives_any [of _ "store_reply rs auth lwr" for rs auth lwr]
  gives_any [of _ "throttle_server ip qname qtype ttl tries" for ip qname qtype ttl tries]
  gives_any [of _ "should_throttle ip qname qtype" for ip qname qtype]
  gives_any [of _ "ask_address rs ip qname qtype rd doTCP lwr" for rs ip qname qtype rd doTCP lwr]
  gives_any [of _ "server_addresses rs resolve tns depth beenthere" for rs resolve tns depth beenthere]

text \<open>A referral is to a zone the name is in, below the zone of the servers asked.\<close>

definition closer :: "string \<Rightarrow> string \<Rightarrow> at_outcome \<Rightarrow> bool" where
  "closer qname auth out = (case out of At_referral newauth nsset \<Rightarrow> dottedEndsOn qname newauth \<and> moreSpecificThan newauth auth | _ \<Rightarrow> True)"

lemma closer_simps [simp]:
  "closer qname auth (At_return r)" "closer qname auth At_next" "closer qname auth At_lame"
  "closer qname auth (At_referral newauth nsset) \<longleftrightarrow> dottedEndsOn qname newauth \<and> moreSpecificThan newauth auth"
  by (simp_all add: closer_def)

lemma status_step_referral:
  "(st_realreferral st \<longrightarrow> closer qname auth (At_referral (st_newauth st) ns)) \<Longrightarrow>
   st_realreferral (status_step rs now auth qname qtype lwr i st) \<longrightarrow>
   closer qname auth (At_referral (st_newauth (status_step rs now auth qname qtype lwr i st)) ns)"
  by (auto simp: status_step_def Let_def)

lemma determined_referral:
  "st_realreferral (determine_status rs now auth qname qtype lwr is ret neg) \<Longrightarrow>
   closer qname auth (At_referral (st_newauth (determine_status rs now auth qname qtype lwr is ret neg)) ns)"
proof -
  have "(st_realreferral st \<longrightarrow> closer qname auth (At_referral (st_newauth st) ns)) \<Longrightarrow>
    st_realreferral (fold (status_step rs now auth qname qtype lwr) is st) \<longrightarrow>
    closer qname auth (At_referral (st_newauth (fold (status_step rs now auth qname qtype lwr) is st)) ns)" for st
  proof (induction "is" arbitrary: st)
    case (Cons i "is")
    show ?case unfolding fold_Cons comp_def by (rule Cons.IH) (rule status_step_referral [OF Cons.prems])
  qed simp
  then show "st_realreferral (determine_status rs now auth qname qtype lwr is ret neg) \<Longrightarrow> ?thesis"
    unfolding determine_status_def by auto
qed

lemma process_reply_referral:
  "(\<And>out ret. closer qname auth out \<Longrightarrow> P (out, ret)) \<Longrightarrow> gives (process_reply rs resolve tns auth qname qtype depth lwr ret) P"
proof (rule gives_weaken [where Q = "\<lambda>r. closer qname auth (fst r)"])
  show "gives (process_reply rs resolve tns auth qname qtype depth lwr ret) (\<lambda>r. closer qname auth (fst r))"
    using determined_referral
    by (auto simp: process_reply_def Let_def simp del: closer_simps(4) split: option.split prod.split intro!: gives gives_any [of _ "resolve q t r d b" for q t r d b])
qed auto

lemma try_addresses_referral:
  "(\<And>out ret. closer qname auth out \<Longrightarrow> P (out, ret)) \<Longrightarrow>
   gives (try_addresses rs resolve tns auth qname qtype depth rd pierce ips doTCP lwr ret) P"
proof (induction ips arbitrary: doTCP lwr ret)
  case (Cons ip ips)
  from Cons.prems Cons.IH [OF Cons.prems] show ?case by (auto split: prod.split intro!: gives process_reply_referral)
qed (simp add: gives)

lemma try_servers_referral:
  "gives (try_servers rs resolve names auth flawed qname qtype depth ret beenthere) (\<lambda>r. closer qname auth (fst r))"
proof (induction names arbitrary: flawed ret beenthere)
  case (Cons tns names)
  then show ?case
    by (auto simp: Let_def split: prod.split intro!: gives process_reply_referral try_addresses_referral)
qed (auto intro!: gives)

lemma specificity_le: "dottedEndsOn qname a \<Longrightarrow> specificity a \<le> length qname + 1"
proof -
  assume "dottedEndsOn qname a"
  then consider "a = ''.''" | "length a \<le> length qname"
    by (auto simp: dottedEndsOn_def ciEqual_def Let_def split: if_splits dest: list_all2_lengthD)
  then show ?thesis
  proof cases
    case 2
    have "length (filter (\<lambda>c. c = CHR ''.'') a) \<le> length a" by simp
    with 2 have "length (filter (\<lambda>c. c = CHR ''.'') a) \<le> length qname" by (rule order_trans [rotated])
    then show ?thesis unfolding specificity_def by auto
  qed (simp add: specificity_def)
qed

lemma ends_resolve_levels:
  "deeper_ends resolve depth \<Longrightarrow> 0 < levels \<Longrightarrow> length qname + 2 \<le> levels + specificity auth \<Longrightarrow>
   ends (resolve_levels rs resolve levels names auth flawed qname qtype depth ret beenthere)"
proof (induction levels arbitrary: names auth flawed ret beenthere)
  case (Suc levels)
  have step: "ends (bindS m f)" if "ends m" "gives m Q" "\<And>a. Q a \<Longrightarrow> ends (f a)" for m :: "'x sync" and f :: "'x \<Rightarrow> 'y sync" and Q
    using that by (fastforce simp: ends_def gives_def bindS_def split: option.splits prod.splits sum.splits)
  show ?case
    unfolding resolve_levels.simps
  proof (rule ends_bindS [OF ends_ordering(1)], rule step [OF ends_try_servers [OF Suc.prems(1)] try_servers_referral])
    fix rnames and out :: "at_outcome \<times> bool \<times> DNSResourceRecord list \<times> GetBestNSAnswer list"
    assume out: "closer qname auth (fst out)"
    obtain outcome flawed' ret' b where o: "out = (outcome, flawed', ret', b)" by (metis surj_pair)
    show "ends (case out of (outcome, flawed, ret, beenthere) \<Rightarrow> case outcome of
        At_return res \<Rightarrow> returnS (res, ret, beenthere) | At_referral newauth nsset \<Rightarrow>
          resolve_levels rs resolve levels nsset newauth flawed qname qtype depth ret beenthere
      | _ \<Rightarrow> returnS (-1, ret, beenthere))"
    proof (cases outcome)
      case (At_referral newauth nsset)
      with out o have "dottedEndsOn qname newauth" "specificity auth < specificity newauth" by (auto simp: moreSpecificThan_def)
      with specificity_le [of qname newauth] Suc.prems show ?thesis by (simp add: o At_referral Suc.IH)
    qed (simp_all add: o ends)
  qed
qed simp

lemma ends_doResolveAt: "deeper_ends resolve depth \<Longrightarrow> ends (doResolveAt rs resolve names auth flawed qname qtype depth ret beenthere)"
  unfolding doResolveAt_def by (rule ends_resolve_levels) auto

lemma ends_ask_servers: "hints_end rs \<Longrightarrow> deeper_ends resolve depth \<Longrightarrow> ends (ask_servers rs resolve qname qtype ret depth beenthere)"
  by (auto simp: ask_servers_def split: prod.split intro!: ends ends_getBestNSNames ends_doResolveAt)

lemma ends_CNAME_check:
  "depth > 10 \<or> deeper_ends resolve depth \<Longrightarrow> ends (doCNAMECacheCheck rs resolve qname qtype ret depth)"
  by (auto simp: doCNAMECacheCheck_def deeper_ends_def Let_def split: prod.split option.split intro!: ends)

lemma ends_peek: "peek_zone rs qname qtype ret = Some m \<Longrightarrow> ends m"
  by (auto simp: peek_zone_def split: option.splits list.splits prod.splits intro!: ends)

text \<open>Past the limit of the depth a resolution ends at once, unless it is one that skips the caches.\<close>

definition skips_caches :: "resolver_env \<Rightarrow> string \<Rightarrow> QType \<Rightarrow> bool" where
  "skips_caches rs qname qtype \<longleftrightarrow> rs_nocache rs \<and> qtype = qt_NS \<and> qname = ''.''"

lemma bindS_returnS: "bindS (returnS a) f = f a"
  by (simp add: bindS_def returnS_def)

lemma too_deep_found: "10 < depth \<Longrightarrow> doCNAMECacheCheck rs resolve qname qtype ret depth = returnS (True, rcode_ServFail, ret)"
  by (simp add: doCNAMECacheCheck_def)

lemma ends_too_deep:
  "10 < depth \<Longrightarrow> \<not> skips_caches rs qname qtype \<Longrightarrow> ends (doResolve rs (Suc fuel) qname qtype ret depth beenthere)"
  by (auto simp: skips_caches_def Let_def too_deep_found bindS_returnS split: option.split intro!: ends dest: ends_peek)

lemma ends_doResolve_step:
  "hints_end rs \<Longrightarrow> deeper_ends (doResolve rs fuel) depth \<Longrightarrow> ends (doResolve rs (Suc fuel) qname qtype ret depth beenthere)"
  by (auto simp: Let_def split: option.split prod.split intro!: ends ends_CNAME_check ends_ask_servers dest: ends_peek)

lemma ends_doResolve:
  "hints_end rs \<Longrightarrow> 2 \<le> fuel \<Longrightarrow> 13 \<le> fuel + depth \<Longrightarrow> ends (doResolve rs fuel qname qtype ret depth beenthere)"
proof (induction fuel arbitrary: qname qtype ret depth beenthere)
  case (Suc fuel)
  have "deeper_ends (doResolve rs fuel) depth"
    unfolding deeper_ends_def
  proof (intro conjI impI allI ballI)
    fix q t r b
    assume "depth \<le> 10"
    with Suc show "ends (doResolve rs fuel q t r (depth + 1) b)" by simp
  next
    fix q t r b
    assume t: "t \<in> {qt_A, qt_ADDR}"
    show "ends (doResolve rs fuel q t r (depth + 2) b)"
    proof (cases "depth + 2 > 10")
      case True
      moreover have "\<not> skips_caches rs q t" using t by (auto simp: skips_caches_def qt_A_def qt_ADDR_def qt_NS_def)
      moreover obtain n where "fuel = Suc n" using Suc.prems by (cases fuel) auto
      ultimately show ?thesis using ends_too_deep by blast
    qed (use Suc in simp)
  qed
  with Suc.prems(1) show ?case by (rule ends_doResolve_step)
qed simp

subsection \<open>Fuel that is enough\<close>

text \<open>Two ways to resolve at deeper depths that a resolution cannot tell apart.\<close>

definition deeper_same :: "resolve \<Rightarrow> resolve \<Rightarrow> nat \<Rightarrow> bool" where
  "deeper_same r1 r2 depth \<longleftrightarrow>
     (depth \<le> 10 \<longrightarrow> (\<forall>q t r b. r1 q t r (depth + 1) b = r2 q t r (depth + 1) b)) \<and>
     (\<forall>q r b. \<forall>t \<in> {qt_A, qt_ADDR}. r1 q t r (depth + 2) b = r2 q t r (depth + 2) b)"

lemma same_process_reply:
  "deeper_same r1 r2 depth \<Longrightarrow> process_reply rs r1 tns auth qname qtype depth lwr ret = process_reply rs r2 tns auth qname qtype depth lwr ret"
  by (cases "depth \<le> 10") (simp_all add: process_reply_def deeper_same_def Let_def cong: if_cong option.case_cong)

lemma same_try_addresses:
  "deeper_same r1 r2 depth \<Longrightarrow> try_addresses rs r1 tns auth qname qtype depth rd pierce ips doTCP lwr ret =
     try_addresses rs r2 tns auth qname qtype depth rd pierce ips doTCP lwr ret"
  by (induction ips arbitrary: doTCP lwr ret) (simp_all add: same_process_reply cong: if_cong)

lemma same_server_addresses: "deeper_same r1 r2 depth \<Longrightarrow> server_addresses rs r1 tns depth beenthere = server_addresses rs r2 tns depth beenthere"
  by (auto simp: server_addresses_def getAs_def address_type_def deeper_same_def)

lemma same_try_servers:
  "deeper_same r1 r2 depth \<Longrightarrow> try_servers rs r1 names auth flawed qname qtype depth ret beenthere =
     try_servers rs r2 names auth flawed qname qtype depth ret beenthere"
  by (induction names arbitrary: flawed ret beenthere qname qtype) (simp_all add: same_process_reply same_try_addresses same_server_addresses Let_def cong: if_cong)

lemma same_resolve_levels:
  "deeper_same r1 r2 depth \<Longrightarrow> resolve_levels rs r1 levels names auth flawed qname qtype depth ret beenthere =
     resolve_levels rs r2 levels names auth flawed qname qtype depth ret beenthere"
  by (induction levels arbitrary: names auth flawed ret beenthere) (simp_all add: same_try_servers cong: at_outcome.case_cong)

lemma same_ask_servers: "deeper_same r1 r2 depth \<Longrightarrow> ask_servers rs r1 qname qtype ret depth beenthere = ask_servers rs r2 qname qtype ret depth beenthere"
  by (simp add: ask_servers_def doResolveAt_def same_resolve_levels)

lemma same_CNAME_check:
  "deeper_same r1 r2 depth \<Longrightarrow> doCNAMECacheCheck rs r1 qname qtype ret depth = doCNAMECacheCheck rs r2 qname qtype ret depth"
  by (cases "depth \<le> 10") (simp_all add: doCNAMECacheCheck_def deeper_same_def Let_def cong: if_cong option.case_cong)

lemma same_too_deep:
  "10 < depth \<Longrightarrow> \<not> skips_caches rs qname qtype \<Longrightarrow>
   doResolve rs (Suc f1) qname qtype ret depth beenthere = doResolve rs (Suc f2) qname qtype ret depth beenthere"
  by (simp add: Let_def skips_caches_def [symmetric] too_deep_found bindS_returnS cong: option.case_cong)

lemma same_doResolve:
  "2 \<le> f1 \<Longrightarrow> 13 \<le> f1 + depth \<Longrightarrow> f1 \<le> f2 \<Longrightarrow>
   doResolve rs f1 qname qtype ret depth beenthere = doResolve rs f2 qname qtype ret depth beenthere"
proof (induction f1 arbitrary: f2 qname qtype ret depth beenthere)
  case (Suc f1)
  then obtain g where g: "f2 = Suc g" "f1 \<le> g" by (cases f2) auto
  have "deeper_same (doResolve rs f1) (doResolve rs g) depth"
    unfolding deeper_same_def
  proof (intro conjI impI allI ballI)
    fix q t r b
    assume "depth \<le> 10"
    with Suc.prems g show "doResolve rs f1 q t r (depth + 1) b = doResolve rs g q t r (depth + 1) b" by (intro Suc.IH) auto
  next
    fix q t r b
    assume t: "t \<in> {qt_A, qt_ADDR}"
    show "doResolve rs f1 q t r (depth + 2) b = doResolve rs g q t r (depth + 2) b"
    proof (cases "depth + 2 > 10")
      case True
      moreover have "\<not> skips_caches rs q t" using t by (auto simp: skips_caches_def qt_A_def qt_ADDR_def qt_NS_def)
      moreover obtain n m where "f1 = Suc n" "g = Suc m" using Suc.prems g by (cases f1; cases g) auto
      ultimately show ?thesis using same_too_deep by blast
    next
      case False
      with Suc.prems g show ?thesis by (intro Suc.IH) auto
    qed
  qed
  then show ?case by (simp add: g same_ask_servers same_CNAME_check cong: if_cong option.case_cong)
qed simp

lemma same_additional: "13 \<le> f1 \<Longrightarrow> f1 \<le> f2 \<Longrightarrow> addCruft rs (doResolve rs f1) ret = addCruft rs (doResolve rs f2) ret"
proof -
  assume "13 \<le> f1" "f1 \<le> f2"
  then have "doResolve rs f1 q t r 1 b = doResolve rs f2 q t r 1 b" for q t r b by (intro same_doResolve) auto
  then have "additional_records rs (doResolve rs f1) ks addit = additional_records rs (doResolve rs f2) ks addit" for ks addit
    by (induction ks arbitrary: addit) (simp_all split: option.split)
  then show ?thesis by (simp only: addCruft_def)
qed

lemma ends_addCruft: "hints_end rs \<Longrightarrow> 13 \<le> fuel \<Longrightarrow> ends (addCruft rs (doResolve rs fuel) ret)"
proof -
  assume "hints_end rs" "13 \<le> fuel"
  then have "ends (additional_records rs (doResolve rs fuel) ks addit)" for ks addit
    by (induction ks arbitrary: addit) (auto split: option.split prod.split intro!: ends ends_doResolve)
  then show ?thesis by (auto simp: addCruft_def intro!: ends)
qed

text \<open>
  Property C2. A resolution always comes to an end, with an answer or an exception, whatever the servers
  reply: with fuel 13 or more it never runs out, and more fuel does not change what it gives. What it needs is that
  the root hints can be read to their end, as the built-in ones can. The CNAME chains and server lookups are
  bounded by the depth, the referrals by the labels of the name.
\<close>

theorem resolution_ends:
  assumes "hints_end rs" "13 \<le> fuel"
  shows "beginResolve rs fuel qname qtype qclass ret s \<noteq> None \<and>
    beginResolve rs fuel qname qtype qclass ret s = beginResolve rs 13 qname qtype qclass ret s"
proof
  have "ends (beginResolve rs fuel qname qtype qclass ret)"
    using assms by (auto simp: beginResolve_def split: option.split prod.split intro!: ends ends_addCruft ends_doResolve)
  then show "beginResolve rs fuel qname qtype qclass ret s \<noteq> None" by (simp add: ends_def)
  have "doResolve rs fuel q t r 0 b = doResolve rs 13 q t r 0 b" "addCruft rs (doResolve rs fuel) r = addCruft rs (doResolve rs 13) r" for q t r b
    using assms same_doResolve [of 13 0 fuel] same_additional [of 13 fuel] by auto
  then show "beginResolve rs fuel qname qtype qclass ret s = beginResolve rs 13 qname qtype qclass ret s"
    unfolding beginResolve_def by (simp only:)
qed

subsection \<open>What a reply can change\<close>

lemma dottedEndsOn_core:
  "dottedEndsOn domain sfx \<longleftrightarrow>
     sfx = ''.'' \<or> toLower domain = toLower sfx \<or> (\<exists>p. toLower domain = p @ ''.'' @ toLower sfx)"
proof (cases "length domain \<le> length sfx")
  case True
  then have "\<not> (\<exists>p. toLower domain = p @ ''.'' @ toLower sfx)"
    by (auto dest!: arg_cong [of _ _ length])
  with True show ?thesis by (simp add: dottedEndsOn_def ciEqual_iff)
next
  case False
  then show ?thesis
    using suffix_test [of sfx domain]
    by (auto simp: dottedEndsOn_def ciEqual_iff Let_def list_all2_toLower Suc_diff_Suc)
qed

lemma dottedEndsOn_case: "toLower a = toLower b \<Longrightarrow> dottedEndsOn a sfx = dottedEndsOn b sfx"
  by (simp add: dottedEndsOn_core)

lemma find_elsewhere: "\<not> mi_equiv rentry_less k e' \<Longrightarrow> mi_find rentry_less k (mi_replace rentry_less e' m) = mi_find rentry_less k m"
  by (induction m) (auto simp: mi_find_def mi_replace_def record_index.equiv_key)

lemma replace_elsewhere:
  assumes "rentry_key k \<noteq> rentry_key (rc_key q qt)"
  shows "mi_find rentry_less k (mc_cache (fst (rc_replace rv now q qt content auth c))) = mi_find rentry_less k (mc_cache c)"
proof -
  let ?new = "\<lparr> re_qname = q, re_qtype = qt, re_auth = auth, re_records = [] \<rparr>"
  obtain stored isNew where st: "(case mi_find rentry_less ?new (mc_cache c) of Some stored \<Rightarrow> (stored, False) | None \<Rightarrow> (?new, True)) = (stored, isNew)"
    by fastforce
  have key: "rentry_key ?new = rentry_key (rc_key q qt)" by (simp add: rentry_key_def rc_key_def)
  have same: "rentry_key stored = rentry_key (rc_key q qt)"
    using st key by (auto simp: mi_find_def find_Some_iff record_index.equiv_key split: option.splits)
  define m where "m = (if isNew then fst (mi_insert rentry_less ?new (mc_cache c)) else mc_cache c)"
  have "find P (l @ [v]) = (case find P l of Some e \<Rightarrow> Some e | None \<Rightarrow> if P v then Some v else None)" for P :: "RCacheEntry \<Rightarrow> bool" and l v
    by (induction l) auto
  then have m: "mi_find rentry_less k m = mi_find rentry_less k (mc_cache c)"
    using assms key by (auto simp: m_def mi_insert_def mi_find_def record_index.equiv_key split: option.split)
  have kept: "mi_find rentry_less k (mi_replace rentry_less e m) = mi_find rentry_less k (mc_cache c)" if "rentry_key e = rentry_key stored" for e
    using find_elsewhere [of k e m] that assms same m by (simp add: record_index.equiv_key)
  show ?thesis
  proof (cases "admit_unauth now auth (clear_single qt stored)")
    case None
    then show ?thesis using m by (cases isNew) (simp_all add: rc_replace_def st Let_def m_def)
  next
    case (Some ce)
    obtain ce' new' where cl: "clear_unauth q qt content auth isNew ce = (ce', new')" by fastforce
    have "rentry_key ce' = rentry_key stored"
      using Some cl by (auto simp: clear_unauth_def admit_unauth_def clear_single_def rentry_key_def split: if_splits)
    then have "rentry_key (ce'\<lparr> re_records := rs \<rparr>) = rentry_key stored" for rs by (simp add: rentry_key_def)
    with Some cl kept m show ?thesis by (auto simp: rc_replace_def st Let_def m_def split: sum.split)
  qed
qed

lemma supplant_elsewhere:
  "supplant rs aabit tcache s = Some (r, s') \<Longrightarrow> \<forall>((q, qt'), rrs) \<in> set tcache. rentry_key k \<noteq> rentry_key (rc_key q qt') \<Longrightarrow>
   mi_find rentry_less k (mc_cache (ss_RC s')) = mi_find rentry_less k (mc_cache (ss_RC s))"
proof (induction rs aabit tcache arbitrary: s rule: supplant.induct)
  case (2 rs aabit name qt rrs m)
  obtain rc r1 where rc: "rc_replace (rs_rv rs) (ss_now s) name qt (group_ttl rrs) aabit (ss_RC s) = (rc, r1)" by fastforce
  have k: "mi_find rentry_less k (mc_cache rc) = mi_find rentry_less k (mc_cache (ss_RC s))"
    using replace_elsewhere [of k name qt "rs_rv rs" "ss_now s" "group_ttl rrs" aabit "ss_RC s"] "2.prems"(2) by (simp add: rc)
  show ?case
  proof (cases r1)
    case (Inl e)
    with "2.prems"(1) rc k show ?thesis by (auto simp: bindS_def RC_replace_def)
  next
    case (Inr u)
    with "2.prems" rc k show ?thesis by (auto simp: bindS_def RC_replace_def intro!: "2.IH" [THEN trans])
  qed
qed (simp add: returnS_def)

text \<open>What is gathered from a reply.\<close>

definition gathered :: "resolver_env \<Rightarrow> int \<Rightarrow> string \<Rightarrow> (string \<times> QType) \<times> DNSResourceRecord list \<Rightarrow> bool" where
  "gathered rs now auth e \<longleftrightarrow> dottedEndsOn (fst (fst e)) auth \<and>
     (\<forall>rr \<in> set (snd e). rr_place rr = ANSWER \<and> (\<exists>ttl \<le> rs_maxcachettl rs. rr_ttl rr = ttl + word_of_int now))"

lemma rrset_insert_subset: "set (rrset_insert rr res) \<subseteq> insert rr (set res)"
proof -
  have "set (mi_place DNSResourceRecord_less rr res) = insert rr (set res)" by (induction res) auto
  then show ?thesis by (auto simp: rrset_insert_def)
qed

lemma tcache_insert_gathered:
  assumes "dottedEndsOn (fst k) auth" "rr_place rr = ANSWER" "ttl \<le> rs_maxcachettl rs" "rr_ttl rr = ttl + word_of_int now"
  shows "\<forall>e \<in> set m. gathered rs now auth e \<Longrightarrow> \<forall>e \<in> set (tcache_insert k rr m). gathered rs now auth e"
proof (induction m)
  case (Cons e m)
  obtain k' rrs where e: "e = (k', rrs)" by fastforce
  have new: "gathered rs now auth (k, [rr])" using assms by (auto simp: gathered_def)
  have "gathered rs now auth (k', rrset_insert rr rrs)"
    using assms Cons.prems rrset_insert_subset [of rr rrs] by (auto simp: gathered_def e)
  with Cons new show ?case by (auto simp: e)
qed (use assms in \<open>auto simp: gathered_def\<close>)

lemma reap_gathered:
  "reap_answers rs now auth lwr is tc = Some (is', tc') \<Longrightarrow> \<forall>e \<in> set tc. gathered rs now auth e \<Longrightarrow> \<forall>e \<in> set tc'. gathered rs now auth e"
proof (induction "is" arbitrary: tc is')
  case (Cons i "is")
  show ?case
  proof (cases "rr_qtype i = qt_OPT \<or> rr_qtype i = qt_ANY \<or> \<not> dottedEndsOn (rr_qname i) auth")
    case True
    with Cons.prems obtain is2 where "reap_answers rs now auth lwr is tc = Some (is2, tc')" by (auto split: if_splits)
    from Cons.IH [OF this Cons.prems(2)] show ?thesis .
  next
    case False
    let ?i = "i\<lparr> rr_ttl := min (rs_maxcachettl rs) (rr_ttl i) \<rparr>"
    from False Cons.prems(1) obtain is2 where r: "reap_answers rs now auth lwr is (tcache_insert (rr_qname i, rr_qtype i) (cached_form now ?i) tc) = Some (is2, tc')"
      by (auto simp: Let_def split: if_splits)
    show ?thesis
    proof (rule Cons.IH [OF r], rule tcache_insert_gathered [where ttl = "rr_ttl ?i"])
      show "dottedEndsOn (fst (rr_qname i, rr_qtype i)) auth" using False by simp
      show "rr_place (cached_form now ?i) = ANSWER" "rr_ttl (cached_form now ?i) = rr_ttl ?i + word_of_int now"
        by (simp_all add: cached_form_def Let_def)
    qed (use Cons.prems(2) in simp_all)
  qed
qed simp

text \<open>
  Property C3. A reply from the servers of a zone changes nothing in the record cache outside that zone:
  whatever it holds, and also if storing it ends with an exception, what the cache has for a name that does
  not end on the name of the zone is as it was.
\<close>

theorem reply_within_bailiwick:
  assumes "store_reply rs auth lwr s = Some (r, s')" "\<not> dottedEndsOn name auth"
  shows "mi_find rentry_less (rc_key name qt) (mc_cache (ss_RC s')) = mi_find rentry_less (rc_key name qt) (mc_cache (ss_RC s))"
proof (cases "reap_answers rs (ss_now s) auth lwr (lw_result lwr) []")
  case None
  with assms(1) show ?thesis by (auto simp: store_reply_def withS_def bindS_def updateS_def returnS_def)
next
  case (Some p)
  obtain "is" tc where p: "p = (is, tc)" by fastforce
  have "\<forall>e \<in> set tc. gathered rs (ss_now s) auth e" using reap_gathered [of rs "ss_now s" auth lwr "lw_result lwr" "[]" "is" tc] Some p by simp
  then have "\<forall>((q, qt'), rrs) \<in> set tc. rentry_key (rc_key name qt) \<noteq> rentry_key (rc_key q qt')"
  proof (intro ballI, clarify)
    fix q qt' rrs
    assume "((q, qt'), rrs) \<in> set tc" "rentry_key (rc_key name qt) = rentry_key (rc_key q qt')"
    then have "dottedEndsOn q auth" "toLower name = toLower q"
      using \<open>\<forall>e \<in> set tc. gathered rs (ss_now s) auth e\<close> by (force simp: gathered_def, simp add: rentry_key_def rc_key_def)
    with assms(2) dottedEndsOn_case [of name q auth] show False by blast
  qed
  moreover obtain r2 where "supplant rs (lw_aabit lwr) tc s = Some (r2, s')"
    using assms(1) Some p by (auto simp: store_reply_def withS_def bindS_def returnS_def split: option.splits prod.splits sum.splits)
  ultimately show ?thesis by (rule supplant_elsewhere [rotated])
qed

lemma lowest_in: "fold (\<lambda>j t. min t (f j)) rrs t \<in> insert (t :: 'a :: linorder) (f ` set rrs)"
proof (induction rrs arbitrary: t)
  case (Cons rr rrs)
  have "min t (f rr) \<in> {t, f rr}" by (simp add: min_def)
  with Cons [of "min t (f rr)"] show ?case by (auto simp del: min_less_iff_conj)
qed simp

lemma lowest_start: "fold (\<lambda>j t. min t (f j)) rrs t \<le> (t :: 'a :: linorder)"
proof (induction rrs arbitrary: t)
  case (Cons rr rrs)
  have "fold (\<lambda>j t. min t (f j)) rrs (min t (f rr)) \<le> min t (f rr)" by (rule Cons)
  also have "\<dots> \<le> t" by (rule min.cobounded1)
  finally show ?case by simp
qed simp

lemma lowest_all: "j \<in> set rrs \<Longrightarrow> fold (\<lambda>j t. min t (f j)) rrs t \<le> (f j :: 'a :: linorder)"
proof (induction rrs arbitrary: t)
  case (Cons rr rrs)
  have "fold (\<lambda>j t. min t (f j)) rrs (min t (f rr)) \<le> f rr"
    using lowest_start min.cobounded2 by (rule order_trans)
  with Cons show ?case by auto
qed simp

lemma group_ttl_member: "rr \<in> set (group_ttl rrs) \<Longrightarrow> \<exists>j \<in> set rrs. rr_ttl rr = rr_ttl j"
proof -
  assume rr: "rr \<in> set (group_ttl rrs)"
  have "fold (\<lambda>j t. min t (rr_ttl j)) rrs 0xFFFFFFFF \<in> rr_ttl ` set rrs" if len: "1 < length rrs"
  proof (rule ccontr)
    assume n: "fold (\<lambda>j t. min t (rr_ttl j)) rrs 0xFFFFFFFF \<notin> rr_ttl ` set rrs"
    then have top: "fold (\<lambda>j t. min t (rr_ttl j)) rrs 0xFFFFFFFF = 0xFFFFFFFF"
      using lowest_in [of rr_ttl rrs "0xFFFFFFFF"] by blast
    obtain j where j: "j \<in> set rrs" using len by (cases rrs) auto
    have "rr_ttl j \<le> 0xFFFFFFFF" using uint_lt2p [of "rr_ttl j"] by (simp add: word_le_def)
    moreover have "0xFFFFFFFF \<le> rr_ttl j" using lowest_all [OF j, of rr_ttl "0xFFFFFFFF"] unfolding top .
    ultimately have "rr_ttl j = 0xFFFFFFFF" by (rule antisym)
    with n j top show False by force
  qed
  with rr show ?thesis by (auto simp: group_ttl_def Let_def split: if_splits)
qed

text \<open>
  Property C14. What a reply puts into the record cache expires at most \<open>max-cache-ttl\<close> seconds from now, whatever
  times it claims, and the records of a name and type expire together, with the earliest of them.
\<close>

theorem reply_time_bounded:
  assumes "reap_answers rs now auth lwr (lw_result lwr) [] = Some (is, tcache)" "(k, rrs) \<in> set tcache" "rr \<in> set (group_ttl rrs)"
  shows "(\<exists>ttl \<le> rs_maxcachettl rs. rr_ttl rr = ttl + word_of_int now) \<and>
    (\<forall>j \<in> set rrs. rr_ttl rr \<le> rr_ttl j) \<and> (\<forall>rr' \<in> set (group_ttl rrs). rr_ttl rr' = rr_ttl rr)"
proof (intro conjI)
  have "gathered rs now auth (k, rrs)" using reap_gathered [OF assms(1)] assms(2) by simp
  then show "\<exists>ttl \<le> rs_maxcachettl rs. rr_ttl rr = ttl + word_of_int now"
    using group_ttl_member [OF assms(3)] by (auto simp: gathered_def)
  show "\<forall>j \<in> set rrs. rr_ttl rr \<le> rr_ttl j"
  proof (cases "length rrs > 1")
    case True
    with assms(3) have "rr_ttl rr = fold (\<lambda>j t. min t (rr_ttl j)) rrs 0xFFFFFFFF" by (auto simp: group_ttl_def Let_def)
    with lowest_all [of _ rrs rr_ttl "0xFFFFFFFF"] show ?thesis by simp
  next
    case False
    with assms(3) show ?thesis by (cases rrs) (auto simp: group_ttl_def)
  qed
  show "\<forall>rr' \<in> set (group_ttl rrs). rr_ttl rr' = rr_ttl rr"
  proof (cases "length rrs > 1")
    case False
    with assms(3) show ?thesis by (cases rrs) (auto simp: group_ttl_def)
  qed (use assms(3) in \<open>auto simp: group_ttl_def Let_def\<close>)
qed

subsection \<open>Examples\<close>

lemma resolution_ends_witness:
  "beginResolve example_resolver 20 ''www.example.net.'' qt_A 1 [] example_state \<noteq> None \<and>
   beginResolve example_resolver 20 ''www.example.net.'' qt_A 1 [] example_state = beginResolve example_resolver 13 ''www.example.net.'' qt_A 1 [] example_state"
proof (rule resolution_ends)
  show "hints_end example_resolver" by (rule built_in_hints_end) (simp add: example_resolver_def)
qed simp

definition alias_at :: "string \<Rightarrow> DNSResourceRecord" where
  "alias_at name = (example_alias ''b.nl.'')\<lparr> rr_qname := name \<rparr>"

lemma reply_within_bailiwick_witness:
  "\<exists>r s'. store_reply example_resolver ''nl.'' (example_reply 0 [alias_at ''www.nl.'', alias_at ''www.bank.com.'']) example_state = Some (r, s') \<and>
     mi_find rentry_less (rc_key ''www.bank.com.'' qt_CNAME) (mc_cache (ss_RC s')) = None"
proof -
  let ?l = "example_reply 0 [alias_at ''www.nl.'', alias_at ''www.bank.com.'']"
  obtain r s' where r: "store_reply example_resolver ''nl.'' ?l example_state = Some (r, s')"
    using ends_store_reply [of example_resolver "''nl.''" ?l] unfolding ends_def by (metis not_None_eq surj_pair)
  have "\<not> dottedEndsOn ''www.bank.com.'' ''nl.''" by code_simp
  from reply_within_bailiwick [OF r this, of qt_CNAME]
  have "mi_find rentry_less (rc_key ''www.bank.com.'' qt_CNAME) (mc_cache (ss_RC s')) = None"
    by (simp add: example_state_def MemRecursorCache_init_def mi_find_def)
  with r show ?thesis by blast
qed

lemma reply_time_bounded_witness:
  "\<exists>ttl \<le> rs_maxcachettl example_resolver. rr_ttl ((alias_at ''www.nl.'')\<lparr> rr_ttl := 87400 \<rparr>) = ttl + word_of_int 1000"
proof -
  have "reap_answers example_resolver 1000 ''nl.'' (example_reply 0 [alias_at ''www.nl.'']) [alias_at ''www.nl.''] [] =
    Some ([(alias_at ''www.nl.'')\<lparr> rr_ttl := 86400 \<rparr>], [((''www.nl.'', qt_CNAME), [(alias_at ''www.nl.'')\<lparr> rr_ttl := 87400 \<rparr>])])"
    by code_simp
  then have "reap_answers example_resolver 1000 ''nl.'' (example_reply 0 [alias_at ''www.nl.'']) (lw_result (example_reply 0 [alias_at ''www.nl.''])) [] =
    Some ([(alias_at ''www.nl.'')\<lparr> rr_ttl := 86400 \<rparr>], [((''www.nl.'', qt_CNAME), [(alias_at ''www.nl.'')\<lparr> rr_ttl := 87400 \<rparr>])])"
    by (simp only: example_reply_def LWResult.select_convs)
  from reply_time_bounded [OF this, of "(''www.nl.'', qt_CNAME)" "[(alias_at ''www.nl.'')\<lparr> rr_ttl := 87400 \<rparr>]"]
  show ?thesis by (simp add: group_ttl_def)
qed

end
