(* ===== verification/DnssecSigner.thy ===== *)
theory DnssecSigner
  imports DnsPacket Base32 SyncRes
begin

text \<open>
  The state in which a question is answered, what the answer asks of backends and key keeper, and the
  signing of an answer: \<open>dnssecsigner.cc\<close>, \<open>serialtweaker.cc\<close> and parts of \<open>dnssecinfra.cc\<close>.
\<close>

subsection \<open>Backends and keys\<close>

record ZoneKey =
  zk_id :: nat
  zk_algorithm :: byte
  zk_active :: bool
  zk_keyOrZone :: bool
  zk_dnskey :: string

record rrsig_parts =
  sig_type :: u16
  sig_labels :: byte
  sig_originalttl :: u32
  sig_sigexpire :: u32
  sig_siginception :: u32
  sig_signer :: string

text \<open>
  The backends and the key keeper are parameters. Each call depends on how often they were asked before, as
  caches and databases change. A lookup gives the records that \<open>get\<close> delivers, and the exception it
  ends with, if it does. \<open>bk_sign\<close> makes the text of an RRSIG record, with a private key.
\<close>

record backends =
  bk_lookup :: "nat \<Rightarrow> QType \<Rightarrow> string \<Rightarrow> int \<Rightarrow> DNSResourceRecord list \<times> exn option"
  bk_getSOA :: "nat \<Rightarrow> string \<Rightarrow> SOAData \<Rightarrow> (bool \<times> SOAData) result"
  bk_names :: "nat \<Rightarrow> nat \<Rightarrow> int \<Rightarrow> string \<Rightarrow> string \<Rightarrow> string \<Rightarrow> string \<Rightarrow> (string \<times> string) result"
  bk_names_absolute :: "nat \<Rightarrow> nat \<Rightarrow> int \<Rightarrow> string \<Rightarrow> string \<Rightarrow> string \<Rightarrow> string \<Rightarrow> (bool \<times> string \<times> string \<times> string) result"
  bk_secured :: "nat \<Rightarrow> string \<Rightarrow> bool result"
  bk_presigned :: "nat \<Rightarrow> string \<Rightarrow> bool result"
  bk_nsec3 :: "nat \<Rightarrow> string \<Rightarrow> (NSEC3PARAMRecordContent \<times> bool) option result"
  bk_keys :: "nat \<Rightarrow> string \<Rightarrow> ZoneKey list result"
  bk_meta :: "nat \<Rightarrow> string \<Rightarrow> string \<Rightarrow> string result"
  bk_sign :: "nat \<Rightarrow> ZoneKey \<Rightarrow> string \<Rightarrow> rrsig_parts \<Rightarrow> content list \<Rightarrow> string result"
  bk_time :: "nat \<Rightarrow> int"
  bk_localtime :: "int \<Rightarrow> int \<times> int \<times> int"
  bk_asNum :: "string \<Rightarrow> int"

subsection \<open>The state of an answer\<close>

text \<open>What an answer causes elsewhere.\<close>

datatype ph_effect =
    TrySuperMaster DNSPacket
  | CreateSlaveDomain string string string
  | SuckRequest string string
  | SlaveCheck string "string list" ComboAddress
  | SendToRecursor DNSPacket
  | CacheInsert DNSPacket DNSPacket u32

record ph_state =
  ph_steps :: nat
  ph_r :: DNSPacket
  ph_out :: "ph_effect list"

type_synonym 'a ph = "ph_state \<Rightarrow> 'a result \<times> ph_state"

definition returnP :: "'a \<Rightarrow> 'a ph" where
  "returnP a = (\<lambda>s. (Inr a, s))"

definition liftP :: "'a result \<Rightarrow> 'a ph" where
  "liftP r = (\<lambda>s. (r, s))"

definition bindP :: "'a ph \<Rightarrow> ('a \<Rightarrow> 'b ph) \<Rightarrow> 'b ph" where
  "bindP m f = (\<lambda>s. case m s of (Inl e, s) \<Rightarrow> (Inl e, s) | (Inr a, s) \<Rightarrow> f a s)"

definition withP :: "(DNSPacket \<Rightarrow> 'a ph) \<Rightarrow> 'a ph" where
  "withP f = (\<lambda>s. f (ph_r s) s)"

definition updateP :: "(DNSPacket \<Rightarrow> DNSPacket) \<Rightarrow> unit ph" where
  "updateP f = (\<lambda>s. (Inr (), s\<lparr> ph_r := f (ph_r s) \<rparr>))"

definition outP :: "ph_effect \<Rightarrow> unit ph" where
  "outP e = (\<lambda>s. (Inr (), s\<lparr> ph_out := ph_out s @ [e] \<rparr>))"

definition askP :: "(nat \<Rightarrow> 'a result) \<Rightarrow> 'a ph" where
  "askP f = (\<lambda>s. (f (ph_steps s), s\<lparr> ph_steps := ph_steps s + 1 \<rparr>))"

definition addP :: "DNSResourceRecord \<Rightarrow> unit ph" where
  "addP rr = updateP (addRecord rr)"

fun foldP :: "('b \<Rightarrow> 'a \<Rightarrow> 'a ph) \<Rightarrow> 'b list \<Rightarrow> 'a \<Rightarrow> 'a ph" where
  "foldP f [] a = returnP a"
| "foldP f (x # xs) a = bindP (f x a) (foldP f xs)"

text \<open>A lookup with the loop over its records, and one that only gathers them.\<close>

definition lookup_each :: "backends \<Rightarrow> QType \<Rightarrow> string \<Rightarrow> int \<Rightarrow> (DNSResourceRecord \<Rightarrow> 'a \<Rightarrow> 'a ph) \<Rightarrow> 'a \<Rightarrow> 'a ph" where
  "lookup_each B qt qname zoneId body a =
     (\<lambda>s. case bk_lookup B (ph_steps s) qt qname zoneId of
            (rrs, e) \<Rightarrow> bindP (foldP body rrs a) (\<lambda>a. liftP (case e of None \<Rightarrow> Inr a | Some e \<Rightarrow> Inl e)) (s\<lparr> ph_steps := ph_steps s + 1 \<rparr>))"

definition lookup_all :: "backends \<Rightarrow> QType \<Rightarrow> string \<Rightarrow> int \<Rightarrow> DNSResourceRecord list ph" where
  "lookup_all B qt qname zoneId =
     askP (\<lambda>n. case bk_lookup B n qt qname zoneId of (rrs, None) \<Rightarrow> Inr rrs | (rrs, Some e) \<Rightarrow> Inl e)"

definition qt_DS :: QType where "qt_DS = 43"
definition qt_RRSIG :: QType where "qt_RRSIG = 46"
definition qt_NSEC :: QType where "qt_NSEC = 47"
definition qt_DNSKEY :: QType where "qt_DNSKEY = 48"
definition qt_NSEC3 :: QType where "qt_NSEC3 = 50"
definition qt_NSEC3PARAM :: QType where "qt_NSEC3PARAM = 51"

subsection \<open>Hashed names\<close>

definition countLabels :: "string \<Rightarrow> int" where
  "countLabels signQName =
     1 + int (length (filter (\<lambda>c. c = CHR ''.'') (butlast signQName))) - (if take 2 signQName = ''*.'' then 1 else 0)"

definition inception_of :: "u32 \<Rightarrow> u32" where
  "inception_of now = now - now mod (7 * 86400)"

definition getCurrentInception :: "backends \<Rightarrow> u32 ph" where
  "getCurrentInception B = askP (\<lambda>n. Inr (inception_of (word_of_int (bk_time B n))))"

text \<open>The hash function is a parameter; names are hashed once more than the number says.\<close>

fun hash_times :: "(string \<Rightarrow> string) \<Rightarrow> nat \<Rightarrow> string \<Rightarrow> string \<Rightarrow> string" where
  "hash_times sha1 0 salt toHash = sha1 toHash"
| "hash_times sha1 (Suc n) salt toHash = hash_times sha1 n salt (sha1 toHash @ salt)"

definition hashQNameWithSalt :: "(string \<Rightarrow> string) \<Rightarrow> nat \<Rightarrow> string \<Rightarrow> string \<Rightarrow> string" where
  "hashQNameWithSalt sha1 iterations salt qname = hash_times sha1 iterations salt (simpleCompress (toLower qname) [] @ salt)"

subsection \<open>Signing\<close>

definition key_loop :: "bool \<Rightarrow> ZoneKey \<Rightarrow> ZoneKey list \<times> ZoneKey list \<Rightarrow> ZoneKey list \<times> ZoneKey list" where
  "key_loop ksk key = (\<lambda>(KSKs, ZSKs).
     if \<not> zk_active key then (KSKs, ZSKs)
     else if zk_keyOrZone key then (KSKs @ [key], ZSKs)
     else if \<not> ksk then (KSKs, ZSKs @ [key])
     else (KSKs, ZSKs))"

definition signing_keys :: "bool \<Rightarrow> ZoneKey list \<Rightarrow> ZoneKey list" where
  "signing_keys ksk keys =
     (let (KSKs, ZSKs) = fold (key_loop ksk) keys ([], []) in if ksk then KSKs else if ZSKs = [] then KSKs else ZSKs)"

text \<open>The texts of the signatures; nothing for -1.\<close>

definition getRRSIGsForRRSET :: "backends \<Rightarrow> string \<Rightarrow> string \<Rightarrow> u16 \<Rightarrow> u32 \<Rightarrow> content list \<Rightarrow> bool \<Rightarrow> string list option ph" where
  "getRRSIGsForRRSET B signer signQName signQType signTTL toSign ksk =
     (if toSign = [] then returnP None
      else bindP (getCurrentInception B) (\<lambda>inception.
        let rrc = \<lparr> sig_type = signQType, sig_labels = word_of_int (countLabels signQName), sig_originalttl = signTTL,
              sig_sigexpire = inception + 14 * 86400, sig_siginception = inception, sig_signer = toLower signer \<rparr>
        in bindP (askP (\<lambda>n. bk_keys B n (toLower signer))) (\<lambda>keys.
           bindP (foldP (\<lambda>key rrcs. bindP (askP (\<lambda>n. bk_sign B n key signQName rrc toSign)) (\<lambda>text. returnP (rrcs @ [text])))
             (signing_keys ksk keys) []) (\<lambda>rrcs. returnP (Some rrcs)))))"

definition getPreRRSIGs :: "backends \<Rightarrow> string \<Rightarrow> QType \<Rightarrow> Place \<Rightarrow> DNSResourceRecord list \<Rightarrow> DNSResourceRecord list ph" where
  "getPreRRSIGs B qname qtype signPlace rrsigs =
     bindP (lookup_all B qt_RRSIG qname (-1)) (\<lambda>rrs.
       returnP (rrsigs @ map (\<lambda>rr. rr\<lparr> rr_place := signPlace \<rparr>)
         (filter (\<lambda>rr. take (length (QType_getName qtype @ '' '')) (rr_content rr) = QType_getName qtype @ '' '') rrs)))"

text \<open>Signing one set of records; the sets left to sign and signed afterwards. \<open>mem\<close> is the domain id left unset.\<close>

definition addSignature :: "backends \<Rightarrow> int \<Rightarrow> string \<Rightarrow> string \<Rightarrow> string \<Rightarrow> u16 \<Rightarrow> u32 \<Rightarrow> Place \<Rightarrow> content list \<Rightarrow> DNSResourceRecord list \<Rightarrow>
    (content list \<times> DNSResourceRecord list) ph" where
  "addSignature B mem signer signQName wildcardname signQType signTTL signPlace toSign outsigned =
     (if toSign = [] then returnP (toSign, outsigned)
      else bindP (askP (\<lambda>n. bk_presigned B n signer)) (\<lambda>presigned.
        if presigned then bindP (getPreRRSIGs B signQName signQType signPlace outsigned) (\<lambda>outsigned. returnP ([], outsigned))
        else bindP (getRRSIGsForRRSET B signer (if wildcardname = [] then signQName else wildcardname) signQType signTTL toSign (signQType = qt_DNSKEY))
          (\<lambda>rrcs. case rrcs of
             None \<Rightarrow> returnP (toSign, outsigned)
           | Some sigs \<Rightarrow>
               let rr = (DNSResourceRecord_init qt_RRSIG signTTL mem)\<lparr> rr_qname := signQName, rr_auth := False, rr_place := signPlace \<rparr>
               in returnP ([], outsigned @ map (\<lambda>text. rr\<lparr> rr_content := text \<rparr>) sigs))))"

function name_parents :: "string \<Rightarrow> string list" where
  "name_parents domain = (if fst (chopOff domain) then snd (chopOff domain) # name_parents (snd (chopOff domain)) else [])"
  by auto
termination
proof (relation "measure length")
  fix domain :: string
  assume "fst (chopOff domain)"
  then show "(snd (chopOff domain), domain) \<in> measure length"
    by (cases domain) (auto simp: chopOff_def split: if_splits option.splits)
qed simp

declare name_parents.simps [simp del]

definition getBestAuthFromSet :: "string list \<Rightarrow> string \<Rightarrow> string option" where
  "getBestAuthFromSet authSet name = find (\<lambda>sname. \<exists>a \<in> set authSet. pdns_iequals a sname) (name # name_parents name)"

text \<open>A record as it is signed; the text of a record, as it is when the packet is written.\<close>

definition sign_content :: "registry \<Rightarrow> env \<Rightarrow> DNSResourceRecord \<Rightarrow> content result" where
  "sign_content reg e rr =
     (let content = (if rr_qtype rr = qt_MX \<or> rr_qtype rr = qt_SRV then show_nat (unat (rr_priority rr)) @ '' '' @ rr_content rr else rr_content rr);
          content = (if rr_content rr \<noteq> [] \<and> rr_qtype rr = qt_TXT \<and> hd (rr_content rr) \<noteq> CHR 0x22 then [CHR 0x22] @ rr_content rr @ [CHR 0x22] else content);
          content = (if rr_content rr = [] then ''.'' else content)
      in mastermake_text reg e (rr_qtype rr) 1 content)"

record sign_state =
  sn_qname :: string
  sn_wildcard :: string
  sn_qtype :: u16
  sn_ttl :: u32
  sn_place :: Place
  sn_toSign :: "content list"
  sn_signed :: "DNSResourceRecord list"

definition sign_group :: "backends \<Rightarrow> int \<Rightarrow> string list \<Rightarrow> sign_state \<Rightarrow> sign_state ph" where
  "sign_group B mem authSet st =
     (case getBestAuthFromSet authSet (sn_qname st) of
        None \<Rightarrow> returnP st
      | Some signer \<Rightarrow>
          bindP (addSignature B mem signer (sn_qname st) (sn_wildcard st) (sn_qtype st) (sn_ttl st) (sn_place st) (sn_toSign st) (sn_signed st))
            (\<lambda>(toSign, signed). returnP (st\<lparr> sn_toSign := toSign, sn_signed := signed \<rparr>)))"

fun sign_records :: "backends \<Rightarrow> int \<Rightarrow> registry \<Rightarrow> env \<Rightarrow> string list \<Rightarrow> bool \<Rightarrow> DNSResourceRecord list \<Rightarrow> sign_state \<Rightarrow> sign_state ph" where
  "sign_records B mem reg e authSet first [] st = sign_group B mem authSet st"
| "sign_records B mem reg e authSet first (pos # rrs) st =
     bindP (if \<not> first \<and> (sn_qtype st \<noteq> rr_qtype pos \<or> sn_qname st \<noteq> rr_qname pos) then sign_group B mem authSet st else returnP st) (\<lambda>st.
       let st = st\<lparr> sn_signed := sn_signed st @ [pos], sn_qname := rr_qname pos, sn_wildcard := rr_wildcardname pos, sn_qtype := rr_qtype pos,
                    sn_ttl := rr_ttl pos, sn_place := rr_place pos \<rparr>
       in if rr_auth pos \<or> rr_qtype pos = qt_DS then
            bindP (liftP (sign_content reg e pos)) (\<lambda>drc.
              sign_records B mem reg e authSet False rrs (st\<lparr> sn_toSign := sn_toSign st @ [drc] \<rparr>))
          else sign_records B mem reg e authSet False rrs st)"

definition addRRSigs :: "backends \<Rightarrow> int \<Rightarrow> registry \<Rightarrow> env \<Rightarrow> string list \<Rightarrow> unit ph" where
  "addRRSigs B mem reg e authSet =
     bindP (updateP (\<lambda>r. r\<lparr> dp_rrs := sort_key (\<lambda>rr. (Place_num (rr_place rr), rr_qtype rr)) (dp_rrs r) \<rparr>)) (\<lambda>_.
     withP (\<lambda>r. bindP (sign_records B mem reg e authSet True (dp_rrs r)
         \<lparr> sn_qname = [], sn_wildcard = [], sn_qtype = 0, sn_ttl = 0, sn_place = ANSWER, sn_toSign = [], sn_signed = [] \<rparr>)
       (\<lambda>st. updateP (\<lambda>r. r\<lparr> dp_rrs := sn_signed st \<rparr>))))"

subsection \<open>Serial numbers\<close>

text \<open>The serial a kind of editing gives; \<open>local\<close> is the date of the inception.\<close>

definition edited_serial :: "string \<Rightarrow> u32 \<Rightarrow> int \<Rightarrow> int \<times> int \<times> int \<Rightarrow> u32 \<Rightarrow> u32" where
  "edited_serial kind inception now date serial =
     (let (year, mon, mday) = date
      in if pdns_iequals kind ''INCEPTION'' then word_of_int ((((year + 1900) * 100 + (mon + 1)) * 100 + mday) * 100 + 1)
         else if pdns_iequals kind ''INCEPTION-WEEK'' then inception div (7 * 86400)
         else if pdns_iequals kind ''INCREMENT-WEEKS'' then serial + inception div (7 * 86400)
         else if pdns_iequals kind ''EPOCH'' then word_of_int now
         else if pdns_iequals kind ''INCEPTION-EPOCH'' then (if serial < inception then inception else serial)
         else serial)"

text \<open>The first SOA record of the zone is edited; \<open>sd\<close> is what the memory of the local \<open>SOAData\<close> holds.\<close>

fun edit_first :: "(DNSResourceRecord \<Rightarrow> bool) \<Rightarrow> (DNSResourceRecord \<Rightarrow> DNSResourceRecord) \<Rightarrow> DNSResourceRecord list \<Rightarrow> DNSResourceRecord list" where
  "edit_first P f [] = []"
| "edit_first P f (rr # rrs) = (if P rr then f rr # rrs else rr # edit_first P f rrs)"

definition editSOA :: "backends \<Rightarrow> SOAData \<Rightarrow> string \<Rightarrow> bool ph" where
  "editSOA B mem qname =
     (let is_soa = (\<lambda>rr. rr_qtype rr = qt_SOA \<and> pdns_iequals (rr_qname rr) qname)
      in withP (\<lambda>r. case find is_soa (dp_rrs r) of
           None \<Rightarrow> returnP False
         | Some rr \<Rightarrow>
             bindP (askP (\<lambda>n. bk_meta B n qname ''SOA-EDIT'')) (\<lambda>kind.
             if kind = [] then returnP False
             else bindP (getCurrentInception B) (\<lambda>inception.
               bindP (askP (\<lambda>n. Inr (bk_time B n))) (\<lambda>now.
               let sd = fillSOAData (bk_asNum B) (rr_content rr) (mem\<lparr> soa_qname := [], soa_nameserver := [], soa_hostmaster := [] \<rparr>);
                   sd = sd\<lparr> soa_serial := edited_serial kind inception now (bk_localtime B (uint inception)) (soa_serial sd) \<rparr>
               in bindP (updateP (\<lambda>r. r\<lparr> dp_rrs := edit_first is_soa (\<lambda>rr. rr\<lparr> rr_content := serializeSOAData sd \<rparr>) (dp_rrs r) \<rparr>)) (\<lambda>_. returnP True))))))"

end
