(* ===== verification/PacketHandler.thy ===== *)
theory PacketHandler
  imports DnssecSigner
begin

text \<open>
  Answering a question with authority: class \<open>PacketHandler\<close> of \<open>packethandler.cc\<close>. The settings, the
  backends, the key keeper, the hash function and unset memory are parameters; statistics and logging are left out.
\<close>

definition qt_IXFR :: QType where "qt_IXFR = 251"
definition qt_URL :: QType where "qt_URL = 256"
definition qt_MBOXFW :: QType where "qt_MBOXFW = 257"
definition qt_CURL :: QType where "qt_CURL = 258"
definition rcode_NotAuth :: int where "rcode_NotAuth = 9"

record handler_env =
  he_B :: backends
  he_wrap :: wrap_env
  he_packet_mem :: DNSPacket
  he_soa_mem :: SOAData
  he_domain_mem :: int
  he_ttl_mem :: u32
  he_sha1 :: "string \<Rightarrow> string"
  he_lib :: addr_lib
  he_fancy :: bool
  he_recursion :: bool
  he_recurseFor :: "ComboAddress \<Rightarrow> bool result"
  he_ipv6 :: bool
  he_version_mode :: string
  he_version :: string
  he_send_root :: bool
  he_root_referral :: string
  he_out_of_zone :: string
  he_urlredirector :: string
  he_smtpredirector :: string
  he_wildcard_url :: bool
  he_slave :: bool
  he_trusted :: string
  he_what :: string
  he_md5_mem :: "byte list \<times> byte list"
  he_tsig_time :: u64
  he_tsig_key :: "string \<Rightarrow> string \<Rightarrow> (string \<times> string) option"
  he_tsig_mem :: TSIGRecordContent
  he_writer_mem :: DNSPacketWriter
  he_domain_info :: "nat \<Rightarrow> string \<Rightarrow> string list option result"
  he_is_master :: "nat \<Rightarrow> string \<Rightarrow> string \<Rightarrow> bool result"
  he_master_ns :: "nat \<Rightarrow> string \<Rightarrow> string \<Rightarrow> DNSResourceRecord list option result"
  he_super_master :: "nat \<Rightarrow> string \<Rightarrow> string \<Rightarrow> DNSResourceRecord list \<Rightarrow> string option result"

definition he_reg :: "handler_env \<Rightarrow> registry" where
  "he_reg he = we_registry (he_wrap he)"

definition he_env :: "handler_env \<Rightarrow> env" where
  "he_env he = we_env (he_wrap he)"

text \<open>A local record and a local \<open>SOAData\<close>, with what their constructors leave unset.\<close>

definition new_rr :: "handler_env \<Rightarrow> DNSResourceRecord" where
  "new_rr he = DNSResourceRecord_init 0 (he_ttl_mem he) (he_domain_mem he)"

definition new_soa :: "handler_env \<Rightarrow> nat option \<Rightarrow> SOAData" where
  "new_soa he db = (he_soa_mem he)\<lparr> soa_qname := [], soa_nameserver := [], soa_hostmaster := [], soa_db := db \<rparr>"

text \<open>
  The pointer \<open>db\<close>: \<open>None\<close> is null, \<open>Some 0\<close> the mark -1 that asks for an uncached answer, and
  \<open>Some (n + 1)\<close> the backend \<open>n\<close>.
\<close>

definition uncached :: "nat option" where "uncached = Some 0"

definition with_db :: "SOAData \<Rightarrow> (nat \<Rightarrow> 'a ph) \<Rightarrow> 'a ph" where
  "with_db sd f = (case soa_db sd of Some (Suc n) \<Rightarrow> f n | _ \<Rightarrow> liftP (Inl UndefinedBehaviour))"

definition getSOA :: "handler_env \<Rightarrow> string \<Rightarrow> SOAData \<Rightarrow> (bool \<times> SOAData) ph" where
  "getSOA he domain sd = askP (\<lambda>n. bk_getSOA (he_B he) n domain sd)"

definition isSecured :: "handler_env \<Rightarrow> string \<Rightarrow> bool ph" where
  "isSecured he zone = askP (\<lambda>n. bk_secured (he_B he) n zone)"

definition nsec3_setting :: "handler_env \<Rightarrow> string \<Rightarrow> (NSEC3PARAMRecordContent \<times> bool) option ph" where
  "nsec3_setting he zone = askP (\<lambda>n. bk_nsec3 (he_B he) n zone)"

subsection \<open>The root\<close>

definition root_addresses :: "string list" where
  "root_addresses = [''198.41.0.4'', ''192.228.79.201'', ''192.33.4.12'', ''128.8.10.90'', ''192.203.230.10'', ''192.5.5.241'', ''192.112.36.4'',
     ''128.63.2.53'', ''192.36.148.17'', ''192.58.128.30'', ''193.0.14.129'', ''198.32.64.12'', ''202.12.27.33'']"

definition root_names :: "string list" where
  "root_names = map (\<lambda>c. c # ''.root-servers.net'') ''abcdefghijklm''"

definition addRootReferral :: "handler_env \<Rightarrow> unit ph" where
  "addRootReferral he =
     (let rr = (new_rr he)\<lparr> rr_qtype := qt_NS, rr_ttl := 518400, rr_place := AUTHORITY \<rparr>
      in bindP (foldP (\<lambda>name _. addP (rr\<lparr> rr_content := name \<rparr>)) root_names ()) (\<lambda>_.
         if pdns_iequals (he_root_referral he) ''lean'' then returnP ()
         else foldP (\<lambda>(name, ip) _. addP (rr\<lparr> rr_ttl := 3600000, rr_qtype := qt_A, rr_place := ADDITIONAL, rr_qname := name, rr_content := ip \<rparr>))
                (zip root_names root_addresses) ()))"

subsection \<open>Authority\<close>

text \<open>The zones that could hold a name, from the closest; a question for DS is not answered from the apex.\<close>

fun auth_levels :: "handler_env \<Rightarrow> DNSPacket \<Rightarrow> string \<Rightarrow> string list \<Rightarrow> SOAData \<Rightarrow> (bool \<times> SOAData) ph" where
  "auth_levels he p target [] sd = returnP (False, sd)"
| "auth_levels he p target (subdomain # parents) sd =
     bindP (getSOA he subdomain sd) (\<lambda>(found, sd).
       if found \<and> \<not> (dp_qtype p = qt_DS \<and> pdns_iequals subdomain target) then returnP (True, sd\<lparr> soa_qname := subdomain \<rparr>)
       else auth_levels he p target parents sd)"

definition getAuth :: "handler_env \<Rightarrow> DNSPacket \<Rightarrow> string \<Rightarrow> SOAData \<Rightarrow> (bool \<times> SOAData) ph" where
  "getAuth he p target sd = auth_levels he p target (target # name_parents target) sd"

fun referral_levels :: "handler_env \<Rightarrow> SOAData \<Rightarrow> string list \<Rightarrow> DNSResourceRecord list ph" where
  "referral_levels he sd [] = returnP []"
| "referral_levels he sd (subdomain # parents) =
     (if subdomain = soa_qname sd then returnP []
      else bindP (lookup_all (he_B he) qt_NS subdomain (soa_domain_id sd)) (\<lambda>ret.
        if ret \<noteq> [] then returnP ret else referral_levels he sd parents))"

definition getBestReferralNS :: "handler_env \<Rightarrow> SOAData \<Rightarrow> string \<Rightarrow> DNSResourceRecord list ph" where
  "getBestReferralNS he sd target = referral_levels he sd (target # name_parents target)"

text \<open>The records of the closest wildcard that are of use; nothing if there is none.\<close>

fun wildcard_levels :: "handler_env \<Rightarrow> DNSPacket \<Rightarrow> SOAData \<Rightarrow> string list \<Rightarrow> DNSResourceRecord list option ph" where
  "wildcard_levels he p sd [] = returnP None"
| "wildcard_levels he p sd (subdomain # parents) =
     bindP (lookup_all (he_B he) qt_ANY (''*.'' @ subdomain) (soa_domain_id sd)) (\<lambda>rrs.
       if rrs \<noteq> [] then returnP (Some (filter (\<lambda>rr. rr_qtype rr = dp_qtype p \<or> rr_qtype rr = qt_CNAME \<or> dp_qtype p = qt_ANY) rrs))
       else if subdomain = soa_qname sd then returnP None
       else wildcard_levels he p sd parents)"

definition getBestWildcard :: "handler_env \<Rightarrow> DNSPacket \<Rightarrow> SOAData \<Rightarrow> string \<Rightarrow> DNSResourceRecord list option ph" where
  "getBestWildcard he p sd target = wildcard_levels he p sd (name_parents target)"

subsection \<open>Fancy records\<close>

definition findMboxFW :: "handler_env \<Rightarrow> DNSPacket \<Rightarrow> string \<Rightarrow> bool ph" where
  "findMboxFW he p target =
     bindP (getAuth he p target (he_soa_mem he)) (\<lambda>(found, sd).
       if \<not> found then returnP False
       else bindP (lookup_all (he_B he) qt_MBOXFW (''%@'' @ target) (soa_domain_id sd)) (\<lambda>rrs.
         if rrs = [] then returnP False
         else bindP (updateP clearRecords) (\<lambda>_.
              bindP (addP ((last rrs)\<lparr> rr_content := he_smtpredirector he, rr_priority := 25, rr_ttl := 7200, rr_qtype := qt_MX, rr_qname := target \<rparr>)) (\<lambda>_.
                returnP True))))"

definition redirect_each :: "handler_env \<Rightarrow> string \<Rightarrow> (DNSResourceRecord \<Rightarrow> DNSResourceRecord) \<Rightarrow> DNSResourceRecord \<Rightarrow> bool \<Rightarrow> bool ph" where
  "redirect_each he target f rr found =
     bindP (if found then returnP () else updateP clearRecords) (\<lambda>_.
     bindP (addP (f (rr\<lparr> rr_content := he_urlredirector he, rr_qtype := qt_A, rr_qname := target \<rparr>))) (\<lambda>_. returnP True))"

definition findUrl :: "handler_env \<Rightarrow> string \<Rightarrow> bool ph" where
  "findUrl he target =
     bindP (lookup_each (he_B he) qt_URL target (-1) (redirect_each he target (\<lambda>rr. rr)) False) (\<lambda>found.
       if found then returnP True
       else lookup_each (he_B he) qt_CURL target (-1) (redirect_each he target (\<lambda>rr. rr\<lparr> rr_ttl := 300 \<rparr>)) False)"

definition doFancyRecords :: "handler_env \<Rightarrow> DNSPacket \<Rightarrow> string \<Rightarrow> bool ph" where
  "doFancyRecords he p target =
     (if dp_qtype p = qt_MX then findMboxFW he p target
      else if dp_qtype p = qt_A then findUrl he target
      else returnP False)"

text \<open>One record of a wildcard; the state tells of records found, of a new target, and has the target.\<close>

definition wildcard_each :: "handler_env \<Rightarrow> DNSPacket \<Rightarrow> DNSResourceRecord \<Rightarrow> bool \<times> bool \<times> string \<Rightarrow> (bool \<times> bool \<times> string) ph" where
  "wildcard_each he p rr = (\<lambda>(found, retargeted, target).
     if retargeted then returnP (found, retargeted, target)
     else if dp_qtype p = qt_ANY \<or> rr_qtype rr = dp_qtype p \<or> rr_qtype rr = qt_CNAME then
       let rr = rr\<lparr> rr_qname := target \<rparr>;
           rr = (if he_fancy he \<and> dp_qtype p = qt_ANY \<and> (rr_qtype rr = qt_URL \<or> rr_qtype rr = qt_CURL)
                 then rr\<lparr> rr_content := he_urlredirector he, rr_qtype := qt_A \<rparr> else rr)
       in bindP (addP rr) (\<lambda>_.
          if rr_qtype rr = qt_CNAME then
            (if target = rr_content rr then bindP (updateP (setRcode rcode_ServFail)) (\<lambda>_. returnP (True, retargeted, target))
             else returnP (True, True, rr_content rr))
          else returnP (True, retargeted, target))
     else if he_fancy he \<and> he_wildcard_url he \<and> dp_qtype p = qt_A \<and> QType_getName (rr_qtype rr) = ''URL'' then
       bindP (addP (rr\<lparr> rr_content := he_urlredirector he, rr_qtype := qt_A, rr_qname := target \<rparr>)) (\<lambda>_. returnP (True, retargeted, target))
     else returnP (True, retargeted, target))"

fun wildcard_records :: "handler_env \<Rightarrow> DNSPacket \<Rightarrow> string list \<Rightarrow> string \<Rightarrow> (nat \<times> string) ph" where
  "wildcard_records he p [] target = returnP (0, target)"
| "wildcard_records he p (subdomain # parents) target =
     bindP (lookup_each (he_B he) qt_ANY (''*.'' @ subdomain) (-1) (wildcard_each he p) (False, False, target)) (\<lambda>(found, retargeted, target).
       if found then returnP (if retargeted then 2 else 1, target) else wildcard_records he p parents target)"

text \<open>The loop goes on as long as there is a dot, so not for what is left without one.\<close>

definition doWildcardRecords :: "handler_env \<Rightarrow> DNSPacket \<Rightarrow> string \<Rightarrow> (nat \<times> string) ph" where
  "doWildcardRecords he p target =
     wildcard_records he p (map snd (filter (\<lambda>(s, parent). CHR ''.'' \<in> set s) (zip (target # name_parents target) (name_parents target)))) target"


subsection \<open>Requests with an answer of their own\<close>

definition dnskey_record :: "handler_env \<Rightarrow> DNSPacket \<Rightarrow> SOAData \<Rightarrow> ZoneKey \<Rightarrow> DNSResourceRecord" where
  "dnskey_record he p sd key =
     (new_rr he)\<lparr> rr_qtype := qt_DNSKEY, rr_ttl := soa_default_ttl sd, rr_qname := dp_qdomain p, rr_content := zk_dnskey key, rr_auth := True \<rparr>"

definition add_keys :: "handler_env \<Rightarrow> DNSPacket \<Rightarrow> SOAData \<Rightarrow> bool ph" where
  "add_keys he p sd =
     bindP (askP (\<lambda>n. bk_keys (he_B he) n (dp_qdomain p))) (\<lambda>keyset.
       foldP (\<lambda>key haveOne. bindP (addP (dnskey_record he p sd key)) (\<lambda>_. returnP True)) keyset False)"

definition doDNSKEYRequest :: "handler_env \<Rightarrow> DNSPacket \<Rightarrow> SOAData \<Rightarrow> bool ph" where
  "doDNSKEYRequest he p sd = (if dp_qtype p \<noteq> qt_DNSKEY then returnP False else add_keys he p sd)"

definition doNSEC3PARAMRequest :: "handler_env \<Rightarrow> DNSPacket \<Rightarrow> SOAData \<Rightarrow> bool ph" where
  "doNSEC3PARAMRequest he p sd =
     (if dp_qtype p \<noteq> qt_NSEC3PARAM then returnP False
      else bindP (nsec3_setting he (dp_qdomain p)) (\<lambda>setting. case setting of
             None \<Rightarrow> returnP False
           | Some (ns3prc, narrow) \<Rightarrow>
               bindP (addP ((new_rr he)\<lparr> rr_qtype := qt_NSEC3PARAM, rr_ttl := soa_default_ttl sd, rr_qname := dp_qdomain p,
                   rr_content := NSEC3PARAM_getZoneRepresentation (ns3prc\<lparr> param_flags := 0 \<rparr>), rr_auth := True \<rparr>)) (\<lambda>_. returnP True)))"

definition doVersionRequest :: "handler_env \<Rightarrow> DNSPacket \<Rightarrow> string \<Rightarrow> bool ph" where
  "doVersionRequest he p target =
     (let mode = he_version_mode he;
          answer = (\<lambda>content. bindP (addP ((new_rr he)\<lparr> rr_content := content, rr_ttl := 5, rr_qname := target, rr_qtype := qt_TXT, rr_qclass := 3 \<rparr>))
                                    (\<lambda>_. returnP True))
      in if dp_qclass p = 3 \<and> dp_qtype p = qt_TXT \<and> target = ''version.bind'' then
           (if mode = [] \<or> mode = ''full'' then answer (''Served by POWERDNS '' @ he_version he @ '' $Id$'')
            else if mode = ''anonymous'' then bindP (updateP (setRcode rcode_ServFail)) (\<lambda>_. returnP True)
            else if mode = ''powerdns'' then answer ''Served by PowerDNS - http://www.powerdns.com''
            else answer mode)
         else returnP False)"

subsection \<open>Additional records\<close>

definition additional_each :: "handler_env \<Rightarrow> SOAData \<Rightarrow> DNSResourceRecord \<Rightarrow> DNSResourceRecord \<Rightarrow> unit \<Rightarrow> unit ph" where
  "additional_each he soadata i rr _ =
     (if rr_domain_id rr \<noteq> rr_domain_id i \<and> he_out_of_zone he = ''no'' then returnP ()
      else addP (rr\<lparr> rr_auth := rr_auth rr \<and> endsOn (rr_qname rr) (soa_qname soadata), rr_place := ADDITIONAL \<rparr>))"

definition additional_name :: "DNSResourceRecord \<Rightarrow> string option" where
  "additional_name i =
     (if rr_qtype i = qt_SRV
      then let parts = stringtok (rr_content i) default_delims in if length parts \<ge> 3 then Some (parts ! 2) else None
      else Some (rr_content i))"

definition additional_for :: "handler_env \<Rightarrow> DNSPacket \<Rightarrow> SOAData \<Rightarrow> DNSResourceRecord \<Rightarrow> SOAData \<Rightarrow> SOAData ph" where
  "additional_for he p soadata i sd =
     withP (\<lambda>r.
     bindP (if hdr_aa (dp_d r) \<and> rr_qname i \<noteq> [] \<and> rr_qtype i = qt_NS
            then bindP (getSOA he (rr_qname i) sd) (\<lambda>(found, sd).
                   if found then returnP sd else bindP (updateP (setA False)) (\<lambda>_. returnP sd))
            else returnP sd) (\<lambda>sd.
     bindP (foldP (\<lambda>qtype _. case additional_name i of
                None \<Rightarrow> returnP ()
              | Some name \<Rightarrow> lookup_each (he_B he) qtype name (-1) (additional_each he soadata i) ())
              (if he_ipv6 he then [qt_A, qt_AAAA] else [qt_A]) ()) (\<lambda>_. returnP sd)))"

definition doAdditionalProcessingAndDropAA :: "handler_env \<Rightarrow> DNSPacket \<Rightarrow> SOAData \<Rightarrow> unit ph" where
  "doAdditionalProcessingAndDropAA he p soadata =
     (if dp_qtype p = qt_AXFR then returnP ()
      else withP (\<lambda>r. bindP (foldP (additional_for he p soadata) (getAPRecords r) (new_soa he None)) (\<lambda>_. returnP ())))"

subsection \<open>Notifications\<close>

definition arg_contains :: "string \<Rightarrow> string \<Rightarrow> bool" where
  "arg_contains setting val \<longleftrightarrow>
     setting \<noteq> [] \<and> val \<in> set (stringtok setting (\<lambda>c. c = CHR '','' \<or> c = CHR '' '' \<or> c = CHR 0x09))"

definition getRemote :: "handler_env \<Rightarrow> DNSPacket \<Rightarrow> string" where
  "getRemote he p = al_nameinfo (he_lib he) (dp_remote p)"

definition trySuperMasterSynchronous :: "handler_env \<Rightarrow> DNSPacket \<Rightarrow> int ph" where
  "trySuperMasterSynchronous he p =
     bindP (askP (\<lambda>n. he_master_ns he n (getRemote he p) (dp_qdomain p))) (\<lambda>answer. case answer of
       None \<Rightarrow> returnP rcode_ServFail
     | Some nsset \<Rightarrow>
         bindP (askP (\<lambda>n. he_super_master he n (getRemote he p) (dp_qdomain p) nsset)) (\<lambda>backend. case backend of
           None \<Rightarrow> returnP rcode_Refused
         | Some account \<Rightarrow>
             bindP (outP (CreateSlaveDomain (getRemote he p) (dp_qdomain p) account)) (\<lambda>_.
             bindP (outP (SuckRequest (dp_qdomain p) (getRemote he p))) (\<lambda>_. returnP rcode_NoError))))"

definition trySuperMaster :: "handler_env \<Rightarrow> DNSPacket \<Rightarrow> int ph" where
  "trySuperMaster he p =
     (if dp_tcp p then trySuperMasterSynchronous he p else bindP (outP (TrySuperMaster p)) (\<lambda>_. returnP 0))"

definition processNotify :: "handler_env \<Rightarrow> DNSPacket \<Rightarrow> int ph" where
  "processNotify he p =
     (if \<not> he_slave he then returnP rcode_NotImp
      else bindP (askP (\<lambda>n. he_domain_info he n (dp_qdomain p))) (\<lambda>di. case di of
        None \<Rightarrow> trySuperMaster he p
      | Some masters \<Rightarrow>
          let check = bindP (outP (SlaveCheck (dp_qdomain p) masters (dp_remote p))) (\<lambda>_. returnP 0)
          in if arg_contains (he_trusted he) (getRemote he p)
             then (if masters = [] then returnP rcode_Refused else check)
             else bindP (askP (\<lambda>n. he_is_master he n (dp_qdomain p) (getRemote he p))) (\<lambda>master.
                    if \<not> master then returnP rcode_Refused else check)))"

definition validDNSName :: "string \<Rightarrow> bool" where
  "validDNSName name \<longleftrightarrow>
     (\<forall>c \<in> set name. (97 \<le> ucode c \<and> ucode c \<le> 122) \<or> (65 \<le> ucode c \<and> ucode c \<le> 90) \<or> (48 \<le> ucode c \<and> ucode c \<le> 57)
        \<or> c \<in> set ''-_*./@ '' \<or> c = CHR 0x5C)"

end
