(* ===== verification/Denial.thy ===== *)
theory Denial
  imports PacketHandler
begin

text \<open>
  Proofs that a name or type does not exist, and the records of an answer that come with them: the NSEC and
  NSEC3 records, referrals, wildcards and explicit RRSIG questions of \<open>packethandler.cc\<close>.
\<close>

subsection \<open>Hashes\<close>

fun add_byte :: "byte \<Rightarrow> byte \<Rightarrow> string \<Rightarrow> string" where
  "add_byte delta stop [] = []"
| "add_byte delta stop (c # raw) = (let c = c2b c + delta in if c = stop then b2c c # add_byte delta stop raw else b2c c # raw)"

text \<open>From the last byte on, as long as there is a carry.\<close>

definition incrementHash :: "string \<Rightarrow> string" where
  "incrementHash raw = rev (add_byte 1 0 (rev raw))"

definition decrementHash :: "string \<Rightarrow> string" where
  "decrementHash raw = rev (add_byte (- 1) 255 (rev raw))"

text \<open>The names before and after, and the name that is hashed.\<close>

definition getNSEC3Hashes :: "handler_env \<Rightarrow> bool \<Rightarrow> SOAData \<Rightarrow> string \<Rightarrow> bool \<Rightarrow> string \<times> string \<times> string \<Rightarrow>
    (bool \<times> string \<times> string \<times> string) ph" where
  "getNSEC3Hashes he narrow sd hashed decrement = (\<lambda>(unhashed, before, after).
     if narrow then returnP (True, unhashed, if decrement then decrementHash hashed else hashed, incrementHash hashed)
     else with_db sd (\<lambda>db.
       bindP (askP (\<lambda>n. bk_names_absolute (he_B he) n db (soa_domain_id sd) (toLower (toBase32Hex (env_beyond (he_env he)) hashed)) unhashed before after))
         (\<lambda>(ret, unhashed, before, after). returnP (ret, unhashed, fromBase32Hex before, fromBase32Hex after))))"

subsection \<open>NSEC and NSEC3 records\<close>

definition type_name :: "handler_env \<Rightarrow> u16 \<Rightarrow> string" where
  "type_name he t = NumberToType (he_reg he) t 1"

text \<open>The record starts as the last one that was looked up.\<close>

definition last_or :: "DNSResourceRecord \<Rightarrow> DNSResourceRecord list \<Rightarrow> DNSResourceRecord" where
  "last_or rr rrs = (if rrs = [] then rr else last rrs)"

definition denial_place :: "nat \<Rightarrow> Place" where
  "denial_place mode = (if mode = 2 then ANSWER else AUTHORITY)"

definition emitNSEC :: "handler_env \<Rightarrow> string \<Rightarrow> string \<Rightarrow> SOAData \<Rightarrow> nat \<Rightarrow> unit ph" where
  "emitNSEC he begin_name end_name sd mode =
     bindP (lookup_all (he_B he) qt_ANY begin_name (-1)) (\<lambda>rrs.
       let types = [qt_RRSIG, qt_NSEC] @ (if soa_qname sd = begin_name then [qt_DNSKEY] else [])
             @ map rr_qtype (filter (\<lambda>rr. rr_domain_id rr = soa_domain_id sd) rrs);
           nrc = \<lparr> nsec_next = end_name, nsec_set = fold insort_insert types [] \<rparr>;
           rr = last_or ((new_rr he)\<lparr> rr_ttl := soa_default_ttl sd \<rparr>) rrs
       in addP (rr\<lparr> rr_qname := begin_name, rr_qtype := qt_NSEC, rr_content := NSEC_getZoneRepresentation (type_name he) nrc,
                    rr_place := denial_place mode, rr_auth := True \<rparr>))"

definition emitNSEC3 :: "handler_env \<Rightarrow> NSEC3PARAMRecordContent \<Rightarrow> SOAData \<Rightarrow> string \<Rightarrow> string \<Rightarrow> string \<Rightarrow> nat \<Rightarrow> unit ph" where
  "emitNSEC3 he ns3prc sd unhashed begin_hash end_hash mode =
     bindP (lookup_all (he_B he) qt_ANY unhashed (-1)) (\<lambda>rrs.
       let types = [qt_RRSIG] @ map rr_qtype rrs @ (if unhashed = soa_qname sd then [qt_NSEC3PARAM, qt_DNSKEY] else []);
           n3rc = \<lparr> nsec3_algorithm = 1, nsec3_flags = param_flags ns3prc, nsec3_iterations = param_iterations ns3prc,
             nsec3_salt = param_salt ns3prc, nsec3_nexthash = end_hash, nsec3_set = fold insort_insert types [] \<rparr>;
           rr = last_or ((new_rr he)\<lparr> rr_ttl := soa_default_ttl sd \<rparr>) rrs
       in addP (rr\<lparr> rr_qname := dotConcat (toLower (toBase32Hex (env_beyond (he_env he)) begin_hash)) (soa_qname sd), rr_qtype := qt_NSEC3,
                    rr_content := NSEC3_getZoneRepresentation (env_beyond (he_env he)) (type_name he) n3rc,
                    rr_place := denial_place mode, rr_auth := True \<rparr>))"

text \<open>One of the three records, for the hash of \<open>unhashed\<close>; the names before and after go on to the next.\<close>

definition add_hashed :: "handler_env \<Rightarrow> NSEC3PARAMRecordContent \<Rightarrow> bool \<Rightarrow> SOAData \<Rightarrow> bool \<Rightarrow> string \<Rightarrow> nat \<Rightarrow> string \<times> string \<Rightarrow> (string \<times> string) ph" where
  "add_hashed he ns3rc narrow sd decrement unhashed mode = (\<lambda>(before, after).
     let hashed = hashQNameWithSalt (he_sha1 he) (unat (param_iterations ns3rc)) (param_salt ns3rc) unhashed
     in bindP (getNSEC3Hashes he narrow sd hashed decrement (unhashed, before, after)) (\<lambda>(ret, unhashed, before, after).
        bindP (emitNSEC3 he ns3rc sd unhashed before after mode) (\<lambda>_. returnP (before, after))))"

definition addNSEC3 :: "handler_env \<Rightarrow> DNSPacket \<Rightarrow> string \<Rightarrow> NSEC3PARAMRecordContent \<Rightarrow> bool \<Rightarrow> nat \<Rightarrow> unit ph" where
  "addNSEC3 he p auth ns3rc narrow mode =
     bindP (getSOA he auth (new_soa he uncached)) (\<lambda>(found, sd).
       if \<not> found then returnP ()
       else bindP (add_hashed he ns3rc narrow sd False auth mode ([], [])) (\<lambda>names.
            bindP (add_hashed he ns3rc narrow sd True (dp_qdomain p) mode names) (\<lambda>names.
            bindP (add_hashed he ns3rc narrow sd True (dotConcat ''*'' auth) mode names) (\<lambda>_. returnP ()))))"

definition before_after :: "handler_env \<Rightarrow> SOAData \<Rightarrow> string \<Rightarrow> string \<Rightarrow> string \<times> string \<Rightarrow> (string \<times> string) ph" where
  "before_after he sd zonename qname = (\<lambda>(before, after).
     with_db sd (\<lambda>db. askP (\<lambda>n. bk_names (he_B he) n db (soa_domain_id sd) zonename qname before after)))"

text \<open>An answer of \<open>getAuth\<close> for the empty zone name is used whether it is one or not.\<close>

definition addNSEC :: "handler_env \<Rightarrow> DNSPacket \<Rightarrow> string \<Rightarrow> string \<Rightarrow> nat \<Rightarrow> unit ph" where
  "addNSEC he p target auth mode =
     (if \<not> dp_dnssecOk p then returnP ()
      else bindP (if auth = [] then bindP (getAuth he p target (new_soa he uncached)) (\<lambda>(_, sd). returnP (True, sd))
                  else getSOA he auth (new_soa he uncached)) (\<lambda>(found, sd).
        if \<not> found then returnP ()
        else bindP (before_after he sd auth target ([], [])) (\<lambda>(before, after).
          if mode = 0 \<or> mode = 2 then emitNSEC he target after sd mode
          else if mode = 1 then
            bindP (emitNSEC he before after sd mode) (\<lambda>_.
            bindP (before_after he sd auth auth (before, after)) (\<lambda>(before, after). emitNSEC he before after sd mode))
          else if mode = 3 then emitNSEC he before after sd mode
          else returnP ())))"

definition addNSECX :: "handler_env \<Rightarrow> DNSPacket \<Rightarrow> string \<Rightarrow> string \<Rightarrow> nat \<Rightarrow> unit ph" where
  "addNSECX he p target auth mode =
     bindP (nsec3_setting he auth) (\<lambda>setting. case setting of
       Some (ns3rc, narrow) \<Rightarrow> addNSEC3 he p auth ns3rc narrow mode
     | None \<Rightarrow> addNSEC he p target auth mode)"

text \<open>The signatures stored with the records of the answer; nothing uses it at present.\<close>

definition signature_each :: "DNSResourceRecord \<Rightarrow> DNSResourceRecord \<Rightarrow> unit \<Rightarrow> unit ph" where
  "signature_each i rr _ =
     (if fst (splitField (rr_content rr) (CHR '' '')) = QType_getName (rr_qtype i) then addP (rr\<lparr> rr_place := ANSWER \<rparr>) else returnP ())"

definition doDNSSECProcessing :: "handler_env \<Rightarrow> DNSPacket \<Rightarrow> bool ph" where
  "doDNSSECProcessing he p =
     (if \<not> dp_dnssecOk p then returnP False
      else withP (\<lambda>r. bindP (foldP (\<lambda>i _. if rr_place i \<noteq> ANSWER then returnP ()
             else lookup_each (he_B he) qt_RRSIG (rr_qname i) (-1) (signature_each i) ()) (getAnswerRecords r) ()) (\<lambda>_. returnP False)))"

subsection \<open>Explicit RRSIG questions\<close>

text \<open>The records to sign, each with its type; a record is made of each text on the way.\<close>

definition rrsig_each :: "handler_env \<Rightarrow> DNSResourceRecord \<Rightarrow> (u16 \<times> content) list \<Rightarrow> (u16 \<times> content) list ph" where
  "rrsig_each he rr records =
     (if \<not> rr_auth rr then returnP records
      else bindP (liftP (mastermake_text (he_reg he) (he_env he) (rr_qtype rr) 1 (rr_content (wrap_content rr)))) (\<lambda>drc.
        returnP (records @ [(rr_qtype rr, drc)])))"

definition signed_sets :: "(u16 \<times> content) list \<Rightarrow> (u16 \<times> content list) list" where
  "signed_sets records = map (\<lambda>t. (t, map snd (filter (\<lambda>(t', drc). t' = t) records))) (fold insort_insert (map fst records) [])"

definition add_rrsigs :: "handler_env \<Rightarrow> string \<Rightarrow> string \<Rightarrow> DNSResourceRecord \<Rightarrow> u16 \<times> content list \<Rightarrow> unit ph" where
  "add_rrsigs he signer qname rr = (\<lambda>(t, contents).
     bindP (getRRSIGsForRRSET (he_B he) signer qname t 3600 contents (t = qt_DNSKEY)) (\<lambda>rrcs. case rrcs of
       None \<Rightarrow> returnP ()
     | Some sigs \<Rightarrow> foldP (\<lambda>sig _. addP (rr\<lparr> rr_content := sig \<rparr>)) sigs ()))"

definition synthesiseRRSIGs :: "handler_env \<Rightarrow> DNSPacket \<Rightarrow> unit ph" where
  "synthesiseRRSIGs he p =
     bindP (getAuth he p (dp_qdomain p) (new_soa he uncached)) (\<lambda>(_, sd).
     bindP (lookup_all (he_B he) qt_ANY (dp_qdomain p) (-1)) (\<lambda>rrs.
     bindP (foldP (rrsig_each he) rrs []) (\<lambda>records.
     let nsec_set = fold insort_insert ([qt_RRSIG, qt_NSEC] @ map fst records) [];
         rr = last_or ((new_rr he)\<lparr> rr_ttl := soa_default_ttl sd \<rparr>) rrs
     in bindP (nsec3_setting he (soa_qname sd)) (\<lambda>setting.
        bindP (if setting \<noteq> None then returnP records
               else bindP (before_after he sd (soa_qname sd) (dp_qdomain p) ([], [])) (\<lambda>(before, after).
                    bindP (liftP (mastermake_text (he_reg he) (he_env he) qt_NSEC 1
                        (NSEC_getZoneRepresentation (type_name he) \<lparr> nsec_next = after, nsec_set = nsec_set \<rparr>))) (\<lambda>drc.
                      returnP (records @ [(qt_NSEC, drc)])))) (\<lambda>records.
        foldP (\<lambda>iter _. add_rrsigs he (soa_qname sd) (dp_qdomain p)
            (rr\<lparr> rr_qname := dp_qdomain p, rr_auth := False, rr_place := ANSWER, rr_qtype := qt_RRSIG \<rparr>) iter) (signed_sets records) ())))))"

subsection \<open>Negative answers and referrals\<close>

definition soa_record :: "handler_env \<Rightarrow> SOAData \<Rightarrow> DNSResourceRecord" where
  "soa_record he sd =
     (new_rr he)\<lparr> rr_qname := soa_qname sd, rr_qtype := qt_SOA, rr_content := serializeSOAData sd, rr_ttl := soa_ttl sd,
       rr_domain_id := soa_domain_id sd, rr_place := AUTHORITY, rr_auth := True \<rparr>"

definition deny :: "handler_env \<Rightarrow> DNSPacket \<Rightarrow> string \<Rightarrow> SOAData \<Rightarrow> nat \<Rightarrow> unit ph" where
  "deny he p target sd mode =
     (if \<not> dp_dnssecOk p then returnP ()
      else bindP (isSecured he (soa_qname sd)) (\<lambda>secured. if secured then addNSECX he p target (soa_qname sd) mode else returnP ()))"

definition makeNXDomain :: "handler_env \<Rightarrow> DNSPacket \<Rightarrow> string \<Rightarrow> SOAData \<Rightarrow> unit ph" where
  "makeNXDomain he p target sd =
     bindP (addP ((soa_record he sd)\<lparr> rr_scopeMask := soa_scopeMask sd \<rparr>)) (\<lambda>_.
     bindP (deny he p target sd 1) (\<lambda>_. updateP (setRcode rcode_NXDomain)))"

definition makeNOError :: "handler_env \<Rightarrow> DNSPacket \<Rightarrow> string \<Rightarrow> SOAData \<Rightarrow> unit ph" where
  "makeNOError he p target sd = bindP (addP (soa_record he sd)) (\<lambda>_. deny he p target sd 0)"

definition addDSforNS :: "handler_env \<Rightarrow> SOAData \<Rightarrow> string \<Rightarrow> bool ph" where
  "addDSforNS he sd dsname =
     lookup_each (he_B he) qt_DS dsname (soa_domain_id sd)
       (\<lambda>rr _. bindP (addP (rr\<lparr> rr_place := AUTHORITY, rr_auth := True \<rparr>)) (\<lambda>_. returnP True)) False"

definition tryReferral :: "handler_env \<Rightarrow> DNSPacket \<Rightarrow> SOAData \<Rightarrow> string \<Rightarrow> bool ph" where
  "tryReferral he p sd target =
     bindP (getBestReferralNS he sd target) (\<lambda>rrset.
       if rrset = [] then returnP False
       else bindP (foldP (\<lambda>rr _. addP (rr\<lparr> rr_place := AUTHORITY \<rparr>)) rrset ()) (\<lambda>_.
            bindP (updateP (setA False)) (\<lambda>_.
            bindP (if \<not> dp_dnssecOk p then returnP ()
                   else bindP (isSecured he (soa_qname sd)) (\<lambda>secured.
                     if \<not> secured then returnP ()
                     else bindP (addDSforNS he sd (rr_qname (hd rrset))) (\<lambda>got.
                       if got then returnP () else addNSECX he p (rr_qname (hd rrset)) (soa_qname sd) 0))) (\<lambda>_. returnP True))))"

definition completeANYRecords :: "handler_env \<Rightarrow> DNSPacket \<Rightarrow> SOAData \<Rightarrow> string \<Rightarrow> unit ph" where
  "completeANYRecords he p sd target =
     bindP (isSecured he (soa_qname sd)) (\<lambda>secured.
       if \<not> secured then returnP ()
       else bindP (addNSECX he p target (soa_qname sd) 2) (\<lambda>_.
         if pdns_iequals (soa_qname sd) (dp_qdomain p) then bindP (add_keys he p sd) (\<lambda>_. returnP ()) else returnP ()))"

text \<open>A record of the wildcard gets the name that was asked for; after an alias, that is the alias's target.\<close>

definition wildcard_answer :: "DNSResourceRecord \<Rightarrow> string \<times> bool \<Rightarrow> (string \<times> bool) ph" where
  "wildcard_answer rr = (\<lambda>(target, retargeted).
     bindP (addP (rr\<lparr> rr_wildcardname := rr_qname rr, rr_qname := target, rr_place := ANSWER \<rparr>)) (\<lambda>_.
       if rr_qtype rr = qt_CNAME then returnP (rr_content rr, True) else returnP (target, retargeted)))"

text \<open>Found, sent to another target, without data, and the target.\<close>

definition tryWildcard :: "handler_env \<Rightarrow> DNSPacket \<Rightarrow> SOAData \<Rightarrow> string \<Rightarrow> (bool \<times> bool \<times> bool \<times> string) ph" where
  "tryWildcard he p sd target =
     bindP (getBestWildcard he p sd target) (\<lambda>best. case best of
       None \<Rightarrow> returnP (False, False, False, target)
     | Some rrset \<Rightarrow>
         bindP (foldP wildcard_answer rrset (target, False)) (\<lambda>(target, retargeted).
         bindP (deny he p (dp_qdomain p) sd 3) (\<lambda>_. returnP (True, retargeted, rrset = [], target))))"

end
