(* ===== verification/Answering.thy ===== *)
theory Answering
  imports Denial
begin

text \<open>
  Answering a question: \<open>questionOrRecurse\<close> and \<open>question\<close> of \<open>packethandler.cc\<close>. The jump to
  \<open>retargeted\<close> is recursion over the rounds that are left, the one to \<open>sendit\<close> a value.
\<close>

datatype round_end = SendIt | Recurse | Retarget string

text \<open>The zone, the zones met so far, and the record that is left over from a lookup.\<close>

record round_state =
  ro_sd :: SOAData
  ro_authSet :: "string list"
  ro_rr :: DNSResourceRecord

type_synonym round = "(round_end \<times> round_state) ph"

subsection \<open>Answers before the records of the name\<close>

text \<open>The steps until \<open>Checking for referrals\<close>: whether the answer is complete.\<close>

definition apex_answer :: "handler_env \<Rightarrow> DNSPacket \<Rightarrow> SOAData \<Rightarrow> bool ph" where
  "apex_answer he p sd =
     (if pdns_iequals (soa_qname sd) (dp_qdomain p)
      then bindP (doDNSKEYRequest he p sd) (\<lambda>done. if done then returnP True else doNSEC3PARAMRequest he p sd)
      else returnP False)"

definition soa_answer :: "SOAData \<Rightarrow> DNSResourceRecord \<Rightarrow> DNSResourceRecord" where
  "soa_answer sd rr =
     rr\<lparr> rr_qname := soa_qname sd, rr_qtype := qt_SOA, rr_content := serializeSOAData sd, rr_ttl := soa_ttl sd,
       rr_domain_id := soa_domain_id sd, rr_place := ANSWER, rr_auth := True \<rparr>"

definition nsec_answer :: "handler_env \<Rightarrow> DNSPacket \<Rightarrow> SOAData \<Rightarrow> string \<Rightarrow> bool ph" where
  "nsec_answer he p sd target =
     (if dp_qtype p \<noteq> qt_NSEC \<or> \<not> dp_dnssecOk p then returnP False
      else bindP (isSecured he (soa_qname sd)) (\<lambda>secured.
        if \<not> secured then returnP False
        else bindP (nsec3_setting he (soa_qname sd)) (\<lambda>setting.
          if setting \<noteq> None then returnP False
          else bindP (addNSEC he p target (soa_qname sd) 2) (\<lambda>_. returnP True))))"

definition rrsig_answer :: "handler_env \<Rightarrow> DNSPacket \<Rightarrow> SOAData \<Rightarrow> bool ph" where
  "rrsig_answer he p sd =
     (if dp_qtype p \<noteq> qt_RRSIG then returnP False
      else bindP (isSecured he (soa_qname sd)) (\<lambda>secured.
        if \<not> secured then returnP False else bindP (synthesiseRRSIGs he p) (\<lambda>_. returnP True)))"

fun first_of :: "bool ph list \<Rightarrow> bool ph" where
  "first_of [] = returnP False"
| "first_of (m # ms) = bindP m (\<lambda>done. if done then returnP True else first_of ms)"

definition early_answer :: "handler_env \<Rightarrow> DNSPacket \<Rightarrow> string \<Rightarrow> round_state \<Rightarrow> bool ph" where
  "early_answer he p target st =
     (let sd = ro_sd st
      in first_of
        [apex_answer he p sd,
         if dp_qtype p = qt_SOA \<and> pdns_iequals (soa_qname sd) (dp_qdomain p)
         then bindP (addP (soa_answer sd (ro_rr st))) (\<lambda>_. returnP True) else returnP False,
         nsec_answer he p sd target,
         rrsig_answer he p sd,
         if dp_qtype p \<noteq> qt_DS then tryReferral he p sd target else returnP False])"

subsection \<open>The records of the name\<close>

text \<open>The record as it is used, and what the records say about the answer.\<close>

definition fix_record :: "SOAData \<Rightarrow> DNSResourceRecord \<Rightarrow> DNSResourceRecord" where
  "fix_record sd rr =
     (let rr = (if rr_qtype rr = qt_DS then rr\<lparr> rr_auth := True \<rparr> else rr)
      in if rr_qtype rr = qt_SOA \<and> pdns_iequals (rr_qname rr) (soa_qname sd)
         then rr\<lparr> rr_content := serializeSOAData sd, rr_ttl := soa_ttl sd, rr_domain_id := soa_domain_id sd, rr_auth := True \<rparr> else rr)"

definition ds_auth :: "DNSResourceRecord \<Rightarrow> bool" where
  "ds_auth rr \<longleftrightarrow> rr_auth rr \<or> rr_qtype rr = qt_DS"

definition weDone :: "DNSPacket \<Rightarrow> DNSResourceRecord list \<Rightarrow> bool" where
  "weDone p rrs \<longleftrightarrow> (\<exists>rr \<in> set rrs. (dp_qtype p = qt_ANY \<or> rr_qtype rr = dp_qtype p) \<and> ds_auth rr)"

definition weHaveUnauth :: "DNSPacket \<Rightarrow> SOAData \<Rightarrow> DNSResourceRecord list \<Rightarrow> bool" where
  "weHaveUnauth p sd rrs \<longleftrightarrow>
     (\<exists>rr \<in> set rrs. (rr_qtype rr = dp_qtype p \<and> \<not> ds_auth rr)
        \<or> (rr_qtype rr = qt_NS \<and> (\<not> ds_auth rr \<or> \<not> pdns_iequals (soa_qname sd) (rr_qname rr))))"

definition weRedirected :: "DNSPacket \<Rightarrow> DNSResourceRecord list \<Rightarrow> bool" where
  "weRedirected p rrs \<longleftrightarrow> (\<exists>rr \<in> set rrs. rr_qtype rr = qt_CNAME \<and> dp_qtype p \<noteq> qt_CNAME)"

subsection \<open>A round\<close>

text \<open>No record has the name: a delegation for a question for DS, wildcards, and then nothing.\<close>

definition no_records :: "handler_env \<Rightarrow> DNSPacket \<Rightarrow> string \<Rightarrow> round_state \<Rightarrow> round" where
  "no_records he p target st =
     (let sd = ro_sd st
      in bindP (if dp_qtype p = qt_DS then tryReferral he p sd target else returnP False) (\<lambda>referred.
         if referred then returnP (SendIt, st)
         else bindP (tryWildcard he p sd target) (\<lambda>(found, wereRetargeted, nodata, target).
           if \<not> found then bindP (makeNXDomain he p target sd) (\<lambda>_. returnP (SendIt, st))
           else if wereRetargeted then returnP (Retarget target, st)
           else bindP (if nodata then makeNOError he p target sd else returnP ()) (\<lambda>_. returnP (SendIt, st)))))"

text \<open>There are records. A missing delegation is logged, nothing else.\<close>

definition some_records :: "handler_env \<Rightarrow> DNSPacket \<Rightarrow> string \<Rightarrow> DNSResourceRecord list \<Rightarrow> bool \<times> bool \<times> bool \<Rightarrow> round_state \<Rightarrow> round" where
  "some_records he p target rrset flags st =
     (let sd = ro_sd st; (done, unauth, redirected) = flags
      in if redirected then
           (case find (\<lambda>rr. rr_qtype rr = qt_CNAME) rrset of
              None \<Rightarrow> returnP (SendIt, st)
            | Some rr \<Rightarrow> bindP (addP rr) (\<lambda>_. returnP (Retarget (rr_content rr), st\<lparr> ro_rr := rr \<rparr>)))
         else if done then
           bindP (foldP (\<lambda>rr _. if (dp_qtype p = qt_ANY \<or> rr_qtype rr = dp_qtype p) \<and> rr_auth rr then addP rr else returnP ()) rrset ()) (\<lambda>_.
           bindP (if dp_qtype p = qt_ANY then completeANYRecords he p sd target else returnP ()) (\<lambda>_. returnP (SendIt, st)))
         else if unauth then bindP (tryReferral he p sd target) (\<lambda>_. returnP (SendIt, st))
         else bindP (makeNOError he p target sd) (\<lambda>_. returnP (SendIt, st)))"

text \<open>The zone is known; \<open>done\<close> tells whether the answer is complete.\<close>

definition zone_records :: "handler_env \<Rightarrow> DNSPacket \<Rightarrow> string \<Rightarrow> round_state \<Rightarrow> round" where
  "zone_records he p target st =
     (let sd = ro_sd st
      in bindP (lookup_all (he_B he) qt_ANY target (soa_domain_id sd)) (\<lambda>rrs.
         let flags = (weDone p rrs, weHaveUnauth p sd rrs, weRedirected p rrs); rrset = map (fix_record sd) rrs;
             st = st\<lparr> ro_rr := last_or (ro_rr st) rrset \<rparr>
         in bindP (if dp_qtype p = qt_DS \<and> weHaveUnauth p sd rrs \<and> \<not> weDone p rrs \<and> \<not> weRedirected p rrs then isSecured he (soa_qname sd)
                   else returnP False) (\<lambda>denied.
            if denied then bindP (makeNOError he p target sd) (\<lambda>_. returnP (SendIt, st))
            else if rrset = [] then no_records he p target st
            else some_records he p target rrset flags st)))"

definition no_authority :: "handler_env \<Rightarrow> bool \<Rightarrow> round_state \<Rightarrow> round" where
  "no_authority he first st =
     withP (\<lambda>r.
       if hdr_ra (dp_d r) then returnP (Recurse, st)
       else bindP (if first then updateP (setA False) else returnP ()) (\<lambda>_.
            bindP (if he_send_root he then addRootReferral he else returnP ()) (\<lambda>_. returnP (SendIt, st))))"

definition answer_round :: "handler_env \<Rightarrow> DNSPacket \<Rightarrow> bool \<Rightarrow> string \<Rightarrow> round_state \<Rightarrow> round" where
  "answer_round he p first target st =
     bindP (getAuth he p target (ro_sd st)) (\<lambda>(found, sd).
       let st = st\<lparr> ro_sd := sd \<rparr>
       in if \<not> found then no_authority he first st
          else let st = st\<lparr> ro_authSet := names_insert (soa_qname sd) (ro_authSet st) \<rparr>
               in bindP (early_answer he p target st) (\<lambda>done.
                    if done then returnP (SendIt, st) else zone_records he p target st))"

text \<open>All rounds; \<open>None\<close> after too many of them. \<open>retargetcount\<close> is 11 less \<open>rounds\<close>.\<close>

fun answer_rounds :: "handler_env \<Rightarrow> DNSPacket \<Rightarrow> nat \<Rightarrow> bool \<Rightarrow> string \<Rightarrow> round_state \<Rightarrow> ((bool \<times> round_state) option) ph" where
  "answer_rounds he p 0 first target st = bindP (updateP (setRcode rcode_ServFail)) (\<lambda>_. returnP None)"
| "answer_rounds he p (Suc rounds) first target st =
     bindP (answer_round he p first target st) (\<lambda>(e, st). case e of
       SendIt \<Rightarrow> returnP (Some (False, st))
     | Recurse \<Rightarrow> returnP (Some (True, st))
     | Retarget target \<Rightarrow> answer_rounds he p rounds False target st)"

definition max_rounds :: nat where "max_rounds = 11"

subsection \<open>Sending\<close>

definition wrapupP :: "handler_env \<Rightarrow> unit ph" where
  "wrapupP he = (\<lambda>s. case wrapup (he_wrap he) (ph_r s) of (r, res) \<Rightarrow> (res, s\<lparr> ph_r := r \<rparr>))"

definition sendit :: "handler_env \<Rightarrow> DNSPacket \<Rightarrow> bool \<Rightarrow> round_state \<Rightarrow> unit ph" where
  "sendit he p noCache st =
     bindP (doAdditionalProcessingAndDropAA he p (ro_sd st)) (\<lambda>_.
     bindP (editSOA (he_B he) (he_soa_mem he) (soa_qname (ro_sd st))) (\<lambda>_.
     bindP (if dp_dnssecOk p then addRRSigs (he_B he) (he_domain_mem he) (he_reg he) (he_env he) (ro_authSet st) else returnP ()) (\<lambda>_.
     bindP (wrapupP he) (\<lambda>_.
       if noCache then returnP () else withP (\<lambda>r. outP (CacheInsert p r (getMinTTL r)))))))"

subsection \<open>The question\<close>

datatype reply = NoReply | ReplyR | RecurseR

definition refuse :: "int \<Rightarrow> reply ph" where
  "refuse rcode = bindP (updateP (setRcode rcode)) (\<lambda>_. returnP ReplyR)"

text \<open>A question with a valid name and without an operation; the answer is in the state.\<close>

definition answer_question :: "handler_env \<Rightarrow> DNSPacket \<Rightarrow> bool \<Rightarrow> reply ph" where
  "answer_question he p noCache =
     (let st = \<lparr> ro_sd = new_soa he None, ro_authSet = [], ro_rr = new_rr he \<rparr>; target = dp_qdomain p;
          send = (\<lambda>st. bindP (sendit he p noCache st) (\<lambda>_. returnP ReplyR))
      in if dp_qtype p = qt_IXFR then refuse rcode_NotImp
         else if he_fancy he \<and> (dp_qtype p = qt_URL \<or> dp_qtype p = qt_CURL \<or> dp_qtype p = qt_MBOXFW) then refuse rcode_ServFail
         else bindP (doVersionRequest he p target) (\<lambda>done.
           if done then send st
           else bindP (if dp_qclass p = 255 then updateP (setA False) else returnP ()) (\<lambda>_.
             if dp_qclass p \<noteq> 255 \<and> dp_qclass p \<noteq> 1 then send st
             else bindP (answer_rounds he p max_rounds True target st) (\<lambda>e. case e of
               None \<Rightarrow> returnP ReplyR
             | Some (recurse, st) \<Rightarrow> if recurse then returnP RecurseR else send st))))"

definition answer_opcode :: "handler_env \<Rightarrow> DNSPacket \<Rightarrow> bool \<Rightarrow> reply ph" where
  "answer_opcode he p noCache =
     (if \<not> validDNSName (dp_qdomain p) then refuse rcode_ServFail
      else if hdr_opcode (dp_d p) \<noteq> 0 then
        (if hdr_opcode (dp_d p) = 5 then refuse rcode_NotImp
         else if hdr_opcode (dp_d p) = 4 then
           bindP (processNotify he p) (\<lambda>res.
             if res \<ge> 0 then bindP (updateP (\<lambda>r. setOpcode 4 (setRcode res r))) (\<lambda>_. returnP ReplyR) else returnP NoReply)
         else refuse rcode_NotImp)
      else bindP (if hdr_rd (dp_d p) \<and> he_recursion he then liftP (he_recurseFor he (dp_remote p)) else returnP False) (\<lambda>ra.
           bindP (updateP (setRA ra)) (\<lambda>_. answer_question he p noCache)))"

text \<open>What is done after an exception: the answer so far is kept, or there is a new one.\<close>

fun after_exception :: "handler_env \<Rightarrow> DNSPacket \<Rightarrow> exn \<Rightarrow> reply ph" where
  "after_exception he p (AhuException _) = refuse rcode_ServFail"
| "after_exception he p (NetmaskException _) = refuse rcode_ServFail"
| "after_exception he p UndefinedBehaviour = liftP (Inl UndefinedBehaviour)"
| "after_exception he p _ = bindP (updateP (\<lambda>_. replyPacket (he_packet_mem he) p)) (\<lambda>_. refuse rcode_ServFail)"

definition catchP :: "'a ph \<Rightarrow> (exn \<Rightarrow> 'a ph) \<Rightarrow> 'a ph" where
  "catchP m f = (\<lambda>s. case m s of (Inl e, s) \<Rightarrow> f e s | (Inr a, s) \<Rightarrow> (Inr a, s))"

text \<open>
  The check of a signature comes first, outside the \<open>try\<close>. The answer, if there is one, is the packet of the
  state; the question comes back with the details of its signature.
\<close>

definition check_signature :: "handler_env \<Rightarrow> DNSPacket \<Rightarrow> (bool \<times> DNSPacket) result" where
  "check_signature he p =
     (if \<not> dp_havetsig p then Inr (True, p)
      else bindE (checkForCorrectTSIG (he_reg he) (he_what he) (he_writer_mem he) (fst (he_md5_mem he)) (snd (he_md5_mem he)) (he_tsig_time he)
             (he_tsig_key he) p ([], [], he_tsig_mem he)) (\<lambda>(ok, keyname, secret, trc).
           Inr (ok, if ok then setTSIGDetails trc keyname secret (ts_mac trc) False p else p)))"

definition questionOrRecurse :: "handler_env \<Rightarrow> DNSPacket \<Rightarrow> (reply \<times> DNSPacket) ph" where
  "questionOrRecurse he p =
     (if hdr_qr (dp_d p) then returnP (NoReply, p)
      else bindP (liftP (check_signature he p)) (\<lambda>(ok, p).
        bindP (updateP (\<lambda>_. replyPacket (he_packet_mem he) p)) (\<lambda>_.
          if \<not> ok then bindP (refuse rcode_NotAuth) (\<lambda>reply. returnP (reply, p))
          else bindP (catchP (answer_opcode he p (dp_havetsig p)) (after_exception he p)) (\<lambda>reply. returnP (reply, p)))))"

definition question :: "handler_env \<Rightarrow> DNSPacket \<Rightarrow> (reply \<times> DNSPacket) ph" where
  "question he p =
     bindP (questionOrRecurse he p) (\<lambda>(reply, p). case reply of
       RecurseR \<Rightarrow> bindP (outP (SendToRecursor p)) (\<lambda>_. returnP (NoReply, p))
     | _ \<Rightarrow> returnP (reply, p))"

end
