(* ===== verification/AnsweringProps.thy ===== *)
theory AnsweringProps
  imports Answering
begin

text \<open>
  What holds of every answer, whatever the backends do: the reply repeats the question, a name is denied only
  after all its records were looked up in vain, aliases come to an end, and signing keeps the records.
\<close>

subsection \<open>What an answer keeps\<close>

definition kept :: "(DNSPacket \<Rightarrow> bool) \<Rightarrow> 'a ph \<Rightarrow> bool" where
  "kept P m \<longleftrightarrow> (\<forall>s :: ph_state. P (ph_r s) \<longrightarrow> P (ph_r (snd (m s))))"

lemma bind_return: "bindP (returnP a) f = f a" by (simp add: bindP_def returnP_def)
lemma bind_lift: "bindP (liftP (Inr a)) f = f a" by (simp add: bindP_def liftP_def)
lemma bind_update: "bindP (updateP g) f s = f () (s\<lparr> ph_r := g (ph_r s) \<rparr>)" by (simp add: bindP_def updateP_def)

named_theorems kept_rules

lemma kept_return [kept_rules]: "kept P (returnP a)" by (simp add: kept_def returnP_def)
lemma kept_lift [kept_rules]: "kept P (liftP r)" by (simp add: kept_def liftP_def)
lemma kept_ask [kept_rules]: "kept P (askP f)" by (simp add: kept_def askP_def)
lemma kept_out [kept_rules]: "kept P (outP e)" by (simp add: kept_def outP_def)
lemma kept_update: "(\<And>r. P r \<Longrightarrow> P (f r)) \<Longrightarrow> kept P (updateP f)" by (simp add: kept_def updateP_def)
lemma kept_with [kept_rules]: "(\<And>r. kept P (f r)) \<Longrightarrow> kept P (withP f)" by (simp add: kept_def withP_def)

lemma kept_bind_value:
  assumes "kept P m" "\<And>a s s'. m s = (Inr a, s') \<Longrightarrow> kept P (f a)"
  shows "kept P (bindP m f)"
  unfolding kept_def
proof (intro allI impI)
  fix s :: ph_state
  assume s: "P (ph_r s)"
  obtain r s' where m: "m s = (r, s')" by (cases "m s")
  have s': "P (ph_r s')" using assms(1) s m unfolding kept_def by (metis snd_conv)
  show "P (ph_r (snd (bindP m f s)))"
  proof (cases r)
    case (Inl e)
    then show ?thesis using m s' by (simp add: bindP_def)
  next
    case (Inr a)
    then have "kept P (f a)" using assms(2) m by blast
    then show ?thesis using m Inr s' by (simp add: bindP_def kept_def)
  qed
qed

lemma kept_bind [kept_rules]: "kept P m \<Longrightarrow> (\<And>a. kept P (f a)) \<Longrightarrow> kept P (bindP m f)"
  by (rule kept_bind_value)

lemma kept_if [kept_rules]: "(b \<Longrightarrow> kept P m) \<Longrightarrow> (\<not> b \<Longrightarrow> kept P m') \<Longrightarrow> kept P (if b then m else m')" by simp
lemma kept_prod [kept_rules]: "(\<And>a b. kept P (f a b)) \<Longrightarrow> kept P (case x of (a, b) \<Rightarrow> f a b)" by (cases x) simp
lemma kept_prod_apply [kept_rules]: "(\<And>a b. kept P (f a b y)) \<Longrightarrow> kept P ((case x of (a, b) \<Rightarrow> f a b) y)" by (cases x) simp
lemma kept_option [kept_rules]: "kept P m \<Longrightarrow> (\<And>a. kept P (f a)) \<Longrightarrow> kept P (case x of None \<Rightarrow> m | Some a \<Rightarrow> f a)" by (cases x) auto
lemma kept_let [kept_rules]: "(\<And>a. kept P (f a)) \<Longrightarrow> kept P (let a = x in f a)" by simp

lemma kept_fold [kept_rules]: "(\<And>x a. kept P (f x a)) \<Longrightarrow> kept P (foldP f xs a)"
  by (induction xs arbitrary: a) (simp_all add: kept_return kept_bind)

lemma kept_each [kept_rules]:
  assumes "\<And>rr a. kept P (body rr a)"
  shows "kept P (lookup_each B qt q z body a)"
  unfolding kept_def
proof (intro allI impI)
  fix s :: ph_state
  assume s: "P (ph_r s)"
  obtain rrs e where l: "bk_lookup B (ph_steps s) qt q z = (rrs, e)" by (cases "bk_lookup B (ph_steps s) qt q z")
  have "kept P (bindP (foldP body rrs a) (\<lambda>a. liftP (case e of None \<Rightarrow> Inr a | Some e \<Rightarrow> Inl e)))"
    by (intro kept_rules assms)
  then show "P (ph_r (snd (lookup_each B qt q z body a s)))" using s l by (simp add: lookup_each_def kept_def)
qed

lemma kept_all [kept_rules]: "kept P (lookup_all B qt q z)" by (simp add: lookup_all_def kept_ask)

lemma kept_db [kept_rules]: "(\<And>n. kept P (f n)) \<Longrightarrow> kept P (with_db sd f)"
  by (auto simp: with_db_def intro: kept_lift split: option.splits nat.splits)

lemma kept_first [kept_rules]: "(\<And>m. m \<in> set ms \<Longrightarrow> kept P m) \<Longrightarrow> kept P (first_of ms)"
  by (induction ms) (auto intro!: kept_rules)

lemma kept_catch [kept_rules]:
  assumes "kept P m" "\<And>e. kept P (f e)"
  shows "kept P (catchP m f)"
  unfolding kept_def
proof (intro allI impI)
  fix s :: ph_state
  assume s: "P (ph_r s)"
  obtain r s' where m: "m s = (r, s')" by (cases "m s")
  have "P (ph_r s')" using assms(1) s m unfolding kept_def by (metis snd_conv)
  then show "P (ph_r (snd (catchP m f s)))"
    using m assms(2) by (cases r) (auto simp: catchP_def kept_def)
qed

subsection \<open>Results\<close>

definition yields :: "('a \<Rightarrow> bool) \<Rightarrow> 'a ph \<Rightarrow> bool" where
  "yields Q m \<longleftrightarrow> (\<forall>s a s'. m s = (Inr a, s') \<longrightarrow> Q a)"

lemma yields_return: "Q a \<Longrightarrow> yields Q (returnP a)" by (simp add: yields_def returnP_def)
lemma yields_any: "yields (\<lambda>_. True) m" by (simp add: yields_def)

lemma yields_bind:
  assumes "yields Q' m" "\<And>a. Q' a \<Longrightarrow> yields Q (f a)"
  shows "yields Q (bindP m f)"
  unfolding yields_def
proof (intro allI impI)
  fix s a s'
  assume b: "bindP m f s = (Inr a, s')"
  obtain r s1 where m: "m s = (r, s1)" by (cases "m s")
  then obtain a' where r: "r = Inr a'" using b by (cases r) (auto simp: bindP_def)
  then have "Q' a'" "f a' s1 = (Inr a, s')" using assms(1) m b by (auto simp: yields_def bindP_def)
  then show "Q a" using assms(2) unfolding yields_def by blast
qed

lemma yields_then: "(\<And>a. yields Q (f a)) \<Longrightarrow> yields Q (bindP m f)"
  by (rule yields_bind [OF yields_any]) simp

lemma yields_if: "(b \<Longrightarrow> yields Q m) \<Longrightarrow> (\<not> b \<Longrightarrow> yields Q m') \<Longrightarrow> yields Q (if b then m else m')" by simp
lemma yields_prod: "(\<And>a b. x = (a, b) \<Longrightarrow> yields Q (f a b)) \<Longrightarrow> yields Q (case x of (a, b) \<Rightarrow> f a b)" by (cases x) simp
lemma yields_option: "(x = None \<Longrightarrow> yields Q m) \<Longrightarrow> (\<And>a. x = Some a \<Longrightarrow> yields Q (f a)) \<Longrightarrow> yields Q (case x of None \<Rightarrow> m | Some a \<Rightarrow> f a)"
  by (cases x) auto
lemma yields_with: "(\<And>r. yields Q (f r)) \<Longrightarrow> yields Q (withP f)" by (simp add: yields_def withP_def)

lemma yields_fold:
  assumes "\<And>x a. x \<in> set xs \<Longrightarrow> Q a \<Longrightarrow> yields Q (f x a)"
  shows "Q a \<Longrightarrow> yields Q (foldP f xs a)"
  using assms
proof (induction xs arbitrary: a)
  case (Cons x xs)
  show ?case unfolding foldP.simps by (rule yields_bind [of Q]) (use Cons in auto)
qed (simp add: yields_return)

text \<open>The target of an alias that some lookup delivered.\<close>

definition alias_target :: "handler_env \<Rightarrow> string \<Rightarrow> bool" where
  "alias_target he t \<longleftrightarrow>
     (\<exists>n q z. \<exists>rr \<in> set (fst (bk_lookup (he_B he) n qt_ANY q z)). rr_qtype rr = qt_CNAME \<and> rr_content rr = t)"

definition delivered :: "handler_env \<Rightarrow> DNSResourceRecord \<Rightarrow> bool" where
  "delivered he rr \<longleftrightarrow> (\<exists>n q z. rr \<in> set (fst (bk_lookup (he_B he) n qt_ANY q z)))"

lemma delivered_alias: "delivered he rr \<Longrightarrow> rr_qtype rr = qt_CNAME \<Longrightarrow> alias_target he (rr_content rr)"
  unfolding delivered_def alias_target_def by blast

lemma lookup_yields: "yields (\<lambda>rrs. \<forall>rr \<in> set rrs. delivered he rr) (lookup_all (he_B he) qt_ANY q z)"
  unfolding yields_def
proof (intro allI impI ballI)
  fix s rrs s' rr
  assume l: "lookup_all (he_B he) qt_ANY q z s = (Inr rrs, s')" and rr: "rr \<in> set rrs"
  obtain rrs' e where k: "bk_lookup (he_B he) (ph_steps s) qt_ANY q z = (rrs', e)" by fastforce
  then have "rrs' = rrs" using l by (cases e) (auto simp: lookup_all_def askP_def)
  then show "delivered he rr" unfolding delivered_def using k rr by (metis fst_conv)
qed

lemma best_wildcard_yields:
  "yields (\<lambda>best. \<forall>rrset. best = Some rrset \<longrightarrow> (\<forall>rr \<in> set rrset. delivered he rr)) (getBestWildcard he p sd target)"
proof -
  have "yields (\<lambda>best. \<forall>rrset. best = Some rrset \<longrightarrow> (\<forall>rr \<in> set rrset. delivered he rr)) (wildcard_levels he p sd ls)" for ls
  proof (induction ls)
    case (Cons subdomain ls)
    show ?case
      unfolding wildcard_levels.simps
      by (rule yields_bind [OF lookup_yields], intro yields_if yields_return) (use Cons in auto)
  qed (simp add: yields_return)
  then show ?thesis unfolding getBestWildcard_def by blast
qed

lemma wildcard_yields:
  "yields (\<lambda>(found, retargeted, nodata, t). retargeted \<longrightarrow> alias_target he t) (tryWildcard he p sd target)"
  unfolding tryWildcard_def
proof (rule yields_bind [OF best_wildcard_yields])
  fix best
  assume best: "\<forall>rrset. best = Some rrset \<longrightarrow> (\<forall>rr \<in> set rrset. delivered he rr)"
  show "yields (\<lambda>(found, retargeted, nodata, t). retargeted \<longrightarrow> alias_target he t)
    (case best of None \<Rightarrow> returnP (False, False, False, target)
     | Some rrset \<Rightarrow> bindP (foldP wildcard_answer rrset (target, False)) (\<lambda>(target, retargeted).
         bindP (deny he p (dp_qdomain p) sd 3) (\<lambda>_. returnP (True, retargeted, rrset = [], target))))"
  proof (rule yields_option)
    fix rrset
    assume "best = Some rrset"
    then have "yields (\<lambda>(t, retargeted). retargeted \<longrightarrow> alias_target he t) (foldP wildcard_answer rrset (target, False))"
      using best by (intro yields_fold) (auto simp: wildcard_answer_def intro!: yields_then yields_return simp: delivered_alias)
    then show "yields (\<lambda>(found, retargeted, nodata, t). retargeted \<longrightarrow> alias_target he t)
      (bindP (foldP wildcard_answer rrset (target, False)) (\<lambda>(target, retargeted).
         bindP (deny he p (dp_qdomain p) sd 3) (\<lambda>_. returnP (True, retargeted, rrset = [], target))))"
      by (rule yields_bind) (auto intro!: yields_then yields_return)
  qed (simp add: yields_return)
qed

definition to_alias :: "handler_env \<Rightarrow> round_end \<times> round_state \<Rightarrow> bool" where
  "to_alias he = (\<lambda>(e, st). \<forall>t. e = Retarget t \<longrightarrow> alias_target he t)"

lemma to_alias_send [simp]: "to_alias he (SendIt, st)" "to_alias he (Recurse, st)" by (simp_all add: to_alias_def)

lemma no_records_yields: "yields (to_alias he) (no_records he p target st)"
  unfolding no_records_def Let_def
  by (rule yields_then, rule yields_if, intro yields_return to_alias_send, rule yields_bind [OF wildcard_yields])
    (auto simp: to_alias_def intro!: yields_return yields_then)

lemma some_records_yields:
  assumes "\<And>rr. rr \<in> set rrset \<Longrightarrow> rr_qtype rr = qt_CNAME \<Longrightarrow> alias_target he (rr_content rr)"
  shows "yields (to_alias he) (some_records he p target rrset flags st)"
  using assms unfolding some_records_def Let_def
  by (intro yields_prod yields_then yields_if yields_option yields_return to_alias_send)
    (auto simp: to_alias_def find_Some_iff)

lemma fix_record_alias: "rr_qtype (fix_record sd rr) = qt_CNAME \<longleftrightarrow> rr_qtype rr = qt_CNAME"
  "rr_qtype rr = qt_CNAME \<Longrightarrow> rr_content (fix_record sd rr) = rr_content rr"
  by (auto simp: fix_record_def Let_def qt_CNAME_def qt_SOA_def qt_DS_def)

lemma zone_records_yields: "yields (to_alias he) (zone_records he p target st)"
  unfolding zone_records_def Let_def
  by (rule yields_bind [OF lookup_yields [of he]])
    (intro yields_then yields_if yields_return to_alias_send no_records_yields some_records_yields,
     auto simp: fix_record_alias delivered_alias)

lemma round_yields: "yields (to_alias he) (answer_round he p first target st)"
  unfolding answer_round_def no_authority_def Let_def
  by (intro yields_then yields_if yields_prod yields_with yields_return to_alias_send zone_records_yields)

lemma notify_yields:
  "yields (\<lambda>v. v \<in> {rcode_NoError, rcode_ServFail, rcode_NotImp, rcode_Refused, rcode_NotAuth}) (processNotify he p)"
  unfolding processNotify_def trySuperMaster_def trySuperMasterSynchronous_def Let_def
  by (intro yields_if yields_then yields_option yields_return) (auto simp: rcode_NoError_def)

subsection \<open>Laws for what is kept\<close>

locale packet_kept =
  fixes P :: "DNSPacket \<Rightarrow> bool" and R :: "int \<Rightarrow> bool"
  assumes rrs: "P r \<Longrightarrow> P (r\<lparr> dp_rrs := l \<rparr>)"
    and rcode: "R v \<Longrightarrow> P r \<Longrightarrow> P (setRcode v r)"
    and aa: "P r \<Longrightarrow> P (setA False r)"
    and ra: "P r \<Longrightarrow> P (setRA b r)"
    and opcode: "P r \<Longrightarrow> P (setOpcode 4 r)"
    and wrapped: "P r \<Longrightarrow> P (fst (wrapup w r))"
    and usual: "v \<in> {rcode_NoError, rcode_ServFail, rcode_NotImp, rcode_Refused, rcode_NotAuth} \<Longrightarrow> R v"
begin

lemma kept_add: "kept P (addP rr)"
  unfolding addP_def by (rule kept_update) (simp add: addRecord_def rrs)

lemma kept_rcode: "R v \<Longrightarrow> kept P (updateP (setRcode v))"
  by (rule kept_update) (rule rcode)

lemma kept_aa: "kept P (updateP (setA False))"
  by (rule kept_update) (rule aa)

lemma kept_servfail: "kept P (updateP (setRcode rcode_ServFail))"
  by (rule kept_rcode) (simp add: usual)

lemmas steps = kept_rules kept_add kept_aa kept_servfail

lemma kept_soa: "kept P (getSOA he d sd)" by (simp add: getSOA_def kept_ask)
lemma kept_secured: "kept P (isSecured he z)" by (simp add: isSecured_def kept_ask)
lemma kept_nsec3: "kept P (nsec3_setting he z)" by (simp add: nsec3_setting_def kept_ask)

lemma kept_levels: "kept P (auth_levels he p target ls sd)"
  by (induction he p target ls sd rule: auth_levels.induct) (auto intro!: kept_rules kept_soa)

lemma kept_auth: "kept P (getAuth he p target sd)" unfolding getAuth_def by (rule kept_levels)

lemmas asks = kept_soa kept_secured kept_nsec3 kept_auth

lemma kept_root: "kept P (addRootReferral he)"
  unfolding addRootReferral_def Let_def by (intro steps)

lemma kept_referrals: "kept P (getBestReferralNS he sd target)"
proof -
  have "kept P (referral_levels he sd ls)" for ls
    by (induction he sd ls rule: referral_levels.induct) (auto intro!: kept_rules)
  then show ?thesis unfolding getBestReferralNS_def by blast
qed

lemma kept_best_wildcard: "kept P (getBestWildcard he p sd target)"
proof -
  have "kept P (wildcard_levels he p sd ls)" for ls
    by (induction he p sd ls rule: wildcard_levels.induct) (auto intro!: kept_rules)
  then show ?thesis unfolding getBestWildcard_def by blast
qed

lemma kept_keys: "kept P (add_keys he p sd)"
  unfolding add_keys_def by (intro steps)

lemma kept_apex: "kept P (apex_answer he p sd)"
  unfolding apex_answer_def doDNSKEYRequest_def doNSEC3PARAMRequest_def
  by (intro steps kept_keys asks)

lemma kept_version: "kept P (doVersionRequest he p target)"
  unfolding doVersionRequest_def Let_def by (intro steps)

lemma kept_additional: "kept P (doAdditionalProcessingAndDropAA he p sd)"
  unfolding doAdditionalProcessingAndDropAA_def additional_for_def additional_each_def by (intro steps asks)

lemma kept_emitNSEC: "kept P (emitNSEC he b e sd mode)"
  unfolding emitNSEC_def Let_def by (intro steps)

lemma kept_emitNSEC3: "kept P (emitNSEC3 he q sd u b e mode)"
  unfolding emitNSEC3_def Let_def by (intro steps)

lemma kept_addNSEC3: "kept P (addNSEC3 he p auth q narrow mode)"
  unfolding addNSEC3_def add_hashed_def getNSEC3Hashes_def Let_def by (intro steps asks kept_emitNSEC3)

lemma kept_addNSEC: "kept P (addNSEC he p target auth mode)"
  unfolding addNSEC_def before_after_def by (intro steps asks kept_emitNSEC)

lemma kept_addNSECX: "kept P (addNSECX he p target auth mode)"
  unfolding addNSECX_def by (intro steps asks kept_addNSEC kept_addNSEC3)

lemma kept_deny: "kept P (deny he p target sd mode)"
  unfolding deny_def by (intro steps asks kept_addNSECX)

lemma kept_nxdomain: "R rcode_NXDomain \<Longrightarrow> kept P (makeNXDomain he p target sd)"
  unfolding makeNXDomain_def by (intro steps kept_deny kept_rcode)

lemma kept_noerror: "kept P (makeNOError he p target sd)"
  unfolding makeNOError_def by (intro steps kept_deny)

lemma kept_referral: "kept P (tryReferral he p sd target)"
  unfolding tryReferral_def addDSforNS_def by (intro steps asks kept_referrals kept_addNSECX)

lemma kept_any: "kept P (completeANYRecords he p sd target)"
  unfolding completeANYRecords_def by (intro steps asks kept_addNSECX kept_keys)

lemma kept_wildcard: "kept P (tryWildcard he p sd target)"
  unfolding tryWildcard_def wildcard_answer_def by (intro steps kept_best_wildcard kept_deny)

lemma kept_rrset: "kept P (getRRSIGsForRRSET B signer q t ttl toSign ksk)"
  unfolding getRRSIGsForRRSET_def getCurrentInception_def Let_def by (intro steps)

lemma kept_rrsigs: "kept P (synthesiseRRSIGs he p)"
  unfolding synthesiseRRSIGs_def add_rrsigs_def rrsig_each_def before_after_def Let_def by (intro steps asks kept_rrset)

lemma kept_early: "kept P (early_answer he p target st)"
  unfolding early_answer_def Let_def
  by (rule kept_first) (auto simp: nsec_answer_def rrsig_answer_def
      intro!: steps asks kept_apex kept_referral kept_addNSEC kept_rrsigs)

lemma kept_some: "kept P (some_records he p target rrset flags st)"
  unfolding some_records_def Let_def by (intro steps kept_any kept_referral kept_noerror)

lemma kept_no_authority: "kept P (no_authority he first st)"
  unfolding no_authority_def by (intro steps kept_root)

text \<open>A denial has to be allowed when no record was found.\<close>

lemma kept_no_records:
  assumes "R rcode_NXDomain"
  shows "kept P (no_records he p target st)"
  unfolding no_records_def Let_def by (intro steps kept_referral kept_wildcard kept_noerror kept_nxdomain assms)

lemma kept_zone_records:
  assumes "\<And>n. bk_lookup (he_B he) n qt_ANY target (soa_domain_id (ro_sd st)) = ([], None) \<Longrightarrow> R rcode_NXDomain"
  shows "kept P (zone_records he p target st)"
  unfolding zone_records_def Let_def
proof (rule kept_bind_value)
  fix rrs s s'
  assume "lookup_all (he_B he) qt_ANY target (soa_domain_id (ro_sd st)) s = (Inr rrs, s')"
  then have "bk_lookup (he_B he) (ph_steps s) qt_ANY target (soa_domain_id (ro_sd st)) = (rrs, None)"
    by (auto simp: lookup_all_def askP_def split: prod.splits option.splits)
  then have "rrs = [] \<Longrightarrow> R rcode_NXDomain" using assms by blast
  then show "kept P (bindP (if dp_qtype p = qt_DS \<and> weHaveUnauth p (ro_sd st) rrs \<and> \<not> weDone p rrs \<and> \<not> weRedirected p rrs
        then isSecured he (soa_qname (ro_sd st)) else returnP False)
      (\<lambda>denied. if denied then bindP (makeNOError he p target (ro_sd st)) (\<lambda>_. returnP (SendIt, st\<lparr>ro_rr := last_or (ro_rr st) (map (fix_record (ro_sd st)) rrs)\<rparr>))
         else if map (fix_record (ro_sd st)) rrs = [] then no_records he p target (st\<lparr>ro_rr := last_or (ro_rr st) (map (fix_record (ro_sd st)) rrs)\<rparr>)
         else some_records he p target (map (fix_record (ro_sd st)) rrs) (weDone p rrs, weHaveUnauth p (ro_sd st) rrs, weRedirected p rrs)
                (st\<lparr>ro_rr := last_or (ro_rr st) (map (fix_record (ro_sd st)) rrs)\<rparr>)))"
    by (intro steps asks kept_noerror kept_no_records kept_some) auto
qed (rule kept_all)

lemma kept_round:
  assumes "\<And>n z. bk_lookup (he_B he) n qt_ANY target z = ([], None) \<Longrightarrow> R rcode_NXDomain"
  shows "kept P (answer_round he p first target st)"
  unfolding answer_round_def Let_def by (intro steps asks kept_no_authority kept_early kept_zone_records assms)

lemma kept_sign: "kept P (addRRSigs B mem reg e authSet)"
proof -
  have "kept P (sign_group B mem authSet st)" for st
    unfolding sign_group_def addSignature_def getPreRRSIGs_def Let_def by (intro steps kept_rrset)
  then have "kept P (sign_records B mem reg e authSet first rrs st)" for first rrs st
    by (induction B mem reg e authSet first rrs st rule: sign_records.induct) (auto simp: Let_def intro!: steps)
  then show ?thesis
    unfolding addRRSigs_def by (auto intro!: steps kept_update simp: rrs)
qed

lemma kept_edit: "kept P (editSOA B mem qname)"
  unfolding editSOA_def getCurrentInception_def Let_def by (intro steps kept_update) (rule rrs)

lemma kept_wrap: "kept P (wrapupP he)"
  using wrapped by (auto simp: kept_def wrapupP_def split: prod.splits) (metis fst_conv)

lemma kept_sendit: "kept P (sendit he p noCache st)"
  unfolding sendit_def by (intro steps kept_additional kept_edit kept_sign kept_wrap)

lemma kept_refuse: "R v \<Longrightarrow> kept P (refuse v)"
  unfolding refuse_def by (intro steps kept_rcode)

text \<open>The whole of an answer, when a denial is allowed after an empty lookup for one of the names reached.\<close>

lemma kept_rounds:
  assumes deny: "\<And>t n z. t = dp_qdomain p \<or> alias_target he t \<Longrightarrow> bk_lookup (he_B he) n qt_ANY t z = ([], None) \<Longrightarrow> R rcode_NXDomain"
  shows "target = dp_qdomain p \<or> alias_target he target \<Longrightarrow> kept P (answer_rounds he p rounds first target st)"
proof (induction rounds arbitrary: first target st)
  case 0
  show ?case unfolding answer_rounds.simps by (intro steps)
next
  case (Suc rounds)
  show ?case
    unfolding answer_rounds.simps
  proof (rule kept_bind_value)
    show "kept P (answer_round he p first target st)"
      by (rule kept_round) (rule deny [OF Suc.prems])
    fix x s s'
    assume "answer_round he p first target st s = (Inr x, s')"
    then have "to_alias he x" using round_yields unfolding yields_def by blast
    then show "kept P (case x of (e, st) \<Rightarrow> (case e of SendIt \<Rightarrow> returnP (Some (False, st)) | Recurse \<Rightarrow> returnP (Some (True, st))
        | Retarget target \<Rightarrow> answer_rounds he p rounds False target st))"
      using Suc.IH by (cases x) (auto simp: to_alias_def intro: kept_rules split: round_end.splits)
  qed
qed

lemma kept_answer:
  assumes "\<And>t n z. t = dp_qdomain p \<or> alias_target he t \<Longrightarrow> bk_lookup (he_B he) n qt_ANY t z = ([], None) \<Longrightarrow> R rcode_NXDomain"
  shows "kept P (answer_question he p noCache)"
  unfolding answer_question_def Let_def
  by (intro steps kept_version kept_sendit kept_refuse kept_rounds assms) (auto intro: usual)

lemma kept_notify:
  "kept P (bindP (processNotify he p) (\<lambda>res.
    if res \<ge> 0 then bindP (updateP (\<lambda>r. setOpcode 4 (setRcode res r))) (\<lambda>_. returnP ReplyR) else returnP NoReply))"
proof (rule kept_bind_value)
  show "kept P (processNotify he p)"
    unfolding processNotify_def trySuperMaster_def trySuperMasterSynchronous_def Let_def by (intro steps)
  fix res s s'
  assume "processNotify he p s = (Inr res, s')"
  then have "R res" using notify_yields usual unfolding yields_def by blast
  then show "kept P (if res \<ge> 0 then bindP (updateP (\<lambda>r. setOpcode 4 (setRcode res r))) (\<lambda>_. returnP ReplyR) else returnP NoReply)"
    by (intro steps kept_update opcode rcode)
qed

lemma kept_opcode:
  assumes "\<And>t n z. t = dp_qdomain p \<or> alias_target he t \<Longrightarrow> bk_lookup (he_B he) n qt_ANY t z = ([], None) \<Longrightarrow> R rcode_NXDomain"
  shows "kept P (answer_opcode he p noCache)"
  unfolding answer_opcode_def
  by (intro steps kept_refuse kept_notify kept_answer kept_update ra assms) (auto intro: usual)

lemma kept_exception:
  assumes "P (replyPacket (he_packet_mem he) p)"
  shows "kept P (after_exception he p e)"
proof -
  have fresh: "kept P (bindP (updateP (\<lambda>_. replyPacket (he_packet_mem he) p)) (\<lambda>_. refuse rcode_ServFail))"
    by (intro steps kept_refuse kept_update) (auto intro: usual assms)
  show ?thesis by (cases e) (auto intro!: kept_lift kept_refuse usual fresh simp del: bindP_def)
qed

lemma reply_kept:
  assumes reply: "questionOrRecurse he p s = (Inr (ReplyR, p'), s')"
    and fresh: "\<And>q. q = p \<or> (\<exists>trc k sec mac. q = setTSIGDetails trc k sec mac False p) \<Longrightarrow> P (replyPacket (he_packet_mem he) q)"
    and deny: "\<And>t n z. t = dp_qdomain p \<or> alias_target he t \<Longrightarrow> bk_lookup (he_B he) n qt_ANY t z = ([], None) \<Longrightarrow> R rcode_NXDomain"
  shows "P (ph_r s')"
proof -
  have qr: "\<not> hdr_qr (dp_d p)"
    using reply by (auto simp: questionOrRecurse_def returnP_def)
  obtain ok q where sig: "check_signature he p = Inr (ok, q)"
    using reply qr by (cases "check_signature he p") (auto simp: questionOrRecurse_def bindP_def liftP_def)
  have q: "q = p \<or> (\<exists>trc k sec mac. q = setTSIGDetails trc k sec mac False p)"
    using sig by (auto simp: check_signature_def split: if_splits)
  then have d: "dp_qdomain q = dp_qdomain p" by (auto simp: setTSIGDetails_def)
  let ?rest = "\<lambda>_ :: unit. if \<not> ok then bindP (refuse rcode_NotAuth) (\<lambda>reply. returnP (reply, q))
      else bindP (catchP (answer_opcode he q (dp_havetsig q)) (after_exception he q)) (\<lambda>reply. returnP (reply, q))"
  have "kept P (?rest ())"
    by (intro steps kept_refuse kept_opcode kept_exception fresh q deny) (auto intro: usual simp: d)
  moreover have "?rest () (s\<lparr> ph_r := replyPacket (he_packet_mem he) q \<rparr>) = (Inr (ReplyR, p'), s')"
    using reply qr sig by (simp add: questionOrRecurse_def bind_lift bind_update)
  moreover have "P (ph_r (s\<lparr> ph_r := replyPacket (he_packet_mem he) q \<rparr>))" using fresh [OF q] by simp
  ultimately show ?thesis unfolding kept_def by (metis snd_conv)
qed

end

end
