(* ===== verification/AnsweringSafe.thy ===== *)
theory AnsweringSafe
  imports AnsweringProps
begin

text \<open>
  The reply repeats the question, and a name is only denied after a lookup of all its records came out empty:
  two interpretations of \<open>packet_kept\<close>.
\<close>

lemma wrapup_fields:
  "dp_d (fst (wrapup w p)) = dp_d p" "dp_qdomain (fst (wrapup w p)) = dp_qdomain p" "dp_qtype (fst (wrapup w p)) = dp_qtype p"
  "dp_qclass (fst (wrapup w p)) = dp_qclass p" "dp_remote (fst (wrapup w p)) = dp_remote p" "dp_socket (fst (wrapup w p)) = dp_socket p"
  by (simp_all add: wrapup_def Let_def split: sum.split prod.split)

subsection \<open>The question\<close>

definition same_question :: "DNSPacket \<Rightarrow> DNSPacket \<Rightarrow> bool" where
  "same_question p r \<longleftrightarrow>
     hdr_id (dp_d r) = hdr_id (dp_d p) \<and> hdr_rd (dp_d r) = hdr_rd (dp_d p) \<and> hdr_qr (dp_d r) \<and> dp_qdomain r = dp_qdomain p \<and>
     dp_qtype r = dp_qtype p \<and> dp_qclass r = dp_qclass p \<and> dp_remote r = dp_remote p \<and> dp_socket r = dp_socket p"

interpretation asked: packet_kept "same_question p" "\<lambda>_. True" for p
  by unfold_locales (auto simp: same_question_def setRcode_def setA_def setRA_def setOpcode_def wrapup_fields)

lemma fresh_question: "same_question q (replyPacket mem q)"
  by (simp add: same_question_def replyPacket_def Let_def DNSPacket_init_def setOpcode_def setID_def setRD_def setRA_def setA_def setAnswer_def)

text \<open>
  Property C6. Whatever backends and key keeper answer, a reply goes to the socket and address the query came
  from, repeats its identifier, its wish for recursion and its question, and is marked as a reply.
\<close>

theorem reply_matches_question:
  assumes "questionOrRecurse he p s = (Inr (ReplyR, p'), s')"
  shows "same_question p (ph_r s')"
proof (rule asked.reply_kept [OF assms])
  fix q
  assume "q = p \<or> (\<exists>trc k sec mac. q = setTSIGDetails trc k sec mac False p)"
  then show "same_question p (replyPacket (he_packet_mem he) q)"
    using fresh_question [of q] by (auto simp: same_question_def setTSIGDetails_def)
qed simp

subsection \<open>Denials\<close>

lemma rcode_word: "v \<in> {0, 2, 4, 5, 9} \<Longrightarrow> word_of_int v \<noteq> (3 :: 4 word)" by auto

interpretation undenied: packet_kept "\<lambda>r. hdr_rcode (dp_d r) \<noteq> 3" "\<lambda>v. word_of_int v \<noteq> (3 :: 4 word)"
  by unfold_locales
    (auto simp: setRcode_def setA_def setRA_def setOpcode_def wrapup_fields rcode_NoError_def rcode_ServFail_def rcode_NotImp_def
       rcode_Refused_def rcode_NotAuth_def)

lemma fresh_rcode: "hdr_rcode (dp_d (replyPacket mem q)) = 0"
  by (simp add: replyPacket_def Let_def DNSPacket_init_def setOpcode_def setID_def setRD_def setRA_def setA_def setAnswer_def dnsheader_of_def)

text \<open>The packet of a state denies a name. A step that is no denial is passed with its result, or ends everything.\<close>

definition denied :: "ph_state \<Rightarrow> bool" where
  "denied s \<longleftrightarrow> hdr_rcode (dp_d (ph_r s)) = 3"

abbreviation harmless :: "'a ph \<Rightarrow> bool" where
  "harmless \<equiv> kept (\<lambda>r. hdr_rcode (dp_d r) \<noteq> 3)"

lemma harmlessD: "harmless m \<Longrightarrow> m s = (r, s') \<Longrightarrow> \<not> denied s \<Longrightarrow> \<not> denied s'"
  unfolding kept_def denied_def by (metis snd_conv)

lemma denied_bind:
  assumes "bindP m f s = (Inr b, s')" "harmless m" "\<not> denied s" "denied s'"
  obtains a s1 where "m s = (Inr a, s1)" "\<not> denied s1" "f a s1 = (Inr b, s')"
proof -
  obtain r s1 where m: "m s = (r, s1)" by (cases "m s")
  with assms(1) obtain a where "r = Inr a" by (cases r) (auto simp: bindP_def)
  then show thesis using that m harmlessD [OF assms(2) m assms(3)] assms(1) by (simp add: bindP_def)
qed

lemma denied_before:
  assumes "bindP m f s = (Inr b, s')" "denied s'" "\<And>a. harmless (f a)"
  obtains a s1 where "m s = (Inr a, s1)" "denied s1" "f a s1 = (Inr b, s')"
proof -
  obtain r s1 where m: "m s = (r, s1)" by (cases "m s")
  with assms(1) obtain a where "r = Inr a" by (cases r) (auto simp: bindP_def)
  then show thesis using that m harmlessD [OF assms(3)] assms(1,2) by (auto simp: bindP_def)
qed

lemma lookup_allD:
  "lookup_all B qt q z s = (Inr rrs, s') \<Longrightarrow> bk_lookup B (ph_steps s) qt q z = (rrs, None) \<and> s' = s\<lparr> ph_steps := ph_steps s + 1 \<rparr>"
  by (auto simp: lookup_all_def askP_def split: prod.splits option.splits)

text \<open>
  The rounds of an answer: from one target to the next, as the records of aliases lead. Then what happens in a round
  that denies its target: the zone it is in, no answer before its records, the lookup of all records of the target
  in that zone, which has none, and the search for a wildcard.
\<close>

inductive reaches :: "handler_env \<Rightarrow> DNSPacket \<Rightarrow> nat \<Rightarrow> bool \<times> string \<times> round_state \<times> ph_state \<Rightarrow> bool \<times> string \<times> round_state \<times> ph_state \<Rightarrow> bool"
  for he p where
  reaches_here: "reaches he p 0 x x"
| reaches_next: "answer_round he p first target st s = (Inr (Retarget target', st'), s') \<Longrightarrow> reaches he p n (False, target', st', s') y \<Longrightarrow>
    reaches he p (Suc n) (first, target, st, s) y"

inductive_simps reaches_simps: "reaches he p 0 x y" "reaches he p (Suc n) (first, target, st, s) y"

definition nothing_found :: "handler_env \<Rightarrow> DNSPacket \<Rightarrow> string \<Rightarrow> round_state \<Rightarrow> ph_state \<Rightarrow> bool" where
  "nothing_found he p target st s \<longleftrightarrow>
     (\<exists>sd s1 s2 s3 s4. getAuth he p target (ro_sd st) s = (Inr (True, sd), s1) \<and>
        early_answer he p target (st\<lparr> ro_sd := sd, ro_authSet := names_insert (soa_qname sd) (ro_authSet st) \<rparr>) s1 = (Inr False, s2) \<and>
        bk_lookup (he_B he) (ph_steps s2) qt_ANY target (soa_domain_id sd) = ([], None) \<and>
        (if dp_qtype p = qt_DS then tryReferral he p sd target else returnP False) (s2\<lparr> ph_steps := ph_steps s2 + 1 \<rparr>) = (Inr False, s3) \<and>
        getBestWildcard he p sd target s3 = (Inr None, s4))"

lemma reaches_target:
  "reaches he p n (first, t, st, s) (first', t', st', s') \<Longrightarrow> t' = t \<or> alias_target he t'"
proof (induction n arbitrary: first t st s)
  case (Suc n)
  then obtain u st1 s1 where r: "answer_round he p first t st s = (Inr (Retarget u, st1), s1)" and
    n: "reaches he p n (False, u, st1, s1) (first', t', st', s')" by (auto simp: reaches_simps)
  then have "alias_target he u" using round_yields [of he p first t st] unfolding yields_def to_alias_def by blast
  then show ?case using Suc.IH [OF n] by auto
qed (simp add: reaches_simps)

lemma no_records_denied:
  assumes "no_records he p target st s = (Inr x, s')" "\<not> denied s" "denied s'"
  shows "\<exists>s3 s4. (if dp_qtype p = qt_DS then tryReferral he p (ro_sd st) target else returnP False) s = (Inr False, s3) \<and>
    getBestWildcard he p (ro_sd st) target s3 = (Inr None, s4)"
proof -
  have "harmless (if dp_qtype p = qt_DS then tryReferral he p (ro_sd st) target else returnP False)"
    by (intro undenied.steps undenied.kept_referral)
  note referral = this
  obtain referred s3 where
    1: "(if dp_qtype p = qt_DS then tryReferral he p (ro_sd st) target else returnP False) s = (Inr referred, s3)" "\<not> denied s3"
    and 2: "(if referred then returnP (SendIt, st)
         else bindP (tryWildcard he p (ro_sd st) target) (\<lambda>(found, wereRetargeted, nodata, target).
           if \<not> found then bindP (makeNXDomain he p target (ro_sd st)) (\<lambda>_. returnP (SendIt, st))
           else if wereRetargeted then returnP (Retarget target, st)
           else bindP (if nodata then makeNOError he p target (ro_sd st) else returnP ()) (\<lambda>_. returnP (SendIt, st)))) s3 = (Inr x, s')"
    by (rule denied_bind [OF assms(1) [unfolded no_records_def Let_def] referral assms(2,3)])
  have r: "\<not> referred" using 1(2) 2 assms(3) by (auto simp: returnP_def)
  obtain w s4 where
    3: "tryWildcard he p (ro_sd st) target s3 = (Inr w, s4)" "\<not> denied s4"
    and 4: "(case w of (found, wereRetargeted, nodata, target) \<Rightarrow>
           if \<not> found then bindP (makeNXDomain he p target (ro_sd st)) (\<lambda>_. returnP (SendIt, st))
           else if wereRetargeted then returnP (Retarget target, st)
           else bindP (if nodata then makeNOError he p target (ro_sd st) else returnP ()) (\<lambda>_. returnP (SendIt, st))) s4 = (Inr x, s')"
    by (rule denied_bind [OF 2 [unfolded if_not_P [OF r]] undenied.kept_wildcard 1(2) assms(3)])
  obtain found wr nodata t where w: "w = (found, wr, nodata, t)" by (cases w)
  have "\<not> found"
  proof
    assume f: "found"
    have "harmless (if wr then returnP (Retarget t, st) else bindP (if nodata then makeNOError he p t (ro_sd st) else returnP ()) (\<lambda>_. returnP (SendIt, st)))"
      by (intro undenied.steps undenied.kept_noerror)
    from harmlessD [OF this _ 3(2)] 4 w f assms(3) show False by auto
  qed
  then have "\<exists>s4. getBestWildcard he p (ro_sd st) target s3 = (Inr None, s4)"
    using 3(1) w by (auto simp: tryWildcard_def bindP_def returnP_def split: prod.splits sum.splits option.splits)
  with 1(1) r show ?thesis by auto
qed

lemma zone_denied:
  assumes "zone_records he p target st s = (Inr x, s')" "\<not> denied s" "denied s'"
  shows "\<exists>s3 s4. bk_lookup (he_B he) (ph_steps s) qt_ANY target (soa_domain_id (ro_sd st)) = ([], None) \<and>
    (if dp_qtype p = qt_DS then tryReferral he p (ro_sd st) target else returnP False) (s\<lparr> ph_steps := ph_steps s + 1 \<rparr>) = (Inr False, s3) \<and>
    getBestWildcard he p (ro_sd st) target s3 = (Inr None, s4)"
proof -
  let ?sd = "ro_sd st"
  let ?rest = "\<lambda>rrs. bindP (if dp_qtype p = qt_DS \<and> weHaveUnauth p ?sd rrs \<and> \<not> weDone p rrs \<and> \<not> weRedirected p rrs
        then isSecured he (soa_qname ?sd) else returnP False)
      (\<lambda>denied. if denied then bindP (makeNOError he p target ?sd) (\<lambda>_. returnP (SendIt, st\<lparr>ro_rr := last_or (ro_rr st) (map (fix_record ?sd) rrs)\<rparr>))
         else if map (fix_record ?sd) rrs = [] then no_records he p target (st\<lparr>ro_rr := last_or (ro_rr st) (map (fix_record ?sd) rrs)\<rparr>)
         else some_records he p target (map (fix_record ?sd) rrs) (weDone p rrs, weHaveUnauth p ?sd rrs, weRedirected p rrs)
                (st\<lparr>ro_rr := last_or (ro_rr st) (map (fix_record ?sd) rrs)\<rparr>))"
  obtain rrs s1 where l: "lookup_all (he_B he) qt_ANY target (soa_domain_id ?sd) s = (Inr rrs, s1)" and s1: "\<not> denied s1" and r: "?rest rrs s1 = (Inr x, s')"
    by (rule denied_bind [OF assms(1) [unfolded zone_records_def Let_def] kept_all assms(2,3)])
  note l = lookup_allD [OF l]
  have "rrs = []"
  proof (rule ccontr)
    assume "rrs \<noteq> []"
    then have "harmless (?rest rrs)" by (intro undenied.steps undenied.asks undenied.kept_noerror undenied.kept_some) simp
    from harmlessD [OF this r s1] assms(3) show False by simp
  qed
  then have "no_records he p target (st\<lparr> ro_rr := last_or (ro_rr st) [] \<rparr>) s1 = (Inr x, s')"
    using r by (simp add: weHaveUnauth_def bind_return)
  from no_records_denied [OF this s1 assms(3)] show ?thesis using l \<open>rrs = []\<close> by (simp only: round_state.simps) auto
qed

lemma round_denied:
  assumes "answer_round he p first target st s = (Inr x, s')" "\<not> denied s" "denied s'"
  shows "nothing_found he p target st s"
proof -
  obtain a s1 where ga: "getAuth he p target (ro_sd st) s = (Inr a, s1)" "\<not> denied s1"
    and ra: "(case a of (found, sd) \<Rightarrow> let st = st\<lparr> ro_sd := sd \<rparr>
       in if \<not> found then no_authority he first st
          else let st = st\<lparr> ro_authSet := names_insert (soa_qname sd) (ro_authSet st) \<rparr>
               in bindP (early_answer he p target st) (\<lambda>done. if done then returnP (SendIt, st) else zone_records he p target st)) s1 = (Inr x, s')"
    by (rule denied_bind [OF assms(1) [unfolded answer_round_def] undenied.kept_auth assms(2,3)])
  obtain found sd where a: "a = (found, sd)" by (cases a)
  note g = ga [unfolded a] and r = ra [unfolded a prod.case]
  have f: found
    using r g(2) assms(3) harmlessD [OF undenied.kept_no_authority, of he first "st\<lparr> ro_sd := sd \<rparr>" s1] by (auto simp: Let_def split: if_splits)
  let ?st = "st\<lparr> ro_sd := sd, ro_authSet := names_insert (soa_qname sd) (ro_authSet st) \<rparr>"
  have "bindP (early_answer he p target ?st) (\<lambda>done. if done then returnP (SendIt, ?st) else zone_records he p target ?st) s1 = (Inr x, s')"
    using r f by (simp add: Let_def cong: if_cong)
  note r' = this
  obtain answered s2 where e: "early_answer he p target ?st s1 = (Inr answered, s2)" "\<not> denied s2"
    and z: "(if answered then returnP (SendIt, ?st) else zone_records he p target ?st) s2 = (Inr x, s')"
    by (rule denied_bind [OF r' undenied.kept_early g(2) assms(3)])
  have d: "\<not> answered" using z e(2) assms(3) by (auto simp: returnP_def)
  have "zone_records he p target ?st s2 = (Inr x, s')" using z d by simp
  have sel: "ro_sd ?st = sd" by simp
  from zone_denied [OF \<open>zone_records he p target ?st s2 = (Inr x, s')\<close> e(2) assms(3)] obtain s3 s4 where
    "bk_lookup (he_B he) (ph_steps s2) qt_ANY target (soa_domain_id sd) = ([], None)"
    "(if dp_qtype p = qt_DS then tryReferral he p sd target else returnP False) (s2\<lparr> ph_steps := ph_steps s2 + 1 \<rparr>) = (Inr False, s3)"
    "getBestWildcard he p sd target s3 = (Inr None, s4)" unfolding sel by blast
  moreover have "getAuth he p target (ro_sd st) s = (Inr (True, sd), s1)" "early_answer he p target ?st s1 = (Inr False, s2)"
    using g(1) f e(1) d by simp_all
  ultimately show ?thesis unfolding nothing_found_def by blast
qed

lemma rounds_denied:
  assumes "answer_rounds he p rounds first target st s = (Inr x, s')" "\<not> denied s" "denied s'"
  shows "\<exists>n first' t st' s1. n < rounds \<and> reaches he p n (first, target, st, s) (first', t, st', s1) \<and> nothing_found he p t st' s1"
  using assms
proof (induction rounds arbitrary: first target st s)
  case 0
  then have "hdr_rcode (dp_d (ph_r s')) = 2" by (auto simp: bind_update returnP_def setRcode_def rcode_ServFail_def)
  then show ?case using 0(3) by (simp add: denied_def)
next
  case (Suc rounds)
  obtain r s1 where m: "answer_round he p first target st s = (r, s1)" by (cases "answer_round he p first target st s")
  with Suc.prems(1) obtain e st1 where r: "r = Inr (e, st1)" by (cases r) (auto simp: bindP_def)
  show ?case
  proof (cases "denied s1")
    case True
    from round_denied [OF m [unfolded r] Suc.prems(2) this] show ?thesis using reaches_here by blast
  next
    case False
    then obtain t where e: "e = Retarget t" and onward: "answer_rounds he p rounds False t st1 s1 = (Inr x, s')"
      using Suc.prems(1,3) m r by (cases e) (auto simp: bindP_def returnP_def)
    from Suc.IH [OF onward False Suc.prems(3)] obtain n first' u st' s2 where
      "n < rounds" "reaches he p n (False, t, st1, s1) (first', u, st', s2)" "nothing_found he p u st' s2" by blast
    with m r e show ?thesis by (metis Suc_less_eq reaches_next)
  qed
qed

text \<open>Where the rounds begin.\<close>

definition round_start :: "handler_env \<Rightarrow> DNSPacket \<Rightarrow> DNSPacket \<Rightarrow> ph_state \<Rightarrow> bool \<times> string \<times> round_state \<times> ph_state" where
  "round_start he p r s =
     (True, dp_qdomain p, \<lparr> ro_sd = new_soa he None, ro_authSet = [], ro_rr = new_rr he \<rparr>, s\<lparr> ph_r := r \<rparr>)"


lemma question_denied:
  assumes "answer_question he p noCache s = (Inr x, s')" "\<not> denied s" "denied s'"
  shows "\<exists>r st s1. \<not> denied (s\<lparr> ph_r := r \<rparr>) \<and> denied s1 \<and>
    answer_rounds he p max_rounds True (dp_qdomain p) \<lparr> ro_sd = new_soa he None, ro_authSet = [], ro_rr = new_rr he \<rparr> (s\<lparr> ph_r := r \<rparr>) = (Inr st, s1)"
proof -
  let ?st = "\<lparr> ro_sd = new_soa he None, ro_authSet = [], ro_rr = new_rr he \<rparr>"
  let ?send = "\<lambda>st. bindP (sendit he p noCache st) (\<lambda>_. returnP ReplyR)"
  let ?rounds = "bindP (answer_rounds he p max_rounds True (dp_qdomain p) ?st) (\<lambda>e. case e of None \<Rightarrow> returnP ReplyR
     | Some (recurse, st) \<Rightarrow> if recurse then returnP RecurseR else ?send st)"
  let ?byclass = "bindP (if dp_qclass p = 255 then updateP (setA False) else returnP ()) (\<lambda>_. if dp_qclass p \<noteq> 255 \<and> dp_qclass p \<noteq> 1 then ?send ?st else ?rounds)"
  have send: "harmless (?send st)" for st by (intro undenied.steps undenied.kept_sendit)
  have refuse: "harmless (refuse rcode)" if "rcode \<in> {2, 4}" for rcode
    by (rule undenied.kept_refuse) (use that in auto)
  have type: "\<not> dp_qtype p = qt_IXFR"
  proof
    assume "dp_qtype p = qt_IXFR"
    then have "refuse rcode_NotImp s = (Inr x, s')" using assms(1) by (simp add: answer_question_def Let_def)
    from harmlessD [OF refuse this assms(2)] assms(3) show False by (simp add: rcode_NotImp_def)
  qed
  have fancy: "\<not> (he_fancy he \<and> (dp_qtype p = qt_URL \<or> dp_qtype p = qt_CURL \<or> dp_qtype p = qt_MBOXFW))"
  proof
    assume f: "he_fancy he \<and> (dp_qtype p = qt_URL \<or> dp_qtype p = qt_CURL \<or> dp_qtype p = qt_MBOXFW)"
    have "refuse rcode_ServFail s = (Inr x, s')"
      using assms(1) unfolding answer_question_def Let_def if_not_P [OF type] if_P [OF f] .
    from harmlessD [OF refuse this assms(2)] assms(3) show False by (simp add: rcode_ServFail_def)
  qed
  have "bindP (doVersionRequest he p (dp_qdomain p)) (\<lambda>done. if done then ?send ?st else ?byclass) s = (Inr x, s')"
    using assms(1) unfolding answer_question_def Let_def if_not_P [OF type] if_not_P [OF fancy] .
  from denied_bind [OF this undenied.kept_version assms(2,3)] obtain version s1 where
    v: "doVersionRequest he p (dp_qdomain p) s = (Inr version, s1)" "\<not> denied s1" "(if version then ?send ?st else ?byclass) s1 = (Inr x, s')" by blast
  have "\<not> version" using harmlessD [OF send _ v(2)] v(3) assms(3) by auto
  moreover from this v(1) have "s1 = s"
    by (auto simp: doVersionRequest_def Let_def bindP_def returnP_def addP_def updateP_def split: if_splits)
  ultimately have c: "?byclass s = (Inr x, s')" using v(3) by simp
  obtain r where r: "?byclass s = (if dp_qclass p \<noteq> 255 \<and> dp_qclass p \<noteq> 1 then ?send ?st else ?rounds) (s\<lparr> ph_r := r \<rparr>)" "\<not> denied (s\<lparr> ph_r := r \<rparr>)"
  proof (cases "dp_qclass p = 255")
    case True
    then show thesis using that [of "setA False (ph_r s)"] assms(2) by (simp add: bind_update denied_def setA_def)
  next
    case False
    then show thesis using that [of "ph_r s"] assms(2) by (simp add: bind_return)
  qed
  have asked_class: "\<not> (dp_qclass p \<noteq> 255 \<and> dp_qclass p \<noteq> 1)"
  proof
    assume other: "dp_qclass p \<noteq> 255 \<and> dp_qclass p \<noteq> 1"
    have "?send ?st (s\<lparr> ph_r := r \<rparr>) = (Inr x, s')" using r(1) c unfolding if_P [OF other] by simp
    from harmlessD [OF send this r(2)] assms(3) show False by simp
  qed
  have "?rounds (s\<lparr> ph_r := r \<rparr>) = (Inr x, s')" using r(1) c unfolding if_not_P [OF asked_class] by simp
  moreover have "harmless (case e of None \<Rightarrow> returnP ReplyR | Some (recurse, st) \<Rightarrow> if recurse then returnP RecurseR else ?send st)" for e
    by (intro undenied.steps send)
  ultimately show ?thesis using r(2) by (auto elim!: denied_before [OF _ assms(3)])
qed

lemma opcode_denied:
  assumes "answer_opcode he p noCache s = (Inr x, s')" "\<not> denied s" "denied s'"
  shows "\<exists>r. \<not> denied (s\<lparr> ph_r := r \<rparr>) \<and> answer_question he p noCache (s\<lparr> ph_r := r \<rparr>) = (Inr x, s')"
proof -
  have refuse: "harmless (refuse rcode)" if "rcode \<in> {2, 4}" for rcode
    by (rule undenied.kept_refuse) (use that in auto)
  let ?notify = "bindP (processNotify he p) (\<lambda>res. if res \<ge> 0 then bindP (updateP (\<lambda>r. setOpcode 4 (setRcode res r))) (\<lambda>_. returnP ReplyR) else returnP NoReply)"
  let ?ask = "bindP (if hdr_rd (dp_d p) \<and> he_recursion he then liftP (he_recurseFor he (dp_remote p)) else returnP False) (\<lambda>ra.
           bindP (updateP (setRA ra)) (\<lambda>_. answer_question he p noCache))"
  have "answer_opcode he p noCache s = ?ask s"
  proof -
    have no: "m s \<noteq> (Inr x, s')" if "harmless m" for m :: "reply ph" using harmlessD [OF that _ assms(2)] assms(3) by blast
    show ?thesis
      using assms(1) no [OF refuse, of rcode_NotImp] no [OF refuse, of rcode_ServFail] no [OF undenied.kept_notify]
      by (auto simp: answer_opcode_def rcode_NotImp_def rcode_ServFail_def split: if_splits)
  qed
  then have ask: "?ask s = (Inr x, s')" using assms(1) by simp
  have "\<exists>ra. answer_question he p noCache (s\<lparr> ph_r := setRA ra (ph_r s) \<rparr>) = (Inr x, s')"
  proof (cases "hdr_rd (dp_d p) \<and> he_recursion he")
    case True
    with ask obtain ra where "he_recurseFor he (dp_remote p) = Inr ra"
      by (cases "he_recurseFor he (dp_remote p)") (auto simp: bindP_def liftP_def)
    with ask True have "answer_question he p noCache (s\<lparr> ph_r := setRA ra (ph_r s) \<rparr>) = (Inr x, s')" by (simp add: bind_lift bind_update)
    then show ?thesis by blast
  next
    case False
    with ask have "answer_question he p noCache (s\<lparr> ph_r := setRA False (ph_r s) \<rparr>) = (Inr x, s')" by (auto simp: bind_return bind_update)
    then show ?thesis by blast
  qed
  moreover have "\<not> denied (s\<lparr> ph_r := setRA ra (ph_r s) \<rparr>)" for ra using assms(2) by (simp add: denied_def setRA_def)
  ultimately show ?thesis by blast
qed

lemma exception_undenied: "after_exception he p e s = (Inr x, s') \<Longrightarrow> \<not> denied s'"
  by (cases e) (auto simp: refuse_def bind_update returnP_def liftP_def setRcode_def rcode_ServFail_def denied_def)

text \<open>
  Property C5. When a reply says that the name does not exist, this answer has found so: the rounds began with the
  name asked for, and led through at most ten aliases to a name that is the one asked for or the target of an
  alias record of the backends. In the round for this name the closest zone was found, the lookup of all records of
  the name in this zone, made at that moment, came out empty, and so did the search for a wildcard above it.
\<close>

theorem denied_after_lookup:
  assumes "questionOrRecurse he p s = (Inr (ReplyR, p'), s')" "hdr_rcode (dp_d (ph_r s')) = 3"
  shows "\<exists>r n first t st s1. reaches he p' n (round_start he p' r s) (first, t, st, s1) \<and> n \<le> 10 \<and>
    (t = dp_qdomain p \<or> alias_target he t) \<and> nothing_found he p' t st s1"
proof -
  have qr: "\<not> hdr_qr (dp_d p)" using assms(1) by (auto simp: questionOrRecurse_def returnP_def)
  obtain ok q where sig: "check_signature he p = Inr (ok, q)"
    using assms(1) qr by (cases "check_signature he p") (auto simp: questionOrRecurse_def bindP_def liftP_def)
  then have d: "dp_qdomain q = dp_qdomain p" by (auto simp: check_signature_def setTSIGDetails_def split: if_splits)
  let ?s = "s\<lparr> ph_r := replyPacket (he_packet_mem he) q \<rparr>"
  have s: "\<not> denied ?s" and s': "denied s'" using assms(2) by (simp_all add: denied_def fresh_rcode)
  have run: "(if \<not> ok then bindP (refuse rcode_NotAuth) (\<lambda>reply. returnP (reply, q))
      else bindP (catchP (answer_opcode he q (dp_havetsig q)) (after_exception he q)) (\<lambda>reply. returnP (reply, q))) ?s = (Inr (ReplyR, p'), s')"
    using assms(1) qr sig by (simp add: questionOrRecurse_def bind_lift bind_update)
  have ok
  proof (rule ccontr)
    assume n: "\<not> ok"
    show False using run [unfolded if_P [OF n]] s' by (auto simp: refuse_def bindP_def updateP_def returnP_def setRcode_def rcode_NotAuth_def denied_def)
  qed
  then have "catchP (answer_opcode he q (dp_havetsig q)) (after_exception he q) ?s = (Inr ReplyR, s')" and q: "p' = q"
    using run by (auto simp: bindP_def returnP_def split: prod.splits sum.splits)
  then have "answer_opcode he q (dp_havetsig q) ?s = (Inr ReplyR, s')"
    using exception_undenied s' by (auto simp: catchP_def split: prod.splits sum.splits)
  from opcode_denied [OF this s s'] obtain r1 where "\<not> denied (s\<lparr> ph_r := r1 \<rparr>)" "answer_question he q (dp_havetsig q) (s\<lparr> ph_r := r1 \<rparr>) = (Inr ReplyR, s')"
    by auto
  from question_denied [OF this(2,1) s'] obtain r st s1 where
    "\<not> denied (s\<lparr> ph_r := r \<rparr>)" "denied s1"
    "answer_rounds he q max_rounds True (dp_qdomain q) \<lparr> ro_sd = new_soa he None, ro_authSet = [], ro_rr = new_rr he \<rparr> (s\<lparr> ph_r := r \<rparr>) = (Inr st, s1)"
    by auto
  from rounds_denied [OF this(3,1,2)] obtain n first t st' s2 where n: "n < max_rounds" and
    "reaches he q n (round_start he q r s) (first, t, st', s2)" and "nothing_found he q t st' s2" unfolding round_start_def by blast
  moreover from this(2) have "t = dp_qdomain p \<or> alias_target he t"
    using reaches_target d unfolding round_start_def by metis
  moreover have "n \<le> 10" using n by (simp add: max_rounds_def)
  ultimately show ?thesis unfolding q by blast
qed

subsection \<open>Aliases that lead in a circle\<close>

text \<open>A step that does not fail, with what holds of its result.\<close>

definition always :: "('a \<Rightarrow> bool) \<Rightarrow> 'a ph \<Rightarrow> bool" where
  "always Q m \<longleftrightarrow> (\<forall>s. \<exists>a s'. m s = (Inr a, s') \<and> Q a)"

lemma always_return: "Q a \<Longrightarrow> always Q (returnP a)" by (simp add: always_def returnP_def)
lemma always_ask: "(\<And>n. \<exists>a. f n = Inr a \<and> Q a) \<Longrightarrow> always Q (askP f)" by (simp add: always_def askP_def)
lemma always_update: "Q () \<Longrightarrow> always Q (updateP f)" by (simp add: always_def updateP_def)

lemma always_bind:
  assumes "always Q' m" "\<And>a. Q' a \<Longrightarrow> always Q (f a)"
  shows "always Q (bindP m f)"
  unfolding always_def
proof
  fix s
  obtain a s1 where "m s = (Inr a, s1)" "Q' a" using assms(1) unfolding always_def by blast
  moreover from this obtain b s2 where "f a s1 = (Inr b, s2)" "Q b" using assms(2) unfolding always_def by blast
  ultimately show "\<exists>a s'. bindP m f s = (Inr a, s') \<and> Q a" by (simp add: bindP_def)
qed

text \<open>Types with no answer of their own before or besides the records, for which an alias counts.\<close>

definition ordinary_type :: "QType \<Rightarrow> bool" where
  "ordinary_type qt \<longleftrightarrow> qt \<notin> {qt_CNAME, qt_SOA, qt_DS, qt_DNSKEY, qt_NSEC3PARAM, qt_NSEC, qt_RRSIG, qt_IXFR, qt_URL, qt_CURL, qt_MBOXFW}"

lemma lookup_always:
  assumes "\<And>n. \<exists>rrs. bk_lookup B n qt q z = (rrs, None) \<and> Q rrs"
  shows "always Q (lookup_all B qt q z)"
  unfolding lookup_all_def
proof (rule always_ask)
  fix n
  obtain rrs where "bk_lookup B n qt q z = (rrs, None)" "Q rrs" using assms by blast
  then show "\<exists>a. (case bk_lookup B n qt q z of (rrs, None) \<Rightarrow> Inr rrs | (rrs, Some e) \<Rightarrow> Inl e) = Inr a \<and> Q a" by simp
qed

lemma auth_found:
  assumes type: "dp_qtype p \<noteq> qt_DS"
    and soa: "\<And>n d sd. \<exists>found sd'. bk_getSOA (he_B he) n d sd = Inr (found, sd')"
  shows "\<exists>d \<in> set ls. \<forall>n sd. \<exists>sd'. bk_getSOA (he_B he) n d sd = Inr (True, sd') \<Longrightarrow> always fst (auth_levels he p target ls sd)"
proof (induction ls arbitrary: sd)
  case (Cons subdomain ls)
  let ?zone = "\<forall>n sd. \<exists>sd'. bk_getSOA (he_B he) n subdomain sd = Inr (True, sd')"
  have "always (\<lambda>(found, sd). ?zone \<longrightarrow> found) (getSOA he subdomain sd)"
    unfolding getSOA_def
  proof (rule always_ask)
    fix n
    obtain found sd' where f: "bk_getSOA (he_B he) n subdomain sd = Inr (found, sd')" using soa by blast
    moreover have "found" if ?zone
    proof -
      from that obtain sd'' where "bk_getSOA (he_B he) n subdomain sd = Inr (True, sd'')" by blast
      with f show ?thesis by simp
    qed
    ultimately show "\<exists>a. bk_getSOA (he_B he) n subdomain sd = Inr a \<and> (case a of (found, sd) \<Rightarrow> ?zone \<longrightarrow> found)" by auto
  qed
  then show ?case
    unfolding auth_levels.simps
  proof (rule always_bind)
    fix a :: "bool \<times> SOAData"
    assume a: "case a of (found, sd) \<Rightarrow> ?zone \<longrightarrow> found"
    obtain found sd where found: "a = (found, sd)" by (cases a)
    have "always fst (auth_levels he p target ls sd)" if "\<not> found"
    proof (rule Cons.IH)
      have "\<not> ?zone" using a that found by simp
      then show "\<exists>d \<in> set ls. \<forall>n sd. \<exists>sd'. bk_getSOA (he_B he) n d sd = Inr (True, sd')" using Cons.prems by (simp only: set_simps bex_simps) blast
    qed
    then show "always fst (case a of (found, sd) \<Rightarrow> if found \<and> \<not> (dp_qtype p = qt_DS \<and> pdns_iequals subdomain target)
        then returnP (True, sd\<lparr> soa_qname := subdomain \<rparr>) else auth_levels he p target ls sd)"
      using type found by (auto intro: always_return)
  qed
qed simp

lemma no_referral:
  assumes ns: "\<And>n q z. bk_lookup (he_B he) n qt_NS q z = ([], None)"
  shows "always (\<lambda>done. \<not> done) (tryReferral he p sd target)"
proof -
  have "always (\<lambda>ret. ret = []) (referral_levels he sd ls)" for ls
  proof (induction ls)
    case (Cons subdomain ls)
    have "always (\<lambda>ret. ret = []) (lookup_all (he_B he) qt_NS subdomain (soa_domain_id sd))"
      by (rule lookup_always) (simp add: ns)
    then show ?case using Cons by (auto intro!: always_return intro: always_bind)
  qed (simp add: always_return)
  then have "always (\<lambda>ret. ret = []) (getBestReferralNS he sd target)" unfolding getBestReferralNS_def by blast
  then show ?thesis unfolding tryReferral_def by (rule always_bind) (simp add: always_return)
qed

lemma not_early:
  assumes type: "ordinary_type (dp_qtype p)"
    and ns: "\<And>n q z. bk_lookup (he_B he) n qt_NS q z = ([], None)"
  shows "always (\<lambda>done. \<not> done) (early_answer he p target st)"
proof -
  have none: "always (\<lambda>done. \<not> done) (returnP False)" by (simp add: always_return)
  have first: "(\<And>m. m \<in> set ms \<Longrightarrow> always (\<lambda>done. \<not> done) m) \<Longrightarrow> always (\<lambda>done. \<not> done) (first_of ms)" for ms
  proof (induction ms)
    case (Cons m ms)
    then show ?case
      unfolding first_of.simps by (intro always_bind [of "\<lambda>done. \<not> done" m]) auto
  qed (simp add: none)
  show ?thesis
    unfolding early_answer_def Let_def
    by (rule first)
      (use none no_referral [OF ns] type in \<open>auto simp: apex_answer_def doDNSKEYRequest_def doNSEC3PARAMRequest_def bind_return nsec_answer_def rrsig_answer_def
        ordinary_type_def\<close>)
qed

lemma alias_round:
  assumes type: "ordinary_type (dp_qtype p)"
    and soa: "\<And>n d sd. \<exists>found sd'. bk_getSOA (he_B he) n d sd = Inr (found, sd')"
    and zone: "\<exists>d \<in> set (target # name_parents target). \<forall>n sd. \<exists>sd'. bk_getSOA (he_B he) n d sd = Inr (True, sd')"
    and ns: "\<And>n q z. bk_lookup (he_B he) n qt_NS q z = ([], None)"
    and any: "\<And>n z. \<exists>rrs. bk_lookup (he_B he) n qt_ANY target z = (rrs, None) \<and> (\<exists>rr \<in> set rrs. rr_qtype rr = qt_CNAME)"
  shows "always (\<lambda>(e, st). \<exists>t. e = Retarget t) (answer_round he p first target st)"
proof -
  have records: "always (\<lambda>(e, st). \<exists>t. e = Retarget t) (zone_records he p target st)" for st
    unfolding zone_records_def Let_def
  proof (rule always_bind [OF lookup_always [OF any]])
    fix rrs :: "DNSResourceRecord list"
    assume "\<exists>rr \<in> set rrs. rr_qtype rr = qt_CNAME"
    moreover have cname: "dp_qtype p \<noteq> qt_CNAME" using type by (simp add: ordinary_type_def)
    ultimately have redirected: "weRedirected p rrs" "rrs \<noteq> []" "\<exists>rr. find (\<lambda>rr. rr_qtype rr = qt_CNAME) (map (fix_record (ro_sd st)) rrs) = Some rr"
      using cname by (auto simp: weRedirected_def fix_record_alias find_None_iff not_None_eq [symmetric] simp del: not_None_eq)
    then show "always (\<lambda>(e, st). \<exists>t. e = Retarget t)
      (bindP (if dp_qtype p = qt_DS \<and> weHaveUnauth p (ro_sd st) rrs \<and> \<not> weDone p rrs \<and> \<not> weRedirected p rrs
          then isSecured he (soa_qname (ro_sd st)) else returnP False)
        (\<lambda>denied. if denied then bindP (makeNOError he p target (ro_sd st)) (\<lambda>_. returnP (SendIt, st\<lparr>ro_rr := last_or (ro_rr st) (map (fix_record (ro_sd st)) rrs)\<rparr>))
           else if map (fix_record (ro_sd st)) rrs = [] then no_records he p target (st\<lparr>ro_rr := last_or (ro_rr st) (map (fix_record (ro_sd st)) rrs)\<rparr>)
           else some_records he p target (map (fix_record (ro_sd st)) rrs) (weDone p rrs, weHaveUnauth p (ro_sd st) rrs, weRedirected p rrs)
                  (st\<lparr>ro_rr := last_or (ro_rr st) (map (fix_record (ro_sd st)) rrs)\<rparr>)))"
      by (auto simp: bind_return some_records_def Let_def addP_def intro!: always_bind [OF always_update [of "\<lambda>_. True"]] always_return)
  qed
  have "dp_qtype p \<noteq> qt_DS" using type by (simp add: ordinary_type_def)
  then show ?thesis
    unfolding answer_round_def getAuth_def Let_def
    by (rule always_bind [OF auth_found [OF _ soa zone]])
      (auto intro!: always_bind [OF not_early [OF type ns]] records)
qed

text \<open>
  Property C11. Aliases that never lead to an answer come to an end. Take an unsigned query of class IN for an
  ordinary type, backends without failures and without delegations, with a zone for every name that is met - the name
  asked for and the targets of aliases - and an alias record for each of them. Then the answer goes through exactly
  eleven rounds from one name to the next, and the reply is a failure, with what was added to it until then.
\<close>

theorem alias_loop_servfail:
  assumes query: "\<not> hdr_qr (dp_d p)" "\<not> dp_havetsig p" "validDNSName (dp_qdomain p)" "hdr_opcode (dp_d p) = 0" "dp_qclass p = 1"
      "ordinary_type (dp_qtype p)"
    and recursion: "he_recurseFor he (dp_remote p) = Inr ra"
    and soa: "\<And>n d sd. \<exists>found sd'. bk_getSOA (he_B he) n d sd = Inr (found, sd')"
    and zone: "\<And>q. q = dp_qdomain p \<or> alias_target he q \<Longrightarrow>
      \<exists>d \<in> set (q # name_parents q). \<forall>n sd. \<exists>sd'. bk_getSOA (he_B he) n d sd = Inr (True, sd')"
    and ns: "\<And>n q z. bk_lookup (he_B he) n qt_NS q z = ([], None)"
    and any: "\<And>n q z. q = dp_qdomain p \<or> alias_target he q \<Longrightarrow>
      \<exists>rrs. bk_lookup (he_B he) n qt_ANY q z = (rrs, None) \<and> (\<exists>rr \<in> set rrs. rr_qtype rr = qt_CNAME)"
  shows "\<exists>t st s1. reaches he p 11
      (round_start he p (setRA (hdr_rd (dp_d p) \<and> he_recursion he \<and> ra) (replyPacket (he_packet_mem he) p)) s) (False, t, st, s1) \<and>
    questionOrRecurse he p s = (Inr (ReplyR, p), s1\<lparr> ph_r := setRcode 2 (ph_r s1) \<rparr>)"
proof -
  have rounds: "\<exists>t st' s1. reaches he p rounds (first, target, st, s) (rounds = 0 \<and> first, t, st', s1) \<and>
      answer_rounds he p rounds first target st s = (Inr None, s1\<lparr> ph_r := setRcode 2 (ph_r s1) \<rparr>)"
    if "target = dp_qdomain p \<or> alias_target he target" for rounds first target st and s :: ph_state
    using that
  proof (induction rounds arbitrary: first target st s)
    case 0
    show ?case by (auto simp: bind_update returnP_def rcode_ServFail_def intro: reaches_here)
  next
    case (Suc rounds)
    obtain t st' s1 where r: "answer_round he p first target st s = (Inr (Retarget t, st'), s1)"
      using alias_round [OF query(6) soa zone [OF Suc.prems] ns any [OF Suc.prems]] unfolding always_def by (auto split: prod.splits) blast
    then have "alias_target he t" using round_yields [of he p first target st] unfolding yields_def to_alias_def by blast
    then obtain u st1 s2 where "reaches he p rounds (False, t, st', s1) (False, u, st1, s2)"
      "answer_rounds he p rounds False t st' s1 = (Inr None, s2\<lparr> ph_r := setRcode 2 (ph_r s2) \<rparr>)"
      using Suc.IH [of t False st' s1] by auto
    with r reaches_next [OF r] show ?case by (fastforce simp: bindP_def)
  qed
  let ?ra = "hdr_rd (dp_d p) \<and> he_recursion he \<and> ra"
  let ?s = "s\<lparr> ph_r := setRA ?ra (replyPacket (he_packet_mem he) p) \<rparr>"
  let ?st = "\<lparr> ro_sd = new_soa he None, ro_authSet = [], ro_rr = new_rr he \<rparr>"
  obtain t st' s1 where s1: "reaches he p 11 (True, dp_qdomain p, ?st, ?s) (False, t, st', s1)"
    "answer_rounds he p max_rounds True (dp_qdomain p) ?st ?s = (Inr None, s1\<lparr> ph_r := setRcode 2 (ph_r s1) \<rparr>)"
    using rounds [of "dp_qdomain p" max_rounds True ?st ?s] by (auto simp: max_rounds_def)
  let ?s' = "s1\<lparr> ph_r := setRcode 2 (ph_r s1) \<rparr>"
  have "doVersionRequest he p (dp_qdomain p) = returnP False" using query by (simp add: doVersionRequest_def Let_def)
  with s1(2) query have "answer_question he p False ?s = (Inr ReplyR, ?s')"
    by (simp add: answer_question_def Let_def bind_return ordinary_type_def
        bindP_def [of "answer_rounds _ _ _ _ _ _"] returnP_def [of ReplyR])
  with query recursion have "answer_opcode he p False (s\<lparr> ph_r := replyPacket (he_packet_mem he) p \<rparr>) = (Inr ReplyR, ?s')"
    by (auto simp: answer_opcode_def bind_return bind_lift bind_update)
  then have "catchP (answer_opcode he p False) (after_exception he p) (s\<lparr> ph_r := replyPacket (he_packet_mem he) p \<rparr>) = (Inr ReplyR, ?s')"
    by (simp add: catchP_def)
  with query have "questionOrRecurse he p s = (Inr (ReplyR, p), ?s')"
    by (simp add: questionOrRecurse_def check_signature_def bind_lift bind_update bindP_def [of "catchP _ _"] returnP_def)
  with s1(1) show ?thesis unfolding round_start_def by blast
qed

end
