(* ===== verification/SigningProps.thy ===== *)
theory SigningProps
  imports AnsweringProps "HOL-Library.Sublist"
begin

text \<open>Signing keeps the records of an answer; the hashes around a hash are its neighbours.\<close>

subsection \<open>Hashes as numbers\<close>

definition hash_value :: "string \<Rightarrow> int" where
  "hash_value s = foldl (\<lambda>v c. v * 256 + int (ucode c)) 0 s"

fun low_first :: "string \<Rightarrow> int" where
  "low_first [] = 0"
| "low_first (c # s) = int (ucode c) + 256 * low_first s"

lemma low_first_append: "low_first (s @ [c]) = low_first s + 256 ^ length s * int (ucode c)"
  by (induction s) (auto simp: algebra_simps)

lemma hash_value_rev: "hash_value s = low_first (rev s)"
proof -
  have "foldl (\<lambda>v c. v * 256 + int (ucode c)) v s = v * 256 ^ length s + low_first (rev s)" for v
    by (induction s arbitrary: v) (auto simp: low_first_append algebra_simps)
  then show ?thesis by (simp add: hash_value_def)
qed

lemma ucode_byte: "int (ucode c) = uint (c2b c)" "int (ucode (b2c b)) = uint b"
  by (simp_all flip: unat_c2b)

lemma byte_range: "0 \<le> uint (b :: byte)" "uint b < 256"
  using unsigned_less [of b, where ?'a = int] by simp_all

lemma low_first_bounds: "0 \<le> low_first s" "low_first s < 256 ^ length s"
proof -
  have "0 \<le> low_first s \<and> low_first s < 256 ^ length s"
  proof (induction s)
    case (Cons c s)
    then have "low_first s + 1 \<le> 256 ^ length s" by simp
    then have "256 * low_first s + 256 \<le> 256 * 256 ^ length s" by simp
    then show ?case using Cons byte_range [of "c2b c"] by (simp add: ucode_byte)
  qed simp
  then show "0 \<le> low_first s" "low_first s < 256 ^ length s" by simp_all
qed

lemma add_byte_length [simp]: "length (add_byte d e s) = length s"
  by (induction s) (simp_all add: Let_def)

lemma byte_up: "uint ((b :: byte) + 1) = (if b + 1 = 0 then 0 else uint b + 1)" "b + 1 = 0 \<Longrightarrow> uint b = 255"
proof -
  have u: "uint (b + 1) = (uint b + 1) mod 256" by (simp add: uint_word_ariths)
  show "uint b = 255" if "b + 1 = 0"
  proof -
    have "(uint b + 1) mod 256 = 0" using u that by simp
    then show ?thesis using byte_range [of b] by presburger
  qed
  show "uint (b + 1) = (if b + 1 = 0 then 0 else uint b + 1)"
  proof (cases "uint b = 255")
    case True
    then have "uint (b + 1) = 0" using u by simp
    then have "b + 1 = 0" by (simp add: uint_0_iff)
    then show ?thesis by simp
  next
    case False
    then have "uint (b + 1) = uint b + 1" using u byte_range [of b] by simp
    then show ?thesis by auto
  qed
qed

lemma byte_down: "uint ((b :: byte) + - 1) = (if b + - 1 = 255 then 255 else uint b - 1)" "b + - 1 = 255 \<Longrightarrow> uint b = 0"
proof -
  have u: "b = (b + - 1) + 1" by simp
  have m: "(255 :: byte) = - 1" by simp
  have n: "uint (- 1 :: byte) = 255" by code_simp
  have z: "b + - 1 = 255 \<longleftrightarrow> b = 0" unfolding m by simp
  show "b + - 1 = 255 \<Longrightarrow> uint b = 0" using z by simp
  show "uint (b + - 1) = (if b + - 1 = 255 then 255 else uint b - 1)"
    using byte_up(1) [of "b + - 1"] u z n by auto
qed

lemma add_byte_up: "low_first (add_byte 1 0 s) = (low_first s + 1) mod 256 ^ length s"
proof (induction s)
  case (Cons c s)
  show ?case
  proof (cases "c2b c + 1 = 0")
    case True
    then have "low_first (add_byte 1 0 (c # s)) = 256 * ((low_first s + 1) mod 256 ^ length s)"
      using Cons by (simp add: ucode_byte Let_def)
    also have "\<dots> = (256 * (low_first s + 1)) mod (256 * 256 ^ length s)" by (simp add: mult_mod_right)
    also have "256 * (low_first s + 1) = low_first (c # s) + 1" using byte_up(2) [OF True] by (simp add: ucode_byte)
    finally show ?thesis by simp
  next
    case False
    then have "low_first (add_byte 1 0 (c # s)) = low_first (c # s) + 1"
      using byte_up(1) [of "c2b c"] by (simp add: ucode_byte Let_def)
    moreover have "0 \<le> low_first (c # s) + 1" "low_first (add_byte 1 0 (c # s)) < 256 ^ length (c # s)"
      using low_first_bounds(1) [of "c # s"] low_first_bounds(2) [of "add_byte 1 0 (c # s)"] by (simp_all del: add_byte.simps)
    ultimately show ?thesis by simp
  qed
qed simp

lemma add_byte_down: "low_first (add_byte (- 1) 255 s) = (low_first s - 1) mod 256 ^ length s"
proof (induction s)
  case (Cons c s)
  show ?case
  proof (cases "c2b c + - 1 = 255")
    case True
    let ?n = "256 ^ length s :: int"
    have "low_first (add_byte (- 1) 255 (c # s)) = 255 + 256 * ((low_first s - 1) mod ?n)"
      using Cons True by (simp add: ucode_byte Let_def)
    also have "\<dots> = (low_first (c # s) - 1) mod (256 * ?n)"
    proof -
      have "256 * ((low_first s - 1) mod ?n) = (256 * (low_first s - 1)) mod (256 * ?n)" by (simp add: mult_mod_right)
      moreover have "0 \<le> (low_first s - 1) mod ?n" "(low_first s - 1) mod ?n < ?n" by simp_all
      then have "0 \<le> 255 + 256 * ((low_first s - 1) mod ?n)" "(low_first s - 1) mod ?n + 1 \<le> ?n" by linarith+
      then have "0 \<le> 255 + 256 * ((low_first s - 1) mod ?n)" "255 + 256 * ((low_first s - 1) mod ?n) < 256 * ?n" by simp_all
      then have "(255 + 256 * ((low_first s - 1) mod ?n)) mod (256 * ?n) = 255 + 256 * ((low_first s - 1) mod ?n)" by simp
      ultimately have "255 + 256 * ((low_first s - 1) mod ?n) = (255 + 256 * (low_first s - 1)) mod (256 * ?n)"
        by (metis mod_add_right_eq)
      also have "255 + 256 * (low_first s - 1) = low_first (c # s) - 1" using byte_down(2) [OF True] by (simp add: ucode_byte)
      finally show ?thesis .
    qed
    finally show ?thesis by simp
  next
    case False
    then have "low_first (add_byte (- 1) 255 (c # s)) = low_first (c # s) - 1"
      using byte_down(1) [of "c2b c"] by (simp add: ucode_byte Let_def)
    moreover have "low_first (add_byte (- 1) 255 (c # s)) \<ge> 0" "low_first (c # s) - 1 < 256 ^ length (c # s)"
      using low_first_bounds(1) [of "add_byte (- 1) 255 (c # s)"] low_first_bounds(2) [of "c # s"] by (simp_all del: add_byte.simps)
    ultimately show ?thesis by simp
  qed
qed simp

lemma hash_steps:
  "hash_value (incrementHash s) = (hash_value s + 1) mod 256 ^ length s" "length (incrementHash s) = length s"
  "hash_value (decrementHash s) = (hash_value s - 1) mod 256 ^ length s" "length (decrementHash s) = length s"
  by (simp_all add: hash_value_rev incrementHash_def decrementHash_def add_byte_up add_byte_down)


text \<open>
  Property C40. For the hash of a name that is not there, a zone signed on the fly denies just this hash: the
  hashes before and after it, of the same length, are one less and one more as numbers, and wrap around.
\<close>

theorem narrow_hashes_are_neighbours:
  "\<exists>before after. getNSEC3Hashes he True sd hashed True (unhashed, b, a) s = (Inr (True, unhashed, before, after), s) \<and>
     length before = length hashed \<and> hash_value before = (hash_value hashed - 1) mod 256 ^ length hashed \<and>
     length after = length hashed \<and> hash_value after = (hash_value hashed + 1) mod 256 ^ length hashed"
  by (simp add: getNSEC3Hashes_def returnP_def hash_steps)

subsection \<open>Signed records\<close>

definition signature :: "backends \<Rightarrow> DNSResourceRecord \<Rightarrow> bool" where
  "signature B rr \<longleftrightarrow>
     rr_qtype rr = qt_RRSIG \<or>
     (\<exists>n q place. \<exists>rr0 \<in> set (fst (bk_lookup B n qt_RRSIG q (- 1))). rr = rr0\<lparr> rr_place := place \<rparr>)"

definition grows :: "backends \<Rightarrow> DNSResourceRecord list \<Rightarrow> DNSResourceRecord list \<Rightarrow> bool" where
  "grows B old new \<longleftrightarrow> (\<exists>extra. new = old @ extra \<and> (\<forall>rr \<in> set extra. signature B rr))"

lemma grows_refl: "grows B old old" by (auto simp: grows_def)

lemma pre_signed: "yields (grows B outsigned) (getPreRRSIGs B qname qtype place outsigned)"
proof -
  have "yields (\<lambda>rrs. \<forall>rr \<in> set rrs. \<exists>n. rr \<in> set (fst (bk_lookup B n qt_RRSIG qname (- 1)))) (lookup_all B qt_RRSIG qname (- 1))"
    unfolding yields_def
  proof (intro allI impI ballI)
    fix s rrs s' rr
    assume l: "lookup_all B qt_RRSIG qname (- 1) s = (Inr rrs, s')" and rr: "rr \<in> set rrs"
    obtain rrs' e where k: "bk_lookup B (ph_steps s) qt_RRSIG qname (- 1) = (rrs', e)" by fastforce
    then have "rrs' = rrs" using l by (cases e) (auto simp: lookup_all_def askP_def)
    then show "\<exists>n. rr \<in> set (fst (bk_lookup B n qt_RRSIG qname (- 1)))" using k rr by (metis fst_conv)
  qed
  then show ?thesis
    unfolding getPreRRSIGs_def by (rule yields_bind) (rule yields_return, force simp: grows_def signature_def)
qed

lemma added_signatures: "yields (\<lambda>(toSign, out). grows B outsigned out) (addSignature B mem signer q w t ttl place toSign outsigned)"
  unfolding addSignature_def Let_def
proof (intro yields_if)
  let ?Q = "\<lambda>(toSign, out). grows B outsigned out"
  show "yields ?Q (returnP (toSign, outsigned))" by (simp add: yields_return grows_refl)
  have pre: "yields ?Q (bindP (getPreRRSIGs B q t place outsigned) (\<lambda>outsigned. returnP ([], outsigned)))"
    by (rule yields_bind [OF pre_signed]) (simp add: yields_return)
  have made: "yields ?Q (case rrcs of None \<Rightarrow> returnP (toSign, outsigned) | Some sigs \<Rightarrow>
      returnP ([], outsigned @ map (\<lambda>text. (DNSResourceRecord_init qt_RRSIG ttl mem)\<lparr> rr_qname := q, rr_auth := False, rr_place := place, rr_content := text \<rparr>) sigs))" for rrcs
    by (intro yields_option yields_return) (auto simp: grows_def signature_def DNSResourceRecord_init_def)
  show "yields ?Q (bindP (askP (\<lambda>n. bk_presigned B n signer)) (\<lambda>presigned.
      if presigned then bindP (getPreRRSIGs B q t place outsigned) (\<lambda>outsigned. returnP ([], outsigned))
      else bindP (getRRSIGsForRRSET B signer (if w = [] then q else w) t ttl toSign (t = qt_DNSKEY)) (\<lambda>rrcs. case rrcs of
          None \<Rightarrow> returnP (toSign, outsigned)
        | Some sigs \<Rightarrow> returnP ([], outsigned @ map (\<lambda>text. (DNSResourceRecord_init qt_RRSIG ttl mem)
            \<lparr> rr_qname := q, rr_auth := False, rr_place := place, rr_content := text \<rparr>) sigs))))"
    by (rule yields_then, rule yields_if, rule pre, rule yields_then, rule made)
qed

lemma group_signed: "yields (\<lambda>st'. grows B (sn_signed st) (sn_signed st')) (sign_group B mem authSet st)"
  unfolding sign_group_def
  by (intro yields_option yields_return yields_bind [OF added_signatures]) (auto simp: grows_refl intro!: yields_return)

definition signed_with :: "backends \<Rightarrow> DNSResourceRecord list \<Rightarrow> DNSResourceRecord list \<Rightarrow> bool" where
  "signed_with B rrs new \<longleftrightarrow> subseq rrs new \<and> (\<forall>rr \<in> set new. rr \<in> set rrs \<or> signature B rr)"

lemma signed_with_step:
  assumes "grows B old mid" "signed_with B rrs new"
  shows "\<exists>rest. mid @ pos # new = old @ rest \<and> signed_with B (pos # rrs) rest"
proof -
  obtain extra where x: "mid = old @ extra" "\<forall>rr \<in> set extra. signature B rr" using assms(1) unfolding grows_def by blast
  have "signed_with B (pos # rrs) (extra @ pos # new)"
    using assms(2) x by (auto simp: signed_with_def intro: list_emb_append2)
  then show ?thesis using x by auto
qed

lemma records_signed:
  "yields (\<lambda>st'. \<exists>rest. sn_signed st' = sn_signed st @ rest \<and> signed_with B rrs rest) (sign_records B mem reg e authSet first rrs st)"
proof (induction rrs arbitrary: first st)
  case Nil
  have "signed_with B [] extra" if "\<forall>rr \<in> set extra. signature B rr" for extra
    using that by (simp add: signed_with_def)
  then show ?case using group_signed [of B st mem authSet] unfolding sign_records.simps yields_def grows_def by blast
next
  case (Cons pos rrs)
  show ?case
    unfolding sign_records.simps
  proof (rule yields_bind [of "\<lambda>st'. grows B (sn_signed st) (sn_signed st')"])
    show "yields (\<lambda>st'. grows B (sn_signed st) (sn_signed st'))
      (if \<not> first \<and> (sn_qtype st \<noteq> rr_qtype pos \<or> sn_qname st \<noteq> rr_qname pos) then sign_group B mem authSet st else returnP st)"
      by (intro yields_if group_signed yields_return grows_refl)
    fix st1 :: sign_state
    assume g: "grows B (sn_signed st) (sn_signed st1)"
    have step: "yields (\<lambda>st'. \<exists>rest. sn_signed st' = sn_signed st @ rest \<and> signed_with B (pos # rrs) rest)
        (sign_records B mem reg e authSet False rrs st2)" if "sn_signed st2 = sn_signed st1 @ [pos]" for st2
      using Cons.IH [of st2 False] that signed_with_step [OF g] unfolding yields_def by fastforce
    show "yields (\<lambda>st'. \<exists>rest. sn_signed st' = sn_signed st @ rest \<and> signed_with B (pos # rrs) rest)
      (let st = st1\<lparr>sn_signed := sn_signed st1 @ [pos], sn_qname := rr_qname pos, sn_wildcard := rr_wildcardname pos,
            sn_qtype := rr_qtype pos, sn_ttl := rr_ttl pos, sn_place := rr_place pos\<rparr>
       in if rr_auth pos \<or> rr_qtype pos = qt_DS
          then bindP (liftP (sign_content reg e pos)) (\<lambda>drc. sign_records B mem reg e authSet False rrs (st\<lparr>sn_toSign := sn_toSign st @ [drc]\<rparr>))
          else sign_records B mem reg e authSet False rrs st)"
      unfolding Let_def by (intro yields_if yields_then step) simp_all
  qed
qed

text \<open>
  Property C10. Signing an answer loses none of its records: they are all there, in the order of their
  sections and types, and what comes between them are signatures, made now or stored with the zone.
\<close>

theorem signing_keeps_records:
  assumes "addRRSigs B mem reg e authSet s = (Inr (), s')"
  shows "subseq (sort_key (\<lambda>rr. (Place_num (rr_place rr), rr_qtype rr)) (dp_rrs (ph_r s))) (dp_rrs (ph_r s')) \<and>
    (\<forall>rr \<in> set (dp_rrs (ph_r s')). rr \<in> set (dp_rrs (ph_r s)) \<or> signature B rr)"
proof -
  let ?rrs = "sort_key (\<lambda>rr. (Place_num (rr_place rr), rr_qtype rr)) (dp_rrs (ph_r s))"
  let ?s = "s\<lparr> ph_r := (ph_r s)\<lparr> dp_rrs := ?rrs \<rparr> \<rparr>"
  let ?st = "\<lparr> sn_qname = [], sn_wildcard = [], sn_qtype = 0, sn_ttl = 0, sn_place = ANSWER, sn_toSign = [], sn_signed = [] \<rparr>"
  have eq: "addRRSigs B mem reg e authSet s = (case sign_records B mem reg e authSet True ?rrs ?st ?s of
      (Inl e, s) \<Rightarrow> (Inl e, s) | (Inr st, s) \<Rightarrow> (Inr (), s\<lparr> ph_r := (ph_r s)\<lparr> dp_rrs := sn_signed st \<rparr> \<rparr>))"
    by (simp add: addRRSigs_def bindP_def withP_def updateP_def)
  then obtain st s1 where r: "sign_records B mem reg e authSet True ?rrs ?st ?s = (Inr st, s1)"
    using assms by (auto split: prod.splits sum.splits)
  then have "dp_rrs (ph_r s') = sn_signed st" using assms eq by auto
  moreover have "signed_with B ?rrs (sn_signed st)"
    using records_signed [of ?st B ?rrs mem reg e authSet True] r unfolding yields_def by fastforce
  ultimately show ?thesis by (auto simp: signed_with_def)
qed

end
