(* ===== verification/AnsweringExample.thy ===== *)
theory AnsweringExample
  imports AnsweringSafe SigningProps DnsPacketProps ThrottleProps
begin

text \<open>A server with one zone and nothing in it, or only aliases, and a question to it.\<close>

definition example_backends :: "(string \<Rightarrow> DNSResourceRecord list) \<Rightarrow> backends" where
  "example_backends records = \<lparr>
     bk_lookup = (\<lambda>n qt name z. (if qt = qt_ANY then records name else [], None)),
     bk_getSOA = (\<lambda>n d sd. Inr (True, sd\<lparr> soa_nameserver := ''.'', soa_hostmaster := ''.'' \<rparr>)), bk_names = (\<lambda>n db z zonename q b a. Inr (b, a)), bk_names_absolute = (\<lambda>n db z q u b a. Inr (True, u, b, a)),
     bk_secured = (\<lambda>n z. Inr False), bk_presigned = (\<lambda>n z. Inr False), bk_nsec3 = (\<lambda>n z. Inr None), bk_keys = (\<lambda>n z. Inr []),
     bk_meta = (\<lambda>n z k. Inr []), bk_sign = (\<lambda>n key q rrc cs. Inr []), bk_time = (\<lambda>n. 0), bk_localtime = (\<lambda>t. (0, 0, 0)), bk_asNum = (\<lambda>s. 0) \<rparr>"

definition example_soa :: SOAData where
  "example_soa = \<lparr> soa_qname = [], soa_nameserver = [], soa_hostmaster = [], soa_ttl = 0, soa_serial = 0, soa_refresh = 0, soa_retry = 0,
     soa_expire = 0, soa_default_ttl = 0, soa_domain_id = 0, soa_db = None, soa_scopeMask = 0 \<rparr>"

definition example_handler :: "(string \<Rightarrow> DNSResourceRecord list) \<Rightarrow> handler_env" where
  "example_handler records = \<lparr>
     he_B = example_backends records, he_wrap = example_wrap, he_packet_mem = example_memory, he_soa_mem = example_soa,
     he_domain_mem = 0, he_ttl_mem = 0, he_sha1 = (\<lambda>s. s), he_lib = \<lparr> al_aton = (\<lambda>s. None), al_pton4 = (\<lambda>s. None), al_addrinfo6 = (\<lambda>s. None), al_nameinfo = (\<lambda>a. ''::1'') \<rparr>,
     he_fancy = False, he_recursion = False, he_recurseFor = (\<lambda>a. Inr False), he_ipv6 = False, he_version_mode = [], he_version = [],
     he_send_root = False, he_root_referral = [], he_out_of_zone = ''yes'', he_urlredirector = [], he_smtpredirector = [], he_wildcard_url = False,
     he_slave = False, he_trusted = [], he_what = [], he_md5_mem = ([], []), he_tsig_time = 0, he_tsig_key = (\<lambda>a b. None), he_tsig_mem = example_tsig,
     he_writer_mem = example_writer, he_domain_info = (\<lambda>n z. Inr None), he_is_master = (\<lambda>n z a. Inr False), he_master_ns = (\<lambda>n r q. Inr None),
     he_super_master = (\<lambda>n r q l. Inr None) \<rparr>"

definition example_query :: DNSPacket where
  "example_query = example_memory\<lparr> dp_qdomain := ''.'', dp_qtype := 1 \<rparr>"

definition example_start :: ph_state where
  "example_start = \<lparr> ph_steps = 0, ph_r = example_memory, ph_out = [] \<rparr>"


definition reply_rcode :: "(reply \<times> DNSPacket) result \<times> ph_state \<Rightarrow> (reply \<times> 4 word) option" where
  "reply_rcode x = (case x of (Inl e, s) \<Rightarrow> None | (Inr (reply, p), s) \<Rightarrow> Some (reply, hdr_rcode (dp_d (ph_r s))))"

lemmas handler_defs = example_handler_def example_backends_def example_query_def example_start_def example_soa_def new_rr_def new_soa_def
  DNSResourceRecord_init_def example_memory_def

lemma parents_root: "name_parents ''.'' = [[]]"
  by (simp add: name_parents.simps [of "''.''"] name_parents.simps [of "[]"] chopOff_def)

lemmas step_defs = bindP_def returnP_def liftP_def updateP_def withP_def askP_def outP_def addP_def lookup_each_def lookup_all_def

lemma root_round:
  fixes st :: round_state and s :: ph_state
  assumes "\<not> hdr_ra (dp_d (ph_r s))"
  shows "\<exists>st' s'. answer_round (example_handler (\<lambda>_. [])) example_query True ''.'' st s = (Inr (SendIt, st'), s') \<and>
     ph_r s' = setRcode 3 (addRecord ((soa_record (example_handler (\<lambda>_. [])) ((ro_sd st)\<lparr> soa_nameserver := ''.'', soa_hostmaster := ''.'', soa_qname := ''.'' \<rparr>))\<lparr> rr_scopeMask := soa_scopeMask (ro_sd st) \<rparr>) (ph_r s))
     \<and> soa_qname (ro_sd st') = ''.''"
  by (simp add: answer_round_def getAuth_def getSOA_def step_defs handler_defs early_answer_def apex_answer_def Let_def parents_root
      doDNSKEYRequest_def doNSEC3PARAMRequest_def qt_DS_def qt_DNSKEY_def qt_NSEC3PARAM_def qt_SOA_def nsec_answer_def rrsig_answer_def
      qt_NSEC_def qt_RRSIG_def tryReferral_def getBestReferralNS_def zone_records_def weDone_def weHaveUnauth_def weRedirected_def no_records_def
      tryWildcard_def getBestWildcard_def makeNXDomain_def deny_def rcode_NXDomain_def soa_record_def last_or_def)


definition example_denial :: DNSPacket where
  "example_denial = setRcode 3 (addRecord (soa_record (example_handler (\<lambda>_. [])) (example_soa\<lparr> soa_nameserver := ''.'', soa_hostmaster := ''.'', soa_qname := ''.'' \<rparr>))
     (setRA False (replyPacket example_memory example_query)))"

lemma example_denial_fields:
  "dp_rrs example_denial = [soa_record (example_handler (\<lambda>_. [])) (example_soa\<lparr> soa_nameserver := ''.'', soa_hostmaster := ''.'', soa_qname := ''.'' \<rparr>)]"
  "\<not> dp_wrapped example_denial" "\<not> dp_wantsnsid example_denial" "dp_ednsping example_denial = []" "\<not> dp_haveednssubnet example_denial"
  "ts_algoName (dp_trc example_denial) = []" "reply_limit example_denial = 512" "dp_qdomain example_denial = ''.''"
  "dp_qtype example_denial = 1" "dp_qclass example_denial = 1" "\<not> dp_dnssecOk example_denial" "\<not> dp_tcp example_denial"
  "hdr_rcode (dp_d example_denial) = 3"
  by (simp_all add: example_denial_def setRcode_def addRecord_def setRA_def replyPacket_def Let_def DNSPacket_init_def setOpcode_def setID_def
      setRD_def setA_def setAnswer_def example_query_def example_memory_def reply_limit_def getMaxReplyLen_def)

lemma SOA_registered: "reg_zmakermap all_types (1, 6) = Some (MConv SOA_conv)"
  by (simp add: reportAllTypes_def reportOtherTypes_def reportBasicTypes_def run_reports_def report_defs regist_def
      empty_registry_def conv_defs qt_TSIG_def)

definition root_soa :: "field list" where
  "root_soa = [FLabel True ''.'', FLabel True ''.'', F32 0, F32 0, F32 0, F32 0, F32 0]"

lemma root_soa_read: "mastermake_text all_types e 6 1 (CHR ''.'' # CHR '' '' # CHR ''.'' # CHR '' '' # show_nat 0 @ CHR '' '' # show_nat 0 @ CHR '' '' # show_nat 0 @
    CHR '' '' # show_nat 0 @ CHR '' '' # show_nat 0) = Inr (RConv SOA_conv root_soa)"
proof -
  have "text_write_fields (\<lambda>n. []) (env_gmtime e) root_soa [] = CHR ''.'' # CHR '' '' # CHR ''.'' # CHR '' '' # show_nat 0 @ CHR '' '' # show_nat 0 @
      CHR '' '' # show_nat 0 @ CHR '' '' # show_nat 0 @ CHR '' '' # show_nat 0"
    by (simp add: root_soa_def tw_xfrLabel_def tw_xfr32BitInt_def sep_def)
  moreover have "list_all (text_ok (\<lambda>n. []) (TypeToNumber all_types) (env_gmtime e)) root_soa" "map ftype_of root_soa = conv_types SOA_conv"
    "tail_last (map ftype_of root_soa)"
    by (simp_all add: root_soa_def word_text_def dns_isspace_def SOA_conv_def conv_types_def)
  ultimately show ?thesis
    using fields_text_read [of "\<lambda>n. []" "TypeToNumber all_types" "env_gmtime e" root_soa "[]"]
    by (simp add: mastermake_text_def SOA_registered conv_of_text_def RecordTextReader_init_def rt_at_def)
qed

lemma example_denial_wrapped: "\<exists>p'. wrapup example_wrap example_denial = (p', Inr ())"
proof -
  have root: "pw_xfrLabel ''.'' c pw = Inr (pw\<lparr> pw_record := pw_record pw @ [0] \<rparr>)" if "\<not> pw_lowerCase pw" for c pw
    using that by (simp add: pw_xfrLabel_def)
  show ?thesis
    by (simp add: wrapup_def example_denial_fields DNSPacketWriter_init_def Let_def root wrap_order_def wrap_options_def example_wrap_def
        soa_record_def handler_defs wrap_content_def qt_MX_def qt_SRV_def qt_TXT_def qt_SOA_def write_resource_def pw_startRecord_def
        root_soa_read wrap_finish_def pw_commit_def serializeSOAData_def pw_append_def pw_size_def reply_limit_def getMaxReplyLen_def
        root_soa_def pw_xfr32BitInt_def)
qed


lemma example_denial_ends:
  "\<exists>s'. questionOrRecurse (example_handler (\<lambda>_. [])) example_query example_start = (Inr (ReplyR, example_query), s') \<and> hdr_rcode (dp_d (ph_r s')) = 3"
proof -
  let ?H = "example_handler (\<lambda>_. [])" and ?r = "setRA False (replyPacket example_memory example_query)"
  let ?st = "\<lparr> ro_sd = new_soa ?H None, ro_authSet = [], ro_rr = new_rr ?H \<rparr>" and ?s = "example_start\<lparr> ph_r := ?r \<rparr>"
  obtain st' s1 where round: "answer_round ?H example_query True ''.'' ?st ?s = (Inr (SendIt, st'), s1)" "ph_r s1 = example_denial" "soa_qname (ro_sd st') = ''.''"
  proof -
    have "\<not> hdr_ra (dp_d (ph_r ?s))" by (simp add: setRA_def)
    moreover have "(soa_record ?H ((ro_sd ?st)\<lparr> soa_nameserver := ''.'', soa_hostmaster := ''.'', soa_qname := ''.'' \<rparr>))\<lparr> rr_scopeMask := soa_scopeMask (ro_sd ?st) \<rparr> =
        soa_record ?H (example_soa\<lparr> soa_nameserver := ''.'', soa_hostmaster := ''.'', soa_qname := ''.'' \<rparr>)"
      by (simp add: soa_record_def handler_defs serializeSOAData_def)
    ultimately show thesis using that root_round [of ?s ?st] by (auto simp: example_denial_def)
  qed
  obtain p' where p': "wrapup example_wrap example_denial = (p', Inr ())" using example_denial_wrapped by blast
  have send: "\<exists>s'. sendit ?H example_query False st' s1 = (Inr (), s') \<and> ph_r s' = p'"
    using round p'
    by (simp add: sendit_def step_defs doAdditionalProcessingAndDropAA_def getAPRecords_def example_denial_fields editSOA_def handler_defs soa_record_def
        qt_AXFR_def qt_SOA_def qt_MX_def qt_NS_def qt_SRV_def wrapupP_def Let_def)
  have "hdr_rcode (dp_d p') = 3" using wrapup_fields(1) [of example_wrap example_denial] p' by (simp add: example_denial_fields)
  moreover have "dp_qdomain example_query = ''.''" "dp_qtype example_query = 1" "dp_qclass example_query = 1" "\<not> dp_havetsig example_query"
    "hdr_opcode (dp_d example_query) = 0" "\<not> hdr_qr (dp_d example_query)" "\<not> he_fancy ?H" "\<not> he_recursion ?H" "he_packet_mem ?H = example_memory"
    by (simp_all add: handler_defs dnsheader_of_def)
  moreover have "doVersionRequest ?H example_query ''.'' = returnP False" by (simp add: doVersionRequest_def handler_defs)
  moreover have "answer_rounds ?H example_query max_rounds True ''.'' ?st ?s = (Inr (Some (False, st')), s1)"
    using round by (simp add: max_rounds_def numeral_eq_Suc step_defs)
  ultimately show ?thesis
    using send
    by (auto simp: questionOrRecurse_def check_signature_def bind_lift bind_return bind_update catchP_def answer_opcode_def validDNSName_def ucode_def
        answer_question_def Let_def qt_IXFR_def step_defs)
qed


lemma reply_matches_question_witness:
  "\<exists>s'. questionOrRecurse (example_handler (\<lambda>_. [])) example_query example_start = (Inr (ReplyR, example_query), s') \<and> same_question example_query (ph_r s')"
  using example_denial_ends reply_matches_question by blast

lemma denied_after_lookup_witness:
  "\<exists>s' r n first t st s1. questionOrRecurse (example_handler (\<lambda>_. [])) example_query example_start = (Inr (ReplyR, example_query), s') \<and>
     reaches (example_handler (\<lambda>_. [])) example_query n (round_start (example_handler (\<lambda>_. [])) example_query r example_start) (first, t, st, s1) \<and> n \<le> 10 \<and>
     (t = ''.'' \<or> alias_target (example_handler (\<lambda>_. [])) t) \<and> nothing_found (example_handler (\<lambda>_. [])) example_query t st s1"
proof -
  obtain s' where s': "questionOrRecurse (example_handler (\<lambda>_. [])) example_query example_start = (Inr (ReplyR, example_query), s')"
    "hdr_rcode (dp_d (ph_r s')) = 3"
    using example_denial_ends by blast
  have "dp_qdomain example_query = ''.''" by (simp add: example_query_def)
  with denied_after_lookup [OF s'] s'(1) show ?thesis by auto
qed

subsection \<open>Aliases\<close>

lemma alias_loop_servfail_witness:
  "\<exists>t st s1. reaches (example_handler (\<lambda>q. [(DNSResourceRecord_init qt_CNAME 0 0)\<lparr> rr_content := ''.'' \<rparr>])) example_query 11
      (round_start (example_handler (\<lambda>q. [(DNSResourceRecord_init qt_CNAME 0 0)\<lparr> rr_content := ''.'' \<rparr>])) example_query
        (setRA (hdr_rd (dp_d example_query) \<and> he_recursion (example_handler (\<lambda>q. [(DNSResourceRecord_init qt_CNAME 0 0)\<lparr> rr_content := ''.'' \<rparr>])) \<and> False)
          (replyPacket (he_packet_mem (example_handler (\<lambda>q. [(DNSResourceRecord_init qt_CNAME 0 0)\<lparr> rr_content := ''.'' \<rparr>]))) example_query)) example_start)
      (False, t, st, s1) \<and>
    questionOrRecurse (example_handler (\<lambda>q. [(DNSResourceRecord_init qt_CNAME 0 0)\<lparr> rr_content := ''.'' \<rparr>])) example_query example_start =
      (Inr (ReplyR, example_query), s1\<lparr> ph_r := setRcode 2 (ph_r s1) \<rparr>)"
  by (rule alias_loop_servfail)
    (auto simp: handler_defs dnsheader_of_def validDNSName_def ucode_def qt_ANY_def qt_NS_def qt_CNAME_def ordinary_type_def qt_SOA_def qt_DS_def
      qt_DNSKEY_def qt_NSEC3PARAM_def qt_NSEC_def qt_RRSIG_def qt_IXFR_def qt_URL_def qt_CURL_def qt_MBOXFW_def)


subsection \<open>A signature\<close>

definition example_signer :: backends where
  "example_signer = (example_backends (\<lambda>q. []))\<lparr> bk_keys := (\<lambda>n z. Inr [\<lparr> zk_id = 1, zk_algorithm = 5, zk_active = True, zk_keyOrZone = False, zk_dnskey = [] \<rparr>]),
     bk_sign := (\<lambda>n key q rrc cs. Inr ''AAAA 5 0'') \<rparr>"

lemma signing_keeps_records_witness:
  "\<exists>s' sig. addRRSigs example_signer 0 all_types (we_env example_wrap) [''.''] (example_start\<lparr> ph_r := example_reply \<rparr>) = (Inr (), s') \<and>
     dp_rrs (ph_r s') = [example_record, sig] \<and> signature example_signer sig \<and> subseq [example_record] (dp_rrs (ph_r s'))"
proof -
  let ?sig = "(DNSResourceRecord_init qt_RRSIG 60 0)\<lparr> rr_qname := ''.'', rr_auth := False, rr_place := ANSWER, rr_content := ''AAAA 5 0'' \<rparr>"
  have content: "sign_content all_types (we_env example_wrap) example_record = Inr (RAAAA (replicate 16 1))"
    by (simp add: sign_content_def Let_def example_record_def DNSResourceRecord_init_def qt_MX_def qt_SRV_def qt_TXT_def mastermake_text_def example_maker
        AAAA_of_text_def example_wrap_def)
  have fields: "rr_qname example_record = ''.''" "rr_qtype example_record = 28" "rr_ttl example_record = 60" "rr_place example_record = ANSWER"
    "rr_auth example_record" "rr_wildcardname example_record = []"
    by (simp_all add: example_record_def DNSResourceRecord_init_def)
  have best: "getBestAuthFromSet [''.''] ''.'' = Some ''.''"
    by (simp add: getBestAuthFromSet_def pdns_iequals_iff)
  have "\<exists>s'. addRRSigs example_signer 0 all_types (we_env example_wrap) [''.''] (example_start\<lparr> ph_r := example_reply \<rparr>) = (Inr (), s') \<and>
      dp_rrs (ph_r s') = [example_record, ?sig]"
    by (simp add: addRRSigs_def step_defs example_reply_fields fields content best sign_group_def addSignature_def Let_def
        getRRSIGsForRRSET_def getCurrentInception_def example_signer_def example_backends_def signing_keys_def key_loop_def
        qt_DNSKEY_def example_start_def)
  then obtain s' where s': "addRRSigs example_signer 0 all_types (we_env example_wrap) [''.''] (example_start\<lparr> ph_r := example_reply \<rparr>) = (Inr (), s')"
    "dp_rrs (ph_r s') = [example_record, ?sig]" by blast
  from signing_keeps_records [OF s'(1)] s'(2) have "subseq [example_record] (dp_rrs (ph_r s'))"
    "?sig = example_record \<or> signature example_signer ?sig"
    by (simp_all add: example_reply_fields)
  moreover have "?sig \<noteq> example_record" by (simp add: example_record_def DNSResourceRecord_init_def qt_RRSIG_def)
  ultimately show ?thesis using s' by blast
qed

end
