(* ===== verification/StateExn.thy ===== *)
theory StateExn
  imports Prelude
begin

text \<open>Steps on a state that may end in an exception.\<close>

type_synonym ('s, 'a) step = "'s \<Rightarrow> 'a result \<times> 's"

definition returnX :: "'a \<Rightarrow> ('s, 'a) step" where
  "returnX a = (\<lambda>s. (Inr a, s))"

definition liftX :: "'a result \<Rightarrow> ('s, 'a) step" where
  "liftX r = (\<lambda>s. (r, s))"

definition bindX :: "('s, 'a) step \<Rightarrow> ('a \<Rightarrow> ('s, 'b) step) \<Rightarrow> ('s, 'b) step" where
  "bindX m f = (\<lambda>s. case m s of (Inl e, s) \<Rightarrow> (Inl e, s) | (Inr a, s) \<Rightarrow> f a s)"

definition withX :: "('s \<Rightarrow> ('s, 'a) step) \<Rightarrow> ('s, 'a) step" where
  "withX f = (\<lambda>s. f s s)"

definition updateX :: "('s \<Rightarrow> 's) \<Rightarrow> ('s, unit) step" where
  "updateX f = (\<lambda>s. (Inr (), f s))"

definition whenX :: "bool \<Rightarrow> ('s, unit) step \<Rightarrow> ('s, unit) step" where
  "whenX b m = (if b then m else returnX ())"

fun foldX :: "('b \<Rightarrow> 'a \<Rightarrow> ('s, 'a) step) \<Rightarrow> 'b list \<Rightarrow> 'a \<Rightarrow> ('s, 'a) step" where
  "foldX f [] a = returnX a"
| "foldX f (x # xs) a = bindX (f x a) (foldX f xs)"

lemma step_simps [simp]:
  "returnX a s = (Inr a, s)" "liftX r s = (r, s)" "withX f s = f s s" "updateX g s = (Inr (), g s)"
  by (simp_all add: returnX_def liftX_def withX_def updateX_def)

lemma bindX_simps [simp]:
  "bindX (returnX a) f = f a" "bindX (liftX (Inr a)) f = f a" "bindX (updateX g) h s = h () (g s)" "bindX (withX k) h s = bindX (k s) h s"
  by (simp_all add: bindX_def returnX_def liftX_def updateX_def withX_def)

lemma bindX_assoc [simp]: "bindX (bindX m f) g = bindX m (\<lambda>a. bindX (f a) g)"
  by (rule ext) (simp add: bindX_def split: prod.split sum.split)

lemma bindX_Inr: "m s = (Inr a, s') \<Longrightarrow> bindX m f s = f a s'"
  by (simp add: bindX_def)

lemma bindX_Inl: "m s = (Inl e, s') \<Longrightarrow> bindX m f s = (Inl e, s')"
  by (simp add: bindX_def)

lemma whenX_simps [simp]: "whenX True m = m" "whenX False m = returnX ()"
  by (simp_all add: whenX_def)

end
