(* ===== verification/DnssecKeeper.thy ===== *)
theory DnssecKeeper
  imports StateExn MultiIndex RecordTypes Throttle
begin

text \<open>
  The keeper of keys and zone settings, with its two caches: \<open>dbdnsseckeeper.cc\<close>, \<open>dnsseckeeper.hh\<close>.
  The database behind it is a state of any type with its operations; the key engines are parameters.
\<close>

record KeyData =
  kd_id :: u32
  kd_flags :: u32
  kd_active :: bool
  kd_content :: string

record DNSSECPrivateKey =
  pk_algorithm :: byte
  pk_flags :: u16
  pk_key :: string

record KeyMetaData =
  km_id :: u32
  km_active :: bool
  km_keyOrZone :: bool

type_synonym keyset = "(DNSSECPrivateKey \<times> KeyMetaData) list"

record KeyCacheEntry =
  kc_domain :: string
  kc_ttd :: u32
  kc_keys :: keyset

record METACacheEntry =
  mc_domain :: string
  mc_ttd :: u32
  mc_key :: string
  mc_value :: string

text \<open>The comparisons of the two indices, by name and by name and kind, ignoring case.\<close>

definition key_entry_less :: "KeyCacheEntry \<Rightarrow> KeyCacheEntry \<Rightarrow> bool" where
  "key_entry_less a b \<longleftrightarrow> pdns_ilexicographical_compare (kc_domain a) (kc_domain b)"

definition meta_entry_less :: "METACacheEntry \<Rightarrow> METACacheEntry \<Rightarrow> bool" where
  "meta_entry_less a b =
     (if pdns_ilexicographical_compare (mc_domain a) (mc_domain b) then True
      else if pdns_ilexicographical_compare (mc_domain b) (mc_domain a) then False
      else pdns_ilexicographical_compare (mc_key a) (mc_key b))"

record 'db keeper_env =
  ke_getMeta :: "string \<Rightarrow> string \<Rightarrow> 'db \<Rightarrow> string list"
  ke_setMeta :: "string \<Rightarrow> string \<Rightarrow> string list \<Rightarrow> 'db \<Rightarrow> 'db"
  ke_getKeys :: "string \<Rightarrow> 'db \<Rightarrow> KeyData list"
  ke_addKey :: "string \<Rightarrow> KeyData \<Rightarrow> 'db \<Rightarrow> int \<times> 'db"
  ke_removeKey :: "string \<Rightarrow> u32 \<Rightarrow> 'db \<Rightarrow> 'db"
  ke_activateKey :: "string \<Rightarrow> u32 \<Rightarrow> 'db \<Rightarrow> 'db"
  ke_deactivateKey :: "string \<Rightarrow> u32 \<Rightarrow> 'db \<Rightarrow> 'db"
  ke_fromISC :: "string \<Rightarrow> (byte \<times> string) result"
  ke_toISC :: "string \<Rightarrow> string"
  ke_create :: "int \<Rightarrow> int \<Rightarrow> string result"
  ke_registry :: registry
  ke_env :: env
  ke_max_entries :: int
  ke_id_mem :: u32

record 'db keeper =
  dk_db :: 'db
  dk_keycache :: "KeyCacheEntry list"
  dk_metacache :: "METACacheEntry list"
  dk_ops :: u32
  dk_last_prune :: int

type_synonym ('db, 'a) kstep = "('db keeper, 'a) step"

subsection \<open>The caches\<close>

definition cleanup_keeper :: "'db keeper_env \<Rightarrow> int \<Rightarrow> 'db keeper \<Rightarrow> 'db keeper" where
  "cleanup_keeper ke now dk =
     (if now - dk_last_prune dk > 30
      then let maxCached = unat (word_of_int (ke_max_entries ke) :: u32)
           in dk\<lparr> dk_metacache := pruneCollection mc_ttd (word_of_int now) maxCached 1000 (dk_metacache dk),
                dk_keycache := pruneCollection kc_ttd (word_of_int now) maxCached 1000 (dk_keycache dk), dk_last_prune := now \<rparr>
      else dk)"

definition count_keeper_op :: "'db keeper_env \<Rightarrow> int \<Rightarrow> 'db keeper \<Rightarrow> 'db keeper" where
  "count_keeper_op ke now dk =
     (let dk = dk\<lparr> dk_ops := dk_ops dk + 1 \<rparr> in if dk_ops dk mod 100000 = 0 then cleanup_keeper ke now dk else dk)"

definition clearCaches :: "string \<Rightarrow> 'db keeper \<Rightarrow> 'db keeper" where
  "clearCaches name dk =
     dk\<lparr> dk_keycache := filter (\<lambda>e. \<not> pdns_iequals (kc_domain e) name) (dk_keycache dk),
         dk_metacache := filter (\<lambda>e. \<not> pdns_iequals (mc_domain e) name) (dk_metacache dk) \<rparr>"

subsection \<open>Settings\<close>

definition find_meta :: "string \<Rightarrow> string \<Rightarrow> METACacheEntry list \<Rightarrow> METACacheEntry option" where
  "find_meta zname key m = mi_find meta_entry_less \<lparr> mc_domain = zname, mc_ttd = 0, mc_key = key, mc_value = [] \<rparr> m"

definition getFromMeta :: "'db keeper_env \<Rightarrow> int \<Rightarrow> string \<Rightarrow> string \<Rightarrow> ('db, string) kstep" where
  "getFromMeta ke now zname key =
     bindX (updateX (count_keeper_op ke now)) (\<lambda>_. withX (\<lambda>dk.
       let fetch = (let meta = ke_getMeta ke zname key (dk_db dk); value' = (case meta of [] \<Rightarrow> [] | v # vs \<Rightarrow> v);
                        nce = \<lparr> mc_domain = zname, mc_ttd = word_of_int now + 60, mc_key = key, mc_value = value' \<rparr>
                    in bindX (updateX (\<lambda>dk. dk\<lparr> dk_metacache := replacing_insert meta_entry_less nce (dk_metacache dk) \<rparr>)) (\<lambda>_. returnX value'))
       in case find_meta zname key (dk_metacache dk) of
            Some e \<Rightarrow> if mc_ttd e > word_of_int now then returnX (mc_value e) else fetch
          | None \<Rightarrow> fetch))"

definition isPresigned :: "'db keeper_env \<Rightarrow> int \<Rightarrow> string \<Rightarrow> ('db, bool) kstep" where
  "isPresigned ke now name = bindX (getFromMeta ke now name ''PRESIGNED'') (\<lambda>meta. returnX (meta = ''1''))"

text \<open>What is asked for is the record and whether it is narrow; the result has what was asked for, or false.\<close>

definition getNSEC3PARAM :: "'db keeper_env \<Rightarrow> int \<Rightarrow> string \<Rightarrow> bool \<Rightarrow> bool \<Rightarrow>
    ('db, (NSEC3PARAMRecordContent option \<times> bool option) option) kstep" where
  "getNSEC3PARAM ke now zname ns3p narrow =
     bindX (getFromMeta ke now zname ''NSEC3PARAM'') (\<lambda>v.
       if v = [] then returnX None
       else bindX (if ns3p then liftX (case mastermake_text (ke_registry ke) (ke_env ke) 51 1 v of
                       Inr (RNSEC3PARAM tmp) \<Rightarrow> Inr (Some tmp) | Inr _ \<Rightarrow> Inl UndefinedBehaviour | Inl e \<Rightarrow> Inl e)
                   else returnX None) (\<lambda>r.
            bindX (if narrow then bindX (getFromMeta ke now zname ''NSEC3NARROW'') (\<lambda>v. returnX (Some (v = ''1''))) else returnX None) (\<lambda>n.
              returnX (Some (r, n)))))"

definition set_meta :: "'db keeper_env \<Rightarrow> string \<Rightarrow> string \<Rightarrow> string list \<Rightarrow> 'db keeper \<Rightarrow> 'db keeper" where
  "set_meta ke zname key meta dk = dk\<lparr> dk_db := ke_setMeta ke zname key meta (dk_db dk) \<rparr>"

definition setNSEC3PARAM :: "'db keeper_env \<Rightarrow> string \<Rightarrow> NSEC3PARAMRecordContent \<Rightarrow> bool \<Rightarrow> 'db keeper \<Rightarrow> 'db keeper" where
  "setNSEC3PARAM ke zname ns3p narrow dk =
     set_meta ke zname ''NSEC3NARROW'' (if narrow then [''1''] else [])
       (set_meta ke zname ''NSEC3PARAM'' [NSEC3PARAM_getZoneRepresentation ns3p] (clearCaches zname dk))"

definition unsetNSEC3PARAM :: "'db keeper_env \<Rightarrow> string \<Rightarrow> 'db keeper \<Rightarrow> 'db keeper" where
  "unsetNSEC3PARAM ke zname dk = set_meta ke zname ''NSEC3NARROW'' [] (set_meta ke zname ''NSEC3PARAM'' [] (clearCaches zname dk))"

definition setPresigned :: "'db keeper_env \<Rightarrow> string \<Rightarrow> 'db keeper \<Rightarrow> 'db keeper" where
  "setPresigned ke zname dk = set_meta ke zname ''PRESIGNED'' [''1''] (clearCaches zname dk)"

definition unsetPresigned :: "'db keeper_env \<Rightarrow> string \<Rightarrow> 'db keeper \<Rightarrow> 'db keeper" where
  "unsetPresigned ke zname dk = set_meta ke zname ''PRESIGNED'' [] (clearCaches zname dk)"

definition TSIGGrantsAccess :: "'db keeper_env \<Rightarrow> string \<Rightarrow> string \<Rightarrow> 'db keeper \<Rightarrow> bool" where
  "TSIGGrantsAccess ke zone keyname dk \<longleftrightarrow>
     (\<exists>dbkey \<in> set (ke_getMeta ke zone ''TSIG-ALLOW-AXFR'' (dk_db dk)). pdns_iequals dbkey keyname)"

definition getTSIGForAccess :: "'db keeper_env \<Rightarrow> string \<Rightarrow> 'db keeper \<Rightarrow> string option" where
  "getTSIGForAccess ke zone dk = (case ke_getMeta ke zone ''AXFR-MASTER-TSIG'' (dk_db dk) of [] \<Rightarrow> None | dbkey # _ \<Rightarrow> Some dbkey)"

subsection \<open>Keys\<close>

text \<open>A key of the database; the algorithm is the one for NSEC3 if the zone uses that.\<close>

definition made_key :: "'db keeper_env \<Rightarrow> int \<Rightarrow> string \<Rightarrow> KeyData \<Rightarrow> ('db, DNSSECPrivateKey) kstep" where
  "made_key ke now zone kd =
     bindX (liftX (ke_fromISC ke (kd_content kd))) (\<lambda>(algorithm, key).
       let dpk = \<lparr> pk_algorithm = algorithm, pk_flags = ucast (kd_flags kd), pk_key = key \<rparr>
       in if algorithm = 5
          then bindX (getNSEC3PARAM ke now zone False False) (\<lambda>nsec3. returnX (if nsec3 \<noteq> None then dpk\<lparr> pk_algorithm := algorithm + 2 \<rparr> else dpk))
          else returnX dpk)"

definition key_rank :: "DNSSECPrivateKey \<times> KeyMetaData \<Rightarrow> bool \<times> u32" where
  "key_rank k = (\<not> km_keyOrZone (snd k), km_id (snd k))"

definition wanted_key :: "bool option \<Rightarrow> DNSSECPrivateKey \<times> KeyMetaData \<Rightarrow> bool" where
  "wanted_key allOrKeyOrZone k \<longleftrightarrow> allOrKeyOrZone = None \<or> allOrKeyOrZone = Some (km_keyOrZone (snd k))"

definition find_keys :: "string \<Rightarrow> KeyCacheEntry list \<Rightarrow> KeyCacheEntry option" where
  "find_keys zone m = mi_find key_entry_less \<lparr> kc_domain = zone, kc_ttd = 0, kc_keys = [] \<rparr> m"

definition fetch_keys :: "'db keeper_env \<Rightarrow> int \<Rightarrow> string \<Rightarrow> ('db, keyset) kstep" where
  "fetch_keys ke now zone =
     withX (\<lambda>dk. foldX (\<lambda>kd ks. bindX (made_key ke now zone kd) (\<lambda>dpk.
         returnX (ks @ [(dpk, \<lparr> km_id = kd_id kd, km_active = kd_active kd, km_keyOrZone = (kd_flags kd = 257) \<rparr>)]))) (ke_getKeys ke zone (dk_db dk)) [])"

definition getKeys :: "'db keeper_env \<Rightarrow> int \<Rightarrow> string \<Rightarrow> bool option \<Rightarrow> ('db, keyset) kstep" where
  "getKeys ke now zone allOrKeyOrZone =
     bindX (updateX (count_keeper_op ke now)) (\<lambda>_. withX (\<lambda>dk.
       let fetch = bindX (fetch_keys ke now zone) (\<lambda>ks.
             let kce = \<lparr> kc_domain = zone, kc_ttd = word_of_int now + 30, kc_keys = sort_key key_rank ks \<rparr>
             in bindX (updateX (\<lambda>dk. dk\<lparr> dk_keycache := replacing_insert key_entry_less kce (dk_keycache dk) \<rparr>)) (\<lambda>_.
                  returnX (sort_key key_rank (filter (wanted_key allOrKeyOrZone) ks))))
       in case find_keys zone (dk_keycache dk) of
            Some e \<Rightarrow> if kc_ttd e > word_of_int now then returnX (filter (wanted_key allOrKeyOrZone) (kc_keys e)) else fetch
          | None \<Rightarrow> fetch))"

definition isSecuredZone :: "'db keeper_env \<Rightarrow> int \<Rightarrow> string \<Rightarrow> ('db, bool) kstep" where
  "isSecuredZone ke now zone =
     bindX (isPresigned ke now zone) (\<lambda>presigned.
       if presigned then returnX True
       else bindX (updateX (count_keeper_op ke now)) (\<lambda>_. withX (\<lambda>dk.
         let fetch = bindX (getKeys ke now zone (Some True)) (\<lambda>keys. returnX (\<exists>val \<in> set keys. km_active (snd val)))
         in case find_keys zone (dk_keycache dk) of
              Some e \<Rightarrow> if kc_ttd e > word_of_int now then returnX (kc_keys e \<noteq> []) else fetch
            | None \<Rightarrow> fetch)))"

definition getKeyById :: "'db keeper_env \<Rightarrow> int \<Rightarrow> string \<Rightarrow> u32 \<Rightarrow> ('db, DNSSECPrivateKey) kstep" where
  "getKeyById ke now zname keyid =
     withX (\<lambda>dk. case find (\<lambda>kd. kd_id kd = keyid) (ke_getKeys ke zname (dk_db dk)) of
       Some kd \<Rightarrow> made_key ke now zname kd
     | None \<Rightarrow> liftX (Inl (RuntimeError (''Can't find a key with id '' @ show_nat (unat keyid) @ '' for zone '' @ [CHR 0x27] @ zname @ [CHR 0x27]))))"

definition addKey :: "'db keeper_env \<Rightarrow> string \<Rightarrow> DNSSECPrivateKey \<Rightarrow> bool \<Rightarrow> ('db, bool) kstep" where
  "addKey ke name dpk active =
     bindX (updateX (clearCaches name)) (\<lambda>_. withX (\<lambda>dk.
       case ke_addKey ke name \<lparr> kd_id = ke_id_mem ke, kd_flags = ucast (pk_flags dpk), kd_active = active, kd_content = ke_toISC ke (pk_key dpk) \<rparr> (dk_db dk) of
         (r, db) \<Rightarrow> bindX (updateX (\<lambda>dk. dk\<lparr> dk_db := db \<rparr>)) (\<lambda>_. returnX (r \<ge> 0))))"

definition guessed_bits :: "bool \<Rightarrow> int \<Rightarrow> int result" where
  "guessed_bits keyOrZone algorithm =
     (if algorithm \<le> 10 then Inr (if keyOrZone then 2048 else 1024)
      else if algorithm = 12 \<or> algorithm = 13 \<or> algorithm = 250 then Inr 256
      else if algorithm = 14 then Inr 384
      else Inl (RuntimeError (''Can't guess key size for algoritm '' @ show_nat (nat algorithm))))"

definition addKey_new :: "'db keeper_env \<Rightarrow> string \<Rightarrow> bool \<Rightarrow> int \<Rightarrow> int \<Rightarrow> bool \<Rightarrow> ('db, bool) kstep" where
  "addKey_new ke name keyOrZone algorithm bits active =
     bindX (liftX (if bits = 0 then guessed_bits keyOrZone algorithm else Inr bits)) (\<lambda>bits.
     bindX (liftX (ke_create ke algorithm bits)) (\<lambda>key.
       addKey ke name \<lparr> pk_algorithm = word_of_int algorithm, pk_flags = (if keyOrZone then 257 else 256), pk_key = key \<rparr> active))"

definition secureZone :: "'db keeper_env \<Rightarrow> string \<Rightarrow> int \<Rightarrow> ('db, bool) kstep" where
  "secureZone ke name algorithm = bindX (updateX (clearCaches name)) (\<lambda>_. addKey_new ke name True algorithm 0 True)"

definition change_key :: "('db \<Rightarrow> 'db) \<Rightarrow> string \<Rightarrow> 'db keeper \<Rightarrow> 'db keeper" where
  "change_key f zname dk = (clearCaches zname dk)\<lparr> dk_db := f (dk_db dk) \<rparr>"

definition removeKey :: "'db keeper_env \<Rightarrow> string \<Rightarrow> u32 \<Rightarrow> 'db keeper \<Rightarrow> 'db keeper" where
  "removeKey ke zname keyid = change_key (ke_removeKey ke zname keyid) zname"

definition activateKey :: "'db keeper_env \<Rightarrow> string \<Rightarrow> u32 \<Rightarrow> 'db keeper \<Rightarrow> 'db keeper" where
  "activateKey ke zname keyid = change_key (ke_activateKey ke zname keyid) zname"

definition deactivateKey :: "'db keeper_env \<Rightarrow> string \<Rightarrow> u32 \<Rightarrow> 'db keeper \<Rightarrow> 'db keeper" where
  "deactivateKey ke zname keyid = change_key (ke_deactivateKey ke zname keyid) zname"

end
