(* ===== verification/KeeperProps.thy ===== *)
theory KeeperProps
  imports DnssecKeeper RecursorCache
begin

text \<open>The caches of the keeper: settings changed through it are seen at once; keys that are not active are not.\<close>

definition meta_key :: "METACacheEntry \<Rightarrow> int list \<times> int list" where
  "meta_key e = (ci_key (mc_domain e), ci_key (mc_key e))"

interpretation key_entries: ordered_index key_entry_less "\<lambda>e. ci_key (kc_domain e)"
  by unfold_locales (simp add: key_entry_less_def ilex_key)

interpretation meta_entries: ordered_index meta_entry_less meta_key
  by unfold_locales (simp only: meta_entry_less_def meta_key_def ilex_key pair_less decided_first)

lemma replacing_insert_store: "replacing_insert key_entry_less e m = key_entries.store e m"
  "replacing_insert meta_entry_less e' m' = meta_entries.store e' m'"
  by (simp_all add: replacing_insert_def key_entries.store_def meta_entries.store_def)

lemma find_meta_entry: "find_meta zname key m = meta_entries.entry m (ci_key zname, ci_key key)"
  by (simp add: find_meta_def meta_entries.find_entry meta_key_def)

lemma find_keys_entry: "find_keys zone m = key_entries.entry m (ci_key zone)"
  by (simp add: find_keys_def key_entries.find_entry)

lemma entry_in: "meta_entries.entry m k = Some e \<Longrightarrow> e \<in> set m \<and> meta_key e = k"
  by (auto simp: meta_entries.entry_def find_Some_iff)

lemma pruned_in: "e \<in> set (pruneCollection ttd now maxCached f m) \<Longrightarrow> e \<in> set m"
proof -
  let ?toTrim = "if length m > maxCached then length m - maxCached else 0"
  let ?lookAt = "if ?toTrim \<noteq> 0 then 5 * ?toTrim else length m div f"
  assume e: "e \<in> set (pruneCollection ttd now maxCached f m)"
  obtain m' n where r: "prune_loop ttd now ?toTrim ?lookAt 0 0 m = (m', n)" by fastforce
  then have "pruneCollection ttd now maxCached f m = (if n \<ge> ?toTrim then m' else drop (?toTrim - n) m')"
    unfolding pruneCollection_def Let_def by (simp only: case_prod_conv)
  then have "e \<in> set m'" using e by (metis in_set_dropD)
  moreover have "subseq m' m" using prune_loop_erased [OF r] by blast
  ultimately show "e \<in> set m" using set_subseq by blast
qed

subsection \<open>Settings\<close>

definition setting :: "string list \<Rightarrow> string" where
  "setting meta = (case meta of [] \<Rightarrow> [] | v # vs \<Rightarrow> v)"

text \<open>What is cached is what the database has.\<close>

definition coherent :: "'db keeper_env \<Rightarrow> 'db keeper \<Rightarrow> bool" where
  "coherent ke dk \<longleftrightarrow> (\<forall>e \<in> set (dk_metacache dk). mc_value e = setting (ke_getMeta ke (mc_domain e) (mc_key e) (dk_db dk)))"

definition case_blind :: "'db keeper_env \<Rightarrow> bool" where
  "case_blind ke \<longleftrightarrow> (\<forall>z z' k k' db. toLower z = toLower z' \<longrightarrow> toLower k = toLower k' \<longrightarrow> ke_getMeta ke z k db = ke_getMeta ke z' k' db)"

definition zones_apart :: "'db keeper_env \<Rightarrow> bool" where
  "zones_apart ke \<longleftrightarrow> (\<forall>z z' k k' v db. toLower z \<noteq> toLower z' \<longrightarrow> ke_getMeta ke z k (ke_setMeta ke z' k' v db) = ke_getMeta ke z k db)"

lemma count_subset: "set (dk_metacache (count_keeper_op ke now dk)) \<subseteq> set (dk_metacache dk)" "dk_db (count_keeper_op ke now dk) = dk_db dk"
  by (auto simp: count_keeper_op_def cleanup_keeper_def Let_def dest: pruned_in)

lemma coherent_count: "coherent ke dk \<Longrightarrow> coherent ke (count_keeper_op ke now dk)"
  using count_subset [of ke now dk] unfolding coherent_def by auto

lemma getFromMeta_coherent:
  assumes "case_blind ke" "coherent ke dk"
  shows "\<exists>dk'. getFromMeta ke now zname key dk = (Inr (setting (ke_getMeta ke zname key (dk_db dk))), dk') \<and> coherent ke dk' \<and> dk_db dk' = dk_db dk"
proof -
  let ?dk = "count_keeper_op ke now dk"
  let ?v = "setting (ke_getMeta ke zname key (dk_db dk))"
  let ?e = "\<lparr> mc_domain = zname, mc_ttd = word_of_int now + 60, mc_key = key, mc_value = ?v \<rparr>"
  let ?dk' = "?dk\<lparr> dk_metacache := replacing_insert meta_entry_less ?e (dk_metacache ?dk) \<rparr>"
  have c: "coherent ke ?dk" "dk_db ?dk = dk_db dk" using coherent_count assms(2) count_subset(2) by blast+
  have "coherent ke ?dk'"
    unfolding coherent_def
  proof
    fix e
    assume "e \<in> set (dk_metacache ?dk')"
    then have "e = ?e \<or> e \<in> set (dk_metacache ?dk)"
      using meta_entries.in_replace [of e ?e] by (auto simp: replacing_insert_def mi_insert_def split: if_splits option.splits)
    then show "mc_value e = setting (ke_getMeta ke (mc_domain e) (mc_key e) (dk_db ?dk'))"
      using c unfolding coherent_def by auto
  qed
  then have fetched: "coherent ke ?dk' \<and> dk_db ?dk' = dk_db dk" using c(2) by simp
  show ?thesis
  proof (cases "\<exists>e. find_meta zname key (dk_metacache ?dk) = Some e \<and> mc_ttd e > word_of_int now")
    case True
    then obtain e where e: "find_meta zname key (dk_metacache ?dk) = Some e" "mc_ttd e > word_of_int now" by blast
    then have "e \<in> set (dk_metacache ?dk)" "toLower (mc_domain e) = toLower zname" "toLower (mc_key e) = toLower key"
      by (auto simp: find_meta_entry meta_key_def dest!: entry_in)
    then have "mc_value e = ?v" using c assms(1) unfolding coherent_def case_blind_def by metis
    then show ?thesis using e c by (simp add: getFromMeta_def Let_def)
  next
    case False
    then have "getFromMeta ke now zname key dk = (Inr ?v, ?dk')"
      by (auto simp: getFromMeta_def Let_def setting_def c(2) split: option.splits)
    then show ?thesis using fetched by blast
  qed
qed

lemma coherent_set:
  assumes "zones_apart ke" "coherent ke dk" "\<forall>e \<in> set (dk_metacache dk). toLower (mc_domain e) \<noteq> toLower zname"
  shows "coherent ke (set_meta ke zname key v dk) \<and> (\<forall>e \<in> set (dk_metacache (set_meta ke zname key v dk)). toLower (mc_domain e) \<noteq> toLower zname)"
  using assms unfolding coherent_def zones_apart_def by (simp add: set_meta_def)

lemma coherent_clear:
  assumes "coherent ke dk"
  shows "coherent ke (clearCaches zname dk) \<and> (\<forall>e \<in> set (dk_metacache (clearCaches zname dk)). toLower (mc_domain e) \<noteq> toLower zname)"
  using assms by (simp add: coherent_def clearCaches_def pdns_iequals_iff)

text \<open>
  Property C23. With a database for which the case of names does not matter and whose zones are apart, the cache
  of settings is invisible: what is looked up is what the database has, now or after any lookup or any change of
  a setting through the keeper.
\<close>

theorem settings_cache_invisible:
  assumes "case_blind ke" "zones_apart ke" "coherent ke dk"
  shows "(\<exists>dk'. getFromMeta ke now zname key dk = (Inr (setting (ke_getMeta ke zname key (dk_db dk))), dk') \<and> coherent ke dk' \<and> dk_db dk' = dk_db dk) \<and>
    coherent ke (setNSEC3PARAM ke zname q narrow dk) \<and> coherent ke (unsetNSEC3PARAM ke zname dk) \<and>
    coherent ke (setPresigned ke zname dk) \<and> coherent ke (unsetPresigned ke zname dk)"
proof -
  have once: "coherent ke (set_meta ke zname key v (clearCaches zname dk)) \<and>
      (\<forall>e \<in> set (dk_metacache (set_meta ke zname key v (clearCaches zname dk))). toLower (mc_domain e) \<noteq> toLower zname)" for key v
    using coherent_set [OF assms(2)] coherent_clear [OF assms(3)] by blast
  then have "coherent ke (set_meta ke zname key' v' (set_meta ke zname key v (clearCaches zname dk)))" for key v key' v'
    using coherent_set [OF assms(2)] by blast
  then show ?thesis
    using once getFromMeta_coherent [OF assms(1,3)]
    unfolding setNSEC3PARAM_def unsetNSEC3PARAM_def setPresigned_def unsetPresigned_def by blast
qed

subsection \<open>Keys that are not active\<close>

lemma first_ops:
  assumes "n \<in> {0, 1, 2, 3, 4}"
  shows "count_keeper_op ke t (d\<lparr> dk_ops := n \<rparr>) = d\<lparr> dk_ops := n + 1 \<rparr>"
proof -
  have "\<forall>n \<in> {0, 1, 2, 3, 4 :: u32}. (n + 1) mod 100000 \<noteq> 0" by code_simp
  then have "(n + 1) mod 100000 \<noteq> 0" using assms by (rule bspec)
  then show ?thesis by (simp add: count_keeper_op_def Let_def)
qed

lemma time_less: "0 \<le> a \<Longrightarrow> a < b \<Longrightarrow> b < 2 ^ 32 \<Longrightarrow> (word_of_int a :: u32) < word_of_int b"
  by (simp add: word_less_alt uint_word_of_int)

lemma time_later: "word_of_int now + 60 = (word_of_int (now + 60) :: u32)" "word_of_int now + 30 = (word_of_int (now + 30) :: u32)"
  by (simp_all add: wi_hom_add [symmetric])

text \<open>
  Whether a zone counts as secured depends on the cache of keys: a zone that only has a key signing
  key that is not active is not secured at the first question, and is for the next thirty seconds.
\<close>

lemma inactive_key_secures:
  assumes key: "ke_getKeys ke zone (dk_db dk) = [kd]" "\<not> kd_active kd" "kd_flags kd = 257" "ke_fromISC ke (kd_content kd) = Inr (alg, isc)" "alg \<noteq> 5"
    and unsigned: "ke_getMeta ke zone ''PRESIGNED'' (dk_db dk) = []"
    and fresh: "dk_keycache dk = []" "dk_metacache dk = []" "dk_ops dk = 0"
    and time: "0 \<le> now" "now \<le> later" "later < now + 30" "now + 60 < 2 ^ 32"
  shows "\<exists>dk' dk''. isSecuredZone ke now zone dk = (Inr False, dk') \<and> isSecuredZone ke later zone dk' = (Inr True, dk'')"
proof -
  let ?k = "(\<lparr> pk_algorithm = alg, pk_flags = ucast (kd_flags kd), pk_key = isc \<rparr>, \<lparr> km_id = kd_id kd, km_active = kd_active kd, km_keyOrZone = True \<rparr>)"
  let ?e = "\<lparr> mc_domain = zone, mc_ttd = word_of_int now + 60, mc_key = ''PRESIGNED'', mc_value = [] \<rparr>"
  let ?kce = "\<lparr> kc_domain = zone, kc_ttd = word_of_int now + 30, kc_keys = [?k] \<rparr>"
  let ?d1 = "dk\<lparr> dk_metacache := [?e], dk_ops := 1 \<rparr>"
  let ?d3 = "dk\<lparr> dk_metacache := [?e], dk_keycache := [?kce], dk_ops := 3 \<rparr>"
  have start: "count_keeper_op ke now dk = dk\<lparr> dk_ops := 1 \<rparr>" 
  proof -
    have "dk\<lparr> dk_ops := 0 \<rparr> = dk" using fresh(3) by (cases dk) simp
    then show ?thesis using first_ops [of 0 ke now dk] by simp
  qed
  have meta: "getFromMeta ke now zone ''PRESIGNED'' dk = (Inr [], ?d1)"
    using fresh unsigned by (simp add: getFromMeta_def start find_meta_def mi_find_def replacing_insert_def mi_insert_def Let_def)
  have made: "made_key ke now zone kd d = (Inr (fst ?k), d)" for d
    using key by (simp add: made_key_def Let_def)
  have fetch: "fetch_keys ke now zone d = (Inr [?k], d)" if "dk_db d = dk_db dk" for d
    using that key by (simp add: fetch_keys_def bindX_def made)
  have "fetch_keys ke now zone (dk\<lparr> dk_metacache := [?e], dk_ops := 3 \<rparr>) = (Inr [?k], dk\<lparr> dk_metacache := [?e], dk_ops := 3 \<rparr>)"
    by (rule fetch) simp
  then have keys: "getKeys ke now zone (Some True) (dk\<lparr> dk_metacache := [?e], dk_ops := 2 \<rparr>) = (Inr [?k], ?d3)"
    using fresh by (simp add: getKeys_def first_ops find_keys_def mi_find_def bindX_Inr Let_def replacing_insert_def mi_insert_def wanted_key_def)
  have "isSecuredZone ke now zone dk = (Inr False, ?d3)"
    using fresh key(2) keys by (simp add: isSecuredZone_def isPresigned_def bindX_Inr [of "getFromMeta ke now zone ''PRESIGNED''", OF meta] first_ops find_keys_def mi_find_def bindX_Inr [of "getKeys ke now zone (Some True)", OF keys] Let_def)
  moreover have "isSecuredZone ke later zone ?d3 = (Inr True, ?d3\<lparr> dk_ops := 5 \<rparr>)"
  proof -
    have "(word_of_int later :: u32) < word_of_int (now + 60)" "(word_of_int later :: u32) < word_of_int (now + 30)"
      using time by (intro time_less; simp)+
    then have "(word_of_int later :: u32) < word_of_int now + 60" "(word_of_int later :: u32) < word_of_int now + 30"
      by (simp_all only: time_later)
    moreover have "find_meta zone ''PRESIGNED'' [?e] = Some ?e" "find_keys zone [?kce] = Some ?kce"
      by (simp_all add: find_meta_entry find_keys_entry meta_entries.entry_def key_entries.entry_def meta_key_def)
    moreover from calculation have "getFromMeta ke later zone ''PRESIGNED'' ?d3 = (Inr [], ?d3\<lparr> dk_ops := 4 \<rparr>)"
      by (simp add: getFromMeta_def first_ops Let_def)
    ultimately show ?thesis
      by (simp add: isSecuredZone_def isPresigned_def bindX_Inr [of "getFromMeta ke later zone ''PRESIGNED''"] first_ops Let_def)
  qed
  ultimately show ?thesis by blast
qed


subsection \<open>A database\<close>

text \<open>Settings by zone and kind in small letters, and for every zone a key signing key that is not active.\<close>

definition sample_keeper :: "(string \<Rightarrow> string \<Rightarrow> string list) keeper_env" where
  "sample_keeper = \<lparr>
     ke_getMeta = (\<lambda>z k db. db (toLower z) (toLower k)),
     ke_setMeta = (\<lambda>z k v db. db(toLower z := (db (toLower z))(toLower k := v))),
     ke_getKeys = (\<lambda>z db. [\<lparr> kd_id = 1, kd_flags = 257, kd_active = False, kd_content = [] \<rparr>]),
     ke_addKey = (\<lambda>z kd db. (-1, db)), ke_removeKey = (\<lambda>z k db. db), ke_activateKey = (\<lambda>z k db. db), ke_deactivateKey = (\<lambda>z k db. db),
     ke_fromISC = (\<lambda>s. Inr (8, s)), ke_toISC = (\<lambda>s. s), ke_create = (\<lambda>a b. Inr []), ke_registry = empty_registry,
     ke_env = \<lparr> env_pton6 = (\<lambda>s. None), env_ntop6 = (\<lambda>b. []), env_gmtime = (\<lambda>t. \<lparr> tm_year = 70, tm_mon = 0,
       tm_mday = 1, tm_hour = 0, tm_min = 0, tm_sec = 0 \<rparr>), env_loc_text = (\<lambda>l. []),
       env_loc_memory = \<lparr> loc_version = 0, loc_size = 0, loc_horizpre = 0, loc_vertpre = 0, loc_latitude = 0, loc_longitude = 0, loc_altitude = 0 \<rparr>,
       env_saltlength_memory = 0, env_beyond = (\<lambda>n. 0) \<rparr>,
     ke_max_entries = 1000, ke_id_mem = 0 \<rparr>"

definition sample_kept :: "(string \<Rightarrow> string \<Rightarrow> string list) keeper" where
  "sample_kept = \<lparr> dk_db = (\<lambda>z k. []), dk_keycache = [], dk_metacache = [], dk_ops = 0, dk_last_prune = 0 \<rparr>"

lemma settings_cache_invisible_witness:
  "\<exists>dk'. getFromMeta sample_keeper 1000 ''EXAMPLE'' ''presigned'' (setPresigned sample_keeper ''example'' sample_kept) = (Inr ''1'', dk')"
proof -
  have laws: "case_blind sample_keeper" "zones_apart sample_keeper" "coherent sample_keeper sample_kept"
    by (simp_all add: case_blind_def zones_apart_def coherent_def sample_keeper_def sample_kept_def)
  have c: "coherent sample_keeper (setPresigned sample_keeper ''example'' sample_kept)"
    using settings_cache_invisible [OF laws] by blast
  have "setting (ke_getMeta sample_keeper ''EXAMPLE'' ''presigned'' (dk_db (setPresigned sample_keeper ''example'' sample_kept))) = ''1''"
    by (simp add: sample_keeper_def sample_kept_def setPresigned_def set_meta_def clearCaches_def setting_def) code_simp
  with settings_cache_invisible [OF laws(1,2) c] show ?thesis by metis
qed

lemma inactive_key_secures_witness:
  "\<exists>dk' dk''. isSecuredZone sample_keeper 1000 ''example'' sample_kept = (Inr False, dk') \<and> isSecuredZone sample_keeper 1029 ''example'' dk' = (Inr True, dk'')"
  by (rule inactive_key_secures [where kd = "\<lparr> kd_id = 1, kd_flags = 257, kd_active = False, kd_content = [] \<rparr>" and alg = 8 and isc = "[]"])
    (simp_all add: sample_keeper_def sample_kept_def)

end
