(* ===== verification/UeberBackend.thy ===== *)
theory UeberBackend
  imports PacketCache SyncRes
begin

text \<open>
  The collection of backends with its cache of queries: \<open>ueberbackend.cc\<close>. What a backend delivers is a
  parameter that depends on how often backends were asked; waiting for the start of the server is left out.
\<close>

record backend =
  be_lookup :: "nat \<Rightarrow> QType \<Rightarrow> string \<Rightarrow> int \<Rightarrow> DNSResourceRecord list"
  be_getSOA :: "nat \<Rightarrow> string \<Rightarrow> SOAData \<Rightarrow> bool \<times> SOAData"
  be_list :: "nat \<Rightarrow> string \<Rightarrow> int \<Rightarrow> DNSResourceRecord list option"
  be_names_absolute :: "nat \<Rightarrow> u32 \<Rightarrow> string \<Rightarrow> string \<Rightarrow> string \<Rightarrow> string \<Rightarrow> bool \<times> string \<times> string \<times> string"

record ueber_env =
  ue_backends :: "backend list"
  ue_cs :: cache_settings
  ue_negquery_ttl :: int
  ue_query_ttl :: int
  ue_archive :: "DNSResourceRecord list \<Rightarrow> string"
  ue_unarchive :: "string \<Rightarrow> DNSResourceRecord list"
  ue_asNum :: "string \<Rightarrow> int"

record ueber_question =
  qu_qtype :: QType
  qu_qname :: string
  qu_zoneId :: int

record ueber =
  ub_PC :: PacketCache
  ub_queryttl :: u32
  ub_steps :: nat
  ub_stale :: bool
  ub_negcached :: bool
  ub_cached :: bool
  ub_answers :: "DNSResourceRecord list"
  ub_left :: "DNSResourceRecord list"
  ub_question :: ueber_question
  ub_ancount :: nat
  ub_i :: nat
  ub_hinter :: "DNSResourceRecord list"
  ub_qtype :: QType
  ub_qname :: string

subsection \<open>The cache of queries\<close>

text \<open>\<open>None\<close> for a miss; what is found replaces the answers, unless it is a denial.\<close>

definition cacheHas :: "ueber_env \<Rightarrow> int \<Rightarrow> bool \<Rightarrow> ueber_question \<Rightarrow> ueber \<Rightarrow> bool option \<times> ueber" where
  "cacheHas ue now gotIt q ub =
     (if ue_negquery_ttl ue = 0 \<and> ue_query_ttl ue = 0 then (None, ub)
      else case getEntry (ue_cs ue) now gotIt (qu_qname q) (qu_qtype q) QUERYCACHE (qu_zoneId q) False 512 False (ub_PC ub) of
        (None, pc) \<Rightarrow> (None, ub\<lparr> ub_PC := pc \<rparr>)
      | (Some content, pc) \<Rightarrow>
          if content = [] then (Some False, ub\<lparr> ub_PC := pc \<rparr>)
          else (Some True, ub\<lparr> ub_PC := pc, ub_answers := ue_unarchive ue content \<rparr>))"

definition addNegCache :: "ueber_env \<Rightarrow> int \<Rightarrow> bool \<Rightarrow> ueber_question \<Rightarrow> ueber \<Rightarrow> ueber" where
  "addNegCache ue now gotIt q ub =
     (if ue_negquery_ttl ue = 0 then ub
      else ub\<lparr> ub_PC := PacketCache_insert (ue_cs ue) now gotIt (qu_qname q) (qu_qtype q) QUERYCACHE [] (word_of_int (ue_negquery_ttl ue)) (qu_zoneId q) False 512 False (ub_PC ub) \<rparr>)"

text \<open>The time to live of the cache is a static variable, and what is assigned to it stays.\<close>

definition lowered_ttl :: "u32 \<Rightarrow> DNSResourceRecord list \<Rightarrow> u32" where
  "lowered_ttl queryttl rrs = foldl (\<lambda>ttl rr. if rr_ttl rr < ttl then rr_ttl rr else ttl) queryttl rrs"

definition addCache :: "ueber_env \<Rightarrow> int \<Rightarrow> bool \<Rightarrow> ueber_question \<Rightarrow> DNSResourceRecord list \<Rightarrow> ueber \<Rightarrow> ueber" where
  "addCache ue now gotIt q rrs ub =
     (if ub_queryttl ub = 0 then ub
      else let ttl = lowered_ttl (ub_queryttl ub) rrs
           in ub\<lparr> ub_queryttl := ttl,
                ub_PC := PacketCache_insert (ue_cs ue) now gotIt (qu_qname q) (qu_qtype q) QUERYCACHE (ue_archive ue rrs) ttl (qu_zoneId q) False 512 False (ub_PC ub) \<rparr>)"

subsection \<open>Looking up\<close>

definition ueber_lookup :: "ueber_env \<Rightarrow> int \<Rightarrow> bool \<Rightarrow> QType \<Rightarrow> string \<Rightarrow> int \<Rightarrow> ueber \<Rightarrow> unit result \<times> ueber" where
  "ueber_lookup ue now gotIt qtype qname zoneId ub =
     (if ub_stale ub then (Inl (AhuException ''We are stale, please recycle''), ub)
      else let ub = ub\<lparr> ub_i := 0, ub_qtype := qtype, ub_qname := qname, ub_ancount := 0 \<rparr>
           in case ue_backends ue of
                [] \<Rightarrow> (Inl (AhuException ''We are stale, please recycle''), ub\<lparr> ub_stale := True \<rparr>)
              | first # _ \<Rightarrow>
                  let q = \<lparr> qu_qtype = qtype, qu_qname = qname, qu_zoneId = zoneId \<rparr>; ub = ub\<lparr> ub_question := q \<rparr>
                  in case cacheHas ue now gotIt q ub of
                       (None, ub) \<Rightarrow> (Inr (), ub\<lparr> ub_negcached := False, ub_cached := False, ub_answers := [], ub_i := 1,
                          ub_hinter := be_lookup first (ub_steps ub) qtype qname zoneId, ub_steps := ub_steps ub + 1 \<rparr>)
                     | (Some False, ub) \<Rightarrow> (Inr (), ub\<lparr> ub_negcached := True, ub_cached := False, ub_answers := [] \<rparr>)
                     | (Some True, ub) \<Rightarrow> (Inr (), ub\<lparr> ub_negcached := False, ub_cached := True, ub_left := ub_answers ub \<rparr>))"

text \<open>The next backend with an answer, of those left; they are asked without the zone.\<close>

fun try_backends :: "backend list \<Rightarrow> nat \<Rightarrow> QType \<Rightarrow> string \<Rightarrow> DNSResourceRecord list \<times> nat" where
  "try_backends [] n qtype qname = ([], n)"
| "try_backends (b # bs) n qtype qname =
     (case be_lookup b n qtype qname (-1) of [] \<Rightarrow> try_backends bs (n + 1) qtype qname | rrs \<Rightarrow> (rrs, n + 1))"

definition handle_get :: "ueber_env \<Rightarrow> ueber \<Rightarrow> DNSResourceRecord option \<times> ueber" where
  "handle_get ue ub =
     (let (rrs, n) = (if ub_hinter ub = [] then try_backends (drop (ub_i ub) (ue_backends ue)) (ub_steps ub) (ub_qtype ub) (ub_qname ub)
                      else (ub_hinter ub, ub_steps ub));
          ub = ub\<lparr> ub_i := length (ue_backends ue), ub_steps := n \<rparr>
      in case rrs of [] \<Rightarrow> (None, ub\<lparr> ub_hinter := [] \<rparr>) | r # rest \<Rightarrow> (Some r, ub\<lparr> ub_hinter := rest \<rparr>))"

definition ueber_get :: "ueber_env \<Rightarrow> int \<Rightarrow> bool \<Rightarrow> ueber \<Rightarrow> DNSResourceRecord option \<times> ueber" where
  "ueber_get ue now gotIt ub =
     (if ub_negcached ub then (None, ub)
      else if ub_cached ub then
        (case ub_left ub of [] \<Rightarrow> (None, ub) | rr # left \<Rightarrow> (Some rr, ub\<lparr> ub_left := left \<rparr>))
      else case handle_get ue ub of
        (None, ub) \<Rightarrow>
          let ub = (if ub_ancount ub = 0 \<and> ub_qname ub \<noteq> [] then addNegCache ue now gotIt (ub_question ub) ub else ub);
              ub = addCache ue now gotIt (ub_question ub) (ub_answers ub) ub
          in (None, ub\<lparr> ub_answers := [] \<rparr>)
      | (Some rr, ub) \<Rightarrow> (Some rr, ub\<lparr> ub_ancount := ub_ancount ub + 1, ub_answers := ub_answers ub @ [rr] \<rparr>))"

lemma get_progress:
  assumes "ueber_get ue now gotIt ub = (Some rr, ub')"
  shows "(ub', ub) \<in> measures [\<lambda>u. length (ue_backends ue) - ub_i u, \<lambda>u. length (ub_left u) + length (ub_hinter u)]"
proof -
  have "try_backends [] n qt q = ([], n)" for n qt q by simp
  then show ?thesis
    using assms
    by (cases "ub_i ub < length (ue_backends ue)")
      (auto simp: ueber_get_def handle_get_def Let_def split: if_splits list.splits prod.splits option.splits)
qed

text \<open>The loop \<open>while(B.get(rr))\<close> that gathers the records.\<close>

function gather :: "ueber_env \<Rightarrow> int \<Rightarrow> bool \<Rightarrow> ueber \<Rightarrow> DNSResourceRecord list \<times> ueber" where
  "gather ue now gotIt ub =
     (case ueber_get ue now gotIt ub of
        (None, ub) \<Rightarrow> ([], ub)
      | (Some rr, ub) \<Rightarrow> (case gather ue now gotIt ub of (rrs, ub) \<Rightarrow> (rr # rrs, ub)))"
  by pat_completeness auto
termination
  by (relation "inv_image (measures [\<lambda>(ue, u). length (ue_backends ue) - ub_i u, \<lambda>(ue, u). length (ub_left u) + length (ub_hinter u)]) (\<lambda>(ue, now, gotIt, ub). (ue, ub))")
    (auto dest!: get_progress [OF sym])

declare gather.simps [simp del]

subsection \<open>SOA records\<close>

text \<open>The record that is cached for an SOA, and an answer from the cache, which has no backend and no scope.\<close>

definition soa_cache_record :: "ueber_env \<Rightarrow> string \<Rightarrow> SOAData \<Rightarrow> DNSResourceRecord" where
  "soa_cache_record ue domain sd =
     (DNSResourceRecord_init qt_SOA (soa_ttl sd) (soa_domain_id sd))\<lparr> rr_qname := domain, rr_content := serializeSOAData sd \<rparr>"

fun first_soa :: "backend list \<Rightarrow> nat \<Rightarrow> string \<Rightarrow> SOAData \<Rightarrow> bool \<times> SOAData \<times> nat" where
  "first_soa [] n domain sd = (False, sd, n)"
| "first_soa (b # bs) n domain sd =
     (case be_getSOA b n domain sd of (found, sd) \<Rightarrow> if found then (True, sd, n + 1) else first_soa bs (n + 1) domain sd)"

definition ueber_getSOA :: "ueber_env \<Rightarrow> int \<Rightarrow> bool \<Rightarrow> string \<Rightarrow> SOAData \<Rightarrow> ueber \<Rightarrow> (bool \<times> SOAData) \<times> ueber" where
  "ueber_getSOA ue now gotIt domain sd ub =
     (let q = \<lparr> qu_qtype = qt_SOA, qu_qname = domain, qu_zoneId = -1 \<rparr>; ub = ub\<lparr> ub_question := q \<rparr>;
          ask = (\<lambda>ub. case first_soa (ue_backends ue) (ub_steps ub) domain sd of
            (found, sd, n) \<Rightarrow>
              let ub = ub\<lparr> ub_steps := n \<rparr>
              in ((found, sd), if found then addCache ue now gotIt q [soa_cache_record ue domain sd] ub else addNegCache ue now gotIt q ub))
      in if soa_db sd = Some 0 then ask ub
         else case cacheHas ue now gotIt q ub of
           (Some False, ub) \<Rightarrow> ((False, sd), ub)
         | (Some True, ub) \<Rightarrow>
             (case ub_answers ub of
                [] \<Rightarrow> ask ub
              | rr # _ \<Rightarrow> ((True, (fillSOAData (ue_asNum ue) (rr_content rr) sd)\<lparr> soa_domain_id := rr_domain_id rr, soa_ttl := rr_ttl rr, soa_db := None \<rparr>), ub))
         | (None, ub) \<Rightarrow> ask ub)"

text \<open>The other requests go to the backends one after the other until one takes them.\<close>

fun first_backend :: "('b \<Rightarrow> 'a option) \<Rightarrow> 'b list \<Rightarrow> 'a option" where
  "first_backend f [] = None"
| "first_backend f (b # bs) = (case f b of Some a \<Rightarrow> Some a | None \<Rightarrow> first_backend f bs)"

fun addDomainKey :: "(backend \<Rightarrow> int) \<Rightarrow> backend list \<Rightarrow> int" where
  "addDomainKey f [] = -1"
| "addDomainKey f (b # bs) = (if f b \<ge> 0 then f b else addDomainKey f bs)"

subsection \<open>What every backend does\<close>

text \<open>\<open>DNSBackend::getSOA\<close>; the last record counts, and \<open>me\<close> is the pointer to the backend.\<close>

definition calculateSOASerial :: "backend \<Rightarrow> nat \<Rightarrow> string \<Rightarrow> SOAData \<Rightarrow> int option" where
  "calculateSOASerial b n domain sd = map_option (\<lambda>rrs. foldl (\<lambda>newest i. max newest (rr_last_modified i)) 0 rrs) (be_list b n domain (soa_domain_id sd))"

definition DNSBackend_getSOA :: "(string \<Rightarrow> int) \<Rightarrow> string \<Rightarrow> nat \<Rightarrow> backend \<Rightarrow> nat \<Rightarrow> string \<Rightarrow> SOAData \<Rightarrow> bool \<times> SOAData" where
  "DNSBackend_getSOA asNum default_soa me b n domain sd =
     (case be_lookup b n qt_SOA domain (-1) of
        [] \<Rightarrow> (False, sd)
      | rrs \<Rightarrow>
          let sd = foldl (\<lambda>sd rr. (fillSOAData asNum (rr_content rr) sd)\<lparr> soa_domain_id := rr_domain_id rr, soa_ttl := rr_ttl rr,
                     soa_scopeMask := rr_scopeMask rr \<rparr>) sd rrs;
              sd = sd\<lparr> soa_qname := domain \<rparr>;
              sd = (if soa_nameserver sd = [] then sd\<lparr> soa_nameserver := default_soa \<rparr> else sd);
              sd = (if soa_hostmaster sd = [] then sd\<lparr> soa_hostmaster := ''hostmaster.'' @ domain \<rparr> else sd);
              sd = (if soa_serial sd = 0 then case calculateSOASerial b (n + 1) domain sd of Some serial \<Rightarrow> sd\<lparr> soa_serial := word_of_int serial \<rparr> | None \<Rightarrow> sd else sd)
          in (True, sd\<lparr> soa_db := Some (Suc me) \<rparr>))"

text \<open>The name is not taken in small letters here, as the first assignment to \<open>lcqname\<close> is lost.\<close>

definition getBeforeAndAfterNames :: "backend \<Rightarrow> nat \<Rightarrow> u32 \<Rightarrow> string \<Rightarrow> string \<Rightarrow> string \<Rightarrow> string \<Rightarrow> bool \<times> string \<times> string" where
  "getBeforeAndAfterNames b n zid zonename qname before after =
     (case be_names_absolute b n zid (labelReverse (makeRelative qname zonename)) [] before after of
        (ret, dnc, before, after) \<Rightarrow> (ret, dotConcat (labelReverse before) zonename, dotConcat (labelReverse after) zonename))"

end
