(* ===== verification/UeberProps.thy ===== *)
theory UeberProps
  imports UeberBackend
begin

text \<open>What the cache of queries remembers, and for how long.\<close>

text \<open>The end of a lookup: what is cached when the last backend has no more records.\<close>

definition finish :: "ueber_env \<Rightarrow> int \<Rightarrow> bool \<Rightarrow> ueber \<Rightarrow> ueber" where
  "finish ue now gotIt ub =
     (let ub = (if ub_ancount ub = 0 \<and> ub_qname ub \<noteq> [] then addNegCache ue now gotIt (ub_question ub) ub else ub)
      in (addCache ue now gotIt (ub_question ub) (ub_answers ub) ub)\<lparr> ub_answers := [] \<rparr>)"

lemma drain:
  assumes "\<not> ub_negcached ub" "\<not> ub_cached ub" "ub_i ub = length (ue_backends ue)"
  shows "gather ue now gotIt ub =
    (ub_hinter ub, finish ue now gotIt (ub\<lparr> ub_hinter := [], ub_ancount := ub_ancount ub + length (ub_hinter ub), ub_answers := ub_answers ub @ ub_hinter ub \<rparr>))"
  using assms
proof (induction "ub_hinter ub" arbitrary: ub)
  case Nil
  have "handle_get ue ub = (None, ub\<lparr> ub_hinter := [] \<rparr>)" using Nil by (cases ub) (simp add: handle_get_def)
  with Nil have "ueber_get ue now gotIt ub = (None, finish ue now gotIt (ub\<lparr> ub_hinter := [] \<rparr>))"
    by (simp add: ueber_get_def Let_def finish_def)
  moreover have "ub\<lparr> ub_hinter := [], ub_ancount := ub_ancount ub + length (ub_hinter ub), ub_answers := ub_answers ub @ ub_hinter ub \<rparr> = ub\<lparr> ub_hinter := [] \<rparr>"
    using Nil(1) [symmetric] by (cases ub) simp
  ultimately show ?case using Nil(1) [symmetric] by (simp add: gather.simps [of ue now gotIt ub])
next
  case (Cons r h)
  let ?ub = "ub\<lparr> ub_hinter := h, ub_ancount := ub_ancount ub + 1, ub_answers := ub_answers ub @ [r] \<rparr>"
  have "ueber_get ue now gotIt ub = (Some r, ?ub)"
    using Cons(3-) Cons(2) [symmetric] by (cases ub) (simp add: ueber_get_def handle_get_def Let_def)
  moreover have "gather ue now gotIt ?ub = (h, finish ue now gotIt (ub\<lparr> ub_hinter := [], ub_ancount := ub_ancount ub + length (ub_hinter ub), ub_answers := ub_answers ub @ ub_hinter ub \<rparr>))"
    using Cons(1) [of ?ub] Cons(3-) Cons(2) [symmetric] by simp
  ultimately show ?case using Cons(2) [symmetric] by (simp add: gather.simps [of ue now gotIt ub])
qed

text \<open>What a lookup that is not answered from the cache gives: the records of the first backend with any.\<close>

definition found :: "ueber_env \<Rightarrow> ueber \<Rightarrow> DNSResourceRecord list \<times> nat" where
  "found ue ub =
     (if ub_hinter ub = [] then try_backends (drop (ub_i ub) (ue_backends ue)) (ub_steps ub) (ub_qtype ub) (ub_qname ub)
      else (ub_hinter ub, ub_steps ub))"

definition gathered_state :: "ueber_env \<Rightarrow> ueber \<Rightarrow> ueber" where
  "gathered_state ue ub =
     ub\<lparr> ub_i := length (ue_backends ue), ub_steps := snd (found ue ub), ub_hinter := [],
       ub_ancount := ub_ancount ub + length (fst (found ue ub)), ub_answers := ub_answers ub @ fst (found ue ub) \<rparr>"

lemma gathered:
  assumes "\<not> ub_negcached ub" "\<not> ub_cached ub"
  shows "gather ue now gotIt ub = (fst (found ue ub), finish ue now gotIt (gathered_state ue ub))"
proof -
  let ?ub = "ub\<lparr> ub_i := length (ue_backends ue), ub_steps := snd (found ue ub) \<rparr>"
  have h: "handle_get ue ub = (case fst (found ue ub) of [] \<Rightarrow> (None, ?ub\<lparr> ub_hinter := [] \<rparr>) | r # rest \<Rightarrow> (Some r, ?ub\<lparr> ub_hinter := rest \<rparr>))"
    by (simp add: handle_get_def found_def Let_def split: list.split prod.split)
  show ?thesis
  proof (cases "fst (found ue ub)")
    case Nil
    then have "gathered_state ue ub = ?ub\<lparr> ub_hinter := [] \<rparr>" by (cases ub) (simp add: gathered_state_def)
    then show ?thesis using assms h Nil by (simp add: gather.simps [of ue now gotIt ub] ueber_get_def Let_def finish_def)
  next
    case (Cons r rest)
    let ?u = "?ub\<lparr> ub_hinter := rest, ub_ancount := ub_ancount ub + 1, ub_answers := ub_answers ub @ [r] \<rparr>"
    have "ueber_get ue now gotIt ub = (Some r, ?u)" using assms h Cons by (simp add: ueber_get_def)
    moreover have "gather ue now gotIt ?u = (rest, finish ue now gotIt (gathered_state ue ub))"
      using drain [of ?u ue now gotIt] assms Cons by (simp add: gathered_state_def)
    ultimately show ?thesis using Cons by (simp add: gather.simps [of ue now gotIt ub])
  qed
qed

subsection \<open>The time to live of the cache\<close>

lemma lowered_ttl: "lowered_ttl ttl rrs \<le> ttl \<and> (\<forall>rr \<in> set rrs. lowered_ttl ttl rrs \<le> rr_ttl rr)"
proof (induction rrs arbitrary: ttl)
  case (Cons rr rrs)
  let ?ttl = "if rr_ttl rr < ttl then rr_ttl rr else ttl"
  have "lowered_ttl ttl (rr # rrs) = lowered_ttl ?ttl rrs" by (simp add: lowered_ttl_def)
  moreover have "?ttl \<le> ttl" "?ttl \<le> rr_ttl rr" by (auto simp: not_less)
  moreover have "lowered_ttl ?ttl rrs \<le> ?ttl" "\<forall>rr \<in> set rrs. lowered_ttl ?ttl rrs \<le> rr_ttl rr" using Cons [of ?ttl] by blast+
  ultimately show ?case by (metis (no_types, lifting) order_trans set_ConsD)
qed (simp add: lowered_ttl_def)

lemma addCache_ttl: "ub_queryttl (addCache ue now gotIt q rrs ub) = lowered_ttl (ub_queryttl ub) rrs \<or> ub_queryttl ub = 0 \<and> addCache ue now gotIt q rrs ub = ub"
  by (simp add: addCache_def Let_def)

lemma addCache_sinks: "ub_queryttl (addCache ue now gotIt q rrs ub) \<le> ub_queryttl ub" "rr \<in> set rrs \<Longrightarrow> ub_queryttl (addCache ue now gotIt q rrs ub) \<le> rr_ttl rr"
  using addCache_ttl [of ue now gotIt q rrs ub] lowered_ttl [of "ub_queryttl ub" rrs] by auto

lemma addNegCache_ttl: "ub_queryttl (addNegCache ue now gotIt q ub) = ub_queryttl ub" "ub_answers (addNegCache ue now gotIt q ub) = ub_answers ub"
  by (simp_all add: addNegCache_def)

lemma finish_sinks:
  "ub_queryttl (finish ue now gotIt ub) \<le> ub_queryttl ub \<and> (\<forall>rr \<in> set (ub_answers ub). ub_queryttl (finish ue now gotIt ub) \<le> rr_ttl rr)"
proof (cases "ub_ancount ub = 0 \<and> ub_qname ub \<noteq> []")
  case True
  let ?ub = "addNegCache ue now gotIt (ub_question ub) ub"
  have "ub_queryttl (finish ue now gotIt ub) = ub_queryttl (addCache ue now gotIt (ub_question ?ub) (ub_answers ?ub) ?ub)" using True by (simp add: finish_def Let_def)
  then show ?thesis using addCache_sinks [where ub = ?ub and ue = ue and now = now and gotIt = gotIt and q = "ub_question ?ub" and rrs = "ub_answers ?ub"] by (simp add: addNegCache_ttl)
next
  case False
  then have "ub_queryttl (finish ue now gotIt ub) = ub_queryttl (addCache ue now gotIt (ub_question ub) (ub_answers ub) ub)" by (auto simp: finish_def Let_def)
  then show ?thesis using addCache_sinks [where ub = ub and ue = ue and now = now and gotIt = gotIt and q = "ub_question ub" and rrs = "ub_answers ub"] by simp
qed

lemma cacheHas_ttl: "cacheHas ue now gotIt q ub = (r, ub') \<Longrightarrow> ub_queryttl ub' = ub_queryttl ub"
  by (auto simp: cacheHas_def split: if_splits prod.splits option.splits)

lemma lookup_ttl: "ueber_lookup ue now gotIt qtype qname z ub = (r, ub') \<Longrightarrow> ub_queryttl ub' = ub_queryttl ub"
  by (auto simp: ueber_lookup_def Let_def dest!: cacheHas_ttl split: if_splits list.splits prod.splits option.splits bool.splits)

lemma addCache_le: "ub_queryttl ub \<le> ttl \<Longrightarrow> ub_queryttl (addCache ue now gotIt q rrs ub) \<le> ttl"
  using addCache_sinks(1) order_trans by blast

lemma getSOA_sinks: "ub_queryttl (snd (ueber_getSOA ue now gotIt domain sd ub)) \<le> ub_queryttl ub"
  by (auto simp: ueber_getSOA_def Let_def addNegCache_ttl dest!: cacheHas_ttl intro!: addCache_le split: if_splits prod.splits option.splits bool.splits list.splits)

text \<open>
  The time to live that answers are cached for only ever sinks: after an answer it is at most the
  smallest one of its records, for all answers that follow, and once it is zero nothing is cached any more.
\<close>

lemma query_ttl_only_sinks:
  assumes "\<not> ub_negcached ub" "\<not> ub_cached ub" "gather ue now gotIt ub = (rrs, ub')"
  shows "ub_queryttl ub' \<le> ub_queryttl ub \<and> (\<forall>rr \<in> set rrs. ub_queryttl ub' \<le> rr_ttl rr) \<and>
    ub_queryttl (snd (ueber_lookup ue now gotIt qtype qname z ub)) = ub_queryttl ub \<and>
    ub_queryttl (snd (ueber_getSOA ue now gotIt domain sd ub)) \<le> ub_queryttl ub \<and>
    (ub_queryttl ub = 0 \<longrightarrow> addCache ue now gotIt q l ub = ub)"
proof -
  have sinks: "ub_queryttl ub' \<le> ub_queryttl ub" "\<forall>rr \<in> set rrs. ub_queryttl ub' \<le> rr_ttl rr"
    using finish_sinks [of ue now gotIt "gathered_state ue ub"] gathered [OF assms(1,2), of ue now gotIt] assms(3)
    by (auto simp: gathered_state_def)
  have "ub_queryttl (snd (ueber_lookup ue now gotIt qtype qname z ub)) = ub_queryttl ub"
    using lookup_ttl [OF surjective_pairing] .
  moreover have "ub_queryttl (snd (ueber_getSOA ue now gotIt domain sd ub)) \<le> ub_queryttl ub" by (rule getSOA_sinks)
  ultimately show ?thesis using sinks by (simp add: addCache_def)
qed

end
