(* ===== verification/Spec2Isabelle.thy ===== *)
theory Spec2Isabelle
  imports Misc Base32 Base64 Dns PacketReader PacketWriter Names Timegm ParserProps IpUtils Md5 WriterFrame Tsig DnsPacket DnsPacketProps MultiIndex PacketCache RecursorCache RecursorPacketCache ZoneParser ZoneParserProps Throttle ThrottleProps Hints SyncRes Resolver EdnsFallback ResolverProps DnssecSigner PacketHandler Denial Answering AnsweringProps AnsweringSafe SigningProps AnsweringExample StateExn DnssecKeeper KeeperProps UeberBackend UeberProps
begin

text \<open>
  A model of the core of the PowerDNS name server, \<open>src/pdns/pdns\<close>: the DNS data types, reading and
  writing of packets and zone texts, and the parts that use them.

  \<^bold>\<open>Layers.\<close> \<open>Prelude\<close> has the machine integers, characters, exceptions and the error monad
  (\<open>exn\<close>, \<open>bindE\<close>) shared by all theories. An exception of the code is an \<open>Inl\<close> value; reading
  outside an object, or what C++ leaves undefined, is \<open>Inl UndefinedBehaviour\<close>. Strings are character
  lists, bytes are 8-bit words, and \<open>c2b\<close>, \<open>b2c\<close> convert; integers keep their width.

  \<^item> \<open>Misc\<close> (\<open>misc.cc\<close>, \<open>misc.hh\<close>): case folding, domain suffixes, tokenising, service texts, times
    and the retrying writes. Shown: tokens are found again after joining, comparisons ignore case
    and order strings by their folded characters, \<open>sendData\<close> writes everything in order.
  \<^item> \<open>Base32\<close>, \<open>Base64\<close>: the codecs; decoding inverts encoding.
  \<^item> \<open>Timegm\<close> (\<open>utility.hh\<close>, \<open>unix_utility.cc\<close>): calendar times; \<open>Utility::timegm\<close> counts the days
    of the proleptic calendar.
  \<^item> \<open>Dns\<close> (\<open>dns.hh\<close>, \<open>dns.cc\<close>, \<open>qtype.cc\<close>): header, records, SOA data, question hash; the
    header's bit fields are read back as they were written.
  \<^item> \<open>PacketReader\<close> (\<open>dnsparser.cc\<close>): the cursor over a packet, names with compression, ageing of packets.
  \<^item> \<open>PacketWriter\<close>, \<open>Names\<close> (\<open>dnswriter.cc\<close>, \<open>dnslabeltext.rl\<close>): the writer with its label map
    and rollback; a name written with compression is read back as it was.
  \<^item> \<open>RecordText\<close> (\<open>rcpgenerator.cc\<close>), \<open>RecordFields\<close>, \<open>NsecRecords\<close>, \<open>LocRecord\<close>,
    \<open>RecordTypes\<close>, \<open>RecordRoundtrip\<close> (\<open>dnsrecords.cc\<close>, \<open>nsecrecords.cc\<close>, \<open>sillyrecords.cc\<close>): record
    contents of every type, from and to text and wire, with the registry that makes them.
  \<^item> \<open>PacketParser\<close>, \<open>ParserProps\<close> (\<open>dnsparser.cc\<close>, \<open>dnsrecords.cc\<close>): whole packets, stored records,
    EDNS options; what the writer wrote is parsed as it was given.
  \<^item> \<open>IpUtils\<close> (\<open>iputils.hh\<close>, \<open>misc.cc\<close>, \<open>ednssubnet.cc\<close>): addresses, netmasks, the client subnet
    option; matching is equality of bit prefixes.
  \<^item> \<open>Md5\<close> (\<open>md5.cc\<close>, \<open>dnssecinfra.cc\<close>): the digest in pieces refines the digest of the whole.
  \<^item> \<open>WriterFrame\<close>, \<open>Tsig\<close> (\<open>dnssecinfra.cc\<close>): what the writer leaves alone, and transaction
    signatures; the receiver rebuilds the message that was signed.
  \<^item> \<open>DnsPacket\<close>, \<open>DnsPacketProps\<close> (\<open>dnspacket.cc\<close>): queries and replies; header, size and order of
    the records of a reply.

  \<^bold>\<open>Caches.\<close> \<open>MultiIndex\<close> (\<open>cachecleaner.hh\<close>) has the containers the caches share, as lists sorted by a
  comparison with a second order of use, and pruning. Its locale \<open>ordered_index\<close> asks of a comparison that
  it is the order of a key, and gives the laws of finding, inserting and erasing; every cache interprets it
  on its own comparison.

  \<^item> \<open>PacketCache\<close> (\<open>packetcache.cc\<close>) refines a map with times to die. \<open>RecursorCache\<close>
    (\<open>recursor_cache.cc\<close>): replacing and finding records, names compressed against their owner.
    \<open>RecursorPacketCache\<close> (\<open>recpacketcache.cc\<close>): its comparison is not an order.
  \<^item> \<open>StateExn\<close>, \<open>DnssecKeeper\<close>, \<open>KeeperProps\<close> (\<open>dbdnsseckeeper.cc\<close>): a state monad with exceptions,
    and the keys and settings of zones with their two caches (interpretations \<open>key_entries\<close> and
    \<open>meta_entries\<close>); the cache of settings is invisible.
  \<^item> \<open>UeberBackend\<close>, \<open>UeberProps\<close> (\<open>ueberbackend.cc\<close>, \<open>dnsbackend.cc\<close>): the backends asked in turn with
    the cache of queries; what a lookup gathers, and that its time to live only sinks.

  \<^bold>\<open>Zone files.\<close> \<open>ZoneParser\<close>, \<open>ZoneParserProps\<close> (\<open>zoneparser-tng.cc\<close>): templates, includes and records;
  reading ends, and a line is read as the record it spells.

  \<^bold>\<open>Resolver.\<close> It looks into its caches, finds the servers of the closest zone, asks them and stores their
  replies, until it has an answer.

  \<^item> \<open>Throttle\<close>, \<open>ThrottleProps\<close> (\<open>syncres.hh\<close>): the throttles on servers and questions, as ordered maps.
    The locale \<open>key_order\<close> has what a comparison of keys must satisfy, and is interpreted on that of
    servers and that of questions.
  \<^item> \<open>Hints\<close> (\<open>reczones.cc\<close>), \<open>SyncRes\<close>, \<open>Resolver\<close>, \<open>EdnsFallback\<close> (\<open>syncres.cc\<close>): the state of the
    resolver in a monad of its own and class \<open>SyncRes\<close>, function by function. The outside is a parameter
    indexed by the number of steps made: clock, network and random order may answer differently each time.
  \<^item> \<open>ResolverProps\<close>: a resolution ends, replies stay within their zone, and their times are bounded.

  \<^bold>\<open>Authoritative server.\<close> A question is answered in rounds, one for each zone that its aliases lead to.

  \<^item> \<open>DnssecSigner\<close> (\<open>dnssecsigner.cc\<close>, \<open>serialtweaker.cc\<close>): the monad of an answer - the reply so far, the
    number of requests made to the backends, a list of the effects elsewhere - and the signing of answers.
  \<^item> \<open>PacketHandler\<close>, \<open>Denial\<close>, \<open>Answering\<close> (\<open>packethandler.cc\<close>): referrals, wildcards, notifications; NSEC
    and NSEC3; the rounds and \<open>questionOrRecurse\<close>.
  \<^item> \<open>AnsweringProps\<close>: the locale \<open>packet_kept\<close> carries a relation of replies through every operation of the
    handler; it is interpreted for what a reply repeats of the question (\<open>asked\<close>) and for replies that deny
    nothing (\<open>undenied\<close>).
  \<^item> \<open>AnsweringSafe\<close>: \<open>reaches\<close> is the relation of an answer to the rounds it makes. A name is denied only in a
    round that found nothing, and a chain of aliases is given up after eleven rounds. \<open>SigningProps\<close>: signing
    only adds signatures. \<open>AnsweringExample\<close> has concrete backends and the witnesses.

  \<^bold>\<open>Parameters.\<close> The C library's address conversions and local time, the texts of its exceptions, and
  memory that a constructor leaves unset are arguments of the definitions that use them; so are the
  backends, the files a zone includes, the network, the clock, the key engines and the serialisation of Boost.

  \<^bold>\<open>Termination and bounds.\<close> Most loops are recursive functions, structural or with a measure. The chain
  of compression pointers in a name and the rounds of an answer are bounded by the code itself. Reading a
  zone file and its templates are partial functions into \<open>option\<close>, as a template can be endless;
  \<open>zone_get_ends\<close> says when they give a result. The mutual recursion of the resolver takes fuel: 13 is
  enough by \<open>resolution_ends\<close>, since the code refuses to go deeper than its limits, and more fuel changes
  nothing.

  \<^bold>\<open>Not modelled.\<close> Sockets, threads and logging, and with them the interleaving of several questions that share
  a cache: each is modelled from its start to its end. The key engines and the making of one signature; the
  backends for databases; the communicators, which transfer zones; the bundled PolarSSL, AES and Ed25519
  sources and the Windows ports; printing of locations, which computes with floating point numbers. The C
  function \<open>atoi\<close> has no overflow here, where C leaves it undefined.
\<close>

end
